(* ===== verification/Prelude.thy ===== *)
theory Prelude
  imports Main "HOL-Library.List_Lexorder" "HOL-Library.Char_ord"
    "HOL-Library.Product_Lexorder" "HOL-Library.Multiset"
begin

text \<open>
  What the component theories share: the result type of fallible operations, the
  stable sort behind Rust's \<open>sort_by\<close> with the locale of comparators that makes it
  correct, first-occurrence deduplication, and keyed tables kept as lists of rows
  (the model of a SQL table with a primary key and of a \<open>HashMap\<close>).
\<close>

named_theorems table_simps \<open>lookups after an update of a keyed table\<close>
named_theorems sorting_intros \<open>facts about \<open>sort_by\<close>\<close>

subsection \<open>Results\<close>

text \<open>\<open>Inl e\<close> is an error return, \<open>Inr a\<close> a value; \<open>rbind\<close> is the \<open>?\<close> operator.\<close>

definition rbind :: "'e + 'a \<Rightarrow> ('a \<Rightarrow> 'e + 'b) \<Rightarrow> 'e + 'b" where
  "rbind r f = (case r of Inl e \<Rightarrow> Inl e | Inr a \<Rightarrow> f a)"

lemma rbind_simps [simp]:
  "rbind (Inl e) f = Inl e"
  "rbind (Inr a) f = f a"
  by (simp_all add: rbind_def)

lemma rbind_InrE:
  assumes "rbind r f = Inr b"
  obtains a where "r = Inr a" and "f a = Inr b"
  using assms by (cases r) auto

lemma rbind_cong [fundef_cong]:
  "r = r' \<Longrightarrow> (\<And>a. r' = Inr a \<Longrightarrow> f a = f' a) \<Longrightarrow> rbind r f = rbind r' f'"
  by (cases r') auto

text \<open>Run a fallible function over a list, stopping at the first error (\<open>collect\<close>).\<close>

fun rmap :: "('a \<Rightarrow> 'e + 'b) \<Rightarrow> 'a list \<Rightarrow> 'e + 'b list" where
  "rmap f [] = Inr []"
| "rmap f (x # xs) = rbind (f x) (\<lambda>y. rbind (rmap f xs) (\<lambda>ys. Inr (y # ys)))"

lemma rmap_Inr_length: "rmap f xs = Inr ys \<Longrightarrow> length ys = length xs"
  by (induction xs arbitrary: ys) (auto elim!: rbind_InrE)

lemma rmap_total: "(\<And>x. x \<in> set xs \<Longrightarrow> f x = Inr (g x)) \<Longrightarrow> rmap f xs = Inr (map g xs)"
  by (induction xs) auto

subsection \<open>Stable sorting by a comparator\<close>

text \<open>
  \<open>le a b\<close> stands for \<open>cmp(a, b) != Greater\<close>. Rust's \<open>sort_by\<close> is stable, and so is
  insertion from the right: an element goes in front of its equals.
\<close>

fun insert_by :: "('a \<Rightarrow> 'a \<Rightarrow> bool) \<Rightarrow> 'a \<Rightarrow> 'a list \<Rightarrow> 'a list" where
  "insert_by le x [] = [x]"
| "insert_by le x (y # ys) = (if le x y then x # y # ys else y # insert_by le x ys)"

definition sort_by :: "('a \<Rightarrow> 'a \<Rightarrow> bool) \<Rightarrow> 'a list \<Rightarrow> 'a list" where
  "sort_by le xs = foldr (insert_by le) xs []"

lemma sort_by_simps [simp]:
  "sort_by le [] = []"
  "sort_by le (x # xs) = insert_by le x (sort_by le xs)"
  by (simp_all add: sort_by_def)

lemma mset_insert_by [simp]: "mset (insert_by le x xs) = add_mset x (mset xs)"
  by (induction xs) auto

lemma mset_sort_by [simp]: "mset (sort_by le xs) = mset xs"
  by (induction xs) auto

lemma set_insert_by [simp]: "set (insert_by le x xs) = insert x (set xs)"
  by (metis mset_insert_by set_mset_add_mset_insert set_mset_mset)

lemma set_sort_by [simp]: "set (sort_by le xs) = set xs"
  by (metis mset_sort_by set_mset_mset)

lemma length_sort_by [simp]: "length (sort_by le xs) = length xs"
  by (metis mset_sort_by size_mset)

lemma distinct_map_sort_by [simp]: "distinct (map f (sort_by le xs)) = distinct (map f xs)"
  by (metis mset_map mset_sort_by mset_eq_imp_distinct_iff)

text \<open>\<open>max_by\<close>: the last of the maximal elements.\<close>

fun max_by :: "('a \<Rightarrow> 'a \<Rightarrow> bool) \<Rightarrow> 'a list \<Rightarrow> 'a option" where
  "max_by le [] = None"
| "max_by le (x # xs) =
     (case max_by le xs of None \<Rightarrow> Some x | Some y \<Rightarrow> if le x y then Some y else Some x)"

lemma max_by_None [simp]: "max_by le xs = None \<longleftrightarrow> xs = []"
  by (cases xs) (auto split: option.splits)

lemma max_by_in: "max_by le xs = Some x \<Longrightarrow> x \<in> set xs"
  by (induction xs arbitrary: x) (auto split: option.splits if_splits)

text \<open>
  A comparator that is a total preorder on the elements satisfying \<open>ok\<close>: the contract
  \<open>sort_by\<close> asks of its argument. Elements outside \<open>ok\<close> (a score that is not a number)
  are where the contract may fail.
\<close>

locale comparator =
  fixes ok :: "'a \<Rightarrow> bool" and le :: "'a \<Rightarrow> 'a \<Rightarrow> bool"
  assumes le_total: "ok x \<Longrightarrow> ok y \<Longrightarrow> le x y \<or> le y x"
    and le_trans: "ok x \<Longrightarrow> ok y \<Longrightarrow> ok z \<Longrightarrow> le x y \<Longrightarrow> le y z \<Longrightarrow> le x z"
begin

lemma sorted_insert_by:
  assumes "ok x" and "\<forall>y\<in>set ys. ok y" and "sorted_wrt le ys"
  shows "sorted_wrt le (insert_by le x ys)"
  using assms
proof (induction ys)
  case Nil
  then show ?case by simp
next
  case (Cons y ys)
  show ?case
  proof (cases "le x y")
    case True
    have "le x z" if "z \<in> set ys" for z
      using Cons.prems True that le_trans [of x y z] by simp
    with True Cons.prems show ?thesis by simp
  next
    case False
    with Cons.prems have "le y x" using le_total [of x y] by simp
    with False Cons show ?thesis by simp
  qed
qed

lemma sorted_sort_by: "\<forall>x\<in>set xs. ok x \<Longrightarrow> sorted_wrt le (sort_by le xs)"
  by (induction xs) (auto intro: sorted_insert_by)

lemma sort_by_head_least:
  assumes "\<forall>x\<in>set xs. ok x" and "sort_by le xs = y # ys" and "z \<in> set xs"
  shows "le y z"
proof -
  have "z \<in> set (sort_by le xs)" using assms(3) by simp
  then have "z = y \<or> z \<in> set ys" using assms(2) by simp
  moreover have "\<forall>x\<in>set ys. le y x"
    using sorted_sort_by [OF assms(1)] assms(2) by simp
  moreover have "ok y"
    using assms(1,2) set_sort_by [of le xs] by auto
  ultimately show ?thesis using le_total by blast
qed

lemma max_by_greatest:
  "\<forall>x\<in>set xs. ok x \<Longrightarrow> max_by le xs = Some y \<Longrightarrow> x \<in> set xs \<Longrightarrow> le x y"
proof (induction xs arbitrary: x y)
  case (Cons z zs)
  show ?case
  proof (cases "max_by le zs")
    case None
    then have "x = z" "y = z" using Cons.prems by auto
    then show ?thesis using Cons.prems(1) le_total [of z z] by simp
  next
    case (Some w)
    have w: "w \<in> set zs" "\<forall>v\<in>set zs. le v w"
      using max_by_in [OF Some] Cons.IH [OF _ Some] Cons.prems(1) by auto
    have oks: "ok z" "ok w" "ok x" using Cons.prems(1,3) w(1) by auto
    show ?thesis
    proof (cases "le z w")
      case True
      then show ?thesis using Some w Cons.prems(2,3) by auto
    next
      case False
      then have "le w z" using le_total oks by blast
      then show ?thesis
        using False Some w Cons.prems le_total [of z z] le_trans [of x w z] oks by auto
    qed
  qed
qed simp

lemma insert_by_front: "\<forall>y\<in>set ys. le x y \<Longrightarrow> insert_by le x ys = x # ys"
  by (cases ys) auto

lemma sort_by_sorted: "sorted_wrt le xs \<Longrightarrow> sort_by le xs = xs"
  by (induction xs) (simp_all add: insert_by_front)

lemma sort_by_cong_sorted:
  assumes "\<forall>x\<in>set xs. ok x" and "mset ys = mset xs"
    and anti: "\<And>x y. x \<in> set xs \<Longrightarrow> y \<in> set xs \<Longrightarrow> le x y \<Longrightarrow> le y x \<Longrightarrow> x = y"
  shows "sort_by le ys = sort_by le xs"
proof -
  have uniq: "as = bs"
    if "mset as = mset bs" "set bs \<subseteq> set xs" "sorted_wrt le as" "sorted_wrt le bs" for as bs
    using that
  proof (induction as arbitrary: bs)
    case Nil
    then show ?case by simp
  next
    case (Cons a as)
    then obtain b bs' where bs: "bs = b # bs'" by (cases bs) auto
    have sets: "set (a # as) = set bs" using Cons.prems(1) by (metis set_mset_mset)
    have aok: "a \<in> set xs" "b \<in> set xs" using sets Cons.prems(2) bs by auto
    have "a = b \<or> (le a b \<and> le b a)"
      using sets Cons.prems(3,4) bs
      by (metis list.set_intros(1) set_ConsD sorted_wrt.simps(2))
    then have ab: "a = b" using anti aok by blast
    have "as = bs'"
    proof (rule Cons.IH)
      show "mset as = mset bs'" using Cons.prems(1) bs ab by simp
      show "set bs' \<subseteq> set xs" using Cons.prems(2) bs by simp
      show "sorted_wrt le as" using Cons.prems(3) by simp
      show "sorted_wrt le bs'" using Cons.prems(4) bs by simp
    qed
    with ab bs show ?case by simp
  qed
  have sy: "set ys = set xs" using assms(2) by (metis set_mset_mset)
  show ?thesis
  proof (rule uniq)
    show "mset (sort_by le ys) = mset (sort_by le xs)" using assms(2) by simp
    show "set (sort_by le xs) \<subseteq> set xs" by simp
    show "sorted_wrt le (sort_by le ys)" using assms(1) sy by (intro sorted_sort_by) simp
    show "sorted_wrt le (sort_by le xs)" using assms(1) by (intro sorted_sort_by)
  qed
qed

lemma filter_insert_by_neg: "\<not> P x \<Longrightarrow> filter P (insert_by le x ys) = filter P ys"
  by (induction ys) auto

lemma filter_insert_by_eq:
  assumes "ok x" and "\<forall>y\<in>set ys. ok y" and "sorted_wrt le ys"
  shows "filter (\<lambda>y. le x y \<and> le y x) (insert_by le x ys)
       = x # filter (\<lambda>y. le x y \<and> le y x) ys"
  using assms
proof (induction ys)
  case Nil
  then show ?case using le_total [of x x] by simp
next
  case (Cons y ys)
  then show ?case using le_total [of x x] by auto
qed

end

subsection \<open>First occurrences\<close>

text \<open>
  The idiom \<open>filter(|x| seen.insert(key(x)))\<close> of the code: keep an element when its key
  was not seen before.
\<close>

fun dedup_seen :: "('a \<Rightarrow> 'k) \<Rightarrow> 'k set \<Rightarrow> 'a list \<Rightarrow> 'a list" where
  "dedup_seen key seen [] = []"
| "dedup_seen key seen (x # xs) =
     (if key x \<in> seen then dedup_seen key seen xs
      else x # dedup_seen key (insert (key x) seen) xs)"

abbreviation dedup_on :: "('a \<Rightarrow> 'k) \<Rightarrow> 'a list \<Rightarrow> 'a list" where
  "dedup_on key xs \<equiv> dedup_seen key {} xs"

lemma dedup_seen_keys: "key ` set (dedup_seen key seen xs) = key ` set xs - seen"
  by (induction xs arbitrary: seen) auto

lemma dedup_seen_subset: "set (dedup_seen key seen xs) \<subseteq> set xs"
  by (induction xs arbitrary: seen) auto

lemma dedup_seen_distinct: "distinct (map key (dedup_seen key seen xs))"
proof (induction xs arbitrary: seen)
  case Nil
  then show ?case by simp
next
  case (Cons x xs)
  have "key x \<notin> key ` set (dedup_seen key (insert (key x) seen) xs)"
    unfolding dedup_seen_keys by simp
  with Cons show ?case by simp
qed

lemma dedup_seen_length: "length (dedup_seen key seen xs) \<le> length xs"
  by (induction xs arbitrary: seen) (auto intro: le_SucI)

lemma dedup_seen_id: "distinct (map key xs) \<Longrightarrow> key ` set xs \<inter> seen = {} \<Longrightarrow> dedup_seen key seen xs = xs"
  by (induction xs arbitrary: seen) auto

subsection \<open>Keyed tables\<close>

text \<open>
  A table is a list of rows in row-id order with a key. \<open>tab_find\<close> is a lookup by key,
  \<open>tab_upsert\<close> is \<open>INSERT ... ON CONFLICT(key) DO UPDATE\<close> (also \<open>entry().or_insert\<close> with
  a change), \<open>tab_delete\<close> a delete by key.
\<close>

definition tab_find :: "('r \<Rightarrow> 'k) \<Rightarrow> 'k \<Rightarrow> 'r list \<Rightarrow> 'r option" where
  "tab_find key k rows = find (\<lambda>r. key r = k) rows"

fun tab_upsert :: "('r \<Rightarrow> 'k) \<Rightarrow> 'k \<Rightarrow> 'r \<Rightarrow> ('r \<Rightarrow> 'r) \<Rightarrow> 'r list \<Rightarrow> 'r list" where
  "tab_upsert key k new upd [] = [new]"
| "tab_upsert key k new upd (r # rows) =
     (if key r = k then upd r # rows else r # tab_upsert key k new upd rows)"

definition tab_delete :: "('r \<Rightarrow> bool) \<Rightarrow> 'r list \<Rightarrow> 'r list" where
  "tab_delete p rows = filter (\<lambda>r. \<not> p r) rows"

definition tab_unique :: "('r \<Rightarrow> 'k) \<Rightarrow> 'r list \<Rightarrow> bool" where
  "tab_unique key rows = distinct (map key rows)"

lemma tab_find_Nil [simp]: "tab_find key k [] = None"
  by (simp add: tab_find_def)

lemma tab_find_Cons [simp]:
  "tab_find key k (r # rows) = (if key r = k then Some r else tab_find key k rows)"
  by (simp add: tab_find_def)

lemma tab_find_Some: "tab_find key k rows = Some r \<Longrightarrow> r \<in> set rows \<and> key r = k"
  by (induction rows) (auto split: if_splits)

lemma tab_find_None: "tab_find key k rows = None \<longleftrightarrow> k \<notin> key ` set rows"
  by (induction rows) auto

lemma tab_find_unique:
  "tab_unique key rows \<Longrightarrow> r \<in> set rows \<Longrightarrow> tab_find key (key r) rows = Some r"
  by (induction rows) (auto simp: tab_unique_def)

lemma tab_upsert_keys:
  assumes "key new = k" and "\<And>r. key r = k \<Longrightarrow> key (upd r) = k"
  shows "map key (tab_upsert key k new upd rows)
       = (if k \<in> key ` set rows then map key rows else map key rows @ [k])"
  using assms by (induction rows) auto

lemma tab_unique_upsert [table_simps]:
  assumes "key new = k" and "\<And>r. key r = k \<Longrightarrow> key (upd r) = k"
  shows "tab_unique key (tab_upsert key k new upd rows) = tab_unique key rows"
proof -
  have "map key (tab_upsert key k new upd rows)
      = (if k \<in> key ` set rows then map key rows else map key rows @ [k])"
    using assms by (rule tab_upsert_keys)
  then show ?thesis by (simp add: tab_unique_def)
qed

lemma tab_find_upsert_same [table_simps]:
  assumes "key new = k" and "\<And>r. key r = k \<Longrightarrow> key (upd r) = k"
  shows "tab_find key k (tab_upsert key k new upd rows)
       = Some (case tab_find key k rows of None \<Rightarrow> new | Some r \<Rightarrow> upd r)"
  using assms by (induction rows) auto

lemma tab_find_upsert_other [table_simps]:
  assumes "key new = k" and "\<And>r. key r = k \<Longrightarrow> key (upd r) = k" and "k' \<noteq> k"
  shows "tab_find key k' (tab_upsert key k new upd rows) = tab_find key k' rows"
  using assms by (induction rows) auto

lemma tab_upsert_set:
  "set (tab_upsert key k new upd rows) \<subseteq> insert new (set rows \<union> upd ` set rows)"
  by (induction rows) auto

lemma tab_upsert_absent: "k \<notin> key ` set rows \<Longrightarrow> tab_upsert key k new upd rows = rows @ [new]"
  by (induction rows) auto

lemma set_tab_delete [simp]: "set (tab_delete p rows) = {r \<in> set rows. \<not> p r}"
  by (simp add: tab_delete_def)

lemma tab_unique_delete [table_simps]: "tab_unique key rows \<Longrightarrow> tab_unique key (tab_delete p rows)"
  by (simp add: tab_unique_def tab_delete_def distinct_map_filter)

lemma tab_find_delete [table_simps]:
  "tab_find key k (tab_delete (\<lambda>r. q (key r)) rows) = (if q k then None else tab_find key k rows)"
  by (induction rows) (auto simp: tab_delete_def)

text \<open>
  The contract of a keyed store as its clients see it: what a lookup returns after a put
  and after a delete, under the invariant of the store.
\<close>

locale keyed_store =
  fixes inv :: "'t \<Rightarrow> bool"
    and get :: "'k \<Rightarrow> 't \<Rightarrow> 'v option"
    and put :: "'k \<Rightarrow> 'v \<Rightarrow> 't \<Rightarrow> 't"
    and del :: "'k \<Rightarrow> 't \<Rightarrow> 't"
  assumes inv_put: "inv t \<Longrightarrow> inv (put k v t)"
    and inv_del: "inv t \<Longrightarrow> inv (del k t)"
    and get_put: "inv t \<Longrightarrow> get k' (put k v t) = (if k' = k then Some v else get k' t)"
    and get_del: "inv t \<Longrightarrow> get k' (del k t) = (if k' = k then None else get k' t)"
begin

lemma get_put_same: "inv t \<Longrightarrow> get k (put k v t) = Some v"
  by (simp add: get_put)

lemma get_put_put: "inv t \<Longrightarrow> get k' (put k w (put k v t)) = get k' (put k w t)"
  by (simp add: get_put inv_put)

lemma get_del_put: "inv t \<Longrightarrow> get k (del k (put k v t)) = None"
  by (simp add: get_del inv_put)

text \<open>A run of puts and deletes refines the same run on a map.\<close>

definition run_ops :: "('k \<times> 'v option) list \<Rightarrow> 't \<Rightarrow> 't" where
  "run_ops ops t = fold (\<lambda>(k, v) t. case v of Some x \<Rightarrow> put k x t | None \<Rightarrow> del k t) ops t"

lemma inv_step: "inv t \<Longrightarrow> inv (case v of Some x \<Rightarrow> put k x t | None \<Rightarrow> del k t)"
  by (simp add: inv_put inv_del split: option.splits)

lemma run_ops_inv: "inv t \<Longrightarrow> inv (run_ops ops t)"
proof (induction ops arbitrary: t)
  case Nil
  then show ?case by (simp add: run_ops_def)
next
  case (Cons op ops)
  then show ?case
    using Cons.IH [OF inv_step [of t "fst op" "snd op"]]
    by (simp add: run_ops_def case_prod_unfold)
qed

lemma run_ops_refines_map:
  "inv t \<Longrightarrow> (\<lambda>k. get k (run_ops ops t)) = fold (\<lambda>(k, v) m. m(k := v)) ops (\<lambda>k. get k t)"
proof (induction ops arbitrary: t)
  case Nil
  then show ?case by (simp add: run_ops_def)
next
  case (Cons op ops)
  obtain k v where op: "op = (k, v)" by (cases op)
  let ?t' = "case v of Some x \<Rightarrow> put k x t | None \<Rightarrow> del k t"
  have inv': "inv ?t'" using Cons.prems by (rule inv_step)
  have "(\<lambda>k'. get k' ?t') = (\<lambda>k. get k t)(k := v)"
    using Cons.prems by (auto simp: get_put get_del fun_eq_iff split: option.splits)
  with Cons.IH [OF inv'] show ?case
    by (simp only: run_ops_def op fold.simps comp_apply prod.case)
qed

end

subsection \<open>Batches\<close>

text \<open>\<open>slice.chunks(n)\<close>: consecutive batches of \<open>n\<close>, the last one shorter.\<close>

function batches :: "nat \<Rightarrow> 'a list \<Rightarrow> 'a list list" where
  "batches n xs = (if xs = [] \<or> n = 0 then [] else take n xs # batches n (drop n xs))"
  by pat_completeness auto
termination
  by (relation "measure (\<lambda>(n, xs). length xs)") auto

declare batches.simps [simp del]

lemma concat_batches: "0 < n \<Longrightarrow> concat (batches n xs) = xs"
proof (induction n xs rule: batches.induct)
  case (1 n xs)
  then show ?case by (cases "xs = []") (simp_all add: batches.simps)
qed

lemma batches_Nil [simp]: "batches n [] = []"
  by (simp add: batches.simps)

lemma batches_bound: "b \<in> set (batches n xs) \<Longrightarrow> b \<noteq> [] \<and> length b \<le> n"
proof (induction n xs rule: batches.induct)
  case (1 n xs)
  then show ?case
    by (cases "xs = [] \<or> n = 0") (auto simp: batches.simps [of n xs] batches.simps [of n "[]"])
qed

end
