(* ===== verification/RustStr.thy ===== *)
theory RustStr
  imports Prelude
begin

text \<open>
  Rust's \<open>str\<close> as its UTF-8 bytes: a \<open>string\<close> is a list of bytes (\<open>char\<close> is an 8-bit
  value here), offsets and lengths count bytes, and the operations of the standard
  library that the program uses are written over them. The tables of the Unicode
  character database that depend on its version are the fields of \<open>unicode\<close>; the
  White\_Space set is fixed and written out. A slice whose ends are out of range or
  inside a character panics in Rust: \<open>str_slice\<close> returns \<open>None\<close> there.
\<close>

record unicode =
  u_lower :: "string \<Rightarrow> string"       \<comment> \<open>\<open>str::to_lowercase\<close>\<close>
  u_alphabetic :: "nat \<Rightarrow> bool"       \<comment> \<open>\<open>char::is_alphabetic\<close> of a code point\<close>
  u_decimal :: "nat \<Rightarrow> bool"          \<comment> \<open>general category Nd, the \<open>\d\<close> of the regex crate\<close>

abbreviation byte :: "char \<Rightarrow> nat" where
  "byte c \<equiv> of_char c"

abbreviation NL :: char where "NL \<equiv> CHR 0x0A"
abbreviation CR :: char where "CR \<equiv> CHR 0x0D"

subsection \<open>Characters and boundaries\<close>

definition is_cont :: "char \<Rightarrow> bool" where
  "is_cont c \<longleftrightarrow> 128 \<le> byte c \<and> byte c < 192"

definition is_char_boundary :: "string \<Rightarrow> nat \<Rightarrow> bool" where
  "is_char_boundary s i \<longleftrightarrow>
     (if i = 0 then True
      else if length s \<le> i then i = length s
      else \<not> is_cont (s ! i))"

text \<open>
  Byte length of the well-formed character at the front, 0 when there is none: the lead
  byte gives the length, the following bytes continue it, and the second byte excludes
  the overlong forms, the surrogates and what lies beyond U+10FFFF.
\<close>

definition lead_len :: "char \<Rightarrow> nat" where
  "lead_len a =
     (if byte a < 128 then 1
      else if byte a < 194 then 0
      else if byte a < 224 then 2
      else if byte a < 240 then 3
      else if byte a < 245 then 4
      else 0)"

definition second_ok :: "char \<Rightarrow> char \<Rightarrow> bool" where
  "second_ok a b \<longleftrightarrow>
     (byte a = 224 \<longrightarrow> 160 \<le> byte b) \<and> (byte a = 237 \<longrightarrow> byte b < 160)
     \<and> (byte a = 240 \<longrightarrow> 144 \<le> byte b) \<and> (byte a = 244 \<longrightarrow> byte b < 144)"

fun seq_len :: "string \<Rightarrow> nat" where
  "seq_len [] = 0"
| "seq_len (a # r) =
     (let n = lead_len a in
      if n \<le> Suc (length r) \<and> list_all is_cont (take (n - 1) r)
         \<and> (1 < n \<longrightarrow> second_ok a (hd r))
      then n else 0)"

lemma lead_len_le: "lead_len a \<le> 4"
  by (simp add: lead_len_def)

lemma lead_len_cont: "is_cont a \<Longrightarrow> lead_len a = 0"
  by (simp add: lead_len_def is_cont_def)

lemma seq_len_shape:
  assumes "0 < seq_len s"
  shows "seq_len s \<le> length s" and "seq_len s \<le> 4" and "\<not> is_cont (s ! 0)"
    and "\<And>k. 0 < k \<Longrightarrow> k < seq_len s \<Longrightarrow> is_cont (s ! k)"
proof -
  obtain a r where s: "s = a # r" using assms by (cases s) auto
  have n: "seq_len s = lead_len a" "lead_len a \<le> Suc (length r)"
      "list_all is_cont (take (lead_len a - 1) r)" "0 < lead_len a"
    using assms unfolding s by (auto simp: Let_def split: if_splits)
  show "seq_len s \<le> length s" using n s by simp
  show "seq_len s \<le> 4" using n lead_len_le by simp
  show "\<not> is_cont (s ! 0)" using n(4) lead_len_cont [of a] s by auto
  fix k
  assume k: "0 < k" "k < seq_len s"
  then have "s ! k = take (lead_len a - 1) r ! (k - 1)" using n s by simp
  moreover have "k - 1 < length (take (lead_len a - 1) r)" using k n by simp
  ultimately show "is_cont (s ! k)" using n(3) by (simp add: list_all_length)
qed

lemma seq_len_ascii: "s \<noteq> [] \<Longrightarrow> byte (hd s) < 128 \<Longrightarrow> seq_len s = 1"
  by (cases s) (auto simp: lead_len_def)

lemma seq_len_one_ascii: "seq_len s = 1 \<Longrightarrow> byte (s ! 0) < 128"
  by (cases s) (auto simp: lead_len_def Let_def split: if_splits)

lemma seq_len_take: "seq_len s \<le> i \<Longrightarrow> 0 < seq_len s \<Longrightarrow> seq_len (take i s) = seq_len s"
proof (cases s)
  case (Cons a r)
  assume le: "seq_len s \<le> i" and pos: "0 < seq_len s"
  have n: "seq_len s = lead_len a" "lead_len a \<le> Suc (length r)"
      "list_all is_cont (take (lead_len a - 1) r)" "1 < lead_len a \<longrightarrow> second_ok a (hd r)"
    using pos unfolding Cons by (auto simp: Let_def split: if_splits)
  obtain j where i: "i = Suc j" using le pos by (cases i) auto
  have "take (lead_len a - 1) (take j r) = take (lead_len a - 1) r"
    using le n(1) i by (simp add: take_take min_absorb1)
  moreover have "1 < lead_len a \<Longrightarrow> hd (take j r) = hd r"
    using le n(1) i by (cases r; cases j) auto
  ultimately show ?thesis using n le unfolding Cons i by (simp add: Let_def)
qed simp

declare seq_len.simps(2) [simp del]

text \<open>The type invariant of \<open>str\<close>: the bytes are well-formed UTF-8.\<close>

function valid_utf8 :: "string \<Rightarrow> bool" where
  "valid_utf8 s =
     (if s = [] then True
      else if seq_len s = 0 then False
      else valid_utf8 (drop (seq_len s) s))"
  by pat_completeness auto
termination
  by (relation "measure length") auto

declare valid_utf8.simps [simp del]

lemma valid_utf8_Nil [simp]: "valid_utf8 []"
  by (subst valid_utf8.simps) simp

lemma valid_utf8_step:
  "valid_utf8 s \<Longrightarrow> s \<noteq> [] \<Longrightarrow> 0 < seq_len s \<and> valid_utf8 (drop (seq_len s) s)"
  by (subst (asm) valid_utf8.simps) (simp split: if_splits)

lemma valid_utf8_stepI:
  "0 < seq_len s \<Longrightarrow> valid_utf8 (drop (seq_len s) s) \<Longrightarrow> valid_utf8 s"
  by (subst valid_utf8.simps) simp

lemma valid_utf8_head: "valid_utf8 s \<Longrightarrow> s \<noteq> [] \<Longrightarrow> \<not> is_cont (s ! 0)"
  using valid_utf8_step seq_len_shape(3) by blast

lemma valid_utf8_ascii: "\<forall>c\<in>set s. byte c < 128 \<Longrightarrow> valid_utf8 s"
proof (induction s)
  case Nil
  then show ?case by simp
next
  case (Cons a r)
  then have "seq_len (a # r) = 1" by (intro seq_len_ascii) auto
  with Cons show ?case by (simp add: valid_utf8_stepI)
qed

lemma boundary_le: "is_char_boundary s i \<Longrightarrow> i \<le> length s"
  by (auto simp: is_char_boundary_def split: if_splits)

lemma boundary_0 [simp]: "is_char_boundary s 0"
  by (simp add: is_char_boundary_def)

lemma boundary_length [simp]: "is_char_boundary s (length s)"
  by (simp add: is_char_boundary_def)

lemma boundary_inside:
  assumes "valid_utf8 s" and "s \<noteq> []" and "0 < i" and "i < seq_len s"
  shows "\<not> is_char_boundary s i"
proof -
  have "0 < seq_len s" using assms valid_utf8_step by blast
  then have "is_cont (s ! i)" "i < length s"
    using assms seq_len_shape [of s] by auto
  then show ?thesis using assms(3) by (simp add: is_char_boundary_def)
qed

lemma boundary_drop:
  assumes "valid_utf8 s" and "s \<noteq> []"
  shows "is_char_boundary s (seq_len s + i) = is_char_boundary (drop (seq_len s) s) i"
proof -
  let ?n = "seq_len s"
  have n: "0 < ?n" "valid_utf8 (drop ?n s)" using valid_utf8_step [OF assms] by auto
  have le: "?n \<le> length s" using n(1) by (rule seq_len_shape)
  show ?thesis
  proof (cases "i = 0")
    case True
    show ?thesis
    proof (cases "drop ?n s = []")
      case True
      with le \<open>i = 0\<close> show ?thesis by (simp add: is_char_boundary_def)
    next
      case False
      then have "\<not> is_cont (drop ?n s ! 0)" using n(2) valid_utf8_head by blast
      then have "\<not> is_cont (s ! ?n)" using False le by (simp add: nth_drop)
      with \<open>i = 0\<close> False show ?thesis by (simp add: is_char_boundary_def)
    qed
  next
    case False
    with le n(1) show ?thesis by (auto simp: is_char_boundary_def nth_drop)
  qed
qed

text \<open>A boundary cuts well-formed text into two well-formed parts.\<close>

lemma valid_utf8_cut:
  "valid_utf8 s \<Longrightarrow> is_char_boundary s i \<Longrightarrow> valid_utf8 (take i s) \<and> valid_utf8 (drop i s)"
proof (induction s arbitrary: i rule: valid_utf8.induct)
  case (1 s)
  show ?case
  proof (cases "s = [] \<or> i = 0")
    case True
    with "1.prems" show ?thesis by auto
  next
    case False
    then have ne: "s \<noteq> []" and i: "0 < i" by auto
    let ?n = "seq_len s"
    have n: "0 < ?n" "valid_utf8 (drop ?n s)" using valid_utf8_step [OF "1.prems"(1) ne] by auto
    have le: "?n \<le> length s" using n(1) by (rule seq_len_shape)
    have "\<not> i < ?n" using boundary_inside "1.prems" ne i by blast
    then obtain j where j: "i = ?n + j" using le_Suc_ex not_less by blast
    have "is_char_boundary (drop ?n s) j"
      using "1.prems" boundary_drop [OF "1.prems"(1) ne] j by simp
    then have IH: "valid_utf8 (take j (drop ?n s)) \<and> valid_utf8 (drop j (drop ?n s))"
      using "1.IH" ne n by blast
    have split: "take i s = take ?n s @ take j (drop ?n s)"
      by (simp add: j take_add)
    have "seq_len (take i s) = ?n"
      using seq_len_take n(1) j by simp
    moreover have "drop ?n (take i s) = take j (drop ?n s)"
      using le by (simp add: j drop_take)
    ultimately have "valid_utf8 (take i s)"
      using n(1) IH valid_utf8_stepI [of "take i s"] by simp
    moreover have "drop i s = drop j (drop ?n s)" by (simp add: j add.commute)
    ultimately show ?thesis using IH by simp
  qed
qed

text \<open>Every offset is at most three bytes past a boundary.\<close>

lemma boundary_near:
  "valid_utf8 s \<Longrightarrow> i \<le> length s \<Longrightarrow> \<exists>j \<le> i. i \<le> j + 3 \<and> is_char_boundary s j"
proof (induction s arbitrary: i rule: valid_utf8.induct)
  case (1 s)
  show ?case
  proof (cases "s = [] \<or> i = 0")
    case True
    with "1.prems" show ?thesis by auto
  next
    case False
    then have ne: "s \<noteq> []" by auto
    let ?n = "seq_len s"
    have n: "0 < ?n" "valid_utf8 (drop ?n s)" using valid_utf8_step [OF "1.prems"(1) ne] by auto
    have n4: "?n \<le> 4" using n(1) by (rule seq_len_shape)
    show ?thesis
    proof (cases "i < ?n")
      case True
      with n4 have "i \<le> 0 + 3" by linarith
      then show ?thesis using boundary_0 by blast
    next
      case False
      then have "\<exists>j \<le> i - ?n. i - ?n \<le> j + 3 \<and> is_char_boundary (drop ?n s) j"
        using "1.IH" ne n "1.prems"(2) by simp
      then obtain j where j: "j \<le> i - ?n" "i - ?n \<le> j + 3" "is_char_boundary (drop ?n s) j"
        by blast
      then have "is_char_boundary s (?n + j)" using boundary_drop [OF "1.prems"(1) ne] by simp
      moreover have "?n + j \<le> i" "i \<le> (?n + j) + 3" using j False by auto
      ultimately show ?thesis by blast
    qed
  qed
qed

text \<open>The offset after an ASCII byte is a boundary.\<close>

lemma boundary_after_ascii:
  "valid_utf8 s \<Longrightarrow> i < length s \<Longrightarrow> byte (s ! i) < 128 \<Longrightarrow>
   is_char_boundary s i \<and> is_char_boundary s (Suc i)"
proof (induction s arbitrary: i rule: valid_utf8.induct)
  case (1 s)
  then have ne: "s \<noteq> []" by auto
  let ?n = "seq_len s"
  have n: "0 < ?n" "valid_utf8 (drop ?n s)" using valid_utf8_step [OF "1.prems"(1) ne] by auto
  have le: "?n \<le> length s" using n(1) by (rule seq_len_shape)
  show ?case
  proof (cases "i < ?n")
    case True
    then have "i = 0"
      using seq_len_shape(4) [OF n(1), of i] "1.prems"(3) by (auto simp: is_cont_def)
    moreover have "?n = 1"
      using seq_len_ascii [OF ne] "1.prems"(3) ne \<open>i = 0\<close> by (simp add: hd_conv_nth)
    ultimately show ?thesis
      using boundary_drop [OF "1.prems"(1) ne, of 0] by simp
  next
    case False
    then obtain j where j: "i = ?n + j" using le_Suc_ex not_less by blast
    have "is_char_boundary (drop ?n s) j \<and> is_char_boundary (drop ?n s) (Suc j)"
      using "1.IH" [of j] ne n "1.prems"(2,3) j le by (simp add: nth_drop)
    then show ?thesis
      using boundary_drop [OF "1.prems"(1) ne, of j] boundary_drop [OF "1.prems"(1) ne, of "Suc j"] j
      by simp
  qed
qed

text \<open>\<open>&s[a..b]\<close>\<close>

definition str_slice :: "string \<Rightarrow> nat \<Rightarrow> nat \<Rightarrow> string option" where
  "str_slice s a b =
     (if a \<le> b \<and> is_char_boundary s a \<and> is_char_boundary s b
      then Some (take (b - a) (drop a s)) else None)"

lemma str_slice_Some:
  "a \<le> b \<Longrightarrow> is_char_boundary s a \<Longrightarrow> is_char_boundary s b \<Longrightarrow>
   str_slice s a b = Some (take (b - a) (drop a s))"
  by (simp add: str_slice_def)

lemma str_slice_length: "str_slice s a b = Some t \<Longrightarrow> length t = b - a"
  by (auto simp: str_slice_def dest: boundary_le split: if_splits)

end
