(* ===== verification/StrOps.thy ===== *)
theory StrOps
  imports RustStr "HOL-Library.Sublist"
begin

text \<open>
  The operations of \<open>str\<close> that the program calls, over the UTF-8 bytes: characters,
  white space, trimming, splitting, lines, prefixes, searches, decimal numbers.
\<close>

subsection \<open>Characters\<close>

text \<open>The code point of an encoded character.\<close>

fun cp :: "string \<Rightarrow> nat" where
  "cp [a] = byte a"
| "cp [a, b] = (byte a - 192) * 64 + (byte b - 128)"
| "cp [a, b, c] = (byte a - 224) * 4096 + (byte b - 128) * 64 + (byte c - 128)"
| "cp [a, b, c, d] =
     (byte a - 240) * 262144 + (byte b - 128) * 4096 + (byte c - 128) * 64 + (byte d - 128)"
| "cp _ = 0"

text \<open>
  \<open>s.chars()\<close>, each character as its bytes. On bytes that are not well-formed (no \<open>str\<close>
  has them) the list goes on byte by byte.
\<close>

function chars :: "string \<Rightarrow> string list" where
  "chars s =
     (if s = [] then []
      else take (max 1 (seq_len s)) s # chars (drop (max 1 (seq_len s)) s))"
  by pat_completeness auto
termination
  by (relation "measure length") auto

declare chars.simps [simp del]

lemma chars_Nil [simp]: "chars [] = []"
  by (subst chars.simps) simp

lemma concat_chars [simp]: "concat (chars s) = s"
proof (induction s rule: chars.induct)
  case (1 s)
  then show ?case by (subst chars.simps) simp
qed

lemma chars_nonempty: "c \<in> set (chars s) \<Longrightarrow> c \<noteq> []"
proof (induction s rule: chars.induct)
  case (1 s)
  then show ?case by (subst (asm) chars.simps) (auto split: if_splits)
qed

lemma chars_ascii: "\<forall>c\<in>set s. byte c < 128 \<Longrightarrow> chars s = map (\<lambda>c. [c]) s"
proof (induction s)
  case Nil
  then show ?case by simp
next
  case (Cons a r)
  then have "seq_len (a # r) = 1" by (intro seq_len_ascii) auto
  with Cons show ?case by (subst chars.simps) simp
qed

text \<open>\<open>char_indices\<close>: every character with the offset it starts at.\<close>

definition char_indices :: "string \<Rightarrow> (nat \<times> string) list" where
  "char_indices s = (let cs = chars s in zip (map (\<lambda>i. length (concat (take i cs))) [0..<length cs]) cs)"

subsection \<open>White space\<close>

text \<open>The property White\_Space: \<open>char::is_whitespace\<close> and the \<open>\s\<close> of the regex crate.\<close>

definition is_ws_cp :: "nat \<Rightarrow> bool" where
  "is_ws_cp n \<longleftrightarrow> (9 \<le> n \<and> n \<le> 13) \<or> n = 32 \<or> n = 133 \<or> n = 160 \<or> n = 5760
     \<or> (8192 \<le> n \<and> n \<le> 8202) \<or> n = 8232 \<or> n = 8233 \<or> n = 8239 \<or> n = 8287 \<or> n = 12288"

abbreviation is_ws :: "string \<Rightarrow> bool" where
  "is_ws c \<equiv> is_ws_cp (cp c)"

definition trim_start :: "string \<Rightarrow> string" where
  "trim_start s = concat (dropWhile is_ws (chars s))"

definition trim_end :: "string \<Rightarrow> string" where
  "trim_end s = concat (rev (dropWhile is_ws (rev (chars s))))"

definition trim :: "string \<Rightarrow> string" where
  "trim s = concat (rev (dropWhile is_ws (rev (dropWhile is_ws (chars s)))))"

definition is_blank :: "string \<Rightarrow> bool" where
  "is_blank s \<longleftrightarrow> trim s = []"

lemma rev_dropWhile_split: "xs = rev (dropWhile P (rev xs)) @ rev (takeWhile P (rev xs))"
  by (metis rev_append rev_rev_ident takeWhile_dropWhile_id)

text \<open>Trimming removes white space at the two ends and nothing else.\<close>

lemma trim_split:
  obtains p q where "s = concat p @ trim s @ concat q" and "\<forall>c\<in>set p. is_ws c" and "\<forall>c\<in>set q. is_ws c"
proof -
  define d where "d = dropWhile is_ws (chars s)"
  define e where "e = rev (dropWhile is_ws (rev d))"
  have d: "chars s = takeWhile is_ws (chars s) @ d" by (simp add: d_def)
  have e: "d = e @ rev (takeWhile is_ws (rev d))"
    unfolding e_def by (rule rev_dropWhile_split)
  have "s = concat (chars s)" by simp
  also have "\<dots> = concat (takeWhile is_ws (chars s)) @ concat d"
    by (subst d) (simp only: concat_append)
  also have "concat d = concat e @ concat (rev (takeWhile is_ws (rev d)))"
    by (subst e) (simp only: concat_append)
  also have "concat e = trim s" by (simp add: trim_def d_def e_def)
  finally show ?thesis
    by (rule that) (auto dest: set_takeWhileD)
qed

lemma trim_length: "length (trim s) \<le> length s"
  by (rule trim_split [of s]) (metis length_append le_add1 le_add2 le_trans)

lemma trim_Nil [simp]: "trim [] = []"
  by (simp add: trim_def)

text \<open>\<open>split_whitespace\<close>\<close>

fun ws_groups :: "string list \<Rightarrow> string \<Rightarrow> string list" where
  "ws_groups [] acc = (if acc = [] then [] else [acc])"
| "ws_groups (c # cs) acc =
     (if is_ws c then (if acc = [] then ws_groups cs [] else acc # ws_groups cs [])
      else ws_groups cs (acc @ c))"

definition split_ws :: "string \<Rightarrow> string list" where
  "split_ws s = ws_groups (chars s) []"

lemma ws_groups_nonempty: "w \<in> set (ws_groups cs acc) \<Longrightarrow> w \<noteq> []"
  by (induction cs acc rule: ws_groups.induct) (auto split: if_splits)

subsection \<open>Splitting\<close>

text \<open>\<open>split(c)\<close> and \<open>split_inclusive(c)\<close> on an ASCII character.\<close>

fun split_on :: "char \<Rightarrow> string \<Rightarrow> string list" where
  "split_on c [] = [[]]"
| "split_on c (x # xs) =
     (if x = c then [] # split_on c xs
      else case split_on c xs of [] \<Rightarrow> [[x]] | w # ws \<Rightarrow> (x # w) # ws)"

fun split_inclusive :: "char \<Rightarrow> string \<Rightarrow> string list" where
  "split_inclusive c [] = []"
| "split_inclusive c (x # xs) =
     (if x = c then [x] # split_inclusive c xs
      else case split_inclusive c xs of [] \<Rightarrow> [[x]] | w # ws \<Rightarrow> (x # w) # ws)"

lemma split_on_nonempty [simp]: "split_on c s \<noteq> []"
  by (induction s) (auto split: list.splits)

lemma concat_split_inclusive [simp]: "concat (split_inclusive c s) = s"
  by (induction s) (auto split: list.splits)

lemma split_on_no_sep: "w \<in> set (split_on c s) \<Longrightarrow> c \<notin> set w"
  by (induction s arbitrary: w) (auto split: list.splits if_splits)

text \<open>\<open>lines()\<close>: the terminator is one newline with an optional carriage return.\<close>

definition strip_eol :: "string \<Rightarrow> string" where
  "strip_eol l =
     (if l \<noteq> [] \<and> last l = NL then
        (let m = butlast l in if m \<noteq> [] \<and> last m = CR then butlast m else m)
      else l)"

definition lines :: "string \<Rightarrow> string list" where
  "lines s = map strip_eol (split_inclusive NL s)"

text \<open>\<open>split_once(c)\<close>\<close>

fun split_once :: "char \<Rightarrow> string \<Rightarrow> (string \<times> string) option" where
  "split_once c [] = None"
| "split_once c (x # xs) =
     (if x = c then Some ([], xs)
      else case split_once c xs of None \<Rightarrow> None | Some (a, b) \<Rightarrow> Some (x # a, b))"

lemma split_once_Some: "split_once c s = Some (a, b) \<Longrightarrow> s = a @ c # b \<and> c \<notin> set a"
  by (induction s arbitrary: a b) (auto split: if_splits option.splits)

lemma split_once_None: "split_once c s = None \<longleftrightarrow> c \<notin> set s"
  by (induction s) (auto split: option.splits)

fun join :: "string \<Rightarrow> string list \<Rightarrow> string" where
  "join sep [] = []"
| "join sep [x] = x"
| "join sep (x # y # ys) = x @ sep @ join sep (y # ys)"

subsection \<open>Prefixes and searches\<close>

definition starts_with :: "string \<Rightarrow> string \<Rightarrow> bool" where
  "starts_with p s \<longleftrightarrow> take (length p) s = p"

definition strip_prefix :: "string \<Rightarrow> string \<Rightarrow> string option" where
  "strip_prefix p s = (if starts_with p s then Some (drop (length p) s) else None)"

definition ends_with :: "string \<Rightarrow> string \<Rightarrow> bool" where
  "ends_with p s \<longleftrightarrow> length p \<le> length s \<and> drop (length s - length p) s = p"

definition strip_suffix :: "string \<Rightarrow> string \<Rightarrow> string option" where
  "strip_suffix p s = (if ends_with p s then Some (take (length s - length p) s) else None)"

lemma starts_with_append: "starts_with p s \<longleftrightarrow> (\<exists>r. s = p @ r)"
  by (metis append_eq_conv_conj append_take_drop_id starts_with_def)

lemma strip_prefix_Some: "strip_prefix p s = Some r \<longleftrightarrow> s = p @ r"
  by (auto simp: strip_prefix_def starts_with_append)

lemma ends_with_append: "ends_with p s \<longleftrightarrow> (\<exists>r. s = r @ p)"
  by (auto simp: ends_with_def) (metis append_take_drop_id)

lemma strip_suffix_Some: "strip_suffix p s = Some r \<longleftrightarrow> s = r @ p"
  by (auto simp: strip_suffix_def ends_with_append)

lemma starts_with_refl [simp]: "starts_with p (p @ r)"
  by (simp add: starts_with_append)

text \<open>\<open>find(p)\<close> for a pattern that is a string, \<open>contains(p)\<close>.\<close>

fun find_sub :: "string \<Rightarrow> string \<Rightarrow> nat option" where
  "find_sub p [] = (if p = [] then Some 0 else None)"
| "find_sub p (x # xs) =
     (if starts_with p (x # xs) then Some 0 else map_option Suc (find_sub p xs))"

definition contains :: "string \<Rightarrow> string \<Rightarrow> bool" where
  "contains p s \<longleftrightarrow> find_sub p s \<noteq> None"

lemma find_sub_Some: "find_sub p s = Some i \<Longrightarrow> i \<le> length s \<and> starts_with p (drop i s)"
  by (induction s arbitrary: i) (auto simp: starts_with_def split: if_splits)

text \<open>\<open>trim_end_matches(c)\<close>, \<open>trim_start_matches(c)\<close> and \<open>find(c)\<close> for an ASCII character.\<close>

definition trim_end_char :: "char \<Rightarrow> string \<Rightarrow> string" where
  "trim_end_char c s = rev (dropWhile (\<lambda>x. x = c) (rev s))"

fun find_char :: "char \<Rightarrow> string \<Rightarrow> nat option" where
  "find_char c [] = None"
| "find_char c (x # xs) = (if x = c then Some 0 else map_option Suc (find_char c xs))"

definition trim_start_char :: "char \<Rightarrow> string \<Rightarrow> string" where
  "trim_start_char c s = dropWhile (\<lambda>x. x = c) s"

lemma find_char_None: "find_char c s = None \<longleftrightarrow> c \<notin> set s"
  by (induction s) auto

lemma find_char_Some: "find_char c s = Some i \<Longrightarrow> i < length s \<and> s ! i = c \<and> c \<notin> set (take i s)"
  by (induction s arbitrary: i) (auto split: if_splits)

subsection \<open>ASCII\<close>

definition is_ascii_digit :: "char \<Rightarrow> bool" where
  "is_ascii_digit c \<longleftrightarrow> 48 \<le> byte c \<and> byte c \<le> 57"

definition is_ascii_lower :: "char \<Rightarrow> bool" where
  "is_ascii_lower c \<longleftrightarrow> 97 \<le> byte c \<and> byte c \<le> 122"

definition is_ascii_upper :: "char \<Rightarrow> bool" where
  "is_ascii_upper c \<longleftrightarrow> 65 \<le> byte c \<and> byte c \<le> 90"

definition is_ascii_hexdigit :: "char \<Rightarrow> bool" where
  "is_ascii_hexdigit c \<longleftrightarrow> is_ascii_digit c \<or> (97 \<le> byte c \<and> byte c \<le> 102) \<or> (65 \<le> byte c \<and> byte c \<le> 70)"

definition ascii_lower_char :: "char \<Rightarrow> char" where
  "ascii_lower_char c = (if is_ascii_upper c then char_of (byte c + 32) else c)"

abbreviation ascii_lower :: "string \<Rightarrow> string" where
  "ascii_lower s \<equiv> map ascii_lower_char s"

definition eq_ignore_ascii_case :: "string \<Rightarrow> string \<Rightarrow> bool" where
  "eq_ignore_ascii_case a b \<longleftrightarrow> ascii_lower a = ascii_lower b"

subsection \<open>Decimal numbers\<close>

text \<open>\<open>to_string\<close> of an unsigned integer and \<open>parse\<close> into one of width \<open>w\<close> bits.\<close>

function dec :: "nat \<Rightarrow> string" where
  "dec n = (if n < 10 then [char_of (48 + n)] else dec (n div 10) @ [char_of (48 + n mod 10)])"
  by pat_completeness auto
termination
  by (relation "measure id") auto

declare dec.simps [simp del]

definition dec_value :: "string \<Rightarrow> nat" where
  "dec_value ds = foldl (\<lambda>a c. 10 * a + (byte c - 48)) 0 ds"

definition parse_uint :: "nat \<Rightarrow> string \<Rightarrow> nat option" where
  "parse_uint w s =
     (let ds = (case s of [] \<Rightarrow> [] | c # r \<Rightarrow> if c = CHR ''+'' then r else s) in
      if ds = [] \<or> \<not> list_all is_ascii_digit ds then None
      else if dec_value ds < 2 ^ w then Some (dec_value ds) else None)"

lemma is_ascii_digit_of [simp]: "(n::nat) < 10 \<Longrightarrow> is_ascii_digit (char_of (48 + n))"
  by (simp add: is_ascii_digit_def)

lemma dec_digits: "list_all is_ascii_digit (dec n)"
proof (induction n rule: dec.induct)
  case (1 n)
  then show ?case by (subst dec.simps) simp
qed

lemma dec_nonempty [simp]: "dec n \<noteq> []"
  by (subst dec.simps) simp

lemma dec_value_dec [simp]: "dec_value (dec n) = n"
proof (induction n rule: dec.induct)
  case (1 n)
  then show ?case by (subst dec.simps) (auto simp: dec_value_def)
qed

lemma dec_inj: "dec m = dec n \<Longrightarrow> m = n"
  by (metis dec_value_dec)

lemma parse_uint_dec: "n < 2 ^ w \<Longrightarrow> parse_uint w (dec n) = Some n"
proof -
  assume n: "n < 2 ^ w"
  obtain c r where c: "dec n = c # r" by (cases "dec n") auto
  then have "is_ascii_digit c" using dec_digits [of n] by simp
  then have "c \<noteq> CHR ''+''" by (auto simp: is_ascii_digit_def)
  then show ?thesis using n dec_digits [of n] dec_value_dec [of n]
    by (simp add: parse_uint_def Let_def c)
qed

subsection \<open>Concatenations\<close>

lemma seq_len_append: "0 < seq_len s \<Longrightarrow> seq_len (s @ t) = seq_len s"
proof (cases s)
  case (Cons a r)
  assume "0 < seq_len s"
  then have n: "lead_len a \<le> Suc (length r)" "list_all is_cont (take (lead_len a - 1) r)"
      "1 < lead_len a \<longrightarrow> second_ok a (hd r)"
    unfolding Cons seq_len.simps by (auto simp: Let_def split: if_splits)
  then have "take (lead_len a - 1) (r @ t) = take (lead_len a - 1) r" by simp
  moreover have "1 < lead_len a \<Longrightarrow> hd (r @ t) = hd r" using n(1) by (cases r) auto
  ultimately show ?thesis using n unfolding Cons append_Cons seq_len.simps by (simp add: Let_def)
qed simp

lemma chars_step:
  "0 < seq_len s \<Longrightarrow> chars s = take (seq_len s) s # chars (drop (seq_len s) s)"
  by (subst chars.simps) (auto simp: max_def)

lemma chars_append: "valid_utf8 s \<Longrightarrow> chars (s @ t) = chars s @ chars t"
proof (induction s rule: valid_utf8.induct)
  case (1 s)
  show ?case
  proof (cases "s = []")
    case False
    have n: "0 < seq_len s" "valid_utf8 (drop (seq_len s) s)"
      using valid_utf8_step [OF "1.prems" False] by auto
    have le: "seq_len s \<le> length s" using n(1) by (rule seq_len_shape)
    have "chars (drop (seq_len s) s @ t) = chars (drop (seq_len s) s) @ chars t"
      using "1.IH" n False by simp
    then show ?thesis
      using chars_step [OF n(1)] chars_step [of "s @ t"] n(1) le seq_len_append [OF n(1)] by simp
  qed simp
qed

lemma valid_utf8_append: "valid_utf8 s \<Longrightarrow> valid_utf8 t \<Longrightarrow> valid_utf8 (s @ t)"
proof (induction s rule: valid_utf8.induct)
  case (1 s)
  show ?case
  proof (cases "s = []")
    case False
    have n: "0 < seq_len s" "valid_utf8 (drop (seq_len s) s)"
      using valid_utf8_step [OF "1.prems"(1) False] by auto
    have le: "seq_len s \<le> length s" using n(1) by (rule seq_len_shape)
    have "valid_utf8 (drop (seq_len s) s @ t)" using "1.IH" n False "1.prems"(2) by simp
    then show ?thesis
      using n(1) le seq_len_append [OF n(1)] valid_utf8_stepI [of "s @ t"] by simp
  qed (use "1.prems" in simp)
qed

lemma chars_Cons_ascii: "byte c < 128 \<Longrightarrow> chars (c # s) = [c] # chars s"
  using chars_step [of "c # s"] seq_len_ascii [of "c # s"] by simp

lemma trim_noop:
  assumes "chars s \<noteq> []" and "\<not> is_ws (hd (chars s))" and "\<not> is_ws (last (chars s))"
  shows "trim s = s"
proof -
  have "dropWhile is_ws (chars s) = chars s" using assms(1,2) by (cases "chars s") auto
  moreover have "dropWhile is_ws (rev (chars s)) = rev (chars s)"
    using assms(1,3) by (cases "rev (chars s)") (auto simp: last_rev hd_rev [symmetric])
  ultimately show ?thesis by (simp add: trim_def)
qed

lemma concat_length_eq:
  "concat xs = concat (p @ xs @ q) \<Longrightarrow> [] \<notin> set (p @ xs @ q) \<Longrightarrow> p = [] \<and> q = []"
proof -
  assume eq: "concat xs = concat (p @ xs @ q)" and ne: "[] \<notin> set (p @ xs @ q)"
  have "length (concat p) + length (concat q) = 0"
    using arg_cong [OF eq, of length] by simp
  then have "concat p = []" "concat q = []" by simp_all
  then show ?thesis using ne by (cases p; cases q) auto
qed

lemma trim_fix_ends:
  assumes "trim s = s" and "s \<noteq> []"
  shows "chars s \<noteq> []" and "\<not> is_ws (hd (chars s))" and "\<not> is_ws (last (chars s))"
proof -
  let ?c = "chars s"
  show ne: "?c \<noteq> []" using assms(2) concat_chars [of s] by (metis concat.simps(1))
  define d where "d = dropWhile is_ws ?c"
  define e where "e = rev (dropWhile is_ws (rev d))"
  have d: "?c = takeWhile is_ws ?c @ d" by (simp add: d_def)
  have e: "d = e @ rev (takeWhile is_ws (rev d))" unfolding e_def by (rule rev_dropWhile_split)
  have t: "concat e = s" using assms(1) by (simp add: trim_def d_def e_def)
  have split: "?c = takeWhile is_ws ?c @ e @ rev (takeWhile is_ws (rev d))" using d e by metis
  have "concat e = concat (takeWhile is_ws ?c @ e @ rev (takeWhile is_ws (rev d)))"
    using t split concat_chars [of s] by metis
  moreover have "[] \<notin> set (takeWhile is_ws ?c @ e @ rev (takeWhile is_ws (rev d)))"
    using split chars_nonempty by metis
  ultimately have z: "takeWhile is_ws ?c = []" "rev (takeWhile is_ws (rev d)) = []"
    using concat_length_eq by blast+
  show "\<not> is_ws (hd ?c)" using z(1) ne by (cases ?c) (auto split: if_splits)
  have "d = ?c" using z(1) d by simp
  then have "takeWhile is_ws (rev ?c) = []" using z(2) by simp
  then show "\<not> is_ws (last ?c)" using ne by (cases ?c rule: rev_cases) (auto split: if_splits)
qed

lemma split_inclusive_line:
  "c \<notin> set a \<Longrightarrow> split_inclusive c (a @ c # b) = (a @ [c]) # split_inclusive c b"
  by (induction a) auto

lemma split_inclusive_last: "c \<notin> set a \<Longrightarrow> a \<noteq> [] \<Longrightarrow> split_inclusive c a = [a]"
proof (induction a)
  case (Cons x a)
  then show ?case by (cases a) auto
qed simp

lemma split_inclusive_unfold:
  "split_inclusive c s =
     (if s = [] then [] else case split_once c s of None \<Rightarrow> [s] | Some (a, b) \<Rightarrow> (a @ [c]) # split_inclusive c b)"
proof (cases "split_once c s")
  case None
  then have "c \<notin> set s" using split_once_None by metis
  then show ?thesis using None split_inclusive_last [of c s] by simp
next
  case (Some ab)
  obtain a b where ab: "ab = (a, b)" by (cases ab)
  then have "s = a @ c # b" "c \<notin> set a" using Some split_once_Some by auto
  then show ?thesis using Some ab split_inclusive_line [of c a b] by simp
qed

lemma trim_space: "trim (CHR '' '' # s) = trim s"
  by (simp add: trim_def chars_Cons_ascii is_ws_cp_def)

lemma strip_eol_line: "CR \<notin> set l \<Longrightarrow> strip_eol (l @ [NL]) = l"
proof -
  assume "CR \<notin> set l"
  then have "l \<noteq> [] \<longrightarrow> last l \<noteq> CR" using last_in_set by metis
  then show ?thesis by (auto simp: strip_eol_def Let_def)
qed

lemma lines_line: "NL \<notin> set l \<Longrightarrow> CR \<notin> set l \<Longrightarrow> lines (l @ NL # r) = l # lines r"
  by (simp add: lines_def split_inclusive_line strip_eol_line)

subsection \<open>A concrete Unicode table\<close>

text \<open>
  The restriction of the tables to ASCII: an instance of the parameter \<open>unicode\<close> on which
  definitions can be evaluated.
\<close>

definition ascii_unicode :: unicode where
  "ascii_unicode =
     \<lparr>u_lower = map ascii_lower_char,
      u_alphabetic = (\<lambda>n. (65 \<le> n \<and> n \<le> 90) \<or> (97 \<le> n \<and> n \<le> 122)),
      u_decimal = (\<lambda>n. 48 \<le> n \<and> n \<le> 57)\<rparr>"

end
