(* ===== verification/F32.thy ===== *)
theory F32
  imports Prelude "HOL-Library.Log_Nat"
begin

text \<open>
  The binary floating-point arithmetic of \<open>f32\<close> and \<open>f64\<close> (IEEE 754): a finite value is
  the exact rational it stands for, every operation computes exactly and rounds to the
  nearest representable value, ties to even, with overflow to an infinity and gradual
  underflow. The sign of a zero is not represented (\<open>-0.0\<close> and \<open>0.0\<close> compare equal in
  Rust). The main facts are that rounding is monotone and leaves every representable
  value alone, so that comparisons of sums of scores follow from comparisons of terms.
\<close>

datatype flt = NaN | PInf | NInf | Fin rat

subsection \<open>Rounding\<close>

text \<open>\<open>flog2 x\<close> is the exponent of the leading bit of a positive rational.\<close>

definition flog2 :: "rat \<Rightarrow> int" where
  "flog2 x = (case quotient_of x of (n, d) \<Rightarrow>
     let k = bitlen n - bitlen d in if x < 2 powi k then k - 1 else k)"

definition round_half_even :: "rat \<Rightarrow> int" where
  "round_half_even x =
     (let f = \<lfloor>x\<rfloor>; r = x - of_int f in
      if r < 1/2 then f else if 1/2 < r then f + 1 else if even f then f else f + 1)"

text \<open>A format: precision in bits, exponent of the least subnormal, overflow exponent.\<close>

record fmt =
  prec :: int
  emin :: int
  emax :: int

definition binary32 :: fmt where
  "binary32 = \<lparr>prec = 24, emin = - 149, emax = 128\<rparr>"

definition binary64 :: fmt where
  "binary64 = \<lparr>prec = 53, emin = - 1074, emax = 1024\<rparr>"

definition quantum :: "fmt \<Rightarrow> rat \<Rightarrow> int" where
  "quantum f x = max (flog2 x - (prec f - 1)) (emin f)"

definition round_pos :: "fmt \<Rightarrow> rat \<Rightarrow> rat" where
  "round_pos f x = of_int (round_half_even (x / 2 powi quantum f x)) * 2 powi quantum f x"

definition rnd :: "fmt \<Rightarrow> rat \<Rightarrow> flt" where
  "rnd f x =
     (if x = 0 then Fin 0
      else if 0 < x then
        (let v = round_pos f x in if 2 powi emax f \<le> v then PInf else Fin v)
      else
        (let v = round_pos f (- x) in if 2 powi emax f \<le> v then NInf else Fin (- v)))"

subsection \<open>Operations\<close>

definition is_nan :: "flt \<Rightarrow> bool" where
  "is_nan a \<longleftrightarrow> a = NaN"

definition is_finite :: "flt \<Rightarrow> bool" where
  "is_finite a \<longleftrightarrow> (case a of Fin _ \<Rightarrow> True | _ \<Rightarrow> False)"

fun fneg :: "flt \<Rightarrow> flt" where
  "fneg NaN = NaN" | "fneg PInf = NInf" | "fneg NInf = PInf" | "fneg (Fin x) = Fin (- x)"

fun fadd :: "fmt \<Rightarrow> flt \<Rightarrow> flt \<Rightarrow> flt" where
  "fadd f NaN b = NaN"
| "fadd f a NaN = NaN"
| "fadd f PInf NInf = NaN"
| "fadd f NInf PInf = NaN"
| "fadd f PInf b = PInf"
| "fadd f NInf b = NInf"
| "fadd f a PInf = PInf"
| "fadd f a NInf = NInf"
| "fadd f (Fin x) (Fin y) = rnd f (x + y)"

definition fsub :: "fmt \<Rightarrow> flt \<Rightarrow> flt \<Rightarrow> flt" where
  "fsub f a b = fadd f a (fneg b)"

definition inf_of :: "bool \<Rightarrow> flt" where
  "inf_of pos = (if pos then PInf else NInf)"

fun fmul :: "fmt \<Rightarrow> flt \<Rightarrow> flt \<Rightarrow> flt" where
  "fmul f NaN b = NaN"
| "fmul f a NaN = NaN"
| "fmul f PInf PInf = PInf"
| "fmul f PInf NInf = NInf"
| "fmul f NInf PInf = NInf"
| "fmul f NInf NInf = PInf"
| "fmul f PInf (Fin y) = (if y = 0 then NaN else inf_of (0 < y))"
| "fmul f NInf (Fin y) = (if y = 0 then NaN else inf_of (y < 0))"
| "fmul f (Fin x) PInf = (if x = 0 then NaN else inf_of (0 < x))"
| "fmul f (Fin x) NInf = (if x = 0 then NaN else inf_of (x < 0))"
| "fmul f (Fin x) (Fin y) = rnd f (x * y)"

text \<open>
  Division; a zero divisor is taken as the positive zero, the only one the program
  divides by.
\<close>

fun fdiv :: "fmt \<Rightarrow> flt \<Rightarrow> flt \<Rightarrow> flt" where
  "fdiv f NaN b = NaN"
| "fdiv f a NaN = NaN"
| "fdiv f (Fin x) (Fin y) =
     (if y = 0 then (if x = 0 then NaN else inf_of (0 < x)) else rnd f (x / y))"
| "fdiv f (Fin x) b = Fin 0"
| "fdiv f PInf (Fin y) = inf_of (0 \<le> y)"
| "fdiv f NInf (Fin y) = inf_of (y < 0)"
| "fdiv f a b = NaN"

text \<open>\<open>partial_cmp(..) != Some(Greater)\<close> without the unordered case: \<open>a <= b\<close>.\<close>

fun fle :: "flt \<Rightarrow> flt \<Rightarrow> bool" where
  "fle NaN b = False"
| "fle a NaN = False"
| "fle NInf b = True"
| "fle a PInf = True"
| "fle (Fin x) (Fin y) = (x \<le> y)"
| "fle a b = False"

definition flt_lt :: "flt \<Rightarrow> flt \<Rightarrow> bool" where
  "flt_lt a b \<longleftrightarrow> fle a b \<and> \<not> fle b a"

text \<open>The fields and the literals: \<open>n as f32\<close>, decimal literals.\<close>

definition f32_of :: "rat \<Rightarrow> flt" where "f32_of x = rnd binary32 x"
definition f64_of :: "rat \<Rightarrow> flt" where "f64_of x = rnd binary64 x"

abbreviation fadd32 :: "flt \<Rightarrow> flt \<Rightarrow> flt" where "fadd32 \<equiv> fadd binary32"
abbreviation fsub32 :: "flt \<Rightarrow> flt \<Rightarrow> flt" where "fsub32 \<equiv> fsub binary32"
abbreviation fmul32 :: "flt \<Rightarrow> flt \<Rightarrow> flt" where "fmul32 \<equiv> fmul binary32"
abbreviation fdiv32 :: "flt \<Rightarrow> flt \<Rightarrow> flt" where "fdiv32 \<equiv> fdiv binary32"
abbreviation fadd64 :: "flt \<Rightarrow> flt \<Rightarrow> flt" where "fadd64 \<equiv> fadd binary64"
abbreviation fsub64 :: "flt \<Rightarrow> flt \<Rightarrow> flt" where "fsub64 \<equiv> fsub binary64"
abbreviation fmul64 :: "flt \<Rightarrow> flt \<Rightarrow> flt" where "fmul64 \<equiv> fmul binary64"
abbreviation fdiv64 :: "flt \<Rightarrow> flt \<Rightarrow> flt" where "fdiv64 \<equiv> fdiv binary64"

text \<open>\<open>x as f32\<close> of an \<open>f64\<close>, and \<open>x.max(y)\<close>, \<open>x.min(y)\<close>, which drop a NaN operand.\<close>

fun flt_round :: "fmt \<Rightarrow> flt \<Rightarrow> flt" where
  "flt_round f (Fin x) = rnd f x"
| "flt_round f a = a"

definition fmax :: "flt \<Rightarrow> flt \<Rightarrow> flt" where
  "fmax a b = (if is_nan a then b else if is_nan b then a else if fle a b then b else a)"

definition fmin :: "flt \<Rightarrow> flt \<Rightarrow> flt" where
  "fmin a b = (if is_nan a then b else if is_nan b then a else if fle a b then a else b)"

subsection \<open>Rounding is monotone\<close>

lemma powi_pos [simp]: "0 < (2::rat) powi k"
  by simp

lemma powi_less_iff: "(2::rat) powi a < 2 powi b \<longleftrightarrow> a < b"
  by (metis less_le_not_le linorder_not_less one_less_numeral_iff power_int_increasing
      power_int_strict_increasing semiring_norm(76) less_imp_le)

lemma powi_le_iff: "(2::rat) powi a \<le> 2 powi b \<longleftrightarrow> a \<le> b"
  by (meson linorder_not_less powi_less_iff)

lemma bitlen_powi:
  assumes "0 < n"
  shows "(2::rat) powi (bitlen n - 1) \<le> of_int n" and "of_int n < (2::rat) powi bitlen n"
proof -
  have b: "2 ^ nat (bitlen n - 1) \<le> n" "n < 2 ^ nat (bitlen n)"
    using bitlen_bounds [OF assms] by auto
  have pos: "1 \<le> bitlen n" using assms bitlen_ge_iff_power [of 1 n] by simp
  have "of_int (2 ^ nat (bitlen n - 1)) \<le> (of_int n :: rat)"
    using b(1) by (simp only: of_int_le_iff)
  then show "(2::rat) powi (bitlen n - 1) \<le> of_int n"
    using pos by (simp add: power_int_def)
  have "(of_int n :: rat) < of_int (2 ^ nat (bitlen n))"
    using b(2) by (simp only: of_int_less_iff)
  then show "of_int n < (2::rat) powi bitlen n"
    using pos by (simp add: power_int_def)
qed

lemma flog2_bounds:
  assumes "0 < x"
  shows "2 powi flog2 x \<le> x" and "x < 2 powi (flog2 x + 1)"
proof -
  obtain n d where q: "quotient_of x = (n, d)" by (cases "quotient_of x")
  have d: "0 < d" using q by (rule quotient_of_denom_pos)
  have x: "x = of_int n / of_int d" using q by (rule quotient_of_div)
  have n: "0 < n" using assms d x by (simp add: zero_less_divide_iff)
  let ?k = "bitlen n - bitlen d"
  have N: "(2::rat) powi (bitlen n - 1) \<le> of_int n" "of_int n < (2::rat) powi bitlen n"
    using bitlen_powi [OF n] by auto
  have D: "(2::rat) powi (bitlen d - 1) \<le> of_int d" "of_int d < (2::rat) powi bitlen d"
    using bitlen_powi [OF d] by auto
  have dp: "(0::rat) < of_int d" using d by simp
  have up: "x < 2 powi (?k + 1)"
  proof -
    have "(of_int n :: rat) < 2 powi (?k + 1) * 2 powi (bitlen d - 1)"
      using N(2) by (simp flip: power_int_add)
    also have "\<dots> \<le> 2 powi (?k + 1) * of_int d" using D(1) by (intro mult_left_mono) auto
    finally show ?thesis using dp by (simp add: x pos_divide_less_eq)
  qed
  have low: "2 powi (?k - 1) \<le> x"
  proof -
    have "(2::rat) powi (?k - 1) * of_int d \<le> 2 powi (?k - 1) * 2 powi bitlen d"
      using D(2) by (intro mult_left_mono) auto
    also have "\<dots> = 2 powi (bitlen n - 1)" by (simp flip: power_int_add)
    also have "\<dots> \<le> of_int n" by (rule N(1))
    finally show ?thesis using dp by (simp add: x pos_le_divide_eq)
  qed
  show "2 powi flog2 x \<le> x" using low by (simp add: flog2_def q Let_def)
  show "x < 2 powi (flog2 x + 1)" using up by (simp add: flog2_def q Let_def)
qed

lemma flog2_unique: "0 < x \<Longrightarrow> 2 powi k \<le> x \<Longrightarrow> x < 2 powi (k + 1) \<Longrightarrow> flog2 x = k"
  using flog2_bounds [of x] powi_less_iff [of k "flog2 x + 1"] powi_less_iff [of "flog2 x" "k + 1"]
  by (meson le_less_trans less_le_trans linorder_neqE_linordered_idom not_less zless_add1_eq zle_add1_eq_le)

lemma flog2_mono:
  assumes "0 < x" and "x \<le> y"
  shows "flog2 x \<le> flog2 y"
proof -
  have "2 powi flog2 x < (2::rat) powi (flog2 y + 1)"
    using flog2_bounds(1) [OF assms(1)] flog2_bounds(2) [of y] assms by linarith
  then show ?thesis by (simp add: powi_less_iff)
qed

lemma round_half_even_int [simp]: "round_half_even (of_int k) = k"
  by (simp add: round_half_even_def)

lemma round_half_even_mono:
  assumes "x \<le> y"
  shows "round_half_even x \<le> round_half_even y"
proof (cases "\<lfloor>x\<rfloor> = \<lfloor>y\<rfloor>")
  case True
  with assms show ?thesis by (auto simp: round_half_even_def Let_def)
next
  case False
  then have "\<lfloor>x\<rfloor> + 1 \<le> \<lfloor>y\<rfloor>" using floor_mono [OF assms] by simp
  moreover have "round_half_even x \<le> \<lfloor>x\<rfloor> + 1" "\<lfloor>y\<rfloor> \<le> round_half_even y"
    by (auto simp: round_half_even_def Let_def)
  ultimately show ?thesis by linarith
qed

lemma powi_multiple:
  assumes "q \<le> k"
  shows "(2::rat) powi k = of_int (2 ^ nat (k - q)) * 2 powi q"
proof -
  have "(2::rat) powi k = 2 powi (k - q) * 2 powi q" by (simp flip: power_int_add)
  then show ?thesis using assms by (simp add: power_int_def [of 2 "k - q"])
qed

text \<open>A multiple of the quantum bounds the rounding on the side where it bounds the value.\<close>

lemma round_pos_le_pow:
  assumes "x \<le> 2 powi k" and "quantum f x \<le> k"
  shows "round_pos f x \<le> 2 powi k"
proof -
  let ?q = "quantum f x"
  have p: "(2::rat) powi k = of_int (2 ^ nat (k - ?q)) * 2 powi ?q"
    using assms(2) by (rule powi_multiple)
  have "x / 2 powi ?q \<le> of_int (2 ^ nat (k - ?q))"
    using assms(1) p by (simp add: pos_divide_le_eq)
  then have "round_half_even (x / 2 powi ?q) \<le> 2 ^ nat (k - ?q)"
    using round_half_even_mono round_half_even_int by metis
  then have "(of_int (round_half_even (x / 2 powi ?q)) :: rat) \<le> of_int (2 ^ nat (k - ?q))"
    by (simp only: of_int_le_iff)
  then show ?thesis unfolding round_pos_def p by (intro mult_right_mono) auto
qed

lemma round_pos_ge_pow:
  assumes "2 powi k \<le> x" and "quantum f x \<le> k"
  shows "2 powi k \<le> round_pos f x"
proof -
  let ?q = "quantum f x"
  have p: "(2::rat) powi k = of_int (2 ^ nat (k - ?q)) * 2 powi ?q"
    using assms(2) by (rule powi_multiple)
  have "of_int (2 ^ nat (k - ?q)) \<le> x / 2 powi ?q"
    using assms(1) p by (simp add: pos_le_divide_eq)
  then have "2 ^ nat (k - ?q) \<le> round_half_even (x / 2 powi ?q)"
    using round_half_even_mono round_half_even_int by metis
  then have "(of_int (2 ^ nat (k - ?q)) :: rat) \<le> of_int (round_half_even (x / 2 powi ?q))"
    by (simp only: of_int_le_iff)
  then show ?thesis unfolding round_pos_def p by (intro mult_right_mono) auto
qed

locale rounding =
  fixes f :: fmt
  assumes prec_pos: "1 \<le> prec f"
begin

lemma round_pos_mono:
  assumes "0 < x" and "x \<le> y"
  shows "round_pos f x \<le> round_pos f y"
proof (cases "quantum f x = quantum f y")
  case True
  have "x / 2 powi quantum f y \<le> y / 2 powi quantum f y"
    using assms(2) by (intro divide_right_mono) auto
  then show ?thesis
    unfolding round_pos_def True by (intro mult_right_mono) (auto intro: round_half_even_mono)
next
  case False
  have le: "flog2 x \<le> flog2 y" using assms by (rule flog2_mono)
  then have q: "quantum f x \<le> flog2 y" "quantum f y \<le> flog2 y" "flog2 x + 1 \<le> flog2 y"
    using False prec_pos by (auto simp: quantum_def)
  have "x \<le> 2 powi flog2 y"
    using flog2_bounds(2) [OF assms(1)] q(3) power_int_increasing [of "flog2 x + 1" "flog2 y" "2::rat"]
    by linarith
  then have "round_pos f x \<le> 2 powi flog2 y" using q(1) by (rule round_pos_le_pow)
  also have "\<dots> \<le> round_pos f y"
    using flog2_bounds(1) [of y] assms q(2) by (intro round_pos_ge_pow) auto
  finally show ?thesis .
qed

lemma round_pos_nonneg: "0 < x \<Longrightarrow> 0 \<le> round_pos f x"
proof -
  assume "0 < x"
  then have "round_half_even (of_int 0) \<le> round_half_even (x / 2 powi quantum f x)"
    by (intro round_half_even_mono) auto
  then show ?thesis unfolding round_half_even_int round_pos_def by simp
qed

lemma rnd_0 [simp]: "rnd f 0 = Fin 0"
  by (simp add: rnd_def)

lemma rnd_neg: "rnd f (- x) = fneg (rnd f x)"
  by (simp add: rnd_def Let_def)

lemma rnd_not_nan [simp]: "rnd f x \<noteq> NaN"
  by (simp add: rnd_def Let_def)

lemma rnd_mono:
  assumes "x \<le> y"
  shows "fle (rnd f x) (rnd f y)"
proof -
  have pos: "fle (rnd f a) (rnd f b)" if "0 < a" "a \<le> b" for a b
    using round_pos_mono [OF that] that by (auto simp: rnd_def Let_def)
  have neg: "fle (rnd f a) (rnd f b)" if "a \<le> b" "b < 0" for a b
    using round_pos_mono [of "- b" "- a"] that by (auto simp: rnd_def Let_def)
  have up: "fle (Fin 0) (rnd f a)" if "0 < a" for a
    using round_pos_nonneg [OF that] that by (auto simp: rnd_def Let_def)
  have down: "fle (rnd f a) (Fin 0)" if "a < 0" for a
    using round_pos_nonneg [of "- a"] that by (auto simp: rnd_def Let_def)
  consider "0 < x" | "y < 0" | "x < 0" "y = 0" | "x = 0" "y = 0" | "x = 0" "0 < y" | "x < 0" "0 < y"
    using assms by linarith
  then show ?thesis
  proof cases
    case 6
    then show ?thesis using up [of y] down [of x]
      by (cases "rnd f x"; cases "rnd f y") auto
  qed (use assms pos neg up down in auto)
qed

lemma fadd_mono:
  assumes "fle a a'" and "fle b b'" and "fadd f a b \<noteq> NaN" and "fadd f a' b' \<noteq> NaN"
  shows "fle (fadd f a b) (fadd f a' b')"
proof -
  have top: "fle c PInf" "fle NInf c" if "c \<noteq> NaN" for c using that by (cases c; simp)+
  show ?thesis
    using assms top rnd_mono rnd_not_nan
    by (cases a; cases b; cases a'; cases b') (auto intro: rnd_mono)
qed

end

interpretation f32: rounding binary32
  by unfold_locales (simp add: binary32_def)

interpretation f64: rounding binary64
  by unfold_locales (simp add: binary64_def)

subsection \<open>Order\<close>

lemma fle_refl [simp]: "fle a a = (a \<noteq> NaN)"
  by (cases a) auto

lemma fle_trans: "fle a b \<Longrightarrow> fle b c \<Longrightarrow> fle a c"
  by (cases a; cases b; cases c) auto

lemma fle_total: "a \<noteq> NaN \<Longrightarrow> b \<noteq> NaN \<Longrightarrow> fle a b \<or> fle b a"
  by (cases a; cases b) auto

lemma fle_antisym: "fle a b \<Longrightarrow> fle b a \<Longrightarrow> a = b"
  by (cases a; cases b) auto

lemma fle_not_nan: "fle a b \<Longrightarrow> a \<noteq> NaN \<and> b \<noteq> NaN"
  by (cases a; cases b) auto

text \<open>\<open>total_cmp\<close>: the order of \<open>fle\<close> with the (positive) NaN above everything.\<close>

instantiation flt :: linorder
begin

definition less_eq_flt :: "flt \<Rightarrow> flt \<Rightarrow> bool" where
  "less_eq_flt a b \<longleftrightarrow> b = NaN \<or> fle a b"

definition less_flt :: "flt \<Rightarrow> flt \<Rightarrow> bool" where
  "less_flt a b \<longleftrightarrow> (a::flt) \<le> b \<and> \<not> b \<le> a"

instance
  by standard (auto simp: less_eq_flt_def less_flt_def intro: fle_trans fle_antisym dest: fle_total fle_not_nan)

end

subsection \<open>Representable values\<close>

lemma quantum_mono: "0 < x \<Longrightarrow> x \<le> y \<Longrightarrow> quantum f x \<le> quantum f y"
  using flog2_mono [of x y] by (auto simp: quantum_def)

lemma round_pos_exact:
  assumes "x = of_int m * 2 powi k" and "quantum f x \<le> k"
  shows "round_pos f x = x"
proof -
  let ?q = "quantum f x"
  have x: "x = of_int (m * 2 ^ nat (k - ?q)) * 2 powi ?q"
    using assms powi_multiple [of ?q k] by simp
  then have "x / 2 powi ?q = of_int (m * 2 ^ nat (k - ?q))"
    by (metis nonzero_mult_div_cancel_right less_irrefl powi_pos)
  then show ?thesis unfolding round_pos_def using x by (metis round_half_even_int)
qed

lemma round_half_even_error: "\<bar>of_int (round_half_even x) - x\<bar> \<le> 1/2"
  by (auto simp: round_half_even_def Let_def abs_if) linarith+

lemma round_pos_error: "\<bar>round_pos f x - x\<bar> \<le> 2 powi (quantum f x - 1)"
proof -
  let ?q = "(2::rat) powi quantum f x"
  have "\<bar>round_pos f x - x\<bar> = \<bar>of_int (round_half_even (x / ?q)) - x / ?q\<bar> * ?q"
    by (simp add: round_pos_def abs_mult_pos left_diff_distrib)
  also have "\<dots> \<le> 1/2 * ?q" using round_half_even_error by (intro mult_right_mono) auto
  also have "\<dots> = 2 powi (quantum f x - 1)" by (simp add: power_int_diff)
  finally show ?thesis .
qed

lemma rnd_exact:
  assumes "0 < x" and "x = of_int m * 2 powi k" and "x < 2 powi (e + 1)" 
    and "e - (prec f - 1) \<le> k" and "emin f \<le> k" and "e < emax f"
  shows "rnd f x = Fin x"
proof -
  have "(2::rat) powi flog2 x < 2 powi (e + 1)" using flog2_bounds(1) [OF assms(1)] assms(3) by linarith
  then have "flog2 x \<le> e" by (simp only: powi_less_iff)
  then have "quantum f x \<le> k" using assms(4,5) by (auto simp: quantum_def)
  then have "round_pos f x = x" using assms(2) by (rule round_pos_exact [rotated])
  moreover have "x < 2 powi emax f"
    using assms(3,6) powi_le_iff [of "e + 1" "emax f"] by linarith
  ultimately show ?thesis using assms(1) by (simp add: rnd_def)
qed

text \<open>What \<open>binary32\<close> holds, \<open>binary64\<close> holds exactly.\<close>

lemma round_pos_32_64:
  assumes "0 < y"
  shows "round_pos binary64 (round_pos binary32 y) = round_pos binary32 y"
proof (cases "round_pos binary32 y = 0")
  case True
  then show ?thesis by (simp add: round_pos_def round_half_even_def)
next
  case False
  let ?x = "round_pos binary32 y" and ?q = "quantum binary32 y"
  let ?k = "max (flog2 y + 1) ?q"
  have x: "0 < ?x" using False f32.round_pos_nonneg [OF assms] by simp
  have "y \<le> 2 powi (flog2 y + 1)" using flog2_bounds(2) [OF assms] by simp
  also have "\<dots> \<le> 2 powi ?k" by (simp add: power_int_increasing)
  finally have "?x \<le> 2 powi ?k" by (intro round_pos_le_pow) auto
  then have "2 powi flog2 ?x \<le> (2::rat) powi ?k" using flog2_bounds(1) [OF x] by linarith
  then have "flog2 ?x \<le> ?k" by (simp add: powi_le_iff)
  then have "quantum binary64 ?x \<le> ?q"
    by (auto simp: quantum_def binary32_def binary64_def)
  then show ?thesis by (intro round_pos_exact [OF round_pos_def])
qed

lemma rnd_32_64:
  assumes "rnd binary32 y = Fin x"
  shows "rnd binary64 x = Fin x"
proof -
  have pos: "rnd binary64 (round_pos binary32 z) = Fin (round_pos binary32 z)"
    if "0 < z" "round_pos binary32 z < 2 powi emax binary32" for z
  proof -
    have "round_pos binary32 z < 2 powi emax binary64"
      using that(2) power_int_increasing [of "emax binary32" "emax binary64" "2::rat"]
      by (simp add: binary32_def binary64_def)
    then show ?thesis
      using that f32.round_pos_nonneg [of z] round_pos_32_64 [of z] by (auto simp: rnd_def Let_def)
  qed
  consider "y = 0" | "0 < y" | "y < 0" by linarith
  then show ?thesis
  proof cases
    case 2
    then show ?thesis using assms pos [of y] by (auto simp: rnd_def [of binary32] Let_def split: if_splits)
  next
    case 3
    then show ?thesis using assms pos [of "- y"] f64.rnd_neg
      by (auto simp: rnd_def [of binary32] Let_def split: if_splits)
  qed (use assms in simp)
qed

text \<open>Rounding a rounded value changes nothing.\<close>

context rounding
begin

lemma round_pos_idem:
  assumes "0 < y"
  shows "round_pos f (round_pos f y) = round_pos f y"
proof (cases "round_pos f y = 0")
  case True
  then show ?thesis by (simp add: round_pos_def round_half_even_def)
next
  case False
  let ?x = "round_pos f y" and ?q = "quantum f y"
  let ?k = "max (flog2 y + 1) ?q"
  have x: "0 < ?x" using False round_pos_nonneg [OF assms] by simp
  have "y \<le> 2 powi (flog2 y + 1)" using flog2_bounds(2) [OF assms] by simp
  also have "\<dots> \<le> 2 powi ?k" by (simp add: power_int_increasing)
  finally have le: "?x \<le> 2 powi ?k" by (intro round_pos_le_pow) auto
  have lx: "2 powi flog2 ?x \<le> ?x" using flog2_bounds(1) [OF x] .
  show ?thesis
  proof (cases "flog2 ?x < ?k")
    case True
    then have "quantum f ?x \<le> ?q" using prec_pos by (auto simp: quantum_def)
    then show ?thesis by (intro round_pos_exact [OF round_pos_def])
  next
    case False
    then have "(2::rat) powi ?k \<le> 2 powi flog2 ?x" by (simp only: powi_le_iff)
    then have "?x = of_int 1 * 2 powi ?k" using le lx by simp
    moreover have "flog2 ?x \<le> ?k"
      using le lx powi_le_iff [of "flog2 ?x" ?k] by linarith
    then have "quantum f ?x \<le> ?k" using prec_pos by (auto simp: quantum_def)
    ultimately show ?thesis by (rule round_pos_exact)
  qed
qed

lemma rnd_idem:
  assumes "rnd f y = Fin x"
  shows "rnd f x = Fin x"
proof -
  have pos: "rnd f (round_pos f z) = Fin (round_pos f z)"
    if "0 < z" "round_pos f z < 2 powi emax f" for z
    using that round_pos_nonneg [of z] round_pos_idem [of z] by (auto simp: rnd_def Let_def)
  consider "y = 0" | "0 < y" | "y < 0" by linarith
  then show ?thesis
  proof cases
    case 2
    then show ?thesis using assms pos [of y] by (auto simp: rnd_def [of f y] Let_def split: if_splits)
  next
    case 3
    then show ?thesis using assms pos [of "- y"] rnd_neg
      by (auto simp: rnd_def [of f y] Let_def split: if_splits)
  qed (use assms in simp)
qed

lemma flt_round_rnd [simp]: "flt_round f (rnd f x) = rnd f x"
  using rnd_idem [of x] by (cases "rnd f x") auto

end

end
