(* ===== verification/Types.thy ===== *)
theory Types
  imports StrOps F32
begin

text \<open>
  The data of \<open>crates/rqmd-core/src/types.rs\<close>: collections, documents, chunks, ranked and
  final results, the rerank status, recency weighting and section numbering. A
  \<open>Duration\<close> is its number of nanoseconds.
\<close>

record collection =
  col_name :: string
  col_path :: string
  col_pattern :: string
  col_ignore :: "string list"
  col_include_by_default :: bool
  col_update_command :: "string option"
  col_allow_hidden :: bool
  col_respect_gitignore :: bool
  col_max_file_bytes :: "nat option"
  col_embed_ignore :: "string list"
  col_embed_max_bytes :: "nat option"

record document =
  doc_id :: int
  doc_collection :: string
  doc_path :: string
  doc_title :: string
  doc_hash :: string
  doc_active :: bool

record chunk =
  chunk_text :: string
  chunk_pos :: nat

record ranked_result =
  filepath :: string
  rr_title :: string
  backend_score :: flt

datatype query_type = Original | Lex | VecQ | Hyde

record ranked_list_meta =
  meta_source :: string
  meta_query_type :: query_type

record search_result =
  sr_file :: string
  sr_title :: string
  sr_body :: string
  sr_best_chunk :: string
  sr_best_chunk_pos :: nat
  sr_score :: flt
  sr_docid :: string
  sr_collection :: string
  sr_path :: string
  sr_context :: "string option"

subsection \<open>Rerank status\<close>

datatype rerank_status = Reranked | NotRun | Unsupported | Failed | DeadlineExpired

fun rerank_notice :: "rerank_status \<Rightarrow> string option" where
  "rerank_notice Unsupported = Some
     (''results were not reranked: the active inference backend does not support '' @
      ''reranking, so they are in keyword and vector fusion order'')"
| "rerank_notice Failed = Some
     (''results were not reranked: the rerank model failed, so they are in keyword '' @
      ''and vector fusion order'')"
| "rerank_notice DeadlineExpired = Some
     (''results were not reranked: the time limit was reached, so they are in keyword '' @
      ''and vector fusion order'')"
| "rerank_notice Reranked = None"
| "rerank_notice NotRun = None"

record query_outcome =
  out_results :: "search_result list"
  out_rerank :: rerank_status

subsection \<open>Query timings\<close>

record ann_pass =
  ap_phase :: string
  ap_k :: nat
  ap_fetched :: nat
  ap_in_scope :: nat
  ap_ann :: nat
  ap_lookup :: nat

record query_timings =
  qt_phase :: string
  qt_total :: nat
  qt_bm25_calls :: nat
  qt_bm25 :: nat
  qt_bm25_scope :: nat
  qt_embed_calls :: nat
  qt_embed :: nat
  qt_expansion_generate :: nat
  qt_expansion_search :: nat
  ann_passes :: "ann_pass list"
  qt_fuse :: nat
  fused_from :: nat
  fused :: nat
  qt_resolve :: nat
  resolve_lookups :: nat
  qt_chunk_select :: nat
  qt_rerank :: nat
  rerank_chunks :: nat
  qt_assemble :: nat

definition lookups :: "query_timings \<Rightarrow> nat" where
  "lookups t = sum_list (map ap_fetched (ann_passes t))"

definition ann_time :: "query_timings \<Rightarrow> nat" where
  "ann_time t = sum_list (map ap_ann (ann_passes t))"

definition lookup_time :: "query_timings \<Rightarrow> nat" where
  "lookup_time t = sum_list (map ap_lookup (ann_passes t))"

subsection \<open>Recency\<close>

definition MAX_PER_FILE :: nat where "MAX_PER_FILE = 5"

definition clamp_per_file :: "nat \<Rightarrow> nat" where
  "clamp_per_file n = max 1 (min n MAX_PER_FILE)"

definition DEFAULT_RECENCY_FLOOR :: flt where "DEFAULT_RECENCY_FLOOR = f32_of (1/2)"

definition NANOS :: nat where "NANOS = 1000000000"
definition MAX_HALF_LIFE_SECS :: nat where "MAX_HALF_LIFE_SECS = 3650 * 86400"

record recency =
  half_life :: nat
  floor_share :: flt

definition recency_new :: "nat \<Rightarrow> recency" where
  "recency_new hl = \<lparr>half_life = hl, floor_share = DEFAULT_RECENCY_FLOOR\<rparr>"

text \<open>\<open>clamp(0.0, 1.0)\<close> of a value that is a number.\<close>

definition clamp01 :: "flt \<Rightarrow> flt" where
  "clamp01 x = (if flt_lt x (Fin 0) then Fin 0 else if flt_lt (Fin 1) x then Fin 1 else x)"

definition with_floor :: "recency \<Rightarrow> flt \<Rightarrow> recency" where
  "with_floor r x = (if is_nan x then r else r\<lparr>floor_share := clamp01 x\<rparr>)"

definition as_secs_f64 :: "nat \<Rightarrow> flt" where
  "as_secs_f64 d = fadd64 (f64_of (of_nat (d div NANOS))) (fdiv64 (f64_of (of_nat (d mod NANOS))) (f64_of (of_nat NANOS)))"

text \<open>\<open>exp2\<close> is the library's base-2 exponential of an \<open>f64\<close>.\<close>

definition recency_factor :: "(flt \<Rightarrow> flt) \<Rightarrow> recency \<Rightarrow> nat \<Rightarrow> flt" where
  "recency_factor exp2 r age =
     (let half_lives = fdiv64 (as_secs_f64 age) (fmax (as_secs_f64 (half_life r)) (Fin 1));
          decay = exp2 (fneg half_lives)
      in flt_round binary32
           (fadd64 (floor_share r) (fmul64 (fsub32 (Fin 1) (floor_share r)) decay)))"

definition round_percent :: "flt \<Rightarrow> nat" where
  "round_percent x = (case fmul32 x (Fin 100) of Fin y \<Rightarrow> nat \<lfloor>y + 1/2\<rfloor> | _ \<Rightarrow> 0)"

definition recency_notice :: "recency \<Rightarrow> string" where
  "recency_notice r =
     (let secs = half_life r div NANOS;
          hl = (if secs mod 86400 = 0 then dec (secs div 86400) @ ''d'' else dec (secs div 3600) @ ''h'')
      in ''results are weighted by file age: half-life '' @ hl @ '', no file below ''
         @ dec (round_percent (floor_share r)) @ ''% of its score'')"

text \<open>The reasons \<open>parse_half_life\<close> gives; the message around them quotes the input.\<close>

datatype half_life_error = NoUnit | NotWhole | TooLong | ZeroHalfLife | OverMax

definition unit_secs :: "char \<Rightarrow> nat option" where
  "unit_secs c =
     (if c = CHR ''d'' then Some 86400 else if c = CHR ''w'' then Some (7 * 86400)
      else if c = CHR ''h'' then Some 3600 else None)"

definition parse_half_life :: "string \<Rightarrow> half_life_error + nat" where
  "parse_half_life spec0 =
     (let spec = trim spec0 in
      if spec = [] then Inl NoUnit
      else case unit_secs (last spec) of
        None \<Rightarrow> Inl NoUnit
      | Some unit \<Rightarrow>
          (let digits = butlast spec in
           if digits = [] \<or> \<not> list_all is_ascii_digit digits then Inl NotWhole
           else case parse_uint 64 digits of
             None \<Rightarrow> Inl TooLong
           | Some cnt \<Rightarrow>
               if 2 ^ 64 \<le> cnt * unit then Inl TooLong
               else if cnt * unit = 0 then Inl ZeroHalfLife
               else if MAX_HALF_LIFE_SECS < cnt * unit then Inl OverMax
               else Inr (cnt * unit * NANOS)))"

record search_options =
  per_file :: nat
  opt_recency :: "recency option"

definition search_options_default :: search_options where
  "search_options_default = \<lparr>per_file = 1, opt_recency = None\<rparr>"

subsection \<open>Section numbers\<close>

text \<open>A \<open>HashMap\<close> of counters, \<open>or_default\<close> for a key that is absent.\<close>

definition bump :: "string \<Rightarrow> (string \<Rightarrow> nat) \<Rightarrow> string \<Rightarrow> nat" where
  "bump k m = m(k := m k + 1)"

definition file_totals :: "search_result list \<Rightarrow> string \<Rightarrow> nat" where
  "file_totals rs = fold (\<lambda>r. bump (sr_file r)) rs (\<lambda>_. 0)"

fun number_sections ::
  "(string \<Rightarrow> nat) \<Rightarrow> (string \<Rightarrow> nat) \<Rightarrow> search_result list \<Rightarrow> (nat \<times> nat) option list" where
  "number_sections totals seen [] = []"
| "number_sections totals seen (r # rs) =
     (let seen' = bump (sr_file r) seen; n = seen' (sr_file r); t = totals (sr_file r)
      in (if 1 < t then Some (n, t) else None) # number_sections totals seen' rs)"

definition section_numbers :: "search_result list \<Rightarrow> (nat \<times> nat) option list" where
  "section_numbers rs = number_sections (file_totals rs) (\<lambda>_. 0) rs"

subsection \<open>Lemmas\<close>

lemma fold_bump: "fold (\<lambda>r. bump (sr_file r)) rs m k = m k + count_list (map sr_file rs) k"
  by (induction rs arbitrary: m) (auto simp: bump_def)

lemma file_totals_count: "file_totals rs k = count_list (map sr_file rs) k"
  by (simp add: file_totals_def fold_bump)

lemma number_sections_length [simp]: "length (number_sections totals seen rs) = length rs"
  by (induction rs arbitrary: seen) (auto simp: Let_def)

lemma number_sections_nth:
  "i < length rs \<Longrightarrow> number_sections totals seen rs ! i =
     (let f = sr_file (rs ! i); t = totals f
      in if 1 < t then Some (seen f + count_list (map sr_file (take (Suc i) rs)) f, t) else None)"
proof (induction rs arbitrary: seen i)
  case Nil
  then show ?case by simp
next
  case (Cons r rs)
  then show ?case
    by (cases i) (auto simp: Let_def bump_def)
qed

lemma clamp_per_file_range: "1 \<le> clamp_per_file n \<and> clamp_per_file n \<le> MAX_PER_FILE"
  by (simp add: clamp_per_file_def MAX_PER_FILE_def)

lemma fle_between: "fle (Fin a) v \<Longrightarrow> fle v (Fin b) \<Longrightarrow> \<exists>c. v = Fin c \<and> a \<le> c \<and> c \<le> b"
  by (cases v) auto

lemma rnd64_between:
  assumes "a \<le> x" and "x \<le> b" and "rnd binary64 a = Fin a" and "rnd binary64 b = Fin b"
  shows "\<exists>c. rnd binary64 x = Fin c \<and> a \<le> c \<and> c \<le> b"
  using f64.rnd_mono [OF assms(1)] f64.rnd_mono [OF assms(2)] assms(3,4) by (intro fle_between) auto

lemma rnd64_consts:
  "rnd binary64 18446744073709551616 = Fin 18446744073709551616"
  "rnd binary64 1000000000 = Fin 1000000000"
  "rnd binary64 1 = Fin 1" "rnd binary64 36893488147419103232 = Fin 36893488147419103232"
  "rnd binary32 1 = Fin 1"
  "rnd binary64 (33554433/33554432) = Fin (33554433/33554432)"
  "rnd binary32 (33554433/33554432) = Fin 1"
proof -
  show "rnd binary64 18446744073709551616 = Fin 18446744073709551616"
    by (rule rnd_exact [where k = 64 and e = 64 and m = 1]; simp add: binary64_def)
  show "rnd binary64 36893488147419103232 = Fin 36893488147419103232"
    by (rule rnd_exact [where k = 65 and e = 65 and m = 1]; simp add: binary64_def)
  show "rnd binary64 1000000000 = Fin 1000000000"
    by (rule rnd_exact [where k = 0 and e = 29 and m = 1000000000]; simp add: binary64_def)
  show "rnd binary64 1 = Fin 1"
    by (rule rnd_exact [where k = 0 and e = 0 and m = 1]; simp add: binary64_def)
  show "rnd binary32 1 = Fin 1"
    by (rule rnd_exact [where k = 0 and e = 0 and m = 1]; simp add: binary32_def)
  show "rnd binary64 (33554433/33554432) = Fin (33554433/33554432)"
    by (rule rnd_exact [where k = "-25" and e = 0 and m = 33554433];
        simp add: binary64_def power_int_minus_divide)
  show "rnd binary32 (33554433/33554432) = Fin 1" by code_simp
qed

lemma as_secs_f64_range:
  assumes "d < 2 ^ 64 * NANOS"
  shows "\<exists>z. as_secs_f64 d = Fin z \<and> 0 \<le> z"
proof -
  have s: "d div NANOS < 2 ^ 64" using assms by (simp add: NANOS_def less_mult_imp_div_less)
  have n: "d mod NANOS < 1000000000" by (simp add: NANOS_def)
  have "(of_nat (d div NANOS) :: rat) \<le> of_nat (2 ^ 64)" using s by (subst of_nat_le_iff) simp
  then obtain a where a: "f64_of (of_nat (d div NANOS)) = Fin a" "0 \<le> a" "a \<le> 18446744073709551616"
    using rnd64_between [of 0 "of_nat (d div NANOS)" "18446744073709551616"] rnd64_consts
    by (auto simp: f64_of_def)
  have "(of_nat (d mod NANOS) :: rat) \<le> of_nat 1000000000" using n by (subst of_nat_le_iff) simp
  then obtain b where b: "f64_of (of_nat (d mod NANOS)) = Fin b" "0 \<le> b" "b \<le> 1000000000"
    using rnd64_between [of 0 "of_nat (d mod NANOS)" "1000000000"] rnd64_consts
    by (auto simp: f64_of_def)
  have nn: "f64_of (of_nat NANOS) = Fin 1000000000" using rnd64_consts by (simp add: f64_of_def NANOS_def)
  obtain c where c: "rnd binary64 (b / 1000000000) = Fin c" "0 \<le> c" "c \<le> 1"
    using rnd64_between [of 0 "b / 1000000000" 1] b rnd64_consts by auto
  obtain z where "rnd binary64 (a + c) = Fin z" "0 \<le> z"
    using rnd64_between [of 0 "a + c" "36893488147419103232"] a c rnd64_consts by auto
  moreover have "fdiv64 (Fin b) (Fin 1000000000) = Fin c" using c by simp
  ultimately show ?thesis using a(1) b(1) nn unfolding as_secs_f64_def by auto
qed

lemma half_lives_range:
  assumes "age < 2 ^ 64 * NANOS"
  shows "fle (Fin 0) (fdiv64 (as_secs_f64 age) (fmax (as_secs_f64 hl) (Fin 1)))"
proof -
  obtain z where z: "as_secs_f64 age = Fin z" "0 \<le> z" using as_secs_f64_range [OF assms] by blast
  let ?b = "fmax (as_secs_f64 hl) (Fin 1)"
  have "fle (Fin 1) ?b" by (cases "as_secs_f64 hl") (auto simp: fmax_def is_nan_def)
  then show ?thesis
    using f64.rnd_mono [of 0] z by (cases ?b) (auto simp: zero_le_divide_iff)
qed

text \<open>
  \<open>1.0 - floor\<close> is off by less than half a unit above one, so that adding the floor back
  in \<open>f64\<close> and rounding to \<open>f32\<close> cannot exceed one.
\<close>

lemma one_minus_f32:
  assumes "0 \<le> a" and "a \<le> 1"
  obtains t where "fsub32 (Fin 1) (Fin a) = Fin t" and "0 \<le> t" and "t \<le> 1 - a + 1 / 2 ^ 25"
    and "rnd binary64 t = Fin t"
proof -
  have "fle (Fin 0) (rnd binary32 (1 - a))" "fle (rnd binary32 (1 - a)) (Fin 1)"
    using f32.rnd_mono [of 0 "1 - a"] f32.rnd_mono [of "1 - a" 1] assms rnd64_consts by auto
  then obtain t where t: "rnd binary32 (1 - a) = Fin t" "0 \<le> t" "t \<le> 1" using fle_between by blast
  have "t \<le> 1 - a + 1 / 2 ^ 25"
  proof (cases "a = 0 \<or> a = 1")
    case True
    then show ?thesis using t by auto
  next
    case False
    then have p: "0 < 1 - a" "1 - a < 1" using assms by auto
    have "2 powi flog2 (1 - a) < (2::rat) powi 0" using flog2_bounds(1) [OF p(1)] p(2) by simp
    then have "flog2 (1 - a) < 0" by (simp only: powi_less_iff)
    then have "quantum binary32 (1 - a) - 1 \<le> - 25" by (auto simp: quantum_def binary32_def)
    then have "(2::rat) powi (quantum binary32 (1 - a) - 1) \<le> 2 powi (- 25)"
      by (simp only: powi_le_iff)
    moreover have "t = round_pos binary32 (1 - a)"
      using t(1) p by (auto simp: rnd_def Let_def split: if_splits)
    moreover have "(2::rat) powi (- 25) = 1 / 2 ^ 25" by (simp add: power_int_minus_divide)
    moreover have "\<bar>round_pos binary32 (1 - a) - (1 - a)\<bar> \<le> 2 powi (quantum binary32 (1 - a) - 1)"
      by (rule round_pos_error)
    ultimately show ?thesis by linarith
  qed
  moreover have "fsub32 (Fin 1) (Fin a) = Fin t" using t(1) by (simp add: fsub_def)
  ultimately show ?thesis using that t rnd_32_64 by blast
qed

lemma weight_range:
  assumes "0 \<le> a" and "a \<le> 1" and "rnd binary32 a = Fin a" and "fle (Fin 0) d" and "fle d (Fin 1)"
  shows "fle (Fin a) (flt_round binary32 (fadd64 (Fin a) (fmul64 (fsub32 (Fin 1) (Fin a)) d)))
       \<and> fle (flt_round binary32 (fadd64 (Fin a) (fmul64 (fsub32 (Fin 1) (Fin a)) d))) (Fin 1)"
proof -
  obtain t where t: "fsub32 (Fin 1) (Fin a) = Fin t" "0 \<le> t" "t \<le> 1 - a + 1 / 2 ^ 25"
      "rnd binary64 t = Fin t"
    using one_minus_f32 assms by blast
  obtain e where e: "d = Fin e" "0 \<le> e" "e \<le> 1" using fle_between assms(4,5) by blast
  have a64: "rnd binary64 a = Fin a" using assms(3) by (rule rnd_32_64)
  have "0 \<le> t * e" "t * e \<le> t" using t e by (auto simp: mult_left_le)
  then obtain m where m: "rnd binary64 (t * e) = Fin m" "0 \<le> m" "m \<le> t"
    using rnd64_between [of 0 "t * e" t] t by auto
  obtain s where s: "rnd binary64 (a + m) = Fin s" "a \<le> s" "s \<le> 33554433/33554432"
    using rnd64_between [of a "a + m" "33554433/33554432"] a64 m t rnd64_consts by auto
  have "fle (rnd binary32 a) (rnd binary32 s)" "fle (rnd binary32 s) (rnd binary32 (33554433/33554432))"
    using s by (auto intro: f32.rnd_mono)
  then show ?thesis using assms(3) rnd64_consts t e m s by simp
qed

lemma with_floor_range:
  assumes "flt_round binary32 x = x"
  shows "\<exists>a. floor_share (with_floor (recency_new hl) x) = Fin a \<and> 0 \<le> a \<and> a \<le> 1 \<and> rnd binary32 a = Fin a"
proof -
  have "DEFAULT_RECENCY_FLOOR = Fin (1/2)" "rnd binary32 (1/2) = Fin (1/2)" by code_simp+
  then show ?thesis
    using assms rnd64_consts
    by (cases x) (auto simp: with_floor_def recency_new_def is_nan_def clamp01_def flt_lt_def)
qed

subsection \<open>Properties\<close>

text \<open>Weighting by age never raises a score and never takes it below the floor that
  was chosen: for a floor given as any \<open>f32\<close> value (clamped, or the default when it is not a
  number) the factor lies between the floor and 1.0, through the roundings of the code. The
  base-2 exponential of the library is only assumed to map non-positive values into
  \<open>0.0..=1.0\<close>.\<close>

theorem recency_factor_bounds:
  assumes exp2: "\<And>x. fle (Fin 0) x \<Longrightarrow> fle (Fin 0) (exp2 (fneg x)) \<and> fle (exp2 (fneg x)) (Fin 1)"
    and "flt_round binary32 x = x" and "age < 2 ^ 64 * NANOS"
    and r: "r = with_floor (recency_new hl) x"
  shows "fle (floor_share r) (recency_factor exp2 r age) \<and> fle (recency_factor exp2 r age) (Fin 1)"
proof -
  obtain a where a: "floor_share r = Fin a" "0 \<le> a" "a \<le> 1" "rnd binary32 a = Fin a"
    using with_floor_range assms(2) r by blast
  let ?d = "exp2 (fneg (fdiv64 (as_secs_f64 age) (fmax (as_secs_f64 (half_life r)) (Fin 1))))"
  have "fle (Fin 0) ?d \<and> fle ?d (Fin 1)" using half_lives_range assms(3) by (intro exp2)
  then show ?thesis
    using weight_range [OF a(2-4)] a(1) by (simp add: recency_factor_def)
qed

lemma recency_factor_bounds_witness:
  "fle (Fin (3/4)) (recency_factor (\<lambda>_. Fin (1/2)) (with_floor (recency_new (86400 * NANOS)) (Fin (3/4))) (86400 * NANOS))"
proof -
  have "flt_round binary32 (Fin (3/4)) = Fin (3/4)" by code_simp
  moreover have "floor_share (with_floor (recency_new (86400 * NANOS)) (Fin (3/4))) = Fin (3/4)"
    by (simp add: with_floor_def is_nan_def clamp01_def flt_lt_def)
  moreover have "86400 * NANOS < 2 ^ 64 * NANOS" by (simp add: NANOS_def)
  ultimately show ?thesis
    using recency_factor_bounds [of "\<lambda>_. Fin (1/2)" "Fin (3/4)" "86400 * NANOS" _ "86400 * NANOS", OF _ _ _ refl]
    by simp
qed

text \<open>The n-th result of a file with several results is numbered n, out of the number
  of results of that file; a file with one result is not numbered.\<close>

theorem section_numbers_spec:
  "length (section_numbers rs) = length rs
   \<and> (\<forall>i < length rs. section_numbers rs ! i =
        (let files = map sr_file rs; f = files ! i; t = count_list files f
         in if 1 < t then Some (count_list (take (Suc i) files) f, t) else None))"
  by (simp add: section_numbers_def number_sections_nth file_totals_count Let_def take_map)

lemma section_numbers_spec_witness:
  "let r = search_result.make ''rqmd://c/a.md'' ''A'' ''x'' ''x'' 0 (Fin 1) ''abc123'' ''c'' ''a.md'' None;
       q = r\<lparr>sr_file := ''rqmd://c/b.md''\<rparr>
   in section_numbers [r, q, r] ! 2 = Some (2, 2) \<and> section_numbers [r, q, r] ! 1 = None"
  unfolding Let_def
  by (subst section_numbers_spec [THEN conjunct2, rule_format], simp,
      subst section_numbers_spec [THEN conjunct2, rule_format], simp)
    (simp add: search_result.make_def)

text \<open>A half-life is accepted exactly when it is ASCII digits and a unit around which
  white space is trimmed, above zero and at most ten years, and its value is then exact: none
  of the bounded additions and multiplications of the parse loses digits.\<close>

theorem parse_half_life_exact:
  "parse_half_life s = Inr d \<longleftrightarrow>
     (\<exists>ds c u. trim s = ds @ [c] \<and> ds \<noteq> [] \<and> list_all is_ascii_digit ds \<and> unit_secs c = Some u
        \<and> 0 < dec_value ds * u \<and> dec_value ds * u \<le> MAX_HALF_LIFE_SECS
        \<and> d = dec_value ds * u * NANOS)"
proof (cases "trim s" rule: rev_cases)
  case Nil
  then show ?thesis by (simp add: parse_half_life_def)
next
  case (snoc ds c)
  show ?thesis
  proof (cases "unit_secs c")
    case None
    then show ?thesis using snoc by (simp add: parse_half_life_def Let_def)
  next
    case (Some u)
    then have u: "0 < u" by (auto simp: unit_secs_def split: if_splits)
    have small: "n < 2 ^ 64 \<and> n * u < 2 ^ 64" if "n * u \<le> MAX_HALF_LIFE_SECS" for n
    proof -
      have "n \<le> n * u" using mult_le_mono2 [of 1 u n] u by linarith
      moreover have "n * u \<le> 315360000" using that by (simp add: MAX_HALF_LIFE_SECS_def)
      ultimately have "n \<le> 315360000" by (rule order_trans)
      with \<open>n * u \<le> 315360000\<close> show ?thesis by (simp del: mult_le_cancel2)
    qed
    have "parse_uint 64 ds = (if dec_value ds < 2 ^ 64 then Some (dec_value ds) else None)"
      if ne: "ds \<noteq> []" "list_all is_ascii_digit ds"
    proof -
      obtain x xs where "ds = x # xs" using ne by (cases ds) auto
      moreover have "x \<noteq> CHR ''+''" using that calculation by (auto simp: is_ascii_digit_def)
      ultimately show ?thesis using that by (simp add: parse_uint_def Let_def)
    qed
    with Some snoc small [of "dec_value ds"] show ?thesis
      by (auto simp: parse_half_life_def Let_def)
  qed
qed

end
