(* ===== verification/Rrf.thy ===== *)
theory Rrf
  imports Types
begin

text \<open>
  Reciprocal rank fusion, \<open>crates/rqmd-core/src/rrf.rs\<close>, with the \<open>f32\<close> arithmetic of the
  code. The \<open>HashMap\<close> of entries is a keyed table; its iteration order is arbitrary in Rust,
  and the result is shown not to depend on it. The score of each document is shown to
  be the one a direct per-document computation gives, and a document that is ranked
  above another wherever the other occurs is shown never to score less.
\<close>

datatype ordering = OLess | OEqual | OGreater

definition cmp_str :: "string \<Rightarrow> string \<Rightarrow> ordering" where
  "cmp_str a b = (if a < b then OLess else if a = b then OEqual else OGreater)"

definition partial_cmp :: "flt \<Rightarrow> flt \<Rightarrow> ordering option" where
  "partial_cmp a b =
     (if is_nan a \<or> is_nan b then None
      else if flt_lt a b then Some OLess else if flt_lt b a then Some OGreater else Some OEqual)"

definition then_with :: "ordering \<Rightarrow> ordering \<Rightarrow> ordering" where
  "then_with a b = (if a = OEqual then b else a)"

definition score_desc_then_path :: "flt \<Rightarrow> string \<Rightarrow> flt \<Rightarrow> string \<Rightarrow> ordering" where
  "score_desc_then_path a_score a_path b_score b_path =
     then_with (case partial_cmp b_score a_score of None \<Rightarrow> OEqual | Some c \<Rightarrow> c) (cmp_str a_path b_path)"

definition RRF_K :: flt where "RRF_K = Fin 60"

definition dedupe_by_filepath :: "ranked_result list \<Rightarrow> ranked_result list" where
  "dedupe_by_filepath list = dedup_on filepath list"

definition rrf_weights :: "ranked_list_meta list \<Rightarrow> flt list" where
  "rrf_weights meta = map (\<lambda>m. if meta_query_type m = Original then Fin 2 else Fin 1) meta"

record rrf_entry =
  e_result :: ranked_result
  e_score :: flt
  e_top_rank :: nat

abbreviation e_key :: "rrf_entry \<Rightarrow> string" where
  "e_key e \<equiv> filepath (e_result e)"

definition contribution :: "flt \<Rightarrow> nat \<Rightarrow> flt" where
  "contribution weight rank = fdiv32 weight (fadd32 (fadd32 RRF_K (f32_of (of_nat rank))) (Fin 1))"

definition add_ranked :: "flt \<Rightarrow> nat \<times> ranked_result \<Rightarrow> rrf_entry list \<Rightarrow> rrf_entry list" where
  "add_ranked weight rr entries =
     (let (rank, result) = rr; c = contribution weight rank in
      tab_upsert e_key (filepath result)
        \<lparr>e_result = result, e_score = c, e_top_rank = rank\<rparr>
        (\<lambda>e. e\<lparr>e_score := fadd32 (e_score e) c,
               e_top_rank := (if rank < e_top_rank e then rank else e_top_rank e)\<rparr>)
        entries)"

definition weight_at :: "flt list \<Rightarrow> nat \<Rightarrow> flt" where
  "weight_at weights i = (if i < length weights then weights ! i else Fin 1)"

definition fuse_entries :: "ranked_result list list \<Rightarrow> flt list \<Rightarrow> rrf_entry list" where
  "fuse_entries ls weights =
     fold (\<lambda>(i, list). fold (add_ranked (weight_at weights i)) (enumerate 0 (dedupe_by_filepath list)))
       (enumerate 0 ls) []"

definition top_rank_bonus :: "rrf_entry \<Rightarrow> rrf_entry" where
  "top_rank_bonus e =
     (if e_top_rank e = 0 then e\<lparr>e_score := fadd32 (e_score e) (f32_of (5/100))\<rparr>
      else if e_top_rank e \<le> 2 then e\<lparr>e_score := fadd32 (e_score e) (f32_of (2/100))\<rparr>
      else e)"

definition scored :: "rrf_entry \<Rightarrow> flt \<times> ranked_result" where
  "scored e = (e_score e, (e_result e)\<lparr>backend_score := e_score e\<rparr>)"

definition scored_le :: "flt \<times> ranked_result \<Rightarrow> flt \<times> ranked_result \<Rightarrow> bool" where
  "scored_le a b \<longleftrightarrow> score_desc_then_path (fst a) (filepath (snd a)) (fst b) (filepath (snd b)) \<noteq> OGreater"

text \<open>\<open>rank_entries\<close> is the code from the bonus on, for the entries in any order.\<close>

definition rank_entries :: "rrf_entry list \<Rightarrow> ranked_result list" where
  "rank_entries entries = map snd (sort_by scored_le (map (scored \<circ> top_rank_bonus) entries))"

definition reciprocal_rank_fusion :: "ranked_result list list \<Rightarrow> flt list \<Rightarrow> ranked_result list" where
  "reciprocal_rank_fusion ls weights = rank_entries (fuse_entries ls weights)"

subsection \<open>The order of results\<close>

lemma scored_le_iff:
  "fst a \<noteq> NaN \<Longrightarrow> fst b \<noteq> NaN \<Longrightarrow>
   scored_le a b \<longleftrightarrow> flt_lt (fst b) (fst a)
     \<or> (\<not> flt_lt (fst a) (fst b) \<and> filepath (snd a) \<le> filepath (snd b))"
  by (auto simp: scored_le_def score_desc_then_path_def partial_cmp_def then_with_def cmp_str_def
      is_nan_def flt_lt_def dest: fle_total)

lemma flt_lt_order: "a \<noteq> NaN \<Longrightarrow> b \<noteq> NaN \<Longrightarrow> flt_lt a b \<longleftrightarrow> (a::flt) < b"
  by (auto simp: flt_lt_def less_flt_def less_eq_flt_def)

lemma scored_le_path:
  "fst x \<noteq> NaN \<Longrightarrow> fst y \<noteq> NaN \<Longrightarrow> scored_le x y \<Longrightarrow> scored_le y x \<Longrightarrow>
   filepath (snd x) = filepath (snd y)"
  by (auto simp: scored_le_iff flt_lt_order)

interpretation ranked: comparator "\<lambda>a. fst a \<noteq> NaN" scored_le
proof
  fix x y z :: "flt \<times> ranked_result"
  assume x: "fst x \<noteq> NaN" and y: "fst y \<noteq> NaN"
  then show "scored_le x y \<or> scored_le y x"
    by (auto simp: scored_le_iff flt_lt_order)
  assume z: "fst z \<noteq> NaN" and "scored_le x y" and "scored_le y z"
  with x y show "scored_le x z"
    by (auto simp: scored_le_iff flt_lt_order)
qed

subsection \<open>The score of one document\<close>

text \<open>
  The reference: walk the lists with one document in mind, adding the contribution of its
  rank in each list where it occurs.
\<close>

fun rank_of :: "string \<Rightarrow> string list \<Rightarrow> nat option" where
  "rank_of p [] = None"
| "rank_of p (q # qs) = (if q = p then Some 0 else map_option Suc (rank_of p qs))"

definition ranks_in :: "ranked_result list \<Rightarrow> string list" where
  "ranks_in list = map filepath (dedupe_by_filepath list)"

definition doc_add :: "flt \<Rightarrow> nat \<Rightarrow> (flt \<times> nat) option \<Rightarrow> flt \<times> nat" where
  "doc_add w i st =
     (case st of None \<Rightarrow> (contribution w i, i)
      | Some (s, t) \<Rightarrow> (fadd32 s (contribution w i), min i t))"

definition doc_step :: "string \<Rightarrow> flt \<Rightarrow> string list \<Rightarrow> (flt \<times> nat) option \<Rightarrow> (flt \<times> nat) option" where
  "doc_step p w ps st =
     (case rank_of p ps of None \<Rightarrow> st | Some i \<Rightarrow> Some (doc_add w i st))"

fun doc_score :: "string \<Rightarrow> (flt \<times> string list) list \<Rightarrow> (flt \<times> nat) option \<Rightarrow> (flt \<times> nat) option" where
  "doc_score p [] st = st"
| "doc_score p ((w, ps) # rest) st = doc_score p rest (doc_step p w ps st)"

definition weighted_lists :: "ranked_result list list \<Rightarrow> flt list \<Rightarrow> (flt \<times> string list) list" where
  "weighted_lists ls weights =
     map (\<lambda>(i, list). (weight_at weights i, ranks_in list)) (enumerate 0 ls)"

definition entry_state :: "string \<Rightarrow> rrf_entry list \<Rightarrow> (flt \<times> nat) option" where
  "entry_state p es = map_option (\<lambda>e. (e_score e, e_top_rank e)) (tab_find e_key p es)"

lemma entry_upsert:
  "entry_state p (add_ranked w (i, r) es) =
     (if filepath r = p then Some (doc_add w i (entry_state p es)) else entry_state p es)"
proof (cases "filepath r = p")
  case True
  then show ?thesis
    by (subst True [symmetric])
      (auto simp: entry_state_def add_ranked_def doc_add_def Let_def tab_find_upsert_same split: option.splits)
next
  case False
  then show ?thesis by (simp add: entry_state_def add_ranked_def Let_def tab_find_upsert_other)
qed

lemma rank_of_None: "rank_of p ps = None \<longleftrightarrow> p \<notin> set ps"
  by (induction ps) auto

lemma rank_of_Some: "rank_of p ps = Some i \<Longrightarrow> i < length ps \<and> ps ! i = p"
  by (induction ps arbitrary: i) (auto split: if_splits)

lemma rank_of_nth: "distinct ps \<Longrightarrow> i < length ps \<Longrightarrow> rank_of (ps ! i) ps = Some i"
proof (induction ps arbitrary: i)
  case (Cons q qs)
  then show ?case by (cases i) auto
qed simp

lemma entry_fold_list:
  assumes "distinct (map filepath rs)"
  shows "entry_state p (fold (add_ranked w) (enumerate n rs) es) =
     (case rank_of p (map filepath rs) of None \<Rightarrow> entry_state p es
      | Some i \<Rightarrow> Some (doc_add w (n + i) (entry_state p es)))"
  using assms
proof (induction rs arbitrary: n es)
  case Nil
  then show ?case by simp
next
  case (Cons r rs)
  have IH: "entry_state p (fold (add_ranked w) (enumerate (Suc n) rs) (add_ranked w (n, r) es)) =
     (case rank_of p (map filepath rs) of None \<Rightarrow> entry_state p (add_ranked w (n, r) es)
      | Some i \<Rightarrow> Some (doc_add w (Suc n + i) (entry_state p (add_ranked w (n, r) es))))"
    using Cons by simp
  show ?case
  proof (cases "filepath r = p")
    case True
    then have "rank_of p (map filepath rs) = None" using Cons.prems rank_of_None by auto
    with IH True show ?thesis by (simp add: entry_upsert)
  next
    case False
    with IH show ?thesis by (simp add: entry_upsert split: option.splits)
  qed
qed

lemma entry_fuse:
  "entry_state p (fold (\<lambda>(i, list). fold (add_ranked (weight_at weights i)) (enumerate 0 (dedupe_by_filepath list)))
     (enumerate n ls) es)
   = doc_score p (map (\<lambda>(i, list). (weight_at weights i, ranks_in list)) (enumerate n ls)) (entry_state p es)"
proof (induction ls arbitrary: n es)
  case Nil
  then show ?case by simp
next
  case (Cons l ls)
  have "distinct (map filepath (dedupe_by_filepath l))"
    unfolding dedupe_by_filepath_def by (rule dedup_seen_distinct)
  then show ?case
    by (simp add: Cons entry_fold_list doc_step_def ranks_in_def split: option.split)
qed

lemma entry_state_fuse: "entry_state p (fuse_entries ls weights) = doc_score p (weighted_lists ls weights) None"
  unfolding fuse_entries_def weighted_lists_def entry_fuse by (simp add: entry_state_def)

lemma add_ranked_unique: "tab_unique e_key (add_ranked w ir es) = tab_unique e_key es"
  by (cases ir) (simp add: add_ranked_def Let_def tab_unique_upsert)

lemma fuse_unique: "tab_unique e_key (fuse_entries ls weights)"
proof -
  have "tab_unique e_key (fold (add_ranked w) irs es) = tab_unique e_key es" for w irs es
    by (induction irs arbitrary: es) (auto simp: add_ranked_unique)
  then have "tab_unique e_key (fold (\<lambda>(i, list). fold (add_ranked (weight_at weights i))
      (enumerate 0 (dedupe_by_filepath list))) ils es) = tab_unique e_key es" for ils es
    by (induction ils arbitrary: es) auto
  then show ?thesis unfolding fuse_entries_def by (simp add: tab_unique_def)
qed

lemma fuse_entry:
  assumes "e \<in> set (fuse_entries ls weights)"
  shows "doc_score (e_key e) (weighted_lists ls weights) None = Some (e_score e, e_top_rank e)"
  using tab_find_unique [OF fuse_unique assms] entry_state_fuse [of "e_key e" ls weights]
  by (simp add: entry_state_def)

lemma doc_score_None:
  "doc_score p wls st = None \<longleftrightarrow> st = None \<and> (\<forall>(w, ps) \<in> set wls. p \<notin> set ps)"
proof (induction wls arbitrary: st)
  case (Cons x wls)
  obtain w ps where x: "x = (w, ps)" by (cases x)
  have "doc_step p w ps st = None \<longleftrightarrow> st = None \<and> p \<notin> set ps"
    using rank_of_None [of p ps] by (auto simp: doc_step_def split: option.splits)
  with Cons x show ?case by auto
qed simp

lemma ranks_in_set: "set (ranks_in l) = filepath ` set l"
  using dedup_seen_keys [of filepath "{}" l] by (simp add: ranks_in_def dedupe_by_filepath_def)

lemma set_weighted_lists:
  "set (weighted_lists ls weights) = (\<lambda>i. (weight_at weights i, ranks_in (ls ! i))) ` {..<length ls}"
proof -
  have "weighted_lists ls weights = map (\<lambda>i. (weight_at weights i, ranks_in (ls ! i))) [0..<length ls]"
    unfolding weighted_lists_def by (rule nth_equalityI) (simp_all add: nth_enumerate_eq)
  then show ?thesis by (simp add: atLeast0LessThan)
qed

lemma weighted_lists_paths:
  "(\<exists>(w, ps) \<in> set (weighted_lists ls weights). p \<in> set ps) \<longleftrightarrow> (\<exists>l\<in>set ls. p \<in> filepath ` set l)"
proof -
  have "(\<exists>(w, ps) \<in> set (weighted_lists ls weights). p \<in> set ps)
      \<longleftrightarrow> (\<exists>i<length ls. p \<in> filepath ` set (ls ! i))"
    by (auto simp: set_weighted_lists ranks_in_set)
  also have "\<dots> \<longleftrightarrow> (\<exists>l\<in>set ls. p \<in> filepath ` set l)" by (metis in_set_conv_nth)
  finally show ?thesis .
qed

lemma fuse_keys: "e_key ` set (fuse_entries ls weights) = (\<Union>l\<in>set ls. filepath ` set l)"
proof (rule set_eqI)
  fix p
  have "p \<in> e_key ` set (fuse_entries ls weights) \<longleftrightarrow> doc_score p (weighted_lists ls weights) None \<noteq> None"
    unfolding entry_state_fuse [symmetric] entry_state_def
    by (simp add: tab_find_None del: not_None_eq)
  also have "\<dots> \<longleftrightarrow> (\<exists>l\<in>set ls. p \<in> filepath ` set l)"
    using weighted_lists_paths [of ls weights p] by (auto simp: doc_score_None)
  finally show "p \<in> e_key ` set (fuse_entries ls weights) \<longleftrightarrow> p \<in> (\<Union>l\<in>set ls. filepath ` set l)"
    by simp
qed

subsection \<open>Scores are numbers\<close>

text \<open>A weight is a non-negative finite \<open>f32\<close>; a score is a non-negative \<open>f32\<close>.\<close>

definition is_weight :: "flt \<Rightarrow> bool" where
  "is_weight w \<longleftrightarrow> is_finite w \<and> fle (Fin 0) w"

definition is_score :: "flt \<Rightarrow> bool" where
  "is_score s \<longleftrightarrow> fle (Fin 0) s \<and> flt_round binary32 s = s"

lemma is_score_not_nan: "is_score s \<Longrightarrow> s \<noteq> NaN"
  by (auto simp: is_score_def)

lemma rnd32_60_61: "rnd binary32 60 = Fin 60" "rnd binary32 61 = Fin 61"
  by (rule rnd_exact [where k = 0 and e = 5 and m = 60], simp_all add: binary32_def)
    (rule rnd_exact [where k = 0 and e = 5 and m = 61], simp_all add: binary32_def)

lemma fadd32_mono:
  assumes "fle a a'" and "fle b b'" and "fle (Fin 0) a" and "fle (Fin 0) b"
  shows "fle (fadd32 a b) (fadd32 a' b')"
proof (rule f32.fadd_mono [OF assms(1,2)])
  show "fadd32 a b \<noteq> NaN" using assms by (cases a; cases b) auto
  show "fadd32 a' b' \<noteq> NaN" using assms by (cases a; cases b; cases a'; cases b') auto
qed

lemma fadd32_score:
  assumes "is_score s" and "is_score c"
  shows "is_score (fadd32 s c)"
  using assms f32.rnd_mono [of 0]
  by (cases s; cases c) (auto simp: is_score_def)

lemma fadd32_ge:
  assumes "is_score s" and "is_score c"
  shows "fle s (fadd32 s c)" and "fle c (fadd32 s c)"
proof -
  have z1: "fadd32 s (Fin 0) = s" using assms(1) by (cases s) (auto simp: is_score_def)
  have z2: "fadd32 (Fin 0) c = c" using assms(2) by (cases c) (auto simp: is_score_def)
  have "fle (fadd32 s (Fin 0)) (fadd32 s c)" "fle (fadd32 (Fin 0) c) (fadd32 s c)"
    using assms by (auto simp: is_score_def intro!: fadd32_mono dest: fle_not_nan)
  then show "fle s (fadd32 s c)" and "fle c (fadd32 s c)" using z1 z2 by auto
qed

abbreviation rrf_denominator :: "nat \<Rightarrow> flt" where
  "rrf_denominator i \<equiv> fadd32 (fadd32 RRF_K (f32_of (of_nat i))) (Fin 1)"

lemma rrf_denominator_mono:
  assumes "i \<le> j"
  shows "fle (rrf_denominator i) (rrf_denominator j)"
proof -
  have r: "fle (Fin 0) (f32_of (of_nat i))" "fle (f32_of (of_nat i)) (f32_of (of_nat j))"
    using f32.rnd_mono [of 0 "of_nat i"] f32.rnd_mono [of "of_nat i" "of_nat j"] assms
    by (auto simp: f32_of_def)
  have "fle (fadd32 RRF_K (f32_of (of_nat i))) (fadd32 RRF_K (f32_of (of_nat j)))"
    using r by (intro fadd32_mono) (auto simp: RRF_K_def)
  moreover have "fle (fadd32 RRF_K (Fin 0)) (fadd32 RRF_K (f32_of (of_nat i)))"
    using r by (intro fadd32_mono) (auto simp: RRF_K_def)
  then have "fle (Fin 0) (fadd32 RRF_K (f32_of (of_nat i)))"
    using rnd32_60_61 by (auto simp: RRF_K_def intro: fle_trans [of "Fin 0" "Fin 60"])
  ultimately show ?thesis using fadd32_mono [of _ _ "Fin 1" "Fin 1"] by simp
qed

lemma rrf_denominator_ge: "fle (Fin 61) (rrf_denominator i)"
  using rrf_denominator_mono [of 0 i] rnd32_60_61 by (simp add: RRF_K_def f32_of_def)

lemma contribution_score:
  assumes "is_weight w"
  shows "is_score (contribution w i)"
  using rrf_denominator_ge [of i] assms f32.rnd_mono [of 0]
  by (cases w; cases "rrf_denominator i")
    (auto simp: contribution_def is_weight_def is_score_def is_finite_def)

lemma contribution_antimono:
  assumes "is_weight w" and "i \<le> j"
  shows "fle (contribution w j) (contribution w i)"
proof -
  have "fle (Fin 0) (contribution w i)"
    using contribution_score [OF assms(1)] by (simp add: is_score_def)
  then show ?thesis
    using rrf_denominator_ge [of i] rrf_denominator_mono [OF assms(2)] assms(1)
    by (cases w; cases "rrf_denominator i"; cases "rrf_denominator j")
      (auto simp: contribution_def is_weight_def is_finite_def intro!: f32.rnd_mono divide_left_mono)
qed

lemma doc_add_score:
  "is_weight w \<Longrightarrow> (\<And>s t. st = Some (s, t) \<Longrightarrow> is_score s) \<Longrightarrow> is_score (fst (doc_add w i st))"
  by (auto simp: doc_add_def contribution_score fadd32_score split: option.split)

lemma doc_score_is_score:
  "\<forall>(w, ps) \<in> set wls. is_weight w \<Longrightarrow> (\<And>s t. st = Some (s, t) \<Longrightarrow> is_score s) \<Longrightarrow>
   doc_score p wls st = Some (s, t) \<Longrightarrow> is_score s"
proof (induction p wls st rule: doc_score.induct)
  case (1 p st)
  then show ?case by simp
next
  case (2 p w ps rest st)
  have "is_score s'" if "doc_step p w ps st = Some (s', t')" for s' t'
    using that "2.prems"(1,2) doc_add_score [of w st]
    by (auto simp: doc_step_def split: option.splits) (metis fst_conv)
  with 2 show ?case by simp
qed

definition weights_ok :: "flt list \<Rightarrow> bool" where
  "weights_ok ws \<longleftrightarrow> list_all is_weight ws"

lemma weighted_lists_ok:
  "weights_ok ws \<Longrightarrow> \<forall>(w, ps) \<in> set (weighted_lists ls ws). is_weight w"
  by (auto simp: set_weighted_lists weight_at_def weights_ok_def list_all_length is_weight_def is_finite_def)

lemma rrf_weights_ok: "weights_ok (rrf_weights meta)"
  by (auto simp: weights_ok_def rrf_weights_def list_all_iff is_weight_def is_finite_def)

lemma fuse_scores: "weights_ok ws \<Longrightarrow> e \<in> set (fuse_entries ls ws) \<Longrightarrow> is_score (e_score e)"
  using doc_score_is_score [OF weighted_lists_ok [of ws ls], of None] fuse_entry [of e ls ws] by auto

text \<open>The bonus as a function of the best rank.\<close>

definition bonus :: "nat \<Rightarrow> flt \<Rightarrow> flt" where
  "bonus t s =
     (if t = 0 then fadd32 s (f32_of (5/100)) else if t \<le> 2 then fadd32 s (f32_of (2/100)) else s)"

lemma top_rank_bonus_simps [simp]:
  "e_score (top_rank_bonus e) = bonus (e_top_rank e) (e_score e)"
  "e_result (top_rank_bonus e) = e_result e"
  by (auto simp: top_rank_bonus_def bonus_def)

lemma bonus_consts: "is_score (f32_of (5/100))" "is_score (f32_of (2/100))"
    "fle (f32_of (2/100)) (f32_of (5/100))"
  using f32.rnd_mono [of 0 "5/100"] f32.rnd_mono [of 0 "2/100"] f32.rnd_mono [of "2/100" "5/100"]
  by (auto simp: is_score_def f32_of_def)

lemma bonus_score: "is_score s \<Longrightarrow> is_score (bonus t s)"
  by (simp add: bonus_def bonus_consts [simplified] fadd32_score)

lemma bonus_mono:
  assumes "is_score s" and "is_score s'" and "fle s s'" and "t' \<le> t"
  shows "fle (bonus t s) (bonus t' s')"
proof -
  have c: "fle (Fin 0) (f32_of (5/100))" "fle (Fin 0) (f32_of (2/100))" "fle (Fin 0) s"
    using bonus_consts assms(1) by (auto simp: is_score_def)
  have "fle s (fadd32 s' c)" if "is_score c" for c
    using fadd32_ge(1) [OF assms(2) that] assms(3) fle_trans by blast
  then show ?thesis
    using assms(3,4) c [simplified] bonus_consts [simplified]
    by (auto simp: bonus_def intro!: fadd32_mono dest: fle_not_nan)
qed

subsection \<open>Dominance\<close>

definition dominates :: "string \<Rightarrow> string \<Rightarrow> string list \<Rightarrow> bool" where
  "dominates p q ps \<longleftrightarrow>
     (case rank_of q ps of None \<Rightarrow> True
      | Some j \<Rightarrow> (case rank_of p ps of None \<Rightarrow> False | Some i \<Rightarrow> i \<le> j))"

definition state_le :: "(flt \<times> nat) option \<Rightarrow> (flt \<times> nat) option \<Rightarrow> bool" where
  "state_le q p \<longleftrightarrow>
     (case q of None \<Rightarrow> True
      | Some (sq, tq) \<Rightarrow> (case p of None \<Rightarrow> False | Some (sp, tp) \<Rightarrow> fle sq sp \<and> tp \<le> tq))"

definition state_ok :: "(flt \<times> nat) option \<Rightarrow> bool" where
  "state_ok st \<longleftrightarrow> (case st of None \<Rightarrow> True | Some (s, t) \<Rightarrow> is_score s)"

lemma doc_step_ok: "is_weight w \<Longrightarrow> state_ok st \<Longrightarrow> state_ok (doc_step p w ps st)"
  by (auto simp: state_ok_def doc_step_def doc_add_def contribution_score fadd32_score split: option.splits)

lemma doc_step_le:
  assumes w: "is_weight w" and ok: "state_ok stp" "state_ok stq" and le: "state_le stq stp"
    and d: "dominates p q ps"
  shows "state_le (doc_step q w ps stq) (doc_step p w ps stp)"
proof -
  have c: "is_score (contribution w i)" for i using w by (rule contribution_score)
  have grow: "fle sq (fadd32 sp (contribution w i))" if "fle sq sp" "is_score sp" for sq sp i
    using fadd32_ge(1) [OF that(2) c] that(1) fle_trans by blast
  show ?thesis
  proof (cases "rank_of q ps")
    case None
    then show ?thesis
      using le ok grow
      by (auto simp: doc_step_def doc_add_def state_le_def state_ok_def split: option.splits)
  next
    case (Some j)
    then obtain i where i: "rank_of p ps = Some i" "i \<le> j"
      using d by (auto simp: dominates_def split: option.splits)
    have ij: "fle (contribution w j) (contribution w i)" using w i(2) by (rule contribution_antimono)
    show ?thesis
    proof (cases stq)
      case None
      have "fle (contribution w j) (fadd32 s (contribution w i))" if "is_score s" for s
        using fadd32_ge(2) [OF that c] ij fle_trans by blast
      then show ?thesis
        using Some i ij None ok(1)
        by (auto simp: doc_step_def doc_add_def state_le_def state_ok_def split: option.splits)
    next
      fix sqt assume q: "stq = Some sqt"
      obtain sq tq where sq: "sqt = (sq, tq)" by (cases sqt)
      obtain sp tp where sp: "stp = Some (sp, tp)" "fle sq sp" "tp \<le> tq"
        using le q sq by (auto simp: state_le_def split: option.splits)
      have "fle (fadd32 sq (contribution w j)) (fadd32 sp (contribution w i))"
        using sp ij ok q sq c by (intro fadd32_mono) (auto simp: state_ok_def is_score_def)
      then show ?thesis
        using Some i sp q sq by (auto simp: doc_step_def doc_add_def state_le_def)
    qed
  qed
qed

lemma doc_score_le:
  "\<forall>(w, ps) \<in> set wls. is_weight w \<and> dominates p q ps \<Longrightarrow> state_ok stp \<Longrightarrow> state_ok stq \<Longrightarrow>
   state_le stq stp \<Longrightarrow> state_le (doc_score q wls stq) (doc_score p wls stp)"
proof (induction wls arbitrary: stp stq)
  case (Cons x wls)
  obtain w ps where x: "x = (w, ps)" by (cases x)
  have "state_le (doc_score q wls (doc_step q w ps stq)) (doc_score p wls (doc_step p w ps stp))"
    using Cons.prems x by (intro Cons.IH doc_step_ok doc_step_le) auto
  then show ?case by (simp add: x)
qed simp

subsection \<open>The result list\<close>

lemma scored_simps [simp]:
  "fst (scored e) = e_score e" "filepath (snd (scored e)) = e_key e"
  "backend_score (snd (scored e)) = e_score e"
  by (simp_all add: scored_def)

lemma set_rank_entries: "set (rank_entries es) = (\<lambda>e. snd (scored (top_rank_bonus e))) ` set es"
  by (simp add: rank_entries_def image_image)

lemma rank_entries_paths: "mset (map filepath (rank_entries es)) = mset (map e_key es)"
  by (simp add: rank_entries_def image_mset.compositionality o_def)

lemma rrf_row:
  assumes "r \<in> set (reciprocal_rank_fusion ls ws)"
  obtains s t where "doc_score (filepath r) (weighted_lists ls ws) None = Some (s, t)"
    and "backend_score r = bonus t s"
proof -
  obtain e where e: "e \<in> set (fuse_entries ls ws)" "r = snd (scored (top_rank_bonus e))"
    using assms by (auto simp: reciprocal_rank_fusion_def set_rank_entries)
  then have "filepath r = e_key e" "backend_score r = bonus (e_top_rank e) (e_score e)" by simp_all
  then show ?thesis using fuse_entry [OF e(1)] that by simp
qed

lemma rank_entries_sorted:
  assumes "\<forall>e\<in>set es. is_score (e_score e)"
  shows "sorted_wrt (\<lambda>a b. scored_le (backend_score a, a) (backend_score b, b)) (rank_entries es)"
proof -
  let ?xs = "map (scored \<circ> top_rank_bonus) es"
  have srt: "sorted_wrt scored_le (sort_by scored_le ?xs)"
    using assms by (intro ranked.sorted_sort_by) (auto simp: is_score_not_nan bonus_score)
  have eq: "(backend_score (snd x), snd x) = x" if "x \<in> set (sort_by scored_le ?xs)" for x
    using that by (auto simp: scored_def)
  show ?thesis
    unfolding rank_entries_def sorted_wrt_map
    by (rule sorted_wrt_mono_rel [OF _ srt]) (simp only: eq)
qed

lemma rrf_paths: "filepath ` set (reciprocal_rank_fusion ls ws) = (\<Union>l\<in>set ls. filepath ` set l)"
  using mset_eq_setD [OF rank_entries_paths [of "fuse_entries ls ws"]] fuse_keys [of ls ws]
  by (simp add: reciprocal_rank_fusion_def)

subsection \<open>Properties\<close>

text \<open>C14: Fusion returns every document of the lists once, in descending order of score with
  ties broken by path, and the score of each document is the one the direct computation over
  its ranks gives.\<close>

theorem rrf_ranking:
  assumes "weights_ok ws"
  shows "distinct (map filepath (reciprocal_rank_fusion ls ws))
    \<and> filepath ` set (reciprocal_rank_fusion ls ws) = (\<Union>l\<in>set ls. filepath ` set l)
    \<and> sorted_wrt (\<lambda>a b. scored_le (backend_score a, a) (backend_score b, b)) (reciprocal_rank_fusion ls ws)
    \<and> (\<forall>r \<in> set (reciprocal_rank_fusion ls ws). \<exists>s t.
         doc_score (filepath r) (weighted_lists ls ws) None = Some (s, t) \<and> backend_score r = bonus t s)"
proof (intro conjI)
  let ?es = "fuse_entries ls ws"
  have m: "mset (map filepath (reciprocal_rank_fusion ls ws)) = mset (map e_key ?es)"
    unfolding reciprocal_rank_fusion_def by (rule rank_entries_paths)
  then show "distinct (map filepath (reciprocal_rank_fusion ls ws))"
    using fuse_unique [of ls ws] mset_eq_imp_distinct_iff unfolding tab_unique_def by metis
  show "filepath ` set (reciprocal_rank_fusion ls ws) = (\<Union>l\<in>set ls. filepath ` set l)"
    by (rule rrf_paths)
  show "sorted_wrt (\<lambda>a b. scored_le (backend_score a, a) (backend_score b, b)) (reciprocal_rank_fusion ls ws)"
    unfolding reciprocal_rank_fusion_def using fuse_scores [OF assms] by (intro rank_entries_sorted) blast
qed (blast elim: rrf_row)

lemma rrf_ranking_witness:
  "let a = \<lparr>filepath = ''c/a.md'', rr_title = ''A'', backend_score = Fin 1\<rparr>;
       b = \<lparr>filepath = ''c/b.md'', rr_title = ''B'', backend_score = Fin (1/2)\<rparr>
   in distinct (map filepath (reciprocal_rank_fusion [[a, b], [b, b]] [Fin 2]))
      \<and> filepath ` set (reciprocal_rank_fusion [[a, b], [b, b]] [Fin 2]) = {''c/a.md'', ''c/b.md''}"
  using rrf_ranking [of "[Fin 2]" "[[\<lparr>filepath = ''c/a.md'', rr_title = ''A'', backend_score = Fin 1\<rparr>,
      \<lparr>filepath = ''c/b.md'', rr_title = ''B'', backend_score = Fin (1/2)\<rparr>],
     [\<lparr>filepath = ''c/b.md'', rr_title = ''B'', backend_score = Fin (1/2)\<rparr>,
      \<lparr>filepath = ''c/b.md'', rr_title = ''B'', backend_score = Fin (1/2)\<rparr>]]"]
  by (simp add: weights_ok_def is_weight_def is_finite_def Let_def insert_commute)

text \<open>The result does not depend on the order in which the hash map of entries is iterated:
  ranking any permutation of the entries gives the same list.\<close>

theorem rrf_order_independent:
  assumes "weights_ok ws" and "mset es = mset (fuse_entries ls ws)"
  shows "rank_entries es = reciprocal_rank_fusion ls ws"
proof -
  let ?f = "scored \<circ> top_rank_bonus" and ?es = "fuse_entries ls ws"
  have "sort_by scored_le (map ?f es) = sort_by scored_le (map ?f ?es)"
  proof (rule ranked.sort_by_cong_sorted)
    show "\<forall>x\<in>set (map ?f ?es). fst x \<noteq> NaN"
      using fuse_scores [OF assms(1)] by (auto simp: is_score_not_nan bonus_score)
    show "mset (map ?f es) = mset (map ?f ?es)" using assms(2) by simp
    fix x y assume xy: "x \<in> set (map ?f ?es)" "y \<in> set (map ?f ?es)" "scored_le x y" "scored_le y x"
    then obtain a b where a: "a \<in> set ?es" "x = ?f a" and b: "b \<in> set ?es" "y = ?f b" by auto
    have "is_score (e_score (top_rank_bonus a))" "is_score (e_score (top_rank_bonus b))"
      using fuse_scores [OF assms(1) a(1)] fuse_scores [OF assms(1) b(1)] by (simp_all add: bonus_score)
    then have "fst x \<noteq> NaN" "fst y \<noteq> NaN" using a(2) b(2) by (simp_all add: is_score_not_nan)
    then have "filepath (snd x) = filepath (snd y)" using xy(3,4) by (rule scored_le_path)
    then have ab: "e_key a = e_key b" using a(2) b(2) by simp
    have "tab_find e_key (e_key a) ?es = Some a" by (rule tab_find_unique [OF fuse_unique a(1)])
    moreover have "tab_find e_key (e_key b) ?es = Some b" by (rule tab_find_unique [OF fuse_unique b(1)])
    ultimately have "Some a = Some b" unfolding ab by (rule trans [OF sym])
    then show "x = y" using a(2) b(2) by simp
  qed
  then show ?thesis by (simp add: rank_entries_def reciprocal_rank_fusion_def)
qed

lemma rrf_order_independent_witness:
  "let a = \<lparr>filepath = ''c/a.md'', rr_title = ''A'', backend_score = Fin 1\<rparr>;
       b = \<lparr>filepath = ''c/b.md'', rr_title = ''B'', backend_score = Fin (1/2)\<rparr>
   in rank_entries (rev (fuse_entries [[a, b], [b]] [])) = reciprocal_rank_fusion [[a, b], [b]] []"
  unfolding Let_def by (rule rrf_order_independent) (simp_all add: weights_ok_def)

text \<open>A document that stands above another in every list where the other occurs never gets
  the lower fused score, for the rounded \<open>f32\<close> sums the code computes, bonuses included.\<close>

theorem rrf_dominance:
  assumes "weights_ok ws"
    and "\<forall>l\<in>set ls. dominates (filepath a) (filepath b) (ranks_in l)"
    and "a \<in> set (reciprocal_rank_fusion ls ws)" and "b \<in> set (reciprocal_rank_fusion ls ws)"
  shows "fle (backend_score b) (backend_score a)"
proof -
  obtain s t where a: "doc_score (filepath a) (weighted_lists ls ws) None = Some (s, t)"
      "backend_score a = bonus t s" using assms(3) by (rule rrf_row)
  obtain s' t' where b: "doc_score (filepath b) (weighted_lists ls ws) None = Some (s', t')"
      "backend_score b = bonus t' s'" using assms(4) by (rule rrf_row)
  have ok: "\<forall>(w, ps) \<in> set (weighted_lists ls ws). is_weight w" using assms(1) by (rule weighted_lists_ok)
  have "\<forall>(w, ps) \<in> set (weighted_lists ls ws). is_weight w \<and> dominates (filepath a) (filepath b) ps"
    using ok assms(2) by (auto simp: set_weighted_lists)
  then have "state_le (Some (s', t')) (Some (s, t))"
    using doc_score_le [of "weighted_lists ls ws" "filepath a" "filepath b" None None] a(1) b(1)
    by (simp add: state_ok_def state_le_def)
  moreover have "is_score s" "is_score s'"
    using doc_score_is_score [OF ok, of None] a(1) b(1) by auto
  ultimately show ?thesis using bonus_mono [of s' s t t'] a(2) b(2) by (simp add: state_le_def)
qed

lemma rrf_dominance_witness:
  "\<exists>(ra :: ranked_result) (rb :: ranked_result). filepath ra = ''c/a.md'' \<and> filepath rb = ''c/b.md'' \<and> fle (backend_score rb) (backend_score ra)"
proof -
  let ?a = "\<lparr>filepath = ''c/a.md'', rr_title = ''A'', backend_score = Fin 1\<rparr>"
  let ?b = "\<lparr>filepath = ''c/b.md'', rr_title = ''B'', backend_score = Fin 1\<rparr>"
  let ?rs = "reciprocal_rank_fusion [[?a, ?b], [?a]] [Fin 2]"
  have "''c/a.md'' \<in> filepath ` set ?rs" unfolding rrf_paths by simp
  then obtain ra where ra: "''c/a.md'' = filepath ra" "ra \<in> set ?rs" by (rule imageE)
  have "''c/b.md'' \<in> filepath ` set ?rs" unfolding rrf_paths by simp
  then obtain rb where rb: "''c/b.md'' = filepath rb" "rb \<in> set ?rs" by (rule imageE)
  have le: "fle (backend_score rb) (backend_score ra)"
  proof (rule rrf_dominance [OF _ _ ra(2) rb(2)])
    show "weights_ok [Fin 2]" by (simp add: weights_ok_def is_weight_def is_finite_def)
    show "\<forall>l\<in>set [[?a, ?b], [?a]]. dominates (filepath ra) (filepath rb) (ranks_in l)"
      by (simp add: ra(1) [symmetric] rb(1) [symmetric] dominates_def ranks_in_def dedupe_by_filepath_def)
  qed
  show ?thesis by (intro exI conjI, rule ra(1) [symmetric], rule rb(1) [symmetric], rule le)
qed

end
