(* ===== verification/Query.thy ===== *)
theory Query
  imports Types
begin

text \<open>
  The query-language parser, \<open>crates/rqmd-core/src/query.rs\<close>: an expand query or a query
  document of typed lines. The document loop is shown equal to a description line by line,
  and every document written in the typed form is parsed back to its parts.
\<close>

record sub_query =
  sq_type :: query_type
  sq_text :: string

record parsed_query =
  pq_intent :: "string option"
  pq_subqueries :: "sub_query list"
  pq_expand_text :: "string option"

definition doc_line :: "string \<Rightarrow> string option \<times> sub_query list \<Rightarrow> string option \<times> sub_query list" where
  "doc_line line st =
     (let (intent, subs) = st in
      case strip_prefix ''intent:'' line of
        Some text \<Rightarrow> (if intent = None then Some (trim text) else intent, subs)
      | None \<Rightarrow>
      (case strip_prefix ''lex:'' line of
        Some text \<Rightarrow> (intent, subs @ [\<lparr>sq_type = Lex, sq_text = trim text\<rparr>])
      | None \<Rightarrow>
      (case strip_prefix ''vec:'' line of
        Some text \<Rightarrow> (intent, subs @ [\<lparr>sq_type = VecQ, sq_text = trim text\<rparr>])
      | None \<Rightarrow>
      (case strip_prefix ''hyde:'' line of
        Some text \<Rightarrow> (intent, subs @ [\<lparr>sq_type = Hyde, sq_text = trim text\<rparr>])
      | None \<Rightarrow> (intent, subs)))))"

definition parse_query_document :: "string list \<Rightarrow> parsed_query" where
  "parse_query_document ls =
     (let (intent, subs) = fold doc_line ls (None, [])
      in \<lparr>pq_intent = intent, pq_subqueries = subs, pq_expand_text = None\<rparr>)"

definition is_typed_line :: "string \<Rightarrow> bool" where
  "is_typed_line l \<longleftrightarrow> starts_with ''lex:'' l \<or> starts_with ''vec:'' l \<or> starts_with ''hyde:'' l
     \<or> starts_with ''intent:'' l"

definition query_lines :: "string \<Rightarrow> string list" where
  "query_lines raw = filter (\<lambda>l. l \<noteq> []) (map trim (lines raw))"

definition parse_query :: "string \<Rightarrow> parsed_query" where
  "parse_query raw =
     (let ls = query_lines raw in
      if ls = [] then \<lparr>pq_intent = None, pq_subqueries = [], pq_expand_text = Some []\<rparr>
      else if list_ex is_typed_line ls then parse_query_document ls
      else
        (let text =
           (if length ls = 1 then
              (case strip_prefix ''expand:'' (hd ls) of Some rest \<Rightarrow> trim rest | None \<Rightarrow> hd ls)
            else join '' '' ls)
         in \<lparr>pq_intent = None, pq_subqueries = [], pq_expand_text = Some text\<rparr>))"

subsection \<open>Line by line\<close>

definition line_sub :: "string \<Rightarrow> sub_query list" where
  "line_sub l =
     (case strip_prefix ''lex:'' l of Some t \<Rightarrow> [\<lparr>sq_type = Lex, sq_text = trim t\<rparr>]
      | None \<Rightarrow> case strip_prefix ''vec:'' l of Some t \<Rightarrow> [\<lparr>sq_type = VecQ, sq_text = trim t\<rparr>]
      | None \<Rightarrow> case strip_prefix ''hyde:'' l of Some t \<Rightarrow> [\<lparr>sq_type = Hyde, sq_text = trim t\<rparr>]
      | None \<Rightarrow> [])"

definition line_intent :: "string \<Rightarrow> string list" where
  "line_intent l = (case strip_prefix ''intent:'' l of Some t \<Rightarrow> [trim t] | None \<Rightarrow> [])"

definition first_of :: "'a list \<Rightarrow> 'a option" where
  "first_of xs = (case xs of [] \<Rightarrow> None | x # _ \<Rightarrow> Some x)"

lemma doc_line_parts:
  "doc_line l (i, subs) = (if i = None then first_of (line_intent l) else i, subs @ line_sub l)"
proof (cases "starts_with ''intent:'' l")
  case True
  then obtain r where "l = ''intent:'' @ r" using starts_with_append by blast
  then show ?thesis
    by (simp add: doc_line_def line_sub_def line_intent_def first_of_def strip_prefix_def starts_with_def)
next
  case False
  then show ?thesis
    by (simp add: doc_line_def line_sub_def line_intent_def first_of_def strip_prefix_def)
qed

lemma fold_doc_line:
  "fold doc_line ls (i, subs) =
     (if i = None then first_of (concat (map line_intent ls)) else i, subs @ concat (map line_sub ls))"
proof (induction ls arbitrary: i subs)
  case Nil
  then show ?case by (simp add: first_of_def)
next
  case (Cons l ls)
  then show ?case
    by (cases "line_intent l") (auto simp: doc_line_parts first_of_def)
qed

subsection \<open>Rendering\<close>

text \<open>A sub-query as a user writes it, and a line of text that survives trimming.\<close>

definition qtype_prefix :: "query_type \<Rightarrow> string" where
  "qtype_prefix q = (case q of Lex \<Rightarrow> ''lex:'' | VecQ \<Rightarrow> ''vec:'' | Hyde \<Rightarrow> ''hyde:'' | Original \<Rightarrow> [])"

definition render_sub :: "sub_query \<Rightarrow> string" where
  "render_sub s = qtype_prefix (sq_type s) @ '' '' @ sq_text s @ [NL]"

definition plain_text :: "string \<Rightarrow> bool" where
  "plain_text t \<longleftrightarrow> valid_utf8 t \<and> trim t = t \<and> NL \<notin> set t \<and> CR \<notin> set t"

definition sub_ok :: "sub_query \<Rightarrow> bool" where
  "sub_ok s \<longleftrightarrow> sq_type s \<noteq> Original \<and> plain_text (sq_text s)"

definition shown :: "string \<Rightarrow> string" where
  "shown t = (if t = [] then [] else '' '' @ t)"

text \<open>A prefix that starts with an ASCII letter keeps a trimmed text trimmed.\<close>

lemma trim_prefixed:
  assumes "trim t = t" and "t \<noteq> []" and "\<forall>c\<in>set p. byte c < 128" and "p \<noteq> []"
    and "\<not> is_ws_cp (byte (hd p))"
  shows "trim (p @ t) = p @ t"
proof -
  have c: "chars (p @ t) = map (\<lambda>c. [c]) p @ chars t"
    using assms(3) by (simp add: chars_append valid_utf8_ascii chars_ascii)
  show ?thesis
  proof (rule trim_noop)
    show "chars (p @ t) \<noteq> []" using assms(4) c by simp
    show "\<not> is_ws (hd (chars (p @ t)))" using assms(4,5) c by (cases p) auto
    show "\<not> is_ws (last (chars (p @ t)))" using trim_fix_ends [OF assms(1,2)] c by simp
  qed
qed

lemma prefix_line:
  assumes "trim t = t" and "p = ''lex:'' \<or> p = ''vec:'' \<or> p = ''hyde:'' \<or> p = ''intent:''"
  shows "trim (p @ '' '' @ t) = p @ shown t"
proof (cases "t = []")
  case True
  have "trim ''lex: '' = ''lex:''" "trim ''vec: '' = ''vec:''" "trim ''hyde: '' = ''hyde:''"
      "trim ''intent: '' = ''intent:''"
    by (simp_all add: trim_def chars_ascii is_ws_cp_def)
  then show ?thesis using True assms(2) by (elim disjE) (simp_all add: shown_def)
next
  case False
  have "\<forall>c\<in>set (p @ '' ''). byte c < 128" "p @ '' '' \<noteq> []" "\<not> is_ws_cp (byte (hd (p @ '' '')))"
    using assms(2) by (auto simp: is_ws_cp_def)
  then have "trim ((p @ '' '') @ t) = (p @ '' '') @ t"
    using trim_prefixed [OF assms(1) False] by blast
  then show ?thesis using False by (simp add: shown_def)
qed

lemma render_line:
  assumes "plain_text t" and "p = ''lex:'' \<or> p = ''vec:'' \<or> p = ''hyde:'' \<or> p = ''intent:''"
  shows "query_lines (p @ '' '' @ t @ [NL] @ r) = (p @ shown t) # query_lines r"
proof -
  have "NL \<notin> set (p @ '' '' @ t)" "CR \<notin> set (p @ '' '' @ t)"
    using assms by (auto simp: plain_text_def)
  then have "lines ((p @ '' '' @ t) @ NL # r) = (p @ '' '' @ t) # lines r" by (rule lines_line)
  moreover have "trim (p @ '' '' @ t) = p @ shown t"
    using assms by (intro prefix_line) (simp add: plain_text_def)
  ultimately show ?thesis using assms(2) by (auto simp: query_lines_def)
qed

lemma trim_rest: "trim t = t \<Longrightarrow> trim (shown t) = t"
  by (simp add: trim_space shown_def)

lemma qtype_prefix_cases:
  "q \<noteq> Original \<Longrightarrow> qtype_prefix q = ''lex:'' \<or> qtype_prefix q = ''vec:'' \<or> qtype_prefix q = ''hyde:''
     \<or> qtype_prefix q = ''intent:''"
  by (cases q) (simp_all add: qtype_prefix_def)

lemma sub_line:
  assumes "sub_ok s"
  shows "line_sub (qtype_prefix (sq_type s) @ shown (sq_text s)) = [s]"
    and "line_intent (qtype_prefix (sq_type s) @ shown (sq_text s)) = []"
    and "is_typed_line (qtype_prefix (sq_type s) @ shown (sq_text s))"
proof -
  obtain q t where s: "s = \<lparr>sq_type = q, sq_text = t\<rparr>" by (cases s)
  have t: "trim (shown t) = t"
    using assms s by (intro trim_rest) (simp add: sub_ok_def plain_text_def)
  show "line_sub (qtype_prefix (sq_type s) @ shown (sq_text s)) = [s]"
    using assms t unfolding s
    by (cases q) (simp_all add: sub_ok_def plain_text_def qtype_prefix_def line_sub_def strip_prefix_def starts_with_def trim_space)
  show "line_intent (qtype_prefix (sq_type s) @ shown (sq_text s)) = []"
    using assms unfolding s
    by (cases q) (simp_all add: sub_ok_def qtype_prefix_def line_intent_def strip_prefix_def starts_with_def)
  show "is_typed_line (qtype_prefix (sq_type s) @ shown (sq_text s))"
    using assms unfolding s
    by (cases q) (simp_all add: sub_ok_def qtype_prefix_def is_typed_line_def starts_with_def)
qed

lemma query_lines_rendered:
  assumes "\<forall>s\<in>set subs. sub_ok s"
  shows "query_lines (concat (map render_sub subs)) =
     map (\<lambda>s. qtype_prefix (sq_type s) @ shown (sq_text s)) subs"
  using assms
proof (induction subs)
  case Nil
  then show ?case by (simp add: query_lines_def lines_def)
next
  case (Cons s subs)
  have "query_lines (qtype_prefix (sq_type s) @ '' '' @ sq_text s @ [NL] @ concat (map render_sub subs))
      = (qtype_prefix (sq_type s) @ shown (sq_text s))
        # query_lines (concat (map render_sub subs))"
    using Cons.prems
    by (intro render_line qtype_prefix_cases) (auto simp: sub_ok_def)
  moreover have "concat (map render_sub (s # subs))
      = qtype_prefix (sq_type s) @ '' '' @ sq_text s @ [NL] @ concat (map render_sub subs)"
    by (simp add: render_sub_def)
  ultimately show ?case using Cons by simp
qed

lemma rendered_parts:
  assumes "\<forall>s\<in>set subs. sub_ok s"
  shows "concat (map line_sub (query_lines (concat (map render_sub subs)))) = subs"
    and "concat (map line_intent (query_lines (concat (map render_sub subs)))) = []"
  using assms unfolding query_lines_rendered [OF assms]
  by (induction subs) (auto simp: sub_line)

subsection \<open>Properties\<close>

text \<open>A query is a document exactly when one of its trimmed lines has a typed prefix; a
  document has the sub-queries of its typed lines in order and the first intent line, and no
  text to expand; every other query has text to expand and nothing else.\<close>

theorem parse_query_modes:
  "parse_query raw =
     (let ls = query_lines raw in
      if list_ex is_typed_line ls
      then \<lparr>pq_intent = first_of (concat (map line_intent ls)),
            pq_subqueries = concat (map line_sub ls), pq_expand_text = None\<rparr>
      else \<lparr>pq_intent = None, pq_subqueries = [],
            pq_expand_text = Some (case ls of
                [l] \<Rightarrow> (case strip_prefix ''expand:'' l of Some rest \<Rightarrow> trim rest | None \<Rightarrow> l)
              | _ \<Rightarrow> join '' '' ls)\<rparr>)"
  by (auto simp: parse_query_def parse_query_document_def fold_doc_line Let_def
      split: list.splits option.splits)

text \<open>C15: A query document written as typed lines, with an intent line or without one, is
  parsed back to exactly its intent and its sub-queries.\<close>

theorem parse_rendered_document:
  assumes "\<forall>s\<in>set subs. sub_ok s" and "subs \<noteq> []" and "\<And>i. intent = Some i \<Longrightarrow> plain_text i"
  shows "parse_query ((case intent of None \<Rightarrow> [] | Some i \<Rightarrow> ''intent:'' @ '' '' @ i @ [NL])
            @ concat (map render_sub subs))
       = \<lparr>pq_intent = intent, pq_subqueries = subs, pq_expand_text = None\<rparr>"
proof -
  let ?body = "concat (map render_sub subs)"
  have typed: "list_ex is_typed_line (query_lines ?body)"
    using assms(1,2) unfolding query_lines_rendered [OF assms(1)]
    by (cases subs) (auto simp: sub_line)
  have doc: "parse_query_document (query_lines ?body)
      = \<lparr>pq_intent = None, pq_subqueries = subs, pq_expand_text = None\<rparr>"
    by (simp add: parse_query_document_def fold_doc_line rendered_parts [OF assms(1)] first_of_def)
  show ?thesis
  proof (cases intent)
    case None
    have "query_lines ?body \<noteq> []" using typed by auto
    then show ?thesis using None typed doc by (simp add: parse_query_def Let_def)
  next
    case (Some i)
    let ?l = "''intent:'' @ shown i"
    have i: "plain_text i" using assms(3) Some by simp
    have l: "query_lines (''intent:'' @ '' '' @ i @ [NL] @ ?body) = ?l # query_lines ?body"
      using i by (intro render_line) auto
    have "line_intent ?l = [i]"
      using trim_rest [of i] i by (simp add: line_intent_def strip_prefix_def starts_with_def plain_text_def)
    moreover have "line_sub ?l = []"
      by (simp add: line_sub_def strip_prefix_def starts_with_def)
    ultimately have "fold doc_line (?l # query_lines ?body) (None, []) = (Some i, subs)"
      unfolding fold_doc_line by (simp add: rendered_parts [OF assms(1)] first_of_def)
    then show ?thesis
      using Some l typed by (simp add: parse_query_def parse_query_document_def Let_def)
  qed
qed

lemma parse_rendered_document_witness:
  "parse_query ''intent: rust errors\<newline>lex: panic\<newline>hyde: How to recover.\<newline>'' =
     \<lparr>pq_intent = Some ''rust errors'',
      pq_subqueries = [\<lparr>sq_type = Lex, sq_text = ''panic''\<rparr>, \<lparr>sq_type = Hyde, sq_text = ''How to recover.''\<rparr>],
      pq_expand_text = None\<rparr>"
proof -
  have "trim ''panic'' = ''panic''" "trim ''How to recover.'' = ''How to recover.''"
      "trim ''rust errors'' = ''rust errors''" by (simp_all add: trim_def chars_ascii is_ws_cp_def)
  then have p: "plain_text ''panic''" "plain_text ''How to recover.''" "plain_text ''rust errors''"
    by (simp_all add: plain_text_def valid_utf8_ascii)
  show ?thesis
    using parse_rendered_document
      [of "[\<lparr>sq_type = Lex, sq_text = ''panic''\<rparr>, \<lparr>sq_type = Hyde, sq_text = ''How to recover.''\<rparr>]"
        "Some ''rust errors''"] p
    by (simp add: sub_ok_def render_sub_def qtype_prefix_def)
qed

end
