(* ===== verification/Frontmatter.thy ===== *)
theory Frontmatter
  imports Types
begin

text \<open>
  The frontmatter scan, \<open>crates/rqmd-core/src/frontmatter.rs\<close>. Slices are \<open>str_slice\<close>, so
  that a cut inside a character is a panic (\<open>None\<close>); the scan is shown never to panic on a
  \<open>str\<close> and to be the split at the first closing fence line.
\<close>

record frontmatter =
  fm_title :: "string option"
  fm_terms :: "string list"

definition unquote :: "string \<Rightarrow> string" where
  "unquote s =
     (if 2 \<le> length s \<and>
         ((hd s = CHR 0x22 \<and> last s = CHR 0x22) \<or> (hd s = CHR 0x27 \<and> last s = CHR 0x27))
      then take (length s - 2) (drop 1 s) else s)"

definition flow_list_items :: "string \<Rightarrow> string list" where
  "flow_list_items value =
     (case Option.bind (strip_prefix ''['' value) (strip_suffix '']'') of
        Some inner \<Rightarrow> filter (\<lambda>s. s \<noteq> []) (map trim (split_on (CHR '','') inner))
      | None \<Rightarrow> [value])"

record block_state =
  bs_title :: "string option"
  bs_terms :: "string list"
  bs_list_key :: "string option"

definition is_list_key :: "string \<Rightarrow> bool" where
  "is_list_key key \<longleftrightarrow> key = ''tags'' \<or> key = ''aliases''"

definition block_line :: "string \<Rightarrow> block_state \<Rightarrow> block_state" where
  "block_line line st =
     (let trimmed = trim_end_char CR line in
      if trim trimmed = [] then st
      else if starts_with '' '' trimmed \<or> starts_with ''-'' trimmed then
        (case bs_list_key st of
           Some key \<Rightarrow>
             (case strip_prefix ''-'' (trim trimmed) of
                Some item \<Rightarrow>
                  (let value = unquote (trim item) in
                   if value \<noteq> [] \<and> is_list_key key then st\<lparr>bs_terms := bs_terms st @ [value]\<rparr> else st)
              | None \<Rightarrow> st)
         | None \<Rightarrow> st)
      else
        (case split_once (CHR '':'') trimmed of
           None \<Rightarrow> st\<lparr>bs_list_key := None\<rparr>
         | Some (key0, value0) \<Rightarrow>
             (let key = trim key0; value = trim value0 in
              if value = [] then st\<lparr>bs_list_key := Some key\<rparr>
              else
                (let st = st\<lparr>bs_list_key := None\<rparr> in
                 if key = ''title'' \<and> bs_title st = None then
                   (let v = unquote value in if v \<noteq> [] then st\<lparr>bs_title := Some v\<rparr> else st)
                 else if is_list_key key then
                   st\<lparr>bs_terms := bs_terms st @ filter (\<lambda>v. v \<noteq> []) (map unquote (flow_list_items value))\<rparr>
                 else st))))"

definition block_init :: block_state where
  "block_init = \<lparr>bs_title = None, bs_terms = [], bs_list_key = None\<rparr>"

definition parse_block :: "string \<Rightarrow> frontmatter" where
  "parse_block block =
     (let st = fold block_line (lines block) block_init
      in \<lparr>fm_title = bs_title st, fm_terms = bs_terms st\<rparr>)"

text \<open>The scan for the closing fence from byte \<open>pos\<close> on; \<open>None\<close> is a panic.\<close>

function close_loop :: "string \<Rightarrow> nat \<Rightarrow> nat \<Rightarrow> (frontmatter option \<times> string) option" where
  "close_loop raw after_open pos =
     Option.bind (str_slice raw pos (length raw)) (\<lambda>rest.
       (case find_char NL rest of
          Some i \<Rightarrow>
            Option.bind (str_slice raw pos (pos + i)) (\<lambda>line.
              if trim_end_char CR line = ''---'' then
                Option.bind (str_slice raw after_open pos) (\<lambda>block.
                Option.bind (str_slice raw (pos + i + 1) (length raw)) (\<lambda>body.
                  Some (Some (parse_block block), body)))
              else if pos < length raw then close_loop raw after_open (pos + i + 1)
              else None)
        | None \<Rightarrow>
            if trim_end_char CR rest = ''---'' then
              Option.bind (str_slice raw after_open pos) (\<lambda>block.
                Some (Some (parse_block block), []))
            else Some (None, raw)))"
  by pat_completeness auto
termination
  by (relation "measure (\<lambda>(raw, a, pos). length raw - pos)") auto

declare close_loop.simps [simp del]

definition first_line :: "string \<Rightarrow> string option" where
  "first_line s = (case lines s of [] \<Rightarrow> None | l # _ \<Rightarrow> Some l)"

definition fm_split :: "string \<Rightarrow> (frontmatter option \<times> string) option" where
  "fm_split raw =
     (if first_line raw \<noteq> Some ''---'' then Some (None, raw)
      else case find_char NL raw of
        None \<Rightarrow> Some (None, raw)
      | Some i \<Rightarrow> close_loop raw (i + 1) (i + 1))"

subsection \<open>The split at the closing fence\<close>

definition is_fence :: "string \<Rightarrow> bool" where
  "is_fence l \<longleftrightarrow> trim_end_char CR (if l \<noteq> [] \<and> last l = NL then butlast l else l) = ''---''"

definition split_reference :: "string \<Rightarrow> frontmatter option \<times> string" where
  "split_reference raw =
     (case split_inclusive NL raw of
        [] \<Rightarrow> (None, raw)
      | opening # ls \<Rightarrow>
          if strip_eol opening = ''---'' \<and> NL \<in> set opening then
            (case dropWhile (\<lambda>l. \<not> is_fence l) ls of
               [] \<Rightarrow> (None, raw)
             | _ # body \<Rightarrow> (Some (parse_block (concat (takeWhile (\<lambda>l. \<not> is_fence l) ls))), concat body))
          else (None, raw))"

lemma split_inclusive_at:
  assumes "find_char c s = Some i"
  shows "split_inclusive c s = take (i + 1) s # split_inclusive c (drop (i + 1) s)"
proof -
  have i: "i < length s" "s ! i = c" "c \<notin> set (take i s)" using find_char_Some [OF assms] by auto
  have "s = take i s @ c # drop (i + 1) s" using i by (metis Suc_eq_plus1 id_take_nth_drop)
  then have "split_inclusive c s = (take i s @ [c]) # split_inclusive c (drop (i + 1) s)"
    using split_inclusive_line [OF i(3)] by metis
  then show ?thesis using i by (simp add: take_Suc_conv_app_nth)
qed

lemma boundary_after_newline:
  assumes "valid_utf8 raw" and "str_slice raw pos (length raw) = Some rest" and "find_char NL rest = Some i"
  shows "is_char_boundary raw (pos + i)" and "is_char_boundary raw (pos + i + 1)"
proof -
  have rest: "rest = drop pos raw" "pos \<le> length raw"
    using assms(2) by (auto simp: str_slice_def split: if_splits)
  have i: "i < length rest" "rest ! i = NL" using find_char_Some [OF assms(3)] by auto
  then have "raw ! (pos + i) = NL" "pos + i < length raw" using rest by (auto simp: nth_drop)
  then show "is_char_boundary raw (pos + i)" and "is_char_boundary raw (pos + i + 1)"
    using boundary_after_ascii [OF assms(1), of "pos + i"] by simp_all
qed

lemma close_loop_reference:
  assumes "valid_utf8 raw" and "is_char_boundary raw a" and "a \<le> pos" and "is_char_boundary raw pos"
  shows "close_loop raw a pos =
     (case dropWhile (\<lambda>l. \<not> is_fence l) (split_inclusive NL (drop pos raw)) of
        [] \<Rightarrow> Some (None, raw)
      | _ # body \<Rightarrow>
          Some (Some (parse_block (take (pos - a) (drop a raw)
            @ concat (takeWhile (\<lambda>l. \<not> is_fence l) (split_inclusive NL (drop pos raw))))), concat body))"
  using assms
proof (induction raw a pos rule: close_loop.induct)
  case (1 raw a pos)
  let ?rest = "drop pos raw"
  have le: "pos \<le> length raw" using "1.prems"(4) by (rule boundary_le)
  have rest: "str_slice raw pos (length raw) = Some ?rest"
    using le "1.prems"(4) by (simp add: str_slice_Some)
  have block: "str_slice raw a pos = Some (take (pos - a) (drop a raw))"
    using "1.prems" by (simp add: str_slice_Some)
  show ?case
  proof (cases "find_char NL ?rest")
    case None
    then have nl: "NL \<notin> set ?rest" by (simp add: find_char_None)
    show ?thesis
    proof (cases "?rest = []")
      case True
      then show ?thesis using None rest
        by (subst close_loop.simps) (simp add: trim_end_char_def)
    next
      case False
      have "last ?rest \<noteq> NL" using nl False last_in_set by metis
      then have "is_fence ?rest = (trim_end_char CR ?rest = ''---'')" by (simp add: is_fence_def)
      then show ?thesis
        using None rest block split_inclusive_last [OF nl False]
        by (subst close_loop.simps) simp
    qed
  next
    case (Some i)
    have i: "i < length ?rest" "?rest ! i = NL" using find_char_Some [OF Some] by auto
    let ?line = "take (i + 1) ?rest"
    have b: "is_char_boundary raw (pos + i)" "is_char_boundary raw (pos + i + 1)"
      using boundary_after_newline [OF "1.prems"(1) rest Some] by auto
    have sl: "str_slice raw pos (pos + i) = Some (take i ?rest)"
      using b "1.prems"(4) by (simp add: str_slice_Some)
    have body: "str_slice raw (pos + i + 1) (length raw) = Some (drop (i + 1) ?rest)"
      using b(2) boundary_le [OF b(2)] by (simp add: str_slice_Some add.commute)
    have split: "split_inclusive NL ?rest = ?line # split_inclusive NL (drop (i + 1) ?rest)"
      by (rule split_inclusive_at [OF Some])
    have line: "?line = take i ?rest @ [NL]" using i by (simp add: take_Suc_conv_app_nth)
    have fence: "is_fence ?line = (trim_end_char CR (take i ?rest) = ''---'')"
      unfolding line by (simp add: is_fence_def)
    show ?thesis
    proof (cases "is_fence ?line")
      case True
      then show ?thesis
        using rest Some sl block body fence split by (subst close_loop.simps) simp
    next
      case False
      have lt: "pos < length raw" using i by simp
      have step: "close_loop raw a pos = close_loop raw a (pos + i + 1)"
        using rest Some sl fence False lt by (subst close_loop.simps) simp
      have IH: "close_loop raw a (pos + i + 1) =
         (case dropWhile (\<lambda>l. \<not> is_fence l) (split_inclusive NL (drop (pos + i + 1) raw)) of
            [] \<Rightarrow> Some (None, raw)
          | _ # body \<Rightarrow>
              Some (Some (parse_block (take (pos + i + 1 - a) (drop a raw)
                @ concat (takeWhile (\<lambda>l. \<not> is_fence l) (split_inclusive NL (drop (pos + i + 1) raw))))), concat body))"
        using "1.IH" [OF rest Some sl] fence False lt "1.prems"(1,2,3) b(2) by simp
      have d: "drop (pos + i + 1) raw = drop (i + 1) ?rest" by (simp add: add.commute add.left_commute)
      have t: "take (pos + i + 1 - a) (drop a raw) = take (pos - a) (drop a raw) @ ?line"
      proof -
        have "pos + i + 1 - a = (pos - a) + (i + 1)" using "1.prems"(3) by simp
        moreover have "drop (pos - a) (drop a raw) = ?rest" using "1.prems"(3) by simp
        ultimately show ?thesis by (simp only: take_add)
      qed
      show ?thesis
        unfolding step IH d t split using False by (simp split: list.split del: dropWhile_eq_Nil_conv)
    qed
  qed
qed

subsection \<open>Rendering a block\<close>

definition quoted :: "string \<Rightarrow> string" where
  "quoted s = CHR 0x22 # s @ [CHR 0x22]"

definition render_block :: "string \<Rightarrow> string list \<Rightarrow> string" where
  "render_block title tags =
     ''title: '' @ quoted title @ [NL] @ ''tags:'' @ [NL] @ concat (map (\<lambda>t. ''  - '' @ quoted t @ [NL]) tags)"

definition one_line :: "string \<Rightarrow> bool" where
  "one_line s \<longleftrightarrow> s \<noteq> [] \<and> valid_utf8 s \<and> NL \<notin> set s \<and> CR \<notin> set s"

lemma unquote_quoted [simp]: "unquote (quoted s) = s"
  by (simp add: unquote_def quoted_def)

lemma quoted_not_Nil [simp]: "quoted s \<noteq> []"
  by (simp add: quoted_def)

lemma trim_quoted:
  assumes "valid_utf8 s" and "\<forall>c\<in>set p. byte c < 128" and "p = [] \<or> \<not> is_ws_cp (byte (hd p))"
  shows "trim (p @ quoted s) = p @ quoted s"
proof -
  have "chars (p @ quoted s) = map (\<lambda>c. [c]) p @ [CHR 0x22] # chars s @ [[CHR 0x22]]"
    using assms by (simp add: quoted_def chars_append valid_utf8_ascii chars_ascii chars_Cons_ascii)
  then show ?thesis
    using assms(3) by (intro trim_noop) (cases p; auto simp: is_ws_cp_def)+
qed

lemma trim_end_char_quoted [simp]: "trim_end_char CR (p @ quoted s) = p @ quoted s"
  by (simp add: trim_end_char_def quoted_def)

lemma title_line:
  assumes "one_line t"
  shows "block_line (''title: '' @ quoted t) st =
     st\<lparr>bs_list_key := None, bs_title := (if bs_title st = None then Some t else bs_title st)\<rparr>"
proof -
  have v: "valid_utf8 t" "t \<noteq> []" using assms by (auto simp: one_line_def)
  have tr: "trim (''title: '' @ quoted t) = ''title: '' @ quoted t"
    using v by (intro trim_quoted) (auto simp: is_ws_cp_def)
  have val: "trim (CHR '' '' # quoted t) = quoted t"
    using trim_quoted [of t "[]"] v by (simp add: trim_space)
  have key: "trim ''title'' = ''title''" by (simp add: trim_def chars_ascii is_ws_cp_def)
  show ?thesis
    unfolding block_line_def trim_end_char_quoted Let_def
    by (simp add: tr [simplified] starts_with_def key val v is_list_key_def)
qed

lemma tags_line:
  "block_line ''tags:'' st = st\<lparr>bs_list_key := Some ''tags''\<rparr>"
proof -
  have "trim ''tags:'' = ''tags:''" "trim ''tags'' = ''tags''"
    by (simp_all add: trim_def chars_ascii is_ws_cp_def)
  then show ?thesis
    by (simp add: block_line_def Let_def trim_end_char_def starts_with_def)
qed

lemma item_line:
  assumes "one_line t" and "bs_list_key st = Some ''tags''"
  shows "block_line (''  - '' @ quoted t) st = st\<lparr>bs_terms := bs_terms st @ [t]\<rparr>"
proof -
  have v: "valid_utf8 t" "t \<noteq> []" using assms(1) by (auto simp: one_line_def)
  have "trim (''- '' @ quoted t) = ''- '' @ quoted t"
    using v by (intro trim_quoted) (auto simp: is_ws_cp_def)
  then have tr: "trim (''  - '' @ quoted t) = ''- '' @ quoted t" by (simp add: trim_space)
  have val: "trim (CHR '' '' # quoted t) = quoted t"
    using trim_quoted [of t "[]"] v by (simp add: trim_space)
  show ?thesis
    unfolding block_line_def trim_end_char_quoted Let_def
    using assms(2) by (simp add: tr [simplified] starts_with_def strip_prefix_def val v is_list_key_def)
qed

lemma item_lines:
  assumes "\<forall>t\<in>set tags. one_line t" and "bs_list_key st = Some ''tags''"
  shows "fold block_line (lines (concat (map (\<lambda>t. ''  - '' @ quoted t @ [NL]) tags))) st
       = st\<lparr>bs_terms := bs_terms st @ tags\<rparr>"
  using assms
proof (induction tags arbitrary: st)
  case Nil
  then show ?case by (simp add: lines_def)
next
  case (Cons t tags)
  have "NL \<notin> set (''  - '' @ quoted t)" "CR \<notin> set (''  - '' @ quoted t)"
    using Cons.prems(1) by (auto simp: one_line_def quoted_def)
  then have "lines ((''  - '' @ quoted t) @ NL # concat (map (\<lambda>t. ''  - '' @ quoted t @ [NL]) tags))
      = (''  - '' @ quoted t) # lines (concat (map (\<lambda>t. ''  - '' @ quoted t @ [NL]) tags))"
    by (rule lines_line)
  then show ?case
    using Cons.IH [of "st\<lparr>bs_terms := bs_terms st @ [t]\<rparr>"] Cons.prems item_line [of t st] by simp
qed

subsection \<open>Properties\<close>

text \<open>Splitting off the frontmatter never panics on well-formed text and is the split at
  the first closing fence: an opening line that is exactly three dashes, the block of the lines
  before the next fence line, and the rest as the body; otherwise the text is left whole.\<close>

theorem fm_split_reference:
  assumes "valid_utf8 raw"
  shows "fm_split raw = Some (split_reference raw)"
proof (cases "find_char NL raw")
  case None
  then have nl: "NL \<notin> set raw" by (simp add: find_char_None)
  then show ?thesis
    using None split_inclusive_last [OF nl] by (cases "raw = []") (simp_all add: fm_split_def split_reference_def)
next
  case (Some i)
  have i: "i < length raw" "raw ! i = NL" using find_char_Some [OF Some] by auto
  have split: "split_inclusive NL raw = take (i + 1) raw # split_inclusive NL (drop (i + 1) raw)"
    by (rule split_inclusive_at [OF Some])
  have nl: "NL \<in> set (take (i + 1) raw)" using i by (simp add: take_Suc_conv_app_nth)
  have fl: "first_line raw = Some (strip_eol (take (i + 1) raw))"
    using split by (simp add: first_line_def lines_def)
  have "is_char_boundary raw (i + 1)"
    using boundary_after_ascii [OF assms, of i] i by simp
  then have "close_loop raw (i + 1) (i + 1) =
     (case dropWhile (\<lambda>l. \<not> is_fence l) (split_inclusive NL (drop (i + 1) raw)) of
        [] \<Rightarrow> Some (None, raw)
      | _ # body \<Rightarrow>
          Some (Some (parse_block (concat (takeWhile (\<lambda>l. \<not> is_fence l) (split_inclusive NL (drop (i + 1) raw))))),
            concat body))"
    using close_loop_reference [OF assms, of "i + 1" "i + 1"]
    by (simp only: diff_self_eq_0 take_0 append_Nil order_refl simp_thms)
  then have "close_loop raw (i + 1) (i + 1) = Some (split_reference raw)"
    if "strip_eol (take (i + 1) raw) = ''---''"
    unfolding split_reference_def split using that nl by (simp split: list.split del: dropWhile_eq_Nil_conv)
  then show ?thesis
    using Some fl nl by (auto simp: fm_split_def split_reference_def split)
qed

lemma fm_split_reference_witness:
  "fm_split ''---\<newline>title: x\<newline>---\<newline>body'' = Some (Some (parse_block ''title: x\<newline>''), ''body'')"
proof -
  have "valid_utf8 ''---\<newline>title: x\<newline>---\<newline>body''" by (rule valid_utf8_ascii) simp
  then show ?thesis
    by (subst fm_split_reference)
      (simp_all add: split_reference_def strip_eol_def is_fence_def trim_end_char_def Let_def)
qed

text \<open>A frontmatter block with a quoted title and a block list of quoted tags is read
  back to exactly that title and those tags, whatever characters they contain besides line
  breaks.\<close>

theorem parse_block_render:
  assumes "one_line title" and "\<forall>t\<in>set tags. one_line t"
  shows "parse_block (render_block title tags) = \<lparr>fm_title = Some title, fm_terms = tags\<rparr>"
proof -
  let ?items = "concat (map (\<lambda>t. ''  - '' @ quoted t @ [NL]) tags)"
  have t: "NL \<notin> set (''title: '' @ quoted title)" "CR \<notin> set (''title: '' @ quoted title)"
    using assms(1) by (auto simp: one_line_def quoted_def)
  have "lines ((''title: '' @ quoted title) @ NL # ''tags:'' @ NL # ?items)
      = (''title: '' @ quoted title) # ''tags:'' # lines ?items"
    by (subst lines_line [OF t], subst lines_line) simp_all
  then have l: "lines (render_block title tags) = (''title: '' @ quoted title) # ''tags:'' # lines ?items"
    by (simp add: render_block_def)
  show ?thesis
    unfolding parse_block_def l fold.simps comp_apply title_line [OF assms(1)] tags_line
    by (subst item_lines [OF assms(2)]) (simp_all add: block_init_def Let_def)
qed

lemma parse_block_render_witness:
  "parse_block (render_block ''it's: \"x\"'' [''a b'', ''-c'']) = \<lparr>fm_title = Some ''it's: \"x\"'', fm_terms = [''a b'', ''-c'']\<rparr>"
  by (rule parse_block_render) (simp_all add: one_line_def valid_utf8_ascii)

end
