(* ===== verification/BreakPoints.thy ===== *)
theory BreakPoints
  imports Types
begin

text \<open>
  The scans of \<open>crates/rqmd-core/src/chunking.rs\<close>: code fences, break points and pipe
  tables, and the choice of a break in a window. The twelve regular expressions are written
  out as matchers that give the length of the match at a position; \<open>find_iter\<close> goes
  through the text from the left without overlaps, as the regex crate does. \<open>\s\<close> is the
  property White\_Space and \<open>\d\<close> the category Nd of the Unicode table.
\<close>

definition CHUNK_SIZE_CHARS :: nat where "CHUNK_SIZE_CHARS = 3600"
definition CHUNK_OVERLAP_CHARS :: nat where "CHUNK_OVERLAP_CHARS = 540"
definition CHUNK_WINDOW_CHARS :: nat where "CHUNK_WINDOW_CHARS = 800"
definition CHUNK_STRATEGY_VERSION :: nat where "CHUNK_STRATEGY_VERSION = 2"
definition MAX_TABLE_HEADER_CHARS :: nat where "MAX_TABLE_HEADER_CHARS = CHUNK_WINDOW_CHARS"

subsection \<open>Patterns\<close>

text \<open>A matcher gets the text from a position on and gives the length of the match there.\<close>

type_synonym matcher = "string \<Rightarrow> nat option"

definition first_char :: "string \<Rightarrow> string option" where
  "first_char s = (case chars s of [] \<Rightarrow> None | c # _ \<Rightarrow> Some c)"

text \<open>\<open>\n#{k}[^#]\<close>\<close>

definition m_heading :: "nat \<Rightarrow> matcher" where
  "m_heading k s =
     (let p = NL # replicate k (CHR ''#'') in
      if starts_with p s then
        (case first_char (drop (length p) s) of
           Some c \<Rightarrow> if c = ''#'' then None else Some (length p + length c)
         | None \<Rightarrow> None)
      else None)"

text \<open>\<open>\n```\<close> and \<open>\n\<close>\<close>

definition m_literal :: "string \<Rightarrow> matcher" where
  "m_literal p s = (if starts_with p s then Some (length p) else None)"

text \<open>\<open>\n(?:---|\*\*\*|___)\s*\n\<close>: the white space is taken up to its last newline.\<close>

definition last_newline :: "string \<Rightarrow> nat option" where
  "last_newline w = (if NL \<in> set w then Some (length w - length (takeWhile (\<lambda>c. c \<noteq> NL) (rev w))) else None)"

definition m_rule :: matcher where
  "m_rule s =
     (if starts_with (NL # ''---'') s \<or> starts_with (NL # ''***'') s \<or> starts_with (NL # ''___'') s
      then map_option (\<lambda>n. 4 + n) (last_newline (concat (takeWhile is_ws (chars (drop 4 s)))))
      else None)"

text \<open>\<open>\n\n+\<close>\<close>

definition m_blank :: matcher where
  "m_blank s =
     (let n = length (takeWhile (\<lambda>c. c = NL) s) in if 2 \<le> n then Some n else None)"

definition ws_char_len :: "string \<Rightarrow> nat option" where
  "ws_char_len s = (case first_char s of Some c \<Rightarrow> if is_ws c then Some (length c) else None | None \<Rightarrow> None)"

text \<open>\<open>\n[-*]\s\<close>\<close>

definition m_bullet :: matcher where
  "m_bullet s =
     (if starts_with (NL # ''-'') s \<or> starts_with (NL # ''*'') s
      then map_option (\<lambda>n. 2 + n) (ws_char_len (drop 2 s)) else None)"

text \<open>\<open>\n\d+\.\s\<close>\<close>

definition m_numbered :: "unicode \<Rightarrow> matcher" where
  "m_numbered uc s =
     (if starts_with [NL] s then
        (let ds = concat (takeWhile (\<lambda>c. u_decimal uc (cp c)) (chars (drop 1 s))); n = 1 + length ds in
         if ds = [] \<or> \<not> starts_with ''.'' (drop n s) then None
         else map_option (\<lambda>w. n + 1 + w) (ws_char_len (drop (n + 1) s)))
      else None)"

definition BREAK_PATTERNS :: "unicode \<Rightarrow> (matcher \<times> int) list" where
  "BREAK_PATTERNS uc =
     [(m_heading 1, 100), (m_heading 2, 90), (m_heading 3, 80), (m_heading 4, 70), (m_heading 5, 60),
      (m_heading 6, 50), (m_literal (NL # ''```''), 80), (m_rule, 60), (m_blank, 20), (m_bullet, 5),
      (m_numbered uc, 5), (m_literal [NL], 1)]"

text \<open>\<open>find_iter\<close>: start and end of the successive matches from offset \<open>off\<close> on.\<close>

function find_from :: "matcher \<Rightarrow> nat \<Rightarrow> string \<Rightarrow> (nat \<times> nat) list" where
  "find_from m off s =
     (if s = [] then []
      else case m s of
        None \<Rightarrow> find_from m (off + 1) (tl s)
      | Some n \<Rightarrow> (off, off + n) # find_from m (off + max 1 n) (drop (max 1 n) s))"
  by pat_completeness auto
termination
  by (relation "measure (\<lambda>(m, off, s). length s)") auto

declare find_from.simps [simp del]

definition find_iter :: "matcher \<Rightarrow> string \<Rightarrow> (nat \<times> nat) list" where
  "find_iter m s = find_from m 0 s"

subsection \<open>Code fences\<close>

record fence_region =
  fence_start :: nat
  fence_end :: nat

definition fence_step :: "nat \<times> nat \<Rightarrow> nat list \<times> fence_region list \<Rightarrow> nat list \<times> fence_region list" where
  "fence_step m st =
     (let (opens, fences) = st in
      if opens = [] then (opens @ [fst m], fences)
      else (butlast opens, fences @ [\<lparr>fence_start = last opens, fence_end = snd m\<rparr>]))"

definition scan_code_fences :: "string \<Rightarrow> fence_region list" where
  "scan_code_fences text =
     (let (opens, fences) = fold fence_step (find_iter (m_literal ''```'') text) ([], [])
      in fences @ map (\<lambda>s. \<lparr>fence_start = s, fence_end = length text\<rparr>) opens)"

definition inside_fence :: "nat \<Rightarrow> fence_region list \<Rightarrow> bool" where
  "inside_fence pos fences = list_ex (\<lambda>f. fence_start f < pos \<and> pos < fence_end f) fences"

subsection \<open>Break points\<close>

record break_point =
  bp_pos :: nat
  bp_score :: int

text \<open>\<open>seen.entry(pos).or_insert(-1)\<close>, then the larger score.\<close>

definition note_break :: "int \<Rightarrow> nat \<Rightarrow> break_point list \<Rightarrow> break_point list" where
  "note_break score pos seen =
     tab_upsert bp_pos pos \<lparr>bp_pos = pos, bp_score = (if - 1 < score then score else - 1)\<rparr>
       (\<lambda>b. if bp_score b < score then b\<lparr>bp_score := score\<rparr> else b) seen"

definition scan_pattern :: "string \<Rightarrow> fence_region list \<Rightarrow> matcher \<times> int \<Rightarrow> break_point list \<Rightarrow> break_point list" where
  "scan_pattern text fences pat seen =
     fold (\<lambda>m seen. if inside_fence (fst m) fences then seen else note_break (snd pat) (fst m) seen)
       (find_iter (fst pat) text) seen"

definition scan_break_points :: "unicode \<Rightarrow> string \<Rightarrow> fence_region list \<Rightarrow> break_point list" where
  "scan_break_points uc text fences =
     sort_by (\<lambda>a b. bp_pos a \<le> bp_pos b) (fold (scan_pattern text fences) (BREAK_PATTERNS uc) [])"

definition bp_le :: "break_point \<Rightarrow> break_point \<Rightarrow> bool" where
  "bp_le a b \<longleftrightarrow> bp_score a < bp_score b \<or> (bp_score a = bp_score b \<and> bp_pos a \<le> bp_pos b)"

definition best_break_in_window :: "break_point list \<Rightarrow> nat \<Rightarrow> nat \<Rightarrow> nat option" where
  "best_break_in_window bps window_start window_end =
     map_option bp_pos
       (max_by bp_le (filter (\<lambda>b. window_start \<le> bp_pos b \<and> bp_pos b < window_end) bps))"

subsection \<open>Pipe tables\<close>

record table =
  tbl_start :: nat
  tbl_data_start :: nat
  tbl_end :: nat

definition is_table_row :: "string \<Rightarrow> bool" where
  "is_table_row line = starts_with ''|'' (trim_start line)"

definition is_separator_row :: "string \<Rightarrow> bool" where
  "is_separator_row line =
     list_all (\<lambda>c. c \<noteq> [] \<and> CHR ''-'' \<in> set c \<and> list_all (\<lambda>ch. ch = CHR ''-'' \<or> ch = CHR '':'') c)
       (map trim (split_on (CHR ''|'') (trim_end_char (CHR ''|'') (trim_start_char (CHR ''|'') (trim line)))))"

definition flush_run :: "(nat \<times> string) list \<Rightarrow> table list \<Rightarrow> table list" where
  "flush_run run tables =
     (if 2 \<le> length run \<and> is_separator_row (snd (run ! 1)) then
        (let (last_start, l) = last run in
         tables @ [\<lparr>tbl_start = fst (run ! 0),
                    tbl_data_start = (if 2 < length run then fst (run ! 2) else last_start + length l),
                    tbl_end = last_start + length l\<rparr>])
      else tables)"

fun table_lines :: "fence_region list \<Rightarrow> nat \<Rightarrow> (nat \<times> string) list \<Rightarrow> table list \<Rightarrow> string list \<Rightarrow> table list" where
  "table_lines fences off run tables [] = flush_run run tables"
| "table_lines fences off run tables (line # ls) =
     (if is_table_row line \<and> \<not> inside_fence off fences
      then table_lines fences (off + length line) (run @ [(off, line)]) tables ls
      else table_lines fences (off + length line) [] (flush_run run tables) ls)"

definition scan_tables :: "string \<Rightarrow> fence_region list \<Rightarrow> table list" where
  "scan_tables text fences = table_lines fences 0 [] [] (split_inclusive NL text)"

subsection \<open>Matches\<close>

lemma find_from_step:
  "s \<noteq> [] \<Longrightarrow> find_from m off s =
     (case m s of None \<Rightarrow> find_from m (off + 1) (tl s)
      | Some n \<Rightarrow> (off, off + n) # find_from m (off + max 1 n) (drop (max 1 n) s))"
  by (subst find_from.simps) simp

lemma find_from_Nil [simp]: "find_from m off [] = []"
  by (subst find_from.simps) simp

text \<open>Every match is one of the matcher's at its place in the text.\<close>

lemma find_from_match:
  "(a, b) \<in> set (find_from m off s) \<Longrightarrow>
   off \<le> a \<and> a - off < length s \<and> m (drop (a - off) s) = Some (b - a) \<and> a \<le> b"
proof (induction m off s rule: find_from.induct)
  case (1 m off s)
  then have ne: "s \<noteq> []" by auto
  show ?case
  proof (cases "m s")
    case None
    then have "(a, b) \<in> set (find_from m (off + 1) (tl s))" using "1.prems" find_from_step [OF ne] by simp
    then have IH: "off + 1 \<le> a" "a - (off + 1) < length (tl s)" "m (drop (a - (off + 1)) (tl s)) = Some (b - a)" "a \<le> b"
      using "1.IH"(1) [OF ne None] by auto
    have "drop (a - off) s = drop (a - (off + 1)) (tl s)"
      using IH(1) ne by (simp add: drop_Suc [symmetric] Suc_diff_Suc)
    then show ?thesis using IH ne by auto
  next
    case (Some n)
    then consider "(a, b) = (off, off + n)" | "(a, b) \<in> set (find_from m (off + max 1 n) (drop (max 1 n) s))"
      using "1.prems" find_from_step [OF ne, of m off] by auto
    then show ?thesis
    proof cases
      case 1
      then show ?thesis using Some ne by simp
    next
      case 2
      then have IH: "off + max 1 n \<le> a" "a - (off + max 1 n) < length (drop (max 1 n) s)"
          "m (drop (a - (off + max 1 n)) (drop (max 1 n) s)) = Some (b - a)" "a \<le> b"
        using "1.IH"(2) [OF ne Some] by auto
      then show ?thesis by (auto simp: add.commute)
    qed
  qed
qed

lemma find_iter_match:
  "(a, b) \<in> set (find_iter m s) \<Longrightarrow> a < length s \<and> m (drop a s) = Some (b - a) \<and> a \<le> b"
  using find_from_match [of a b m 0 s] by (simp add: find_iter_def)

text \<open>Every match starts after the end of the one before it.\<close>

lemma find_from_disjoint: "sorted_wrt (\<lambda>x y. snd x \<le> fst y \<and> fst x < fst y) (find_from m off s)"
proof (induction m off s rule: find_from.induct)
  case (1 m off s)
  show ?case
  proof (cases "s = []")
    case False
    show ?thesis
    proof (cases "m s")
      case None
      then show ?thesis using "1.IH"(1) [OF False None] find_from_step [OF False, of m off] by simp
    next
      case (Some n)
      have "off + n \<le> fst y \<and> off < fst y"
        if "y \<in> set (find_from m (off + max 1 n) (drop (max 1 n) s))" for y
        using find_from_match [of "fst y" "snd y"] that by force
      then show ?thesis
        using "1.IH"(2) [OF False Some] find_from_step [OF False, of m off] Some by simp
    qed
  qed simp
qed

text \<open>Matches of length one are never skipped.\<close>

lemma find_from_single:
  assumes "\<And>s. m s = (if starts_with [c] s then Some 1 else None)"
  shows "i < length s \<Longrightarrow> s ! i = c \<Longrightarrow> (off + i, off + i + 1) \<in> set (find_from m off s)"
proof (induction s arbitrary: i off)
  case (Cons x s)
  have ms: "m (x # s) = (if x = c then Some 1 else None)" by (simp add: assms starts_with_def)
  show ?case
  proof (cases i)
    case 0
    then show ?thesis using Cons.prems ms by (simp add: find_from_step)
  next
    case (Suc j)
    then have "(off + 1 + j, off + 1 + j + 1) \<in> set (find_from m (off + 1) s)"
      using Cons.prems by (intro Cons.IH) auto
    then show ?thesis using ms Suc by (simp add: find_from_step)
  qed
qed simp

subsection \<open>Break points are the best-scoring matches\<close>

lemma seen_unique: "tab_unique bp_pos (note_break score pos seen) = tab_unique bp_pos seen"
  by (simp add: note_break_def tab_unique_upsert)

lemma seen_find:
  "tab_find bp_pos p (note_break score pos seen) =
     (if p = pos then Some \<lparr>bp_pos = p, bp_score = max score (case tab_find bp_pos p seen of None \<Rightarrow> - 1 | Some b \<Rightarrow> bp_score b)\<rparr>
      else tab_find bp_pos p seen)"
proof (cases "p = pos")
  case True
  show ?thesis
    using tab_find_Some [of bp_pos pos seen] True
    by (auto simp: note_break_def tab_find_upsert_same max_def split: option.split)
next
  case False
  then show ?thesis by (simp add: note_break_def tab_find_upsert_other)
qed

text \<open>
  \<open>break_scores\<close> lists the scores of the patterns that match at a position; the scan keeps
  the largest of them, for the positions outside the fences.
\<close>

definition break_scores :: "(matcher \<times> int) list \<Rightarrow> string \<Rightarrow> nat \<Rightarrow> int list" where
  "break_scores pats text pos = map snd (filter (\<lambda>p. pos \<in> fst ` set (find_iter (fst p) text)) pats)"

definition score_at :: "nat \<Rightarrow> break_point list \<Rightarrow> int option" where
  "score_at pos seen = map_option bp_score (tab_find bp_pos pos seen)"

lemma score_at_note:
  "score_at p (note_break score pos seen) =
     (if p = pos then Some (max score (case score_at p seen of None \<Rightarrow> - 1 | Some s \<Rightarrow> s)) else score_at p seen)"
  by (auto simp: score_at_def seen_find split: option.split)

lemma score_at_matches:
  "score_at p (fold (\<lambda>m seen. if inside_fence (fst m) fences then seen else note_break score (fst m) seen) ms seen) =
     (if p \<in> fst ` set ms \<and> \<not> inside_fence p fences
      then Some (max score (case score_at p seen of None \<Rightarrow> - 1 | Some s \<Rightarrow> s)) else score_at p seen)"
  by (induction ms arbitrary: seen) (auto simp: score_at_note max_def split: option.splits)

lemma score_at_pattern:
  "score_at p (scan_pattern text fences pat seen) =
     (if p \<in> fst ` set (find_iter (fst pat) text) \<and> \<not> inside_fence p fences
      then Some (max (snd pat) (case score_at p seen of None \<Rightarrow> - 1 | Some s \<Rightarrow> s)) else score_at p seen)"
  unfolding scan_pattern_def by (rule score_at_matches)

lemma score_at_patterns:
  "score_at p (fold (scan_pattern text fences) pats seen) =
     (if inside_fence p fences \<or> break_scores pats text p = [] then score_at p seen
      else Some (foldl max (case score_at p seen of None \<Rightarrow> - 1 | Some s \<Rightarrow> s) (break_scores pats text p)))"
proof (induction pats arbitrary: seen)
  case Nil
  then show ?case by (simp add: break_scores_def)
next
  case (Cons pat pats)
  show ?case
    by (simp add: Cons score_at_pattern break_scores_def max.commute split: option.split)
qed

lemma scan_pattern_unique: "tab_unique bp_pos (fold (scan_pattern text fences) pats seen) = tab_unique bp_pos seen"
proof -
  have "tab_unique bp_pos (fold (\<lambda>m seen. if inside_fence (fst m) fences then seen
          else note_break score (fst m) seen) ms seen) = tab_unique bp_pos seen" for score ms seen
    by (induction ms arbitrary: seen) (auto simp: seen_unique)
  then have "tab_unique bp_pos (scan_pattern text fences pat seen) = tab_unique bp_pos seen" for pat seen
    by (simp add: scan_pattern_def)
  then show ?thesis by (induction pats arbitrary: seen) auto
qed

interpretation by_pos: comparator "\<lambda>_. True" "\<lambda>a b. bp_pos a \<le> bp_pos b"
  by unfold_locales auto

interpretation by_score: comparator "\<lambda>_. True" bp_le
  by unfold_locales (auto simp: bp_le_def)

lemma foldl_max_Max: "foldl max (s::int) xs = Max (insert s (set xs))"
proof (induction xs arbitrary: s)
  case (Cons x xs)
  have "Max (insert (max s x) (set xs)) = Max (insert s (insert x (set xs)))"
    by (cases "xs = []") (simp_all add: Max_insert max.assoc)
  with Cons show ?case by simp
qed simp

lemma scan_break_points_unique: "tab_unique bp_pos (scan_break_points uc text fences)"
  using scan_pattern_unique [of "text" fences "BREAK_PATTERNS uc" "[]"]
  by (simp add: scan_break_points_def tab_unique_def)

lemma break_scores_nonneg: "s \<in> set (break_scores (BREAK_PATTERNS uc) text pos) \<Longrightarrow> 0 < s"
proof -
  have "\<forall>p\<in>set (BREAK_PATTERNS uc). 0 < snd p" by (simp add: BREAK_PATTERNS_def)
  then show "s \<in> set (break_scores (BREAK_PATTERNS uc) text pos) \<Longrightarrow> 0 < s"
    by (auto simp: break_scores_def)
qed

lemma scan_break_points_in:
  "b \<in> set (scan_break_points uc text fences) \<longleftrightarrow>
     \<not> inside_fence (bp_pos b) fences \<and> break_scores (BREAK_PATTERNS uc) text (bp_pos b) \<noteq> []
     \<and> bp_score b = Max (set (break_scores (BREAK_PATTERNS uc) text (bp_pos b)))"
proof -
  let ?seen = "fold (scan_pattern text fences) (BREAK_PATTERNS uc) []"
  let ?ss = "break_scores (BREAK_PATTERNS uc) text (bp_pos b)"
  have "b \<in> set (scan_break_points uc text fences) \<longleftrightarrow> score_at (bp_pos b) ?seen = Some (bp_score b)"
  proof -
    have "b \<in> set (scan_break_points uc text fences) \<longleftrightarrow> b \<in> set ?seen"
      by (simp add: scan_break_points_def)
    also have "\<dots> \<longleftrightarrow> tab_find bp_pos (bp_pos b) ?seen = Some b"
      using tab_find_unique [of bp_pos ?seen b] tab_find_Some [of bp_pos _ ?seen]
        scan_pattern_unique [of "text" fences _ "[]"] by (auto simp: tab_unique_def)
    also have "\<dots> \<longleftrightarrow> score_at (bp_pos b) ?seen = Some (bp_score b)"
      using tab_find_Some [of bp_pos "bp_pos b" ?seen] by (auto simp: score_at_def)
    finally show ?thesis .
  qed
  moreover have "foldl max (- 1) ?ss = Max (set ?ss)" if "?ss \<noteq> []"
  proof -
    have "0 < Max (set ?ss)" using that break_scores_nonneg by (simp add: Max_gr_iff)
      (meson last_in_set)
    then show ?thesis using that by (simp add: foldl_max_Max Max_insert)
  qed
  moreover have "score_at (bp_pos b) [] = None" by (simp add: score_at_def)
  then have "score_at (bp_pos b) ?seen =
      (if inside_fence (bp_pos b) fences \<or> ?ss = [] then None else Some (foldl max (- 1) ?ss))"
    by (simp add: score_at_patterns)
  ultimately show ?thesis by auto
qed

lemma newline_is_break:
  assumes "pos < length text" and "text ! pos = NL" and "\<not> inside_fence pos fences"
  shows "\<exists>b \<in> set (scan_break_points uc text fences). bp_pos b = pos"
proof -
  let ?ss = "break_scores (BREAK_PATTERNS uc) text pos"
  have "(0 + pos, 0 + pos + 1) \<in> set (find_from (m_literal [NL]) 0 text)"
    using assms(1,2) by (intro find_from_single [where c = NL]) (simp_all add: m_literal_def)
  then have "pos \<in> fst ` set (find_iter (m_literal [NL]) text)" by (force simp: find_iter_def)
  moreover have "(m_literal [NL], 1) \<in> set (BREAK_PATTERNS uc)" by (simp add: BREAK_PATTERNS_def)
  ultimately have "1 \<in> set ?ss" by (force simp: break_scores_def)
  then have "\<lparr>bp_pos = pos, bp_score = Max (set ?ss)\<rparr> \<in> set (scan_break_points uc text fences)"
    using assms(3) by (auto simp: scan_break_points_in)
  then show ?thesis by force
qed

text \<open>Every pattern starts with a newline, so every break point is at one.\<close>

lemma break_at_newline:
  assumes "b \<in> set (scan_break_points uc text fences)"
  shows "bp_pos b < length text \<and> text ! bp_pos b = NL"
proof -
  have nl: "hd s = NL \<and> s \<noteq> []" if "(m, score) \<in> set (BREAK_PATTERNS uc)" "m s = Some n" for m score s n
    using that
    by (cases s)
      (auto simp: BREAK_PATTERNS_def m_heading_def m_literal_def m_rule_def m_blank_def m_bullet_def
        m_numbered_def starts_with_def Let_def split: if_splits option.splits)
  obtain m score e where m: "(m, score) \<in> set (BREAK_PATTERNS uc)" "(bp_pos b, e) \<in> set (find_iter m text)"
    using assms unfolding scan_break_points_in break_scores_def by (fastforce simp: filter_empty_conv)
  have lt: "bp_pos b < length text" "m (drop (bp_pos b) text) = Some (e - bp_pos b)"
    using find_iter_match [OF m(2)] by auto
  then have "hd (drop (bp_pos b) text) = NL" using nl [OF m(1)] by blast
  then show ?thesis using lt(1) by (simp add: hd_drop_conv_nth)
qed

subsection \<open>Tables start and end at lines\<close>

definition line_offset :: "string \<Rightarrow> nat \<Rightarrow> bool" where
  "line_offset text p \<longleftrightarrow> p = 0 \<or> p = length text \<or> (p < length text \<and> text ! (p - 1) = NL)"

lemma line_offset_boundary: "valid_utf8 text \<Longrightarrow> line_offset text p \<Longrightarrow> is_char_boundary text p"
proof -
  assume v: "valid_utf8 text" and l: "line_offset text p"
  show ?thesis
  proof (cases "p = 0 \<or> p = length text")
    case False
    then have "p < length text" "text ! (p - 1) = NL" "0 < p" using l by (auto simp: line_offset_def)
    then show ?thesis using boundary_after_ascii [OF v, of "p - 1"] by simp
  qed auto
qed

lemma split_inclusive_Cons:
  assumes "split_inclusive c s = l # ls"
  shows "l \<noteq> []" and "s = l @ concat ls" and "ls = split_inclusive c (concat ls)"
    and "concat ls = [] \<or> last l = c"
proof -
  have "l \<noteq> [] \<and> s = l @ concat ls \<and> ls = split_inclusive c (concat ls) \<and> (concat ls = [] \<or> last l = c)"
  proof (cases "split_once c s")
    case None
    then show ?thesis using assms split_inclusive_unfold [of c s] by (auto split: if_splits)
  next
    case (Some ab)
    obtain a b where ab: "ab = (a, b)" by (cases ab)
    then have "s = a @ c # b" using Some split_once_Some by auto
    then show ?thesis using assms split_inclusive_unfold [of c s] Some ab by auto
  qed
  then show "l \<noteq> []" and "s = l @ concat ls" and "ls = split_inclusive c (concat ls)"
    and "concat ls = [] \<or> last l = c" by auto
qed

definition row_ok :: "string \<Rightarrow> nat \<times> string \<Rightarrow> bool" where
  "row_ok text r \<longleftrightarrow> line_offset text (fst r) \<and> line_offset text (fst r + length (snd r))
     \<and> snd r \<noteq> [] \<and> fst r + length (snd r) \<le> length text"

definition run_ok :: "string \<Rightarrow> nat \<Rightarrow> (nat \<times> string) list \<Rightarrow> bool" where
  "run_ok text off run \<longleftrightarrow>
     sorted_wrt (\<lambda>a b. fst a + length (snd a) \<le> fst b) run
     \<and> (\<forall>r\<in>set run. row_ok text r \<and> fst r + length (snd r) \<le> off)"

definition table_ok :: "string \<Rightarrow> table \<Rightarrow> bool" where
  "table_ok text t \<longleftrightarrow> line_offset text (tbl_start t) \<and> line_offset text (tbl_data_start t)
     \<and> line_offset text (tbl_end t) \<and> tbl_start t < tbl_data_start t \<and> tbl_data_start t \<le> tbl_end t
     \<and> tbl_end t \<le> length text"

lemma flush_run_ok:
  assumes "run_ok text off run" and "\<forall>t\<in>set tables. table_ok text t"
  shows "\<forall>t\<in>set (flush_run run tables). table_ok text t"
proof (cases "2 \<le> length run \<and> is_separator_row (snd (run ! 1))")
  case True
  then have len: "2 \<le> length run" by simp
  let ?n = "length run"
  have last: "last run = run ! (?n - 1)" using len by (intro last_conv_nth) auto
  have r: "row_ok text (run ! i)" if "i < ?n" for i
    using assms(1) that by (auto simp: run_ok_def)
  have ne: "run \<noteq> []" using len by auto
  have rows: "row_ok text (run ! 0)" "row_ok text (run ! (?n - 1))" using r [of 0] r [of "?n - 1"] ne by auto
  have r0: "snd (run ! 0) \<noteq> []" using r [of 0] ne by (simp add: row_ok_def)
  have le: "fst (run ! i) + length (snd (run ! i)) \<le> fst (run ! j)" if "i < j" "j < ?n" for i j
    using assms(1) that by (auto simp: run_ok_def sorted_wrt_iff_nth_less)
  have "table_ok text \<lparr>tbl_start = fst (run ! 0),
         tbl_data_start = (if 2 < ?n then fst (run ! 2) else fst (run ! (?n - 1)) + length (snd (run ! (?n - 1)))),
         tbl_end = fst (run ! (?n - 1)) + length (snd (run ! (?n - 1)))\<rparr>"
  proof (cases "2 < ?n")
    case True
    have "fst (run ! 0) < fst (run ! 2)"
      using le [of 0 2] r0 True by (cases "snd (run ! 0)") auto
    moreover have "fst (run ! 2) \<le> fst (run ! (?n - 1)) + length (snd (run ! (?n - 1)))"
    proof (cases "?n - 1 = 2")
      case False
      then have "2 < ?n - 1" "?n - 1 < ?n" using True by auto
      then show ?thesis using le [of 2 "?n - 1"] by linarith
    qed simp
    ultimately show ?thesis
      using True rows r [of 2] by (simp add: table_ok_def row_ok_def)
  next
    case False
    have "fst (run ! 0) < fst (run ! (?n - 1)) + length (snd (run ! (?n - 1)))"
    proof -
      have "0 < ?n - 1" "?n - 1 < ?n" using len by auto
      then have "fst (run ! 0) + length (snd (run ! 0)) \<le> fst (run ! (?n - 1))" by (rule le)
      moreover have "0 < length (snd (run ! 0))" using r0 by simp
      ultimately show ?thesis by linarith
    qed
    then show ?thesis
      using False rows by (simp add: table_ok_def row_ok_def)
  qed
  then show ?thesis
    using True assms(2) by (auto simp: flush_run_def last Let_def case_prod_unfold)
next
  case False
  then have "flush_run run tables = tables" unfolding flush_run_def by (rule if_not_P)
  then show ?thesis using assms(2) by simp
qed

lemma table_lines_ok:
  assumes "drop off text = s" and "off \<le> length text" and "line_offset text off"
    and "run_ok text off run" and "\<forall>t\<in>set tables. table_ok text t"
  shows "\<forall>t\<in>set (table_lines fences off run tables (split_inclusive NL s)). table_ok text t"
  using assms
proof (induction "length s" arbitrary: s off run tables rule: less_induct)
  case less
  show ?case
  proof (cases "split_inclusive NL s")
    case Nil
    then show ?thesis using flush_run_ok [OF less.prems(4,5)] by simp
  next
    case (Cons l ls)
    have l: "l \<noteq> []" "s = l @ concat ls" "ls = split_inclusive NL (concat ls)" "concat ls = [] \<or> last l = NL"
      using split_inclusive_Cons [OF Cons] by auto
    let ?off = "off + length l"
    have d: "drop ?off text = concat ls"
      using less.prems(1) l(2) by (metis add.commute append_eq_conv_conj drop_drop)
    have len: "length text = ?off + length (concat ls)"
      using less.prems(1,2) l(2) by (metis append.assoc append_take_drop_id length_append length_take min.absorb2)
    have "text ! (?off - 1) = last l"
    proof -
      have "text ! (?off - 1) = drop off text ! (length l - 1)"
        using l(1) less.prems(2) by (simp add: nth_drop Suc_leI)
      then show ?thesis using less.prems(1) l(1,2) by (simp add: nth_append last_conv_nth)
    qed
    then have lo: "line_offset text ?off" using l(4) len by (auto simp: line_offset_def)
    have row: "row_ok text (off, l)" using less.prems(3) lo l(1) len by (simp add: row_ok_def)
    have run: "run_ok text ?off (run @ [(off, l)])"
      using less.prems(4) row by (auto simp: run_ok_def sorted_wrt_append)
    have shorter: "length (concat ls) < length s" using l(1,2) by simp
    have IH: "\<forall>t\<in>set (table_lines fences ?off run' tables' ls). table_ok text t"
      if "run_ok text ?off run'" "\<forall>t\<in>set tables'. table_ok text t" for run' tables'
      using less.hyps [OF shorter d _ lo that] len l(3) by simp
    have "run_ok text ?off []" by (simp add: run_ok_def)
    then show ?thesis
      using IH [OF run less.prems(5)] IH [OF _ flush_run_ok [OF less.prems(4,5)]] Cons by simp
  qed
qed

lemma scan_tables_ok: "t \<in> set (scan_tables text fences) \<Longrightarrow> table_ok text t"
  using table_lines_ok [of 0 "text" "text" "[]" "[]" fences]
  by (auto simp: scan_tables_def run_ok_def line_offset_def)

subsection \<open>Properties\<close>

text \<open>The break points are exactly the positions outside the code fences where a pattern
  matches, each once, in order of position and with the best score of the patterns that match
  there; in particular every break is at a newline, and every newline outside the fences is a
  break.\<close>

theorem scan_break_points_spec:
  "set (scan_break_points uc text fences) =
     {b. \<not> inside_fence (bp_pos b) fences \<and> break_scores (BREAK_PATTERNS uc) text (bp_pos b) \<noteq> []
         \<and> bp_score b = Max (set (break_scores (BREAK_PATTERNS uc) text (bp_pos b)))}
   \<and> sorted_wrt (<) (map bp_pos (scan_break_points uc text fences))
   \<and> bp_pos ` set (scan_break_points uc text fences) =
       {p. p < length text \<and> text ! p = NL \<and> \<not> inside_fence p fences}"
proof (intro conjI)
  let ?bps = "scan_break_points uc text fences"
  show "set ?bps = {b. \<not> inside_fence (bp_pos b) fences \<and> break_scores (BREAK_PATTERNS uc) text (bp_pos b) \<noteq> []
         \<and> bp_score b = Max (set (break_scores (BREAK_PATTERNS uc) text (bp_pos b)))}"
    by (intro set_eqI) (simp only: scan_break_points_in mem_Collect_eq)
  have "sorted_wrt (\<lambda>a b. bp_pos a \<le> bp_pos b) ?bps"
    unfolding scan_break_points_def by (rule by_pos.sorted_sort_by) simp
  then have "sorted (map bp_pos ?bps)" by (simp add: sorted_wrt_map)
  moreover have "distinct (map bp_pos ?bps)"
    using scan_break_points_unique unfolding tab_unique_def .
  ultimately show "sorted_wrt (<) (map bp_pos ?bps)" by (simp add: strict_sorted_iff)
  show "bp_pos ` set ?bps = {p. p < length text \<and> text ! p = NL \<and> \<not> inside_fence p fences}"
    using break_at_newline newline_is_break scan_break_points_in by fastforce
qed

text \<open>The break chosen in a window is a break point of the window with the highest score,
  the last one of those, and there is none only if the window holds no break point.\<close>

theorem best_break_spec:
  "case best_break_in_window bps s e of
     None \<Rightarrow> \<not> (\<exists>b\<in>set bps. s \<le> bp_pos b \<and> bp_pos b < e)
   | Some p \<Rightarrow> s \<le> p \<and> p < e \<and> (\<exists>b\<in>set bps. bp_pos b = p \<and>
       (\<forall>b'\<in>set bps. s \<le> bp_pos b' \<and> bp_pos b' < e \<longrightarrow>
          bp_score b' < bp_score b \<or> (bp_score b' = bp_score b \<and> bp_pos b' \<le> p)))"
proof -
  let ?w = "filter (\<lambda>b. s \<le> bp_pos b \<and> bp_pos b < e) bps"
  show ?thesis
  proof (cases "max_by bp_le ?w")
    case None
    then show ?thesis by (auto simp: best_break_in_window_def filter_empty_conv)
  next
    case (Some b)
    have "bp_le x b" if "x \<in> set ?w" for x
      using by_score.max_by_greatest [OF _ Some that] by simp
    then show ?thesis using Some max_by_in [OF Some] by (auto simp: best_break_in_window_def bp_le_def)
  qed
qed

lemma best_break_spec_witness:
  "\<exists>p. best_break_in_window [\<lparr>bp_pos = 10, bp_score = 1\<rparr>, \<lparr>bp_pos = 20, bp_score = 80\<rparr>] 5 40 = Some p \<and> 5 \<le> p \<and> p < 40"
  using best_break_spec [of "[\<lparr>bp_pos = 10, bp_score = 1\<rparr>, \<lparr>bp_pos = 20, bp_score = 80\<rparr>]" 5 40]
  by (cases "best_break_in_window [\<lparr>bp_pos = 10, bp_score = 1\<rparr>, \<lparr>bp_pos = 20, bp_score = 80\<rparr>] 5 40") auto

end
