(* ===== verification/Chunking.thy ===== *)
theory Chunking
  imports BreakPoints
begin

text \<open>
  The chunker of \<open>crates/rqmd-core/src/chunking.rs\<close>: the sliding window over break points,
  the table headers carried into continuation chunks, \<open>chunk_document\<close> and \<open>first_chunk\<close>.
  A slice off a character boundary panics, so the functions return \<open>option\<close>; the window
  loop is a partial function, whose \<open>None\<close> is a panic or a loop without end. Both are
  shown not to happen on well-formed text, for any break points.
\<close>

text \<open>The two loops that move a position to a character boundary.\<close>

function snap_up :: "string \<Rightarrow> nat \<Rightarrow> nat" where
  "snap_up text p = (if p < length text \<and> \<not> is_char_boundary text p then snap_up text (p + 1) else p)"
  by pat_completeness auto
termination
  by (relation "measure (\<lambda>(t, p). length t - p)") auto

declare snap_up.simps [simp del]

definition snap_char_boundary_forward :: "string \<Rightarrow> nat \<Rightarrow> nat" where
  "snap_char_boundary_forward text pos = snap_up text (min pos (length text))"

fun snap_down :: "string \<Rightarrow> nat \<Rightarrow> nat" where
  "snap_down text 0 = 0"
| "snap_down text (Suc p) = (if is_char_boundary text (Suc p) then Suc p else snap_down text p)"

definition snap_char_boundary_backward :: "string \<Rightarrow> nat \<Rightarrow> nat" where
  "snap_char_boundary_backward text pos = snap_down text (min pos (length text))"

text \<open>One turn of the window loop: where the chunk that starts at \<open>start\<close> ends.\<close>

definition chunk_end :: "string \<Rightarrow> break_point list \<Rightarrow> nat \<Rightarrow> nat" where
  "chunk_end text bps start =
     (let ideal_end = min (start + CHUNK_SIZE_CHARS) (length text);
          window_start = ideal_end - CHUNK_WINDOW_CHARS div 2;
          window_end = min (ideal_end + CHUNK_WINDOW_CHARS div 2) (length text);
          break_at = (case best_break_in_window bps window_start window_end of Some p \<Rightarrow> p | None \<Rightarrow> ideal_end)
      in snap_char_boundary_forward text (min break_at (length text)))"

definition next_start :: "string \<Rightarrow> nat \<Rightarrow> nat" where
  "next_start text e =
     (let s = snap_char_boundary_backward text (e - CHUNK_OVERLAP_CHARS) in if e \<le> s then e else s)"

partial_function (option) chunk_loop ::
  "string \<Rightarrow> break_point list \<Rightarrow> nat \<Rightarrow> chunk list \<Rightarrow> chunk list option" where
  "chunk_loop text bps start acc =
     (if \<not> start < length text then Some acc
      else if min (start + CHUNK_SIZE_CHARS) (length text) = length text then
        Option.bind (str_slice text start (length text)) (\<lambda>t.
          Some (acc @ [\<lparr>chunk_text = t, chunk_pos = start\<rparr>]))
      else
        Option.bind (str_slice text start (chunk_end text bps start)) (\<lambda>t.
          chunk_loop text bps (next_start text (chunk_end text bps start))
            (acc @ [\<lparr>chunk_text = t, chunk_pos = start\<rparr>])))"

definition chunk_from_break_points :: "string \<Rightarrow> break_point list \<Rightarrow> chunk list option" where
  "chunk_from_break_points text bps =
     (if length text \<le> CHUNK_SIZE_CHARS then Some [\<lparr>chunk_text = text, chunk_pos = 0\<rparr>]
      else chunk_loop text bps 0 [])"

subsection \<open>Table headers\<close>

definition row_start_from :: "string \<Rightarrow> nat \<Rightarrow> nat option" where
  "row_start_from text pos =
     (if text ! (pos - 1) = NL then Some pos
      else Option.bind (str_slice text pos (length text)) (\<lambda>rest.
        Some (case find_char NL rest of Some i \<Rightarrow> pos + i + 1 | None \<Rightarrow> length text)))"

definition carry_header :: "string \<Rightarrow> table list \<Rightarrow> chunk \<Rightarrow> chunk option" where
  "carry_header text tables c =
     (case find (\<lambda>t. tbl_start t < chunk_pos c \<and> chunk_pos c < tbl_end t) tables of
        None \<Rightarrow> Some c
      | Some t \<Rightarrow>
          (let e = chunk_pos c + length (chunk_text c) in
           if chunk_pos c < tbl_data_start t then
             Option.bind (str_slice text (tbl_start t) e) (\<lambda>x.
               Some \<lparr>chunk_text = x, chunk_pos = tbl_start t\<rparr>)
           else
             Option.bind (str_slice text (tbl_start t) (tbl_data_start t)) (\<lambda>header.
               if MAX_TABLE_HEADER_CHARS < length header then Some c
               else Option.bind (row_start_from text (chunk_pos c)) (\<lambda>row_start.
                 if e \<le> row_start \<or> tbl_end t \<le> row_start then Some c
                 else Option.bind (str_slice text row_start e) (\<lambda>x.
                   Some \<lparr>chunk_text = header @ x, chunk_pos = row_start\<rparr>)))))"

fun carry_table_headers :: "string \<Rightarrow> chunk list \<Rightarrow> table list \<Rightarrow> chunk list option" where
  "carry_table_headers text [] tables = Some []"
| "carry_table_headers text (c # cs) tables =
     Option.bind (carry_header text tables c) (\<lambda>d.
       map_option ((#) d) (carry_table_headers text cs tables))"

definition chunk_document :: "unicode \<Rightarrow> string \<Rightarrow> chunk list option" where
  "chunk_document uc text =
     (if length text \<le> CHUNK_SIZE_CHARS then Some [\<lparr>chunk_text = text, chunk_pos = 0\<rparr>]
      else
        (let fences = scan_code_fences text in
         Option.bind (chunk_from_break_points text (scan_break_points uc text fences)) (\<lambda>chunks.
           carry_table_headers text chunks (scan_tables text fences))))"

definition first_chunk :: "unicode \<Rightarrow> string \<Rightarrow> string option" where
  "first_chunk uc text =
     (if length text \<le> CHUNK_SIZE_CHARS then Some text
      else
        (let ideal_end = CHUNK_SIZE_CHARS;
             window_start = ideal_end - CHUNK_WINDOW_CHARS div 2;
             window_end = min (ideal_end + CHUNK_WINDOW_CHARS div 2) (length text);
             scan_end = snap_char_boundary_forward text window_end
         in Option.bind (str_slice text 0 scan_end) (\<lambda>pre.
              let bps = scan_break_points uc pre (scan_code_fences pre);
                  break_at = (case best_break_in_window bps window_start window_end of Some p \<Rightarrow> p | None \<Rightarrow> ideal_end);
                  e = snap_char_boundary_forward text (min break_at (length text))
              in str_slice text 0 e)))"

subsection \<open>Snapping\<close>

lemma snap_up_ge: "p \<le> snap_up text p"
  by (induction "text" p rule: snap_up.induct) (subst snap_up.simps, auto)

lemma snap_up_boundary: "p \<le> length text \<Longrightarrow> is_char_boundary text (snap_up text p)"
proof (induction "text" p rule: snap_up.induct)
  case (1 t p)
  then show ?case by (subst snap_up.simps) (cases "p = length text"; auto)
qed

lemma snap_up_least: "p \<le> q \<Longrightarrow> is_char_boundary text q \<Longrightarrow> snap_up text p \<le> q"
proof (induction "text" p rule: snap_up.induct)
  case (1 t p)
  then show ?case
    by (subst snap_up.simps) (cases "p = q"; auto)
qed

lemma snap_forward:
  assumes "valid_utf8 text"
  shows "is_char_boundary text (snap_char_boundary_forward text p)"
    and "min p (length text) \<le> snap_char_boundary_forward text p"
    and "snap_char_boundary_forward text p \<le> min p (length text) + 3"
    and "snap_char_boundary_forward text p \<le> length text"
    and "p \<le> q \<Longrightarrow> is_char_boundary text q \<Longrightarrow> snap_char_boundary_forward text p \<le> q"
proof -
  let ?p = "min p (length text)"
  show b: "is_char_boundary text (snap_char_boundary_forward text p)"
    by (simp add: snap_char_boundary_forward_def snap_up_boundary)
  show "?p \<le> snap_char_boundary_forward text p" by (simp only: snap_char_boundary_forward_def snap_up_ge)
  show "snap_char_boundary_forward text p \<le> length text" using b by (rule boundary_le)
  show "p \<le> q \<Longrightarrow> is_char_boundary text q \<Longrightarrow> snap_char_boundary_forward text p \<le> q"
    using snap_up_least [of ?p q "text"] by (simp add: snap_char_boundary_forward_def)
  show "snap_char_boundary_forward text p \<le> ?p + 3"
  proof (cases "?p + 3 \<le> length text")
    case True
    obtain j where j: "j \<le> ?p + 3" "?p + 3 \<le> j + 3" "is_char_boundary text j"
      using boundary_near [OF assms True] by blast
    then have "snap_up text ?p \<le> j" by (intro snap_up_least) auto
    then show ?thesis using j(1) by (simp add: snap_char_boundary_forward_def)
  next
    case False
    then show ?thesis using b boundary_le by fastforce
  qed
qed

lemma snap_down_le: "snap_down text p \<le> p"
  by (induction "text" p rule: snap_down.induct) auto

lemma snap_down_boundary: "is_char_boundary text (snap_down text p)"
  by (induction "text" p rule: snap_down.induct) auto

lemma snap_down_greatest: "q \<le> p \<Longrightarrow> is_char_boundary text q \<Longrightarrow> q \<le> snap_down text p"
  by (induction "text" p rule: snap_down.induct) (auto simp: le_Suc_eq)

lemma snap_backward:
  assumes "valid_utf8 text"
  shows "is_char_boundary text (snap_char_boundary_backward text p)"
    and "snap_char_boundary_backward text p \<le> p" and "snap_char_boundary_backward text p \<le> length text"
    and "min p (length text) \<le> snap_char_boundary_backward text p + 3"
    and "q \<le> p \<Longrightarrow> is_char_boundary text q \<Longrightarrow> q \<le> snap_char_boundary_backward text p"
proof -
  let ?p = "min p (length text)"
  show b: "is_char_boundary text (snap_char_boundary_backward text p)"
    by (simp add: snap_char_boundary_backward_def snap_down_boundary)
  show "snap_char_boundary_backward text p \<le> p"
    using snap_down_le [of "text" ?p] by (simp add: snap_char_boundary_backward_def)
  show "snap_char_boundary_backward text p \<le> length text" using b by (rule boundary_le)
  show "q \<le> p \<Longrightarrow> is_char_boundary text q \<Longrightarrow> q \<le> snap_char_boundary_backward text p"
    using snap_down_greatest [of q ?p "text"] boundary_le by (simp add: snap_char_boundary_backward_def)
  obtain j where j: "j \<le> ?p" "?p \<le> j + 3" "is_char_boundary text j"
    using boundary_near [OF assms, of ?p] by auto
  then have "j \<le> snap_down text ?p" by (intro snap_down_greatest)
  then show "?p \<le> snap_char_boundary_backward text p + 3"
    using j(2) by (simp add: snap_char_boundary_backward_def)
qed

subsection \<open>The window loop\<close>

lemma chunk_end_range:
  assumes "valid_utf8 text" and "start + CHUNK_SIZE_CHARS < length text"
  shows "is_char_boundary text (chunk_end text bps start)"
    and "start + 3200 \<le> chunk_end text bps start"
    and "chunk_end text bps start \<le> start + 4002"
    and "\<forall>b\<in>set bps. is_char_boundary text (bp_pos b) \<Longrightarrow> chunk_end text bps start < start + 4000"
proof -
  let ?ws = "start + 3200" and ?we = "min (start + 4000) (length text)"
  let ?b = "case best_break_in_window bps ?ws ?we of Some p \<Rightarrow> p | None \<Rightarrow> start + 3600"
  have e: "chunk_end text bps start = snap_char_boundary_forward text (min ?b (length text))"
    using assms(2) by (simp add: chunk_end_def Let_def CHUNK_SIZE_CHARS_def CHUNK_WINDOW_CHARS_def add.commute)
  have b: "?ws \<le> ?b" "?b < start + 4000" "?b < length text"
    using best_break_spec [of bps ?ws ?we] assms(2)
    by (auto simp: CHUNK_SIZE_CHARS_def split: option.splits)
  show "is_char_boundary text (chunk_end text bps start)"
    unfolding e by (rule snap_forward(1) [OF assms(1)])
  show "?ws \<le> chunk_end text bps start"
    unfolding e using snap_forward(2) [OF assms(1), of ?b] b by (simp add: min_def)
  show "chunk_end text bps start \<le> start + 4002"
    unfolding e using snap_forward(3) [OF assms(1), of ?b] b by (simp add: min_def)
  show "chunk_end text bps start < start + 4000" if bd: "\<forall>b\<in>set bps. is_char_boundary text (bp_pos b)"
  proof (cases "best_break_in_window bps ?ws ?we")
    case None
    then show ?thesis
      unfolding e using snap_forward(3) [OF assms(1), of "start + 3600"] assms(2)
      by (simp add: min_def CHUNK_SIZE_CHARS_def)
  next
    case (Some p)
    then have "is_char_boundary text p" using best_break_spec [of bps ?ws ?we] bd by auto
    then show ?thesis
      unfolding e using snap_forward(5) [OF assms(1), of p p] b Some by (simp add: min_def)
  qed
qed

lemma next_start_range:
  assumes "valid_utf8 text" and "is_char_boundary text e" and "CHUNK_OVERLAP_CHARS < e"
  shows "is_char_boundary text (next_start text e)" and "next_start text e + 540 \<le> e"
    and "e \<le> next_start text e + 543"
proof -
  let ?s = "snap_char_boundary_backward text (e - 540)"
  have "?s \<le> e - 540" by (rule snap_backward(2) [OF assms(1)])
  moreover have e540: "540 < e" using assms(3) by (simp add: CHUNK_OVERLAP_CHARS_def)
  ultimately have le: "?s + 540 \<le> e" by linarith
  then have "\<not> e \<le> ?s" by linarith
  then have n: "next_start text e = ?s"
    by (simp add: next_start_def Let_def CHUNK_OVERLAP_CHARS_def)
  show "is_char_boundary text (next_start text e)" unfolding n by (rule snap_backward(1) [OF assms(1)])
  show "next_start text e + 540 \<le> e" unfolding n by (rule le)
  have "min (e - 540) (length text) \<le> ?s + 3" by (rule snap_backward(4) [OF assms(1)])
  then show "e \<le> next_start text e + 543" unfolding n using boundary_le [OF assms(2)] by auto
qed

text \<open>
  \<open>tiles text m start cs\<close>: the chunks \<open>cs\<close> are slices of the text at character
  boundaries, none longer than \<open>m\<close>; the first starts at \<open>start\<close>, each later one starts
  after the start of the one before it and 540 to 543 bytes before its end, and the last one
  reaches the end of the text.
\<close>

fun tiles :: "string \<Rightarrow> nat \<Rightarrow> nat \<Rightarrow> chunk list \<Rightarrow> bool" where
  "tiles text m start [] = False"
| "tiles text m start (c # cs) =
     (chunk_pos c = start \<and> str_slice text start (start + length (chunk_text c)) = Some (chunk_text c)
      \<and> length (chunk_text c) \<le> m
      \<and> (if cs = [] then start + length (chunk_text c) = length text
         else start < chunk_pos (hd cs) \<and> chunk_pos (hd cs) + 540 \<le> start + length (chunk_text c)
           \<and> start + length (chunk_text c) \<le> chunk_pos (hd cs) + 543
           \<and> tiles text m (chunk_pos (hd cs)) cs))"

definition max_chunk :: "string \<Rightarrow> break_point list \<Rightarrow> nat" where
  "max_chunk text bps = (if \<forall>b\<in>set bps. is_char_boundary text (bp_pos b) then 3999 else 4002)"

lemma chunk_loop_tiles:
  assumes "valid_utf8 text" and "is_char_boundary text start" and "start < length text"
  shows "\<exists>cs. chunk_loop text bps start acc = Some (acc @ cs) \<and> tiles text (max_chunk text bps) start cs"
  using assms(2,3)
proof (induction "length text - start" arbitrary: start acc rule: less_induct)
  case less
  let ?m = "max_chunk text bps"
  show ?case
  proof (cases "min (start + CHUNK_SIZE_CHARS) (length text) = length text")
    case True
    let ?c = "\<lparr>chunk_text = drop start text, chunk_pos = start\<rparr>"
    have s: "str_slice text start (length text) = Some (drop start text)"
      using less.prems by (simp add: str_slice_Some)
    have "chunk_loop text bps start acc = Some (acc @ [?c])"
      using True s less.prems(2) by (subst chunk_loop.simps) simp
    moreover have "length (drop start text) \<le> ?m"
      using True less.prems(2) by (auto simp: max_chunk_def CHUNK_SIZE_CHARS_def min_def split: if_splits)
    then have "tiles text ?m start [?c]" using s less.prems(2) by simp
    ultimately show ?thesis by blast
  next
    case False
    then have lt: "start + CHUNK_SIZE_CHARS < length text" by (simp add: min_def split: if_splits)
    define e where "e = chunk_end text bps start"
    define n where "n = next_start text e"
    have eb: "is_char_boundary text e" "start + 3200 \<le> e" "e \<le> start + ?m"
      using chunk_end_range [OF assms(1) lt, of bps] by (auto simp: e_def max_chunk_def)
    have "CHUNK_OVERLAP_CHARS < e" using eb(2) by (simp add: CHUNK_OVERLAP_CHARS_def)
    then have nb: "is_char_boundary text n" "n + 540 \<le> e" "e \<le> n + 543"
      using next_start_range [OF assms(1) eb(1)] unfolding n_def by auto
    have el: "e \<le> length text" using eb(1) by (rule boundary_le)
    have n: "start < n" "n < length text" using nb(2,3) eb(2) el by linarith+
    let ?t = "take (e - start) (drop start text)"
    let ?c = "\<lparr>chunk_text = ?t, chunk_pos = start\<rparr>"
    have s: "str_slice text start e = Some ?t"
      using less.prems(1) eb by (intro str_slice_Some) auto
    have lent: "length ?t = e - start" using el by simp
    have step: "chunk_loop text bps start acc = chunk_loop text bps n (acc @ [?c])"
      using s less.prems(2) unfolding e_def n_def
      by (subst chunk_loop.simps) (simp only: False if_False not_True_eq_False bind.simps)
    have "length text - n < length text - start" using n by linarith
    then obtain cs where cs: "chunk_loop text bps n (acc @ [?c]) = Some ((acc @ [?c]) @ cs)" "tiles text ?m n cs"
      using less.hyps [of n "acc @ [?c]"] nb(1) n(2) by blast
    obtain d ds where d: "cs = d # ds" using cs(2) by (cases cs) auto
    have "chunk_pos d = n" using cs(2) d by simp
    moreover have "start + length ?t = e" using lent eb(2) by simp
    moreover have "length ?t \<le> ?m" using lent eb(3) by simp
    ultimately have "tiles text ?m start (?c # cs)"
      using cs(2) d s n(1) nb(2,3) by simp
    then show ?thesis using step cs(1) by auto
  qed
qed

lemma chunk_from_break_points_tiles:
  assumes "valid_utf8 text"
  obtains cs where "chunk_from_break_points text bps = Some cs" and "tiles text (max_chunk text bps) 0 cs"
proof (cases "length text \<le> CHUNK_SIZE_CHARS")
  case True
  have "str_slice text 0 (length text) = Some text" by (simp add: str_slice_def)
  then show ?thesis
    using True that by (simp add: chunk_from_break_points_def max_chunk_def CHUNK_SIZE_CHARS_def)
next
  case False
  then have "0 < length text" by (cases "text") (simp_all add: CHUNK_SIZE_CHARS_def)
  then show ?thesis
    using chunk_loop_tiles [OF assms boundary_0, of bps "[]"] False that
    by (auto simp: chunk_from_break_points_def)
qed

lemma scan_break_points_boundary:
  assumes "valid_utf8 text" and "b \<in> set (scan_break_points uc text fences)"
  shows "is_char_boundary text (bp_pos b)"
  using break_at_newline [OF assms(2)] boundary_after_ascii [OF assms(1)] by simp

subsection \<open>Carrying headers\<close>

definition slice_chunk :: "string \<Rightarrow> chunk \<Rightarrow> bool" where
  "slice_chunk text c \<longleftrightarrow>
     str_slice text (chunk_pos c) (chunk_pos c + length (chunk_text c)) = Some (chunk_text c)"

lemma tiles_slices: "tiles text m start cs \<Longrightarrow> c \<in> set cs \<Longrightarrow> slice_chunk text c"
  by (induction "text" m start cs rule: tiles.induct) (auto simp: slice_chunk_def split: if_splits)

lemma slice_chunk_boundaries:
  "slice_chunk text c \<Longrightarrow> is_char_boundary text (chunk_pos c)
     \<and> is_char_boundary text (chunk_pos c + length (chunk_text c))"
  by (auto simp: slice_chunk_def str_slice_def split: if_splits)

text \<open>What carrying may do to a chunk.\<close>

definition carried :: "string \<Rightarrow> table list \<Rightarrow> chunk \<Rightarrow> chunk \<Rightarrow> bool" where
  "carried text tables c d \<longleftrightarrow>
     d = c \<or>
     (\<exists>t\<in>set tables. let e = chunk_pos c + length (chunk_text c) in
        tbl_start t < chunk_pos c \<and> chunk_pos c < tbl_end t \<and>
        ((chunk_pos c < tbl_data_start t \<and> chunk_pos d = tbl_start t
            \<and> str_slice text (tbl_start t) e = Some (chunk_text d))
         \<or> (tbl_data_start t \<le> chunk_pos c \<and> chunk_pos c \<le> chunk_pos d \<and> chunk_pos d < e
            \<and> chunk_pos d < tbl_end t \<and> line_offset text (chunk_pos d)
            \<and> (\<exists>header body. str_slice text (tbl_start t) (tbl_data_start t) = Some header
                 \<and> length header \<le> MAX_TABLE_HEADER_CHARS
                 \<and> str_slice text (chunk_pos d) e = Some body \<and> chunk_text d = header @ body))))"

lemma row_start_from_ok:
  assumes "valid_utf8 text" and "is_char_boundary text pos" and "0 < pos" and "pos < length text"
  obtains r where "row_start_from text pos = Some r" and "pos \<le> r" and "r \<le> length text"
    and "line_offset text r" and "is_char_boundary text r"
proof (cases "text ! (pos - 1) = NL")
  case True
  then have "row_start_from text pos = Some pos" "line_offset text pos"
    using assms by (simp_all add: row_start_from_def line_offset_def)
  then show ?thesis using that assms by simp
next
  case False
  have s: "str_slice text pos (length text) = Some (drop pos text)"
    using assms by (simp add: str_slice_Some)
  show ?thesis
  proof (cases "find_char NL (drop pos text)")
    case None
    then show ?thesis using that [of "length text"] False s assms
      by (simp add: row_start_from_def line_offset_def)
  next
    case (Some i)
    have i: "i < length (drop pos text)" "drop pos text ! i = NL" using find_char_Some [OF Some] by auto
    then have nl: "text ! (pos + i) = NL" "pos + i < length text" by (auto simp: nth_drop)
    then have "is_char_boundary text (Suc (pos + i))"
      using boundary_after_ascii [OF assms(1), of "pos + i"] by simp
    moreover have "line_offset text (pos + i + 1)" using nl by (auto simp: line_offset_def)
    ultimately show ?thesis
      using that [of "pos + i + 1"] False s Some nl(2) by (simp add: row_start_from_def)
  qed
qed

lemma carry_header_ok:
  assumes v: "valid_utf8 text" and c: "slice_chunk text c" and t: "\<forall>t\<in>set tables. table_ok text t"
  obtains d where "carry_header text tables c = Some d" and "carried text tables c d"
proof (cases "find (\<lambda>t. tbl_start t < chunk_pos c \<and> chunk_pos c < tbl_end t) tables")
  case None
  then show ?thesis using that [of c] by (simp add: carry_header_def carried_def)
next
  case (Some t)
  let ?e = "chunk_pos c + length (chunk_text c)"
  have ti: "t \<in> set tables" "tbl_start t < chunk_pos c" "chunk_pos c < tbl_end t"
    using Some by (auto simp: find_Some_iff)
  have ok: "table_ok text t" using t ti(1) by blast
  have cb: "is_char_boundary text (chunk_pos c)" "is_char_boundary text ?e"
    using slice_chunk_boundaries [OF c] by auto
  have el: "?e \<le> length text" using cb(2) by (rule boundary_le)
  have tb: "is_char_boundary text (tbl_start t)" "is_char_boundary text (tbl_data_start t)"
    using ok line_offset_boundary [OF v] by (auto simp: table_ok_def)
  show ?thesis
  proof (cases "chunk_pos c < tbl_data_start t")
    case True
    obtain x where x: "str_slice text (tbl_start t) ?e = Some x"
      using tb(1) cb(2) ti(2) by (simp add: str_slice_def)
    then have "carry_header text tables c = Some \<lparr>chunk_text = x, chunk_pos = tbl_start t\<rparr>"
      using Some True by (simp add: carry_header_def Let_def)
    moreover have "carried text tables c \<lparr>chunk_text = x, chunk_pos = tbl_start t\<rparr>"
      unfolding carried_def Let_def using ti True x by (intro disjI2 bexI [of _ t]) auto
    ultimately show ?thesis using that by blast
  next
    case False
    obtain h where h: "str_slice text (tbl_start t) (tbl_data_start t) = Some h"
      using tb ok by (auto simp: str_slice_def table_ok_def)
    obtain r where r: "row_start_from text (chunk_pos c) = Some r" "chunk_pos c \<le> r" "r \<le> length text"
        "line_offset text r" "is_char_boundary text r"
      using row_start_from_ok [OF v cb(1)] ti ok by (auto simp: table_ok_def)
    show ?thesis
    proof (cases "MAX_TABLE_HEADER_CHARS < length h \<or> ?e \<le> r \<or> tbl_end t \<le> r")
      case True
      then have "carry_header text tables c = Some c"
        using Some False h r(1) by (auto simp: carry_header_def Let_def)
      then show ?thesis using that [of c] by (simp add: carried_def)
    next
      case in_rows: False
      then obtain x where x: "str_slice text r ?e = Some x"
        using r(5) cb(2) by (simp add: str_slice_def)
      then have "carry_header text tables c = Some \<lparr>chunk_text = h @ x, chunk_pos = r\<rparr>"
        using Some False h r(1) in_rows by (simp add: carry_header_def Let_def)
      moreover have "carried text tables c \<lparr>chunk_text = h @ x, chunk_pos = r\<rparr>"
        unfolding carried_def Let_def using ti False h r x in_rows
        by (intro disjI2 bexI [of _ t] conjI exI [of _ h] exI [of _ x]) auto
      ultimately show ?thesis using that by blast
    qed
  qed
qed

lemma carry_table_headers_ok:
  assumes "valid_utf8 text" and "\<forall>c\<in>set cs. slice_chunk text c" and "\<forall>t\<in>set tables. table_ok text t"
  shows "\<exists>ds. carry_table_headers text cs tables = Some ds \<and> list_all2 (carried text tables) cs ds"
  using assms(2)
proof (induction cs)
  case (Cons c cs)
  obtain d where "carry_header text tables c = Some d" "carried text tables c d"
    using carry_header_ok [OF assms(1) _ assms(3)] Cons.prems by auto
  then show ?case using Cons by auto
qed simp

subsection \<open>Properties\<close>

text \<open>The window loop returns for every well-formed text and every list of break points,
  even ones that are not at character boundaries: it never panics and never runs forever. Its
  chunks are slices that cover the text from end to end, each starting 540 to 543 bytes before
  the end of the one before it, and none longer than 4002 bytes, 3999 when the break points are
  at boundaries.\<close>

theorem chunk_from_break_points_total:
  assumes "valid_utf8 text"
  shows "\<exists>cs. chunk_from_break_points text bps = Some cs \<and> tiles text (max_chunk text bps) 0 cs"
  using chunk_from_break_points_tiles [OF assms] by blast

lemma chunk_from_break_points_total_witness:
  "\<exists>cs. chunk_from_break_points (replicate 4000 (CHR ''x'')) [] = Some cs
     \<and> tiles (replicate 4000 (CHR ''x'')) (max_chunk (replicate 4000 (CHR ''x'')) []) 0 cs"
  by (rule chunk_from_break_points_total, rule valid_utf8_ascii) simp

lemma chunk_document_tiles:
  assumes "valid_utf8 text"
  shows "\<exists>cs ds. chunk_document uc text = Some ds \<and> tiles text 3999 0 cs
    \<and> list_all2 (carried text (scan_tables text (scan_code_fences text))) cs ds"
proof (cases "length text \<le> CHUNK_SIZE_CHARS")
  case True
  let ?c = "\<lparr>chunk_text = text, chunk_pos = 0\<rparr>"
  have "chunk_document uc text = Some [?c]" using True by (simp add: chunk_document_def)
  moreover have "tiles text 3999 0 [?c]" using True by (simp add: str_slice_def CHUNK_SIZE_CHARS_def)
  moreover have "list_all2 (carried text (scan_tables text (scan_code_fences text))) [?c] [?c]"
    by (simp add: carried_def)
  ultimately show ?thesis by blast
next
  case False
  let ?f = "scan_code_fences text"
  let ?bps = "scan_break_points uc text ?f"
  obtain cs where cs: "chunk_from_break_points text ?bps = Some cs" "tiles text (max_chunk text ?bps) 0 cs"
    using chunk_from_break_points_tiles [OF assms] by blast
  have m: "max_chunk text ?bps = 3999"
    using scan_break_points_boundary [OF assms] by (simp add: max_chunk_def)
  obtain ds where ds: "carry_table_headers text cs (scan_tables text ?f) = Some ds"
      "list_all2 (carried text (scan_tables text ?f)) cs ds"
    using carry_table_headers_ok [OF assms, of cs "scan_tables text ?f"] tiles_slices [OF cs(2)]
      scan_tables_ok by blast
  have "chunk_document uc text = Some ds" using False cs(1) ds(1) by (simp add: chunk_document_def Let_def)
  then show ?thesis using cs(2) ds(2) m by auto
qed

text \<open>C16: Chunking a document returns for every well-formed text. The result has one chunk for
  each chunk of the window loop over the document's break points (slices of at most 3999
  bytes that cover the text); a chunk is left as it is, or, when it starts in a pipe table,
  is extended back to the table's first row, or starts at a later line of the table and is
  prefixed with the table's header.\<close>

theorem chunk_document_total:
  assumes "valid_utf8 text"
  shows "\<exists>cs ds. chunk_document uc text = Some ds \<and> tiles text 3999 0 cs
    \<and> list_all2 (carried text (scan_tables text (scan_code_fences text))) cs ds"
  using assms by (rule chunk_document_tiles)

lemma chunk_document_total_witness:
  "\<exists>cs ds. chunk_document ascii_unicode ''# a'' = Some ds \<and> tiles ''# a'' 3999 0 cs
    \<and> list_all2 (carried ''# a'' (scan_tables ''# a'' (scan_code_fences ''# a''))) cs ds"
  by (rule chunk_document_total, rule valid_utf8_ascii) simp

text \<open>The first chunk is computed without a panic for every well-formed text and is a
  prefix of it at a character boundary, of 3200 to 4002 bytes when the text is longer than one
  chunk.\<close>

theorem first_chunk_total:
  assumes "valid_utf8 text"
  shows "\<exists>n. first_chunk uc text = Some (take n text) \<and> is_char_boundary text n
    \<and> (if length text \<le> 3600 then n = length text else 3200 \<le> n \<and> n \<le> 4002)"
proof (cases "length text \<le> CHUNK_SIZE_CHARS")
  case True
  then have "first_chunk uc text = Some (take (length text) text)" by (simp add: first_chunk_def)
  then show ?thesis using True by (intro exI [of _ "length text"]) (simp add: CHUNK_SIZE_CHARS_def)
next
  case False
  then have len: "3600 < length text" by (simp add: CHUNK_SIZE_CHARS_def)
  let ?we = "min 4000 (length text)"
  define se where "se = snap_char_boundary_forward text ?we"
  have se: "str_slice text 0 se = Some (take se text)"
    unfolding se_def using snap_forward(1) [OF assms] by (simp add: str_slice_def)
  define bps where "bps = scan_break_points uc (take se text) (scan_code_fences (take se text))"
  define b where "b = (case best_break_in_window bps 3200 ?we of Some p \<Rightarrow> p | None \<Rightarrow> 3600)"
  define e where "e = snap_char_boundary_forward text (min b (length text))"
  have b: "3200 \<le> b" "b < 4000" "b < length text"
    using best_break_spec [of bps 3200 ?we] len by (auto simp: b_def split: option.splits)
  have eb: "is_char_boundary text e" "3200 \<le> e" "e \<le> 4002"
    using snap_forward(1) [OF assms, of "min b (length text)"] snap_forward(2,3) [OF assms, of b] b
    by (auto simp: e_def min_def)
  have "first_chunk uc text = str_slice text 0 e"
    using False se by (simp add: first_chunk_def Let_def CHUNK_SIZE_CHARS_def CHUNK_WINDOW_CHARS_def
        se_def [symmetric] bps_def [symmetric] b_def [symmetric] e_def [symmetric])
  also have "\<dots> = Some (take e text)" using eb(1) by (simp add: str_slice_def)
  finally show ?thesis using eb len by (intro exI [of _ e]) simp
qed

lemma first_chunk_total_witness:
  "\<exists>n. first_chunk ascii_unicode (replicate 5000 (CHR ''x'')) = Some (take n (replicate 5000 (CHR ''x'')))
    \<and> is_char_boundary (replicate 5000 (CHR ''x'')) n \<and> 3200 \<le> n \<and> n \<le> 4002"
  using first_chunk_total [of "replicate 5000 (CHR ''x'')" ascii_unicode]
    valid_utf8_ascii [of "replicate 5000 (CHR ''x'')"] by simp

subsection \<open>Where the comments promise more\<close>

text \<open>
  A break after the ideal end makes a chunk longer than \<open>CHUNK_SIZE_CHARS\<close>, the size the
  comment of \<open>chunk_document\<close> gives as the maximum.
\<close>

lemma chunk_longer_than_size:
  "chunk_end (replicate 3700 (CHR ''x'') @ NL # replicate 1000 (CHR ''x'')) [\<lparr>bp_pos = 3700, bp_score = 1\<rparr>] 0 = 3700"
proof -
  let ?t = "replicate 3700 (CHR ''x'') @ NL # replicate 1000 (CHR ''x'')"
  have "is_char_boundary ?t 3700" by (simp add: is_char_boundary_def is_cont_def nth_append)
  then have "snap_up ?t 3700 = 3700" by (subst snap_up.simps) simp
  then show ?thesis
    by (simp add: chunk_end_def best_break_in_window_def snap_char_boundary_forward_def
        CHUNK_SIZE_CHARS_def CHUNK_WINDOW_CHARS_def Let_def)
qed

text \<open>
  Moving a chunk on to the next row loses the rest of the row it started in when that row
  also reaches past the end of the chunk before: here the bytes from 14 to 20 are in neither
  chunk afterwards.
\<close>

lemma carry_drops_bytes:
  "carry_table_headers ''|a|\<newline>|-|\<newline>|bbbbbbbbbb|\<newline>|c|\<newline>''
     [\<lparr>chunk_text = ''|a|\<newline>|-|\<newline>|bbbbb'', chunk_pos = 0\<rparr>,
      \<lparr>chunk_text = ''bbbbbbb|\<newline>|c|\<newline>'', chunk_pos = 12\<rparr>]
     [\<lparr>tbl_start = 0, tbl_data_start = 8, tbl_end = 25\<rparr>]
   = Some [\<lparr>chunk_text = ''|a|\<newline>|-|\<newline>|bbbbb'', chunk_pos = 0\<rparr>,
           \<lparr>chunk_text = ''|a|\<newline>|-|\<newline>|c|\<newline>'', chunk_pos = 21\<rparr>]"
  by (simp add: carry_header_def Let_def row_start_from_def str_slice_def is_char_boundary_def is_cont_def
      MAX_TABLE_HEADER_CHARS_def CHUNK_WINDOW_CHARS_def)

end
