(* ===== verification/Snippet.thy ===== *)
theory Snippet
  imports Chunking
begin

text \<open>
  Snippet extraction, \<open>extract_snippet\<close> and \<open>build_snippet_result\<close> of
  \<open>crates/rqmd-core/src/chunking.rs\<close>. Slices that would panic are \<open>None\<close>; extraction is
  shown to return for every chunk offset on a character boundary of the body, and the line
  number it reports is related to the newlines before the region it searched.
\<close>

record snippet_result =
  snip_line :: nat
  snippet :: string

definition str_index_range :: "'a list \<Rightarrow> nat \<Rightarrow> nat \<Rightarrow> 'a list option" where
  "str_index_range xs a b = (if a \<le> b \<and> b \<le> length xs then Some (take (b - a) (drop a xs)) else None)"

definition build_snippet_result ::
  "string list \<Rightarrow> nat \<Rightarrow> nat \<Rightarrow> nat \<Rightarrow> nat \<Rightarrow> snippet_result option" where
  "build_snippet_result ls best_line loff total_lines max_len =
     (let start = best_line - 1; e = min (best_line + 3) (length ls) in
      Option.bind (str_index_range ls start e) (\<lambda>snippet_lines.
        let text0 = join [NL] snippet_lines;
            body = (if max_len < length text0
                    then take (snap_char_boundary_backward text0 (max_len - 3)) text0 @ ''...'' else text0);
            absolute_start = loff + start + 1;
            n = length snippet_lines;
            before = absolute_start - 1;
            after = total_lines - (absolute_start + n - 1);
            header = ''@@ -'' @ dec absolute_start @ '','' @ dec n @ '' @@ ('' @ dec before @ '' before, ''
              @ dec after @ '' after)''
        in Some \<lparr>snip_line = loff + best_line + 1, snippet = header @ [NL] @ body\<rparr>))"

definition line_score :: "unicode \<Rightarrow> string list \<Rightarrow> string \<Rightarrow> int" where
  "line_score uc terms line =
     (let lower = u_lower uc line in int (length (filter (\<lambda>t. contains t lower) terms)))"

text \<open>The best line so far and its score; a later line must score more to replace it.\<close>

definition best_line_step :: "unicode \<Rightarrow> string list \<Rightarrow> nat \<times> string \<Rightarrow> nat \<times> int \<Rightarrow> nat \<times> int" where
  "best_line_step uc terms il best =
     (let s = line_score uc terms (snd il) in if snd best < s then (fst il, s) else best)"

definition search_region :: "string \<Rightarrow> nat \<Rightarrow> nat \<Rightarrow> (string \<times> nat) option" where
  "search_region body cpos clen =
     (if 0 < cpos then
        (let search_len = (if 0 < clen then clen else CHUNK_SIZE_CHARS);
             a = snap_char_boundary_backward body (cpos - 100);
             b = snap_char_boundary_forward body (min (cpos + search_len + 100) (length body))
         in Option.bind (str_slice body 0 a) (\<lambda>pre.
            Option.bind (str_slice body a b) (\<lambda>region.
              Some (region, length (lines pre) - 1))))
      else Some (body, 0))"

definition extract_snippet ::
  "unicode \<Rightarrow> string \<Rightarrow> string \<Rightarrow> nat \<Rightarrow> nat \<Rightarrow> nat \<Rightarrow> snippet_result option" where
  "extract_snippet uc body query max_len cpos clen =
     (let total_lines = length (lines body) in
      Option.bind (search_region body cpos clen) (\<lambda>(region, loff).
        let ls = lines region;
            terms = filter (\<lambda>t. t \<noteq> []) (split_ws (u_lower uc query));
            (best_line, best_score) = fold (best_line_step uc terms) (enumerate 0 ls) (0, - 1)
        in if 0 < cpos \<and> best_score \<le> 0 then
             (let a = snap_char_boundary_backward body (cpos - 100) in
              Option.bind (if a < cpos
                           then map_option (\<lambda>s. length (lines s) - 1) (str_slice body a cpos)
                           else Some 0) (\<lambda>anchor.
                build_snippet_result ls anchor loff total_lines max_len))
           else build_snippet_result ls best_line loff total_lines max_len))"

subsection \<open>Counting lines\<close>

lemma lines_count:
  "length (lines s) = count_list s NL + (if s \<noteq> [] \<and> last s \<noteq> NL then 1 else 0)"
proof -
  have "length (split_inclusive NL s) = count_list s NL + (if s \<noteq> [] \<and> last s \<noteq> NL then 1 else 0)"
  proof (induction s)
    case (Cons x s)
    show ?case
    proof (cases "x = NL")
      case False
      then show ?thesis using Cons
        by (cases "split_inclusive NL s") (auto split: if_splits dest: arg_cong [where f = concat])
    qed (use Cons in auto)
  qed simp
  then show ?thesis by (simp add: lines_def)
qed

lemma lines_nonempty: "b \<noteq> [] \<Longrightarrow> 1 \<le> length (lines b)"
proof (cases b rule: rev_cases)
  case (snoc xs x)
  then show ?thesis by (simp add: lines_count count_list_append)
qed simp

lemma lines_mono: "length (lines a) \<le> length (lines (a @ b))"
proof (cases "b = []")
  case False
  have "length (lines (a @ b)) = count_list a NL + length (lines b)"
    using False by (simp add: lines_count count_list_append)
  then show ?thesis using lines_nonempty [OF False] by (simp add: lines_count)
qed simp

subsection \<open>The parts\<close>

lemma build_snippet_ok:
  assumes "best \<le> length ls"
  obtains r where "build_snippet_result ls best loff tot max_len = Some r"
    and "snip_line r = loff + best + 1"
proof -
  have "best - 1 \<le> min (best + 3) (length ls)" using assms by auto
  then obtain x where "str_index_range ls (best - 1) (min (best + 3) (length ls)) = Some x"
    unfolding str_index_range_def by (metis min.cobounded2)
  then show ?thesis using that by (simp add: build_snippet_result_def Let_def)
qed

lemma best_line_bound:
  "fst (fold (best_line_step uc terms) (enumerate n ls) st) \<le> max (fst st) (n + length ls - 1)"
proof (induction ls arbitrary: n st)
  case (Cons l ls)
  have "fst (best_line_step uc terms (n, l) st) \<le> max (fst st) n"
    by (auto simp: best_line_step_def Let_def)
  then show ?case using Cons [of "Suc n" "best_line_step uc terms (n, l) st"] by simp
qed simp

lemma search_region_ok:
  assumes "valid_utf8 body" and "is_char_boundary body cpos" and "0 < cpos"
  defines "a \<equiv> snap_char_boundary_backward body (cpos - 100)"
  obtains b where "search_region body cpos clen =
       Some (take (b - a) (drop a body), length (lines (take a body)) - 1)"
    and "cpos \<le> b" and "b \<le> length body" and "a \<le> cpos"
proof -
  let ?n = "if 0 < clen then clen else CHUNK_SIZE_CHARS"
  let ?b = "snap_char_boundary_forward body (min (cpos + ?n + 100) (length body))"
  have cl: "cpos \<le> length body" using assms(2) by (rule boundary_le)
  have a: "is_char_boundary body a" "a \<le> cpos"
    using snap_backward(1,2) [OF assms(1), of "cpos - 100"] by (auto simp: a_def)
  have b: "is_char_boundary body ?b" "cpos \<le> ?b" "?b \<le> length body"
    using snap_forward(1,2,4) [OF assms(1), of "min (cpos + ?n + 100) (length body)"] cl
    by (auto simp: min_def split: if_splits)
  have "search_region body cpos clen =
      Some (take (?b - a) (drop a body), length (lines (take a body)) - 1)"
    using assms(3) a b by (simp add: search_region_def Let_def a_def [symmetric] str_slice_def)
  then show ?thesis using that b a(2) by blast
qed

subsection \<open>Properties\<close>

text \<open>Extracting a snippet returns for every well-formed body and every chunk offset on a
  character boundary of it. With no chunk offset the reported line is a line of the body.\<close>

theorem extract_snippet_total:
  assumes "valid_utf8 body" and "is_char_boundary body cpos"
  shows "\<exists>r. extract_snippet uc body query max_len cpos clen = Some r
    \<and> 1 \<le> snip_line r \<and> (cpos = 0 \<longrightarrow> snip_line r \<le> max 1 (length (lines body)))"
proof (cases "0 < cpos")
  case False
  let ?terms = "filter (\<lambda>t. t \<noteq> []) (split_ws (u_lower uc query))"
  obtain best sc where best: "fold (best_line_step uc ?terms) (enumerate 0 (lines body)) (0, - 1) = (best, sc)"
    by (rule prod.exhaust)
  have le: "best \<le> length (lines body) - 1"
    using best_line_bound [of uc ?terms 0 "lines body" "(0, - 1)"] best by simp
  then have "best \<le> length (lines body)" by simp
  then obtain r where r: "build_snippet_result (lines body) best 0 (length (lines body)) max_len = Some r"
      "snip_line r = 0 + best + 1" by (rule build_snippet_ok)
  have "search_region body cpos clen = Some (body, 0)" using False by (simp add: search_region_def)
  then have "extract_snippet uc body query max_len cpos clen = Some r"
    using False r(1) best by (simp add: extract_snippet_def)
  moreover have "snip_line r \<le> max 1 (length (lines body))" using r(2) le by linarith
  ultimately show ?thesis using r(2) by simp
next
  case True
  define a where "a = snap_char_boundary_backward body (cpos - 100)"
  obtain b where r: "search_region body cpos clen =
       Some (take (b - a) (drop a body), length (lines (take a body)) - 1)"
      "cpos \<le> b" "b \<le> length body" "a \<le> cpos"
    using search_region_ok [OF assms True] unfolding a_def by blast
  let ?region = "take (b - a) (drop a body)"
  let ?loff = "length (lines (take a body)) - 1"
  let ?tot = "length (lines body)"
  let ?terms = "filter (\<lambda>t. t \<noteq> []) (split_ws (u_lower uc query))"
  obtain best sc where best: "fold (best_line_step uc ?terms) (enumerate 0 (lines ?region)) (0, - 1) = (best, sc)"
    by (rule prod.exhaust)
  have "best \<le> length (lines ?region)"
    using best_line_bound [of uc ?terms 0 "lines ?region" "(0, - 1)"] best by (simp add: le_diff_conv)
  then obtain r1 where r1: "build_snippet_result (lines ?region) best ?loff ?tot max_len = Some r1"
      "snip_line r1 = ?loff + best + 1" by (rule build_snippet_ok)
  let ?pre = "take (cpos - a) (drop a body)"
  have ab: "is_char_boundary body a" unfolding a_def by (rule snap_backward(1) [OF assms(1)])
  have anchor: "str_slice body a cpos = Some ?pre"
    using ab assms(2) r(4) by (simp add: str_slice_def)
  have "?region = ?pre @ take (b - cpos) (drop cpos body)"
  proof -
    have "b - a = (cpos - a) + (b - cpos)" using r(2,4) by simp
    moreover have "drop (cpos - a) (drop a body) = drop cpos body" using r(4) by simp
    ultimately show ?thesis by (simp only: take_add)
  qed
  then have "length (lines ?pre) \<le> length (lines ?region)" using lines_mono by metis
  then have "length (lines ?pre) - 1 \<le> length (lines ?region)" by simp
  then obtain r2 where r2: "build_snippet_result (lines ?region) (length (lines ?pre) - 1) ?loff ?tot max_len = Some r2"
      "snip_line r2 = ?loff + (length (lines ?pre) - 1) + 1" by (rule build_snippet_ok)
  have "0 \<le> length (lines ?region)" by simp
  then obtain r3 where r3: "build_snippet_result (lines ?region) 0 ?loff ?tot max_len = Some r3"
      "snip_line r3 = ?loff + 0 + 1" by (rule build_snippet_ok)
  consider (match) "\<not> sc \<le> 0" | (anchor) "sc \<le> 0" "a < cpos" | (here) "sc \<le> 0" "\<not> a < cpos" by blast
  then have "\<exists>r. extract_snippet uc body query max_len cpos clen = Some r \<and> 1 \<le> snip_line r"
  proof cases
    case match
    then have "extract_snippet uc body query max_len cpos clen = Some r1"
      unfolding extract_snippet_def r(1) Let_def bind.simps prod.case best using r1(1) by simp
    then show ?thesis using r1(2) by simp
  next
    case anchor
    then have "extract_snippet uc body query max_len cpos clen = Some r2"
      unfolding extract_snippet_def r(1) Let_def bind.simps prod.case best a_def [symmetric]
      using \<open>str_slice body a cpos = Some ?pre\<close> r2(1) True by simp
    then show ?thesis using r2(2) by simp
  next
    case here
    then have "extract_snippet uc body query max_len cpos clen = Some r3"
      unfolding extract_snippet_def r(1) Let_def bind.simps prod.case best a_def [symmetric]
      using r3(1) True by simp
    then show ?thesis using r3(2) by simp
  qed
  then show ?thesis using True by simp
qed

lemma extract_snippet_total_witness:
  "\<exists>r. extract_snippet ascii_unicode ''alpha\<newline>beta'' ''beta'' 500 0 0 = Some r \<and> 1 \<le> snip_line r"
  using extract_snippet_total [of "''alpha\<newline>beta''" 0 ascii_unicode "''beta''" 500 0]
    valid_utf8_ascii [of "''alpha\<newline>beta''"] by auto

text \<open>The number added to the line found in the searched region is the number of newlines
  before the region, except when the region starts right after a newline: then it is one less,
  so that the line reported for a chunk there is the line before the matching one.\<close>

theorem region_line_offset:
  assumes "search_region body cpos clen = Some (region, k)" and "0 < cpos"
  shows "\<exists>a. region = take (length region) (drop a body) \<and>
     k = count_list (take a body) NL - (if take a body \<noteq> [] \<and> last (take a body) = NL then 1 else 0)"
proof -
  let ?a = "snap_char_boundary_backward body (cpos - 100)"
  have k: "k = length (lines (take ?a body)) - 1"
    and region: "\<exists>b. region = take (b - ?a) (drop ?a body)"
    using assms by (auto simp: search_region_def Let_def str_slice_def bind_eq_Some_conv split: if_splits)
  obtain b where b: "region = take (b - ?a) (drop ?a body)" using region by blast
  have "region = take (length region) (drop ?a body)" unfolding b by (simp add: min_def)
  then show ?thesis
    unfolding k by (intro exI [of _ ?a]) (auto simp: lines_count)
qed

lemma region_line_offset_witness:
  "\<exists>k. search_region (''aaaa'' @ NL # replicate 200 (CHR ''b'')) 105 0
       = Some (replicate 200 (CHR ''b''), k) \<and> k = 0"
proof -
  let ?body = "''aaaa'' @ NL # replicate 200 (CHR ''b'')"
  have v: "\<forall>c\<in>set ?body. byte c < 128" by simp
  have bd: "is_char_boundary ?body i" if "i \<le> 205" for i
  proof (cases "i < length ?body")
    case True
    then have "byte (?body ! i) < 128" using v nth_mem by blast
    then show ?thesis using boundary_after_ascii [OF valid_utf8_ascii [OF v] True] by simp
  next
    case False
    then have "i = length ?body" using that by simp
    then show ?thesis by (simp only: boundary_length)
  qed
  have a: "snap_char_boundary_backward ?body 5 = 5"
    using snap_down_greatest [of 5 5 ?body] bd snap_down_le [of ?body 5]
    by (simp add: snap_char_boundary_backward_def)
  have b: "snap_char_boundary_forward ?body 205 = 205"
    using snap_up_least [of 205 205 ?body] bd snap_up_ge [of 205 ?body]
    by (simp add: snap_char_boundary_forward_def)
  have t: "take 5 ?body = ''aaaa\<newline>''" "drop 5 ?body = replicate 200 (CHR ''b'')"
    by (simp_all add: take_Cons' drop_Cons')
  have "str_slice ?body 0 5 = Some ''aaaa\<newline>''" "str_slice ?body 5 205 = Some (replicate 200 (CHR ''b''))"
    using bd [of 5] bd [of 205] t by (simp_all add: str_slice_def)
  then have s: "search_region ?body 105 0 = Some (replicate 200 (CHR ''b''), 0)"
    using a b by (simp add: search_region_def Let_def CHUNK_SIZE_CHARS_def lines_count)
  then have "\<exists>a. replicate 200 (CHR ''b'') = take (length (replicate 200 (CHR ''b''))) (drop a ?body)"
    using region_line_offset [OF s] by auto
  then show ?thesis using s by blast
qed

end
