(* ===== verification/Sql.thy ===== *)
theory Sql
  imports Types "HOL-Library.Word"
begin

text \<open>
  What the program relies on of SQLite: \<open>LIKE\<close> with its ASCII case folding, wildcards and
  \<open>ESCAPE\<close>, ordering by text columns, and the storage of \<open>u64\<close> values as signed 64-bit
  integers; with \<open>escape_like_pattern\<close> of \<open>crates/rqmd-core/src/db.rs\<close>.
\<close>

subsection \<open>64-bit casts\<close>

definition as_i64 :: "nat \<Rightarrow> int" where
  "as_i64 n = sint (word_of_int (int n) :: 64 word)"

definition as_u64 :: "int \<Rightarrow> nat" where
  "as_u64 i = nat (uint (word_of_int i :: 64 word))"

text \<open>\<open>u64::try_from(n).ok()\<close>\<close>

definition u64_try_from :: "int \<Rightarrow> nat option" where
  "u64_try_from i = (if 0 \<le> i then Some (nat i) else None)"

lemma as_u64_as_i64 [simp]: "n < 2 ^ 64 \<Longrightarrow> as_u64 (as_i64 n) = n"
proof -
  assume n: "n < 2 ^ 64"
  have "word_of_int (sint (word_of_int (int n) :: 64 word)) = (word_of_int (int n) :: 64 word)" by simp
  then have "as_u64 (as_i64 n) = nat (uint (word_of_int (int n) :: 64 word))"
    by (simp add: as_u64_def as_i64_def)
  also have "\<dots> = nat (int n mod 2 ^ 64)" by (simp only: uint_word_of_int) simp
  also have "\<dots> = n" using n by simp
  finally show ?thesis .
qed

lemma as_i64_small: "n < 2 ^ 63 \<Longrightarrow> as_i64 n = int n"
  unfolding as_i64_def sint_sbintrunc' by (rule signed_take_bit_int_eq_self) simp_all

lemma as_i64_inj: "as_i64 m = as_i64 n \<Longrightarrow> m < 2 ^ 64 \<Longrightarrow> n < 2 ^ 64 \<Longrightarrow> m = n"
  by (metis as_u64_as_i64)

subsection \<open>LIKE\<close>

text \<open>
  Patterns and texts as lists of characters. \<open>%\<close> is any run, \<open>_\<close> one character, and the
  escape character, when given, makes the next pattern character literal; letters of ASCII
  match in both cases.
\<close>

definition ci_eq :: "string \<Rightarrow> string \<Rightarrow> bool" where
  "ci_eq a b \<longleftrightarrow> ascii_lower a = ascii_lower b"

function like :: "string option \<Rightarrow> string list \<Rightarrow> string list \<Rightarrow> bool" where
  "like esc [] t = (t = [])"
| "like esc (p # ps) t =
     (if esc = Some p then
        (case ps of [] \<Rightarrow> False
         | q # qs \<Rightarrow> (case t of [] \<Rightarrow> False | c # cs \<Rightarrow> ci_eq q c \<and> like esc qs cs))
      else if p = ''%'' then like esc ps t \<or> (case t of [] \<Rightarrow> False | c # cs \<Rightarrow> like esc (p # ps) cs)
      else if p = ''_'' then (case t of [] \<Rightarrow> False | c # cs \<Rightarrow> like esc ps cs)
      else (case t of [] \<Rightarrow> False | c # cs \<Rightarrow> ci_eq p c \<and> like esc ps cs))"
  by pat_completeness auto
termination
  by (relation "measure (\<lambda>(e, p, t). length p + length t)") auto

declare like.simps(2) [simp del]

definition sql_like :: "string \<Rightarrow> string \<Rightarrow> bool" where
  "sql_like pattern s = like None (chars pattern) (chars s)"

definition sql_like_escape :: "string \<Rightarrow> string \<Rightarrow> bool" where
  "sql_like_escape pattern s = like (Some [CHR 0x5C]) (chars pattern) (chars s)"

definition replace_char :: "char \<Rightarrow> string \<Rightarrow> string \<Rightarrow> string" where
  "replace_char c r s = concat (map (\<lambda>x. if x = c then r else [x]) s)"

definition escape_like_pattern :: "string \<Rightarrow> string" where
  "escape_like_pattern s =
     replace_char (CHR ''_'') [CHR 0x5C, CHR ''_'']
       (replace_char (CHR ''%'') [CHR 0x5C, CHR ''%'']
         (replace_char (CHR 0x5C) [CHR 0x5C, CHR 0x5C] s))"

subsection \<open>Escaped patterns are literal\<close>

definition special_char :: "char \<Rightarrow> bool" where
  "special_char c \<longleftrightarrow> c = CHR 0x5C \<or> c = CHR ''%'' \<or> c = CHR ''_''"

lemma escape_like_once:
  "escape_like_pattern s = concat (map (\<lambda>x. if special_char x then [CHR 0x5C, x] else [x]) s)"
  by (induction s) (auto simp: escape_like_pattern_def replace_char_def special_char_def)

lemma escape_Cons [simp]:
  "escape_like_pattern (x # s) = (if special_char x then [CHR 0x5C, x] else [x]) @ escape_like_pattern s"
  "escape_like_pattern [] = []"
  by (simp_all add: escape_like_once)

lemma escape_append: "escape_like_pattern (a @ b) = escape_like_pattern a @ escape_like_pattern b"
  by (simp add: escape_like_once)

definition escape_chars :: "string list \<Rightarrow> string list" where
  "escape_chars cs = concat (map (\<lambda>c. if c = [CHR 0x5C] \<or> c = ''%'' \<or> c = ''_'' then [[CHR 0x5C], c] else [c]) cs)"

text \<open>A character that is not ASCII has no ASCII byte, so escaping leaves it alone.\<close>

lemma multibyte_bytes:
  assumes "1 < seq_len s" and "c \<in> set (take (seq_len s) s)"
  shows "128 \<le> byte c"
proof -
  have pos: "0 < seq_len s" using assms(1) by simp
  obtain k where k: "k < seq_len s" "c = s ! k"
    using assms(2) seq_len_shape(1) [OF pos] by (auto simp: in_set_conv_nth)
  show ?thesis
  proof (cases k)
    case 0
    have "s \<noteq> []" using assms(1) by auto
    then have "\<not> byte (hd s) < 128" using seq_len_ascii [of s] assms(1) by auto
    then show ?thesis using 0 k \<open>s \<noteq> []\<close> by (simp add: hd_conv_nth)
  next
    case (Suc j)
    then show ?thesis using seq_len_shape(4) [OF pos, of k] k by (auto simp: is_cont_def)
  qed
qed

lemma escape_high: "\<forall>c\<in>set s. 128 \<le> byte c \<Longrightarrow> escape_like_pattern s = s"
  by (induction s) (auto simp: special_char_def)

lemma chars_escape:
  "valid_utf8 s \<Longrightarrow> chars (escape_like_pattern s @ r) = escape_chars (chars s) @ chars r"
proof (induction s rule: valid_utf8.induct)
  case (1 s)
  show ?case
  proof (cases "s = []")
    case True
    then show ?thesis by (simp add: escape_chars_def)
  next
    case False
    define n where "n = seq_len s"
    have n: "0 < n" "valid_utf8 (drop n s)"
      using valid_utf8_step [OF "1.prems" False] by (auto simp: n_def)
    have le: "n \<le> length s" using seq_len_shape(1) [of s] n(1) by (simp add: n_def)
    have cs: "chars s = take n s # chars (drop n s)" using chars_step [of s] n(1) by (simp add: n_def)
    have IH: "chars (escape_like_pattern (drop n s) @ r) = escape_chars (chars (drop n s)) @ chars r"
      using "1.IH" n False by (simp add: n_def)
    have split: "escape_like_pattern s = escape_like_pattern (take n s) @ escape_like_pattern (drop n s)"
      by (simp flip: escape_append)
    show ?thesis
    proof (cases "n = 1")
      case True
      obtain a t where s: "s = a # t" using False by (cases s) auto
      have "byte a < 128" using seq_len_one_ascii [of s] True s by (simp add: n_def)
      then show ?thesis
        using IH True unfolding s cs [unfolded s]
        by (simp add: chars_Cons_ascii escape_chars_def special_char_def)
    next
      case False
      then have hi: "\<forall>c\<in>set (take n s). 128 \<le> byte c" using multibyte_bytes [of s] n(1) by (simp add: n_def)
      then have esc: "escape_like_pattern (take n s) = take n s" by (rule escape_high)
      have sl: "seq_len (take n s @ x) = n" for x
        using seq_len_append [of "take n s" x] seq_len_take [of s n] n(1) by (simp add: n_def)
      have "chars (take n s @ x) = take n s # chars x" for x
        using chars_step [of "take n s @ x"] sl [of x] n(1) le by simp
      moreover have "take n s \<noteq> [CHR 0x5C]" "take n s \<noteq> ''%''" "take n s \<noteq> ''_''"
        using hi by auto
      ultimately show ?thesis
        using IH cs unfolding split esc by (simp add: escape_chars_def)
    qed
  qed
qed

lemma like_all: "like esc [''%''] t" if "esc \<noteq> Some ''%''"
  by (induction t) (simp_all add: like.simps that)

lemma like_escape_prefix:
  "like (Some [CHR 0x5C]) (escape_chars ps @ [''%'']) t \<longleftrightarrow>
     length ps \<le> length t \<and> list_all2 ci_eq ps (take (length ps) t)"
proof (induction ps arbitrary: t)
  case Nil
  then show ?case by (simp add: escape_chars_def like_all)
next
  case (Cons p ps)
  have "like (Some [CHR 0x5C]) (escape_chars (p # ps) @ [''%'']) t \<longleftrightarrow>
      (\<exists>c cs. t = c # cs \<and> ci_eq p c \<and> like (Some [CHR 0x5C]) (escape_chars ps @ [''%'']) cs)"
    by (cases t) (auto simp: escape_chars_def like.simps)
  then show ?case using Cons by (cases t) auto
qed

subsection \<open>Case folding keeps the characters\<close>

lemma ascii_lower_byte:
  "byte (ascii_lower_char c) < 128 \<longleftrightarrow> byte c < 128"
  "128 \<le> byte c \<Longrightarrow> ascii_lower_char c = c"
  by (auto simp: ascii_lower_char_def is_ascii_upper_def)

lemma lead_len_lower: "lead_len (ascii_lower_char a) = lead_len a"
  using ascii_lower_byte [of a] by (cases "byte a < 128") (auto simp: lead_len_def)

lemma is_cont_lower: "is_cont (ascii_lower_char a) = is_cont a"
  using ascii_lower_byte [of a] by (cases "byte a < 128") (auto simp: is_cont_def)

lemma second_ok_lower: "is_cont b \<Longrightarrow> 128 \<le> byte a \<Longrightarrow> second_ok (ascii_lower_char a) (ascii_lower_char b) = second_ok a b"
  using ascii_lower_byte [of a] ascii_lower_byte [of b] by (auto simp: is_cont_def)

lemma list_all_cont_lower: "list_all is_cont (take n (ascii_lower r)) = list_all is_cont (take n r)"
  by (simp add: take_map list.pred_map o_def is_cont_lower)

lemma seq_len_lower: "seq_len (ascii_lower s) = seq_len s"
proof (cases s)
  case (Cons a r)
  let ?n = "lead_len a"
  have "second_ok (ascii_lower_char a) (hd (ascii_lower r)) = second_ok a (hd r)"
    if n: "1 < ?n" "?n \<le> Suc (length r)" "list_all is_cont (take (?n - 1) r)"
  proof -
    obtain b q where r: "r = b # q" using n(1,2) by (cases r) auto
    have "is_cont b" using n(1,3) r by (cases "?n - 1") auto
    moreover have "128 \<le> byte a" using n(1) by (auto simp: lead_len_def split: if_splits)
    ultimately show ?thesis using second_ok_lower r by simp
  qed
  then show ?thesis
    unfolding Cons list.map seq_len.simps Let_def lead_len_lower list_all_cont_lower by auto
qed simp

lemma chars_lower: "chars (ascii_lower s) = map (map ascii_lower_char) (chars s)"
proof (induction s rule: chars.induct)
  case (1 s)
  show ?case
  proof (cases "s = []")
    case False
    let ?n = "max 1 (seq_len s)"
    have "chars (ascii_lower s) = take ?n (ascii_lower s) # chars (drop ?n (ascii_lower s))"
      using False by (subst chars.simps) (simp add: seq_len_lower)
    also have "\<dots> = ascii_lower (take ?n s) # chars (ascii_lower (drop ?n s))"
      by (simp add: take_map drop_map)
    also have "\<dots> = ascii_lower (take ?n s) # map (map ascii_lower_char) (chars (drop ?n s))"
      using "1.IH" False by simp
    also have "\<dots> = map (map ascii_lower_char) (chars s)"
      using False by (subst (2) chars.simps) simp
    finally show ?thesis .
  qed simp
qed

lemma valid_lower: "valid_utf8 s \<Longrightarrow> valid_utf8 (ascii_lower s)"
proof (induction s rule: valid_utf8.induct)
  case (1 s)
  show ?case
  proof (cases "s = []")
    case False
    have n: "0 < seq_len s" "valid_utf8 (drop (seq_len s) s)"
      using valid_utf8_step [OF "1.prems" False] by auto
    then have "valid_utf8 (ascii_lower (drop (seq_len s) s))" using "1.IH" False by simp
    then show ?thesis
      using valid_utf8_stepI [of "ascii_lower s"] n(1) by (simp add: seq_len_lower drop_map)
  qed simp
qed

definition ci_prefix :: "string \<Rightarrow> string \<Rightarrow> bool" where
  "ci_prefix p s \<longleftrightarrow> starts_with (ascii_lower p) (ascii_lower s)"

text \<open>
  An escaped pattern followed by \<open>%\<close> matches exactly the texts it is a prefix of, up to the
  case of ASCII letters.
\<close>

lemma like_escaped_prefix:
  assumes "valid_utf8 p"
  shows "sql_like_escape (escape_like_pattern p @ ''%'') s \<longleftrightarrow> ci_prefix p s"
proof -
  let ?ps = "chars p" and ?ss = "chars s"
  have "sql_like_escape (escape_like_pattern p @ ''%'') s \<longleftrightarrow>
      length ?ps \<le> length ?ss \<and> list_all2 ci_eq ?ps (take (length ?ps) ?ss)"
    unfolding sql_like_escape_def
    by (simp add: chars_escape [OF assms] chars_Cons_ascii like_escape_prefix)
  also have "\<dots> \<longleftrightarrow> map ascii_lower ?ps = take (length ?ps) (map ascii_lower ?ss)"
    by (auto simp: list_all2_conv_all_nth ci_eq_def list_eq_iff_nth_eq)
  also have "\<dots> \<longleftrightarrow> chars (ascii_lower p) = take (length ?ps) (chars (ascii_lower s))"
    by (simp add: chars_lower)
  also have "\<dots> \<longleftrightarrow> ci_prefix p s"
  proof
    assume eq: "chars (ascii_lower p) = take (length ?ps) (chars (ascii_lower s))"
    have "ascii_lower s = concat (take (length ?ps) (chars (ascii_lower s))) @
        concat (drop (length ?ps) (chars (ascii_lower s)))"
      by (metis append_take_drop_id concat_append concat_chars)
    then have "ascii_lower s = ascii_lower p @ concat (drop (length ?ps) (chars (ascii_lower s)))"
      using eq concat_chars [of "ascii_lower p"] by metis
    then show "ci_prefix p s" unfolding ci_prefix_def starts_with_append by blast
  next
    assume "ci_prefix p s"
    then obtain r where "ascii_lower s = ascii_lower p @ r"
      unfolding ci_prefix_def starts_with_append by blast
    then have "chars (ascii_lower s) = chars (ascii_lower p) @ chars r"
      using chars_append [OF valid_lower [OF assms]] by simp
    then show "chars (ascii_lower p) = take (length ?ps) (chars (ascii_lower s))"
      by (simp add: chars_lower)
  qed
  finally show ?thesis .
qed

end
