(* ===== verification/Db.thy ===== *)
theory Db
  imports Sql
begin

text \<open>
  The SQLite layer, \<open>crates/rqmd-core/src/db.rs\<close>: the tables as lists of rows in row-id
  order, one definition per function. A statement that SQLite would reject (a foreign key,
  a unique key) is an error that leaves the database as it was. The JSON of lists of
  strings and the SHA-256 digest are not under src/: they are the parameters \<open>codec\<close> and
  \<open>sha\<close> of the functions that use them.
\<close>

datatype db_error = ForeignKey | UniqueVid | NullVid | NameTaken string

subsection \<open>Schema\<close>

record content_row =
  ct_hash :: string
  ct_doc :: string
  ct_created :: string

record doc_row =
  d_id :: int
  d_collection :: string
  d_path :: string
  d_title :: string
  d_hash :: string
  d_created :: string
  d_modified :: string
  d_active :: bool
  d_raw :: string
  d_size :: "int option"
  d_mtime_ns :: "int option"
  d_prev_hash :: "string option"

record vec_row =
  v_hash :: string
  v_seq :: int
  v_pos :: int
  v_model :: string
  v_fingerprint :: string
  v_total_chunks :: int
  v_embedded_at :: string
  v_vid :: "int option"
  v_chunk_hash :: "string option"
  v_key :: "string option"

record coll_row =
  k_name :: string
  k_path :: string
  k_pattern :: string
  k_ignore :: "string option"
  k_include :: int
  k_update :: "string option"
  k_allow_hidden :: int
  k_respect_gitignore :: int
  k_max_file_bytes :: "int option"
  k_embed_ignore :: "string option"
  k_embed_max_bytes :: "int option"

record db =
  contents :: "content_row list"
  documents :: "doc_row list"
  vectors :: "vec_row list"
  collections :: "coll_row list"
  config :: "(string \<times> string) list"
  last_doc_id :: int

definition empty_db :: db where
  "empty_db = \<lparr>contents = [], documents = [], vectors = [], collections = [], config = [], last_doc_id = 0\<rparr>"

record codec =
  enc_strings :: "string list \<Rightarrow> string"
  dec_strings :: "string \<Rightarrow> string list option"

definition to_document :: "doc_row \<Rightarrow> document" where
  "to_document r =
     \<lparr>doc_id = d_id r, doc_collection = d_collection r, doc_path = d_path r, doc_title = d_title r,
      doc_hash = d_hash r, doc_active = d_active r\<rparr>"

abbreviation doc_key :: "doc_row \<Rightarrow> string \<times> string" where
  "doc_key r \<equiv> (d_collection r, d_path r)"

abbreviation vec_key :: "vec_row \<Rightarrow> string \<times> int" where
  "vec_key r \<equiv> (v_hash r, v_seq r)"

subsection \<open>Content\<close>

definition content_hash :: "(string \<Rightarrow> string) \<Rightarrow> string \<Rightarrow> string" where
  "content_hash sha txt = sha txt"

definition docid_from_hash :: "string \<Rightarrow> string option" where
  "docid_from_hash h = str_slice h 0 (min 6 (length h))"

definition upsert_content :: "string \<Rightarrow> string \<Rightarrow> string \<Rightarrow> db \<Rightarrow> db" where
  "upsert_content hash doc now db =
     db\<lparr>contents := tab_upsert ct_hash hash \<lparr>ct_hash = hash, ct_doc = doc, ct_created = now\<rparr>
         (\<lambda>r. r\<lparr>ct_doc := doc\<rparr>) (contents db)\<rparr>"

definition get_content :: "string \<Rightarrow> db \<Rightarrow> string option" where
  "get_content hash db = map_option ct_doc (tab_find ct_hash hash (contents db))"

subsection \<open>Documents\<close>

definition hash_has_any_vector :: "db \<Rightarrow> string \<Rightarrow> bool" where
  "hash_has_any_vector db hash = list_ex (\<lambda>v. v_hash v = hash) (vectors db)"

text \<open>SQLite's \<open>length\<close> of a text counts the characters before its first NUL.\<close>

definition sql_length :: "string \<Rightarrow> nat" where
  "sql_length s = length (chars (takeWhile (\<lambda>c. c \<noteq> CHR 0x00) s))"

definition content_empty :: "db \<Rightarrow> string \<Rightarrow> bool" where
  "content_empty db hash = (case get_content hash db of None \<Rightarrow> True | Some doc \<Rightarrow> doc = [])"

text \<open>The \<open>CASE\<close> that decides the donor of a document whose hash changes.\<close>

definition next_prev_hash :: "db \<Rightarrow> string \<Rightarrow> doc_row \<Rightarrow> string option" where
  "next_prev_hash db hash r =
     (if d_hash r = hash then d_prev_hash r
      else if hash_has_any_vector db hash
           \<or> (case get_content hash db of None \<Rightarrow> 0 | Some doc \<Rightarrow> sql_length doc) = 0 then None
      else if hash_has_any_vector db (d_hash r) then Some (d_hash r)
      else d_prev_hash r)"

text \<open>A new row gets an id above every id the table ever held (AUTOINCREMENT).\<close>

definition new_doc_row :: "string \<Rightarrow> string \<Rightarrow> string \<Rightarrow> string \<Rightarrow> string \<Rightarrow> int \<Rightarrow> doc_row" where
  "new_doc_row coll path title hash now rid =
     \<lparr>d_id = rid, d_collection = coll, d_path = path, d_title = title, d_hash = hash, d_created = now,
      d_modified = now, d_active = True, d_raw = [], d_size = None, d_mtime_ns = None, d_prev_hash = None\<rparr>"

definition updated_doc_row :: "db \<Rightarrow> string \<Rightarrow> string \<Rightarrow> string \<Rightarrow> doc_row \<Rightarrow> doc_row" where
  "updated_doc_row db title hash now r =
     r\<lparr>d_title := title, d_prev_hash := next_prev_hash db hash r, d_hash := hash, d_modified := now, d_active := True\<rparr>"

definition upsert_document ::
  "string \<Rightarrow> string \<Rightarrow> string \<Rightarrow> string \<Rightarrow> string \<Rightarrow> db \<Rightarrow> db_error + (db \<times> int)" where
  "upsert_document coll path title hash now db =
     (if get_content hash db = None then Inl ForeignKey
      else
        (let rid = (case tab_find doc_key (coll, path) (documents db) of
                      Some r \<Rightarrow> d_id r | None \<Rightarrow> last_doc_id db + 1)
         in Inr (db\<lparr>documents := tab_upsert doc_key (coll, path) (new_doc_row coll path title hash now rid)
                      (updated_doc_row db title hash now) (documents db),
                    last_doc_id := max rid (last_doc_id db)\<rparr>, rid)))"

definition update_docs :: "(doc_row \<Rightarrow> bool) \<Rightarrow> (doc_row \<Rightarrow> doc_row) \<Rightarrow> db \<Rightarrow> db" where
  "update_docs p f db = db\<lparr>documents := map (\<lambda>r. if p r then f r else r) (documents db)\<rparr>"

definition clear_prev_hash :: "string \<Rightarrow> db \<Rightarrow> db \<times> nat" where
  "clear_prev_hash hash db =
     (let p = (\<lambda>r. d_hash r = hash \<and> d_prev_hash r \<noteq> None)
      in (update_docs p (\<lambda>r. r\<lparr>d_prev_hash := None\<rparr>) db, length (filter p (documents db))))"

text \<open>The cache as a map; the later row wins, but the key is unique.\<close>

definition load_doc_stat_cache :: "string \<Rightarrow> db \<Rightarrow> string \<Rightarrow> (int \<times> int) option" where
  "load_doc_stat_cache coll db path =
     (case filter (\<lambda>r. d_collection r = coll \<and> d_active r \<and> d_path r = path
                      \<and> d_size r \<noteq> None \<and> d_mtime_ns r \<noteq> None) (documents db) of
        [] \<Rightarrow> None
      | rs \<Rightarrow> Some (the (d_size (last rs)), the (d_mtime_ns (last rs))))"

definition document_mtime_ns :: "string \<Rightarrow> string \<Rightarrow> db \<Rightarrow> int option" where
  "document_mtime_ns coll path db =
     (case find (\<lambda>r. d_collection r = coll \<and> d_path r = path \<and> d_active r) (documents db) of
        None \<Rightarrow> None | Some r \<Rightarrow> d_mtime_ns r)"

definition set_document_stat :: "string \<Rightarrow> string \<Rightarrow> (int \<times> int) option \<Rightarrow> db \<Rightarrow> db" where
  "set_document_stat coll path stat =
     update_docs (\<lambda>r. doc_key r = (coll, path))
       (\<lambda>r. r\<lparr>d_size := map_option fst stat, d_mtime_ns := map_option snd stat\<rparr>)"

definition set_document_raw :: "int \<Rightarrow> string \<Rightarrow> db \<Rightarrow> db" where
  "set_document_raw rid raw = update_docs (\<lambda>r. d_id r = rid) (\<lambda>r. r\<lparr>d_raw := raw\<rparr>)"

definition get_document_raw :: "int \<Rightarrow> db \<Rightarrow> string option" where
  "get_document_raw rid db = map_option d_raw (tab_find d_id rid (documents db))"

definition get_document_by_filepath :: "string \<Rightarrow> string \<Rightarrow> db \<Rightarrow> document option" where
  "get_document_by_filepath coll path db = map_option to_document (tab_find doc_key (coll, path) (documents db))"

definition get_active_document_by_filepath :: "string \<Rightarrow> string \<Rightarrow> db \<Rightarrow> document option" where
  "get_active_document_by_filepath coll path db =
     (case get_document_by_filepath coll path db of
        Some d \<Rightarrow> if doc_active d then Some d else None | None \<Rightarrow> None)"

definition get_document_by_id :: "int \<Rightarrow> db \<Rightarrow> document option" where
  "get_document_by_id rid db = map_option to_document (tab_find d_id rid (documents db))"

text \<open>\<open>ORDER BY collection, path\<close>: text columns compare by bytes.\<close>

definition doc_le :: "doc_row \<Rightarrow> doc_row \<Rightarrow> bool" where
  "doc_le a b \<longleftrightarrow> doc_key a \<le> doc_key b"

definition get_document_by_docid_prefix :: "string \<Rightarrow> db \<Rightarrow> document option" where
  "get_document_by_docid_prefix docid db =
     (if docid = [] then None
      else
        (let pattern = escape_like_pattern docid @ ''%'';
             rows = sort_by doc_le (filter (\<lambda>r. sql_like_escape pattern (d_hash r) \<and> d_active r) (documents db))
         in case rows of [] \<Rightarrow> None | r # _ \<Rightarrow> Some (to_document r)))"

definition in_collections :: "string list option \<Rightarrow> string \<Rightarrow> bool" where
  "in_collections cols c = (case cols of None \<Rightarrow> True | Some cs \<Rightarrow> cs = [] \<or> c \<in> set cs)"

definition list_documents_multi :: "string list option \<Rightarrow> db \<Rightarrow> document list" where
  "list_documents_multi cols db =
     map to_document (sort_by doc_le (filter (\<lambda>r. in_collections cols (d_collection r) \<and> d_active r) (documents db)))"

definition list_documents :: "string option \<Rightarrow> db \<Rightarrow> document list" where
  "list_documents coll = list_documents_multi (map_option (\<lambda>c. [c]) coll)"

definition NEEDLE_BATCH :: nat where "NEEDLE_BATCH = 250"

text \<open>\<open>NEEDLE_CLAUSE\<close>\<close>

definition full_path :: "string \<Rightarrow> string \<Rightarrow> string" where
  "full_path coll path = coll @ ''/'' @ path"

definition needle_matches :: "string \<Rightarrow> doc_row \<Rightarrow> bool" where
  "needle_matches needle r \<longleftrightarrow>
     d_path r = needle
     \<or> full_path (d_collection r) (d_path r) = needle
     \<or> sql_like_escape (''%/'' @ escape_like_pattern needle) (d_path r)
     \<or> sql_like_escape (''%/'' @ escape_like_pattern needle) (full_path (d_collection r) (d_path r))"

definition find_documents_by_needle_batch :: "string list option \<Rightarrow> string list \<Rightarrow> db \<Rightarrow> document list" where
  "find_documents_by_needle_batch cols needles db =
     map to_document (sort_by doc_le
       (filter (\<lambda>r. d_active r \<and> list_ex (\<lambda>n. needle_matches n r) needles \<and> in_collections cols (d_collection r))
         (documents db)))"

text \<open>\<open>dedup_by_key\<close> drops an element equal to the one kept before it.\<close>

fun dedup_adjacent :: "('a \<Rightarrow> 'k) \<Rightarrow> 'a list \<Rightarrow> 'a list" where
  "dedup_adjacent key (x # y # xs) =
     (if key x = key y then dedup_adjacent key (x # xs) else x # dedup_adjacent key (y # xs))"
| "dedup_adjacent key xs = xs"

definition document_le :: "document \<Rightarrow> document \<Rightarrow> bool" where
  "document_le a b \<longleftrightarrow> (doc_collection a, doc_path a) \<le> (doc_collection b, doc_path b)"

definition find_documents_by_needles :: "string list option \<Rightarrow> string list \<Rightarrow> db \<Rightarrow> document list" where
  "find_documents_by_needles cols needles db =
     (case batches NEEDLE_BATCH needles of
        [] \<Rightarrow> []
      | first # rest \<Rightarrow>
          (let rows = find_documents_by_needle_batch cols first db in
           if rest = [] then rows
           else dedup_adjacent doc_id
             (sort_by document_le
               (rows @ concat (map (\<lambda>b. find_documents_by_needle_batch cols b db) rest)))))"

subsection \<open>Vectors\<close>

definition has_vector :: "db \<Rightarrow> string \<Rightarrow> int \<Rightarrow> string \<Rightarrow> bool" where
  "has_vector db hash seq fp =
     list_ex (\<lambda>v. v_hash v = hash \<and> v_seq v = seq \<and> v_fingerprint v = fp) (vectors db)"

definition hash_has_vector_with_fingerprint :: "db \<Rightarrow> string \<Rightarrow> string \<Rightarrow> bool" where
  "hash_has_vector_with_fingerprint db hash fp =
     list_ex (\<lambda>v. v_hash v = hash \<and> v_fingerprint v = fp) (vectors db)"

text \<open>\<open>Path::extension\<close>: of the last component, what follows its last dot, if the dot is not
  its first character.\<close>

definition file_name :: "string \<Rightarrow> string option" where
  "file_name path =
     (case rev (filter (\<lambda>c. c \<noteq> [] \<and> c \<noteq> ''.'') (split_on (CHR ''/'') path)) of
        [] \<Rightarrow> None | c # _ \<Rightarrow> if c = ''..'' then None else Some c)"

definition path_extension :: "string \<Rightarrow> string option" where
  "path_extension path =
     (case file_name path of None \<Rightarrow> None
      | Some f \<Rightarrow>
          (let e = rev (takeWhile (\<lambda>c. c \<noteq> CHR ''.'') (rev f)) in
           if length e < length f \<and> length e + 1 < length f then Some e else None))"

definition active_extension_counts :: "db \<Rightarrow> (string \<times> int) list" where
  "active_extension_counts db =
     (let exts = concat (map (\<lambda>r. case path_extension (d_path r) of Some e \<Rightarrow> [e] | None \<Rightarrow> [])
                  (filter d_active (documents db)));
          counts = fold (\<lambda>e. tab_upsert fst e (e, 1) (\<lambda>(k, n). (k, n + 1))) exts []
      in sort_by (\<lambda>a b. snd b < snd a \<or> (snd a = snd b \<and> fst a \<le> fst b)) counts)"

record ast_fingerprint =
  af_extensions :: "string list"
  af_fingerprint :: string

text \<open>\<open>d.path GLOB '*.ext'\<close>\<close>

definition path_has_extension :: "string list \<Rightarrow> string \<Rightarrow> bool" where
  "path_has_extension exts path = list_ex (\<lambda>e. ends_with (''.'' @ e) path) exts"

definition all_extensions :: "ast_fingerprint list \<Rightarrow> string list" where
  "all_extensions ast = concat (map af_extensions ast)"

definition not_excluded :: "int list option \<Rightarrow> doc_row \<Rightarrow> bool" where
  "not_excluded excl r = (case excl of None \<Rightarrow> True | Some ids \<Rightarrow> d_id r \<notin> set ids)"

text \<open>The flags of a group of documents: \<open>g i\<close> (MAX) and \<open>all_ast\<close> (MIN); on no row both are NULL,
  read as 0.\<close>

definition group_flag :: "ast_fingerprint \<Rightarrow> doc_row list \<Rightarrow> bool" where
  "group_flag g rows = list_ex (\<lambda>r. path_has_extension (af_extensions g) (d_path r)) rows"

definition all_ast_flag :: "ast_fingerprint list \<Rightarrow> doc_row list \<Rightarrow> bool" where
  "all_ast_flag ast rows = (rows \<noteq> [] \<and> list_all (\<lambda>r. path_has_extension (all_extensions ast) (d_path r)) rows)"

definition routes_satisfied :: "db \<Rightarrow> string \<Rightarrow> ast_fingerprint list \<Rightarrow> doc_row list \<Rightarrow> string \<Rightarrow> bool" where
  "routes_satisfied db base ast rows hash =
     (list_ex (\<lambda>g. group_flag g rows \<and> hash_has_vector_with_fingerprint db hash (af_fingerprint g)) ast
      \<or> (\<not> all_ast_flag ast rows \<and> hash_has_vector_with_fingerprint db hash base))"

definition count_pending_hashes :: "db \<Rightarrow> string \<Rightarrow> ast_fingerprint list \<Rightarrow> int list option \<Rightarrow> int" where
  "count_pending_hashes db base ast excl =
     (let rows = filter (\<lambda>r. d_active r \<and> \<not> content_empty db (d_hash r) \<and> not_excluded excl r) (documents db);
          hashes = remdups (map d_hash rows)
      in if ast = [] then
           int (length (filter (\<lambda>h. \<not> hash_has_vector_with_fingerprint db h base) hashes))
         else
           int (length (filter (\<lambda>h. \<not> routes_satisfied db base ast (filter (\<lambda>r. d_hash r = h) rows) h) hashes)))"

definition count_docs_needing_embed :: "db \<Rightarrow> string \<Rightarrow> ast_fingerprint list \<Rightarrow> int" where
  "count_docs_needing_embed db base ast = count_pending_hashes db base ast None"

definition count_docs_needing_embed_excluding ::
  "db \<Rightarrow> string \<Rightarrow> ast_fingerprint list \<Rightarrow> int list \<Rightarrow> int" where
  "count_docs_needing_embed_excluding db base ast excluded =
     (if excluded = [] then count_docs_needing_embed db base ast
      else count_pending_hashes db base ast (Some excluded))"

definition hash_needs_embed_inner :: "db \<Rightarrow> string \<Rightarrow> string \<Rightarrow> ast_fingerprint list \<Rightarrow> int list option \<Rightarrow> bool" where
  "hash_needs_embed_inner db hash base ast excl =
     (if ast = [] then \<not> hash_has_vector_with_fingerprint db hash base
      else
        (let rows = filter (\<lambda>r. d_hash r = hash \<and> d_active r \<and> not_excluded excl r) (documents db)
         in \<not> routes_satisfied db base ast rows hash))"

definition hash_needs_embed :: "db \<Rightarrow> string \<Rightarrow> string \<Rightarrow> ast_fingerprint list \<Rightarrow> bool" where
  "hash_needs_embed db hash base ast = hash_needs_embed_inner db hash base ast None"

definition hash_needs_embed_excluding :: "db \<Rightarrow> string \<Rightarrow> string \<Rightarrow> ast_fingerprint list \<Rightarrow> int list \<Rightarrow> bool" where
  "hash_needs_embed_excluding db hash base ast excluded =
     (if excluded = [] then hash_needs_embed db hash base ast
      else hash_needs_embed_inner db hash base ast (Some excluded))"

definition PATH_BATCH :: nat where "PATH_BATCH = 500"

definition hashes_for_paths :: "string \<Rightarrow> string list \<Rightarrow> db \<Rightarrow> string list" where
  "hashes_for_paths coll paths db =
     remdups (concat (map (\<lambda>chunk. remdups (map d_hash
       (filter (\<lambda>r. d_collection r = coll \<and> d_path r \<in> set chunk) (documents db)))) (batches PATH_BATCH paths)))"

definition hash_referenced_by_active_document :: "db \<Rightarrow> string \<Rightarrow> bool" where
  "hash_referenced_by_active_document db hash = list_ex (\<lambda>r. d_hash r = hash \<and> d_active r) (documents db)"

definition delete_vectors :: "(vec_row \<Rightarrow> bool) \<Rightarrow> db \<Rightarrow> db \<times> nat" where
  "delete_vectors p db =
     (db\<lparr>vectors := tab_delete p (vectors db)\<rparr>, length (filter p (vectors db)))"

definition delete_vectors_for_hash :: "string \<Rightarrow> db \<Rightarrow> db \<times> nat" where
  "delete_vectors_for_hash hash = delete_vectors (\<lambda>v. v_hash v = hash)"

definition max_vector_vid :: "db \<Rightarrow> nat option" where
  "max_vector_vid db =
     (let vids = concat (map (\<lambda>v. case v_vid v of Some i \<Rightarrow> [i] | None \<Rightarrow> []) (vectors db))
      in if vids = [] then None else Some (as_u64 (fold max (tl vids) (hd vids))))"

definition clear_all_vectors :: "db \<Rightarrow> db \<times> nat" where
  "clear_all_vectors = delete_vectors (\<lambda>_. True)"

text \<open>\<open>GROUP BY embed_fingerprint ORDER BY COUNT( * ) DESC\<close> over the rows that satisfy \<open>p\<close>; SQLite
  groups by sorting, so equal counts come in the order of the fingerprint.\<close>

definition breakdown :: "(vec_row \<Rightarrow> bool) \<Rightarrow> db \<Rightarrow> (string \<times> int) list" where
  "breakdown p db =
     (let rows = filter (\<lambda>v. v_fingerprint v \<noteq> [] \<and> p v) (vectors db);
          fps = sort_by (\<le>) (remdups (map v_fingerprint rows))
      in sort_by (\<lambda>a b. snd b \<le> snd a)
           (map (\<lambda>f. (f, int (length (filter (\<lambda>v. v_fingerprint v = f) rows)))) fps))"

definition fingerprint_breakdown :: "db \<Rightarrow> (string \<times> int) list" where
  "fingerprint_breakdown = breakdown (\<lambda>_. True)"

definition fingerprint_breakdown_active :: "db \<Rightarrow> (string \<times> int) list" where
  "fingerprint_breakdown_active db = breakdown (\<lambda>v. hash_referenced_by_active_document db (v_hash v)) db"

definition new_vec_row :: "string \<Rightarrow> int \<Rightarrow> int \<Rightarrow> string \<Rightarrow> string \<Rightarrow> int \<Rightarrow> nat \<Rightarrow> string \<Rightarrow> vec_row" where
  "new_vec_row hash seq pos model fp tot vid now =
     \<lparr>v_hash = hash, v_seq = seq, v_pos = pos, v_model = model, v_fingerprint = fp, v_total_chunks = tot,
      v_embedded_at = now, v_vid = Some (as_i64 vid), v_chunk_hash = None, v_key = None\<rparr>"

definition updated_vec_row :: "int \<Rightarrow> string \<Rightarrow> string \<Rightarrow> int \<Rightarrow> nat \<Rightarrow> string \<Rightarrow> vec_row \<Rightarrow> vec_row" where
  "updated_vec_row pos model fp tot vid now v =
     v\<lparr>v_pos := pos, v_model := model, v_fingerprint := fp, v_total_chunks := tot, v_embedded_at := now,
       v_vid := Some (as_i64 vid)\<rparr>"

definition upsert_vector_meta ::
  "string \<Rightarrow> int \<Rightarrow> int \<Rightarrow> string \<Rightarrow> string \<Rightarrow> int \<Rightarrow> nat \<Rightarrow> string \<Rightarrow> db \<Rightarrow> db_error + db" where
  "upsert_vector_meta hash seq pos model fp tot vid now db =
     (if list_ex (\<lambda>v. v_vid v = Some (as_i64 vid) \<and> vec_key v \<noteq> (hash, seq)) (vectors db) then Inl UniqueVid
      else Inr (db\<lparr>vectors := tab_upsert vec_key (hash, seq) (new_vec_row hash seq pos model fp tot vid now)
                  (updated_vec_row pos model fp tot vid now) (vectors db)\<rparr>))"

definition set_vector_identity :: "string \<Rightarrow> int \<Rightarrow> string \<Rightarrow> string \<Rightarrow> db \<Rightarrow> db" where
  "set_vector_identity hash seq chash key db =
     db\<lparr>vectors := map (\<lambda>v. if vec_key v = (hash, seq) then v\<lparr>v_chunk_hash := Some chash, v_key := Some key\<rparr> else v)
          (vectors db)\<rparr>"

definition reusable_vid :: "db \<Rightarrow> string \<Rightarrow> string \<Rightarrow> int option" where
  "reusable_vid db model key =
     (let vids = concat (map (\<lambda>v. case v_vid v of Some i \<Rightarrow> [i] | None \<Rightarrow> [])
                  (filter (\<lambda>v. v_key v = Some key \<and> v_model v = model) (vectors db)))
      in if vids = [] then None else Some (fold min (tl vids) (hd vids)))"

definition reusable_vector_vids :: "string list \<Rightarrow> string \<Rightarrow> db \<Rightarrow> string \<Rightarrow> nat option" where
  "reusable_vector_vids keys model db key =
     (if key \<in> set keys then map_option as_u64 (reusable_vid db model key) else None)"

definition needs_key :: "string \<Rightarrow> string list \<Rightarrow> vec_row \<Rightarrow> bool" where
  "needs_key model fps v \<longleftrightarrow>
     v_key v = None \<and> v_chunk_hash v \<noteq> None \<and> v_model v = model \<and> v_fingerprint v \<in> set fps"

definition backfill_vector_keys :: "string \<Rightarrow> string list \<Rightarrow> (string \<Rightarrow> string) \<Rightarrow> db \<Rightarrow> db \<times> nat" where
  "backfill_vector_keys model fps key_for db =
     fold (\<lambda>r (db, filled).
         (db\<lparr>vectors := map (\<lambda>v. if vec_key v = vec_key r then v\<lparr>v_key := Some (key_for (the (v_chunk_hash r)))\<rparr> else v) (vectors db)\<rparr>,
          filled + length (filter (\<lambda>v. vec_key v = vec_key r) (vectors db))))
       (filter (needs_key model fps) (vectors db)) (db, 0)"

text \<open>The join of a vector with the active documents of its hash, in \<open>ORDER BY collection, path\<close>.\<close>

definition vid_candidates :: "db \<Rightarrow> nat \<Rightarrow> string list option \<Rightarrow> (doc_row \<times> vec_row) list" where
  "vid_candidates db vid cols =
     sort_by (\<lambda>a b. doc_le (fst a) (fst b))
       (concat (map (\<lambda>v. map (\<lambda>r. (r, v))
           (filter (\<lambda>r. d_hash r = v_hash v \<and> d_active r \<and> in_collections cols (d_collection r)) (documents db)))
         (filter (\<lambda>v. v_vid v = Some (as_i64 vid)) (vectors db))))"

definition doc_chunk_for_vid_in :: "db \<Rightarrow> nat \<Rightarrow> string list option \<Rightarrow> (document \<times> nat) option" where
  "doc_chunk_for_vid_in db vid cols =
     (case vid_candidates db vid cols of [] \<Rightarrow> None
      | (r, v) # _ \<Rightarrow> Some (to_document r, nat (max (v_pos v) 0)))"

definition doc_for_vid_meta_in :: "db \<Rightarrow> nat \<Rightarrow> string list option \<Rightarrow> document option" where
  "doc_for_vid_meta_in db vid cols = map_option fst (doc_chunk_for_vid_in db vid cols)"

definition doc_for_vid_meta :: "db \<Rightarrow> nat \<Rightarrow> document option" where
  "doc_for_vid_meta db vid = map_option fst (doc_chunk_for_vid_in db vid None)"

text \<open>\<open>excluded coll path bytes\<close> is the rule set of \<open>embed_exclusion.rs\<close>; \<open>no_rules\<close> its \<open>is_empty\<close>.\<close>

definition doc_chunk_for_vid_in_excluding ::
  "db \<Rightarrow> nat \<Rightarrow> string list option \<Rightarrow> bool \<Rightarrow> (string \<Rightarrow> string \<Rightarrow> nat \<Rightarrow> bool) \<Rightarrow> (document \<times> nat) option" where
  "doc_chunk_for_vid_in_excluding db vid cols no_rules excluded =
     (if no_rules then doc_chunk_for_vid_in db vid cols
      else
        (case find (\<lambda>(r, v). \<not> excluded (d_collection r) (d_path r)
                (case get_content (v_hash v) db of Some doc \<Rightarrow> length doc | None \<Rightarrow> 0))
            (vid_candidates db vid cols) of
           None \<Rightarrow> None
         | Some (r, v) \<Rightarrow> Some (to_document r, nat (max (v_pos v) 0))))"

definition vids_for_hash :: "string \<Rightarrow> db \<Rightarrow> db_error + nat list" where
  "vids_for_hash hash db =
     rmap (\<lambda>v. case v_vid v of Some i \<Rightarrow> Inr (as_u64 i) | None \<Rightarrow> Inl NullVid)
       (sort_by (\<lambda>a b. v_seq a \<le> v_seq b) (filter (\<lambda>v. v_hash v = hash) (vectors db)))"

definition load_all_vid_mappings :: "db \<Rightarrow> (nat \<times> string \<times> int) list" where
  "load_all_vid_mappings db =
     map (\<lambda>v. (as_u64 (the (v_vid v)), v_hash v, v_seq v))
       (sort_by (\<lambda>a b. the (v_vid a) \<le> the (v_vid b)) (filter (\<lambda>v. v_vid v \<noteq> None) (vectors db)))"

subsection \<open>Collections\<close>

definition bool_int :: "bool \<Rightarrow> int" where
  "bool_int b = (if b then 1 else 0)"

definition embed_ignore_json :: "codec \<Rightarrow> string list \<Rightarrow> string option" where
  "embed_ignore_json j patterns = (if patterns = [] then None else Some (enc_strings j patterns))"

definition coll_update :: "codec \<Rightarrow> collection \<Rightarrow> coll_row \<Rightarrow> coll_row" where
  "coll_update j c r =
     r\<lparr>k_path := col_path c, k_pattern := col_pattern c, k_ignore := Some (enc_strings j (col_ignore c)),
       k_include := bool_int (col_include_by_default c), k_update := col_update_command c,
       k_allow_hidden := bool_int (col_allow_hidden c), k_respect_gitignore := bool_int (col_respect_gitignore c),
       k_max_file_bytes := map_option as_i64 (col_max_file_bytes c),
       k_embed_ignore := embed_ignore_json j (col_embed_ignore c),
       k_embed_max_bytes := map_option as_i64 (col_embed_max_bytes c)\<rparr>"

definition blank_coll :: "string \<Rightarrow> coll_row" where
  "blank_coll name = \<lparr>k_name = name, k_path = [], k_pattern = [], k_ignore = None, k_include = 1, k_update = None,
     k_allow_hidden = 0, k_respect_gitignore = 0, k_max_file_bytes = None, k_embed_ignore = None,
     k_embed_max_bytes = None\<rparr>"

definition upsert_collection :: "codec \<Rightarrow> collection \<Rightarrow> db \<Rightarrow> db" where
  "upsert_collection j c db =
     db\<lparr>collections := tab_upsert k_name (col_name c) (coll_update j c (blank_coll (col_name c)))
          (coll_update j c) (collections db)\<rparr>"

definition update_colls :: "string \<Rightarrow> (coll_row \<Rightarrow> coll_row) \<Rightarrow> db \<Rightarrow> db" where
  "update_colls name f db =
     db\<lparr>collections := map (\<lambda>r. if k_name r = name then f r else r) (collections db)\<rparr>"

definition set_collection_embed_rules ::
  "codec \<Rightarrow> string \<Rightarrow> string list \<Rightarrow> nat option \<Rightarrow> db \<Rightarrow> db \<times> bool" where
  "set_collection_embed_rules j name ign max_bytes db =
     (update_colls name (\<lambda>r. r\<lparr>k_embed_ignore := embed_ignore_json j ign,
                             k_embed_max_bytes := map_option as_i64 max_bytes\<rparr>) db,
      list_ex (\<lambda>r. k_name r = name) (collections db))"

text \<open>\<open>serde_json::from_str(..).unwrap_or_default()\<close>\<close>

definition dec_or_empty :: "codec \<Rightarrow> string option \<Rightarrow> string list" where
  "dec_or_empty j s =
     (case s of None \<Rightarrow> [] | Some t \<Rightarrow> (case dec_strings j t of None \<Rightarrow> [] | Some xs \<Rightarrow> xs))"

definition to_collection :: "codec \<Rightarrow> coll_row \<Rightarrow> collection" where
  "to_collection j r =
     \<lparr>col_name = k_name r, col_path = k_path r, col_pattern = k_pattern r,
      col_ignore = dec_or_empty j (k_ignore r), col_include_by_default = (k_include r \<noteq> 0),
      col_update_command = k_update r, col_allow_hidden = (k_allow_hidden r \<noteq> 0),
      col_respect_gitignore = (k_respect_gitignore r \<noteq> 0),
      col_max_file_bytes = Option.bind (k_max_file_bytes r) u64_try_from,
      col_embed_ignore = dec_or_empty j (k_embed_ignore r),
      col_embed_max_bytes = Option.bind (k_embed_max_bytes r) u64_try_from\<rparr>"

definition list_collections :: "codec \<Rightarrow> db \<Rightarrow> collection list" where
  "list_collections j db = map (to_collection j) (collections db)"

text \<open>\<open>MAX\<close> of the modification times, compared as text.\<close>

definition collection_doc_stats :: "string \<Rightarrow> db \<Rightarrow> int \<times> string option" where
  "collection_doc_stats coll db =
     (let rows = filter (\<lambda>r. d_collection r = coll \<and> d_active r) (documents db)
      in (int (length rows), max_by (\<le>) (map d_modified rows)))"

definition deactivate_missing_documents :: "string \<Rightarrow> string set \<Rightarrow> db \<Rightarrow> db \<times> string list" where
  "deactivate_missing_documents coll current db =
     (let existing = map d_path (filter (\<lambda>r. d_collection r = coll \<and> d_active r) (documents db));
          missing = filter (\<lambda>p. p \<notin> current) existing
      in (fold (\<lambda>chunk. update_docs (\<lambda>r. d_collection r = coll \<and> d_path r \<in> set chunk) (\<lambda>r. r\<lparr>d_active := False\<rparr>))
            (batches PATH_BATCH missing) db,
          missing))"

definition document_hashes :: "db \<Rightarrow> string set" where
  "document_hashes db = d_hash ` set (documents db)"

definition delete_unreferenced_content :: "db \<Rightarrow> db \<times> nat" where
  "delete_unreferenced_content db =
     (let p = (\<lambda>c. ct_hash c \<notin> document_hashes db)
      in (db\<lparr>contents := tab_delete p (contents db)\<rparr>, length (filter p (contents db))))"

definition collection_context_key :: "string \<Rightarrow> string" where
  "collection_context_key coll = ''context:rqmd://'' @ coll @ ''/''"

definition purge_collection :: "string \<Rightarrow> db \<Rightarrow> db \<times> string list" where
  "purge_collection name db =
     (let filepaths = map (\<lambda>r. full_path name (d_path r)) (filter (\<lambda>r. d_collection r = name) (documents db));
          db1 = db\<lparr>documents := tab_delete (\<lambda>r. d_collection r = name) (documents db)\<rparr>;
          db2 = fst (delete_vectors (\<lambda>v. v_hash v \<notin> document_hashes db1) db1);
          db3 = fst (delete_unreferenced_content db2);
          db4 = db3\<lparr>collections := tab_delete (\<lambda>k. k_name k = name) (collections db3)\<rparr>;
          db5 = db4\<lparr>config := tab_delete (\<lambda>kv. starts_with (collection_context_key name) (fst kv)) (config db4)\<rparr>
      in (db5, filepaths))"

definition not_shared :: "string \<Rightarrow> db \<Rightarrow> vec_row \<Rightarrow> bool" where
  "not_shared coll db v \<longleftrightarrow>
     list_ex (\<lambda>r. d_hash r = v_hash v \<and> d_collection r = coll \<and> d_active r) (documents db)
     \<and> \<not> list_ex (\<lambda>r. d_hash r = v_hash v \<and> d_collection r \<noteq> coll \<and> d_active r) (documents db)"

definition clear_vectors_for_collection :: "string \<Rightarrow> db \<Rightarrow> db \<times> nat" where
  "clear_vectors_for_collection coll db = delete_vectors (not_shared coll db) db"

definition rebuildable_vids_for_collection :: "string \<Rightarrow> db \<Rightarrow> nat list" where
  "rebuildable_vids_for_collection coll db =
     concat (map (\<lambda>v. case v_vid v of Some i \<Rightarrow> [as_u64 i] | None \<Rightarrow> [])
       (filter (not_shared coll db) (vectors db)))"

text \<open>A document still waits for its own vectors when its hash has none.\<close>

definition waiting_donor :: "db \<Rightarrow> (doc_row \<Rightarrow> bool) \<Rightarrow> string \<Rightarrow> bool" where
  "waiting_donor db p hash =
     list_ex (\<lambda>r. d_active r \<and> p r \<and> d_prev_hash r = Some hash \<and> \<not> hash_has_any_vector db (d_hash r)) (documents db)"

definition orphaned_hash :: "db \<Rightarrow> string \<Rightarrow> bool" where
  "orphaned_hash db hash \<longleftrightarrow>
     \<not> hash_referenced_by_active_document db hash \<and> \<not> waiting_donor db (\<lambda>_. True) hash"

definition count_orphaned_vectors :: "db \<Rightarrow> int" where
  "count_orphaned_vectors db = int (length (filter (\<lambda>v. orphaned_hash db (v_hash v)) (vectors db)))"

definition orphaned_vector_hashes :: "db \<Rightarrow> string list" where
  "orphaned_vector_hashes db = remdups (map v_hash (filter (\<lambda>v. orphaned_hash db (v_hash v)) (vectors db)))"

definition excluded_only_hash :: "int list \<Rightarrow> db \<Rightarrow> string \<Rightarrow> bool" where
  "excluded_only_hash excl db hash \<longleftrightarrow>
     list_ex (\<lambda>r. d_hash r = hash \<and> d_active r \<and> d_id r \<in> set excl) (documents db)
     \<and> \<not> list_ex (\<lambda>r. d_hash r = hash \<and> d_active r \<and> d_id r \<notin> set excl) (documents db)
     \<and> \<not> waiting_donor db (\<lambda>r. d_id r \<notin> set excl) hash"

definition count_excluded_only_vectors :: "db \<Rightarrow> int list \<Rightarrow> int" where
  "count_excluded_only_vectors db excl =
     (if excl = [] then 0
      else int (length (filter (\<lambda>v. excluded_only_hash excl db (v_hash v)) (vectors db))))"

definition excluded_only_vector_hashes :: "db \<Rightarrow> int list \<Rightarrow> string list" where
  "excluded_only_vector_hashes db excl =
     (if excl = [] then []
      else remdups (map v_hash (filter (\<lambda>v. excluded_only_hash excl db (v_hash v)) (vectors db))))"

text \<open>
  \<open>UPDATE OR REPLACE\<close> changes the matching rows one after the other; any other row that has
  the new key is deleted first, also one that was still to be changed.
\<close>

function rename_rows ::
  "string \<Rightarrow> string \<Rightarrow> (string \<times> string) list \<Rightarrow> (string \<times> string) list \<Rightarrow> (string \<times> string) list" where
  "rename_rows old_p new_p done rows =
     (case rows of [] \<Rightarrow> done
      | (k, v) # rest \<Rightarrow>
          (let k' = new_p @ drop (length old_p) k in
           if \<not> starts_with old_p k \<or> k' = k then rename_rows old_p new_p (done @ [(k, v)]) rest
           else rename_rows old_p new_p (tab_delete (\<lambda>kv. fst kv = k') done @ [(k', v)])
                  (tab_delete (\<lambda>kv. fst kv = k') rest)))"
  by pat_completeness auto
termination
  by (relation "measure (\<lambda>(a, b, d, rows). length rows)") (auto simp: tab_delete_def less_Suc_eq_le)

declare rename_rows.simps [simp del]

definition rename_prefix :: "string \<Rightarrow> string \<Rightarrow> (string \<times> string) list \<Rightarrow> (string \<times> string) list" where
  "rename_prefix old_p new_p rows = rename_rows old_p new_p [] rows"

definition rename_collection :: "string \<Rightarrow> string \<Rightarrow> db \<Rightarrow> db_error + db" where
  "rename_collection old new db =
     (if list_ex (\<lambda>k. k_name k = new) (collections db) \<or> list_ex (\<lambda>r. d_collection r = new) (documents db)
      then Inl (NameTaken new)
      else
        (let db1 = update_colls old (\<lambda>k. k\<lparr>k_name := new\<rparr>) db;
             db2 = update_docs (\<lambda>r. d_collection r = old) (\<lambda>r. r\<lparr>d_collection := new\<rparr>) db1
         in Inr (db2\<lparr>config := rename_prefix (collection_context_key old) (collection_context_key new) (config db2)\<rparr>)))"

definition active_filepaths :: "db \<Rightarrow> string set" where
  "active_filepaths db = (\<lambda>r. full_path (d_collection r) (d_path r)) ` {r \<in> set (documents db). d_active r}"

definition active_document_ids_in_collections :: "string list \<Rightarrow> db \<Rightarrow> int list" where
  "active_document_ids_in_collections cols db =
     (if cols = [] then []
      else map d_id (filter (\<lambda>r. d_active r \<and> d_collection r \<in> set cols) (documents db)))"

definition set_collection_include :: "string \<Rightarrow> bool \<Rightarrow> db \<Rightarrow> db" where
  "set_collection_include name inc = update_colls name (\<lambda>r. r\<lparr>k_include := bool_int inc\<rparr>)"

definition set_collection_update_cmd :: "string \<Rightarrow> string option \<Rightarrow> db \<Rightarrow> db" where
  "set_collection_update_cmd name cmd = update_colls name (\<lambda>r. r\<lparr>k_update := cmd\<rparr>)"

subsection \<open>Configuration\<close>

definition get_config :: "string \<Rightarrow> db \<Rightarrow> string option" where
  "get_config key db = map_option snd (tab_find fst key (config db))"

text \<open>\<open>INSERT OR REPLACE\<close> deletes the row with the key and adds the new one at the end.\<close>

definition set_config :: "string \<Rightarrow> string \<Rightarrow> db \<Rightarrow> db" where
  "set_config key val db = db\<lparr>config := tab_delete (\<lambda>kv. fst kv = key) (config db) @ [(key, val)]\<rparr>"

definition delete_config :: "string \<Rightarrow> db \<Rightarrow> db" where
  "delete_config key db = db\<lparr>config := tab_delete (\<lambda>kv. fst kv = key) (config db)\<rparr>"

definition NEXT_VID_CONFIG_KEY :: string where "NEXT_VID_CONFIG_KEY = ''next_vid''"

definition persisted_next_vid :: "db \<Rightarrow> nat" where
  "persisted_next_vid db =
     (case Option.bind (get_config NEXT_VID_CONFIG_KEY db) (parse_uint 64) of None \<Rightarrow> 0 | Some n \<Rightarrow> n)"

definition persist_next_vid_floor :: "nat \<Rightarrow> db \<Rightarrow> db" where
  "persist_next_vid_floor at_least db =
     (if persisted_next_vid db < at_least then set_config NEXT_VID_CONFIG_KEY (dec at_least) db else db)"

definition list_config_by_prefix :: "string \<Rightarrow> db \<Rightarrow> (string \<times> string) list" where
  "list_config_by_prefix pfx db =
     sort_by (\<lambda>a b. fst a \<le> fst b) (filter (\<lambda>kv. sql_like (pfx @ ''%'') (fst kv)) (config db))"

definition get_context_for_collection :: "string \<Rightarrow> db \<Rightarrow> string option" where
  "get_context_for_collection coll db =
     (case get_config (collection_context_key coll) db of Some v \<Rightarrow> Some v
      | None \<Rightarrow> get_config ''context:/'' db)"

text \<open>The walk over the ancestors, deepest first.\<close>

function context_walk :: "string \<Rightarrow> string list \<Rightarrow> db \<Rightarrow> string option" where
  "context_walk coll comps db =
     (if comps = [] then get_context_for_collection coll db
      else case get_config (''context:rqmd://'' @ coll @ ''/'' @ join ''/'' comps @ ''/'') db of
        Some v \<Rightarrow> Some v
      | None \<Rightarrow> context_walk coll (butlast comps) db)"
  by pat_completeness auto
termination
  by (relation "measure (\<lambda>(c, comps, db). length comps)") auto

declare context_walk.simps [simp del]

definition get_context_for_path :: "string \<Rightarrow> string \<Rightarrow> db \<Rightarrow> string option" where
  "get_context_for_path coll rel_path db =
     context_walk coll (butlast (split_on (CHR ''/'') rel_path)) db"

end
