(* ===== verification/DbInv.thy ===== *)
theory DbInv
  imports Db
begin

text \<open>
  The integrity of the database: keys are unique, every document's content exists, ids stay
  under the AUTOINCREMENT mark. Every statement of \<open>db.rs\<close> that writes keeps it, so it
  holds in every database the functions can produce.
\<close>

named_theorems db_simps \<open>what an update leaves alone\<close>

definition vids :: "vec_row list \<Rightarrow> int list" where
  "vids vs = concat (map (\<lambda>v. case v_vid v of Some i \<Rightarrow> [i] | None \<Rightarrow> []) vs)"

definition db_ok :: "db \<Rightarrow> bool" where
  "db_ok db \<longleftrightarrow>
     tab_unique ct_hash (contents db) \<and> tab_unique doc_key (documents db) \<and> tab_unique d_id (documents db)
     \<and> tab_unique vec_key (vectors db) \<and> distinct (vids (vectors db))
     \<and> tab_unique k_name (collections db) \<and> tab_unique fst (config db)
     \<and> d_hash ` set (documents db) \<subseteq> ct_hash ` set (contents db)
     \<and> (\<forall>r\<in>set (documents db). 1 \<le> d_id r \<and> d_id r \<le> last_doc_id db) \<and> 0 \<le> last_doc_id db"

lemma db_okD:
  assumes "db_ok db"
  shows "tab_unique ct_hash (contents db)" "tab_unique doc_key (documents db)" "tab_unique d_id (documents db)"
    "tab_unique vec_key (vectors db)" "distinct (vids (vectors db))" "tab_unique k_name (collections db)"
    "tab_unique fst (config db)" "d_hash ` set (documents db) \<subseteq> ct_hash ` set (contents db)"
    "r \<in> set (documents db) \<Longrightarrow> d_id r \<le> last_doc_id db" "r \<in> set (documents db) \<Longrightarrow> 1 \<le> d_id r"
    "0 \<le> last_doc_id db"
  using assms by (auto simp: db_ok_def)

lemma db_ok_empty: "db_ok empty_db"
  by (simp add: db_ok_def empty_db_def tab_unique_def vids_def)

subsection \<open>Row-wise updates\<close>

lemma tab_unique_map:
  "(\<And>r. r \<in> set rows \<Longrightarrow> key (f r) = key r) \<Longrightarrow> tab_unique key (map f rows) = tab_unique key rows"
  by (induction rows) (auto simp: tab_unique_def)

lemma tab_find_map:
  "(\<And>r. r \<in> set rows \<Longrightarrow> key (f r) = key r) \<Longrightarrow> tab_find key k (map f rows) = map_option f (tab_find key k rows)"
  by (induction rows) auto

lemma db_ok_update_docs:
  assumes "db_ok db"
    and "\<And>r. p r \<Longrightarrow> doc_key (f r) = doc_key r \<and> d_id (f r) = d_id r \<and> d_hash (f r) = d_hash r"
  shows "db_ok (update_docs p f db)"
proof -
  let ?f = "\<lambda>r. if p r then f r else r"
  have k: "doc_key (?f r) = doc_key r" "d_id (?f r) = d_id r" "d_hash (?f r) = d_hash r" for r
    using assms(2) by auto
  have "tab_unique doc_key (map ?f (documents db))" "tab_unique d_id (map ?f (documents db))"
    using db_okD(2,3) [OF assms(1)] tab_unique_map [of "documents db" doc_key ?f]
      tab_unique_map [of "documents db" d_id ?f] k by metis+
  moreover have "d_hash ` set (map ?f (documents db)) = d_hash ` set (documents db)"
    unfolding set_map image_image k(3) ..
  moreover have "\<forall>r\<in>set (map ?f (documents db)). 1 \<le> d_id r \<and> d_id r \<le> last_doc_id db"
    using assms(2) db_okD(9,10) [OF assms(1)] by auto
  ultimately show ?thesis
    using assms(1) unfolding db_ok_def update_docs_def by simp
qed

lemma db_ok_config: "db_ok db \<Longrightarrow> tab_unique fst rows \<Longrightarrow> db_ok (db\<lparr>config := rows\<rparr>)"
  by (simp add: db_ok_def)

lemma db_ok_collections: "db_ok db \<Longrightarrow> tab_unique k_name rows \<Longrightarrow> db_ok (db\<lparr>collections := rows\<rparr>)"
  by (simp add: db_ok_def)

lemma db_ok_vectors:
  "db_ok db \<Longrightarrow> tab_unique vec_key rows \<Longrightarrow> distinct (vids rows) \<Longrightarrow> db_ok (db\<lparr>vectors := rows\<rparr>)"
  by (simp add: db_ok_def)

lemma db_ok_contents:
  "db_ok db \<Longrightarrow> tab_unique ct_hash rows \<Longrightarrow> d_hash ` set (documents db) \<subseteq> ct_hash ` set rows
    \<Longrightarrow> db_ok (db\<lparr>contents := rows\<rparr>)"
  by (simp add: db_ok_def)

lemma db_ok_delete_docs: "db_ok db \<Longrightarrow> db_ok (db\<lparr>documents := tab_delete p (documents db)\<rparr>)"
  unfolding db_ok_def by (auto intro: tab_unique_delete)

lemma db_ok_delete_config: "db_ok db \<Longrightarrow> db_ok (db\<lparr>config := tab_delete p (config db)\<rparr>)"
  by (rule db_ok_config) (auto dest: db_okD(7) intro: tab_unique_delete)

lemma db_ok_delete_collections: "db_ok db \<Longrightarrow> db_ok (db\<lparr>collections := tab_delete p (collections db)\<rparr>)"
  by (rule db_ok_collections) (auto dest: db_okD(6) intro: tab_unique_delete)

lemma set_vids: "set (vids vs) = {i. \<exists>v\<in>set vs. v_vid v = Some i}"
  by (induction vs) (auto simp: vids_def split: option.splits)

lemma vids_Cons: "vids (v # vs) = (case v_vid v of Some i \<Rightarrow> [i] | None \<Rightarrow> []) @ vids vs"
  by (simp add: vids_def)

lemma distinct_vids_filter: "distinct (vids vs) \<Longrightarrow> distinct (vids (filter p vs))"
  by (induction vs) (auto simp: vids_Cons vids_def set_vids split: option.splits)

lemma db_ok_delete_vectors: "db_ok db \<Longrightarrow> db_ok (fst (delete_vectors p db))"
  unfolding delete_vectors_def fst_conv
  using db_ok_vectors [of db "tab_delete p (vectors db)"] db_okD(4,5) [of db]
    tab_unique_delete [of vec_key "vectors db" p] distinct_vids_filter [of "vectors db" "\<lambda>v. \<not> p v"]
  by (simp add: tab_delete_def)

lemma vids_map: "(\<And>v. v \<in> set vs \<Longrightarrow> v_vid (f v) = v_vid v) \<Longrightarrow> vids (map f vs) = vids vs"
  by (induction vs) (auto simp: vids_def)

lemma db_ok_map_vectors:
  assumes "db_ok db" and "\<And>v. vec_key (f v) = vec_key v \<and> v_vid (f v) = v_vid v"
  shows "db_ok (db\<lparr>vectors := map f (vectors db)\<rparr>)"
proof (rule db_ok_vectors [OF assms(1)])
  show "tab_unique vec_key (map f (vectors db))"
    using db_okD(4) [OF assms(1)] tab_unique_map [of "vectors db" vec_key f] assms(2) by metis
  show "distinct (vids (map f (vectors db)))"
    using db_okD(5) [OF assms(1)] vids_map [of "vectors db" f] assms(2) by metis
qed

lemma db_ok_update_colls:
  assumes "db_ok db" and "\<And>r. k_name (f r) = k_name r"
  shows "db_ok (update_colls name f db)"
  unfolding update_colls_def
proof (rule db_ok_collections [OF assms(1)])
  show "tab_unique k_name (map (\<lambda>r. if k_name r = name then f r else r) (collections db))"
    using db_okD(6) [OF assms(1)] assms(2) by (subst tab_unique_map) auto
qed

subsection \<open>The statements that insert\<close>

lemma map_tab_upsert:
  "(\<And>r. g (upd r) = g r) \<Longrightarrow>
    map g (tab_upsert key k new upd rows) = (if k \<in> key ` set rows then map g rows else map g rows @ [g new])"
  by (induction rows) auto

lemma db_ok_upsert_content: "db_ok db \<Longrightarrow> db_ok (upsert_content hash doc now db)"
  unfolding upsert_content_def
proof (rule db_ok_contents)
  assume ok: "db_ok db"
  let ?rows = "tab_upsert ct_hash hash \<lparr>ct_hash = hash, ct_doc = doc, ct_created = now\<rparr> (\<lambda>r. r\<lparr>ct_doc := doc\<rparr>) (contents db)"
  have keys: "map ct_hash ?rows = (if hash \<in> ct_hash ` set (contents db) then map ct_hash (contents db)
      else map ct_hash (contents db) @ [hash])"
    by (subst map_tab_upsert) simp_all
  then show "tab_unique ct_hash ?rows" using db_okD(1) [OF ok] by (auto simp: tab_unique_def)
  have "ct_hash ` set (contents db) \<subseteq> ct_hash ` set ?rows"
    unfolding set_map [symmetric] keys by auto
  then show "d_hash ` set (documents db) \<subseteq> ct_hash ` set ?rows" using db_okD(8) [OF ok] by blast
qed

lemma get_content_in: "get_content hash db = Some doc \<Longrightarrow> hash \<in> ct_hash ` set (contents db)"
  unfolding get_content_def by (auto dest: tab_find_Some)

lemma get_content_None: "get_content hash db = None \<longleftrightarrow> hash \<notin> ct_hash ` set (contents db)"
  by (simp add: get_content_def tab_find_None)

lemma doc_row_keys [db_simps]:
  "doc_key (new_doc_row coll path title hash now rid) = (coll, path)"
  "d_id (new_doc_row coll path title hash now rid) = rid"
  "d_hash (new_doc_row coll path title hash now rid) = hash"
  "doc_key (updated_doc_row db title hash now r) = doc_key r"
  "d_id (updated_doc_row db title hash now r) = d_id r"
  "d_hash (updated_doc_row db title hash now r) = hash"
  by (simp_all add: new_doc_row_def updated_doc_row_def)

lemma upsert_document_InrE:
  assumes "upsert_document coll path title hash now db = Inr (db', rid)"
  obtains "hash \<in> ct_hash ` set (contents db)"
    and "rid = (case tab_find doc_key (coll, path) (documents db) of Some r \<Rightarrow> d_id r | None \<Rightarrow> last_doc_id db + 1)"
    and "db' = db\<lparr>documents := tab_upsert doc_key (coll, path) (new_doc_row coll path title hash now rid)
        (updated_doc_row db title hash now) (documents db), last_doc_id := max rid (last_doc_id db)\<rparr>"
proof (cases "get_content hash db = None")
  case True
  then show thesis using assms unfolding upsert_document_def by simp
next
  case False
  have e: "upsert_document coll path title hash now db =
      (let rid = (case tab_find doc_key (coll, path) (documents db) of Some r \<Rightarrow> d_id r | None \<Rightarrow> last_doc_id db + 1)
       in Inr (db\<lparr>documents := tab_upsert doc_key (coll, path) (new_doc_row coll path title hash now rid)
                      (updated_doc_row db title hash now) (documents db),
                    last_doc_id := max rid (last_doc_id db)\<rparr>, rid))"
    unfolding upsert_document_def using False by (simp only: if_False)
  show thesis
    using assms False that unfolding e Let_def get_content_None sum.inject prod.inject by blast
qed

lemma db_ok_upsert_document:
  assumes ok: "db_ok db" and r: "upsert_document coll path title hash now db = Inr (db', rid)"
  shows "db_ok db'"
  using r
proof (rule upsert_document_InrE)
  define new where "new = new_doc_row coll path title hash now rid"
  define rows where "rows = tab_upsert doc_key (coll, path) new (updated_doc_row db title hash now) (documents db)"
  assume c: "hash \<in> ct_hash ` set (contents db)"
    and rid: "rid = (case tab_find doc_key (coll, path) (documents db) of Some r \<Rightarrow> d_id r | None \<Rightarrow> last_doc_id db + 1)"
    and "db' = db\<lparr>documents := tab_upsert doc_key (coll, path) (new_doc_row coll path title hash now rid)
        (updated_doc_row db title hash now) (documents db), last_doc_id := max rid (last_doc_id db)\<rparr>"
  then have db': "db' = db\<lparr>documents := rows, last_doc_id := max rid (last_doc_id db)\<rparr>"
    by (simp add: rows_def new_def)
  have ids: "map d_id rows = (if (coll, path) \<in> doc_key ` set (documents db) then map d_id (documents db)
      else map d_id (documents db) @ [rid])"
    unfolding rows_def by (subst map_tab_upsert) (simp_all add: new_def db_simps)
  have keys: "map doc_key rows = (if (coll, path) \<in> doc_key ` set (documents db) then map doc_key (documents db)
      else map doc_key (documents db) @ [(coll, path)])"
    unfolding rows_def by (subst map_tab_upsert) (simp_all only: new_def db_simps)
  have le: "d_id x \<le> last_doc_id db" "1 \<le> d_id x" if "x \<in> set (documents db)" for x
    using db_okD(9,10) [OF ok that] .
  have fresh: "last_doc_id db + 1 \<notin> d_id ` set (documents db)" using le(1) by force
  have i: "rid = last_doc_id db + 1" if "(coll, path) \<notin> doc_key ` set (documents db)"
    using that unfolding rid tab_find_None [symmetric] by simp
  have "tab_unique d_id rows" "tab_unique doc_key rows"
    using db_okD(2,3) [OF ok] fresh i unfolding tab_unique_def ids keys by auto
  moreover have "d_hash ` set rows \<subseteq> ct_hash ` set (contents db)"
  proof -
    have "d_hash ` set rows \<subseteq> d_hash ` insert new (set (documents db) \<union> updated_doc_row db title hash now ` set (documents db))"
      unfolding rows_def by (intro image_mono tab_upsert_set)
    also have "\<dots> \<subseteq> ct_hash ` set (contents db)"
      using db_okD(8) [OF ok] c by (auto simp: new_def db_simps)
    finally show ?thesis .
  qed
  moreover have "1 \<le> d_id x \<and> d_id x \<le> max rid (last_doc_id db)" if "x \<in> set rows" for x
  proof -
    have "d_id x \<in> set (map d_id rows)" using that by simp
    then have "d_id x \<in> d_id ` set (documents db) \<or> d_id x = rid \<and> rid = last_doc_id db + 1"
      using i unfolding ids by (auto split: if_splits)
    then show ?thesis using le db_okD(11) [OF ok] by (auto simp: max_def) force+
  qed
  ultimately show ?thesis
    using ok unfolding db_ok_def db' by auto
qed

lemma vids_upsert:
  assumes "tab_unique vec_key vs" and "distinct (vids vs)"
    and "\<And>v. v \<in> set vs \<Longrightarrow> v_vid v = Some i \<Longrightarrow> vec_key v = k"
    and "v_vid new = Some i" and "\<And>v. v_vid (upd v) = Some i"
  shows "distinct (vids (tab_upsert vec_key k new upd vs)) \<and>
    set (vids (tab_upsert vec_key k new upd vs)) \<subseteq> insert i (set (vids vs))"
  using assms
proof (induction vs)
  case Nil
  then show ?case by (simp add: vids_def)
next
  case (Cons v vs)
  have IH: "distinct (vids (tab_upsert vec_key k new upd vs))"
    "set (vids (tab_upsert vec_key k new upd vs)) \<subseteq> insert i (set (vids vs))"
    using Cons.IH Cons.prems by (auto simp: tab_unique_def vids_Cons)
  show ?case
  proof (cases "vec_key v = k")
    case True
    have "i \<notin> set (vids vs)"
    proof
      assume "i \<in> set (vids vs)"
      then obtain w where w: "w \<in> set vs" "v_vid w = Some i" by (auto simp: set_vids)
      then have "vec_key w = vec_key v" using Cons.prems(3) [of w] True by simp
      moreover have "vec_key v \<notin> set (map vec_key vs)"
        using Cons.prems(1) unfolding tab_unique_def list.map distinct.simps by (rule conjunct1)
      moreover have "vec_key w \<in> set (map vec_key vs)"
        unfolding set_map using w(1) by (rule imageI)
      ultimately show False by (simp only: simp_thms)
    qed
    then show ?thesis using True Cons.prems(2,5) by (auto simp: vids_Cons)
  next
    case False
    then have "v_vid v \<noteq> Some i" using Cons.prems(3) [of v] by auto
    then show ?thesis
      using False IH Cons.prems(2) by (auto simp: vids_Cons set_vids split: option.splits)
  qed
qed

lemma vec_row_keys [db_simps]:
  "vec_key (new_vec_row hash seq pos model fp tot vid now) = (hash, seq)"
  "v_vid (new_vec_row hash seq pos model fp tot vid now) = Some (as_i64 vid)"
  "vec_key (updated_vec_row pos model fp tot vid now v) = vec_key v"
  "v_vid (updated_vec_row pos model fp tot vid now v) = Some (as_i64 vid)"
  by (simp_all add: new_vec_row_def updated_vec_row_def)

lemma db_ok_upsert_vector_meta:
  assumes ok: "db_ok db" and r: "upsert_vector_meta hash seq pos model fp tot vid now db = Inr db'"
  shows "db_ok db'"
proof -
  let ?rows = "tab_upsert vec_key (hash, seq) (new_vec_row hash seq pos model fp tot vid now)
     (updated_vec_row pos model fp tot vid now) (vectors db)"
  have db': "db' = db\<lparr>vectors := ?rows\<rparr>"
    and free: "\<And>v. v \<in> set (vectors db) \<Longrightarrow> v_vid v = Some (as_i64 vid) \<Longrightarrow> vec_key v = (hash, seq)"
    using r by (auto simp: upsert_vector_meta_def list_ex_iff split: if_splits)
  show ?thesis unfolding db'
  proof (rule db_ok_vectors [OF ok])
    show "tab_unique vec_key ?rows"
      using db_okD(4) [OF ok] by (subst tab_unique_upsert) (simp_all only: db_simps)
    show "distinct (vids ?rows)"
      using vids_upsert [OF db_okD(4,5) [OF ok] free] by (simp only: db_simps)
  qed
qed

subsection \<open>The other writers\<close>

lemma tab_unique_append1: "tab_unique key (xs @ [x]) \<longleftrightarrow> tab_unique key xs \<and> key x \<notin> key ` set xs"
  by (auto simp: tab_unique_def)

lemma rename_rows_unique:
  "tab_unique fst (done @ rows) \<Longrightarrow> tab_unique fst (rename_rows old_p new_p done rows)"
proof (induction old_p new_p "done" rows rule: rename_rows.induct)
  case (1 old_p new_p "done" rows)
  show ?case
  proof (cases rows)
    case Nil
    then show ?thesis using "1.prems" by (simp add: rename_rows.simps)
  next
    case (Cons kv rest)
    obtain k v where kv: "kv = (k, v)" by (cases kv)
    let ?k' = "new_p @ drop (length old_p) k"
    let ?del = "tab_delete (\<lambda>kv. fst kv = ?k')"
    have step: "rename_rows old_p new_p done rows =
        (if \<not> starts_with old_p k \<or> ?k' = k then rename_rows old_p new_p (done @ [(k, v)]) rest
         else rename_rows old_p new_p (?del done @ [(?k', v)]) (?del rest))"
      unfolding Cons kv by (subst rename_rows.simps) (simp add: Let_def)
    show ?thesis
    proof (cases "\<not> starts_with old_p k \<or> ?k' = k")
      case True
      then show ?thesis unfolding step using "1.IH"(1) [OF Cons kv [symmetric] refl True] "1.prems" Cons kv by simp
    next
      case False
      have "tab_unique fst ((?del done @ [(?k', v)]) @ ?del rest)"
        using "1.prems" unfolding Cons kv
        by (auto simp: tab_unique_def tab_delete_def distinct_map_filter)
      then show ?thesis unfolding step using "1.IH"(2) [OF Cons kv [symmetric] refl False] False by simp
    qed
  qed
qed

lemma db_ok_rename_collection:
  assumes ok: "db_ok db" and r: "rename_collection old new db = Inr db'"
  shows "db_ok db'"
proof -
  let ?kf = "\<lambda>k. if k_name k = old then k\<lparr>k_name := new\<rparr> else k"
  let ?df = "\<lambda>r. if d_collection r = old then r\<lparr>d_collection := new\<rparr> else r"
  let ?cfg = "rename_prefix (collection_context_key old) (collection_context_key new) (config db)"
  have free: "\<forall>k\<in>set (collections db). k_name k \<noteq> new" "\<forall>x\<in>set (documents db). d_collection x \<noteq> new"
    and db': "db' = db\<lparr>collections := map ?kf (collections db), documents := map ?df (documents db), config := ?cfg\<rparr>"
    using r by (auto simp: rename_collection_def Let_def update_colls_def update_docs_def list_ex_iff split: if_splits)
  have "tab_unique k_name (map ?kf (collections db))"
    using db_okD(6) [OF ok] free(1) unfolding tab_unique_def distinct_map
    by (auto simp: inj_on_def split: if_splits)
  moreover have "tab_unique doc_key (map ?df (documents db))"
    using db_okD(2) [OF ok] free(2) unfolding tab_unique_def map_map distinct_map
    by (auto simp: inj_on_def split: if_splits)
  moreover have "tab_unique d_id (map ?df (documents db))"
    using db_okD(3) [OF ok] by (subst tab_unique_map) auto
  moreover have "d_hash ` set (map ?df (documents db)) = d_hash ` set (documents db)"
    unfolding set_map image_image by (rule image_cong) auto
  moreover have "tab_unique fst ?cfg"
    unfolding rename_prefix_def by (rule rename_rows_unique) (simp add: db_okD(7) [OF ok])
  ultimately show ?thesis
    using ok unfolding db_ok_def db' by auto
qed

lemma db_ok_deactivate: "db_ok db \<Longrightarrow> db_ok (fst (deactivate_missing_documents coll current db))"
proof -
  have "db_ok (fold (\<lambda>chunk. update_docs (\<lambda>r. d_collection r = coll \<and> d_path r \<in> set chunk) (\<lambda>r. r\<lparr>d_active := False\<rparr>)) bs db)"
    if "db_ok db" for bs
    using that by (induction bs arbitrary: db) (simp_all add: db_ok_update_docs)
  then show "db_ok db \<Longrightarrow> ?thesis" by (simp add: deactivate_missing_documents_def Let_def)
qed

lemma db_ok_delete_unreferenced: "db_ok db \<Longrightarrow> db_ok (fst (delete_unreferenced_content db))"
  unfolding delete_unreferenced_content_def Let_def fst_conv document_hashes_def
proof (rule db_ok_contents)
  let ?rows = "tab_delete (\<lambda>c. ct_hash c \<notin> d_hash ` set (documents db)) (contents db)"
  assume ok: "db_ok db"
  show "tab_unique ct_hash ?rows" using db_okD(1) [OF ok] by (rule tab_unique_delete)
  show "d_hash ` set (documents db) \<subseteq> ct_hash ` set ?rows"
  proof
    fix h assume h: "h \<in> d_hash ` set (documents db)"
    then have "h \<in> ct_hash ` set (contents db)" using db_okD(8) [OF ok] by (rule subsetD [rotated])
    then obtain c where "c \<in> set (contents db)" "h = ct_hash c" by (rule imageE) 
    then show "h \<in> ct_hash ` set ?rows" using h by (intro image_eqI [of _ _ c]) simp_all
  qed
qed

lemma db_ok_purge:
  assumes "db_ok db"
  shows "db_ok (fst (purge_collection name db))"
proof -
  define db1 where "db1 = db\<lparr>documents := tab_delete (\<lambda>r. d_collection r = name) (documents db)\<rparr>"
  define db2 where "db2 = fst (delete_vectors (\<lambda>v. v_hash v \<notin> document_hashes db1) db1)"
  define db3 where "db3 = fst (delete_unreferenced_content db2)"
  define db4 where "db4 = db3\<lparr>collections := tab_delete (\<lambda>k. k_name k = name) (collections db3)\<rparr>"
  have "db_ok db1" using db_ok_delete_docs [OF assms] by (simp add: db1_def)
  then have "db_ok db2" using db_ok_delete_vectors by (simp add: db2_def)
  then have "db_ok db3" using db_ok_delete_unreferenced by (simp add: db3_def)
  then have "db_ok db4" using db_ok_delete_collections by (simp add: db4_def)
  then have "db_ok (db4\<lparr>config := tab_delete (\<lambda>kv. starts_with (collection_context_key name) (fst kv)) (config db4)\<rparr>)"
    by (rule db_ok_delete_config)
  then show ?thesis
    by (simp add: purge_collection_def Let_def db4_def db3_def db2_def db1_def)
qed

lemma db_ok_backfill: "db_ok db \<Longrightarrow> db_ok (fst (backfill_vector_keys model fps key_for db))"
proof -
  have "db_ok (fst (fold (\<lambda>r (db, filled).
         (db\<lparr>vectors := map (\<lambda>v. if vec_key v = vec_key r then v\<lparr>v_key := Some (key_for (the (v_chunk_hash r)))\<rparr> else v) (vectors db)\<rparr>,
          filled + length (filter (\<lambda>v. vec_key v = vec_key r) (vectors db)))) rs (db, n)))"
    if "db_ok db" for rs n
    using that
  proof (induction rs arbitrary: db n)
    case (Cons r rs)
    then show ?case
      using db_ok_map_vectors [OF Cons.prems, of "\<lambda>v. if vec_key v = vec_key r then v\<lparr>v_key := Some (key_for (the (v_chunk_hash r)))\<rparr> else v"]
      by (simp del: Product_Type.prod.inject)
  qed simp
  then show "db_ok db \<Longrightarrow> ?thesis" by (simp add: backfill_vector_keys_def)
qed

lemma db_ok_set_identity: "db_ok db \<Longrightarrow> db_ok (set_vector_identity hash seq chash key db)"
  unfolding set_vector_identity_def by (rule db_ok_map_vectors) auto

lemma coll_update_name [db_simps]: "k_name (coll_update j c r) = k_name r"
  by (simp add: coll_update_def)

lemma db_ok_upsert_collection: "db_ok db \<Longrightarrow> db_ok (upsert_collection j c db)"
  unfolding upsert_collection_def
  by (rule db_ok_collections, assumption, subst tab_unique_upsert) (simp_all add: db_simps blank_coll_def db_okD(6))

lemma db_ok_set_config: "db_ok db \<Longrightarrow> db_ok (set_config key val db)"
  unfolding set_config_def
  by (rule db_ok_config) (auto simp: tab_unique_append1 intro: tab_unique_delete db_okD(7))

lemma db_ok_persist: "db_ok db \<Longrightarrow> db_ok (persist_next_vid_floor n db)"
  by (simp add: persist_next_vid_floor_def db_ok_set_config)

subsection \<open>Reachable databases\<close>

text \<open>One call of a function of \<open>db.rs\<close> that writes; an error return changes nothing.\<close>

inductive db_step :: "codec \<Rightarrow> db \<Rightarrow> db \<Rightarrow> bool" for j where
  content: "db_step j db (upsert_content hash doc now db)"
| document: "upsert_document coll path title hash now db = Inr (db', rid) \<Longrightarrow> db_step j db db'"
| prev: "db_step j db (fst (clear_prev_hash hash db))"
| stat: "db_step j db (set_document_stat coll path st db)"
| raw: "db_step j db (set_document_raw rid body db)"
| drop_vectors: "db_step j db (fst (delete_vectors_for_hash hash db))"
| clear_vectors: "db_step j db (fst (clear_all_vectors db))"
| vector: "upsert_vector_meta hash seq pos model fp tot vid now db = Inr db' \<Longrightarrow> db_step j db db'"
| identity: "db_step j db (set_vector_identity hash seq chash key db)"
| backfill: "db_step j db (fst (backfill_vector_keys model fps key_for db))"
| collection: "db_step j db (upsert_collection j c db)"
| embed_rules: "db_step j db (fst (set_collection_embed_rules j name ign cap db))"
| deactivate: "db_step j db (fst (deactivate_missing_documents coll current db))"
| purge: "db_step j db (fst (purge_collection name db))"
| sweep: "db_step j db (fst (delete_unreferenced_content db))"
| clear_collection: "db_step j db (fst (clear_vectors_for_collection coll db))"
| rename: "rename_collection old new db = Inr db' \<Longrightarrow> db_step j db db'"
| include_flag: "db_step j db (set_collection_include name b db)"
| update_cmd: "db_step j db (set_collection_update_cmd name cmd db)"
| config_set: "db_step j db (set_config key val db)"
| config_delete: "db_step j db (delete_config key db)"
| floor: "db_step j db (persist_next_vid_floor n db)"

inductive_cases db_stepE: "db_step j db db'"

lemma db_ok_step: "db_step j db db' \<Longrightarrow> db_ok db \<Longrightarrow> db_ok db'"
proof (induction rule: db_step.induct)
  case (prev db hash)
  then show ?case by (simp add: clear_prev_hash_def Let_def db_ok_update_docs)
next
  case (stat db coll path st)
  then show ?case by (simp add: set_document_stat_def db_ok_update_docs)
next
  case (raw db rid body)
  then show ?case by (simp add: set_document_raw_def db_ok_update_docs)
next
  case (embed_rules db name ign cap)
  then show ?case by (simp add: set_collection_embed_rules_def db_ok_update_colls)
next
  case (include_flag db name b)
  then show ?case by (simp add: set_collection_include_def db_ok_update_colls)
next
  case (update_cmd db name cmd)
  then show ?case by (simp add: set_collection_update_cmd_def db_ok_update_colls)
next
  case (config_delete db key)
  then show ?case by (simp add: delete_config_def db_ok_delete_config)
qed (auto simp: delete_vectors_for_hash_def clear_all_vectors_def clear_vectors_for_collection_def
      intro: db_ok_upsert_content db_ok_upsert_document db_ok_delete_vectors db_ok_upsert_vector_meta
        db_ok_set_identity db_ok_backfill db_ok_upsert_collection db_ok_deactivate db_ok_purge
        db_ok_delete_unreferenced db_ok_rename_collection db_ok_set_config db_ok_persist)

inductive db_reachable :: "codec \<Rightarrow> db \<Rightarrow> bool" for j where
  initial: "db_reachable j empty_db"
| step: "db_reachable j db \<Longrightarrow> db_step j db db' \<Longrightarrow> db_reachable j db'"

end
