(* ===== verification/DbDocs.thy ===== *)
theory DbDocs
  imports DbInv
begin

text \<open>
  What the document functions of \<open>db.rs\<close> promise: well-formedness of every reachable database,
  lookups after an upsert, the lookup by docid prefix, the batched needle search against a
  single statement, and the agreement of the pending counter with the per-hash check.
\<close>

subsection \<open>Documents\<close>

lemma doc_le_comparator: "comparator (\<lambda>_. True) doc_le"
  by standard (auto simp: doc_le_def)

interpretation doc_order: comparator "\<lambda>_::doc_row. True" doc_le
  by (rule doc_le_comparator)

text \<open>C8: Every database that the functions of db.rs can produce from an empty one, in any order
  and with any arguments, is well formed: keys and vector ids are unique, every document's
  content exists, and document ids lie between one and the AUTOINCREMENT mark.\<close>
theorem db_reachable_ok: "db_reachable j db \<Longrightarrow> db_ok db"
  by (induction rule: db_reachable.induct) (blast intro: db_ok_empty db_ok_step)+

lemma db_reachable_ok_witness:
  "\<exists>db. contents db = [\<lparr>ct_hash = ''h'', ct_doc = ''body'', ct_created = ''t''\<rparr>]
     \<and> map d_id (documents db) = [1] \<and> db_ok db"
proof -
  fix j
  let ?db1 = "upsert_content ''h'' ''body'' ''t'' empty_db"
  let ?db = "?db1\<lparr>documents := [new_doc_row ''c'' ''a.md'' ''A'' ''h'' ''t'' 1], last_doc_id := 1\<rparr>"
  have db: "upsert_document ''c'' ''a.md'' ''A'' ''h'' ''t'' ?db1 = Inr (?db, 1)"
    unfolding upsert_document_def upsert_content_def empty_db_def get_content_def Let_def by simp
  have r: "db_reachable j ?db"
    by (rule db_reachable.step [OF db_reachable.step [OF db_reachable.initial db_step.content] db_step.document [OF db]])
  have c: "contents ?db = [\<lparr>ct_hash = ''h'', ct_doc = ''body'', ct_created = ''t''\<rparr>]" "map d_id (documents ?db) = [1]"
    unfolding upsert_content_def empty_db_def by (simp_all add: doc_row_keys)
  show ?thesis using db_reachable_ok [OF r] c by (intro exI [of _ ?db] conjI)
qed

lemma tab_find_doc:
  assumes "upsert_document coll path title hash now db = Inr (db', rid)"
  shows "tab_find doc_key (coll, path) (documents db') =
      Some (case tab_find doc_key (coll, path) (documents db) of
        None \<Rightarrow> new_doc_row coll path title hash now rid | Some r \<Rightarrow> updated_doc_row db title hash now r)"
    and "k \<noteq> (coll, path) \<Longrightarrow> tab_find doc_key k (documents db') = tab_find doc_key k (documents db)"
proof -
  from assms have d: "documents db' = tab_upsert doc_key (coll, path) (new_doc_row coll path title hash now rid)
        (updated_doc_row db title hash now) (documents db)"
    by (elim upsert_document_InrE) simp
  show "tab_find doc_key (coll, path) (documents db') =
      Some (case tab_find doc_key (coll, path) (documents db) of
        None \<Rightarrow> new_doc_row coll path title hash now rid | Some r \<Rightarrow> updated_doc_row db title hash now r)"
    unfolding d by (rule tab_find_upsert_same) (simp_all only: doc_row_keys)
  assume "k \<noteq> (coll, path)"
  then show "tab_find doc_key k (documents db') = tab_find doc_key k (documents db)"
    unfolding d by (intro tab_find_upsert_other) (simp_all only: doc_row_keys not_False_eq_True)
qed

lemma find_by_id:
  "db_ok db \<Longrightarrow> tab_find doc_key k (documents db) = Some r \<Longrightarrow> tab_find d_id (d_id r) (documents db) = Some r"
  using tab_find_unique [OF db_okD(3)] by (auto dest: tab_find_Some)

lemma upsert_document_row:
  assumes r: "upsert_document coll path title hash now db = Inr (db', rid)"
  obtains row where "tab_find doc_key (coll, path) (documents db') = Some row" and "d_id row = rid"
    and "to_document row = \<lparr>doc_id = rid, doc_collection = coll, doc_path = path, doc_title = title, doc_hash = hash, doc_active = True\<rparr>"
proof (cases "tab_find doc_key (coll, path) (documents db)")
  case None
  have "rid = last_doc_id db + 1" using r None by (auto elim: upsert_document_InrE)
  then show thesis using that tab_find_doc(1) [OF r] None
    by (simp add: new_doc_row_def to_document_def)
next
  case (Some x)
  have "rid = d_id x" using r Some by (auto elim: upsert_document_InrE)
  moreover have "doc_key x = (coll, path)" using tab_find_Some [OF Some] by (rule conjunct2)
  ultimately show thesis using that tab_find_doc(1) [OF r] Some
    by (simp add: updated_doc_row_def to_document_def)
qed

text \<open>Storing a document under a collection and path makes it the document found there and by
  the returned id, active and with the new title and hash; the id is the one the path already
  had, or one never used before; every other path, and the contents, are as they were. The
  only error is a hash without content.\<close>
theorem upsert_document_spec:
  assumes ok: "db_ok db"
  shows "(upsert_document coll path title hash now db = Inl ForeignKey \<longleftrightarrow> get_content hash db = None)
    \<and> (upsert_document coll path title hash now db \<noteq> Inl ForeignKey \<longrightarrow>
        (\<exists>db' rid. upsert_document coll path title hash now db = Inr (db', rid)
          \<and> (let d = \<lparr>doc_id = rid, doc_collection = coll, doc_path = path, doc_title = title, doc_hash = hash, doc_active = True\<rparr>
             in get_document_by_filepath coll path db' = Some d \<and> get_document_by_id rid db' = Some d)
          \<and> (case get_document_by_filepath coll path db of Some d \<Rightarrow> rid = doc_id d
             | None \<Rightarrow> rid = last_doc_id db + 1 \<and> get_document_by_id rid db = None)
          \<and> (\<forall>coll' path'. (coll', path') \<noteq> (coll, path) \<longrightarrow>
               get_document_by_filepath coll' path' db' = get_document_by_filepath coll' path' db)
          \<and> (\<forall>h. get_content h db' = get_content h db)))"
proof (cases "get_content hash db = None")
  case True
  then show ?thesis by (simp add: upsert_document_def)
next
  case False
  then obtain db' rid where r: "upsert_document coll path title hash now db = Inr (db', rid)"
    unfolding upsert_document_def Let_def by simp
  obtain row where row: "tab_find doc_key (coll, path) (documents db') = Some row" "d_id row = rid"
    "to_document row = \<lparr>doc_id = rid, doc_collection = coll, doc_path = path, doc_title = title, doc_hash = hash, doc_active = True\<rparr>"
    using r by (rule upsert_document_row)
  have ok': "db_ok db'" using ok r by (rule db_ok_upsert_document)
  have a: "get_document_by_filepath coll path db' = Some (to_document row)"
    "get_document_by_id rid db' = Some (to_document row)"
    using row(1) find_by_id [OF ok' row(1)] by (simp_all add: get_document_by_filepath_def get_document_by_id_def row(2))
  have fresh: "get_document_by_id (last_doc_id db + 1) db = None"
  proof -
    have "last_doc_id db + 1 \<notin> d_id ` set (documents db)" using db_okD(9) [OF ok] by force
    then show ?thesis by (simp add: get_document_by_id_def tab_find_None)
  qed
  have b: "case get_document_by_filepath coll path db of Some d \<Rightarrow> rid = doc_id d
      | None \<Rightarrow> rid = last_doc_id db + 1 \<and> get_document_by_id rid db = None"
  proof (cases "tab_find doc_key (coll, path) (documents db)")
    case None
    then show ?thesis using r fresh by (auto elim!: upsert_document_InrE simp: get_document_by_filepath_def)
  next
    case (Some x)
    then show ?thesis using r by (auto elim!: upsert_document_InrE simp: get_document_by_filepath_def to_document_def)
  qed
  have c: "\<forall>coll' path'. (coll', path') \<noteq> (coll, path) \<longrightarrow>
      get_document_by_filepath coll' path' db' = get_document_by_filepath coll' path' db"
    using tab_find_doc(2) [OF r] by (simp add: get_document_by_filepath_def)
  have "contents db' = contents db" using r by (auto elim: upsert_document_InrE)
  then have d: "\<forall>h. get_content h db' = get_content h db" by (simp add: get_content_def)
  show ?thesis using False r a b c d row(3) by (simp add: Let_def)
qed

lemma upsert_document_spec_witness:
  "\<exists>db' rid. upsert_document ''c'' ''a.md'' ''A'' ''h'' ''t'' (upsert_content ''h'' ''b'' ''t'' empty_db) = Inr (db', rid)
     \<and> get_document_by_id rid db' =
        Some \<lparr>doc_id = rid, doc_collection = ''c'', doc_path = ''a.md'', doc_title = ''A'', doc_hash = ''h'', doc_active = True\<rparr>"
proof -
  have ok: "db_ok (upsert_content ''h'' ''b'' ''t'' empty_db)"
    by (rule db_ok_upsert_content [OF db_ok_empty])
  have "upsert_document ''c'' ''a.md'' ''A'' ''h'' ''t'' (upsert_content ''h'' ''b'' ''t'' empty_db) \<noteq> Inl ForeignKey"
    unfolding upsert_document_def upsert_content_def empty_db_def get_content_def Let_def by simp
  then show ?thesis
    using upsert_document_spec [OF ok, of "''c''" "''a.md''" "''A''" "''h''" "''t''"] by (auto simp: Let_def)
qed

subsection \<open>Lookup by docid\<close>

text \<open>A docid prefix resolves to the first active document, by collection and then path, whose
  hash starts with it (ASCII case ignored, no character of the prefix acting as a wildcard);
  it resolves to nothing only when the prefix is empty or no active document matches.\<close>
theorem docid_prefix_spec:
  assumes "valid_utf8 docid"
  shows "case get_document_by_docid_prefix docid db of
      None \<Rightarrow> docid = [] \<or> (\<forall>r\<in>set (documents db). d_active r \<longrightarrow> \<not> ci_prefix docid (d_hash r))
    | Some d \<Rightarrow> docid \<noteq> [] \<and> (\<exists>r\<in>set (documents db). d = to_document r \<and> d_active r \<and> ci_prefix docid (d_hash r)
        \<and> (\<forall>x\<in>set (documents db). d_active x \<and> ci_prefix docid (d_hash x) \<longrightarrow> doc_key r \<le> doc_key x))"
proof (cases "docid = []")
  case True
  then show ?thesis by (simp add: get_document_by_docid_prefix_def)
next
  case False
  define hits where "hits = filter (\<lambda>r. ci_prefix docid (d_hash r) \<and> d_active r) (documents db)"
  have g: "get_document_by_docid_prefix docid db =
      (case sort_by doc_le hits of [] \<Rightarrow> None | r # _ \<Rightarrow> Some (to_document r))"
    using False unfolding get_document_by_docid_prefix_def Let_def like_escaped_prefix [OF assms] hits_def by simp
  show ?thesis
  proof (cases "sort_by doc_le hits")
    case Nil
    then have "hits = []" by (metis length_0_conv length_sort_by)
    then show ?thesis unfolding g Nil by (simp add: hits_def filter_empty_conv) blast
  next
    case (Cons r rs)
    have r: "r \<in> set hits" using set_sort_by [of doc_le hits] Cons by auto
    have "doc_le r x" if "x \<in> set hits" for x
      using doc_order.sort_by_head_least [of hits r rs x] Cons that by simp
    then have "\<forall>x\<in>set (documents db). d_active x \<and> ci_prefix docid (d_hash x) \<longrightarrow> doc_key r \<le> doc_key x"
      by (auto simp: hits_def doc_le_def)
    then show ?thesis unfolding g Cons list.case option.case
      using False r by (intro conjI bexI [of _ r]) (auto simp: hits_def)
  qed
qed

definition one_document :: db where
  "one_document = (upsert_content ''h'' ''body'' ''t'' empty_db)
     \<lparr>documents := [new_doc_row ''c'' ''a.md'' ''A'' ''h'' ''t'' 1], last_doc_id := 1\<rparr>"

lemma one_document_ok: "db_ok one_document"
proof -
  have "upsert_document ''c'' ''a.md'' ''A'' ''h'' ''t'' (upsert_content ''h'' ''body'' ''t'' empty_db) = Inr (one_document, 1)"
    unfolding upsert_document_def upsert_content_def empty_db_def get_content_def Let_def one_document_def by simp
  then show ?thesis
    by (rule db_ok_upsert_document [OF db_ok_upsert_content [OF db_ok_empty]])
qed

definition sample_docs :: db where
  "sample_docs = empty_db\<lparr>documents :=
     [new_doc_row ''b'' ''x.md'' ''X'' ''ab1'' ''t'' 1, new_doc_row ''a'' ''y.md'' ''Y'' ''AB2'' ''t'' 2]\<rparr>"

lemma docid_prefix_spec_witness:
  "\<exists>d. get_document_by_docid_prefix ''ab'' sample_docs = Some d \<and> doc_active d"
proof -
  have v: "valid_utf8 ''ab''" by (intro valid_utf8_ascii) simp
  have p: "ci_prefix ''ab'' (d_hash (new_doc_row ''a'' ''y.md'' ''Y'' ''AB2'' ''t'' 2))"
    by (simp add: new_doc_row_def ci_prefix_def) code_simp
  show ?thesis
    using docid_prefix_spec [OF v, of sample_docs] p
    by (auto simp: sample_docs_def new_doc_row_def to_document_def split: option.splits)
qed

subsection \<open>Batched needle search\<close>

lemma set_dedup_adjacent:
  "inj_on key (set xs) \<Longrightarrow> set (dedup_adjacent key xs) = set xs"
proof (induction key xs rule: dedup_adjacent.induct)
  case (1 key x y xs)
  show ?case
  proof (cases "key x = key y")
    case True
    have "x = y" using "1.prems" True by (rule inj_onD) simp_all
    moreover have "set (dedup_adjacent key (x # xs)) = set (x # xs)"
      using "1.prems" by (intro "1.IH"(1) [OF True]) (erule inj_on_subset, auto)
    ultimately show ?thesis using True by simp
  next
    case False
    have "set (dedup_adjacent key (y # xs)) = set (y # xs)"
      using "1.prems" by (intro "1.IH"(2) [OF False]) (erule inj_on_subset, auto)
    then show ?thesis using False by simp
  qed
qed simp_all

lemma dedup_adjacent_sorted:
  assumes "sorted (map k xs)"
    and "\<And>x y. x \<in> set xs \<Longrightarrow> y \<in> set xs \<Longrightarrow> (key x = key y) = (x = y) \<and> (k x = k y) = (x = y)"
  shows "sorted (map k (dedup_adjacent key xs)) \<and> distinct (map k (dedup_adjacent key xs))"
  using assms
proof (induction key xs rule: dedup_adjacent.induct)
  case (1 key x y xs)
  show ?case
  proof (cases "key x = key y")
    case True
    then have "x = y" using "1.prems"(2) by simp
    then show ?thesis using "1.IH"(1) [OF True] "1.prems" True by simp
  next
    case False
    have IH: "sorted (map k (dedup_adjacent key (y # xs)))" "distinct (map k (dedup_adjacent key (y # xs)))"
      using "1.IH"(2) [OF False] "1.prems" by auto
    have s: "set (dedup_adjacent key (y # xs)) = set (y # xs)"
      using "1.prems"(2) by (intro set_dedup_adjacent inj_onI) (metis list.set_intros(2))
    have le: "k x \<le> k y" "\<forall>z\<in>set xs. k y \<le> k z" using "1.prems"(1) by auto
    have "k x \<noteq> k y" using False "1.prems"(2) by (metis list.set_intros(1,2))
    then have "\<forall>z\<in>set (y # xs). k x < k z" using le by (auto intro: less_le_trans order_neq_le_trans)
    then show ?thesis using False IH s by (auto simp: less_imp_le)
  qed
qed auto

abbreviation document_key :: "document \<Rightarrow> string \<times> string" where
  "document_key d \<equiv> (doc_collection d, doc_path d)"

lemma document_le_comparator: "comparator (\<lambda>_. True) document_le"
  by standard (auto simp: document_le_def)

interpretation document_order: comparator "\<lambda>_::document. True" document_le
  by (rule document_le_comparator)

lemma sorted_document_key: "sorted (map document_key (sort_by document_le ds))"
  unfolding sorted_map
  by (rule sorted_wrt_mono_rel [OF _ document_order.sorted_sort_by [of ds]]) (simp_all add: document_le_def)

lemma to_document_key: "document_key (to_document r) = doc_key r" "doc_id (to_document r) = d_id r"
  by (simp_all add: to_document_def)

lemma sorted_doc_key: "sorted (map document_key (map to_document (sort_by doc_le rs)))"
  unfolding map_map sorted_map o_def to_document_key
  by (rule sorted_wrt_mono_rel [OF _ doc_order.sorted_sort_by [of rs]]) (simp_all add: doc_le_def)

text \<open>Two sorted listings of the same documents are the same list.\<close>

lemma listing_unique:
  assumes "sorted (map document_key xs)" "distinct (map document_key xs)"
    and "sorted (map document_key ys)" "distinct (map document_key ys)"
    and "set xs = set ys" and "inj_on document_key (set xs)"
  shows "xs = ys"
proof -
  have "map document_key xs = map document_key ys"
    using assms(1-5) by (intro sorted_distinct_set_unique) simp_all
  then show ?thesis using assms(5,6) inj_on_map_eq_map [of document_key xs ys] by simp
qed

lemma doc_rows_inj:
  assumes "db_ok db" and "r \<in> set (documents db)" and "x \<in> set (documents db)"
  shows "(d_id r = d_id x) = (r = x)" "(doc_key r = doc_key x) = (r = x)"
  using db_okD(2,3) [OF assms(1)] assms(2,3) unfolding tab_unique_def distinct_map inj_on_def by metis+

lemma needle_batches_cases:
  assumes ok: "db_ok db"
  shows "find_documents_by_needles cols needles db =
    (if needles = [] then [] else find_documents_by_needle_batch cols needles db)"
proof (cases "batches NEEDLE_BATCH needles")
  case Nil
  then have "needles = []" by (auto simp: batches.simps [of _ needles] NEEDLE_BATCH_def split: if_splits)
  then show ?thesis by (simp add: find_documents_by_needles_def)
next
  case (Cons first rest)
  have cat: "concat (first # rest) = needles"
    using concat_batches [of NEEDLE_BATCH needles] Cons by (simp add: NEEDLE_BATCH_def)
  have ne: "needles \<noteq> []" using Cons by auto
  define ms where "ms ns = filter (\<lambda>r. d_active r \<and> list_ex (\<lambda>n. needle_matches n r) ns \<and> in_collections cols (d_collection r))
      (documents db)" for ns
  have b: "find_documents_by_needle_batch cols ns db = map to_document (sort_by doc_le (ms ns))" for ns
    by (simp add: find_documents_by_needle_batch_def ms_def)
  show ?thesis
  proof (cases "rest = []")
    case True
    then show ?thesis using Cons cat ne by (simp add: find_documents_by_needles_def)
  next
    case False
    define all where "all = sort_by document_le (find_documents_by_needle_batch cols first db @
        concat (map (\<lambda>ns. find_documents_by_needle_batch cols ns db) rest))"
    have "set all = to_document ` (\<Union>ns\<in>set (first # rest). set (ms ns))"
      by (simp add: all_def b image_UN image_Un)
    also have "(\<Union>ns\<in>set (first # rest). set (ms ns)) = set (ms needles)"
      unfolding cat [symmetric] set_concat by (auto simp: ms_def list_ex_iff)
    finally have set_all: "set all = to_document ` set (ms needles)" .
    have eqs: "(doc_id x = doc_id y) = (x = y) \<and> (document_key x = document_key y) = (x = y)"
      if "x \<in> set all" "y \<in> set all" for x y
    proof -
      obtain r q where "r \<in> set (documents db)" "q \<in> set (documents db)" "x = to_document r" "y = to_document q"
        using \<open>x \<in> set all\<close> \<open>y \<in> set all\<close> unfolding set_all by (auto simp: ms_def)
      moreover have "(d_id r = d_id q) = (r = q)" "(doc_key r = doc_key q) = (r = q)"
        using doc_rows_inj [OF ok] calculation(1,2) by auto
      ultimately show ?thesis unfolding to_document_key by (metis to_document_key)
    qed
    have "dedup_adjacent doc_id all = map to_document (sort_by doc_le (ms needles))"
    proof (rule listing_unique)
      have srt: "sorted (map document_key (dedup_adjacent doc_id all)) \<and> distinct (map document_key (dedup_adjacent doc_id all))"
        using sorted_document_key eqs unfolding all_def [symmetric] by (intro dedup_adjacent_sorted) (auto simp: all_def)
      then show "sorted (map document_key (dedup_adjacent doc_id all))" "distinct (map document_key (dedup_adjacent doc_id all))"
        by auto
      show "sorted (map document_key (map to_document (sort_by doc_le (ms needles))))" by (rule sorted_doc_key)
      have "distinct (map doc_key (ms needles))"
        using db_okD(2) [OF ok] unfolding ms_def tab_unique_def by (rule distinct_map_filter)
      then show "distinct (map document_key (map to_document (sort_by doc_le (ms needles))))"
        by (simp only: map_map o_def to_document_key distinct_map_sort_by)
      have sd: "set (dedup_adjacent doc_id all) = set all"
        using eqs by (intro set_dedup_adjacent inj_onI) blast
      then show "set (dedup_adjacent doc_id all) = set (map to_document (sort_by doc_le (ms needles)))"
        by (simp add: set_all)
      show "inj_on document_key (set (dedup_adjacent doc_id all))"
        unfolding sd inj_on_def using eqs by blast
    qed
    then show ?thesis
      using Cons False ne by (simp add: find_documents_by_needles_def all_def [symmetric] b Let_def) (simp add: all_def b)
  qed
qed

lemma needle_batches_single:
  assumes "db_ok db"
  shows "find_documents_by_needles cols needles db = find_documents_by_needle_batch cols needles db"
  using needle_batches_cases [OF assms] by (simp add: find_documents_by_needle_batch_def)

text \<open>C17: Looking up any number of needles, 250 at a time, gives exactly what one statement over all
  of them would give: the matching active documents of the scope, each once, ordered by
  collection and path; no needle gives nothing.\<close>
theorem needle_batches_equivalent:
  assumes "db_ok db"
  shows "find_documents_by_needles cols needles db =
    (if needles = [] then [] else find_documents_by_needle_batch cols needles db)"
  using assms by (rule needle_batches_cases)

lemma needle_batches_equivalent_witness:
  "find_documents_by_needles None (replicate 600 ''a.md'') empty_db
     = find_documents_by_needle_batch None (replicate 600 ''a.md'') empty_db"
  using needle_batches_equivalent [OF db_ok_empty, of None "replicate 600 ''a.md''"] by simp

subsection \<open>What is left to embed\<close>

lemma nonempty_rows:
  assumes "\<not> content_empty db h"
  shows "filter (\<lambda>r. d_hash r = h) (filter (\<lambda>r. d_active r \<and> \<not> content_empty db (d_hash r) \<and> not_excluded excl r) (documents db))
    = filter (\<lambda>r. d_hash r = h \<and> d_active r \<and> not_excluded excl r) (documents db)"
  using assms unfolding filter_filter by (intro filter_cong refl) auto

lemma length_filter_remdups: "length (filter p (remdups xs)) = card {x \<in> set xs. p x}"
  by (metis (mono_tags) distinct_card distinct_filter distinct_remdups set_filter set_remdups)

lemma count_pending_inner:
  "count_pending_hashes db base ast excl =
     int (card {h. (\<exists>r\<in>set (documents db). d_active r \<and> not_excluded excl r \<and> d_hash r = h)
                  \<and> \<not> content_empty db h \<and> hash_needs_embed_inner db h base ast excl})"
proof -
  define rows where "rows = filter (\<lambda>r. d_active r \<and> \<not> content_empty db (d_hash r) \<and> not_excluded excl r) (documents db)"
  have "count_pending_hashes db base ast excl =
      int (length (filter (\<lambda>h. hash_needs_embed_inner db h base ast excl) (remdups (map d_hash rows))))"
  proof (cases "ast = []")
    case True
    then show ?thesis
      by (simp add: count_pending_hashes_def Let_def rows_def hash_needs_embed_inner_def)
  next
    case False
    have "hash_needs_embed_inner db h base ast excl = (\<not> routes_satisfied db base ast (filter (\<lambda>r. d_hash r = h) rows) h)"
      if "h \<in> set (remdups (map d_hash rows))" for h
    proof -
      have "\<not> content_empty db h" using that by (auto simp: rows_def)
      then show ?thesis
        using False nonempty_rows [of db h excl] by (simp add: hash_needs_embed_inner_def Let_def rows_def)
    qed
    then have "filter (\<lambda>h. hash_needs_embed_inner db h base ast excl) (remdups (map d_hash rows))
        = filter (\<lambda>h. \<not> routes_satisfied db base ast (filter (\<lambda>r. d_hash r = h) rows) h) (remdups (map d_hash rows))"
      by (intro filter_cong refl)
    then show ?thesis
      using False by (simp add: count_pending_hashes_def Let_def rows_def)
  qed
  also have "\<dots> = int (card {h \<in> set (map d_hash rows). hash_needs_embed_inner db h base ast excl})"
    by (simp only: length_filter_remdups)
  also have "{h \<in> set (map d_hash rows). hash_needs_embed_inner db h base ast excl}
      = {h. (\<exists>r\<in>set (documents db). d_active r \<and> not_excluded excl r \<and> d_hash r = h)
                  \<and> \<not> content_empty db h \<and> hash_needs_embed_inner db h base ast excl}"
    by (auto simp: rows_def)
  finally show ?thesis .
qed

lemma pending_count_cases:
  "count_docs_needing_embed_excluding db base ast excluded =
     int (card {h. (\<exists>r\<in>set (documents db). d_active r \<and> d_id r \<notin> set excluded \<and> d_hash r = h)
                  \<and> \<not> content_empty db h \<and> hash_needs_embed_excluding db h base ast excluded})"
proof (cases "excluded = []")
  case True
  then show ?thesis
    using count_pending_inner [of db base ast None]
    by (simp add: count_docs_needing_embed_excluding_def count_docs_needing_embed_def
        hash_needs_embed_excluding_def hash_needs_embed_def not_excluded_def)
next
  case False
  then show ?thesis
    using count_pending_inner [of db base ast "Some excluded"]
    by (simp add: count_docs_needing_embed_excluding_def hash_needs_embed_excluding_def not_excluded_def)
qed

text \<open>The pending count and the check that decides whether a hash is embedded agree: the count is
  the number of hashes of active, not excluded documents with a body for which the check says
  yes, whatever documents of different languages share a hash.\<close>
theorem pending_count_agrees:
  "count_docs_needing_embed_excluding db base ast excluded =
     int (card {h. (\<exists>r\<in>set (documents db). d_active r \<and> d_id r \<notin> set excluded \<and> d_hash r = h)
                  \<and> \<not> content_empty db h \<and> hash_needs_embed_excluding db h base ast excluded})"
  by (rule pending_count_cases)

end
