(* ===== verification/Resolve.thy ===== *)
theory Resolve
  imports DbDocs
begin

text \<open>
  Resolving the documents of \<open>get\<close> and \<open>multi-get\<close>, \<open>crates/rqmd-core/src/resolve.rs\<close>. A glob
  is compiled by the globset crate, which is not under src/: \<open>glob\<close> gives the matcher of a
  pattern, or \<open>None\<close> when it does not compile.
\<close>

subsection \<open>Which documents a plain entry matches\<close>

type_synonym posting = "string \<Rightarrow> nat list"

definition slash_suffixes :: "string \<Rightarrow> string list" where
  "slash_suffixes s = map (\<lambda>i. drop (Suc i) s) (filter (\<lambda>i. s ! i = CHR ''/'') [0..<length s])"

definition push_posting :: "string \<Rightarrow> nat \<Rightarrow> posting \<Rightarrow> posting" where
  "push_posting k i m = m(k := m k @ [i])"

record needle_index =
  ni_exact :: posting
  ni_suffix :: posting

definition doc_full_path :: "document \<Rightarrow> string" where
  "doc_full_path d = full_path (doc_collection d) (doc_path d)"

definition index_key :: "nat \<Rightarrow> string \<Rightarrow> needle_index \<Rightarrow> needle_index" where
  "index_key i key ix =
     \<lparr>ni_exact = push_posting key i (ni_exact ix),
      ni_suffix = fold (\<lambda>s. push_posting s i) (slash_suffixes (ascii_lower key)) (ni_suffix ix)\<rparr>"

definition needle_index_new :: "document list \<Rightarrow> needle_index" where
  "needle_index_new docs =
     fold (\<lambda>(i, d) ix. fold (index_key i) [doc_path d, doc_full_path d] ix) (enumerate 0 docs)
       \<lparr>ni_exact = (\<lambda>_. []), ni_suffix = (\<lambda>_. [])\<rparr>"

definition needle_count :: "needle_index \<Rightarrow> string \<Rightarrow> nat" where
  "needle_count ix needle =
     length (dedup_adjacent id (sort (ni_exact ix needle @ ni_suffix ix (ascii_lower needle))))"

subsection \<open>The multi-get pattern\<close>

datatype entry = Docid string | Glob string | PathEntry string

definition scheme :: string where "scheme = ''rqmd://''"

text \<open>\<open>trim_start_matches("rqmd://")\<close> strips the prefix as often as it occurs.\<close>

function strip_scheme :: "string \<Rightarrow> string" where
  "strip_scheme s = (if starts_with scheme s then strip_scheme (drop (length scheme) s) else s)"
  by pat_completeness auto
termination
  by (relation "measure length") (auto simp: starts_with_append scheme_def)

declare strip_scheme.simps [simp del]

definition classify :: "string \<Rightarrow> entry" where
  "classify e =
     (case strip_prefix ''#'' e of
        Some hex \<Rightarrow> Docid hex
      | None \<Rightarrow>
          if list_ex (\<lambda>c. c \<in> set e) [CHR ''*'', CHR ''?'', CHR ''['', CHR ''{'']
          then Glob (strip_scheme e) else PathEntry (strip_scheme e))"

definition pattern_entries :: "string \<Rightarrow> (string \<times> entry) list" where
  "pattern_entries pattern =
     map (\<lambda>p. (p, classify p)) (filter (\<lambda>p. p \<noteq> []) (map trim (split_on (CHR '','') pattern)))"

record multi_get_report =
  mr_documents :: "document list"
  mr_unmatched :: "string list"
  mr_ambiguous :: "(string \<times> nat) list"

datatype resolve_error = TooManyPaths nat | BadGlob string

definition MAX_DISTINCT_PATH_ENTRIES :: nat where "MAX_DISTINCT_PATH_ENTRIES = 5000"

definition path_needles :: "(string \<times> entry) list \<Rightarrow> string list" where
  "path_needles es = concat (map (\<lambda>(_, e). case e of PathEntry n \<Rightarrow> [n] | _ \<Rightarrow> []) es)"

definition glob_patterns :: "(string \<times> entry) list \<Rightarrow> string list" where
  "glob_patterns es = concat (map (\<lambda>(_, e). case e of Glob g \<Rightarrow> [g] | _ \<Rightarrow> []) es)"

definition docid_hits :: "db \<Rightarrow> (string \<times> entry) list \<Rightarrow> document list" where
  "docid_hits db es =
     concat (map (\<lambda>(_, e). case e of
        Docid hex \<Rightarrow> (case get_document_by_docid_prefix hex db of Some d \<Rightarrow> [d] | None \<Rightarrow> []) | _ \<Rightarrow> []) es)"

definition compile_glob :: "(string \<Rightarrow> (string \<Rightarrow> bool) option) \<Rightarrow> string \<Rightarrow> resolve_error + (string \<Rightarrow> bool)" where
  "compile_glob glob pattern = (case glob pattern of Some m \<Rightarrow> Inr m | None \<Rightarrow> Inl (BadGlob pattern))"

text \<open>The count the report gives an entry, from the lookups made for its kind.\<close>

definition entry_count ::
  "db \<Rightarrow> (string \<Rightarrow> (string \<Rightarrow> bool) option) \<Rightarrow> needle_index \<Rightarrow> document list \<Rightarrow> entry \<Rightarrow> nat" where
  "entry_count db glob ix listing e =
     (case e of
        Docid hex \<Rightarrow> (case get_document_by_docid_prefix hex db of Some _ \<Rightarrow> 1 | None \<Rightarrow> 0)
      | PathEntry n \<Rightarrow> needle_count ix n
      | Glob g \<Rightarrow> (case glob g of None \<Rightarrow> 0 | Some m \<Rightarrow> length (filter (\<lambda>d. m (doc_full_path d)) listing)))"

text \<open>The last loop: an entry is reported once, by its first occurrence that has something to say.\<close>

fun report_entries ::
  "(string \<times> entry \<times> nat) list \<Rightarrow> string set \<Rightarrow> string list \<times> (string \<times> nat) list" where
  "report_entries [] seen = ([], [])"
| "report_entries ((written, e, n) # es) seen =
     (let ambiguous = (case e of PathEntry _ \<Rightarrow> 1 < n | _ \<Rightarrow> False) in
      if (n = 0 \<or> ambiguous) \<and> written \<notin> seen then
        (case report_entries es (insert written seen) of
           (un, am) \<Rightarrow> if n = 0 then (written # un, am) else (un, (written, n) # am))
      else report_entries es seen)"

definition resolve_multi_get_report ::
  "(string \<Rightarrow> (string \<Rightarrow> bool) option) \<Rightarrow> db \<Rightarrow> string list option \<Rightarrow> string \<Rightarrow> resolve_error + multi_get_report" where
  "resolve_multi_get_report glob db cols pattern =
     (let es = pattern_entries pattern;
          needles = path_needles es;
          distinct_needles = dedup_on id needles;
          globs = glob_patterns es in
      if needles \<noteq> [] \<and> MAX_DISTINCT_PATH_ENTRIES < length distinct_needles
      then Inl (TooManyPaths (length distinct_needles))
      else
        (let matched = (if needles = [] then [] else find_documents_by_needles cols distinct_needles db);
             ix = needle_index_new matched in
         rbind (if globs = [] then Inr [] else rmap (compile_glob glob) globs) (\<lambda>matchers.
           let listing = (if globs = [] then [] else list_documents_multi cols db);
               glob_hits = filter (\<lambda>d. list_ex (\<lambda>m. m (doc_full_path d)) matchers) listing;
               docs = dedup_adjacent doc_id (sort_by document_le (docid_hits db es @ matched @ glob_hits));
               (un, am) = report_entries (map (\<lambda>(w, e). (w, e, entry_count db glob ix listing e)) es) {}
           in Inr \<lparr>mr_documents = docs, mr_unmatched = un, mr_ambiguous = am\<rparr>)))"

definition resolve_multi_get ::
  "(string \<Rightarrow> (string \<Rightarrow> bool) option) \<Rightarrow> db \<Rightarrow> string list option \<Rightarrow> string \<Rightarrow> resolve_error + document list" where
  "resolve_multi_get glob db cols pattern =
     rbind (resolve_multi_get_report glob db cols pattern) (\<lambda>r. Inr (mr_documents r))"

subsection \<open>The suffix arm of the SQL clause\<close>

lemma like_percent: "esc \<noteq> Some ''%'' \<Longrightarrow> like esc (''%'' # ps) t \<longleftrightarrow> (\<exists>i\<le>length t. like esc ps (drop i t))"
proof (induction t)
  case Nil
  then show ?case by (simp add: like.simps(2))
next
  case (Cons c t)
  have "like esc (''%'' # ps) (c # t) \<longleftrightarrow> like esc ps (c # t) \<or> like esc (''%'' # ps) t"
    using Cons.prems by (subst like.simps(2)) simp
  also have "\<dots> \<longleftrightarrow> (\<exists>i\<le>length (c # t). like esc ps (drop i (c # t)))"
    using Cons by (auto simp: ex_simps less_Suc_eq_le) (metis Suc_le_mono drop0 drop_Suc_Cons le0 not0_implies_Suc)+
  finally show ?case .
qed

lemma like_escape_exact: "like (Some [CHR 0x5C]) (escape_chars ps) t \<longleftrightarrow> list_all2 ci_eq ps t"
proof (induction ps arbitrary: t)
  case Nil
  then show ?case by (simp add: escape_chars_def)
next
  case (Cons p ps)
  have "like (Some [CHR 0x5C]) (escape_chars (p # ps)) t \<longleftrightarrow>
      (\<exists>c cs. t = c # cs \<and> ci_eq p c \<and> like (Some [CHR 0x5C]) (escape_chars ps) cs)"
    by (cases t) (auto simp: escape_chars_def like.simps)
  then show ?case using Cons by (cases t) auto
qed

lemma ci_eq_slash: "ci_eq ''/'' c \<longleftrightarrow> c = ''/''"
proof
  assume "ci_eq ''/'' c"
  then have "map ascii_lower_char c = ''/''" by (simp add: ci_eq_def ascii_lower_char_def is_ascii_upper_def)
  then obtain x where "c = [x]" "ascii_lower_char x = CHR ''/''" by (cases c) auto
  moreover have "\<not> is_ascii_upper x"
  proof
    assume u: "is_ascii_upper x"
    then have "byte (ascii_lower_char x) = byte x + 32" by (simp add: ascii_lower_char_def is_ascii_upper_def)
    moreover have "byte (ascii_lower_char x) = 47" using \<open>ascii_lower_char x = CHR ''/''\<close> by simp
    ultimately show False using u by (simp add: is_ascii_upper_def)
  qed
  ultimately show "c = ''/''" by (simp add: ascii_lower_char_def)
qed (simp add: ci_eq_def)

lemma slash_suffixes_iff: "t \<in> set (slash_suffixes s) \<longleftrightarrow> (\<exists>r. s = r @ CHR ''/'' # t)"
proof
  assume "t \<in> set (slash_suffixes s)"
  then obtain i where i: "i < length s" "s ! i = CHR ''/''" "t = drop (Suc i) s" by (auto simp: slash_suffixes_def)
  then have "s = take i s @ CHR ''/'' # t" by (metis id_take_nth_drop)
  then show "\<exists>r. s = r @ CHR ''/'' # t" by blast
next
  assume "\<exists>r. s = r @ CHR ''/'' # t"
  then obtain r where s: "s = r @ CHR ''/'' # t" by blast
  have "length r \<in> set (filter (\<lambda>i. s ! i = CHR ''/'') [0..<length s])" by (simp add: s)
  moreover have "t = drop (Suc (length r)) s" by (simp add: s)
  ultimately show "t \<in> set (slash_suffixes s)"
    unfolding slash_suffixes_def set_map by (rule image_eqI [rotated])
qed

lemma sql_suffix_iff:
  assumes "valid_utf8 n" and "valid_utf8 s"
  shows "sql_like_escape (''%/'' @ escape_like_pattern n) s \<longleftrightarrow> ascii_lower n \<in> set (slash_suffixes (ascii_lower s))"
proof -
  let ?cs = "chars s" and ?bs = "Some [CHR 0x5C]"
  have pat: "chars (''%/'' @ escape_like_pattern n) = ''%'' # ''/'' # escape_chars (chars n)"
    using chars_escape [OF assms(1), of "[]"] by (simp add: chars_Cons_ascii)
  have slash: "like ?bs (''/'' # escape_chars (chars n)) t \<longleftrightarrow>
      (\<exists>cs. t = ''/'' # cs \<and> list_all2 ci_eq (chars n) cs)" for t
    by (cases t) (auto simp: like.simps(2) ci_eq_slash like_escape_exact)
  have "sql_like_escape (''%/'' @ escape_like_pattern n) s \<longleftrightarrow>
      (\<exists>i\<le>length ?cs. \<exists>cs. drop i ?cs = ''/'' # cs \<and> list_all2 ci_eq (chars n) cs)"
    unfolding sql_like_escape_def pat by (simp add: like_percent slash)
  also have "\<dots> \<longleftrightarrow> (\<exists>as cs. ?cs = as @ ''/'' # cs \<and> list_all2 ci_eq (chars n) cs)"
    by (metis append_eq_conv_conj append_take_drop_id le_add1 length_append)
  also have "\<dots> \<longleftrightarrow> (\<exists>as. chars (ascii_lower s) = as @ ''/'' # chars (ascii_lower n))"
  proof
    assume "\<exists>as cs. ?cs = as @ ''/'' # cs \<and> list_all2 ci_eq (chars n) cs"
    then obtain as cs where "?cs = as @ ''/'' # cs" "list_all2 ci_eq (chars n) cs" by blast
    moreover have "map ascii_lower cs = map ascii_lower (chars n)"
      using calculation(2) by (auto simp: list_all2_conv_all_nth ci_eq_def list_eq_iff_nth_eq)
    ultimately have "chars (ascii_lower s) = map ascii_lower as @ ''/'' # chars (ascii_lower n)"
      by (simp add: chars_lower ascii_lower_char_def is_ascii_upper_def)
    then show "\<exists>as. chars (ascii_lower s) = as @ ''/'' # chars (ascii_lower n)" by blast
  next
    assume "\<exists>as. chars (ascii_lower s) = as @ ''/'' # chars (ascii_lower n)"
    then obtain as where as: "map ascii_lower ?cs = as @ ''/'' # map ascii_lower (chars n)"
      by (auto simp: chars_lower)
    then obtain bs c cs where bs: "?cs = bs @ c # cs" "ascii_lower c = ''/''" "map ascii_lower cs = map ascii_lower (chars n)"
      by (auto simp: map_eq_append_conv map_eq_Cons_conv)
    have "c = ''/''" using bs(2) ci_eq_slash [of c] by (simp add: ci_eq_def ascii_lower_char_def is_ascii_upper_def)
    moreover have "list_all2 ci_eq (chars n) cs"
      using bs(3) by (auto simp: list_all2_conv_all_nth ci_eq_def list_eq_iff_nth_eq)
    ultimately show "\<exists>as cs. ?cs = as @ ''/'' # cs \<and> list_all2 ci_eq (chars n) cs" using bs(1) by blast
  qed
  also have "\<dots> \<longleftrightarrow> (\<exists>r. ascii_lower s = r @ CHR ''/'' # ascii_lower n)"
  proof
    assume "\<exists>as. chars (ascii_lower s) = as @ ''/'' # chars (ascii_lower n)"
    then obtain as where "chars (ascii_lower s) = as @ ''/'' # chars (ascii_lower n)" by blast
    then have "concat (chars (ascii_lower s)) = concat as @ CHR ''/'' # concat (chars (ascii_lower n))" by simp
    then show "\<exists>r. ascii_lower s = r @ CHR ''/'' # ascii_lower n" by auto
  next
    assume "\<exists>r. ascii_lower s = r @ CHR ''/'' # ascii_lower n"
    then obtain r where r: "ascii_lower s = r @ CHR ''/'' # ascii_lower n" by blast
    have "is_char_boundary (ascii_lower s) (length r)"
      using boundary_after_ascii [OF valid_lower [OF assms(2)], of "length r"] unfolding r by (simp add: nth_append)
    then have "valid_utf8 r" using valid_utf8_cut [OF valid_lower [OF assms(2)], of "length r"] unfolding r by simp
    then show "\<exists>as. chars (ascii_lower s) = as @ ''/'' # chars (ascii_lower n)"
      unfolding r by (auto simp: chars_append chars_Cons_ascii)
  qed
  finally show ?thesis by (simp add: slash_suffixes_iff)
qed

subsection \<open>The index agrees with the SQL clause\<close>

lemma set_fold_push: "set (fold (\<lambda>s. push_posting s i) ss m k) = set (m k) \<union> (if k \<in> set ss then {i} else {})"
  by (induction ss arbitrary: m) (auto simp: push_posting_def)

lemma fold_index_docs_both:
  fixes docs :: "(nat \<times> document) list"
  shows "set (ni_exact (fold (\<lambda>(i, d) ix. fold (index_key i) [doc_path d, doc_full_path d] ix) docs ix) k)
      = set (ni_exact ix k) \<union> {i. \<exists>d. (i, d) \<in> set docs \<and> (doc_path d = k \<or> doc_full_path d = k)}
    \<and> set (ni_suffix (fold (\<lambda>(i, d) ix. fold (index_key i) [doc_path d, doc_full_path d] ix) docs ix) k)
      = set (ni_suffix ix k) \<union> {i. \<exists>d. (i, d) \<in> set docs \<and> (k \<in> set (slash_suffixes (ascii_lower (doc_path d)))
          \<or> k \<in> set (slash_suffixes (ascii_lower (doc_full_path d))))}"
proof (induction docs arbitrary: ix)
  case (Cons p docs)
  obtain i d where p: "p = (i, d)" by (cases p)
  let ?ix = "fold (index_key i) [doc_path d, doc_full_path d] ix"
  have "set (ni_exact ?ix k) = set (ni_exact ix k) \<union> (if doc_path d = k \<or> doc_full_path d = k then {i} else {})"
    by (auto simp: index_key_def push_posting_def)
  moreover have "set (ni_suffix ?ix k) = set (ni_suffix ix k) \<union>
      (if k \<in> set (slash_suffixes (ascii_lower (doc_path d))) \<or> k \<in> set (slash_suffixes (ascii_lower (doc_full_path d))) then {i} else {})"
    by (auto simp: index_key_def set_fold_push)
  ultimately show ?case
    using Cons.IH [of ?ix] unfolding p by auto
qed simp

lemmas fold_index_docs = fold_index_docs_both [THEN conjunct1] fold_index_docs_both [THEN conjunct2]

definition document_matches :: "string \<Rightarrow> document \<Rightarrow> bool" where
  "document_matches needle d \<longleftrightarrow>
     doc_path d = needle \<or> doc_full_path d = needle
     \<or> sql_like_escape (''%/'' @ escape_like_pattern needle) (doc_path d)
     \<or> sql_like_escape (''%/'' @ escape_like_pattern needle) (doc_full_path d)"

lemma document_matches_row: "document_matches needle (to_document r) = needle_matches needle r"
  by (simp add: document_matches_def needle_matches_def doc_full_path_def to_document_def)

lemma dedup_adjacent_id_sorted: "sorted xs \<Longrightarrow> distinct (dedup_adjacent id xs) \<and> set (dedup_adjacent id xs) = set xs"
  using dedup_adjacent_sorted [of "\<lambda>x. x" xs id] set_dedup_adjacent [of id xs] by simp

lemma length_dedup_sort: "length (dedup_adjacent id (sort (xs::nat list))) = card (set xs)"
proof -
  have "distinct (dedup_adjacent id (sort xs))" "set (dedup_adjacent id (sort xs)) = set xs"
    using dedup_adjacent_id_sorted [of "sort xs"] by auto
  then show ?thesis by (metis distinct_card)
qed

lemma needle_count_matches:
  assumes n: "valid_utf8 needle" and ds: "\<forall>d\<in>set docs. valid_utf8 (doc_path d) \<and> valid_utf8 (doc_collection d)"
  shows "needle_count (needle_index_new docs) needle = length (filter (document_matches needle) docs)"
proof -
  have full: "valid_utf8 (doc_full_path d)" if "d \<in> set docs" for d
  proof -
    have "valid_utf8 ''/''" by (intro valid_utf8_ascii) simp
    then show ?thesis using ds that by (simp add: doc_full_path_def full_path_def valid_utf8_append [of _ "CHR ''/'' # _"]
          valid_utf8_append [of "''/''", simplified])
  qed
  have "needle_count (needle_index_new docs) needle =
      card (set (ni_exact (needle_index_new docs) needle @ ni_suffix (needle_index_new docs) (ascii_lower needle)))"
    unfolding needle_count_def length_dedup_sort ..
  also have "set (ni_exact (needle_index_new docs) needle @ ni_suffix (needle_index_new docs) (ascii_lower needle))
      = {i. \<exists>d. (i, d) \<in> set (enumerate 0 docs) \<and> document_matches needle d}"
    unfolding needle_index_new_def set_append fold_index_docs
    using ds full sql_suffix_iff [OF n] by (auto simp: document_matches_def in_set_enumerate_eq)
  also have "\<dots> = {i. i < length docs \<and> document_matches needle (docs ! i)}"
    by (auto simp: in_set_enumerate_eq)
  finally show ?thesis by (simp add: length_filter_conv_card)
qed

subsection \<open>What a multi-get returns and reports\<close>

lemma merge_listing:
  assumes ok: "db_ok db" and ds: "set ds \<subseteq> to_document ` set (documents db)"
  defines "xs \<equiv> dedup_adjacent doc_id (sort_by document_le ds)"
  shows "sorted (map document_key xs)" "distinct (map document_key xs)" "set xs = set ds"
proof -
  have eqs: "(doc_id x = doc_id y) = (x = y) \<and> (document_key x = document_key y) = (x = y)"
    if x: "x \<in> set (sort_by document_le ds)" and y: "y \<in> set (sort_by document_le ds)" for x y
  proof -
    obtain r q where "r \<in> set (documents db)" "q \<in> set (documents db)" "x = to_document r" "y = to_document q"
      using subsetD [OF ds, of x] subsetD [OF ds, of y] x y by auto
    moreover have "(d_id r = d_id q) = (r = q)" "(doc_key r = doc_key q) = (r = q)"
      using doc_rows_inj [OF ok] calculation(1,2) by auto
    ultimately show ?thesis unfolding to_document_key by (metis to_document_key)
  qed
  have "sorted (map document_key xs) \<and> distinct (map document_key xs)"
    unfolding xs_def using sorted_document_key eqs by (intro dedup_adjacent_sorted) auto
  then show "sorted (map document_key xs)" "distinct (map document_key xs)" by auto
  have "set xs = set (sort_by document_le ds)"
    unfolding xs_def using eqs by (intro set_dedup_adjacent inj_onI) blast
  then show "set xs = set ds" by simp
qed

definition entry_docs ::
  "(string \<Rightarrow> (string \<Rightarrow> bool) option) \<Rightarrow> db \<Rightarrow> string list option \<Rightarrow> entry \<Rightarrow> document set" where
  "entry_docs glob db cols e =
     (case e of
        Docid hex \<Rightarrow> set_option (get_document_by_docid_prefix hex db)
      | PathEntry n \<Rightarrow> to_document ` {r \<in> set (documents db). d_active r \<and> in_collections cols (d_collection r) \<and> needle_matches n r}
      | Glob g \<Rightarrow> to_document ` {r \<in> set (documents db). d_active r \<and> in_collections cols (d_collection r)
                   \<and> (\<exists>m. glob g = Some m \<and> m (full_path (d_collection r) (d_path r)))})"

lemma dedup_seen_insert: "k \<notin> key ` set xs \<Longrightarrow> dedup_seen key (insert k seen) xs = dedup_seen key seen xs"
proof (induction xs arbitrary: seen)
  case (Cons x xs)
  then have k: "k \<noteq> key x" and xs: "k \<notin> key ` set xs" by auto
  show ?case using k Cons.IH [OF xs] by (auto simp: insert_commute)
qed simp

lemma report_entries_dedup:
  fixes cnt :: "entry \<Rightarrow> nat"
  assumes "\<forall>(w, e)\<in>set es. e = classify w"
  defines "ambig \<equiv> \<lambda>(w::string, e). (case e of PathEntry _ \<Rightarrow> 1 < cnt e | _ \<Rightarrow> False)"
  shows "report_entries (map (\<lambda>(w, e). (w, e, cnt e)) es) seen =
    (dedup_seen id seen (map fst (filter (\<lambda>(w, e). cnt e = 0) es)),
     dedup_seen fst seen (map (\<lambda>(w, e). (w, cnt e)) (filter ambig es)))"
  using assms(1)
proof (induction es arbitrary: seen)
  case (Cons p es)
  obtain w where p: "p = (w, classify w)" using Cons.prems by (cases p) auto
  let ?e = "classify w"
  have IH: "report_entries (map (\<lambda>(w, e). (w, e, cnt e)) es) seen' =
    (dedup_seen id seen' (map fst (filter (\<lambda>(w, e). cnt e = 0) es)),
     dedup_seen fst seen' (map (\<lambda>(w, e). (w, cnt e)) (filter ambig es)))" for seen'
    using Cons.prems by (intro Cons.IH) simp
  have same: "e' = ?e" if "(w, e') \<in> set es" for e' using that Cons.prems by auto
  have amb: "ambig (w, ?e) = (case ?e of PathEntry _ \<Rightarrow> 1 < cnt ?e | _ \<Rightarrow> False)" by (simp add: ambig_def)
  consider (un) "cnt ?e = 0" "\<not> ambig (w, ?e)" | (am) "cnt ?e \<noteq> 0" "ambig (w, ?e)" | (no) "cnt ?e \<noteq> 0" "\<not> ambig (w, ?e)"
    using amb by (cases ?e) auto
  then show ?case
  proof cases
    case un
    have "w \<notin> fst ` set (map (\<lambda>(w, e). (w, cnt e)) (filter ambig es))"
      using un(2) same by (auto simp: image_iff)
    then show ?thesis
      using un dedup_seen_insert [of w fst "map (\<lambda>(w, e). (w, cnt e)) (filter ambig es)" seen]
      by (simp add: p IH amb [symmetric] Let_def id_def)
  next
    case am
    have "w \<notin> id ` set (map fst (filter (\<lambda>(w, e). cnt e = 0) es))"
      using am(1) same by (auto simp: image_iff)
    then show ?thesis
      using am dedup_seen_insert [of w id "map fst (filter (\<lambda>(w, e). cnt e = 0) es)" seen]
      by (simp add: p IH amb [symmetric] Let_def id_def)
  next
    case no
    then show ?thesis by (simp add: p IH amb [symmetric] Let_def id_def)
  qed
qed simp

lemma pattern_entries_classified: "\<forall>(w, e)\<in>set (pattern_entries pattern). e = classify w"
  by (auto simp: pattern_entries_def)

lemma active_listing:
  assumes ok: "db_ok db"
  shows "distinct (list_documents_multi cols db)"
    and "set (list_documents_multi cols db) = to_document ` {r \<in> set (documents db). d_active r \<and> in_collections cols (d_collection r)}"
proof -
  have "distinct (map doc_key (filter (\<lambda>r. in_collections cols (d_collection r) \<and> d_active r) (documents db)))"
    using db_okD(2) [OF ok] unfolding tab_unique_def by (rule distinct_map_filter)
  then have "distinct (map document_key (list_documents_multi cols db))"
    unfolding list_documents_multi_def map_map o_def to_document_key distinct_map_sort_by .
  then show "distinct (list_documents_multi cols db)" by (rule distinct_map [THEN iffD1, THEN conjunct1])
  show "set (list_documents_multi cols db) = to_document ` {r \<in> set (documents db). d_active r \<and> in_collections cols (d_collection r)}"
    by (auto simp: list_documents_multi_def)
qed

lemma matched_listing:
  assumes ok: "db_ok db"
  shows "distinct (find_documents_by_needles cols ns db)"
    and "set (find_documents_by_needles cols ns db) =
      to_document ` {r \<in> set (documents db). d_active r \<and> in_collections cols (d_collection r) \<and> (\<exists>n\<in>set ns. needle_matches n r)}"
proof -
  let ?rows = "filter (\<lambda>r. d_active r \<and> list_ex (\<lambda>n. needle_matches n r) ns \<and> in_collections cols (d_collection r)) (documents db)"
  have f: "find_documents_by_needles cols ns db = map to_document (sort_by doc_le ?rows)"
    using needle_batches_single [OF ok, of cols ns] by (simp add: find_documents_by_needle_batch_def)
  have "distinct (map doc_key ?rows)"
    using db_okD(2) [OF ok] unfolding tab_unique_def by (rule distinct_map_filter)
  then have "distinct (map document_key (find_documents_by_needles cols ns db))"
    unfolding f map_map o_def to_document_key distinct_map_sort_by .
  then show "distinct (find_documents_by_needles cols ns db)" by (rule distinct_map [THEN iffD1, THEN conjunct1])
  show "set (find_documents_by_needles cols ns db) =
      to_document ` {r \<in> set (documents db). d_active r \<and> in_collections cols (d_collection r) \<and> (\<exists>n\<in>set ns. needle_matches n r)}"
    unfolding f by (auto simp: list_ex_iff)
qed

definition rows_utf8 :: "db \<Rightarrow> bool" where
  "rows_utf8 db \<longleftrightarrow> (\<forall>r\<in>set (documents db). valid_utf8 (d_path r) \<and> valid_utf8 (d_collection r))"

lemma entry_count_card:
  assumes ok: "db_ok db" and utf8: "rows_utf8 db" and e: "(w, e) \<in> set es"
    and ns: "\<forall>n\<in>set (path_needles es). valid_utf8 n"
    and matched: "matched = (if path_needles es = [] then [] else find_documents_by_needles cols (dedup_on id (path_needles es)) db)"
    and listing: "listing = (if glob_patterns es = [] then [] else list_documents_multi cols db)"
  shows "entry_count db glob (needle_index_new matched) listing e = card (entry_docs glob db cols e)"
proof (cases e)
  case (Docid hex)
  then show ?thesis by (cases "get_document_by_docid_prefix hex db") (simp_all add: entry_count_def entry_docs_def)
next
  case (PathEntry n)
  then have n: "n \<in> set (path_needles es)" using e by (force simp: path_needles_def)
  then have m: "matched = find_documents_by_needles cols (dedup_on id (path_needles es)) db" using matched by auto
  have sn: "set (dedup_on id (path_needles es)) = set (path_needles es)"
    using dedup_seen_keys [of id "{}" "path_needles es"] by simp
  have "\<forall>d\<in>set matched. valid_utf8 (doc_path d) \<and> valid_utf8 (doc_collection d)"
    using utf8 unfolding m matched_listing(2) [OF ok] by (auto simp: rows_utf8_def to_document_def)
  then have "needle_count (needle_index_new matched) n = length (filter (document_matches n) matched)"
    using ns n by (intro needle_count_matches) auto
  also have "\<dots> = card (set (filter (document_matches n) matched))"
    using matched_listing(1) [OF ok] unfolding m by (metis distinct_card distinct_filter)
  also have "set (filter (document_matches n) matched) = entry_docs glob db cols e"
    unfolding set_filter m matched_listing(2) [OF ok] sn using n
    by (auto simp: PathEntry entry_docs_def document_matches_row)
  finally show ?thesis by (simp add: PathEntry entry_count_def)
next
  case (Glob g)
  then have "glob_patterns es \<noteq> []" using e by (force simp: glob_patterns_def)
  then have l: "listing = list_documents_multi cols db" using listing by simp
  show ?thesis
  proof (cases "glob g")
    case None
    then show ?thesis by (simp add: Glob entry_count_def entry_docs_def)
  next
    case (Some m)
    have "length (filter (\<lambda>d. m (doc_full_path d)) listing) = card (set (filter (\<lambda>d. m (doc_full_path d)) listing))"
      using active_listing(1) [OF ok] unfolding l by (metis distinct_card distinct_filter)
    also have "set (filter (\<lambda>d. m (doc_full_path d)) listing) = entry_docs glob db cols e"
      unfolding set_filter l active_listing(2) [OF ok]
      by (auto simp: Glob Some entry_docs_def doc_full_path_def to_document_def)
    finally show ?thesis by (simp add: Glob Some entry_count_def)
  qed
qed

lemma dedup_on_id_card: "length (dedup_on id xs) = card (set xs)"
  using distinct_card [of "dedup_on id xs"] dedup_seen_distinct [of id "{}" xs] dedup_seen_keys [of id "{}" xs] by simp

lemma rmap_compile_glob:
  "(case rmap (compile_glob glob) gs of
      Inl e \<Rightarrow> \<exists>g\<in>set gs. e = BadGlob g \<and> glob g = None
    | Inr ms \<Rightarrow> set (map Some ms) = glob ` set gs)"
  by (induction gs) (auto simp: compile_glob_def rbind_def split: sum.splits option.splits)

lemma docid_prefix_row:
  assumes "get_document_by_docid_prefix hex db = Some d"
  shows "d \<in> to_document ` set (documents db)"
proof -
  define rows where "rows = sort_by doc_le
    (filter (\<lambda>r. sql_like_escape (escape_like_pattern hex @ ''%'') (d_hash r) \<and> d_active r) (documents db))"
  obtain r rs where r: "rows = r # rs" "d = to_document r"
    using assms unfolding get_document_by_docid_prefix_def Let_def rows_def [symmetric]
    by (auto split: if_splits list.splits)
  then have "r \<in> set rows" by simp
  then have "r \<in> set (documents db)" by (simp add: rows_def)
  then show ?thesis using r(2) by blast
qed

lemma docid_hits_rows: "set (docid_hits db es) \<subseteq> to_document ` set (documents db)"
  using docid_prefix_row by (auto simp: docid_hits_def split: entry.splits option.splits)

lemma image_filter: "{x \<in> f ` A. P x} = f ` {r \<in> A. P (f r)}"
  by auto

lemma union_by_kind:
  "(\<Union>(w, e)\<in>A. case e of Docid hex \<Rightarrow> f e | _ \<Rightarrow> {}) \<union> ((\<Union>(w, e)\<in>A. case e of PathEntry n \<Rightarrow> f e | _ \<Rightarrow> {})
    \<union> (\<Union>(w, e)\<in>A. case e of Glob g \<Rightarrow> f e | _ \<Rightarrow> {})) = (\<Union>(w, e)\<in>A. f e)"
proof -
  have "f e = (case e of Docid hex \<Rightarrow> f e | _ \<Rightarrow> {}) \<union> ((case e of PathEntry n \<Rightarrow> f e | _ \<Rightarrow> {})
      \<union> (case e of Glob g \<Rightarrow> f e | _ \<Rightarrow> {}))" for e
    by (cases e) simp_all
  then have "(\<lambda>(w, e). f e) = (\<lambda>(w, e). (case e of Docid hex \<Rightarrow> f e | _ \<Rightarrow> {}) \<union> ((case e of PathEntry n \<Rightarrow> f e | _ \<Rightarrow> {})
      \<union> (case e of Glob g \<Rightarrow> f e | _ \<Rightarrow> {})))" by auto
  then show ?thesis unfolding split_def UN_Un_distrib [symmetric] by (rule arg_cong [OF sym])
qed

lemma report_documents:
  assumes ok: "db_ok db"
    and matched: "matched = (if path_needles es = [] then [] else find_documents_by_needles cols (dedup_on id (path_needles es)) db)"
    and listing: "listing = (if glob_patterns es = [] then [] else list_documents_multi cols db)"
    and ms: "set (map Some ms) = glob ` set (glob_patterns es)"
  shows "set (docid_hits db es @ matched @ filter (\<lambda>d. list_ex (\<lambda>m. m (doc_full_path d)) ms) listing)
    = (\<Union>(w, e)\<in>set es. entry_docs glob db cols e)"
proof -
  have sn: "set (dedup_on id (path_needles es)) = set (path_needles es)"
    using dedup_seen_keys [of id "{}" "path_needles es"] by simp
  have d: "set (docid_hits db es) = (\<Union>(w, e)\<in>set es. case e of Docid hex \<Rightarrow> entry_docs glob db cols e | _ \<Rightarrow> {})"
    by (auto simp: docid_hits_def entry_docs_def split: entry.splits option.splits)
  have "set matched = to_document ` {r \<in> set (documents db). d_active r \<and> in_collections cols (d_collection r)
      \<and> (\<exists>n\<in>set (path_needles es). needle_matches n r)}"
    unfolding matched by (auto simp: matched_listing(2) [OF ok] sn)
  then have p: "set matched = (\<Union>(w, e)\<in>set es. case e of PathEntry n \<Rightarrow> entry_docs glob db cols e | _ \<Rightarrow> {})"
    by (auto simp: path_needles_def entry_docs_def split: entry.splits) blast
  have "set (filter (\<lambda>d. list_ex (\<lambda>m. m (doc_full_path d)) ms) listing) =
      to_document ` {r \<in> set (documents db). d_active r \<and> in_collections cols (d_collection r)
      \<and> (\<exists>g\<in>set (glob_patterns es). \<exists>m. glob g = Some m \<and> m (full_path (d_collection r) (d_path r)))}"
    (is "?l = ?r")
  proof (cases "glob_patterns es = []")
    case True
    then show ?thesis by (simp add: listing)
  next
    case False
    have m: "(\<exists>m\<in>set ms. m p) \<longleftrightarrow> (\<exists>g\<in>set (glob_patterns es). \<exists>m. glob g = Some m \<and> m p)" for p
    proof -
      have "(\<exists>m\<in>set ms. m p) \<longleftrightarrow> (\<exists>y\<in>set (map Some ms). \<exists>m. y = Some m \<and> m p)" by simp
      then show ?thesis unfolding ms by simp
    qed
    have l: "listing = list_documents_multi cols db" using False listing by simp
    have full: "doc_full_path (to_document r) = full_path (d_collection r) (d_path r)" for r
      by (simp add: doc_full_path_def to_document_def)
    show ?thesis
      unfolding set_filter l active_listing(2) [OF ok] list_ex_iff m image_filter full
      by (simp only: mem_Collect_eq conj_assoc)
  qed
  then have g: "set (filter (\<lambda>d. list_ex (\<lambda>m. m (doc_full_path d)) ms) listing)
      = (\<Union>(w, e)\<in>set es. case e of Glob g \<Rightarrow> entry_docs glob db cols e | _ \<Rightarrow> {})"
    by (auto simp: glob_patterns_def entry_docs_def split: entry.splits) blast
  show ?thesis unfolding set_append d p g by (rule union_by_kind)
qed

text \<open>C19: A multi-get either names the error (more than 5000 distinct paths, or a glob of the pattern
  that does not compile), or returns the documents of all its entries together, each once, in
  order of collection and path, and reports, by their first occurrence, exactly the entries that
  matched nothing and the plain paths that matched several documents with the true number.\<close>
theorem multi_get_report_spec:
  assumes "db_ok db" and "rows_utf8 db"
    and "\<forall>n\<in>set (path_needles (pattern_entries pattern)). valid_utf8 n"
  shows "let es = pattern_entries pattern; count = (\<lambda>e. card (entry_docs glob db cols e)) in
    case resolve_multi_get_report glob db cols pattern of
      Inl (TooManyPaths n) \<Rightarrow> n = card (set (path_needles es)) \<and> MAX_DISTINCT_PATH_ENTRIES < n
    | Inl (BadGlob g) \<Rightarrow> g \<in> set (glob_patterns es) \<and> glob g = None
    | Inr rep \<Rightarrow>
        sorted (map document_key (mr_documents rep)) \<and> distinct (map document_key (mr_documents rep))
      \<and> set (mr_documents rep) = (\<Union>(w, e)\<in>set es. entry_docs glob db cols e)
      \<and> mr_unmatched rep = dedup_on id (map fst (filter (\<lambda>(w, e). count e = 0) es))
      \<and> mr_ambiguous rep = dedup_on fst (map (\<lambda>(w, e). (w, count e))
          (filter (\<lambda>(w, e). case e of PathEntry _ \<Rightarrow> 1 < count e | _ \<Rightarrow> False) es))"
proof -
  let ?es = "pattern_entries pattern"
  define matched where "matched = (if path_needles ?es = [] then [] else find_documents_by_needles cols (dedup_on id (path_needles ?es)) db)"
  define listing where "listing = (if glob_patterns ?es = [] then [] else list_documents_multi cols db)"
  define cnt where "cnt = (\<lambda>e. card (entry_docs glob db cols e))"
  have cnt: "entry_count db glob (needle_index_new matched) listing e = cnt e" if "(w, e) \<in> set ?es" for w e
    using entry_count_card [OF assms(1,2) that assms(3) matched_def listing_def, of glob] by (simp add: cnt_def)
  have map_cnt: "map (\<lambda>(w, e). (w, e, entry_count db glob (needle_index_new matched) listing e)) ?es
      = map (\<lambda>(w, e). (w, e, cnt e)) ?es"
    using cnt by (intro map_cong refl) auto
  consider (many) "path_needles ?es \<noteq> []" "MAX_DISTINCT_PATH_ENTRIES < length (dedup_on id (path_needles ?es))"
    | (bad) e where "\<not> (path_needles ?es \<noteq> [] \<and> MAX_DISTINCT_PATH_ENTRIES < length (dedup_on id (path_needles ?es)))"
        "rmap (compile_glob glob) (glob_patterns ?es) = Inl e"
    | (ok) ms where "\<not> (path_needles ?es \<noteq> [] \<and> MAX_DISTINCT_PATH_ENTRIES < length (dedup_on id (path_needles ?es)))"
        "rmap (compile_glob glob) (glob_patterns ?es) = Inr ms"
    by (cases "rmap (compile_glob glob) (glob_patterns ?es)") blast+
  then show ?thesis
  proof cases
    case many
    then have "resolve_multi_get_report glob db cols pattern = Inl (TooManyPaths (length (dedup_on id (path_needles ?es))))"
      by (simp add: resolve_multi_get_report_def Let_def)
    then show ?thesis using many(2) by (simp add: dedup_on_id_card)
  next
    case bad
    then have "glob_patterns ?es \<noteq> []" by auto
    then have "resolve_multi_get_report glob db cols pattern = Inl e"
      using bad(2) unfolding resolve_multi_get_report_def Let_def if_not_P [OF bad(1)] by simp
    then show ?thesis using rmap_compile_glob [where glob = glob and gs = "glob_patterns ?es"] bad(2) by auto
  next
    case ok
    define ds where "ds = docid_hits db ?es @ matched @ filter (\<lambda>d. list_ex (\<lambda>m. m (doc_full_path d)) ms) listing"
    have "set (map Some ms) = glob ` set (glob_patterns ?es)"
      using rmap_compile_glob [where glob = glob and gs = "glob_patterns ?es"] ok(2) by simp
    then have sds: "set ds = (\<Union>(w, e)\<in>set ?es. entry_docs glob db cols e)"
      unfolding ds_def by (rule report_documents [OF assms(1) matched_def listing_def])
    have "set ds \<subseteq> to_document ` set (documents db)"
      unfolding ds_def using docid_hits_rows matched_listing(2) [OF assms(1)] active_listing(2) [OF assms(1)]
      by (auto simp: matched_def listing_def)
    note merged = merge_listing [OF assms(1) this]
    have gs: "(if glob_patterns ?es = [] then Inr [] else rmap (compile_glob glob) (glob_patterns ?es)) = Inr ms"
      using ok(2) by auto
    have "resolve_multi_get_report glob db cols pattern =
        Inr \<lparr>mr_documents = dedup_adjacent doc_id (sort_by document_le ds),
             mr_unmatched = dedup_on id (map fst (filter (\<lambda>(w, e). cnt e = 0) ?es)),
             mr_ambiguous = dedup_on fst (map (\<lambda>(w, e). (w, cnt e))
               (filter (\<lambda>(w, e). case e of PathEntry _ \<Rightarrow> 1 < cnt e | _ \<Rightarrow> False) ?es))\<rparr>"
      using ok(1) report_entries_dedup [OF pattern_entries_classified [of pattern], of cnt "{}"]
      unfolding resolve_multi_get_report_def Let_def matched_def [symmetric] listing_def [symmetric] gs
      by (simp add: map_cnt ds_def)
    then show ?thesis using merged sds unfolding Let_def cnt_def [symmetric] by simp
  qed
qed

lemma one_document_utf8: "rows_utf8 one_document"
  by (simp add: rows_utf8_def one_document_def new_doc_row_def valid_utf8_ascii)

lemma one_entry: "pattern_entries ''a.md'' = [(''a.md'', PathEntry ''a.md'')]"
proof -
  have "trim ''a.md'' = ''a.md''"
    by (rule trim_noop) (simp_all add: chars_Cons_ascii is_ws_cp_def)
  then show ?thesis
    by (simp add: pattern_entries_def classify_def strip_prefix_def starts_with_def strip_scheme.simps scheme_def)
qed

lemma multi_get_report_spec_witness:
  "\<exists>rep. resolve_multi_get_report (\<lambda>_. None) one_document None ''a.md'' = Inr rep
     \<and> map doc_id (mr_documents rep) = [1] \<and> mr_unmatched rep = []"
proof -
  let ?r = "new_doc_row ''c'' ''a.md'' ''A'' ''h'' ''t'' 1"
  define rep where "rep = projr (resolve_multi_get_report (\<lambda>_. None) one_document None ''a.md'')"
  have e: "entry_docs (\<lambda>_. None) one_document None (PathEntry ''a.md'') = {to_document ?r}"
    by (auto simp: entry_docs_def one_document_def new_doc_row_def needle_matches_def in_collections_def)
  have r: "resolve_multi_get_report (\<lambda>_. None) one_document None ''a.md'' = Inr rep"
    unfolding rep_def resolve_multi_get_report_def one_entry
    by (simp add: path_needles_def glob_patterns_def MAX_DISTINCT_PATH_ENTRIES_def Let_def split: prod.splits)
  have ns: "\<forall>n\<in>set (path_needles (pattern_entries ''a.md'')). valid_utf8 n"
    by (simp add: one_entry path_needles_def valid_utf8_ascii)
  have spec: "distinct (map document_key (mr_documents rep))" "set (mr_documents rep) = {to_document ?r}" "mr_unmatched rep = []"
    using multi_get_report_spec [OF one_document_ok one_document_utf8 ns, of "\<lambda>_. None" None] unfolding r Let_def one_entry by (simp_all add: e)
  have "length (mr_documents rep) = 1"
    using distinct_card [OF spec(1)] spec(2) by simp
  then have "mr_documents rep = [to_document ?r]" using spec(2) by (cases "mr_documents rep") auto
  then show ?thesis using r spec(3) by (simp add: to_document_def new_doc_row_def)
qed

end
