(* ===== verification/DbColls.thy ===== *)
theory DbColls
  imports DbInv
begin

text \<open>
  What the collection and configuration functions of \<open>db.rs\<close> promise: the configuration is a
  map (an interpretation of \<open>keyed_store\<close>), purging and renaming a collection touch only
  that collection, the scoped rebuild and the orphan sweep keep every vector an active
  document needs, a path's context is its nearest ancestor's, a collection reads back.
\<close>

subsection \<open>Configuration\<close>

abbreviation config_ok :: "db \<Rightarrow> bool" where
  "config_ok db \<equiv> tab_unique fst (config db)"

lemma get_config_update:
  assumes "config_ok db"
  shows "get_config k' (set_config k v db) = (if k' = k then Some v else get_config k' db)"
proof -
  have "tab_find fst k' (rows @ [(k, v)]) = (if k' = k then Some (k, v) else tab_find fst k' rows)"
    if "k \<notin> fst ` set rows" for rows
    using that by (induction rows) auto
  moreover have "k \<notin> fst ` set (tab_delete (\<lambda>kv. fst kv = k) (config db))" by auto
  ultimately show ?thesis
    using tab_find_delete [of fst k' "\<lambda>x. x = k" "config db"]
    by (simp add: get_config_def set_config_def)
qed

interpretation cfg: keyed_store config_ok get_config set_config delete_config
proof
  fix t k k' and v :: string
  assume ok: "config_ok t"
  show "config_ok (set_config k v t)"
    using ok by (auto simp: set_config_def tab_unique_append1 intro: tab_unique_delete)
  show "config_ok (delete_config k t)"
    using ok by (auto simp: delete_config_def intro: tab_unique_delete)
  show "get_config k' (set_config k v t) = (if k' = k then Some v else get_config k' t)"
    using ok by (rule get_config_update)
  show "get_config k' (delete_config k t) = (if k' = k then None else get_config k' t)"
    using tab_find_delete [of fst k' "\<lambda>x. x = k" "config t"] by (simp add: get_config_def delete_config_def)
qed

text \<open>Any run of set_config and delete_config calls makes the configuration table answer as the
  map that the same updates give (a refinement: the table's rows, their order and the
  delete-and-reinsert of INSERT OR REPLACE cannot be told from it).\<close>
theorem config_refines_map:
  assumes "db_ok db"
  shows "(\<lambda>k. get_config k (fold (\<lambda>(k, v) db. case v of Some x \<Rightarrow> set_config k x db | None \<Rightarrow> delete_config k db) ops db))
    = fold (\<lambda>(k, v) m. m(k := v)) ops (\<lambda>k. get_config k db)"
  using cfg.run_ops_refines_map [OF db_okD(7) [OF assms], of ops] unfolding cfg.run_ops_def .

lemma config_refines_map_witness:
  "(\<lambda>k. get_config k (delete_config ''a'' (set_config ''b'' ''2'' (set_config ''a'' ''1'' empty_db))))
    = (\<lambda>k. get_config k empty_db)(''a'' \<mapsto> ''1'', ''b'' \<mapsto> ''2'', ''a'' := None)"
  using config_refines_map [OF db_ok_empty, of "[(''a'', Some ''1''), (''b'', Some ''2''), (''a'', None)]"] by simp

lemma parse_dec_floor: "n < 2 ^ 64 \<Longrightarrow> parse_uint 64 (dec n) = Some n"
  by (rule parse_uint_dec)

lemma persist_floor:
  assumes "config_ok db" and "n < 2 ^ 64"
  shows "persisted_next_vid (persist_next_vid_floor n db) = max n (persisted_next_vid db)"
proof (cases "persisted_next_vid db < n")
  case True
  then show ?thesis
    using assms by (simp add: persist_next_vid_floor_def persisted_next_vid_def [of "set_config _ _ _"]
        cfg.get_put parse_dec_floor)
next
  case False
  then show ?thesis by (simp add: persist_next_vid_floor_def)
qed

subsection \<open>Contexts\<close>

definition ancestor_keys :: "string \<Rightarrow> string \<Rightarrow> string list" where
  "ancestor_keys coll rel_path =
     (let dirs = butlast (split_on (CHR ''/'') rel_path)
      in map (\<lambda>n. ''context:rqmd://'' @ coll @ ''/'' @ join ''/'' (take n dirs) @ ''/'') (rev [1..<Suc (length dirs)])
         @ [''context:rqmd://'' @ coll @ ''/'', ''context:/''])"

lemma find_context:
  "(case find (\<lambda>k. get_config k db \<noteq> None) (k # ks) of None \<Rightarrow> None | Some k \<Rightarrow> get_config k db)
    = (case get_config k db of Some v \<Rightarrow> Some v
       | None \<Rightarrow> (case find (\<lambda>k. get_config k db \<noteq> None) ks of None \<Rightarrow> None | Some k \<Rightarrow> get_config k db))"
  by (cases "get_config k db") simp_all

lemma context_walk_find:
  "context_walk coll dirs db =
    (case find (\<lambda>k. get_config k db \<noteq> None)
       (map (\<lambda>n. ''context:rqmd://'' @ coll @ ''/'' @ join ''/'' (take n dirs) @ ''/'') (rev [1..<Suc (length dirs)])
         @ [''context:rqmd://'' @ coll @ ''/'', ''context:/'']) of
       None \<Rightarrow> None | Some k \<Rightarrow> get_config k db)"
proof (induction coll dirs db rule: context_walk.induct)
  case (1 coll dirs db)
  let ?key = "\<lambda>d n. ''context:rqmd://'' @ coll @ ''/'' @ join ''/'' (take n d) @ ''/''"
  let ?tail = "[''context:rqmd://'' @ coll @ ''/'', ''context:/'']"
  let ?res = "\<lambda>ks. case find (\<lambda>k. get_config k db \<noteq> None) ks of None \<Rightarrow> None | Some k \<Rightarrow> get_config k db"
  show ?case
  proof (cases dirs rule: rev_cases)
    case Nil
    have "?res ?tail = get_context_for_collection coll db"
      unfolding find_context by (simp add: get_context_for_collection_def collection_context_key_def split: option.splits)
    then show ?thesis using Nil by (simp add: context_walk.simps)
  next
    case (snoc ds d)
    have len: "length dirs = Suc (length ds)" using snoc by simp
    have keys: "map (?key dirs) (rev [1..<Suc (length dirs)]) = ?key dirs (length dirs) # map (?key ds) (rev [1..<Suc (length ds)])"
      unfolding len using snoc by auto
    have cat: "map (?key dirs) (rev [1..<Suc (length dirs)]) @ ?tail
        = ?key dirs (length dirs) # (map (?key ds) (rev [1..<Suc (length ds)]) @ ?tail)"
      unfolding keys by (rule append_Cons)
    have "?res (map (?key dirs) (rev [1..<Suc (length dirs)]) @ ?tail) =
        (case get_config (?key dirs (length dirs)) db of Some v \<Rightarrow> Some v
         | None \<Rightarrow> ?res (map (?key ds) (rev [1..<Suc (length ds)]) @ ?tail))"
      unfolding cat by (rule find_context)
    also have "\<dots> = context_walk coll dirs db"
      using "1.IH" snoc by (subst context_walk.simps) (auto split: option.splits)
    finally show ?thesis ..
  qed
qed

text \<open>The context of a document is the one set on its nearest ancestor directory, then the
  collection's, then the global one: the first key of that list that is set decides.\<close>
theorem context_for_path_nearest:
  "get_context_for_path coll rel_path db =
    (case find (\<lambda>k. get_config k db \<noteq> None) (ancestor_keys coll rel_path) of
       None \<Rightarrow> None | Some k \<Rightarrow> get_config k db)"
  unfolding get_context_for_path_def ancestor_keys_def Let_def by (rule context_walk_find)

subsection \<open>Purging a collection\<close>

lemma get_content_filter:
  "get_content h (db\<lparr>contents := tab_delete (\<lambda>c. ct_hash c \<notin> hs) (contents db)\<rparr>)
    = (if h \<in> hs then get_content h db else None)"
  using tab_find_delete [of ct_hash h "\<lambda>x. x \<notin> hs" "contents db"] by (simp add: get_content_def)

lemma get_config_filter:
  "get_config k (db\<lparr>config := tab_delete (\<lambda>kv. q (fst kv)) (config db)\<rparr>) = (if q k then None else get_config k db)"
  using tab_find_delete [of fst k q "config db"] by (simp add: get_config_def)

lemma purge_fields:
  "documents (fst (purge_collection name db)) = tab_delete (\<lambda>r. d_collection r = name) (documents db)"
  "collections (fst (purge_collection name db)) = tab_delete (\<lambda>k. k_name k = name) (collections db)"
  "vectors (fst (purge_collection name db)) =
     tab_delete (\<lambda>v. v_hash v \<notin> document_hashes (fst (purge_collection name db))) (vectors db)"
  "contents (fst (purge_collection name db)) =
     tab_delete (\<lambda>c. ct_hash c \<notin> document_hashes (fst (purge_collection name db))) (contents db)"
  "config (fst (purge_collection name db)) =
     tab_delete (\<lambda>kv. starts_with (collection_context_key name) (fst kv)) (config db)"
  by (simp_all add: purge_collection_def Let_def delete_vectors_def delete_unreferenced_content_def document_hashes_def)

text \<open>Purging a collection removes its documents, its contexts and its row, and the contents and
  vectors no remaining document refers to; documents of other collections stay, each with its
  content and vectors, and the returned full-text paths are those of the removed documents.\<close>
theorem purge_collection_spec:
  assumes ok: "db_ok db" and r: "purge_collection name db = (db', files)"
  shows "set (documents db') = {r \<in> set (documents db). d_collection r \<noteq> name}
    \<and> set files = {full_path name (d_path r) |r. r \<in> set (documents db) \<and> d_collection r = name}
    \<and> (\<forall>r\<in>set (documents db'). get_content (d_hash r) db' = get_content (d_hash r) db \<and> get_content (d_hash r) db' \<noteq> None
         \<and> {v \<in> set (vectors db'). v_hash v = d_hash r} = {v \<in> set (vectors db). v_hash v = d_hash r})
    \<and> (\<forall>h. h \<notin> document_hashes db' \<longrightarrow> get_content h db' = None \<and> \<not> hash_has_any_vector db' h)
    \<and> (\<forall>k. get_config k db' = (if starts_with (collection_context_key name) k then None else get_config k db))
    \<and> set (collections db') = {k \<in> set (collections db). k_name k \<noteq> name}"
proof -
  have db': "db' = fst (purge_collection name db)" using r by simp
  note f = purge_fields [of name db, folded db']
  have gc: "get_content h db' = (if h \<in> document_hashes db' then get_content h db else None)" for h
    using get_content_filter [where h = h and db = db and hs = "document_hashes db'"] by (simp add: get_content_def f(4))
  have "get_content (d_hash x) db \<noteq> None" if "x \<in> set (documents db)" for x
    using db_okD(8) [OF ok] that by (auto simp: get_content_None)
  then have a: "get_content (d_hash x) db' = get_content (d_hash x) db \<and> get_content (d_hash x) db' \<noteq> None
         \<and> {v \<in> set (vectors db'). v_hash v = d_hash x} = {v \<in> set (vectors db). v_hash v = d_hash x}"
    if "x \<in> set (documents db')" for x
  proof -
    have "d_hash x \<in> document_hashes db'" using that by (simp add: document_hashes_def)
    moreover have "x \<in> set (documents db)" using that by (simp add: f(1))
    ultimately show ?thesis using \<open>\<And>x. x \<in> set (documents db) \<Longrightarrow> get_content (d_hash x) db \<noteq> None\<close>
      by (auto simp: gc f(3))
  qed
  have b: "get_content h db' = None \<and> \<not> hash_has_any_vector db' h" if "h \<notin> document_hashes db'" for h
    using that by (auto simp: gc hash_has_any_vector_def list_ex_iff f(3))
  have c: "get_config k db' = (if starts_with (collection_context_key name) k then None else get_config k db)" for k
    using get_config_filter [where k = k and db = db and q = "starts_with (collection_context_key name)"] by (simp add: get_config_def f(5))
  have d: "set files = {full_path name (d_path r) |r. r \<in> set (documents db) \<and> d_collection r = name}"
    using r by (auto simp: purge_collection_def Let_def)
  have docs: "set (documents db') = {r \<in> set (documents db). d_collection r \<noteq> name}"
    and colls: "set (collections db') = {k \<in> set (collections db). k_name k \<noteq> name}"
    by (simp_all add: f(1,2))
  have a': "\<forall>r\<in>set (documents db'). get_content (d_hash r) db' = get_content (d_hash r) db \<and> get_content (d_hash r) db' \<noteq> None
         \<and> {v \<in> set (vectors db'). v_hash v = d_hash r} = {v \<in> set (vectors db). v_hash v = d_hash r}"
    using a by (rule ballI)
  show ?thesis using b c by (intro conjI docs colls a' d allI impI) auto
qed

lemma purge_collection_spec_witness:
  "get_config ''context:rqmd://c/sub/'' (fst (purge_collection ''c'' (set_config ''context:rqmd://c/sub/'' ''x'' empty_db))) = None"
proof -
  let ?db = "set_config ''context:rqmd://c/sub/'' ''x'' empty_db"
  have ok: "db_ok ?db" by (rule db_ok_set_config [OF db_ok_empty])
  have "starts_with (collection_context_key ''c'') ''context:rqmd://c/sub/''" by code_simp
  then show ?thesis
    using purge_collection_spec [OF ok surjective_pairing, of "''c''"] by simp
qed

subsection \<open>Scoped rebuild\<close>

text \<open>The scoped rebuild deletes a vector row exactly when every active document on its hash is in
  the collection (and some is); the vector ids it evicts beforehand are exactly those of the
  deleted rows, so no vector of another collection's active document is lost.\<close>
theorem scoped_rebuild_spec:
  assumes r: "clear_vectors_for_collection coll db = (db', n)"
  shows "set (vectors db') = {v \<in> set (vectors db). \<not> ((\<exists>r\<in>set (documents db). d_active r \<and> d_hash r = v_hash v)
            \<and> (\<forall>r\<in>set (documents db). d_active r \<and> d_hash r = v_hash v \<longrightarrow> d_collection r = coll))}
    \<and> n = length (vectors db) - length (vectors db')
    \<and> set (rebuildable_vids_for_collection coll db)
        = {as_u64 i |v i. v \<in> set (vectors db) - set (vectors db') \<and> v_vid v = Some i}
    \<and> (\<forall>r\<in>set (documents db). d_active r \<and> d_collection r \<noteq> coll \<longrightarrow>
         (\<forall>v\<in>set (vectors db). v_hash v = d_hash r \<longrightarrow> v \<in> set (vectors db')))
    \<and> documents db' = documents db \<and> contents db' = contents db"
proof -
  have ns: "not_shared coll db v \<longleftrightarrow> (\<exists>r\<in>set (documents db). d_active r \<and> d_hash r = v_hash v)
            \<and> (\<forall>r\<in>set (documents db). d_active r \<and> d_hash r = v_hash v \<longrightarrow> d_collection r = coll)" for v
    by (auto simp: not_shared_def list_ex_iff)
  have db': "db' = db\<lparr>vectors := tab_delete (not_shared coll db) (vectors db)\<rparr>"
    and n: "n = length (filter (not_shared coll db) (vectors db))"
    using r by (auto simp: clear_vectors_for_collection_def delete_vectors_def)
  have vs: "set (vectors db') = {v \<in> set (vectors db). \<not> not_shared coll db v}" by (simp add: db')
  have "n = length (vectors db) - length (vectors db')"
    using sum_length_filter_compl [of "not_shared coll db" "vectors db"] by (simp add: n db' tab_delete_def)
  moreover have "set (rebuildable_vids_for_collection coll db)
        = {as_u64 i |v i. v \<in> set (vectors db) - set (vectors db') \<and> v_vid v = Some i}"
    unfolding vs rebuildable_vids_for_collection_def by (auto split: option.splits) metis
  moreover have "\<forall>r\<in>set (documents db). d_active r \<and> d_collection r \<noteq> coll \<longrightarrow>
         (\<forall>v\<in>set (vectors db). v_hash v = d_hash r \<longrightarrow> v \<in> set (vectors db'))"
    unfolding vs by (auto simp: ns)
  moreover have "documents db' = documents db" "contents db' = contents db" by (simp_all add: db')
  ultimately show ?thesis using vs [unfolded ns] by (intro conjI)
qed

lemma scoped_rebuild_spec_witness:
  "vectors (fst (clear_vectors_for_collection ''a'' empty_db)) = []"
  using scoped_rebuild_spec [OF surjective_pairing, of "''a''" empty_db] by (simp add: empty_db_def)

subsection \<open>Renaming a collection\<close>

abbreviation look :: "(string \<times> string) list \<Rightarrow> string \<Rightarrow> string option" where
  "look rows k \<equiv> map_option snd (tab_find fst k rows)"

lemma tab_find_append: "tab_find key k (xs @ ys) = (case tab_find key k xs of Some r \<Rightarrow> Some r | None \<Rightarrow> tab_find key k ys)"
  by (induction xs) auto

lemma look_delete: "look (tab_delete (\<lambda>kv. fst kv = k') rows) k = (if k = k' then None else look rows k)"
  using tab_find_delete [of fst k "\<lambda>x. x = k'" rows] by simp

lemma starts_drop: "starts_with p k \<Longrightarrow> k = p @ drop (length p) k"
  by (metis append_eq_conv_conj starts_with_append)

lemma rename_rows_look:
  assumes "tab_unique fst (done @ rows)" and "\<And>s. \<not> starts_with old_p (new_p @ s)"
    and "\<And>kv. kv \<in> set done \<Longrightarrow> \<not> starts_with old_p (fst kv)"
  shows "look (rename_rows old_p new_p done rows) k =
    (if starts_with old_p k then None
     else case (if starts_with new_p k then look rows (old_p @ drop (length new_p) k) else None) of
       Some v \<Rightarrow> Some v | None \<Rightarrow> look (done @ rows) k)"
  using assms
proof (induction old_p new_p "done" rows rule: rename_rows.induct)
  case (1 old_p new_p "done" rows)
  show ?case
  proof (cases rows)
    case Nil
    have "look done k = None" if "starts_with old_p k"
      using that "1.prems"(3) by (auto simp: tab_find_None)
    then show ?thesis using Nil by (simp add: rename_rows.simps)
  next
    case (Cons kv rest)
    obtain k0 v0 where kv: "kv = (k0, v0)" by (cases kv)
    let ?k' = "new_p @ drop (length old_p) k0"
    let ?del = "tab_delete (\<lambda>kv. fst kv = ?k')"
    have step: "rename_rows old_p new_p done rows =
        (if \<not> starts_with old_p k0 \<or> ?k' = k0 then rename_rows old_p new_p (done @ [(k0, v0)]) rest
         else rename_rows old_p new_p (?del done @ [(?k', v0)]) (?del rest))"
      unfolding Cons kv by (subst rename_rows.simps) (simp add: Let_def)
    show ?thesis
    proof (cases "starts_with old_p k0")
      case False
      have IH: "look (rename_rows old_p new_p (done @ [(k0, v0)]) rest) k =
          (if starts_with old_p k then None
           else case (if starts_with new_p k then look rest (old_p @ drop (length new_p) k) else None) of
             Some v \<Rightarrow> Some v | None \<Rightarrow> look ((done @ [(k0, v0)]) @ rest) k)"
        using "1.prems" Cons kv False by (intro "1.IH"(1) [OF Cons kv [symmetric] refl]) auto
      have app: "(done @ [(k0, v0)]) @ rest = done @ rows" by (simp add: Cons kv)
      have "k0 \<noteq> old_p @ x" for x using False by (auto simp: starts_with_append)
      then have "look rows (old_p @ x) = look rest (old_p @ x)" for x by (simp add: Cons kv)
      then show ?thesis unfolding step using False IH [unfolded app] by simp
    next
      case True
      define s where "s = drop (length old_p) k0"
      have k0: "k0 = old_p @ s" using starts_drop [OF True] by (simp add: s_def)
      have ne: "?k' \<noteq> k0" using "1.prems"(2) True by metis
      have IH: "look (rename_rows old_p new_p (?del done @ [(?k', v0)]) (?del rest)) k =
          (if starts_with old_p k then None
           else case (if starts_with new_p k then look (?del rest) (old_p @ drop (length new_p) k) else None) of
             Some v \<Rightarrow> Some v | None \<Rightarrow> look ((?del done @ [(?k', v0)]) @ ?del rest) k)"
      proof (rule "1.IH"(2) [OF Cons kv [symmetric] refl])
        show "\<not> (\<not> starts_with old_p k0 \<or> ?k' = k0)" using True ne by simp
        show "tab_unique fst ((?del done @ [(?k', v0)]) @ ?del rest)"
          using "1.prems"(1) unfolding Cons kv by (auto simp: tab_unique_def tab_delete_def distinct_map_filter)
        show "\<not> starts_with old_p (fst kv')" if "kv' \<in> set (?del done @ [(?k', v0)])" for kv'
          using that "1.prems"(2) "1.prems"(3) [of kv'] by auto
      qed (rule "1.prems"(2))
      have fresh: "look rest k0 = None" using "1.prems"(1) unfolding Cons kv
        by (auto simp: tab_unique_def tab_find_None)
      show ?thesis
      proof (cases "starts_with old_p k")
        case True
        then show ?thesis unfolding step using IH \<open>starts_with old_p k0\<close> ne by simp
      next
        case False
        then have kk: "k \<noteq> k0" using \<open>starts_with old_p k0\<close> by auto
        have old_ne: "old_p @ x \<noteq> ?k'" for x using "1.prems"(2) by (metis starts_with_append)
        show ?thesis
        proof (cases "k = ?k'")
          case True
          then have "starts_with new_p k" "drop (length new_p) k = s" by (simp_all add: starts_with_append s_def)
          moreover have "tab_find fst (new_p @ s) (tab_delete (\<lambda>kv. fst kv = new_p @ s) done) = None"
            by (auto simp: tab_find_None)
          ultimately show ?thesis
            unfolding step using IH \<open>starts_with old_p k0\<close> ne False fresh Cons kv True old_ne [of s] k0
            by (simp add: look_delete [unfolded o_def] tab_find_append s_def [symmetric] split: option.splits)
        next
          case 2: False
          have m1: "look rows (old_p @ drop (length new_p) k) = look rest (old_p @ drop (length new_p) k)"
            if "starts_with new_p k"
          proof -
            have "k0 \<noteq> old_p @ drop (length new_p) k"
            proof
              assume "k0 = old_p @ drop (length new_p) k"
              then have "drop (length old_p) k0 = drop (length new_p) k" by simp
              then show False using 2 starts_drop [OF that] by simp
            qed
            then show ?thesis by (simp add: Cons kv)
          qed
          have m2: "look ((?del done @ [(?k', v0)]) @ ?del rest) k = look (done @ rows) k"
            using 2 kk look_delete [where k = k and k' = ?k' and rows = "done"]
              look_delete [where k = k and k' = ?k' and rows = rest] Cons kv
            by (auto simp: tab_find_append split: option.splits)
          have m3: "look (?del rest) (old_p @ x) = look rest (old_p @ x)" for x
            using look_delete [where k = "old_p @ x" and k' = ?k' and rows = rest] old_ne [of x] by simp
          show ?thesis
            unfolding step using IH [unfolded m2 m3] m1 \<open>starts_with old_p k0\<close> ne False
            by (cases "starts_with new_p k") simp_all
        qed
      qed
    qed
  qed
qed

lemma slash_free_prefix:
  assumes "CHR ''/'' \<notin> set a" and "CHR ''/'' \<notin> set b" and "b @ CHR ''/'' # s = a @ CHR ''/'' # t"
  shows "a = b"
  using assms
proof (induction a arbitrary: b)
  case Nil
  then show ?case by (cases b) auto
next
  case (Cons c a)
  then show ?case by (cases b) auto
qed

lemma context_key_apart:
  assumes "CHR ''/'' \<notin> set old" and "CHR ''/'' \<notin> set new" and "old \<noteq> new"
  shows "\<not> starts_with (collection_context_key old) (collection_context_key new @ s)"
proof
  assume "starts_with (collection_context_key old) (collection_context_key new @ s)"
  then obtain t where "new @ CHR ''/'' # s = old @ CHR ''/'' # t"
    by (auto simp: starts_with_append collection_context_key_def)
  from slash_free_prefix [OF assms(1,2) this] assms(3) show False by simp
qed

lemma find_renamed_doc:
  assumes "\<forall>x\<in>set rows. d_collection x \<noteq> new"
  shows "tab_find doc_key (c, p) (map (\<lambda>r. if d_collection r = old then r\<lparr>d_collection := new\<rparr> else r) rows)
    = (if c = new then map_option (\<lambda>r. r\<lparr>d_collection := new\<rparr>) (tab_find doc_key (old, p) rows)
       else if c = old then None else tab_find doc_key (c, p) rows)"
  using assms by (induction rows) auto

text \<open>C18: Renaming a collection (names without a slash) fails exactly when the new name is taken by a
  collection or a document. Otherwise every document is found under the new name with its
  id, title, hash and state, none under the old one, the others are untouched; each path context
  moves with the collection, replacing what the new name may have left behind, and no other
  configuration key changes.\<close>
theorem rename_collection_spec:
  assumes ok: "db_ok db" and names: "CHR ''/'' \<notin> set old" "CHR ''/'' \<notin> set new" "old \<noteq> new"
  shows "(rename_collection old new db = Inl (NameTaken new) \<longleftrightarrow>
      new \<in> k_name ` set (collections db) \<union> d_collection ` set (documents db))
    \<and> (\<forall>db'. rename_collection old new db = Inr db' \<longrightarrow>
        (\<forall>c p. get_document_by_filepath c p db' =
           (if c = new then map_option (\<lambda>d. d\<lparr>doc_collection := new\<rparr>) (get_document_by_filepath old p db)
            else if c = old then None else get_document_by_filepath c p db))
        \<and> (\<forall>s. get_config (collection_context_key new @ s) db' =
           (case get_config (collection_context_key old @ s) db of Some v \<Rightarrow> Some v
            | None \<Rightarrow> get_config (collection_context_key new @ s) db))
        \<and> (\<forall>s. get_config (collection_context_key old @ s) db' = None)
        \<and> (\<forall>k. \<not> starts_with (collection_context_key old) k \<and> \<not> starts_with (collection_context_key new) k \<longrightarrow>
             get_config k db' = get_config k db))"
proof (intro conjI allI impI)
  show "rename_collection old new db = Inl (NameTaken new) \<longleftrightarrow>
      new \<in> k_name ` set (collections db) \<union> d_collection ` set (documents db)"
    by (auto simp: rename_collection_def Let_def list_ex_iff image_iff)
next
  fix db'
  assume r: "rename_collection old new db = Inr db'"
  let ?o = "collection_context_key old" and ?n = "collection_context_key new"
  have free: "\<forall>x\<in>set (documents db). d_collection x \<noteq> new"
    and docs: "documents db' = map (\<lambda>r. if d_collection r = old then r\<lparr>d_collection := new\<rparr> else r) (documents db)"
    and cfg: "config db' = rename_rows ?o ?n [] (config db)"
    using r by (auto simp: rename_collection_def rename_prefix_def Let_def update_colls_def update_docs_def list_ex_iff
        split: if_splits)
  fix c p
  show "get_document_by_filepath c p db' =
      (if c = new then map_option (\<lambda>d. d\<lparr>doc_collection := new\<rparr>) (get_document_by_filepath old p db)
       else if c = old then None else get_document_by_filepath c p db)"
    unfolding get_document_by_filepath_def docs find_renamed_doc [OF free]
    by (simp add: option.map_comp o_def to_document_def)
  have look: "get_config k db' = (if starts_with ?o k then None
     else case (if starts_with ?n k then get_config (?o @ drop (length ?n) k) db else None) of
       Some v \<Rightarrow> Some v | None \<Rightarrow> get_config k db)" for k
    unfolding get_config_def cfg
    by (rule rename_rows_look [of "[]" "config db" ?o ?n k, unfolded append_Nil, OF db_okD(7) [OF ok] context_key_apart [OF names]])
      simp
  fix s
  have "\<not> starts_with ?o (?n @ s)" by (rule context_key_apart [OF names])
  then show "get_config (?n @ s) db' =
      (case get_config (?o @ s) db of Some v \<Rightarrow> Some v | None \<Rightarrow> get_config (?n @ s) db)"
    unfolding look [of "?n @ s"] by (simp add: starts_with_append)
  show "get_config (?o @ s) db' = None" unfolding look [of "?o @ s"] by (simp add: starts_with_append)
  fix k
  assume "\<not> starts_with ?o k \<and> \<not> starts_with ?n k"
  then show "get_config k db' = get_config k db" unfolding look [of k] by simp
qed

lemma rename_collection_spec_witness:
  "\<exists>db'. rename_collection ''a'' ''b'' (set_config ''context:rqmd://a/'' ''x'' empty_db) = Inr db'
     \<and> get_config ''context:rqmd://b/'' db' = Some ''x''"
proof -
  let ?db = "set_config ''context:rqmd://a/'' ''x'' empty_db"
  have ok: "db_ok ?db" by (rule db_ok_set_config [OF db_ok_empty])
  have n: "CHR ''/'' \<notin> set ''a''" "CHR ''/'' \<notin> set ''b''" "''a'' \<noteq> ''b''" by simp_all
  define db' where "db' = projr (rename_collection ''a'' ''b'' ?db)"
  have r: "rename_collection ''a'' ''b'' ?db = Inr db'"
    unfolding db'_def rename_collection_def by (simp add: set_config_def empty_db_def Let_def)
  have "get_config (collection_context_key ''a'' @ []) ?db = Some ''x''"
    by (simp add: collection_context_key_def get_config_def set_config_def empty_db_def tab_delete_def)
  then have "get_config (collection_context_key ''b'' @ []) db' = Some ''x''"
    using rename_collection_spec [OF ok n, THEN conjunct2, THEN spec, THEN mp, OF r, THEN conjunct2, THEN conjunct1,
        THEN spec, of "[]"] by simp
  then show ?thesis using r by (intro exI [of _ db'] conjI) (simp_all add: collection_context_key_def)
qed

subsection \<open>Collections read back\<close>

text \<open>The largest cap the table holds: a \<open>u64\<close> of 2^63 or more is stored negative and read as none.\<close>

definition caps_fit :: "collection \<Rightarrow> bool" where
  "caps_fit c \<longleftrightarrow> (\<forall>n. col_max_file_bytes c = Some n \<or> col_embed_max_bytes c = Some n \<longrightarrow> n < 2 ^ 63)"

lemma cap_roundtrip: "(\<And>n. m = Some n \<Longrightarrow> n < 2 ^ 63) \<Longrightarrow> Option.bind (map_option as_i64 m) u64_try_from = m"
  by (cases m) (auto simp: as_i64_small u64_try_from_def)

lemma to_collection_update:
  assumes codec: "\<And>xs. dec_strings j (enc_strings j xs) = Some xs" and "caps_fit c" and "k_name r = col_name c"
  shows "to_collection j (coll_update j c r) = c"
proof -
  have "Option.bind (map_option as_i64 (col_max_file_bytes c)) u64_try_from = col_max_file_bytes c"
    "Option.bind (map_option as_i64 (col_embed_max_bytes c)) u64_try_from = col_embed_max_bytes c"
    using assms(2) by (auto simp: caps_fit_def intro!: cap_roundtrip)
  then show ?thesis
    using codec assms(3)
    by (cases c) (auto simp: to_collection_def coll_update_def dec_or_empty_def embed_ignore_json_def bool_int_def)
qed

text \<open>A stored collection is listed back exactly as it was given, with its patterns, flags and byte
  caps (below 2^63), under its name and nowhere else; the other collections are listed as before.
  The codec of string lists is only asked to invert its own encoding.\<close>
theorem upsert_collection_roundtrip:
  assumes ok: "db_ok db" and codec: "\<And>xs. dec_strings j (enc_strings j xs) = Some xs" and fit: "caps_fit c"
  shows "filter (\<lambda>d. col_name d = col_name c) (list_collections j (upsert_collection j c db)) = [c]
    \<and> filter (\<lambda>d. col_name d \<noteq> col_name c) (list_collections j (upsert_collection j c db))
        = filter (\<lambda>d. col_name d \<noteq> col_name c) (list_collections j db)"
proof -
  have nm: "col_name (to_collection j r) = k_name r" for r by (simp add: to_collection_def)
  have blank: "to_collection j (coll_update j c (blank_coll (col_name c))) = c"
    using codec fit by (intro to_collection_update) (simp_all add: blank_coll_def)
  have bn: "k_name (blank_coll n) = n" for n by (simp add: blank_coll_def)
  have "filter (\<lambda>d. col_name d = col_name c) (map (to_collection j)
        (tab_upsert k_name (col_name c) (coll_update j c (blank_coll (col_name c))) (coll_update j c) rows)) = [c]
    \<and> filter (\<lambda>d. col_name d \<noteq> col_name c) (map (to_collection j)
        (tab_upsert k_name (col_name c) (coll_update j c (blank_coll (col_name c))) (coll_update j c) rows))
      = filter (\<lambda>d. col_name d \<noteq> col_name c) (map (to_collection j) rows)"
    if "tab_unique k_name rows" for rows
    using that
  proof (induction rows)
    case Nil
    then show ?case by (simp add: blank)
  next
    case (Cons r rows)
    show ?case
    proof (cases "k_name r = col_name c")
      case True
      then have "\<forall>q\<in>set rows. k_name q \<noteq> col_name c"
        using Cons.prems by (force simp: tab_unique_def)
      then show ?thesis
        using True to_collection_update [OF codec fit True]
        by (simp add: nm filter_map o_def filter_False)
    next
      case False
      then show ?thesis using Cons by (simp add: nm tab_unique_def)
    qed
  qed
  then show ?thesis using db_okD(6) [OF ok] by (simp add: list_collections_def upsert_collection_def)
qed

text \<open>A codec that satisfies the hypothesis: items end in a newline, a backslash quotes.\<close>

fun enc_item :: "string \<Rightarrow> string" where
  "enc_item [] = [CHR 0x0A]"
| "enc_item (c # s) = (if c = CHR 0x0A \<or> c = CHR 0x5C then CHR 0x5C # c # enc_item s else c # enc_item s)"

fun dec_items :: "string \<Rightarrow> string \<Rightarrow> string list option" where
  "dec_items acc [] = (if acc = [] then Some [] else None)"
| "dec_items acc (c # s) =
     (if c = CHR 0x0A then map_option ((#) (rev acc)) (dec_items [] s)
      else if c = CHR 0x5C then (case s of [] \<Rightarrow> None | d # t \<Rightarrow> dec_items (d # acc) t)
      else dec_items (c # acc) s)"

lemma dec_enc_item: "dec_items acc (enc_item x @ r) = map_option ((#) (rev acc @ x)) (dec_items [] r)"
  by (induction x arbitrary: acc) auto

definition line_codec :: codec where
  "line_codec = \<lparr>enc_strings = \<lambda>xs. concat (map enc_item xs), dec_strings = dec_items []\<rparr>"

lemma line_codec_inverts: "dec_strings line_codec (enc_strings line_codec xs) = Some xs"
  by (induction xs) (simp_all add: line_codec_def dec_enc_item)

definition sample_collection :: collection where
  "sample_collection = \<lparr>col_name = ''c'', col_path = ''/c'', col_pattern = ''*.md'', col_ignore = [''a'', ''b''],
     col_include_by_default = True, col_update_command = None, col_allow_hidden = False,
     col_respect_gitignore = True, col_max_file_bytes = Some 9, col_embed_ignore = [], col_embed_max_bytes = None\<rparr>"

lemma upsert_collection_roundtrip_witness:
  "filter (\<lambda>d. col_name d = ''c'') (list_collections line_codec (upsert_collection line_codec sample_collection empty_db))
     = [sample_collection]"
proof -
  have fit: "caps_fit sample_collection" by (simp add: caps_fit_def sample_collection_def)
  have n: "col_name sample_collection = ''c''" by (simp add: sample_collection_def)
  show ?thesis
    using upsert_collection_roundtrip [OF db_ok_empty line_codec_inverts fit] unfolding n by (rule conjunct1)
qed

end
