(* ===== verification/Exclusion.thy ===== *)
theory Exclusion
  imports DbDocs
begin

text \<open>
  The rules that keep documents out of \<open>rqmd embed\<close>, \<open>crates/rqmd-core/src/embed_exclusion.rs\<close>.
  The globset crate is not under src/: it is the record \<open>globset\<close>, its parser and its builder, both
  of which may fail. A hash map is an association list whose first entry for a key counts.
\<close>

record 'g globset =
  gs_glob :: "string \<Rightarrow> 'g option"
  gs_build :: "'g list \<Rightarrow> (string \<Rightarrow> bool) option"

definition build_ignore_set :: "'g globset \<Rightarrow> string list \<Rightarrow> string \<Rightarrow> bool" where
  "build_ignore_set gs patterns =
     (case gs_build gs (List.map_filter (gs_glob gs) patterns) of
        Some m \<Rightarrow> m | None \<Rightarrow> (case gs_build gs [] of Some m \<Rightarrow> m | None \<Rightarrow> (\<lambda>_. False)))"

datatype exclusion_reason = Rule | SizeCap

record collection_rules =
  cr_globs :: "string \<Rightarrow> bool"
  cr_has_globs :: bool
  cr_max_bytes :: "nat option"

type_synonym embed_exclusions = "(string \<times> collection_rules) list"

definition from_collections :: "'g globset \<Rightarrow> collection list \<Rightarrow> embed_exclusions" where
  "from_collections gs cols =
     rev (map (\<lambda>c. (col_name c, \<lparr>cr_globs = build_ignore_set gs (col_embed_ignore c),
                                 cr_has_globs = col_embed_ignore c \<noteq> [],
                                 cr_max_bytes = col_embed_max_bytes c\<rparr>))
       (filter (\<lambda>c. col_embed_ignore c \<noteq> [] \<or> col_embed_max_bytes c \<noteq> None) cols))"

definition load_exclusions :: "'g globset \<Rightarrow> codec \<Rightarrow> db \<Rightarrow> embed_exclusions" where
  "load_exclusions gs j db = from_collections gs (list_collections j db)"

definition no_exclusions :: "embed_exclusions \<Rightarrow> bool" where
  "no_exclusions ex \<longleftrightarrow> ex = []"

definition exclusion_reason :: "embed_exclusions \<Rightarrow> string \<Rightarrow> string \<Rightarrow> nat \<Rightarrow> exclusion_reason option" where
  "exclusion_reason ex collection path indexed_bytes =
     Option.bind (map_of ex collection) (\<lambda>rules.
       if cr_has_globs rules \<and> cr_globs rules path then Some Rule
       else case cr_max_bytes rules of
         Some cap \<Rightarrow> if cap < indexed_bytes then Some SizeCap else None
       | None \<Rightarrow> None)"

record excluded_docs =
  ed_ids :: "int list"
  ed_by_rule :: nat
  ed_by_size :: nat

definition excluded_total :: "excluded_docs \<Rightarrow> nat" where
  "excluded_total ed = length (ed_ids ed)"

text \<open>The rows of the query: a document joined with its content, the length in bytes.\<close>

definition rule_rows :: "db \<Rightarrow> embed_exclusions \<Rightarrow> (int \<times> string \<times> string \<times> nat) list" where
  "rule_rows db ex =
     concat (map (\<lambda>r. case get_content (d_hash r) db of
          None \<Rightarrow> []
        | Some doc \<Rightarrow> if d_active r \<and> 0 < length doc \<and> d_collection r \<in> fst ` set ex
            then [(d_id r, d_collection r, d_path r, length doc)] else [])
       (documents db))"

definition exclude_row :: "embed_exclusions \<Rightarrow> int \<times> string \<times> string \<times> nat \<Rightarrow> excluded_docs \<Rightarrow> excluded_docs" where
  "exclude_row ex = (\<lambda>(rid, collection, path, bytes) out.
     (case exclusion_reason ex collection path bytes of
        None \<Rightarrow> out
      | Some why \<Rightarrow>
          (let out = (case why of Rule \<Rightarrow> out\<lparr>ed_by_rule := Suc (ed_by_rule out)\<rparr>
                                | SizeCap \<Rightarrow> out\<lparr>ed_by_size := Suc (ed_by_size out)\<rparr>)
           in out\<lparr>ed_ids := List.insert rid (ed_ids out)\<rparr>)))"

definition excluded_docs :: "db \<Rightarrow> embed_exclusions \<Rightarrow> excluded_docs" where
  "excluded_docs db ex =
     (let out = \<lparr>ed_ids = [], ed_by_rule = 0, ed_by_size = 0\<rparr> in
      if no_exclusions ex then out else fold (exclude_row ex) (rule_rows db ex) out)"

definition pending_embed_count :: "'g globset \<Rightarrow> codec \<Rightarrow> db \<Rightarrow> string \<Rightarrow> ast_fingerprint list \<Rightarrow> int" where
  "pending_embed_count gs j db base ast =
     count_docs_needing_embed_excluding db base ast (ed_ids (excluded_docs db (load_exclusions gs j db)))"

subsection \<open>What is excluded\<close>

text \<open>The rule for one document.\<close>

definition kept_out :: "db \<Rightarrow> embed_exclusions \<Rightarrow> doc_row \<Rightarrow> exclusion_reason option" where
  "kept_out db ex r =
     (if \<not> d_active r then None
      else case get_content (d_hash r) db of
        None \<Rightarrow> None
      | Some doc \<Rightarrow> if doc = [] then None else exclusion_reason ex (d_collection r) (d_path r) (length doc))"

lemma exclude_rows:
  fixes ex :: embed_exclusions
  assumes "distinct (map fst rows)" and "set (ed_ids out) \<inter> fst ` set rows = {}" and "distinct (ed_ids out)"
  defines "why \<equiv> (\<lambda>(rid, collection, path, bytes). exclusion_reason ex collection path bytes)"
  shows "set (ed_ids (fold (exclude_row ex) rows out)) = set (ed_ids out) \<union> fst ` {r \<in> set rows. why r \<noteq> None}
    \<and> distinct (ed_ids (fold (exclude_row ex) rows out))
    \<and> ed_by_rule (fold (exclude_row ex) rows out) = ed_by_rule out + length (filter (\<lambda>r. why r = Some Rule) rows)
    \<and> ed_by_size (fold (exclude_row ex) rows out) = ed_by_size out + length (filter (\<lambda>r. why r = Some SizeCap) rows)"
  using assms(1-3)
proof (induction rows arbitrary: out)
  case (Cons row rows)
  obtain rid coll path bytes where row: "row = (rid, coll, path, bytes)" by (cases row)
  define out' where "out' = exclude_row ex row out"
  have fold: "fold (exclude_row ex) (row # rows) out = fold (exclude_row ex) rows out'" by (simp add: out'_def)
  have why: "why row = exclusion_reason ex coll path bytes" by (simp add: why_def row)
  have fresh: "rid \<notin> set (ed_ids out)" "rid \<notin> fst ` set rows" using Cons.prems by (auto simp: row)
  have out': "set (ed_ids out') = (if why row = None then {} else {rid}) \<union> set (ed_ids out)" "distinct (ed_ids out')"
    "ed_by_rule out' = ed_by_rule out + (if why row = Some Rule then 1 else 0)"
    "ed_by_size out' = ed_by_size out + (if why row = Some SizeCap then 1 else 0)"
    using Cons.prems(3) fresh(1) unfolding out'_def why
    by (auto simp: row exclude_row_def Let_def split: option.splits exclusion_reason.splits)
  have "distinct (map fst rows)" "set (ed_ids out') \<inter> fst ` set rows = {}"
    using Cons.prems fresh(2) unfolding out'(1) by auto
  note IH = Cons.IH [OF this out'(2)]
  have fresh_image: "{r \<in> set (row # rows). why r \<noteq> None} = (if why row = None then {} else {row}) \<union> {r \<in> set rows. why r \<noteq> None}"
    by auto
  have "fst ` {r \<in> set (row # rows). why r \<noteq> None}
      = (if why row = None then {} else {rid}) \<union> fst ` {r \<in> set rows. why r \<noteq> None}"
    unfolding fresh_image by (simp add: row)
  then show ?case using IH unfolding fold by (auto simp: out')
qed simp

lemma some_reason: "x \<noteq> None \<longleftrightarrow> x = Some Rule \<or> x = Some SizeCap"
  by (cases x) (use exclusion_reason.exhaust in auto)

lemma why_rows:
  "map (\<lambda>(rid, collection, path, bytes). (rid, exclusion_reason ex collection path bytes)) (rule_rows db ex)
    = map (\<lambda>r. (d_id r, kept_out db ex r)) (filter (\<lambda>r. d_active r \<and> \<not> content_empty db (d_hash r) \<and> d_collection r \<in> fst ` set ex) (documents db))"
proof -
  have "map (\<lambda>(rid, collection, path, bytes). (rid, exclusion_reason ex collection path bytes))
      (concat (map (\<lambda>r. case get_content (d_hash r) db of
          None \<Rightarrow> []
        | Some doc \<Rightarrow> if d_active r \<and> 0 < length doc \<and> d_collection r \<in> fst ` set ex
            then [(d_id r, d_collection r, d_path r, length doc)] else []) rows))
    = map (\<lambda>r. (d_id r, kept_out db ex r)) (filter (\<lambda>r. d_active r \<and> \<not> content_empty db (d_hash r) \<and> d_collection r \<in> fst ` set ex) rows)" for rows
    by (induction rows) (auto simp: content_empty_def kept_out_def split: option.splits)
  then show ?thesis by (simp add: rule_rows_def)
qed

lemma kept_out_named: "kept_out db ex r \<noteq> None \<Longrightarrow>
    d_active r \<and> \<not> content_empty db (d_hash r) \<and> d_collection r \<in> fst ` set ex"
  by (auto simp: kept_out_def content_empty_def exclusion_reason_def bind_eq_Some_conv split: if_splits option.splits
      dest: map_of_SomeD intro: rev_image_eqI)

lemma excluded_docs_exact:
  assumes ok: "db_ok db"
  shows "set (ed_ids (excluded_docs db ex)) = d_id ` {r \<in> set (documents db). kept_out db ex r \<noteq> None}"
    and "distinct (ed_ids (excluded_docs db ex))"
    and "ed_by_rule (excluded_docs db ex) = card {r \<in> set (documents db). kept_out db ex r = Some Rule}"
    and "ed_by_size (excluded_docs db ex) = card {r \<in> set (documents db). kept_out db ex r = Some SizeCap}"
proof -
  define docs where "docs = filter (\<lambda>r. d_active r \<and> \<not> content_empty db (d_hash r) \<and> d_collection r \<in> fst ` set ex) (documents db)"
  define why where "why = (\<lambda>(rid :: int, collection, path, bytes). exclusion_reason ex collection path bytes)"
  have rows: "map (\<lambda>row. (fst row, why row)) (rule_rows db ex) = map (\<lambda>r. (d_id r, kept_out db ex r)) docs"
    using why_rows [of ex db] unfolding docs_def why_def by (simp add: split_def)
  have ids: "map fst (rule_rows db ex) = map d_id docs"
    using arg_cong [OF rows, of "map fst"] by (simp add: o_def)
  have docs_ids: "distinct (map d_id docs)" "distinct docs"
    using distinct_map_filter [OF db_okD(3) [OF ok, unfolded tab_unique_def]] unfolding docs_def
    by (auto simp del: filter_filter dest: distinct_map [THEN iffD1])
  have in_docs: "{r \<in> set docs. P (kept_out db ex r)} = {r \<in> set (documents db). P (kept_out db ex r)}" if "\<not> P None" for P
  proof -
    have "P (kept_out db ex r) \<Longrightarrow> d_active r \<and> \<not> content_empty db (d_hash r) \<and> d_collection r \<in> fst ` set ex" for r
      using that by (intro kept_out_named) (cases "kept_out db ex r", auto)
    then show ?thesis unfolding docs_def by auto
  qed
  have count: "length (filter (\<lambda>row. why row = Some w) (rule_rows db ex)) = card {r \<in> set (documents db). kept_out db ex r = Some w}" for w
  proof -
    have "length (filter (\<lambda>row. why row = Some w) (rule_rows db ex))
        = length (filter (\<lambda>p. snd p = Some w) (map (\<lambda>row. (fst row, why row)) (rule_rows db ex)))"
      by (simp add: filter_map o_def)
    also have "\<dots> = card {r \<in> set docs. kept_out db ex r = Some w}"
      unfolding rows using docs_ids(2) by (simp add: filter_map o_def distinct_length_filter Int_def conj_commute)
    finally show ?thesis using in_docs [of "\<lambda>x. x = Some w"] by simp
  qed
  have named: "fst ` {row \<in> set (rule_rows db ex). why row \<noteq> None} = d_id ` {r \<in> set (documents db). kept_out db ex r \<noteq> None}"
  proof -
    have "fst ` {row \<in> set (rule_rows db ex). why row \<noteq> None} = fst ` {p \<in> set (map (\<lambda>row. (fst row, why row)) (rule_rows db ex)). snd p \<noteq> None}"
      by force
    also have "\<dots> = d_id ` {r \<in> set docs. kept_out db ex r \<noteq> None}" unfolding rows by force
    finally show ?thesis using in_docs [of "\<lambda>x. x \<noteq> None"] by simp
  qed
  have e: "ex = [] \<Longrightarrow> rule_rows db ex = []"
    by (simp add: rule_rows_def split: option.splits)
  then have f: "excluded_docs db ex = fold (exclude_row ex) (rule_rows db ex) \<lparr>ed_ids = [], ed_by_rule = 0, ed_by_size = 0\<rparr>"
    by (cases "ex = []") (simp_all add: excluded_docs_def no_exclusions_def Let_def)
  note all = exclude_rows [of "rule_rows db ex" "\<lparr>ed_ids = [], ed_by_rule = 0, ed_by_size = 0\<rparr>" ex, folded f why_def]
  show "set (ed_ids (excluded_docs db ex)) = d_id ` {r \<in> set (documents db). kept_out db ex r \<noteq> None}"
    "distinct (ed_ids (excluded_docs db ex))"
    "ed_by_rule (excluded_docs db ex) = card {r \<in> set (documents db). kept_out db ex r = Some Rule}"
    "ed_by_size (excluded_docs db ex) = card {r \<in> set (documents db). kept_out db ex r = Some SizeCap}"
    using all ids docs_ids(1) named by (simp_all add: count)
qed


definition capped_db :: db where
  "capped_db = one_document\<lparr>collections :=
     [\<lparr>k_name = ''c'', k_path = ''/c'', k_pattern = ''*'', k_ignore = None, k_include = 1, k_update = None,
       k_allow_hidden = 0, k_respect_gitignore = 0, k_max_file_bytes = None, k_embed_ignore = None,
       k_embed_max_bytes = Some 2\<rparr>]\<rparr>"


end
