(* ===== verification/Lock.thy ===== *)
theory Lock
  imports StrOps Prelude
begin

text \<open>
  The write lock of an index, \<open>crates/rqmd-core/src/lock.rs\<close>, and \<open>rqmd unlock\<close>,
  \<open>crates/rqmd-cli/src/commands/unlock.rs\<close>. The lock directory is its files and times; the
  clock (nanoseconds), the processes \<open>kill(pid, 0)\<close> cannot prove gone, and the host name are
  the world the functions look at. The guard file's \<open>flock\<close> makes every acquire, release and
  removal one step.
\<close>

record lock_dir =
  ld_pid :: "string option"
  ld_host :: "string option"
  ld_beat :: "nat option"
  ld_mtime :: nat

record world =
  w_now :: nat
  w_alive :: "nat \<Rightarrow> bool"
  w_host :: "string option"

record holder =
  h_pid :: "nat option"
  h_host :: "string option"
  h_foreign :: bool
  h_age :: nat

datatype lock_state = Absent | Dead "nat option" | Held holder

definition SECOND :: nat where "SECOND = 1000000000"
definition DURATION_MAX :: nat where "DURATION_MAX = (2 ^ 64 - 1) * SECOND + (SECOND - 1)"
definition UNREADABLE_PID_GRACE :: nat where "UNREADABLE_PID_GRACE = 5 * SECOND"
definition HEARTBEAT_MIN_INTERVAL :: nat where "HEARTBEAT_MIN_INTERVAL = 10 * SECOND"
definition DEFAULT_STALE_AFTER :: nat where "DEFAULT_STALE_AFTER = 600 * SECOND"

subsection \<open>Inspecting\<close>

definition read_pid :: "lock_dir \<Rightarrow> nat option" where
  "read_pid d =
     (case Option.bind (map_option trim (ld_pid d)) (parse_uint 32) of
        None \<Rightarrow> None | Some pid \<Rightarrow> if pid \<noteq> 0 \<and> pid \<le> 2 ^ 31 - 1 then Some pid else None)"

text \<open>A modification time in the future has no age: the longest duration.\<close>

definition modified_age :: "world \<Rightarrow> nat \<Rightarrow> nat" where
  "modified_age w t = (if t \<le> w_now w then min (w_now w - t) DURATION_MAX else DURATION_MAX)"

definition heartbeat_age :: "world \<Rightarrow> lock_dir \<Rightarrow> nat" where
  "heartbeat_age w d = modified_age w (case ld_beat d of Some t \<Rightarrow> t | None \<Rightarrow> ld_mtime d)"

definition recorded_host :: "lock_dir \<Rightarrow> string option" where
  "recorded_host d =
     (case ld_host d of None \<Rightarrow> None | Some h \<Rightarrow> if trim h = [] then None else Some (trim h))"

definition holder_of :: "world \<Rightarrow> lock_dir \<Rightarrow> holder" where
  "holder_of w d =
     \<lparr>h_pid = read_pid d, h_host = recorded_host d,
      h_foreign = (case (recorded_host d, w_host w) of (Some theirs, Some ours) \<Rightarrow> theirs \<noteq> ours | _ \<Rightarrow> False),
      h_age = heartbeat_age w d\<rparr>"

definition inspect :: "world \<Rightarrow> lock_dir option \<Rightarrow> lock_state" where
  "inspect w dir =
     (case dir of
        None \<Rightarrow> Absent
      | Some d \<Rightarrow>
          (case read_pid d of
             None \<Rightarrow> if modified_age w (ld_mtime d) < UNREADABLE_PID_GRACE then Held (holder_of w d) else Dead None
           | Some p \<Rightarrow>
               if h_foreign (holder_of w d) then Held (holder_of w d)
               else if w_alive w p then Held (holder_of w d)
               else Dead (Some p)))"

subsection \<open>Acquiring and releasing\<close>

datatype lock_error = GuardFailed | CreateFailed | ReacquireFailed | MetadataFailed | RemoveFailed

text \<open>Which file operations succeed in one call.\<close>

record lock_io =
  io_guard :: bool
  io_create :: bool
  io_remove :: bool
  io_recreate :: bool
  io_pid :: bool
  io_host :: bool
  io_beat :: bool

definition fresh_dir :: "world \<Rightarrow> lock_dir" where
  "fresh_dir w = \<lparr>ld_pid = None, ld_host = None, ld_beat = None, ld_mtime = w_now w\<rparr>"

definition write_metadata :: "world \<Rightarrow> lock_io \<Rightarrow> nat \<Rightarrow> lock_dir \<Rightarrow> lock_dir \<times> bool" where
  "write_metadata w io pid d =
     (if \<not> io_pid io then (d, False)
      else
        (let d1 = d\<lparr>ld_pid := Some (dec pid)\<rparr> in
         if w_host w \<noteq> None \<and> \<not> io_host io then (d1, False)
         else
           (let d2 = (case w_host w of None \<Rightarrow> d1 | Some h \<Rightarrow> d1\<lparr>ld_host := Some h\<rparr>) in
            if io_beat io then (d2\<lparr>ld_beat := Some (w_now w)\<rparr>, True) else (d2, False))))"

definition claim_dir :: "world \<Rightarrow> lock_io \<Rightarrow> nat \<Rightarrow> lock_dir option \<times> (lock_error + (holder + nat))" where
  "claim_dir w io pid =
     (case write_metadata w io pid (fresh_dir w) of
        (d, True) \<Rightarrow> (Some d, Inr (Inr (w_now w)))
      | (d, False) \<Rightarrow> (Some d, Inl MetadataFailed))"

text \<open>The result carries the holder that is in the way, or the time of the new lock's first beat.\<close>

definition try_acquire ::
  "world \<Rightarrow> lock_io \<Rightarrow> nat \<Rightarrow> lock_dir option \<Rightarrow> lock_dir option \<times> (lock_error + (holder + nat))" where
  "try_acquire w io pid dir =
     (if \<not> io_guard io then (dir, Inl GuardFailed)
      else case dir of
        None \<Rightarrow> if io_create io then claim_dir w io pid else (None, Inl CreateFailed)
      | Some d \<Rightarrow>
          (case inspect w (Some d) of
             Held h \<Rightarrow> (Some d, Inr (Inl h))
           | _ \<Rightarrow>
               if \<not> io_remove io then (Some d, Inl ReacquireFailed)
               else if \<not> io_recreate io then (None, Inl ReacquireFailed)
               else claim_dir w io pid))"

definition busy_message :: "holder \<Rightarrow> string" where
  "busy_message h =
     ''another rqmd embed/update ('' @
       (case h_pid h of
          None \<Rightarrow> ''a process that has not identified itself yet''
        | Some pid \<Rightarrow>
            (case h_host h of
               Some host \<Rightarrow> if h_foreign h then ''pid '' @ dec pid @ '' on host '' @ host else ''pid '' @ dec pid
             | None \<Rightarrow> ''pid '' @ dec pid))
     @ '') is already writing to this index '' @ [CHR 0xE2, CHR 0x80, CHR 0x94]
     @ '' wait for it to finish. If it is confirmed dead or hung, run `rqmd unlock`.''"

definition acquire ::
  "world \<Rightarrow> lock_io \<Rightarrow> nat \<Rightarrow> lock_dir option \<Rightarrow> lock_dir option \<times> ((lock_error + string) + nat)" where
  "acquire w io pid dir =
     (case try_acquire w io pid dir of
        (dir', Inr (Inr t)) \<Rightarrow> (dir', Inr t)
      | (dir', Inr (Inl h)) \<Rightarrow> (dir', Inl (Inr (busy_message h)))
      | (dir', Inl e) \<Rightarrow> (dir', Inl (Inl e)))"

text \<open>\<open>heartbeat\<close>, with the time of the last one; a failed write is ignored.\<close>

definition heartbeat :: "world \<Rightarrow> lock_io \<Rightarrow> nat \<Rightarrow> lock_dir option \<Rightarrow> lock_dir option \<times> nat" where
  "heartbeat w io last_beat dir =
     (if HEARTBEAT_MIN_INTERVAL \<le> w_now w - last_beat
      then ((if io_beat io then map_option (\<lambda>d. d\<lparr>ld_beat := Some (w_now w)\<rparr>) dir else dir), w_now w)
      else (dir, last_beat))"

text \<open>\<open>Drop\<close>: the directory goes, whoever it belongs to; a guard that fails is ignored.\<close>

definition drop_lock :: "lock_io \<Rightarrow> lock_dir option \<Rightarrow> lock_dir option" where
  "drop_lock io dir = (if io_remove io then None else dir)"

definition remove_lock :: "lock_io \<Rightarrow> lock_dir option \<Rightarrow> lock_dir option \<times> (lock_error + unit)" where
  "remove_lock io dir =
     (if \<not> io_guard io then (dir, Inl GuardFailed)
      else if dir = None \<or> io_remove io then (None, Inr ())
      else (dir, Inl RemoveFailed))"

subsection \<open>\<open>rqmd unlock\<close>\<close>

datatype decision = NothingToDo | RemoveIt | RemoveAfterConfirm | Refuse string

definition describe :: "holder \<Rightarrow> string" where
  "describe h =
     (case h_pid h of
        None \<Rightarrow> ''the lock's owner''
      | Some pid \<Rightarrow>
          (case h_host h of
             Some host \<Rightarrow> if h_foreign h then ''the holder (pid '' @ dec pid @ '' on '' @ host @ '')''
                        else ''the holder (pid '' @ dec pid @ '')''
           | None \<Rightarrow> ''the holder (pid '' @ dec pid @ '')''))"

definition decide :: "lock_state \<Rightarrow> nat \<Rightarrow> bool \<Rightarrow> decision" where
  "decide st stale_after force =
     (case st of
        Absent \<Rightarrow> NothingToDo
      | Dead _ \<Rightarrow> RemoveIt
      | Held h \<Rightarrow>
          if h_age h < stale_after then
            Refuse (describe h @ '' is alive and made progress '' @ dec (h_age h div SECOND)
                    @ ''s ago; refusing to remove its lock'')
          else if \<not> force then
            Refuse (describe h @ '' has made no progress for '' @ dec (min (h_age h div SECOND) (2 ^ 32 - 1))
                    @ ''s but may only be slow; pass --force to remove it anyway'')
          else RemoveAfterConfirm)"

definition stale_after_from_env :: "string option \<Rightarrow> nat" where
  "stale_after_from_env v =
     (case Option.bind (map_option trim v) (parse_uint 64) of
        None \<Rightarrow> DEFAULT_STALE_AFTER | Some secs \<Rightarrow> secs * SECOND)"

text \<open>
  \<open>run_unlock\<close> looks and decides without the guard, and only \<open>remove_lock\<close> takes it: the
  decision is one step and the removal another. \<open>confirm\<close> is the answer to the prompt, \<open>None\<close>
  when there is nobody to ask.
\<close>

datatype unlock_error = Refused string | NotInteractive | Aborted | Removal lock_error

definition confirmed :: "bool \<Rightarrow> string option \<Rightarrow> unlock_error + bool" where
  "confirmed yes answer =
     (if yes then Inr True
      else case answer of
        None \<Rightarrow> Inl NotInteractive
      | Some line \<Rightarrow> Inr (eq_ignore_ascii_case (trim line) ''y''))"

definition unlock_decides ::
  "world \<Rightarrow> string option \<Rightarrow> bool \<Rightarrow> bool \<Rightarrow> string option \<Rightarrow> lock_dir option \<Rightarrow> unlock_error + bool" where
  "unlock_decides w env force yes answer dir =
     (case decide (inspect w dir) (stale_after_from_env env) force of
        NothingToDo \<Rightarrow> Inr False
      | RemoveIt \<Rightarrow> Inr True
      | RemoveAfterConfirm \<Rightarrow> rbind (confirmed yes answer) (\<lambda>ok. if ok then Inr True else Inl Aborted)
      | Refuse reason \<Rightarrow> Inl (Refused reason))"

definition run_unlock ::
  "world \<Rightarrow> string option \<Rightarrow> bool \<Rightarrow> bool \<Rightarrow> string option \<Rightarrow> lock_io \<Rightarrow> lock_dir option \<Rightarrow> lock_dir option
    \<Rightarrow> lock_dir option \<times> (unlock_error + bool)" where
  "run_unlock w env force yes answer io seen dir =
     (case unlock_decides w env force yes answer seen of
        Inl e \<Rightarrow> (dir, Inl e)
      | Inr False \<Rightarrow> (dir, Inr False)
      | Inr True \<Rightarrow>
          (case remove_lock io dir of (dir', Inl e) \<Rightarrow> (dir', Inl (Removal e)) | (dir', Inr _) \<Rightarrow> (dir', Inr True)))"

subsection \<open>The processes of one host\<close>

record sys =
  s_world :: world
  s_dir :: "lock_dir option"
  s_owners :: "nat set"
  s_condemned :: nat

definition pid_ok :: "nat \<Rightarrow> bool" where
  "pid_ok p \<longleftrightarrow> 0 < p \<and> p < 2 ^ 31"

text \<open>\<open>unlocking\<close> says whether \<open>rqmd unlock\<close> may run; \<open>s_condemned\<close> counts the unlock commands
  that have decided to remove and not yet done so.\<close>

inductive lock_step :: "bool \<Rightarrow> sys \<Rightarrow> sys \<Rightarrow> bool" for unlocking where
  tick: "w_now (s_world s) \<le> t \<Longrightarrow> lock_step unlocking s (s\<lparr>s_world := (s_world s)\<lparr>w_now := t\<rparr>\<rparr>)"
| spawn: "pid_ok p \<Longrightarrow> \<not> w_alive (s_world s) p \<Longrightarrow>
    lock_step unlocking s (s\<lparr>s_world := (s_world s)\<lparr>w_alive := (w_alive (s_world s))(p := True)\<rparr>\<rparr>)"
| die: "lock_step unlocking s (s\<lparr>s_world := (s_world s)\<lparr>w_alive := (w_alive (s_world s))(p := False)\<rparr>,
                                s_owners := s_owners s - {p}\<rparr>)"
| acquired: "pid_ok p \<Longrightarrow> w_alive (s_world s) p \<Longrightarrow>
    try_acquire (s_world s) io p (s_dir s) = (dir', Inr (Inr t)) \<Longrightarrow>
    lock_step unlocking s (s\<lparr>s_dir := dir', s_owners := insert p (s_owners s)\<rparr>)"
| not_acquired: "pid_ok p \<Longrightarrow> w_alive (s_world s) p \<Longrightarrow>
    try_acquire (s_world s) io p (s_dir s) = (dir', r) \<Longrightarrow> (\<And>t. r \<noteq> Inr (Inr t)) \<Longrightarrow>
    lock_step unlocking s (s\<lparr>s_dir := dir'\<rparr>)"
| beat: "p \<in> s_owners s \<Longrightarrow> lock_step unlocking s (s\<lparr>s_dir := fst (heartbeat (s_world s) io last_beat (s_dir s))\<rparr>)"
| release: "p \<in> s_owners s \<Longrightarrow>
    lock_step unlocking s (s\<lparr>s_dir := drop_lock io (s_dir s), s_owners := s_owners s - {p}\<rparr>)"
| condemn: "unlocking \<Longrightarrow> unlock_decides (s_world s) env force yes answer (s_dir s) = Inr True \<Longrightarrow>
    lock_step unlocking s (s\<lparr>s_condemned := Suc (s_condemned s)\<rparr>)"
| remove: "0 < s_condemned s \<Longrightarrow>
    lock_step unlocking s (s\<lparr>s_dir := fst (remove_lock io (s_dir s)), s_condemned := s_condemned s - 1\<rparr>)"

inductive_cases lock_stepE: "lock_step unlocking s s'"

text \<open>The host name is what \<open>gethostname\<close> gives after the code's own trimming.\<close>

definition lock_start :: "sys \<Rightarrow> bool" where
  "lock_start s \<longleftrightarrow> s_owners s = {} \<and> s_condemned s = 0
     \<and> (case w_host (s_world s) of None \<Rightarrow> True | Some h \<Rightarrow> h \<noteq> [] \<and> trim h = h)"

inductive lock_reach :: "bool \<Rightarrow> sys \<Rightarrow> bool" for unlocking where
  start: "lock_start s \<Longrightarrow> lock_reach unlocking s"
| step: "lock_reach unlocking s \<Longrightarrow> lock_step unlocking s s' \<Longrightarrow> lock_reach unlocking s'"

subsection \<open>Mutual exclusion\<close>

lemma trim_digits:
  assumes "s \<noteq> []" and "list_all is_ascii_digit s"
  shows "trim s = s"
proof -
  have asc: "\<forall>c\<in>set s. byte c < 128" using assms(2) by (auto simp: list_all_iff is_ascii_digit_def)
  have cs: "chars s = map (\<lambda>c. [c]) s" using asc by (rule chars_ascii)
  have "\<not> is_ws [c]" if "c \<in> set s" for c
  proof -
    have "48 \<le> byte c" "byte c \<le> 57" using that assms(2) by (auto simp: list_all_iff is_ascii_digit_def)
    then show ?thesis by (simp add: is_ws_cp_def)
  qed
  then show ?thesis
    using assms(1) by (intro trim_noop) (auto simp: cs hd_map last_map)
qed

lemma read_pid_dec: "pid_ok p \<Longrightarrow> ld_pid d = Some (dec p) \<Longrightarrow> read_pid d = Some p"
  using trim_digits [OF dec_nonempty dec_digits, of p] parse_uint_dec [of p 32]
  by (simp add: read_pid_def pid_ok_def)

lemma claim_dir_ok:
  assumes "claim_dir w io p = (dir', Inr (Inr t))"
  obtains d where "dir' = Some d" and "ld_pid d = Some (dec p)" and "ld_host d = w_host w" and "t = w_now w"
  using assms by (auto simp: claim_dir_def write_metadata_def fresh_dir_def Let_def split: if_splits option.splits)

text \<open>The lock directory is owned by \<open>p\<close>, on this host.\<close>

definition owned_by :: "world \<Rightarrow> lock_dir option \<Rightarrow> nat \<Rightarrow> bool" where
  "owned_by w dir p \<longleftrightarrow> (\<exists>d. dir = Some d \<and> read_pid d = Some p \<and> ld_host d = w_host w)"

definition host_ok :: "world \<Rightarrow> bool" where
  "host_ok w \<longleftrightarrow> (case w_host w of None \<Rightarrow> True | Some h \<Rightarrow> h \<noteq> [] \<and> trim h = h)"

lemma owned_by_held:
  assumes "owned_by w dir p" and "host_ok w" and "w_alive w p"
  shows "\<exists>d. dir = Some d \<and> inspect w dir = Held (holder_of w d)"
  using assms by (auto simp: owned_by_def host_ok_def inspect_def holder_of_def recorded_host_def split: option.splits)

lemma try_acquire_spec:
  "try_acquire w io p dir =
     (if \<not> io_guard io then (dir, Inl GuardFailed)
      else case inspect w dir of
        Held h \<Rightarrow> (dir, Inr (Inl h))
      | Absent \<Rightarrow> if io_create io then claim_dir w io p else (dir, Inl CreateFailed)
      | Dead _ \<Rightarrow> if \<not> io_remove io then (dir, Inl ReacquireFailed)
                  else if \<not> io_recreate io then (None, Inl ReacquireFailed)
                  else claim_dir w io p)"
  by (cases dir) (auto simp: try_acquire_def inspect_def split: option.splits lock_state.splits)

definition lock_inv :: "sys \<Rightarrow> bool" where
  "lock_inv s \<longleftrightarrow> host_ok (s_world s) \<and> s_condemned s = 0
     \<and> (\<forall>p\<in>s_owners s. w_alive (s_world s) p \<and> owned_by (s_world s) (s_dir s) p)"

lemma owned_by_unique: "owned_by w dir p \<Longrightarrow> owned_by w dir q \<Longrightarrow> p = q"
  by (auto simp: owned_by_def)

lemma acquire_no_owner:
  assumes "lock_inv s" and "try_acquire (s_world s) io p (s_dir s) = (dir', r)" and "dir' \<noteq> s_dir s \<or> (\<exists>t. r = Inr (Inr t))"
  shows "s_owners s = {}"
proof (rule ccontr)
  assume "s_owners s \<noteq> {}"
  then obtain q where "q \<in> s_owners s" by blast
  then have "\<exists>d. s_dir s = Some d \<and> inspect (s_world s) (s_dir s) = Held (holder_of (s_world s) d)"
    using assms(1) by (auto simp: lock_inv_def intro!: owned_by_held)
  then show False using assms(2,3) by (auto simp: try_acquire_spec split: if_splits)
qed

lemma lock_inv_step: "lock_step False s s' \<Longrightarrow> lock_inv s \<Longrightarrow> lock_inv s'"
proof (induction rule: lock_step.induct)
  case (acquired p s io dir' t)
  have none: "s_owners s = {}" using acquire_no_owner [OF acquired.prems acquired.hyps(3)] by simp
  have "claim_dir (s_world s) io p = (dir', Inr (Inr t))"
    using acquired.hyps(3) by (auto simp: try_acquire_spec split: if_splits lock_state.splits)
  then obtain d where "dir' = Some d" "ld_pid d = Some (dec p)" "ld_host d = w_host (s_world s)"
    by (rule claim_dir_ok)
  then have "owned_by (s_world s) dir' p" using read_pid_dec [OF acquired.hyps(1)] by (simp add: owned_by_def)
  then show ?case using none acquired by (simp add: lock_inv_def)
next
  case (not_acquired p s io dir' r)
  show ?case
  proof (cases "dir' = s_dir s")
    case True
    then show ?thesis using not_acquired.prems by (simp add: lock_inv_def)
  next
    case False
    then have "s_owners s = {}" using acquire_no_owner [OF not_acquired.prems not_acquired.hyps(3)] by blast
    then show ?thesis using not_acquired.prems by (simp add: lock_inv_def)
  qed
next
  case (beat p s io last_beat)
  have "owned_by w (fst (heartbeat w' io last_beat dir)) q = owned_by w dir q" for w w' dir q
    by (cases dir) (auto simp: heartbeat_def owned_by_def read_pid_def)
  then show ?case using beat.prems by (simp add: lock_inv_def)
next
  case (release p s io)
  then have "s_owners s = {p}" by (auto simp: lock_inv_def dest: owned_by_unique)
  then show ?case using release.prems by (simp add: lock_inv_def)
qed (auto simp: lock_inv_def owned_by_def host_ok_def)

lemma lock_inv_start: "lock_start s \<Longrightarrow> lock_inv s"
  by (simp add: lock_start_def lock_inv_def host_ok_def)

lemma lock_inv_reach: "lock_reach False s \<Longrightarrow> lock_inv s"
  by (induction rule: lock_reach.induct) (simp_all add: lock_inv_start lock_inv_step)

text \<open>C7: Among the processes of one host, in any interleaving of acquires (whatever file operations
  fail), heartbeats, releases and crashes, with \<open>rqmd unlock\<close> not running, at most one process
  holds the write lock, and while it does every other attempt reports it as the holder (or the
  guard's failure) and leaves the lock as it is.\<close>
theorem lock_exclusive:
  assumes "lock_reach False s" and "p \<in> s_owners s"
  shows "s_owners s = {p} \<and>
    (let w = s_world s; dir = s_dir s; r = try_acquire w io q dir
     in fst r = dir \<and> (snd r = Inl GuardFailed \<or> (\<exists>h. snd r = Inr (Inl h) \<and> h_pid h = Some p \<and> \<not> h_foreign h)))"
proof -
  have inv: "lock_inv s" using assms(1) by (rule lock_inv_reach)
  then have p: "w_alive (s_world s) p" "owned_by (s_world s) (s_dir s) p" "host_ok (s_world s)"
    using assms(2) by (auto simp: lock_inv_def)
  have "s_owners s = {p}" using inv assms(2) by (auto simp: lock_inv_def dest: owned_by_unique)
  moreover obtain d where d: "s_dir s = Some d" "inspect (s_world s) (s_dir s) = Held (holder_of (s_world s) d)"
    using owned_by_held [OF p(2,3,1)] by blast
  moreover have "h_pid (holder_of (s_world s) d) = Some p" "\<not> h_foreign (holder_of (s_world s) d)"
    using p(2,3) d(1) by (auto simp: owned_by_def holder_of_def recorded_host_def host_ok_def split: option.splits)
  ultimately show ?thesis by (auto simp: try_acquire_spec Let_def)
qed

definition all_ok :: lock_io where
  "all_ok = \<lparr>io_guard = True, io_create = True, io_remove = True, io_recreate = True, io_pid = True, io_host = True, io_beat = True\<rparr>"

definition start_sys :: sys where
  "start_sys = \<lparr>s_world = \<lparr>w_now = 0, w_alive = (\<lambda>p. p \<in> {1, 2, 3}), w_host = None\<rparr>, s_dir = None, s_owners = {}, s_condemned = 0\<rparr>"

definition dir_of :: "nat \<Rightarrow> lock_dir" where
  "dir_of p = \<lparr>ld_pid = Some (dec p), ld_host = None, ld_beat = Some 0, ld_mtime = 0\<rparr>"

lemma claim_all_ok: "w_now w = 0 \<Longrightarrow> w_host w = None \<Longrightarrow> claim_dir w all_ok p = (Some (dir_of p), Inr (Inr 0))"
  by (simp add: claim_dir_def write_metadata_def all_ok_def fresh_dir_def dir_of_def Let_def)

lemma start_reach: "lock_reach u start_sys"
  by (rule lock_reach.start) (simp add: lock_start_def start_sys_def)

lemma acquire_first:
  "lock_reach u (start_sys\<lparr>s_dir := Some (dir_of 1), s_owners := {1}\<rparr>)"
proof -
  have "try_acquire (s_world start_sys) all_ok 1 (s_dir start_sys) = (Some (dir_of 1), Inr (Inr 0))"
    using claim_all_ok [of "s_world start_sys" 1]
    by (simp add: try_acquire_def start_sys_def) (simp add: all_ok_def)
  from lock_reach.step [OF start_reach lock_step.acquired [OF _ _ this]] show ?thesis
    by (simp add: pid_ok_def start_sys_def)
qed

lemma lock_exclusive_witness:
  "\<exists>s. lock_reach False s \<and> s_owners s = {1} \<and> fst (try_acquire (s_world s) all_ok 2 (s_dir s)) = s_dir s"
  using lock_exclusive [OF acquire_first, of 1 all_ok 2] acquire_first [of False] by (auto simp: Let_def)

text \<open>When every file operation works, an attempt on a lock that is absent or provably abandoned
  takes it over, and from then on every process of the host sees the taker as the live
  holder with a fresh heartbeat; an attempt on a held lock returns the holder and changes nothing.\<close>
theorem try_acquire_takes_over:
  assumes p: "pid_ok p" "w_alive w p" and host: "host_ok w" and io: "io = all_ok"
  shows "case inspect w dir of
      Held h \<Rightarrow> try_acquire w io p dir = (dir, Inr (Inl h))
    | _ \<Rightarrow> \<exists>d h. try_acquire w io p dir = (Some d, Inr (Inr (w_now w)))
            \<and> inspect w (Some d) = Held h \<and> h_pid h = Some p \<and> \<not> h_foreign h \<and> h_age h = 0"
proof -
  obtain d where d: "claim_dir w io p = (Some d, Inr (Inr (w_now w)))" "ld_pid d = Some (dec p)"
    "ld_host d = w_host w" "ld_beat d = Some (w_now w)"
    by (auto simp: claim_dir_def write_metadata_def io all_ok_def fresh_dir_def Let_def split: option.splits)
  have own: "owned_by w (Some d) p" using d read_pid_dec [OF p(1)] by (simp add: owned_by_def)
  have "inspect w (Some d) = Held (holder_of w d)" using owned_by_held [OF own host p(2)] by simp
  moreover have "h_pid (holder_of w d) = Some p" "\<not> h_foreign (holder_of w d)" "h_age (holder_of w d) = 0"
    using own host d(4)
    by (auto simp: owned_by_def holder_of_def recorded_host_def host_ok_def heartbeat_age_def modified_age_def
        split: option.splits)
  moreover have "io_guard io" "io_create io" "io_remove io" "io_recreate io" by (simp_all add: io all_ok_def)
  ultimately show ?thesis using d(1) by (cases "inspect w dir") (auto simp: try_acquire_spec)
qed

lemma try_acquire_takes_over_witness:
  "\<exists>d. try_acquire \<lparr>w_now = 9, w_alive = (\<lambda>p. p = 5), w_host = None\<rparr> all_ok 5 (Some (dir_of 4)) = (Some d, Inr (Inr 9))"
proof -
  let ?w = "\<lparr>w_now = 9, w_alive = (\<lambda>p. p = (5::nat)), w_host = None\<rparr>"
  have "inspect ?w (Some (dir_of 4)) = Dead (Some 4)"
    using read_pid_dec [of 4 "dir_of 4"]
    by (simp add: inspect_def pid_ok_def dir_of_def holder_of_def recorded_host_def)
  moreover have "pid_ok 5" "w_alive ?w 5" "host_ok ?w" by (simp_all add: pid_ok_def host_ok_def)
  ultimately show ?thesis
    using try_acquire_takes_over [of 5 ?w all_ok "Some (dir_of 4)"] by auto
qed

subsection \<open>What \<open>rqmd unlock\<close> can break\<close>

text \<open>
  The decision is taken on an inspection made without the guard. Here it sees the lock of a
  dead process, another process reclaims that lock, the removal deletes the new one, and a
  third process acquires it: two owners, without \<open>--force\<close>.
\<close>

lemma unlock_race: "\<exists>s. lock_reach True s \<and> s_owners s = {2, 3}"
proof -
  let ?s1 = "start_sys\<lparr>s_dir := Some (dir_of 1), s_owners := {1}\<rparr>"
  let ?w = "(s_world start_sys)\<lparr>w_alive := (w_alive (s_world start_sys))(1 := False)\<rparr>"
  let ?s2 = "\<lparr>s_world = ?w, s_dir = Some (dir_of 1), s_owners = {}, s_condemned = 0\<rparr>"
  let ?s3 = "?s2\<lparr>s_condemned := 1\<rparr>"
  let ?s4 = "?s3\<lparr>s_dir := Some (dir_of 2), s_owners := {2}\<rparr>"
  let ?s5 = "?s4\<lparr>s_dir := None, s_condemned := 0\<rparr>"
  let ?s6 = "?s5\<lparr>s_dir := Some (dir_of 3), s_owners := {3, 2}\<rparr>"
  have w: "w_now ?w = 0" "w_host ?w = None" "w_alive ?w 2" "w_alive ?w 3" "\<not> w_alive ?w 1"
    by (simp_all add: start_sys_def)
  have dead: "inspect ?w (Some (dir_of 1)) = Dead (Some 1)"
    using read_pid_dec [of 1 "dir_of 1"] w
    by (simp add: inspect_def pid_ok_def dir_of_def holder_of_def recorded_host_def)
  have io: "io_guard all_ok" "io_create all_ok" "io_remove all_ok" "io_recreate all_ok" by (simp_all add: all_ok_def)
  have pids: "pid_ok 2" "pid_ok 3" by (simp_all add: pid_ok_def)
  have "lock_reach True ?s2"
    using lock_reach.step [OF acquire_first lock_step.die [of True ?s1 1]] by (simp add: start_sys_def)
  moreover have "lock_step True ?s2 ?s3"
    using lock_step.condemn [of True ?s2 None False False None] dead by (simp add: unlock_decides_def decide_def)
  moreover have "lock_step True ?s3 ?s4"
    using lock_step.acquired [of 2 ?s3 all_ok "Some (dir_of 2)" 0 True] dead io pids w claim_all_ok [of ?w 2]
    by (simp add: try_acquire_spec)
  moreover have "lock_step True ?s4 ?s5"
    using lock_step.remove [of ?s4 True all_ok] io by (simp add: remove_lock_def)
  moreover have "lock_step True ?s5 ?s6"
    using lock_step.acquired [of 3 ?s5 all_ok "Some (dir_of 3)" 0 True] io pids w claim_all_ok [of ?w 3]
    by (simp add: try_acquire_def)
  ultimately have "lock_reach True ?s6" by (blast intro: lock_reach.step)
  then show ?thesis by (intro exI [of _ ?s6]) auto
qed

end
