(* ===== verification/Hnsw.thy ===== *)
theory Hnsw
  imports StrOps F32 Prelude
begin

text \<open>
  The vector index wrapper, \<open>crates/rqmd-core/src/hnsw.rs\<close>. The usearch index is not under
  src/: it is a parameter, a record of its operations on an index state \<open>'ix\<close> and vectors
  \<open>'v\<close>; an operation that fails gives usearch's message. \<open>save_atomic\<close> is a sequence of file
  operations on a small model of a directory that a crash may catch at any point.
\<close>

record ('ix, 'v, 'f) usearch =
  us_new :: "string + 'ix"
  us_load :: "'f option \<Rightarrow> string + 'ix"
  us_view :: "'f option \<Rightarrow> string + 'ix"
  us_save :: "'ix \<Rightarrow> string + 'f"
  us_capacity :: "'ix \<Rightarrow> nat"
  us_size :: "'ix \<Rightarrow> nat"
  us_reserve :: "nat \<Rightarrow> 'ix \<Rightarrow> 'ix \<times> (string + unit)"
  us_add :: "nat \<Rightarrow> 'v \<Rightarrow> 'ix \<Rightarrow> 'ix \<times> (string + unit)"
  us_remove :: "nat \<Rightarrow> 'ix \<Rightarrow> 'ix \<times> (string + nat)"
  us_get :: "nat \<Rightarrow> 'ix \<Rightarrow> string + (nat \<times> 'v)"
  us_search :: "'v \<Rightarrow> nat \<Rightarrow> 'ix \<Rightarrow> string + (nat list \<times> flt list)"

datatype hnsw_error = Usearch string string | ReadOnly string | GaveUp nat | NoVector nat

record 'ix vector_index =
  vi_inner :: 'ix
  vi_next :: nat
  vi_ro :: bool

definition map_err :: "string \<Rightarrow> string + 'a \<Rightarrow> hnsw_error + 'a" where
  "map_err what r = (case r of Inl e \<Rightarrow> Inl (Usearch what e) | Inr a \<Rightarrow> Inr a)"

definition is_duplicate_key_error :: "string \<Rightarrow> bool" where
  "is_duplicate_key_error e = contains ''Duplicate keys'' e"

definition MAX_COLLISION_RETRIES :: nat where "MAX_COLLISION_RETRIES = 1024"

text \<open>\<open>u64\<close> addition as a release build computes it.\<close>

definition succ64 :: "nat \<Rightarrow> nat" where
  "succ64 n = Suc n mod 2 ^ 64"

definition vi_new :: "('ix, 'v, 'f) usearch \<Rightarrow> hnsw_error + 'ix vector_index" where
  "vi_new us =
     rbind (map_err ''new'' (us_new us)) (\<lambda>ix.
       case us_reserve us 4096 ix of
         (ix', Inr _) \<Rightarrow> Inr \<lparr>vi_inner = ix', vi_next = 0, vi_ro = False\<rparr>
       | (_, Inl e) \<Rightarrow> Inl (Usearch ''reserve'' e))"

definition vi_load :: "('ix, 'v, 'f) usearch \<Rightarrow> 'f option \<Rightarrow> hnsw_error + 'ix vector_index" where
  "vi_load us file =
     rbind (map_err ''new'' (us_new us)) (\<lambda>_.
       rbind (map_err ''load'' (us_load us file)) (\<lambda>ix.
         Inr \<lparr>vi_inner = ix, vi_next = us_size us ix, vi_ro = False\<rparr>))"

definition vi_view :: "('ix, 'v, 'f) usearch \<Rightarrow> 'f option \<Rightarrow> hnsw_error + 'ix vector_index" where
  "vi_view us file =
     rbind (map_err ''new'' (us_new us)) (\<lambda>_.
       rbind (map_err ''view'' (us_view us file)) (\<lambda>ix.
         Inr \<lparr>vi_inner = ix, vi_next = us_size us ix, vi_ro = True\<rparr>))"

text \<open>Room for one more vector.\<close>

definition vi_grow :: "('ix, 'v, 'f) usearch \<Rightarrow> 'ix \<Rightarrow> 'ix \<times> (string + unit)" where
  "vi_grow us ix =
     (if us_capacity us ix \<le> us_size us ix then us_reserve us (us_capacity us ix * 2 + 1) ix else (ix, Inr ()))"

fun add_loop :: "('ix, 'v, 'f) usearch \<Rightarrow> 'v \<Rightarrow> nat \<Rightarrow> 'ix vector_index \<Rightarrow> 'ix vector_index \<times> (hnsw_error + nat)" where
  "add_loop us x 0 vi = (vi, Inl (GaveUp (vi_next vi)))"
| "add_loop us x (Suc tries) vi =
     (case vi_grow us (vi_inner vi) of
        (ix1, Inl e) \<Rightarrow> (vi\<lparr>vi_inner := ix1\<rparr>, Inl (Usearch ''reserve grow'' e))
      | (ix1, Inr _) \<Rightarrow>
          (case us_add us (vi_next vi) x ix1 of
             (ix2, Inr _) \<Rightarrow> (vi\<lparr>vi_inner := ix2, vi_next := succ64 (vi_next vi)\<rparr>, Inr (vi_next vi))
           | (ix2, Inl e) \<Rightarrow>
               if is_duplicate_key_error e
               then add_loop us x tries (vi\<lparr>vi_inner := ix2, vi_next := succ64 (vi_next vi)\<rparr>)
               else (vi\<lparr>vi_inner := ix2\<rparr>, Inl (Usearch ''add'' e))))"

definition vi_add :: "('ix, 'v, 'f) usearch \<Rightarrow> 'v \<Rightarrow> 'ix vector_index \<Rightarrow> 'ix vector_index \<times> (hnsw_error + nat)" where
  "vi_add us x vi =
     (if vi_ro vi then (vi, Inl (ReadOnly ''add to'')) else add_loop us x MAX_COLLISION_RETRIES vi)"

definition ensure_next_vid_at_least :: "nat \<Rightarrow> 'ix vector_index \<Rightarrow> 'ix vector_index" where
  "ensure_next_vid_at_least least vi = (if vi_next vi < least then vi\<lparr>vi_next := least\<rparr> else vi)"

definition vi_add_with_vid ::
  "('ix, 'v, 'f) usearch \<Rightarrow> nat \<Rightarrow> 'v \<Rightarrow> 'ix vector_index \<Rightarrow> 'ix vector_index \<times> (hnsw_error + unit)" where
  "vi_add_with_vid us vid x vi =
     (if vi_ro vi then (vi, Inl (ReadOnly ''add to''))
      else
        (case vi_grow us (vi_inner vi) of
           (ix1, Inl e) \<Rightarrow> (vi\<lparr>vi_inner := ix1\<rparr>, Inl (Usearch ''reserve grow'' e))
         | (ix1, Inr _) \<Rightarrow>
             (case us_add us vid x ix1 of
                (ix2, Inl e) \<Rightarrow> (vi\<lparr>vi_inner := ix2\<rparr>, Inl (Usearch ''add_with_vid'' e))
              | (ix2, Inr _) \<Rightarrow>
                  (vi\<lparr>vi_inner := ix2, vi_next := (if vi_next vi \<le> vid then succ64 vid else vi_next vi)\<rparr>, Inr ()))))"

text \<open>Similarity is one minus the cosine distance, in \<open>f32\<close>.\<close>

definition vi_search :: "('ix, 'v, 'f) usearch \<Rightarrow> 'v \<Rightarrow> nat \<Rightarrow> 'ix vector_index \<Rightarrow> hnsw_error + (nat \<times> flt) list" where
  "vi_search us x k vi =
     rbind (map_err ''search'' (us_search us x k (vi_inner vi))) (\<lambda>(keys, dists).
       Inr (map (\<lambda>(vid, dist). (vid, fsub32 (Fin 1) dist)) (zip keys dists)))"

definition vi_remove :: "('ix, 'v, 'f) usearch \<Rightarrow> nat \<Rightarrow> 'ix vector_index \<Rightarrow> 'ix vector_index \<times> (hnsw_error + nat)" where
  "vi_remove us vid vi =
     (if vi_ro vi then (vi, Inl (ReadOnly ''remove from''))
      else case us_remove us vid (vi_inner vi) of
        (ix, r) \<Rightarrow> (vi\<lparr>vi_inner := ix\<rparr>, map_err ''remove'' r))"

definition vi_get_vector :: "('ix, 'v, 'f) usearch \<Rightarrow> nat \<Rightarrow> 'ix vector_index \<Rightarrow> hnsw_error + 'v" where
  "vi_get_vector us vid vi =
     rbind (map_err ''get'' (us_get us vid (vi_inner vi))) (\<lambda>(found, x).
       if found = 0 then Inl (NoVector vid) else Inr x)"

subsection \<open>Identifiers are never issued twice\<close>

datatype 'v vec_op = Add 'v | AddWith nat 'v | Floor nat | Remove nat

definition exec_op :: "('ix, 'v, 'f) usearch \<Rightarrow> 'v vec_op \<Rightarrow> 'ix vector_index \<Rightarrow> 'ix vector_index \<times> nat list" where
  "exec_op us op vi =
     (case op of
        Add x \<Rightarrow> (case vi_add us x vi of (vi', Inr vid) \<Rightarrow> (vi', [vid]) | (vi', Inl _) \<Rightarrow> (vi', []))
      | AddWith vid x \<Rightarrow> (fst (vi_add_with_vid us vid x vi), [])
      | Floor n \<Rightarrow> (ensure_next_vid_at_least n vi, [])
      | Remove vid \<Rightarrow> (fst (vi_remove us vid vi), []))"

text \<open>The ids \<open>add\<close> issues in a run of operations, in order.\<close>

fun run_vec_ops :: "('ix, 'v, 'f) usearch \<Rightarrow> 'v vec_op list \<Rightarrow> 'ix vector_index \<Rightarrow> 'ix vector_index \<times> nat list" where
  "run_vec_ops us [] vi = (vi, [])"
| "run_vec_ops us (op # ops) vi =
     (case exec_op us op vi of (vi1, ids1) \<Rightarrow>
        (case run_vec_ops us ops vi1 of (vi2, ids2) \<Rightarrow> (vi2, ids1 @ ids2)))"

fun named_id :: "'v vec_op \<Rightarrow> nat" where
  "named_id (AddWith vid x) = Suc vid"
| "named_id (Floor n) = n"
| "named_id _ = 0"

lemma succ64_small: "Suc n < 2 ^ 64 \<Longrightarrow> succ64 n = Suc n"
  by (simp add: succ64_def)

lemma add_loop_next:
  assumes "add_loop us x tries vi = (vi', r)" and "vi_next vi + tries < 2 ^ 64"
  shows "vi_next vi \<le> vi_next vi' \<and> vi_next vi' \<le> vi_next vi + tries
    \<and> (\<forall>vid. r = Inr vid \<longrightarrow> vi_next vi \<le> vid \<and> vid < vi_next vi')"
  using assms
proof (induction us x tries vi rule: add_loop.induct)
  case (2 us x tries vi)
  have s: "succ64 (vi_next vi) = Suc (vi_next vi)" using "2.prems"(2) by (intro succ64_small) simp
  obtain ix1 g where g: "vi_grow us (vi_inner vi) = (ix1, g)" by (cases "vi_grow us (vi_inner vi)")
  show ?case
  proof (cases g)
    case (Inl e)
    then show ?thesis using "2.prems"(1) g by auto
  next
    case (Inr u)
    obtain ix2 a where a: "us_add us (vi_next vi) x ix1 = (ix2, a)" by (cases "us_add us (vi_next vi) x ix1")
    show ?thesis
    proof (cases a)
      case 2: (Inr u')
      then show ?thesis using "2.prems" Inr a g s by auto
    next
      case (Inl e)
      show ?thesis
      proof (cases "is_duplicate_key_error e")
        case True
        let ?vi1 = "vi\<lparr>vi_inner := ix2, vi_next := succ64 (vi_next vi)\<rparr>"
        have "add_loop us x tries ?vi1 = (vi', r)" "vi_next ?vi1 + tries < 2 ^ 64"
          using "2.prems" Inr Inl a g s True by simp_all
        then show ?thesis using "2.IH" [OF g [symmetric] Inr a [symmetric] Inl True] s by auto
      next
        case False
        then show ?thesis using "2.prems" Inr Inl a g by auto
      qed
    qed
  qed
qed auto

lemma exec_op_next:
  assumes "exec_op us op vi = (vi', ids)" and "max (vi_next vi) (named_id op) + 1024 < 2 ^ 64"
  shows "vi_next vi \<le> vi_next vi' \<and> vi_next vi' \<le> max (vi_next vi) (named_id op) + 1024
    \<and> sorted_wrt (<) ids \<and> (\<forall>i\<in>set ids. vi_next vi \<le> i \<and> i < vi_next vi')"
proof (cases op)
  case (Add x)
  show ?thesis
  proof (cases "vi_ro vi")
    case True
    then show ?thesis using assms Add by (auto simp: exec_op_def vi_add_def)
  next
    case False
    obtain r where r: "add_loop us x 1024 vi = (vi', r)" "ids = (case r of Inr vid \<Rightarrow> [vid] | Inl _ \<Rightarrow> [])"
      using assms(1) Add False
      by (auto simp: exec_op_def vi_add_def MAX_COLLISION_RETRIES_def split: prod.splits sum.splits)
    show ?thesis
      using add_loop_next [OF r(1)] assms(2) r(2) Add by (auto split: sum.splits)
  qed
next
  case (AddWith vid x)
  then have "succ64 vid = Suc vid" using assms(2) by (intro succ64_small) simp
  then show ?thesis
    using assms AddWith by (auto simp: exec_op_def vi_add_with_vid_def split: prod.splits sum.splits if_splits)
next
  case (Floor n)
  then show ?thesis using assms by (auto simp: exec_op_def ensure_next_vid_at_least_def split: if_splits)
next
  case (Remove vid)
  then show ?thesis using assms by (auto simp: exec_op_def vi_remove_def split: prod.splits if_splits)
qed

text \<open>C20: In any run of adds, adds under a given id, floors and removals, whatever usearch answers, the
  ids that add issues strictly increase, start at the current next id and stay below the final
  one: no id is issued twice, not even after a removal. (As long as the ids stay 1024 per
  operation below the end of the u64 range.)\<close>
theorem vids_never_reused:
  assumes "run_vec_ops us ops vi = (vi', ids)"
    and "vi_next vi \<le> bnd" and "\<forall>op\<in>set ops. named_id op \<le> bnd" and "bnd + 1024 * length ops < 2 ^ 64"
  shows "sorted_wrt (<) ids \<and> vi_next vi \<le> vi_next vi' \<and> (\<forall>i\<in>set ids. vi_next vi \<le> i \<and> i < vi_next vi')"
  using assms
proof (induction us ops vi arbitrary: vi' ids bnd rule: run_vec_ops.induct)
  case (2 us op ops vi)
  obtain vi1 ids1 where e: "exec_op us op vi = (vi1, ids1)" by (cases "exec_op us op vi")
  obtain ids2 where r: "run_vec_ops us ops vi1 = (vi', ids2)" and ids: "ids = ids1 @ ids2"
    using "2.prems"(1) e by (auto split: prod.splits)
  have m: "max (vi_next vi) (named_id op) \<le> bnd" using "2.prems"(2,3) by simp
  have s1: "vi_next vi \<le> vi_next vi1" "vi_next vi1 \<le> bnd + 1024" "sorted_wrt (<) ids1"
    "\<forall>i\<in>set ids1. vi_next vi \<le> i \<and> i < vi_next vi1"
    using exec_op_next [OF e] m "2.prems"(4) by auto
  have "sorted_wrt (<) ids2 \<and> vi_next vi1 \<le> vi_next vi' \<and> (\<forall>i\<in>set ids2. vi_next vi1 \<le> i \<and> i < vi_next vi')"
    using "2.prems"(3,4) s1(2) by (intro "2.IH" [OF e [symmetric] r, of "bnd + 1024"]) auto
  then show ?case using s1 unfolding ids by (auto simp: sorted_wrt_append) (meson less_le_trans le_trans)+
qed auto

definition list_usearch :: "(nat \<times> (nat \<times> nat) list, nat, nat \<times> (nat \<times> nat) list) usearch" where
  "list_usearch =
     \<lparr>us_new = Inr (0, []), us_load = (\<lambda>f. case f of None \<Rightarrow> Inl ''no file'' | Some ix \<Rightarrow> Inr ix),
      us_view = (\<lambda>f. case f of None \<Rightarrow> Inl ''no file'' | Some ix \<Rightarrow> Inr ix), us_save = Inr,
      us_capacity = fst, us_size = length \<circ> snd, us_reserve = (\<lambda>n ix. ((n, snd ix), Inr ())),
      us_add = (\<lambda>k x ix. if k \<in> fst ` set (snd ix) then (ix, Inl ''Duplicate keys'') else ((fst ix, (k, x) # snd ix), Inr ())),
      us_remove = (\<lambda>k ix. (ix, Inr 0)),
      us_get = (\<lambda>k ix. case map_of (snd ix) k of None \<Rightarrow> Inr (0, 0) | Some x \<Rightarrow> Inr (1, x)),
      us_search = (\<lambda>x k ix. Inr ([], []))\<rparr>"

lemma vids_never_reused_witness:
  "sorted_wrt (<) (snd (run_vec_ops list_usearch [Add 5, Remove 0, Add 6, Floor 9, Add 7] \<lparr>vi_inner = (0, []), vi_next = 0, vi_ro = False\<rparr>))"
  using vids_never_reused [of list_usearch "[Add 5, Remove 0, Add 6, Floor 9, Add 7]"
      "\<lparr>vi_inner = (0, []), vi_next = 0, vi_ro = False\<rparr>", OF surjective_pairing, of 9]
  by simp

subsection \<open>Adding heals a next id that lags behind\<close>

text \<open>
  What usearch documents of \<open>add\<close> and \<open>reserve\<close>: \<open>used ix\<close> are the keys ever added (a removal
  leaves a tombstone), a used key is refused with the duplicate-key message and changes
  nothing, any other is accepted when there is room, and \<open>reserve\<close> makes room.
\<close>

definition usearch_contract :: "('ix, 'v, 'f) usearch \<Rightarrow> ('ix \<Rightarrow> nat set) \<Rightarrow> bool" where
  "usearch_contract us used \<longleftrightarrow>
     (\<forall>n ix. \<exists>ix'. us_reserve us n ix = (ix', Inr ()) \<and> used ix' = used ix \<and> us_size us ix' = us_size us ix \<and> n \<le> us_capacity us ix')
     \<and> (\<forall>k x ix. k \<in> used ix \<longrightarrow> (\<exists>e. us_add us k x ix = (ix, Inl e) \<and> is_duplicate_key_error e))
     \<and> (\<forall>k x ix. k \<notin> used ix \<and> us_size us ix < us_capacity us ix \<longrightarrow>
          (\<exists>ix'. us_add us k x ix = (ix', Inr ()) \<and> used ix' = insert k (used ix)))"

lemma grow_contract:
  assumes "usearch_contract us used" and "us_size us ix \<le> us_capacity us ix"
  obtains ix' where "vi_grow us ix = (ix', Inr ())" and "used ix' = used ix" and "us_size us ix' < us_capacity us ix'"
proof (cases "us_capacity us ix \<le> us_size us ix")
  case True
  obtain ix' where "us_reserve us (us_capacity us ix * 2 + 1) ix = (ix', Inr ())" "used ix' = used ix"
    "us_size us ix' = us_size us ix" "us_capacity us ix * 2 + 1 \<le> us_capacity us ix'"
    using assms(1) unfolding usearch_contract_def by blast
  then show thesis using that True assms(2) by (simp add: vi_grow_def)
next
  case False
  then show thesis using that by (simp add: vi_grow_def)
qed

lemma add_loop_heals:
  assumes "usearch_contract us used" and "us_size us (vi_inner vi) \<le> us_capacity us (vi_inner vi)"
    and "\<forall>i<n. vi_next vi + i \<in> used (vi_inner vi)" and "vi_next vi + n \<notin> used (vi_inner vi)"
    and "n < tries" and "vi_next vi + tries < 2 ^ 64"
  shows "\<exists>ix'. add_loop us x tries vi = (vi\<lparr>vi_inner := ix', vi_next := Suc (vi_next vi + n)\<rparr>, Inr (vi_next vi + n))
    \<and> used ix' = insert (vi_next vi + n) (used (vi_inner vi))"
  using assms(2-)
proof (induction n arbitrary: vi tries)
  case 0
  then obtain tries' where t: "tries = Suc tries'" by (cases tries) auto
  obtain ix1 where g: "vi_grow us (vi_inner vi) = (ix1, Inr ())" "used ix1 = used (vi_inner vi)" "us_size us ix1 < us_capacity us ix1"
    using grow_contract [OF assms(1) "0.prems"(1)] by blast
  obtain ix2 where a: "us_add us (vi_next vi) x ix1 = (ix2, Inr ())" "used ix2 = insert (vi_next vi) (used ix1)"
  proof -
    have "vi_next vi \<notin> used ix1" using g(2) "0.prems"(3) by simp
    then show thesis using that assms(1) g(3) unfolding usearch_contract_def by blast
  qed
  have "succ64 (vi_next vi) = Suc (vi_next vi)" using "0.prems"(5) t by (intro succ64_small) simp
  then show ?case using g a by (intro exI [of _ ix2]) (simp add: t)
next
  case (Suc n)
  then obtain tries' where t: "tries = Suc tries'" by (cases tries) auto
  obtain ix1 where g: "vi_grow us (vi_inner vi) = (ix1, Inr ())" "used ix1 = used (vi_inner vi)" "us_size us ix1 < us_capacity us ix1"
    using grow_contract [OF assms(1) Suc.prems(1)] by blast
  have "vi_next vi \<in> used ix1" using Suc.prems(2) g(2) by (metis add_0_right zero_less_Suc)
  then obtain e where a: "us_add us (vi_next vi) x ix1 = (ix1, Inl e)" "is_duplicate_key_error e"
    using assms(1) unfolding usearch_contract_def by blast
  have s: "succ64 (vi_next vi) = Suc (vi_next vi)" using Suc.prems(5) t by (intro succ64_small) simp
  let ?vi1 = "vi\<lparr>vi_inner := ix1, vi_next := Suc (vi_next vi)\<rparr>"
  have used1: "\<forall>i<n. vi_next ?vi1 + i \<in> used (vi_inner ?vi1)"
  proof (intro allI impI)
    fix i assume "i < n"
    then have "vi_next vi + Suc i \<in> used (vi_inner vi)" using Suc.prems(2) [rule_format, of "Suc i"] by simp
    then show "vi_next ?vi1 + i \<in> used (vi_inner ?vi1)" using g(2) by simp
  qed
  have "\<exists>ix'. add_loop us x tries' ?vi1 = (?vi1\<lparr>vi_inner := ix', vi_next := Suc (vi_next ?vi1 + n)\<rparr>, Inr (vi_next ?vi1 + n))
      \<and> used ix' = insert (vi_next ?vi1 + n) (used (vi_inner ?vi1))"
    using Suc.prems(3,4,5) g(2,3) t used1 by (intro Suc.IH) simp_all
  then show ?case using g a s by (simp add: t)
qed

text \<open>When the next id lags behind ids usearch already holds or has tombstoned, add steps over them:
  with fewer than 1024 in the way it succeeds with the first free id, which from then on counts
  as used.\<close>
theorem vi_add_self_heals:
  assumes "usearch_contract us used" and "\<not> vi_ro vi"
    and "us_size us (vi_inner vi) \<le> us_capacity us (vi_inner vi)"
    and "\<forall>i<n. vi_next vi + i \<in> used (vi_inner vi)" and "vi_next vi + n \<notin> used (vi_inner vi)"
    and "n < 1024" and "vi_next vi + 1024 < 2 ^ 64"
  shows "\<exists>vi'. vi_add us x vi = (vi', Inr (vi_next vi + n)) \<and> vi_next vi' = Suc (vi_next vi + n)
    \<and> used (vi_inner vi') = insert (vi_next vi + n) (used (vi_inner vi))"
proof -
  obtain ix' where "add_loop us x 1024 vi = (vi\<lparr>vi_inner := ix', vi_next := Suc (vi_next vi + n)\<rparr>, Inr (vi_next vi + n))"
    "used ix' = insert (vi_next vi + n) (used (vi_inner vi))"
    using add_loop_heals [OF assms(1,3,4,5,6,7)] by blast
  then show ?thesis using assms(2) by (auto simp: vi_add_def MAX_COLLISION_RETRIES_def)
qed

lemma list_usearch_contract: "usearch_contract list_usearch (\<lambda>ix. fst ` set (snd ix))"
proof -
  have "is_duplicate_key_error ''Duplicate keys''" by code_simp
  then show ?thesis by (auto simp: usearch_contract_def list_usearch_def)
qed

lemma vi_add_self_heals_witness:
  "snd (vi_add list_usearch 7 \<lparr>vi_inner = (2, [(1, 8), (0, 9)]), vi_next = 0, vi_ro = False\<rparr>) = Inr 2"
proof -
  let ?vi = "\<lparr>vi_inner = (2, [(1, 8), (0, 9)]), vi_next = 0, vi_ro = False\<rparr> :: (nat \<times> (nat \<times> nat) list) vector_index"
  have "\<forall>i<2. vi_next ?vi + i \<in> fst ` set (snd (vi_inner ?vi))" by (auto simp: less_2_cases_iff)
  then have "\<exists>vi'. vi_add list_usearch 7 ?vi = (vi', Inr (vi_next ?vi + 2)) \<and> vi_next vi' = Suc (vi_next ?vi + 2)
      \<and> fst ` set (snd (vi_inner vi')) = insert (vi_next ?vi + 2) (fst ` set (snd (vi_inner ?vi)))"
    by (intro vi_add_self_heals list_usearch_contract) (simp_all add: list_usearch_def)
  then show ?thesis by auto
qed

subsection \<open>Saving\<close>

text \<open>
  A directory: its entries name inodes; an inode's data is durable once synced. \<open>fs_disk\<close> are
  the versions of the directory a crash may leave, the current one among them; syncing the
  directory leaves only that.
\<close>

record 'c fs =
  fs_dir :: "string \<Rightarrow> nat option"
  fs_data :: "nat \<Rightarrow> 'c"
  fs_synced :: "nat \<Rightarrow> bool"
  fs_disk :: "(string \<Rightarrow> nat option) list"
  fs_fresh :: nat

definition set_dir :: "(string \<Rightarrow> nat option) \<Rightarrow> 'c fs \<Rightarrow> 'c fs" where
  "set_dir d st = st\<lparr>fs_dir := d, fs_disk := d # fs_disk st\<rparr>"

text \<open>\<open>fopen(path, "wb")\<close> and the writes: an existing file keeps its inode.\<close>

definition fs_write :: "string \<Rightarrow> 'c \<Rightarrow> 'c fs \<Rightarrow> 'c fs" where
  "fs_write name c st =
     (case fs_dir st name of
        Some i \<Rightarrow> st\<lparr>fs_data := (fs_data st)(i := c), fs_synced := (fs_synced st)(i := False)\<rparr>
      | None \<Rightarrow>
          (let i = fs_fresh st in
           set_dir ((fs_dir st)(name \<mapsto> i))
             (st\<lparr>fs_data := (fs_data st)(i := c), fs_synced := (fs_synced st)(i := False), fs_fresh := Suc i\<rparr>)))"

definition fs_sync :: "string \<Rightarrow> 'c fs \<Rightarrow> 'c fs" where
  "fs_sync name st =
     (case fs_dir st name of None \<Rightarrow> st | Some i \<Rightarrow> st\<lparr>fs_synced := (fs_synced st)(i := True)\<rparr>)"

definition fs_rename :: "string \<Rightarrow> string \<Rightarrow> 'c fs \<Rightarrow> 'c fs" where
  "fs_rename a b st = set_dir ((fs_dir st)(b := fs_dir st a, a := None)) st"

definition fs_sync_dir :: "'c fs \<Rightarrow> 'c fs" where
  "fs_sync_dir st = st\<lparr>fs_disk := [fs_dir st]\<rparr>"

datatype 'c readout = Missing | Content 'c | Torn

definition read_back :: "'c fs \<Rightarrow> (string \<Rightarrow> nat option) \<Rightarrow> string \<Rightarrow> 'c readout" where
  "read_back st d name =
     (case d name of None \<Rightarrow> Missing | Some i \<Rightarrow> if fs_synced st i then Content (fs_data st i) else Torn)"

text \<open>What a restart after a crash may find under a name.\<close>

definition after_crash :: "'c fs \<Rightarrow> string \<Rightarrow> 'c readout set" where
  "after_crash st name = (\<lambda>d. read_back st d name) ` set (fs_disk st)"

definition tmp_name :: "string option \<Rightarrow> nat \<Rightarrow> string" where
  "tmp_name file pid = ''.'' @ (case file of None \<Rightarrow> ''hnsw.usearch'' | Some n \<Rightarrow> n) @ ''.tmp-'' @ dec pid"

record save_io =
  si_sync :: bool
  si_rename :: bool
  si_dir :: bool

datatype save_error = SaveReadOnly | SaveUsearch string | SyncTmp | RenameTmp | SyncParent

text \<open>\<open>save\<close>: in place, without a sync.\<close>

definition vi_save :: "('ix, 'v, 'f) usearch \<Rightarrow> 'ix vector_index \<Rightarrow> string \<Rightarrow> 'f fs \<Rightarrow> 'f fs \<times> (save_error + unit)" where
  "vi_save us vi name st =
     (if vi_ro vi then (st, Inl SaveReadOnly)
      else case us_save us (vi_inner vi) of
        Inl e \<Rightarrow> (st, Inl (SaveUsearch e)) | Inr c \<Rightarrow> (fs_write name c st, Inr ()))"

text \<open>\<open>save_atomic\<close>, with the states it passes through, latest first.\<close>

definition save_atomic ::
  "('ix, 'v, 'f) usearch \<Rightarrow> save_io \<Rightarrow> nat \<Rightarrow> 'ix vector_index \<Rightarrow> string \<Rightarrow> 'f fs \<Rightarrow> 'f fs list \<times> (save_error + unit)" where
  "save_atomic us io pid vi name st0 =
     (if vi_ro vi then ([st0], Inl SaveReadOnly)
      else
        (let tmp = tmp_name (Some name) pid in
         case vi_save us vi tmp st0 of
           (st1, Inl e) \<Rightarrow> ([st1, st0], Inl e)
         | (st1, Inr _) \<Rightarrow>
             if \<not> si_sync io then ([st1, st0], Inl SyncTmp)
             else
               (let st2 = fs_sync tmp st1 in
                if \<not> si_rename io then ([st2, st1, st0], Inl RenameTmp)
                else
                  (let st3 = fs_rename tmp name st2 in
                   if \<not> si_dir io then ([st3, st2, st1, st0], Inl SyncParent)
                   else ([fs_sync_dir st3, st3, st2, st1, st0], Inr ())))))"

lemma tmp_name_ne: "tmp_name (Some name) pid \<noteq> name"
proof
  assume "tmp_name (Some name) pid = name"
  then have "length (tmp_name (Some name) pid) = length name" by simp
  then show False by (simp add: tmp_name_def)
qed

text \<open>A settled directory: one version, every file durable, one name per inode.\<close>

definition fs_settled :: "'c fs \<Rightarrow> bool" where
  "fs_settled st \<longleftrightarrow> fs_disk st = [fs_dir st]
     \<and> (\<forall>n i. fs_dir st n = Some i \<longrightarrow> fs_synced st i \<and> i < fs_fresh st)
     \<and> (\<forall>n m i. fs_dir st n = Some i \<and> fs_dir st m = Some i \<longrightarrow> n = m)"

text \<open>C13: A crash at any point of save_atomic, also one whose operations fail, leaves under the index's
  name either what was there before or the complete new index, never a partial one; when it
  reports success only the new index can be found.\<close>
theorem save_atomic_crash_safe:
  assumes st: "fs_settled st0" and r: "save_atomic us io pid vi name st0 = (states, res)"
  shows "(\<forall>st\<in>set states. after_crash st name \<subseteq>
           {read_back st0 (fs_dir st0) name} \<union> {Content c |c. us_save us (vi_inner vi) = Inr c})
    \<and> (res = Inr () \<longrightarrow> (\<exists>c. us_save us (vi_inner vi) = Inr c \<and> after_crash (hd states) name = {Content c}))"
proof -
  let ?tmp = "tmp_name (Some name) pid"
  have ne: "?tmp \<noteq> name" by (rule tmp_name_ne)
  have base: "after_crash st0 name = {read_back st0 (fs_dir st0) name}"
    using st by (simp add: after_crash_def fs_settled_def)
  show ?thesis
  proof (cases "vi_ro vi")
    case True
    then have "states = [st0]" "res \<noteq> Inr ()" using r by (auto simp: save_atomic_def)
    then show ?thesis by (simp add: base)
  next
    case rw: False
    show ?thesis
    proof (cases "us_save us (vi_inner vi)")
      case (Inl e)
      have "save_atomic us io pid vi name st0 = ([st0, st0], Inl (SaveUsearch e))"
        by (simp add: save_atomic_def vi_save_def Let_def rw Inl)
      then have "states = [st0, st0]" "res \<noteq> Inr ()" using r by auto
      then show ?thesis by (simp add: base)
    next
      case (Inr c)
      define st1 where "st1 = fs_write ?tmp c st0"
      define st2 where "st2 = fs_sync ?tmp st1"
      define st3 where "st3 = fs_rename ?tmp name st2"
      obtain i where i: "fs_dir st1 ?tmp = Some i" "fs_data st1 i = c"
        and old: "\<And>j. fs_dir st0 name = Some j \<Longrightarrow> j \<noteq> i \<and> fs_synced st1 j = fs_synced st0 j \<and> fs_data st1 j = fs_data st0 j"
        and same: "\<And>d. d \<in> set (fs_disk st1) \<Longrightarrow> d name = fs_dir st0 name"
      proof (cases "fs_dir st0 ?tmp")
        case None
        show thesis
          by (rule that [of "fs_fresh st0"])
            (use None ne st in \<open>auto simp: st1_def fs_write_def set_dir_def Let_def fs_settled_def\<close>)
      next
        case (Some k)
        show thesis
          by (rule that [of k])
            (use Some ne st in \<open>auto simp: st1_def fs_write_def set_dir_def Let_def fs_settled_def\<close>)
      qed
      have "read_back st1 d name = read_back st0 (fs_dir st0) name" if "d \<in> set (fs_disk st1)" for d
        using same [OF that] old by (cases "fs_dir st0 name") (simp_all add: read_back_def)
      then have c1: "after_crash st1 name \<subseteq> {read_back st0 (fs_dir st0) name}"
        by (auto simp: after_crash_def)
      have st2: "fs_disk st2 = fs_disk st1" "fs_data st2 = fs_data st1" "fs_synced st2 = (fs_synced st1)(i := True)"
        using i(1) by (simp_all add: st2_def fs_sync_def)
      have "read_back st2 d name = read_back st0 (fs_dir st0) name" if "d \<in> set (fs_disk st1)" for d
        using same [OF that] old by (cases "fs_dir st0 name") (simp_all add: read_back_def st2)
      then have c2: "after_crash st2 name \<subseteq> {read_back st0 (fs_dir st0) name}"
        by (auto simp: after_crash_def st2(1))
      have d3: "fs_dir st3 name = Some i" "fs_synced st3 i" "fs_data st3 i = c"
        using i ne by (simp_all add: st3_def st2_def fs_rename_def set_dir_def fs_sync_def)
      have s3: "fs_disk st3 = fs_dir st3 # fs_disk st2" "fs_synced st3 = fs_synced st2" "fs_data st3 = fs_data st2"
        by (simp_all add: st3_def fs_rename_def set_dir_def)
      have "read_back st3 d n = read_back st2 d n" for d n
        unfolding read_back_def s3(2,3) ..
      moreover have "read_back st3 (fs_dir st3) name = Content c" using d3 by (simp add: read_back_def)
      ultimately have "after_crash st3 name = insert (Content c) (after_crash st2 name)"
        unfolding after_crash_def s3(1) by simp
      then have c3: "after_crash st3 name \<subseteq> {read_back st0 (fs_dir st0) name} \<union> {Content c}" using c2 by auto
      have c4: "after_crash (fs_sync_dir st3) name = {Content c}"
        using d3 by (simp add: after_crash_def fs_sync_dir_def read_back_def)
      have "save_atomic us io pid vi name st0 =
          (if \<not> si_sync io then ([st1, st0], Inl SyncTmp)
           else if \<not> si_rename io then ([st2, st1, st0], Inl RenameTmp)
           else if \<not> si_dir io then ([st3, st2, st1, st0], Inl SyncParent)
           else ([fs_sync_dir st3, st3, st2, st1, st0], Inr ()))"
        unfolding st3_def st2_def st1_def save_atomic_def vi_save_def Let_def by (simp add: rw Inr)
      then have "states = [st1, st0] \<and> res \<noteq> Inr () \<or> states = [st2, st1, st0] \<and> res \<noteq> Inr ()
          \<or> states = [st3, st2, st1, st0] \<and> res \<noteq> Inr () \<or> states = [fs_sync_dir st3, st3, st2, st1, st0]"
        using r by (auto split: if_splits)
      moreover have "after_crash st1 name \<subseteq> {read_back st0 (fs_dir st0) name} \<union> {Content c}"
        "after_crash st2 name \<subseteq> {read_back st0 (fs_dir st0) name} \<union> {Content c}"
        using c1 c2 by auto
      ultimately show ?thesis using base c3 c4 Inr by (elim disjE) simp_all
    qed
  qed
qed

lemma save_atomic_crash_safe_witness:
  "\<exists>st. save_atomic list_usearch \<lparr>si_sync = True, si_rename = True, si_dir = True\<rparr> 7
         \<lparr>vi_inner = (1, []), vi_next = 0, vi_ro = False\<rparr> ''x''
         \<lparr>fs_dir = (\<lambda>_. None), fs_data = (\<lambda>_. (0, [])), fs_synced = (\<lambda>_. False), fs_disk = [\<lambda>_. None], fs_fresh = 0\<rparr>
       = (st, Inr ()) \<and> after_crash (hd st) ''x'' = {Content (1, [])}"
proof -
  let ?io = "\<lparr>si_sync = True, si_rename = True, si_dir = True\<rparr>"
  let ?vi = "\<lparr>vi_inner = (1, []), vi_next = 0, vi_ro = False\<rparr> :: (nat \<times> (nat \<times> nat) list) vector_index"
  let ?st = "\<lparr>fs_dir = (\<lambda>_. None), fs_data = (\<lambda>_. (0, [])), fs_synced = (\<lambda>_. False), fs_disk = [\<lambda>_. None], fs_fresh = 0\<rparr>
     :: (nat \<times> (nat \<times> nat) list) fs"
  define st where "st = fst (save_atomic list_usearch ?io 7 ?vi ''x'' ?st)"
  have "snd (save_atomic list_usearch ?io 7 ?vi ''x'' ?st) = Inr ()"
    by (simp add: save_atomic_def vi_save_def Let_def list_usearch_def)
  then have r: "save_atomic list_usearch ?io 7 ?vi ''x'' ?st = (st, Inr ())"
    unfolding st_def by (simp add: prod_eq_iff)
  have "fs_settled ?st" by (simp add: fs_settled_def)
  from save_atomic_crash_safe [OF this r, THEN conjunct2]
  obtain c where c: "us_save list_usearch (vi_inner ?vi) = Inr c" "after_crash (hd st) ''x'' = {Content c}"
    by (elim impE exE conjE) simp_all
  have "c = (1, [])" using c(1) by (simp add: list_usearch_def)
  then show ?thesis using r c(2) by (intro exI [of _ st] conjI) simp_all
qed

text \<open>Saving in place gives no such promise.\<close>

lemma save_in_place_can_tear:
  assumes "fs_settled st0" and "fs_dir st0 name = Some i" and "\<not> vi_ro vi" and "us_save us (vi_inner vi) = Inr c"
  shows "after_crash (fst (vi_save us vi name st0)) name = {Torn}"
  using assms by (simp add: vi_save_def fs_write_def after_crash_def read_back_def fs_settled_def)

end
