(* ===== verification/Cjk.thy ===== *)
theory Cjk
  imports StrOps Prelude
begin

text \<open>
  The tantivy token filter that splits CJK runs into bigrams,
  \<open>crates/rqmd-core/src/cjk_tokenizer.rs\<close>. The tokenizer in front of it is not under src/: the
  filter gets the list of its tokens. A slice inside a character panics: \<open>None\<close>.
\<close>

definition is_cjk :: "string \<Rightarrow> bool" where
  "is_cjk c \<longleftrightarrow>
     (let n = cp c in
      (0x3040 \<le> n \<and> n \<le> 0x30FF) \<or> (0x3400 \<le> n \<and> n \<le> 0x4DBF) \<or> (0x4E00 \<le> n \<and> n \<le> 0x9FFF)
      \<or> (0xAC00 \<le> n \<and> n \<le> 0xD7AF) \<or> (0xF900 \<le> n \<and> n \<le> 0xFAFF) \<or> (0xFF66 \<le> n \<and> n \<le> 0xFF9F))"

record token =
  tk_from :: nat
  tk_to :: nat
  tk_position :: nat
  tk_text :: string
  tk_length :: nat

definition piece :: "token \<Rightarrow> nat \<Rightarrow> nat \<Rightarrow> token option" where
  "piece source a b =
     map_option (\<lambda>t. \<lparr>tk_from = tk_from source + a, tk_to = tk_from source + b, tk_position = 0, tk_text = t, tk_length = 1\<rparr>)
       (str_slice (tk_text source) a b)"

definition flush_run :: "token \<Rightarrow> nat \<Rightarrow> nat \<Rightarrow> bool \<Rightarrow> nat list \<Rightarrow> token list \<Rightarrow> token list option" where
  "flush_run tok start stop cjk boundaries out =
     (if \<not> cjk \<or> length boundaries = 1 then map_option (\<lambda>p. out @ [p]) (piece tok start stop)
      else map_option (\<lambda>ps. out @ ps)
        (those (map (\<lambda>k. piece tok (boundaries ! k) (if k + 2 < length boundaries then boundaries ! (k + 2) else stop))
           (filter (\<lambda>k. k + 1 < length boundaries) [0..<length boundaries]))))"

text \<open>The loop over the characters: the open run, its start and its boundaries.\<close>

fun split_loop ::
  "token \<Rightarrow> (nat \<times> string) list \<Rightarrow> nat \<Rightarrow> bool option \<Rightarrow> nat list \<Rightarrow> token list \<Rightarrow> token list option" where
  "split_loop tok [] start run boundaries out =
     (case run of None \<Rightarrow> Some out | Some was \<Rightarrow> flush_run tok start (length (tk_text tok)) was boundaries out)"
| "split_loop tok ((i, c) # cs) start run boundaries out =
     (let cjk = is_cjk c in
      if run \<noteq> Some cjk then
        Option.bind (case run of None \<Rightarrow> Some out | Some was \<Rightarrow> flush_run tok start i was boundaries out)
          (\<lambda>out'. split_loop tok cs i (Some cjk) [i] out')
      else split_loop tok cs start run (boundaries @ [i]) out)"

definition split_token :: "token \<Rightarrow> token list \<Rightarrow> token list option" where
  "split_token tok out =
     (if \<not> list_ex is_cjk (chars (tk_text tok)) then Some (out @ [tok])
      else split_loop tok (char_indices (tk_text tok)) 0 None [] out)"

record cjk_stream =
  cs_tail :: "token list"
  cs_pending :: "token list"
  cs_current :: "token option"
  cs_next :: nat

definition token_stream :: "token list \<Rightarrow> cjk_stream" where
  "token_stream inner = \<lparr>cs_tail = inner, cs_pending = [], cs_current = None, cs_next = 0\<rparr>"

text \<open>\<open>advance\<close>: the loop takes tokens of the tail until one is pending.\<close>

function advance :: "cjk_stream \<Rightarrow> (cjk_stream \<times> bool) option" where
  "advance st =
     (case cs_pending st of
        tok # pending \<Rightarrow>
          Some (st\<lparr>cs_pending := pending, cs_current := Some (tok\<lparr>tk_position := cs_next st\<rparr>), cs_next := cs_next st + 1\<rparr>, True)
      | [] \<Rightarrow>
          (case cs_tail st of
             [] \<Rightarrow> Some (st, False)
           | tok # tail \<Rightarrow>
               (case split_token tok [] of
                  None \<Rightarrow> None
                | Some pending \<Rightarrow> advance (st\<lparr>cs_tail := tail, cs_pending := pending\<rparr>))))"
  by pat_completeness auto
termination
  by (relation "measure (\<lambda>st. length (cs_tail st))") auto

declare advance.simps [simp del]

text \<open>All tokens of a stream, as an indexer or a query parser reads them; \<open>fuel\<close> bounds their number.\<close>

fun drain :: "nat \<Rightarrow> cjk_stream \<Rightarrow> token list option" where
  "drain 0 st = None"
| "drain (Suc fuel) st =
     (case advance st of
        None \<Rightarrow> None
      | Some (st', False) \<Rightarrow> Some []
      | Some (st', True) \<Rightarrow>
          (case cs_current st' of None \<Rightarrow> None | Some tok \<Rightarrow> map_option (Cons tok) (drain fuel st')))"

subsection \<open>Runs and their bigrams\<close>

text \<open>The reference: maximal runs of characters of one kind, a CJK run of two or more as its
  overlapping pairs.\<close>

fun runs_from :: "bool \<Rightarrow> string list \<Rightarrow> string list \<Rightarrow> (bool \<times> string list) list" where
  "runs_from kind run [] = [(kind, run)]"
| "runs_from kind run (c # cs) =
     (if is_cjk c = kind then runs_from kind (run @ [c]) cs else (kind, run) # runs_from (is_cjk c) [c] cs)"

definition bigrams :: "string list \<Rightarrow> string list" where
  "bigrams cs = map2 (@) cs (tl cs)"

definition expand_run :: "bool \<times> string list \<Rightarrow> string list" where
  "expand_run = (\<lambda>(kind, run). if kind \<and> 2 \<le> length run then bigrams run else [concat run])"

definition expand_text :: "string list \<Rightarrow> string list" where
  "expand_text cs =
     (if \<not> list_ex is_cjk cs then [concat cs] else concat (map expand_run (runs_from (is_cjk (hd cs)) [hd cs] (tl cs))))"

lemma length_bigrams [simp]: "length (bigrams cs) = length cs - 1"
  by (simp add: bigrams_def)

lemma bigrams_nth: "Suc k < length cs \<Longrightarrow> bigrams cs ! k = cs ! k @ cs ! Suc k"
  by (simp add: bigrams_def nth_tl)

lemma bigrams_append: "x \<noteq> [] \<Longrightarrow> bigrams (x @ y) = bigrams x @ bigrams (last x # y)"
  by (induction x) (auto simp: bigrams_def neq_Nil_conv)

lemma bigrams_infix: "2 \<le> length q \<Longrightarrow> \<exists>pre post. bigrams (x @ q @ y) = pre @ bigrams q @ post"
proof -
  assume "2 \<le> length q"
  then have q: "q \<noteq> []" by auto
  have "bigrams (q @ y) = bigrams q @ bigrams (last q # y)" using q by (rule bigrams_append)
  moreover have "\<exists>pre. bigrams (x @ q @ y) = pre @ bigrams (q @ y)"
  proof (cases "x = []")
    case False
    have "bigrams (last x # q @ y) = (last x @ hd q) # bigrams (q @ y)" using q by (cases q) (simp_all add: bigrams_def)
    then show ?thesis using bigrams_append [OF False, of "q @ y"] by (metis append.assoc append_Cons append_Nil)
  qed simp
  ultimately show ?thesis by auto
qed

lemma runs_prefix: "\<exists>y rs. runs_from kind run cs = (kind, run @ y) # rs"
proof (induction cs arbitrary: run)
  case (Cons c cs)
  then show ?case by (cases "is_cjk c = kind") (simp, metis append.assoc, simp)
qed simp

lemma runs_same: "\<forall>c\<in>set q. is_cjk c = kind \<Longrightarrow> runs_from kind run (q @ cs) = runs_from kind (run @ q) cs"
  by (induction q arbitrary: run) auto

lemma runs_infix:
  assumes q: "\<forall>c\<in>set q. is_cjk c" and ne: "q \<noteq> []"
  shows "\<exists>x y rs rs'. runs_from kind run (as @ q @ bs) = rs @ (True, x @ q @ y) # rs'"
proof (induction as arbitrary: kind run)
  case Nil
  obtain c q' where cq: "q = c # q'" using ne by (cases q) auto
  show ?case
  proof (cases kind)
    case True
    then have "runs_from kind run (q @ bs) = runs_from True (run @ q) bs" using q by (simp add: runs_same)
    then show ?thesis using runs_prefix [of True "run @ q" bs] by (metis append.assoc append_Nil)
  next
    case False
    then have "runs_from kind run (q @ bs) = (kind, run) # runs_from True q bs"
      using q runs_same [of q' True "[c]" bs] by (simp add: cq)
    then show ?thesis using runs_prefix [of True q bs] by (metis append_Cons append_Nil)
  qed
next
  case (Cons a as)
  then show ?case
    by (cases "is_cjk a = kind") (simp, simp, metis append_Cons)
qed

lemma expand_infix:
  assumes "\<forall>c\<in>set q. is_cjk c" and "2 \<le> length q"
  shows "\<exists>pre post. expand_text (as @ q @ bs) = pre @ bigrams q @ post"
proof -
  have q: "q \<noteq> []" using assms(2) by auto
  have cjk: "list_ex is_cjk (as @ q @ bs)" using assms(1) q by (cases q) auto
  have "\<exists>x y rs rs'. runs_from (is_cjk (hd (as @ q @ bs))) [hd (as @ q @ bs)] (tl (as @ q @ bs)) = rs @ (True, x @ q @ y) # rs'"
  proof (cases as)
    case Nil
    obtain c q' where cq: "q = c # q'" "is_cjk c" using assms(1) q by (cases q) auto
    then have "runs_from True [c] (q' @ bs) = runs_from True q bs" using assms(1) by (simp add: runs_same)
    then show ?thesis using Nil cq runs_prefix [of True q bs] by simp (metis append_Nil)
  next
    case (Cons a as')
    then show ?thesis using runs_infix [OF assms(1) q, of "is_cjk a" "[a]" as' bs] by simp
  qed
  then obtain x y rs rs' where r:
    "runs_from (is_cjk (hd (as @ q @ bs))) [hd (as @ q @ bs)] (tl (as @ q @ bs)) = rs @ (True, x @ q @ y) # rs'" by blast
  have "expand_text (as @ q @ bs) = concat (map expand_run rs) @ bigrams (x @ q @ y) @ concat (map expand_run rs')"
    using cjk assms(2) unfolding expand_text_def r by (simp add: expand_run_def)
  then show ?thesis using bigrams_infix [OF assms(2), of x y] by (metis append.assoc)
qed

lemma expand_query:
  assumes "\<forall>c\<in>set q. is_cjk c" and "2 \<le> length q"
  shows "expand_text q = bigrams q"
proof -
  obtain c q' where cq: "q = c # q'" "is_cjk c" using assms by (cases q) auto
  then have "runs_from True [c] q' = [(True, q)]" using assms(1) runs_same [of q' True "[c]" "[]"] by simp
  then show ?thesis using cq assms(2) by (simp add: expand_text_def expand_run_def)
qed

subsection \<open>The loop computes the reference\<close>

definition offset_of :: "string list \<Rightarrow> nat \<Rightarrow> nat" where
  "offset_of cs i = length (concat (take i cs))"

lemma offset_length [simp]: "offset_of (chars s) (length (chars s)) = length s"
  by (simp add: offset_of_def)

lemma offset_boundary: "valid_utf8 s \<Longrightarrow> is_char_boundary s (offset_of (chars s) i)"
proof (induction s arbitrary: i rule: valid_utf8.induct)
  case (1 s)
  show ?case
  proof (cases "s = [] \<or> i = 0")
    case True
    then show ?thesis by (auto simp: offset_of_def)
  next
    case False
    then obtain j where i: "i = Suc j" by (cases i) auto
    have n: "0 < seq_len s" "valid_utf8 (drop (seq_len s) s)" using valid_utf8_step "1.prems" False by auto
    have "seq_len s \<le> length s" using n(1) by (rule seq_len_shape)
    then have "offset_of (chars s) i = seq_len s + offset_of (chars (drop (seq_len s) s)) j"
      using chars_step [OF n(1)] by (simp add: offset_of_def i)
    then show ?thesis using boundary_drop [OF "1.prems"] False "1.IH" n by simp
  qed
qed

lemma slice_chars:
  assumes "valid_utf8 s" and "a \<le> b"
  shows "str_slice s (offset_of (chars s) a) (offset_of (chars s) b) = Some (concat (take (b - a) (drop a (chars s))))"
proof -
  let ?cs = "chars s"
  have b: "take b ?cs = take a ?cs @ take (b - a) (drop a ?cs)"
    using assms(2) by (metis le_add_diff_inverse take_add)
  have "s = concat (take a ?cs) @ concat (take (b - a) (drop a ?cs)) @ concat (drop b ?cs)"
    using arg_cong [OF append_take_drop_id [of b ?cs], of concat] unfolding b by simp
  then have "take (offset_of ?cs b - offset_of ?cs a) (drop (offset_of ?cs a) s) = concat (take (b - a) (drop a ?cs))"
    unfolding offset_of_def b by (metis append_eq_conv_conj concat_append diff_add_inverse length_append)
  moreover have "offset_of ?cs a \<le> offset_of ?cs b" by (simp add: offset_of_def b)
  ultimately show ?thesis
    using str_slice_Some offset_boundary [OF assms(1)] by metis
qed

lemma piece_chars:
  assumes "valid_utf8 (tk_text tok)" and "a \<le> b"
  obtains p where "piece tok (offset_of (chars (tk_text tok)) a) (offset_of (chars (tk_text tok)) b) = Some p"
    and "tk_text p = concat (take (b - a) (drop a (chars (tk_text tok))))"
  using slice_chars [OF assms] by (auto simp: piece_def)

lemma those_map_Some: "(\<And>x. x \<in> set xs \<Longrightarrow> \<exists>y. f x = Some y \<and> g y = h x) \<Longrightarrow>
    \<exists>ys. those (map f xs) = Some ys \<and> map g ys = map h xs"
proof (induction xs)
  case (Cons x xs)
  then obtain y where "f x = Some y" "g y = h x" by auto
  moreover obtain ys where "those (map f xs) = Some ys" "map g ys = map h xs" using Cons by auto
  ultimately show ?case by auto
qed simp

lemma filter_pairs: "filter (\<lambda>k. Suc k < n) [0..<n] = [0..<n - 1]"
proof (cases n)
  case (Suc m)
  have "filter (\<lambda>k. Suc k < Suc m) [0..<m] = [0..<m]" by (simp add: filter_id_conv)
  then show ?thesis by (simp add: Suc)
qed simp

lemma flush_run_expands:
  assumes v: "valid_utf8 (tk_text tok)" and ab: "a < b" "b \<le> length (chars (tk_text tok))"
  defines "cs \<equiv> chars (tk_text tok)"
  shows "\<exists>ps. flush_run tok (offset_of cs a) (offset_of cs b) kind (map (offset_of cs) [a..<b]) out = Some (out @ ps)
    \<and> map tk_text ps = expand_run (kind, take (b - a) (drop a cs))"
proof (cases "kind \<and> 2 \<le> b - a")
  case False
  obtain p where "piece tok (offset_of cs a) (offset_of cs b) = Some p" "tk_text p = concat (take (b - a) (drop a cs))"
    using piece_chars [OF v, of a b] ab unfolding cs_def by auto
  moreover have "\<not> kind \<or> b - a = 1" using False ab by auto
  ultimately show ?thesis using False ab by (auto simp: flush_run_def expand_run_def cs_def min_def)
next
  case True
  let ?run = "take (b - a) (drop a cs)" and ?bs = "map (offset_of cs) [a..<b]"
  let ?f = "\<lambda>k. piece tok (?bs ! k) (if k + 2 < length ?bs then ?bs ! (k + 2) else offset_of cs b)"
  let ?ks = "filter (\<lambda>k. k + 1 < length ?bs) [0..<length ?bs]"
  have len: "length ?run = b - a" using ab by (simp add: cs_def)
  have ks: "?ks = [0..<b - a - 1]"
    using filter_pairs [of "b - a"] by simp
  have "\<exists>p. ?f k = Some p \<and> tk_text p = bigrams ?run ! k" if k: "k \<in> set ?ks" for k
  proof -
    have kl: "Suc k < b - a" using k by (simp add: ks less_diff_conv)
    have "(if k + 2 < length ?bs then ?bs ! (k + 2) else offset_of cs b) = offset_of cs (a + k + 2)"
    proof (cases "k + 2 < b - a")
      case False
      then have "a + k + 2 = b" using kl ab by linarith
      then show ?thesis using False by (simp only: length_map length_upt if_False)
    qed simp
    moreover have "?bs ! k = offset_of cs (a + k)" using kl by simp
    moreover obtain p where p: "piece tok (offset_of cs (a + k)) (offset_of cs (a + k + 2)) = Some p"
      "tk_text p = concat (take 2 (drop (a + k) cs))"
      using piece_chars [OF v, of "a + k" "a + k + 2"] unfolding cs_def by auto
    moreover have "concat (take 2 (drop (a + k) cs)) = ?run ! k @ ?run ! Suc k"
    proof -
      have "drop (a + k) cs = cs ! (a + k) # cs ! (a + Suc k) # drop (a + k + 2) cs"
        using kl ab by (simp add: Cons_nth_drop_Suc cs_def)
      then show ?thesis using kl ab by (simp add: numeral_2_eq_2 cs_def)
    qed
    ultimately show ?thesis using kl len by (auto simp: bigrams_nth)
  qed
  then obtain ps where "those (map ?f ?ks) = Some ps" "map tk_text ps = map ((!) (bigrams ?run)) ?ks"
    using those_map_Some [of ?ks ?f tk_text "(!) (bigrams ?run)"] by blast
  moreover have "map ((!) (bigrams ?run)) ?ks = bigrams ?run"
    unfolding ks using len by (metis length_bigrams map_nth)
  ultimately show ?thesis using True len by (auto simp: flush_run_def expand_run_def)
qed

lemma drop_char_indices:
  assumes "n < length (chars s)"
  shows "drop n (char_indices s) = (offset_of (chars s) n, chars s ! n) # drop (Suc n) (char_indices s)"
proof -
  have "char_indices s = zip (map (offset_of (chars s)) [0..<length (chars s)]) (chars s)"
    by (simp add: char_indices_def offset_of_def [abs_def] Let_def)
  then show ?thesis using assms by (simp add: Cons_nth_drop_Suc [symmetric])
qed

lemma split_loop_expands:
  assumes v: "valid_utf8 (tk_text tok)" and "a < n" and "n \<le> length (chars (tk_text tok))"
  defines "cs \<equiv> chars (tk_text tok)"
  shows "\<exists>ts. split_loop tok (drop n (char_indices (tk_text tok))) (offset_of cs a) (Some kind) (map (offset_of cs) [a..<n]) out
      = Some (out @ ts)
    \<and> map tk_text ts = concat (map expand_run (runs_from kind (take (n - a) (drop a cs)) (drop n cs)))"
  using assms(2,3)
proof (induction "length cs - n" arbitrary: a n kind out)
  case 0
  then have n: "n = length (chars (tk_text tok))" by (simp add: cs_def)
  obtain ps where "flush_run tok (offset_of cs a) (length (tk_text tok)) kind (map (offset_of cs) [a..<n]) out = Some (out @ ps)"
    "map tk_text ps = expand_run (kind, take (n - a) (drop a cs))"
    using flush_run_expands [OF v "0.prems", of kind out] unfolding cs_def n by auto
  then show ?case using n by (simp add: char_indices_def cs_def Let_def)
next
  case (Suc d)
  then have n: "n < length (chars (tk_text tok))" by (simp add: cs_def)
  have d: "d = length cs - Suc n" using Suc.hyps(2) by simp
  have drop_cs: "drop n cs = cs ! n # drop (Suc n) cs" using n by (simp add: Cons_nth_drop_Suc cs_def)
  have step: "drop n (char_indices (tk_text tok)) = (offset_of cs n, cs ! n) # drop (Suc n) (char_indices (tk_text tok))"
    unfolding cs_def using n by (rule drop_char_indices)
  show ?case
  proof (cases "is_cjk (cs ! n) = kind")
    case True
    have "map (offset_of cs) [a..<Suc n] = map (offset_of cs) [a..<n] @ [offset_of cs n]"
      using Suc.prems(1) by simp
    moreover have "take (Suc n - a) (drop a cs) = take (n - a) (drop a cs) @ [cs ! n]"
      using Suc.prems(1) n by (simp add: Suc_diff_le take_Suc_conv_app_nth cs_def)
    moreover have "a < Suc n" "Suc n \<le> length (chars (tk_text tok))" using Suc.prems(1) n by auto
    ultimately show ?thesis
      using Suc.hyps(1) [OF d, of a kind out] True by (simp add: step drop_cs)
  next
    case False
    obtain ps where ps: "flush_run tok (offset_of cs a) (offset_of cs n) kind (map (offset_of cs) [a..<n]) out = Some (out @ ps)"
      "map tk_text ps = expand_run (kind, take (n - a) (drop a cs))"
      using flush_run_expands [OF v Suc.prems, of kind out] unfolding cs_def by auto
    have one: "map (offset_of cs) [n..<Suc n] = [offset_of cs n]" "take (Suc n - n) (drop n cs) = [cs ! n]"
      using n by (simp_all add: take_Suc_conv_app_nth drop_cs)
    obtain ts where ts: "split_loop tok (drop (Suc n) (char_indices (tk_text tok))) (offset_of cs n) (Some (is_cjk (cs ! n)))
        [offset_of cs n] (out @ ps) = Some ((out @ ps) @ ts)"
      "map tk_text ts = concat (map expand_run (runs_from (is_cjk (cs ! n)) [cs ! n] (drop (Suc n) cs)))"
      using Suc.hyps(1) [OF d, of n "is_cjk (cs ! n)" "out @ ps"] n unfolding one by auto
    show ?thesis
      using False ps ts by (intro exI [of _ "ps @ ts"]) (simp add: step drop_cs)
  qed
qed

lemma split_token_expands:
  assumes "valid_utf8 (tk_text tok)"
  shows "\<exists>ts. split_token tok out = Some (out @ ts) \<and> map tk_text ts = expand_text (chars (tk_text tok))"
proof (cases "list_ex is_cjk (chars (tk_text tok))")
  case False
  then show ?thesis by (simp add: split_token_def expand_text_def)
next
  case True
  define cs where "cs = chars (tk_text tok)"
  obtain c cs' where c: "cs = c # cs'" using True by (cases cs) (auto simp: cs_def)
  then have n: "0 < length (chars (tk_text tok))" "Suc 0 \<le> length (chars (tk_text tok))" by (simp_all flip: cs_def)
  have one: "map (offset_of cs) [0..<Suc 0] = [0]" "take (Suc 0 - 0) (drop 0 cs) = [c]" "drop (Suc 0) cs = cs'"
    by (simp_all add: offset_of_def c)
  have ci: "char_indices (tk_text tok) = (0, c) # drop (Suc 0) (char_indices (tk_text tok))"
    using drop_char_indices [OF n(1)] by (simp add: offset_of_def c flip: cs_def)
  have "split_loop tok (char_indices (tk_text tok)) 0 None [] out =
      split_loop tok (drop (Suc 0) (char_indices (tk_text tok))) 0 (Some (is_cjk c)) [0] out"
    by (subst ci) simp
  then show ?thesis
    using split_loop_expands [OF assms zero_less_one n(2) [folded One_nat_def], of "is_cjk c" out] True
    unfolding One_nat_def cs_def [symmetric] one
    by (simp add: split_token_def expand_text_def offset_of_def c flip: cs_def)
qed

subsection \<open>The stream\<close>

definition pending_texts :: "cjk_stream \<Rightarrow> string list" where
  "pending_texts st = map tk_text (cs_pending st) @ concat (map (\<lambda>t. expand_text (chars (tk_text t))) (cs_tail st))"

definition stream_ok :: "cjk_stream \<Rightarrow> bool" where
  "stream_ok st \<longleftrightarrow> (\<forall>t\<in>set (cs_tail st). valid_utf8 (tk_text t))"

lemma advance_expands:
  assumes "stream_ok st"
  shows "\<exists>st'. advance st = Some (st', pending_texts st \<noteq> [])
    \<and> (pending_texts st \<noteq> [] \<longrightarrow> stream_ok st' \<and> pending_texts st' = tl (pending_texts st) \<and> cs_next st' = Suc (cs_next st)
         \<and> (\<exists>tok. cs_current st' = Some tok \<and> tk_text tok = hd (pending_texts st) \<and> tk_position tok = cs_next st))"
  using assms
proof (induction st rule: advance.induct)
  case (1 st)
  consider (pending) tok rest where "cs_pending st = tok # rest" | (done_) "cs_pending st = []" "cs_tail st = []"
    | (tail) tok tl where "cs_pending st = []" "cs_tail st = tok # tl"
    by (cases "cs_pending st"; cases "cs_tail st") auto
  then show ?case
  proof cases
    case pending
    then show ?thesis using "1.prems" by (subst advance.simps) (auto simp: pending_texts_def stream_ok_def)
  next
    case done_
    then show ?thesis by (subst advance.simps) (simp add: pending_texts_def)
  next
    case tail
    then obtain ts where ts: "split_token tok [] = Some ts" "map tk_text ts = expand_text (chars (tk_text tok))"
      using "1.prems" split_token_expands [of tok "[]"] by (auto simp: stream_ok_def)
    let ?st = "st\<lparr>cs_tail := tl, cs_pending := ts\<rparr>"
    have "advance st = advance ?st" using tail ts(1) by (subst advance.simps) simp
    moreover have "pending_texts ?st = pending_texts st" using tail ts(2) by (simp add: pending_texts_def)
    moreover have "stream_ok ?st" using "1.prems" tail by (simp add: stream_ok_def)
    ultimately show ?thesis using "1.IH" [OF tail ts(1)] by simp
  qed
qed

lemma drain_expands:
  assumes "stream_ok st" and "length (pending_texts st) < fuel"
  shows "\<exists>out. drain fuel st = Some out \<and> map tk_text out = pending_texts st
    \<and> map tk_position out = [cs_next st..<cs_next st + length out]"
  using assms
proof (induction fuel arbitrary: st)
  case (Suc fuel)
  obtain st' where st': "advance st = Some (st', pending_texts st \<noteq> [])"
    "pending_texts st \<noteq> [] \<Longrightarrow> stream_ok st' \<and> pending_texts st' = tl (pending_texts st) \<and> cs_next st' = Suc (cs_next st)
         \<and> (\<exists>tok. cs_current st' = Some tok \<and> tk_text tok = hd (pending_texts st) \<and> tk_position tok = cs_next st)"
    using advance_expands [OF Suc.prems(1)] by blast
  show ?case
  proof (cases "pending_texts st = []")
    case True
    then show ?thesis using st'(1) by simp
  next
    case False
    then obtain tok where tok: "cs_current st' = Some tok" "tk_text tok = hd (pending_texts st)" "tk_position tok = cs_next st"
      using st'(2) by blast
    have "length (pending_texts st') < fuel" using st'(2) [OF False] Suc.prems(2) False by (cases "pending_texts st") auto
    then obtain out where "drain fuel st' = Some out" "map tk_text out = pending_texts st'"
      "map tk_position out = [cs_next st'..<cs_next st' + length out]"
      using Suc.IH [of st'] st'(2) [OF False] by blast
    moreover from this have "map tk_position (tok # out) = [cs_next st..<cs_next st + length (tok # out)]"
      using st'(2) [OF False] tok(3) by (simp add: upt_conv_Cons del: upt_Suc)
    ultimately show ?thesis
      using st' tok(1,2) False by (intro exI [of _ "tok # out"]) simp
  qed
qed simp

lemma drain_mono: "drain fuel st = Some out \<Longrightarrow> fuel \<le> fuel2 \<Longrightarrow> drain fuel2 st = Some out"
proof (induction fuel arbitrary: st out fuel2)
  case (Suc fuel)
  then obtain m where m: "fuel2 = Suc m" "fuel \<le> m" by (cases fuel2) auto
  then show ?case using Suc.prems(1) Suc.IH [OF _ m(2)] by (auto split: option.splits bool.splits)
qed simp

text \<open>C22: Reading the filtered stream never panics and ends, its tokens are numbered one after the other,
  and any CJK substring of two or more characters of any token is found: the bigrams a query for
  it is split into stand next to each other, in order, in the stream.\<close>
theorem cjk_substring_found:
  assumes "\<forall>t\<in>set inner. valid_utf8 (tk_text t)" and "t \<in> set inner"
    and "chars (tk_text t) = as @ q @ bs" and "\<forall>c\<in>set q. is_cjk c" and "2 \<le> length q"
    and "valid_utf8 (tk_text query)" and "chars (tk_text query) = q"
  shows "\<exists>n out qs pre post. (\<forall>fuel>n. drain fuel (token_stream inner) = Some out)
    \<and> map tk_position out = [0..<length out]
    \<and> split_token query [] = Some qs \<and> map tk_text out = pre @ map tk_text qs @ post"
proof -
  let ?st = "token_stream inner"
  have ok: "stream_ok ?st" using assms(1) by (simp add: stream_ok_def token_stream_def)
  obtain out where out: "drain (Suc (length (pending_texts ?st))) ?st = Some out" "map tk_text out = pending_texts ?st"
      "map tk_position out = [0..<length out]"
    using drain_expands [OF ok, of "Suc (length (pending_texts ?st))"] by (auto simp: token_stream_def)
  have more: "drain fuel ?st = Some out" if "length (pending_texts ?st) < fuel" for fuel
    using drain_mono [OF out(1)] that by simp
  obtain qs where qs: "split_token query [] = Some qs" "map tk_text qs = bigrams q"
    using split_token_expands [OF assms(6), of "[]"] expand_query [OF assms(4,5)] assms(7) by auto
  obtain pre post where e: "expand_text (as @ q @ bs) = pre @ bigrams q @ post"
    using expand_infix [OF assms(4,5)] by blast
  obtain xs ys where "inner = xs @ t # ys" using assms(2) by (metis split_list)
  then have "map tk_text out = (concat (map (\<lambda>t. expand_text (chars (tk_text t))) xs) @ pre) @ bigrams q
      @ (post @ concat (map (\<lambda>t. expand_text (chars (tk_text t))) ys))"
    by (simp add: out(2) pending_texts_def token_stream_def assms(3) e)
  moreover have "\<forall>fuel>length (pending_texts ?st). drain fuel ?st = Some out" using more by blast
  ultimately show ?thesis using out(3) qs by metis
qed

lemma cjk_substring_found_witness:
  "\<exists>n out. (\<forall>fuel>n. drain fuel (token_stream [\<lparr>tk_from = 0, tk_to = 9, tk_position = 0,
        tk_text = [CHR 0xE6, CHR 0x9D, CHR 0xB1, CHR 0xE4, CHR 0xBA, CHR 0xAC, CHR 0xE9, CHR 0x83, CHR 0xBD], tk_length = 1\<rparr>]) = Some out)
     \<and> [CHR 0xE4, CHR 0xBA, CHR 0xAC, CHR 0xE9, CHR 0x83, CHR 0xBD] \<in> set (map tk_text out)"
proof -
  let ?a = "[CHR 0xE6, CHR 0x9D, CHR 0xB1]" and ?b = "[CHR 0xE4, CHR 0xBA, CHR 0xAC]" and ?c = "[CHR 0xE9, CHR 0x83, CHR 0xBD]"
  let ?t = "\<lparr>tk_from = 0, tk_to = 9, tk_position = 0, tk_text = ?a @ ?b @ ?c, tk_length = 1\<rparr>"
  let ?q = "\<lparr>tk_from = 0, tk_to = 6, tk_position = 0, tk_text = ?b @ ?c, tk_length = 1\<rparr>"
  have sl: "seq_len ?a = 3" "seq_len ?b = 3" "seq_len ?c = 3" by code_simp+
  have v: "valid_utf8 ?a" "valid_utf8 ?b" "valid_utf8 ?c"
    using valid_utf8_stepI [of ?a] valid_utf8_stepI [of ?b] valid_utf8_stepI [of ?c] sl by simp_all
  have one: "chars ?a = [?a]" "chars ?b = [?b]" "chars ?c = [?c]"
    using chars_step [of ?a] chars_step [of ?b] chars_step [of ?c] sl by simp_all
  have vt: "\<forall>x\<in>set [?t]. valid_utf8 (tk_text x)" and vq: "valid_utf8 (tk_text ?q)"
    using v by (simp_all add: valid_utf8_append del: append_Cons)
  have cq: "chars (tk_text ?q) = [?b, ?c]" and ct: "chars (tk_text ?t) = [?a] @ [?b, ?c] @ []"
    using chars_append [OF v(1), of "?b @ ?c"] chars_append [OF v(2), of ?c] one by simp_all
  have cjk: "\<forall>x\<in>set [?b, ?c]. is_cjk x" by (simp add: is_cjk_def Let_def)
  obtain n out qs pre post where r: "\<forall>fuel>n. drain fuel (token_stream [?t]) = Some out"
      "split_token ?q [] = Some qs" "map tk_text out = pre @ map tk_text qs @ post"
    using cjk_substring_found [OF vt _ ct cjk _ vq cq] by auto
  have "map tk_text qs = [?b @ ?c]"
    using split_token_expands [OF vq, of "[]"] r(2) expand_query [OF cjk] unfolding cq by (auto simp: bigrams_def)
  then have "?b @ ?c \<in> set (map tk_text out)" unfolding r(3) by simp
  then show ?thesis using r(1) by (intro exI conjI) simp_all
qed

end
