(* ===== verification/EvalMetrics.thy ===== *)
theory EvalMetrics
  imports F32 Prelude
begin

text \<open>
  Ranking-quality metrics, \<open>crates/rqmd-core/src/eval_metrics.rs\<close>, in the arithmetic of
  \<open>f64\<close>. The platform's \<open>log2\<close> is the parameter \<open>lg\<close>; a hash map of grades is an association
  list, a hash set of documents a set.
\<close>

definition discount :: "(flt \<Rightarrow> flt) \<Rightarrow> nat \<Rightarrow> flt" where
  "discount lg rank = fdiv64 (Fin 1) (lg (f64_of (of_nat (rank + 1))))"

definition sum_f64 :: "flt list \<Rightarrow> flt" where
  "sum_f64 xs = fold (\<lambda>gain acc. fadd64 acc gain) xs (Fin 0)"

definition graded_gains :: "(flt \<Rightarrow> flt) \<Rightarrow> nat list \<Rightarrow> flt list" where
  "graded_gains lg gs = map (\<lambda>(i, grade). fmul64 (f64_of (of_nat grade)) (discount lg (i + 1))) (enumerate 0 gs)"

definition dcg_at_k :: "(flt \<Rightarrow> flt) \<Rightarrow> 'a list \<Rightarrow> ('a \<times> nat) list \<Rightarrow> nat \<Rightarrow> flt" where
  "dcg_at_k lg ranked grades k =
     sum_f64 (graded_gains lg (map (\<lambda>doc. case map_of grades doc of Some g \<Rightarrow> g | None \<Rightarrow> 0) (take k ranked)))"

definition ndcg_at_k :: "(flt \<Rightarrow> flt) \<Rightarrow> 'a list \<Rightarrow> ('a \<times> nat) list \<Rightarrow> nat \<Rightarrow> flt" where
  "ndcg_at_k lg ranked grades k =
     (let ideal = rev (sort (map snd grades));
          ideal_dcg = sum_f64 (graded_gains lg (take k ideal))
      in if fle ideal_dcg (Fin 0) then Fin 0 else fdiv64 (dcg_at_k lg ranked grades k) ideal_dcg)"

fun position :: "('a \<Rightarrow> bool) \<Rightarrow> 'a list \<Rightarrow> nat option" where
  "position P [] = None"
| "position P (x # xs) = (if P x then Some 0 else map_option Suc (position P xs))"

definition reciprocal_rank_at_k :: "'a list \<Rightarrow> 'a set \<Rightarrow> nat \<Rightarrow> flt" where
  "reciprocal_rank_at_k ranked relevant k =
     (case position (\<lambda>doc. doc \<in> relevant) (take k ranked) of
        None \<Rightarrow> Fin 0 | Some i \<Rightarrow> fdiv64 (Fin 1) (f64_of (of_nat (i + 1))))"

definition recall_at_k :: "'a list \<Rightarrow> 'a set \<Rightarrow> nat \<Rightarrow> flt" where
  "recall_at_k ranked relevant k =
     (if relevant = {} then Fin 0
      else fdiv64 (f64_of (of_nat (length (filter (\<lambda>doc. doc \<in> relevant) (take k ranked)))))
             (f64_of (of_nat (card relevant))))"

definition hit_at_k :: "'a list \<Rightarrow> 'a set \<Rightarrow> nat \<Rightarrow> bool" where
  "hit_at_k ranked relevant k = list_ex (\<lambda>doc. doc \<in> relevant) (take k ranked)"

definition mean_f64 :: "flt list \<Rightarrow> flt" where
  "mean_f64 values = (if values = [] then Fin 0 else fdiv64 (sum_f64 values) (f64_of (of_nat (length values))))"

text \<open>\<open>x.ceil() as usize\<close>: the cast saturates and sends NaN to 0.\<close>

fun ceil_usize :: "flt \<Rightarrow> nat" where
  "ceil_usize (Fin x) = min (nat \<lceil>x\<rceil>) (2 ^ 64 - 1)"
| "ceil_usize PInf = 2 ^ 64 - 1"
| "ceil_usize NInf = 0"
| "ceil_usize NaN = 0"

definition percentile :: "flt list \<Rightarrow> flt \<Rightarrow> flt option" where
  "percentile values p =
     (if values = [] \<or> \<not> (fle (Fin 0) p \<and> fle p (Fin 100)) \<or> list_ex is_nan values then None
      else
        (let sorted_values = sort values;
             rank = ceil_usize (fmul64 (fdiv64 p (Fin 100)) (f64_of (of_nat (length values))))
         in Some (sorted_values ! (min (max rank 1) (length values) - 1))))"

subsection \<open>Bounds\<close>

lemma f64_of_nat:
  assumes "0 < n" and "n < 2 ^ 64"
  obtains x where "f64_of (of_nat n) = Fin x" and "1 \<le> x" and "x \<le> 2 ^ 64"
proof -
  have "fle (f64_of 1) (f64_of (of_nat n))" "fle (f64_of (of_nat n)) (f64_of (2 ^ 64))"
    unfolding f64_of_def using assms by (auto intro!: f64.rnd_mono)
  moreover have "f64_of 1 = Fin 1"
    unfolding f64_of_def by (rule rnd_exact [where m = 1 and k = 0 and e = 0]) (simp_all add: binary64_def)
  moreover have "f64_of (2 ^ 64) = Fin (2 ^ 64)"
    unfolding f64_of_def by (rule rnd_exact [where m = 1 and k = 64 and e = 64]) (simp_all add: binary64_def)
  ultimately show ?thesis using that by (cases "f64_of (of_nat n)") auto
qed

lemma rnd64_1: "rnd binary64 1 = Fin 1"
  by (rule rnd_exact [where m = 1 and k = 0 and e = 0]) (simp_all add: binary64_def)

lemma rnd64_64: "rnd binary64 (1 / 2 ^ 64) = Fin (1 / 2 ^ 64)"
proof (rule rnd_exact [where m = 1 and k = "-64" and e = "-64"])
  show "(1::rat) / 2 ^ 64 = of_int 1 * 2 powi - 64" by (simp only: power_int_minus of_int_1 mult_1 power_int_numeral inverse_eq_divide)
  have "(2::rat) powi (- 64) < 2 powi (- 64 + 1)" by (rule power_int_strict_increasing) simp_all
  then show "(1::rat) / 2 ^ 64 < 2 powi (- 64 + 1)"
    by (simp only: power_int_minus power_int_numeral inverse_eq_divide)
qed (simp_all add: binary64_def)

lemma fdiv64_unit:
  assumes "1 \<le> x" and "x \<le> y" and "y \<le> 2 ^ 64"
  obtains z where "fdiv64 (Fin x) (Fin y) = Fin z" and "0 < z" and "z \<le> 1"
proof -
  have "1 / 2 ^ 64 \<le> 1 / y" using assms by (intro divide_left_mono) auto
  also have "1 / y \<le> x / y" using assms by (intro divide_right_mono) auto
  finally have "fle (rnd binary64 (1 / 2 ^ 64)) (rnd binary64 (x / y))" by (rule f64.rnd_mono)
  moreover have "fle (rnd binary64 (x / y)) (rnd binary64 1)"
    using assms by (intro f64.rnd_mono) simp
  ultimately show ?thesis
    using that assms unfolding rnd64_1 rnd64_64 by (cases "rnd binary64 (x / y)") auto
qed

lemma position_None: "position P xs = None \<longleftrightarrow> (\<forall>x\<in>set xs. \<not> P x)"
  by (induction xs) auto

lemma position_Some: "position P xs = Some i \<Longrightarrow> i < length xs \<and> P (xs ! i) \<and> (\<forall>j<i. \<not> P (xs ! j))"
  by (induction xs arbitrary: i) (auto split: if_splits simp: nth_Cons split: nat.splits)

lemma fdiv64_nat:
  assumes "0 < m" and "m \<le> n" and "n < 2 ^ 64"
  obtains z where "fdiv64 (f64_of (of_nat m)) (f64_of (of_nat n)) = Fin z" and "0 < z" and "z \<le> 1"
    and "m = n \<Longrightarrow> z = 1"
proof -
  obtain x where x: "f64_of (of_nat m) = Fin x" "1 \<le> x" "x \<le> 2 ^ 64"
    using f64_of_nat [of m] assms by auto
  obtain y where y: "f64_of (of_nat n) = Fin y" "1 \<le> y" "y \<le> 2 ^ 64"
    using f64_of_nat [of n] assms by auto
  have "fle (f64_of (of_nat m)) (f64_of (of_nat n))"
    unfolding f64_of_def using assms(2) by (intro f64.rnd_mono) simp
  then have xy: "x \<le> y" using x y by simp
  then obtain z where z: "fdiv64 (Fin x) (Fin y) = Fin z" "0 < z" "z \<le> 1"
    using fdiv64_unit [OF x(2) xy y(3)] by blast
  have "z = 1" if "m = n"
    using that x y z(1) rnd64_1 by auto
  then show ?thesis using that z x y by auto
qed

text \<open>The metrics of one judged query agree with each other: for a ranking without repeats, the query
  is a hit exactly when its reciprocal rank is positive and exactly when its recall is; both are
  between 0 and 1; recall is 1 when every relevant document is in the first k, the reciprocal
  rank is 1 exactly when the first document is relevant, and a cutoff of 0 scores 0.\<close>
theorem retrieval_metrics_agree:
  assumes "distinct ranked" and "finite relevant" and "card relevant < 2 ^ 64" and "length ranked < 2 ^ 64"
  shows "let rr = reciprocal_rank_at_k ranked relevant k; recall = recall_at_k ranked relevant k in
      fle (Fin 0) rr \<and> fle rr (Fin 1) \<and> fle (Fin 0) recall \<and> fle recall (Fin 1)
    \<and> hit_at_k ranked relevant k = (rr \<noteq> Fin 0) \<and> hit_at_k ranked relevant k = (recall \<noteq> Fin 0)
    \<and> (relevant \<noteq> {} \<and> relevant \<subseteq> set (take k ranked) \<longrightarrow> recall = Fin 1)
    \<and> (0 < k \<and> ranked \<noteq> [] \<and> hd ranked \<in> relevant \<longrightarrow> rr = Fin 1)
    \<and> (k = 0 \<longrightarrow> rr = Fin 0 \<and> recall = Fin 0)"
proof -
  define best where "best = take k ranked"
  define found where "found = length (filter (\<lambda>doc. doc \<in> relevant) best)"
  have hit: "hit_at_k ranked relevant k \<longleftrightarrow> (\<exists>d\<in>set best. d \<in> relevant)"
    by (simp add: hit_at_k_def best_def list_ex_iff)
  have "found = card (set best \<inter> relevant)"
    unfolding found_def using assms(1) by (simp add: best_def distinct_length_filter Int_commute)
  then have found: "found \<le> card relevant" "0 < found \<longleftrightarrow> (\<exists>d\<in>set best. d \<in> relevant)"
    "relevant \<subseteq> set best \<Longrightarrow> found = card relevant"
    using assms(2) by (auto simp: card_gt_0_iff intro: card_mono arg_cong [of _ _ card])
  have f0: "f64_of 0 = Fin 0" by (simp add: f64_of_def)
  have recall: "fle (Fin 0) (recall_at_k ranked relevant k) \<and> fle (recall_at_k ranked relevant k) (Fin 1)
      \<and> (0 < found \<longleftrightarrow> recall_at_k ranked relevant k \<noteq> Fin 0)
      \<and> (relevant \<noteq> {} \<and> relevant \<subseteq> set best \<longrightarrow> recall_at_k ranked relevant k = Fin 1)"
  proof (cases "found = 0")
    case True
    have "recall_at_k ranked relevant k = Fin 0"
    proof (cases "relevant = {}")
      case False
      then have "0 < card relevant" using assms(2) by (simp add: card_gt_0_iff)
      then obtain y where "f64_of (of_nat (card relevant)) = Fin y" "1 \<le> y" using f64_of_nat assms(3) by metis
      then show ?thesis using True f0 by (simp add: recall_at_k_def found_def best_def)
    qed (simp add: recall_at_k_def)
    moreover have "relevant = {}" if "relevant \<subseteq> set best"
      using found(3) [OF that] True assms(2) by simp
    ultimately show ?thesis using True by auto
  next
    case False
    then obtain z where z: "fdiv64 (f64_of (of_nat found)) (f64_of (of_nat (card relevant))) = Fin z" "0 < z" "z \<le> 1"
      "found = card relevant \<Longrightarrow> z = 1"
      using fdiv64_nat [of found "card relevant"] found(1) assms(3) by auto
    have "relevant \<noteq> {}" using False found(1) by auto
    then have "recall_at_k ranked relevant k = Fin z" using z(1) by (simp add: recall_at_k_def found_def best_def)
    then show ?thesis using z False found(3) by auto
  qed
  have rr: "fle (Fin 0) (reciprocal_rank_at_k ranked relevant k) \<and> fle (reciprocal_rank_at_k ranked relevant k) (Fin 1)
      \<and> ((\<exists>d\<in>set best. d \<in> relevant) \<longleftrightarrow> reciprocal_rank_at_k ranked relevant k \<noteq> Fin 0)
      \<and> (best \<noteq> [] \<and> hd best \<in> relevant \<longrightarrow> reciprocal_rank_at_k ranked relevant k = Fin 1)"
  proof (cases "position (\<lambda>doc. doc \<in> relevant) best")
    case None
    then have "reciprocal_rank_at_k ranked relevant k = Fin 0" by (simp add: reciprocal_rank_at_k_def best_def)
    then show ?thesis using None by (cases best) (auto simp: position_None split: if_splits)
  next
    case (Some i)
    note i = position_Some [OF Some]
    have "i + 1 < 2 ^ 64" using i assms(4) by (simp add: best_def)
    then obtain z where z: "fdiv64 (f64_of (of_nat 1)) (f64_of (of_nat (i + 1))) = Fin z" "0 < z" "z \<le> 1" "1 = i + 1 \<Longrightarrow> z = 1"
      using fdiv64_nat [of 1 "i + 1"] by auto
    then have r: "reciprocal_rank_at_k ranked relevant k = Fin z"
      using Some rnd64_1 by (simp add: reciprocal_rank_at_k_def best_def f64_of_def)
    have "i = 0" if "best \<noteq> []" "hd best \<in> relevant"
      using i that by (metis bot_nat_0.not_eq_extremum hd_conv_nth)
    then show ?thesis using r z i nth_mem [of i best] by auto
  qed
  have "best \<noteq> [] \<and> hd best = hd ranked" if "0 < k" "ranked \<noteq> []"
    using that by (simp add: best_def hd_take)
  moreover have "best = [] \<and> found = 0" if "k = 0" using that by (simp add: best_def found_def)
  ultimately show ?thesis
    using recall rr found(2) unfolding Let_def hit best_def [symmetric] by auto
qed

lemma retrieval_metrics_agree_witness:
  "recall_at_k [''a'', ''b''] {''b''} 2 = Fin 1 \<and> reciprocal_rank_at_k [''b''] {''b''} 2 = Fin 1"
proof -
  have "recall_at_k [''a'', ''b''] {''b''} 2 = Fin 1"
    using retrieval_metrics_agree [of "[''a'', ''b'']" "{''b''}" 2] by (simp add: Let_def)
  moreover have "reciprocal_rank_at_k [''b''] {''b''} 2 = Fin 1"
    using retrieval_metrics_agree [of "[''b'']" "{''b''}" 2] by (simp add: Let_def)
  ultimately show ?thesis by simp
qed

subsection \<open>The rank of a percentile\<close>

lemma rnd64_value:
  assumes "0 < x" and "2 powi e \<le> x" and "x < 2 powi (e + 1)" and "- 1022 \<le> e" and "e < 1023"
    and "round_half_even (x * 2 ^ n) = m" and "int n = 52 - e" and "of_int m / 2 ^ n < (2::rat) powi 1024"
  shows "rnd binary64 x = Fin (of_int m / 2 ^ n)"
proof -
  have q: "quantum binary64 x = - int n"
    using flog2_unique [OF assms(1-3)] assms(4,7) by (simp add: quantum_def binary64_def)
  have "round_pos binary64 x = of_int m / 2 ^ n"
    using assms(6) by (simp add: round_pos_def q power_int_minus field_simps)
  then show ?thesis using assms(1,8) by (simp add: rnd_def binary64_def Let_def)
qed

text \<open>
  The rank is computed in \<open>f64\<close>: \<open>7 / 100 * 100\<close> is a little more than 7 there, so the 7th
  percentile of 100 values is taken at rank 8, not at the exact rank 7.
\<close>

lemma percentile_rank_overshoots:
  "ceil_usize (fmul64 (fdiv64 (Fin 7) (Fin 100)) (Fin 100)) = 8"
proof -
  have a: "rnd binary64 (7 / 100) = Fin (of_int 5044031582654956 / 2 ^ 56)"
  proof (rule rnd64_value [where e = "-4" and n = 56 and m = 5044031582654956])
    have "\<lfloor>(7::rat) / 100 * 2 ^ 56\<rfloor> = 5044031582654955" by (simp add: floor_eq_iff)
    then show "round_half_even (7 / 100 * 2 ^ 56) = 5044031582654956"
      unfolding round_half_even_def Let_def by simp
  qed (simp_all add: power_int_def power_divide)
  have b: "rnd binary64 (504403158265495600 / 2 ^ 56) = Fin (of_int 7881299347898369 / 2 ^ 50)"
  proof (rule rnd64_value [where e = 2 and n = 50 and m = 7881299347898369])
    have "\<lfloor>(504403158265495600::rat) / 2 ^ 56 * 2 ^ 50\<rfloor> = 7881299347898368" by (simp add: floor_eq_iff)
    then show "round_half_even (504403158265495600 / 2 ^ 56 * 2 ^ 50) = 7881299347898369"
      unfolding round_half_even_def Let_def by simp
  qed (simp_all add: power_int_def power_divide)
  have "\<lceil>(7881299347898369::rat) / 1125899906842624\<rceil> = 8" by (simp add: ceiling_eq_iff)
  then show ?thesis using a b by simp
qed

end
