(* ===== verification/Deadline.thy ===== *)
theory Deadline
  imports StrOps Prelude
begin

text \<open>
  Wall-clock deadlines, \<open>crates/rqmd-core/src/deadline.rs\<close>. Instants and durations are
  nanoseconds; the clock's reading is an argument.
\<close>

record timed_out =
  to_stage :: string
  to_limit :: nat

type_synonym deadline = "(nat \<times> nat) option"

definition deadline_none :: deadline where
  "deadline_none = None"

definition deadline_after :: "nat \<Rightarrow> nat \<Rightarrow> deadline" where
  "deadline_after now limit = Some (now + limit, limit)"

definition deadline_check :: "nat \<Rightarrow> string \<Rightarrow> deadline \<Rightarrow> timed_out + unit" where
  "deadline_check now stage d =
     (case d of
        Some (at_time, limit) \<Rightarrow> if at_time \<le> now then Inl \<lparr>to_stage = stage, to_limit = limit\<rparr> else Inr ()
      | None \<Rightarrow> Inr ())"

definition deadline_expired :: "nat \<Rightarrow> deadline \<Rightarrow> bool" where
  "deadline_expired now d = (case d of None \<Rightarrow> False | Some (at_time, _) \<Rightarrow> at_time \<le> now)"

definition timed_out_display :: "timed_out \<Rightarrow> string" where
  "timed_out_display t =
     (if to_limit t < 1000000000
      then ''timed out after '' @ dec (to_limit t div 1000000) @ ''ms before '' @ to_stage t
      else ''timed out after '' @ dec (to_limit t div 1000000000) @ ''s before '' @ to_stage t)"

lemma check_expired: "deadline_check now stage d = Inr () \<longleftrightarrow> \<not> deadline_expired now d"
  by (cases d) (auto simp: deadline_check_def deadline_expired_def)

lemma check_after:
  "start \<le> now \<Longrightarrow> deadline_check now stage (deadline_after start limit) =
     (if limit \<le> now - start then Inl \<lparr>to_stage = stage, to_limit = limit\<rparr> else Inr ())"
  by (auto simp: deadline_check_def deadline_after_def)

lemma expired_stays: "deadline_expired now d \<Longrightarrow> now \<le> later \<Longrightarrow> deadline_expired later d"
  by (cases d) (auto simp: deadline_expired_def)

lemma none_never_expires: "\<not> deadline_expired now deadline_none"
  by (simp add: deadline_expired_def deadline_none_def)

end
