(* ===== verification/Fts.thy ===== *)
theory Fts
  imports StrOps F32 Prelude "HOL-Library.Countable"
begin

text \<open>
  The full-text index, \<open>crates/rqmd-core/src/fts.rs\<close>. Tantivy is not under src/. Its index is
  modelled as documented: the writer collects deletions and additions, \<open>commit\<close> applies them in
  order, a deletion removing the matching entries added before it; a reader sees what was last
  committed. What Tantivy computes is a parameter: \<open>toks\<close> tokenizes a path, with positions, \<open>nfc\<close>
  normalizes, \<open>ranked\<close> orders the matches of a query with their scores.
\<close>

subsection \<open>Waiting for the writer\<close>

definition DEFAULT_LOCK_WAIT_SECS :: nat where "DEFAULT_LOCK_WAIT_SECS = 30"

definition lock_wait_budget :: "string option \<Rightarrow> nat" where
  "lock_wait_budget v =
     (case Option.bind v (parse_uint 64) of None \<Rightarrow> DEFAULT_LOCK_WAIT_SECS | Some secs \<Rightarrow> secs) * 1000"

datatype lock_try = Acquired | LockBusy | OtherFailure

datatype fts_error = WriterBusy | WriterFailed | BadDocument string

text \<open>
  The retry loop, in milliseconds. An attempt comes with the clock's readings at its guard and at
  its sleep; the result carries the times slept. An attempt is always followed by another, so the
  list stands for the calls that are made: \<open>None\<close> when it is too short.
\<close>

fun writer_loop :: "nat \<Rightarrow> nat \<Rightarrow> (lock_try \<times> nat \<times> nat) list \<Rightarrow> (nat list \<times> (fts_error + unit)) option" where
  "writer_loop deadline backoff [] = None"
| "writer_loop deadline backoff ((outcome, now, later) # tries) =
     (case outcome of
        Acquired \<Rightarrow> Some ([], Inr ())
      | OtherFailure \<Rightarrow> Some ([], Inl WriterFailed)
      | LockBusy \<Rightarrow>
          if now < deadline
          then map_option (\<lambda>(sleeps, r). (min backoff (deadline - later) # sleeps, r))
                 (writer_loop deadline (min (backoff * 2) 2000) tries)
          else Some ([], Inl WriterBusy))"

definition writer_acquire :: "nat \<Rightarrow> string option \<Rightarrow> (lock_try \<times> nat \<times> nat) list \<Rightarrow> (nat list \<times> (fts_error + unit)) option" where
  "writer_acquire start env tries = writer_loop (start + lock_wait_budget env) 100 tries"

subsection \<open>Filler words\<close>

definition KEYWORD_STOPWORDS :: "string list" where
  "KEYWORD_STOPWORDS =
    [''a'', ''about'', ''an'', ''and'', ''are'', ''as'', ''at'', ''be'', ''been'', ''but'', ''by'', ''can'', ''did'', ''do'',
     ''does'', ''for'', ''from'', ''had'', ''has'', ''have'', ''how'', ''i'', ''in'', ''into'', ''is'', ''it'', ''its'', ''of'',
     ''on'', ''or'', ''that'', ''the'', ''their'', ''there'', ''these'', ''this'', ''to'', ''was'', ''were'', ''what'',
     ''when'', ''where'', ''which'', ''who'', ''why'', ''will'', ''with'', ''would'']"

definition STOPWORD_MIN_TERMS :: nat where "STOPWORD_MIN_TERMS = 4"

definition is_ascii_alphabetic :: "char \<Rightarrow> bool" where
  "is_ascii_alphabetic c \<longleftrightarrow> (65 \<le> byte c \<and> byte c \<le> 90) \<or> (97 \<le> byte c \<and> byte c \<le> 122)"

definition has_query_syntax :: "string \<Rightarrow> string list \<Rightarrow> bool" where
  "has_query_syntax query terms \<longleftrightarrow>
     list_ex (\<lambda>c. c \<in> set query) ''\":()[]{}+-*^~!'' \<or> list_ex (\<lambda>t. t \<in> set [''AND'', ''OR'', ''NOT'']) terms"

definition is_filler :: "string \<Rightarrow> bool" where
  "is_filler t \<longleftrightarrow> list_all is_ascii_alphabetic t \<and> ascii_lower t \<in> set KEYWORD_STOPWORDS"

definition strip_keyword_stopwords :: "string \<Rightarrow> string" where
  "strip_keyword_stopwords query =
     (let terms = split_ws query in
      if length terms < STOPWORD_MIN_TERMS \<or> has_query_syntax query terms then query
      else
        (let kept = filter (\<lambda>t. \<not> is_filler t) terms in
         if kept = [] then query else join '' '' kept))"

subsection \<open>The index\<close>

record fts_entry =
  fe_path :: string
  fe_title :: string
  fe_body :: string
  fe_frontmatter :: "string option"
  fe_id :: int

text \<open>A phrase: tokens of the path field with their positions, relative to each other.\<close>

type_synonym phrase = "(nat \<times> string) list"

definition phrase_matches :: "(string \<Rightarrow> phrase) \<Rightarrow> phrase \<Rightarrow> fts_entry \<Rightarrow> bool" where
  "phrase_matches toks q e =
     (case q of
        [] \<Rightarrow> False
      | (i, t) # _ \<Rightarrow>
          list_ex (\<lambda>(j, u). u = t \<and> list_all (\<lambda>(k, v). i \<le> j + k \<and> (j + k - i, v) \<in> set (toks (fe_path e))) q)
            (toks (fe_path e)))"

datatype fts_op = DeleteQuery phrase "int list" | AddEntry fts_entry | DeleteAll

record fts_index =
  fi_committed :: "fts_entry list"
  fi_ops :: "fts_op list"
  fi_has_frontmatter :: bool
  fi_writer :: bool
  fi_staged :: "(string \<times> int) list"

definition apply_op :: "(string \<Rightarrow> phrase) \<Rightarrow> fts_op \<Rightarrow> fts_entry list \<Rightarrow> fts_entry list" where
  "apply_op toks op es =
     (case op of
        DeleteQuery q ids \<Rightarrow> filter (\<lambda>e. \<not> (phrase_matches toks q e \<and> fe_id e \<in> set ids)) es
      | AddEntry e \<Rightarrow> es @ [e]
      | DeleteAll \<Rightarrow> [])"

definition fts_create :: fts_index where
  "fts_create = \<lparr>fi_committed = [], fi_ops = [], fi_has_frontmatter = True, fi_writer = False, fi_staged = []\<rparr>"

text \<open>Opening an existing directory: what is committed, under the schema it was built with.\<close>

definition fts_open :: "(bool \<times> fts_entry list) option \<Rightarrow> fts_index" where
  "fts_open existing =
     (case existing of
        None \<Rightarrow> fts_create
      | Some (has_frontmatter, es) \<Rightarrow>
          \<lparr>fi_committed = es, fi_ops = [], fi_has_frontmatter = has_frontmatter, fi_writer = False, fi_staged = []\<rparr>)"

definition is_legacy_schema :: "fts_index \<Rightarrow> bool" where
  "is_legacy_schema fts \<longleftrightarrow> \<not> fi_has_frontmatter fts"

text \<open>\<open>free\<close> is the outcome of waiting for the writer, when it is not held yet.\<close>

definition writer_mut :: "fts_error + unit \<Rightarrow> fts_index \<Rightarrow> fts_error + fts_index" where
  "writer_mut free fts =
     (if fi_writer fts then Inr fts else rbind free (\<lambda>_. Inr (fts\<lparr>fi_writer := True\<rparr>)))"

definition path_terms :: "(string \<Rightarrow> phrase) \<Rightarrow> string \<Rightarrow> phrase" where
  "path_terms toks path = filter (\<lambda>(_, t). length t \<le> 40) (toks path)"

definition exact_filepath_query :: "(string \<Rightarrow> phrase) \<Rightarrow> string \<Rightarrow> phrase option" where
  "exact_filepath_query toks path = (case path_terms toks path of [] \<Rightarrow> None | q \<Rightarrow> Some q)"

definition committed_doc_ids_at :: "(string \<Rightarrow> phrase) \<Rightarrow> phrase \<Rightarrow> string \<Rightarrow> fts_index \<Rightarrow> int list" where
  "committed_doc_ids_at toks q path fts =
     map fe_id (filter (\<lambda>e. phrase_matches toks q e \<and> fe_path e = path) (fi_committed fts))"

definition delete_by_filepath ::
  "(string \<Rightarrow> phrase) \<Rightarrow> fts_error + unit \<Rightarrow> string \<Rightarrow> fts_index \<Rightarrow> fts_index \<times> (fts_error + unit)" where
  "delete_by_filepath toks free path fts =
     (case exact_filepath_query toks path of
        None \<Rightarrow> (fts, Inr ())
      | Some q \<Rightarrow>
          (let ids = committed_doc_ids_at toks q path fts @ map snd (filter (\<lambda>s. fst s = path) (fi_staged fts));
               fts = fts\<lparr>fi_staged := filter (\<lambda>s. fst s \<noteq> path) (fi_staged fts)\<rparr>
           in if ids = [] then (fts, Inr ())
              else case writer_mut free fts of
                Inl e \<Rightarrow> (fts, Inl e)
              | Inr fts \<Rightarrow> (fts\<lparr>fi_ops := fi_ops fts @ [DeleteQuery q ids]\<rparr>, Inr ())))"

definition insert_document ::
  "(string \<Rightarrow> string) \<Rightarrow> fts_error + unit \<Rightarrow> string \<Rightarrow> string \<Rightarrow> string \<Rightarrow> string \<Rightarrow> int \<Rightarrow> fts_index
    \<Rightarrow> fts_index \<times> (fts_error + unit)" where
  "insert_document nfc free path title body frontmatter rid fts =
     (let e = \<lparr>fe_path = path, fe_title = nfc title, fe_body = nfc body,
               fe_frontmatter = (if fi_has_frontmatter fts \<and> frontmatter \<noteq> [] then Some (nfc frontmatter) else None),
               fe_id = rid\<rparr>
      in case writer_mut free fts of
           Inl err \<Rightarrow> (fts, Inl err)
         | Inr fts \<Rightarrow> (fts\<lparr>fi_ops := fi_ops fts @ [AddEntry e], fi_staged := fi_staged fts @ [(path, rid)]\<rparr>, Inr ()))"

definition add_document_with_frontmatter ::
  "(string \<Rightarrow> phrase) \<Rightarrow> (string \<Rightarrow> string) \<Rightarrow> fts_error + unit \<Rightarrow> string \<Rightarrow> string \<Rightarrow> string \<Rightarrow> string \<Rightarrow> int \<Rightarrow> fts_index
    \<Rightarrow> fts_index \<times> (fts_error + unit)" where
  "add_document_with_frontmatter toks nfc free path title body frontmatter rid fts =
     (case delete_by_filepath toks free path fts of
        (fts, Inl e) \<Rightarrow> (fts, Inl e)
      | (fts, Inr _) \<Rightarrow> insert_document nfc free path title body frontmatter rid fts)"

definition add_document ::
  "(string \<Rightarrow> phrase) \<Rightarrow> (string \<Rightarrow> string) \<Rightarrow> fts_error + unit \<Rightarrow> string \<Rightarrow> string \<Rightarrow> string \<Rightarrow> int \<Rightarrow> fts_index
    \<Rightarrow> fts_index \<times> (fts_error + unit)" where
  "add_document toks nfc free path title body rid fts = add_document_with_frontmatter toks nfc free path title body [] rid fts"

definition fts_commit :: "(string \<Rightarrow> phrase) \<Rightarrow> fts_index \<Rightarrow> fts_index" where
  "fts_commit toks fts =
     (if \<not> fi_writer fts then fts
      else fts\<lparr>fi_committed := fold (apply_op toks) (fi_ops fts) (fi_committed fts), fi_ops := [], fi_staged := []\<rparr>)"

text \<open>A legacy index is thrown away with its writer; failures to empty the directory are left out.\<close>

definition recreate_with_current_schema :: "fts_error + unit \<Rightarrow> fts_index \<Rightarrow> fts_error + fts_index" where
  "recreate_with_current_schema free fts = rbind (writer_mut free fts) (\<lambda>_. Inr fts_create)"

fun rebuild_docs ::
  "(string \<Rightarrow> string) \<Rightarrow> fts_error + unit \<Rightarrow> (string + string \<times> string \<times> string \<times> string \<times> int) list \<Rightarrow> fts_index
    \<Rightarrow> fts_index \<times> (fts_error + unit)" where
  "rebuild_docs nfc free [] fts = (fts, Inr ())"
| "rebuild_docs nfc free (d # ds) fts =
     (case d of
        Inl e \<Rightarrow> (fts\<lparr>fi_ops := [], fi_staged := []\<rparr>, Inl (BadDocument e))
      | Inr (path, title, body, frontmatter, rid) \<Rightarrow>
          (case insert_document nfc free path title body frontmatter rid fts of
             (fts, Inl e) \<Rightarrow> (fts\<lparr>fi_ops := [], fi_staged := []\<rparr>, Inl e)
           | (fts, Inr _) \<Rightarrow> rebuild_docs nfc free ds fts))"

definition fts_rebuild ::
  "(string \<Rightarrow> phrase) \<Rightarrow> (string \<Rightarrow> string) \<Rightarrow> fts_error + unit \<Rightarrow> (string + string \<times> string \<times> string \<times> string \<times> int) list
    \<Rightarrow> fts_index \<Rightarrow> fts_index \<times> (fts_error + unit)" where
  "fts_rebuild toks nfc free docs fts =
     (case (if is_legacy_schema fts then recreate_with_current_schema free fts else Inr fts) of
        Inl e \<Rightarrow> (fts, Inl e)
      | Inr fts \<Rightarrow>
          (case writer_mut free fts of
             Inl e \<Rightarrow> (fts, Inl e)
           | Inr fts \<Rightarrow>
               (case rebuild_docs nfc free docs (fts\<lparr>fi_ops := fi_ops fts @ [DeleteAll], fi_staged := []\<rparr>) of
                  (fts, Inl e) \<Rightarrow> (fts, Inl e)
                | (fts, Inr _) \<Rightarrow> (fts_commit toks fts, Inr ()))))"

definition indexed_filepaths :: "fts_index \<Rightarrow> string list" where
  "indexed_filepaths fts = map fe_path (fi_committed fts)"

subsection \<open>Searching\<close>

definition FETCH_OVERSCAN_FACTOR :: nat where "FETCH_OVERSCAN_FACTOR = 20"
definition FETCH_OVERSCAN_CAP :: nat where "FETCH_OVERSCAN_CAP = 5000"

definition saturating_mul :: "nat \<Rightarrow> nat \<Rightarrow> nat" where
  "saturating_mul a b = min (a * b) (2 ^ 64 - 1)"

definition in_scope_path :: "string list option \<Rightarrow> string \<Rightarrow> bool" where
  "in_scope_path cols path =
     (case cols of
        None \<Rightarrow> True
      | Some cs \<Rightarrow> cs = [] \<or> list_ex (\<lambda>c. starts_with (c @ ''/'') path \<or> path = c) cs)"

definition collection_pushdown_clause :: "(string \<Rightarrow> phrase) \<Rightarrow> string \<Rightarrow> (fts_entry \<Rightarrow> bool) option" where
  "collection_pushdown_clause toks collection =
     (case path_terms toks collection of
        [] \<Rightarrow> None
      | ts \<Rightarrow> Some (\<lambda>e. list_all (\<lambda>(_, t). t \<in> snd ` set (toks (fe_path e))) ts))"

text \<open>The clause the collections add to the query.\<close>

definition pushdown :: "(string \<Rightarrow> phrase) \<Rightarrow> string list option \<Rightarrow> fts_entry \<Rightarrow> bool" where
  "pushdown toks cols e =
     (case cols of
        None \<Rightarrow> True
      | Some cs \<Rightarrow>
          (let clauses = List.map_filter (collection_pushdown_clause toks) cs
           in clauses = [] \<or> list_ex (\<lambda>clause. clause e) clauses))"

text \<open>
  \<open>ranked query es\<close> lists the entries of \<open>es\<close> that match the text, best first, with Tantivy's
  score; a filter and a constant-score clause take entries away without changing the rest.
\<close>

definition fetch_limit :: "string list option \<Rightarrow> int list option \<Rightarrow> nat \<Rightarrow> nat" where
  "fetch_limit cols allowed limit =
     (if allowed = None \<and> cols \<noteq> None \<and> cols \<noteq> Some []
      then min (saturating_mul limit FETCH_OVERSCAN_FACTOR) (max FETCH_OVERSCAN_CAP limit) else limit)"

definition norm_score :: "flt \<Rightarrow> flt" where
  "norm_score s = fdiv32 s (fadd32 (Fin 1) s)"

definition search_fts_scoped ::
  "(string \<Rightarrow> phrase) \<Rightarrow> (string \<Rightarrow> string) \<Rightarrow> (string \<Rightarrow> fts_entry list \<Rightarrow> (flt \<times> fts_entry) list) \<Rightarrow> fts_index
    \<Rightarrow> string \<Rightarrow> nat \<Rightarrow> string list option \<Rightarrow> int list option \<Rightarrow> (string \<times> int \<times> flt) list" where
  "search_fts_scoped toks nfc ranked fts query limit cols allowed =
     (if limit = 0 then []
      else
        (let text = strip_keyword_stopwords (nfc query);
             hits = filter (\<lambda>(_, e). case allowed of
                        None \<Rightarrow> pushdown toks cols e
                      | Some ids \<Rightarrow> fe_id e \<in> set ids) (ranked text (fi_committed fts));
             top_docs = take (fetch_limit cols allowed limit) hits;
             kept = filter (\<lambda>(_, e). in_scope_path cols (fe_path e)) top_docs
         in map (\<lambda>(s, e). (fe_path e, fe_id e, norm_score s)) (take limit kept)))"

definition search_fts_multi ::
  "(string \<Rightarrow> phrase) \<Rightarrow> (string \<Rightarrow> string) \<Rightarrow> (string \<Rightarrow> fts_entry list \<Rightarrow> (flt \<times> fts_entry) list) \<Rightarrow> fts_index
    \<Rightarrow> string \<Rightarrow> nat \<Rightarrow> string list option \<Rightarrow> (string \<times> int \<times> flt) list" where
  "search_fts_multi toks nfc ranked fts query limit cols = search_fts_scoped toks nfc ranked fts query limit cols None"

definition search_fts ::
  "(string \<Rightarrow> phrase) \<Rightarrow> (string \<Rightarrow> string) \<Rightarrow> (string \<Rightarrow> fts_entry list \<Rightarrow> (flt \<times> fts_entry) list) \<Rightarrow> fts_index
    \<Rightarrow> string \<Rightarrow> nat \<Rightarrow> string option \<Rightarrow> (string \<times> int \<times> flt) list" where
  "search_fts toks nfc ranked fts query limit col = search_fts_multi toks nfc ranked fts query limit (map_option (\<lambda>c. [c]) col)"

subsection \<open>The index as a map from paths to entries\<close>

datatype fts_call = Put string string string string int | Del string | Commit

definition run_call :: "(string \<Rightarrow> phrase) \<Rightarrow> (string \<Rightarrow> string) \<Rightarrow> fts_call \<Rightarrow> fts_index \<Rightarrow> fts_index" where
  "run_call toks nfc c fts =
     (case c of
        Put path title body frontmatter rid \<Rightarrow> fst (add_document_with_frontmatter toks nfc (Inr ()) path title body frontmatter rid fts)
      | Del path \<Rightarrow> fst (delete_by_filepath toks (Inr ()) path fts)
      | Commit \<Rightarrow> fts_commit toks fts)"

text \<open>What the calls promise: a map from paths to entries.\<close>

definition call_spec :: "(string \<Rightarrow> string) \<Rightarrow> fts_call \<Rightarrow> (string \<Rightarrow> fts_entry option) \<Rightarrow> string \<Rightarrow> fts_entry option" where
  "call_spec nfc c m =
     (case c of
        Put path title body frontmatter rid \<Rightarrow>
          m(path \<mapsto> \<lparr>fe_path = path, fe_title = nfc title, fe_body = nfc body,
                     fe_frontmatter = (if frontmatter \<noteq> [] then Some (nfc frontmatter) else None), fe_id = rid\<rparr>)
      | Del path \<Rightarrow> m(path := None)
      | Commit \<Rightarrow> m)"

definition by_path :: "fts_entry list \<Rightarrow> string \<Rightarrow> fts_entry option" where
  "by_path es = map_of (map (\<lambda>e. (fe_path e, e)) es)"

definition effective :: "(string \<Rightarrow> phrase) \<Rightarrow> fts_index \<Rightarrow> fts_entry list" where
  "effective toks fts = fold (apply_op toks) (fi_ops fts) (fi_committed fts)"

definition fts_inv :: "(string \<Rightarrow> phrase) \<Rightarrow> (string \<Rightarrow> int) \<Rightarrow> fts_index \<Rightarrow> (string \<Rightarrow> fts_entry option) \<Rightarrow> bool" where
  "fts_inv toks ident fts m \<longleftrightarrow>
     distinct (map fe_path (effective toks fts)) \<and> by_path (effective toks fts) = m
     \<and> (\<forall>e\<in>set (effective toks fts) \<union> set (fi_committed fts). fe_id e = ident (fe_path e))
     \<and> (\<forall>e\<in>set (effective toks fts). e \<in> set (fi_committed fts) \<or> fe_path e \<in> fst ` set (fi_staged fts))
     \<and> (\<forall>(p, i)\<in>set (fi_staged fts). i = ident p)
     \<and> (fi_ops fts \<noteq> [] \<longrightarrow> fi_writer fts) \<and> fi_has_frontmatter fts"

lemma by_path_filter: "by_path (filter (\<lambda>e. fe_path e \<noteq> p) es) = (by_path es)(p := None)"
  by (induction es) (auto simp: by_path_def)

lemma by_path_snoc: "fe_path e \<notin> fe_path ` set es \<Longrightarrow> by_path (es @ [e]) = (by_path es)(fe_path e \<mapsto> e)"
proof (induction es)
  case (Cons x es)
  then have "by_path (es @ [e]) = (by_path es)(fe_path e \<mapsto> e)" "fe_path x \<noteq> fe_path e" by auto
  then show ?case by (auto simp: by_path_def fun_eq_iff)
qed (simp add: by_path_def)

lemma phrase_matches_self:
  assumes "path_terms toks (fe_path e) = q" and "q \<noteq> []"
  shows "phrase_matches toks q e"
proof -
  obtain i t q' where q: "q = (i, t) # q'" using assms(2) by (cases q) auto
  have "set q \<subseteq> set (toks (fe_path e))" using assms(1) by (auto simp: path_terms_def)
  then show ?thesis unfolding phrase_matches_def q by (force simp: list_ex_iff list_all_iff)
qed

lemma delete_inv:
  assumes inv: "fts_inv toks ident fts m" and terms: "path_terms toks path \<noteq> []" and inj: "inj ident"
  defines "fts' \<equiv> fst (delete_by_filepath toks (Inr ()) path fts)"
  shows "fts_inv toks ident fts' (m(path := None))" and "effective toks fts' = filter (\<lambda>e. fe_path e \<noteq> path) (effective toks fts)"
    and "snd (delete_by_filepath toks (Inr ()) path fts) = Inr ()"
proof -
  let ?q = "path_terms toks path" and ?E = "effective toks fts"
  let ?ids = "committed_doc_ids_at toks ?q path fts @ map snd (filter (\<lambda>s. fst s = path) (fi_staged fts))"
  let ?st = "filter (\<lambda>s. fst s \<noteq> path) (fi_staged fts)"
  have q: "exact_filepath_query toks path = Some ?q" using terms by (simp add: exact_filepath_query_def split: list.splits)
  have ids: "set ?ids \<subseteq> {ident path}"
    using inv by (auto simp: fts_inv_def committed_doc_ids_at_def)
  have hit: "ident path \<in> set ?ids" if e: "e \<in> set ?E" "fe_path e = path" for e
  proof -
    have id: "fe_id e = ident path" using inv e by (auto simp: fts_inv_def)
    consider (committed) "e \<in> set (fi_committed fts)" | (staged) i where "(path, i) \<in> set (fi_staged fts)"
    proof -
      have "e \<in> set (fi_committed fts) \<or> fe_path e \<in> fst ` set (fi_staged fts)"
        using inv e(1) unfolding fts_inv_def by blast
      then show ?thesis using that e(2) by auto
    qed
    then show ?thesis
    proof cases
      case committed
      have "phrase_matches toks ?q e" using phrase_matches_self [of toks e ?q] terms e(2) by simp
      then have "fe_id e \<in> set (committed_doc_ids_at toks ?q path fts)"
        using committed e(2) by (simp add: committed_doc_ids_at_def)
      then show ?thesis using id by simp
    next
      case staged
      then have "i = ident path" using inv by (auto simp: fts_inv_def)
      then have "ident path \<in> snd ` set (filter (\<lambda>s. fst s = path) (fi_staged fts))"
        using staged by (intro image_eqI [of _ _ "(path, i)"]) auto
      then show ?thesis by simp
    qed
  qed
  have kill: "(phrase_matches toks ?q e \<and> fe_id e \<in> set ?ids) = (fe_path e = path)" if e: "e \<in> set ?E" for e
  proof -
    have id: "fe_id e = ident (fe_path e)" using inv e by (auto simp: fts_inv_def)
    show ?thesis
    proof (cases "fe_path e = path")
      case True
      then show ?thesis using hit [OF e True] id phrase_matches_self [of toks e ?q] terms by simp
    next
      case False
      then have "fe_id e \<noteq> ident path" using id inj by (simp add: inj_eq)
      then show ?thesis using ids False by blast
    qed
  qed
  have E: "filter (\<lambda>e. \<not> (phrase_matches toks ?q e \<and> fe_id e \<in> set ?ids)) ?E = filter (\<lambda>e. fe_path e \<noteq> path) ?E"
    using kill by (intro filter_cong refl) blast
  have fts': "fts' = (if ?ids = [] then fts\<lparr>fi_staged := ?st\<rparr>
      else fts\<lparr>fi_staged := ?st, fi_writer := True, fi_ops := fi_ops fts @ [DeleteQuery ?q ?ids]\<rparr>)"
    by (auto simp: fts'_def delete_by_filepath_def q writer_mut_def Let_def)
  show eff: "effective toks fts' = filter (\<lambda>e. fe_path e \<noteq> path) ?E"
  proof (cases "?ids = []")
    case True
    then have "\<forall>e\<in>set ?E. fe_path e \<noteq> path" using hit by fastforce
    then show ?thesis using True by (simp add: fts' effective_def filter_id_conv)
  next
    case False
    have "effective toks fts' = apply_op toks (DeleteQuery ?q ?ids) ?E"
      unfolding fts' if_not_P [OF False] by (simp add: effective_def)
    then show ?thesis using E by (simp add: apply_op_def)
  qed
  have c: "fi_committed fts' = fi_committed fts" "fi_staged fts' = ?st" "fi_has_frontmatter fts' = fi_has_frontmatter fts"
    "fi_ops fts' \<noteq> [] \<longrightarrow> fi_writer fts'"
    using inv by (auto simp: fts' fts_inv_def)
  have "distinct (map fe_path (filter (\<lambda>e. fe_path e \<noteq> path) ?E))" using inv by (simp add: fts_inv_def distinct_map_filter)
  then show "fts_inv toks ident fts' (m(path := None))"
    using inv unfolding fts_inv_def eff c by (auto simp: by_path_filter c(4))
  show "snd (delete_by_filepath toks (Inr ()) path fts) = Inr ()"
    by (auto simp: delete_by_filepath_def q writer_mut_def Let_def)
qed

lemma put_inv:
  assumes inv: "fts_inv toks ident fts m" and terms: "path_terms toks path \<noteq> []" and inj: "inj ident"
  shows "fts_inv toks ident (run_call toks nfc (Put path title body frontmatter (ident path)) fts)
    (call_spec nfc (Put path title body frontmatter (ident path)) m)"
proof -
  define f1 where "f1 = fst (delete_by_filepath toks (Inr ()) path fts)"
  note d = delete_inv [OF assms, folded f1_def]
  have pair: "delete_by_filepath toks (Inr ()) path fts = (f1, Inr ())" using d(3) by (simp add: f1_def prod_eq_iff)
  let ?e = "\<lparr>fe_path = path, fe_title = nfc title, fe_body = nfc body,
               fe_frontmatter = (if frontmatter \<noteq> [] then Some (nfc frontmatter) else None), fe_id = ident path\<rparr>"
  define f2 where "f2 = f1\<lparr>fi_writer := True, fi_ops := fi_ops f1 @ [AddEntry ?e], fi_staged := fi_staged f1 @ [(path, ident path)]\<rparr>"
  have front: "fi_has_frontmatter f1" using d(1) by (simp add: fts_inv_def)
  have r: "run_call toks nfc (Put path title body frontmatter (ident path)) fts = f2"
    by (auto simp: run_call_def add_document_with_frontmatter_def pair insert_document_def writer_mut_def Let_def front f2_def)
  have eff: "effective toks f2 = effective toks f1 @ [?e]" by (simp add: effective_def f2_def apply_op_def)
  have fresh: "path \<notin> fe_path ` set (effective toks f1)" unfolding d(2) by auto
  show ?thesis
    using d(1) fresh unfolding r fts_inv_def eff
    by (auto simp: f2_def call_spec_def by_path_snoc)
qed

lemma commit_inv: "fts_inv toks ident fts m \<Longrightarrow> fts_inv toks ident (fts_commit toks fts) m"
  by (auto simp: fts_inv_def fts_commit_def effective_def)

lemma run_inv:
  assumes "inj ident" and "fts_inv toks ident fts m"
    and "\<forall>c\<in>set cs. case c of Put path title body frontmatter rid \<Rightarrow> path_terms toks path \<noteq> [] \<and> rid = ident path
         | Del path \<Rightarrow> path_terms toks path \<noteq> [] | Commit \<Rightarrow> True"
  shows "fts_inv toks ident (fold (run_call toks nfc) cs fts) (fold (call_spec nfc) cs m)"
  using assms(2,3)
proof (induction cs arbitrary: fts m)
  case (Cons c cs)
  have "fts_inv toks ident (run_call toks nfc c fts) (call_spec nfc c m)"
  proof (cases c)
    case (Put path title body frontmatter rid)
    then show ?thesis using put_inv [OF Cons.prems(1) _ assms(1)] Cons.prems(2) by simp
  next
    case (Del path)
    then show ?thesis using delete_inv(1) [OF Cons.prems(1) _ assms(1)] Cons.prems(2) by (simp add: run_call_def call_spec_def)
  next
    case Commit
    then show ?thesis using commit_inv [OF Cons.prems(1)] by (simp add: run_call_def call_spec_def)
  qed
  then show ?case using Cons.IH Cons.prems(2) by simp
qed simp

text \<open>C3: Adding, re-adding and deleting documents in any order, with commits anywhere in between, leaves
  after a commit exactly one live entry per path, the last one added, as if the index were a map
  from paths to entries, whatever other paths contain the same tokens; this needs every path to
  have a usable token and every document id to belong to one path.\<close>
theorem fts_refines_map:
  assumes "inj ident"
    and "\<forall>c\<in>set cs. case c of Put path title body frontmatter rid \<Rightarrow> path_terms toks path \<noteq> [] \<and> rid = ident path
         | Del path \<Rightarrow> path_terms toks path \<noteq> [] | Commit \<Rightarrow> True"
  shows "let es = fi_committed (fold (run_call toks nfc) (cs @ [Commit]) fts_create) in
      distinct (map fe_path es) \<and> by_path es = fold (call_spec nfc) cs Map.empty"
proof -
  have "fts_inv toks ident fts_create Map.empty"
    by (simp add: fts_inv_def fts_create_def effective_def by_path_def)
  then have "fts_inv toks ident (fold (run_call toks nfc) cs fts_create) (fold (call_spec nfc) cs Map.empty)"
    using assms by (intro run_inv)
  then show ?thesis
    by (auto simp: Let_def run_call_def fts_inv_def fts_commit_def effective_def)
qed

lemma fts_refines_map_witness:
  "let es = fi_committed (fold (run_call (\<lambda>p. [(0, p)]) (\<lambda>s. s))
      [Put ''c/a.md'' ''A'' ''x'' [] (int (to_nat ''c/a.md'')), Put ''c/b.md'' ''B'' ''x'' [] (int (to_nat ''c/b.md'')), Commit,
       Put ''c/a.md'' ''C'' ''y'' [] (int (to_nat ''c/a.md'')), Del ''c/b.md'', Commit] fts_create)
    in map_option fe_title (by_path es ''c/a.md'') = Some ''C'' \<and> by_path es ''c/b.md'' = None"
proof -
  let ?cs = "[Put ''c/a.md'' ''A'' ''x'' [] (int (to_nat ''c/a.md'')), Put ''c/b.md'' ''B'' ''x'' [] (int (to_nat ''c/b.md'')), Commit,
       Put ''c/a.md'' ''C'' ''y'' [] (int (to_nat ''c/a.md'')), Del ''c/b.md'']"
  have "inj (\<lambda>p :: string. int (to_nat p))" by (simp add: inj_def)
  then have "by_path (fi_committed (fold (run_call (\<lambda>p. [(0, p)]) (\<lambda>s. s)) (?cs @ [Commit]) fts_create))
      = fold (call_spec (\<lambda>s. s)) ?cs Map.empty"
    using fts_refines_map [of "\<lambda>p. int (to_nat p)" ?cs "\<lambda>p. [(0, p)]" "\<lambda>s. s"] by (simp add: path_terms_def Let_def)
  then show ?thesis by (simp add: call_spec_def Let_def)
qed

text \<open>A path whose tokens are all dropped is never found again: adding it twice keeps both entries.\<close>

lemma tokenless_path_duplicates:
  assumes "path_terms toks path = []"
  shows "map fe_path (fi_committed (fold (run_call toks nfc) [Put path t b f i, Commit, Put path t b f i, Commit] fts_create)) = [path, path]"
  using assms by (simp add: run_call_def add_document_with_frontmatter_def delete_by_filepath_def exact_filepath_query_def
      insert_document_def writer_mut_def fts_create_def fts_commit_def apply_op_def Let_def)

subsection \<open>What a search returns\<close>

lemma search_in_scope:
  "length (search_fts_scoped toks nfc ranked fts query limit cols allowed) \<le> limit
    \<and> (\<forall>(path, rid, s)\<in>set (search_fts_scoped toks nfc ranked fts query limit cols allowed). in_scope_path cols path)"
  by (auto simp: search_fts_scoped_def Let_def dest!: in_set_takeD)

lemma search_allowed_exact:
  assumes "limit \<noteq> 0" and "\<forall>(s, e)\<in>set (ranked (strip_keyword_stopwords (nfc query)) (fi_committed fts)).
      fe_id e \<in> set ids \<longrightarrow> in_scope_path cols (fe_path e)"
  shows "search_fts_scoped toks nfc ranked fts query limit cols (Some ids) =
    map (\<lambda>(s, e). (fe_path e, fe_id e, norm_score s))
      (take limit (filter (\<lambda>(s, e). fe_id e \<in> set ids) (ranked (strip_keyword_stopwords (nfc query)) (fi_committed fts))))"
proof -
  let ?hits = "filter (\<lambda>(s, e). fe_id e \<in> set ids) (ranked (strip_keyword_stopwords (nfc query)) (fi_committed fts))"
  have "filter (\<lambda>(s, e). in_scope_path cols (fe_path e)) (take limit ?hits) = take limit ?hits"
    using assms(2) by (auto simp: filter_id_conv dest!: in_set_takeD)
  then show ?thesis using assms(1) by (simp add: search_fts_scoped_def fetch_limit_def Let_def)
qed

end
