(* ===== verification/AstChunk.thy ===== *)
theory AstChunk
  imports Chunking Db
begin

text \<open>
  Chunking of source code at declarations, \<open>crates/rqmd-core/src/ast_chunk.rs\<close>, and its dispatch
  in \<open>chunking.rs\<close>. The cargo features compiled in are the list \<open>feats\<close>. Tree-sitter and its
  grammars are not under src/: \<open>parse\<close> gives the tree of a text in the language of an extension,
  or \<open>None\<close> when the parser refuses or runs out of time.
\<close>

record language =
  lang_extensions :: "string list"
  lang_kinds :: "string list"
  lang_leading :: "string list"
  lang_outermost_only :: bool
  lang_marker :: string

definition LEGACY_MARKER :: string where "LEGACY_MARKER = ''ast_chunking:1''"

definition JS_TS_KINDS :: "string list" where
  "JS_TS_KINDS =
    [''function_declaration'', ''generator_function_declaration'', ''class_declaration'', ''method_definition'',
     ''interface_declaration'', ''type_alias_declaration'', ''enum_declaration'']"

definition JAVA_KINDS :: "string list" where
  "JAVA_KINDS =
    [''class_declaration'', ''interface_declaration'', ''enum_declaration'', ''record_declaration'',
     ''method_declaration'', ''constructor_declaration'']"

definition PY_KINDS :: "string list" where "PY_KINDS = [''function_definition'', ''class_definition'']"

definition GO_KINDS :: "string list" where
  "GO_KINDS = [''function_declaration'', ''method_declaration'', ''type_declaration'']"

definition RUST_KINDS :: "string list" where
  "RUST_KINDS =
    [''function_item'', ''struct_item'', ''enum_item'', ''union_item'', ''trait_item'', ''impl_item'', ''mod_item'',
     ''type_item'', ''macro_definition'']"

definition CSHARP_KINDS :: "string list" where
  "CSHARP_KINDS =
    [''class_declaration'', ''interface_declaration'', ''struct_declaration'', ''enum_declaration'',
     ''record_declaration'', ''method_declaration'', ''constructor_declaration'']"

definition KOTLIN_KINDS :: "string list" where
  "KOTLIN_KINDS = [''class_declaration'', ''object_declaration'', ''function_declaration'', ''secondary_constructor'']"

definition SWIFT_KINDS :: "string list" where
  "SWIFT_KINDS =
    [''class_declaration'', ''protocol_declaration'', ''function_declaration'', ''init_declaration'', ''deinit_declaration'']"

definition HCL_KINDS :: "string list" where "HCL_KINDS = [''block'']"
definition SQL_KINDS :: "string list" where "SQL_KINDS = [''statement'']"

definition own_marker :: "string \<Rightarrow> string" where
  "own_marker name = ''ast_chunking:1'' @ [NL] @ ''ast_language:'' @ name @ '':1''"

definition all_languages :: "(string \<times> language) list" where
  "all_languages =
    [(''ast-typescript'', \<lparr>lang_extensions = [''ts''], lang_kinds = JS_TS_KINDS, lang_leading = [],
        lang_outermost_only = False, lang_marker = LEGACY_MARKER\<rparr>),
     (''ast-typescript'', \<lparr>lang_extensions = [''tsx''], lang_kinds = JS_TS_KINDS, lang_leading = [],
        lang_outermost_only = False, lang_marker = LEGACY_MARKER\<rparr>),
     (''ast-javascript'', \<lparr>lang_extensions = [''js'', ''jsx'', ''mjs'', ''cjs''], lang_kinds = JS_TS_KINDS, lang_leading = [],
        lang_outermost_only = False, lang_marker = LEGACY_MARKER\<rparr>),
     (''ast-java'', \<lparr>lang_extensions = [''java''], lang_kinds = JAVA_KINDS, lang_leading = [],
        lang_outermost_only = False, lang_marker = LEGACY_MARKER\<rparr>),
     (''ast-python'', \<lparr>lang_extensions = [''py''], lang_kinds = PY_KINDS, lang_leading = [],
        lang_outermost_only = False, lang_marker = LEGACY_MARKER\<rparr>),
     (''ast-go'', \<lparr>lang_extensions = [''go''], lang_kinds = GO_KINDS, lang_leading = [''comment''],
        lang_outermost_only = False, lang_marker = own_marker ''go''\<rparr>),
     (''ast-rust'', \<lparr>lang_extensions = [''rs''], lang_kinds = RUST_KINDS,
        lang_leading = [''line_comment'', ''block_comment'', ''attribute_item''],
        lang_outermost_only = False, lang_marker = own_marker ''rust''\<rparr>),
     (''ast-csharp'', \<lparr>lang_extensions = [''cs''], lang_kinds = CSHARP_KINDS, lang_leading = [''comment''],
        lang_outermost_only = False, lang_marker = own_marker ''csharp''\<rparr>),
     (''ast-kotlin'', \<lparr>lang_extensions = [''kt'', ''kts''], lang_kinds = KOTLIN_KINDS,
        lang_leading = [''line_comment'', ''block_comment''],
        lang_outermost_only = False, lang_marker = own_marker ''kotlin''\<rparr>),
     (''ast-swift'', \<lparr>lang_extensions = [''swift''], lang_kinds = SWIFT_KINDS,
        lang_leading = [''comment'', ''multiline_comment''],
        lang_outermost_only = False, lang_marker = own_marker ''swift''\<rparr>),
     (''ast-hcl'', \<lparr>lang_extensions = [''tf'', ''tfvars'', ''hcl''], lang_kinds = HCL_KINDS, lang_leading = [''comment''],
        lang_outermost_only = True, lang_marker = own_marker ''hcl''\<rparr>),
     (''ast-sql'', \<lparr>lang_extensions = [''sql''], lang_kinds = SQL_KINDS, lang_leading = [''comment'', ''marginalia''],
        lang_outermost_only = True, lang_marker = own_marker ''sql''\<rparr>)]"

definition REGISTRY :: "string list \<Rightarrow> language list" where
  "REGISTRY feats = map snd (filter (\<lambda>(feature, _). feature \<in> set feats) all_languages)"

definition language_for :: "string list \<Rightarrow> string \<Rightarrow> language option" where
  "language_for feats ext = List.find (\<lambda>l. ext \<in> set (lang_extensions l)) (REGISTRY feats)"

definition ast_extensions :: "string list \<Rightarrow> string list" where
  "ast_extensions feats = concat (map lang_extensions (REGISTRY feats))"

definition fingerprint_marker :: "string list \<Rightarrow> string \<Rightarrow> string option" where
  "fingerprint_marker feats ext = map_option lang_marker (language_for feats ext)"

text \<open>The group of a marker is extended in place, or a new one is added at the end.\<close>

fun add_to_group :: "string \<Rightarrow> string list \<Rightarrow> (string \<times> string list) list \<Rightarrow> (string \<times> string list) list" where
  "add_to_group m exts [] = [(m, exts)]"
| "add_to_group m exts ((m', es) # groups) =
     (if m' = m then (m', es @ exts) # groups else (m', es) # add_to_group m exts groups)"

definition extensions_by_marker :: "string list \<Rightarrow> (string \<times> string list) list" where
  "extensions_by_marker feats = fold (\<lambda>l groups. add_to_group (lang_marker l) (lang_extensions l) groups) (REGISTRY feats) []"

subsection \<open>Declarations of a parse\<close>

text \<open>A node: kind, first byte, row of its start, row and column of its end, children.\<close>

datatype node = Node (n_kind: string) (n_start: nat) (n_start_row: nat) (n_end_row: nat) (n_end_column: nat) (n_children: "node list")

fun leading_run :: "node list \<Rightarrow> string list \<Rightarrow> nat \<Rightarrow> nat \<Rightarrow> nat" where
  "leading_run siblings leading 0 start = start"
| "leading_run siblings leading (Suc i) start =
     (let comment = siblings ! i in
      if n_kind comment \<notin> set leading then start
      else if 1 \<le> i \<and> n_end_column (siblings ! (i - 1)) \<noteq> 0 \<and> n_end_row (siblings ! (i - 1)) = n_start_row comment then start
      else leading_run siblings leading i (n_start comment))"

definition boundary_start :: "node list \<Rightarrow> nat \<Rightarrow> string list \<Rightarrow> nat" where
  "boundary_start siblings k leading = leading_run siblings leading k (n_start (siblings ! k))"

text \<open>One node of the stack: the boundaries among its children, and the children still to be looked into.\<close>

definition visit_children :: "language \<Rightarrow> node list \<Rightarrow> nat list \<times> node list" where
  "visit_children l children =
     (map (\<lambda>k. boundary_start children k (lang_leading l))
        (filter (\<lambda>k. n_kind (children ! k) \<in> set (lang_kinds l)) [0..<length children]),
      filter (\<lambda>c. \<not> (n_kind c \<in> set (lang_kinds l) \<and> lang_outermost_only l)) children)"

lemma size_visit: "size_list size (snd (visit_children l cs)) \<le> size_list size cs"
proof -
  have "size_list size (filter P cs) \<le> size_list size cs" for P :: "node \<Rightarrow> bool"
  proof (induction cs)
    case (Cons c cs)
    then show ?case by (cases "P c") (simp_all add: le_SucI trans_le_add2)
  qed simp
  then show ?thesis by (simp add: visit_children_def)
qed

lemma visit_shrinks:
  assumes "(found, push) = visit_children l (n_children node)"
  shows "size_list size (rev push) < size node"
proof -
  have "size_list size push \<le> size_list size (n_children node)" using size_visit [of l "n_children node"] assms by (metis snd_conv)
  moreover have "size_list size (n_children node) < size node" by (cases node) simp
  moreover have "size_list size (rev push) = size_list size push"
    by (simp add: size_list_conv_sum_list rev_map [symmetric] sum_list_rev)
  ultimately show ?thesis by simp
qed

text \<open>The stack holds its top first; children are pushed in order, so the last comes out first.\<close>

function walk :: "language \<Rightarrow> node list \<Rightarrow> nat list \<Rightarrow> nat list" where
  "walk l [] out = out"
| "walk l (node # stack) out =
     (case visit_children l (n_children node) of
        (found, push) \<Rightarrow> walk l (rev push @ stack) (out @ found))"
  by pat_completeness auto
termination
  by (relation "measure (\<lambda>(l, stack, out). size_list size stack)") (auto dest: visit_shrinks intro: less_SucI)

declare walk.simps [simp del]

definition collect_boundaries :: "node \<Rightarrow> language \<Rightarrow> nat list" where
  "collect_boundaries tree l =
     (if n_kind tree \<in> set (lang_kinds l)
      then if lang_outermost_only l then [n_start tree] else walk l [tree] [n_start tree]
      else walk l [tree] [])"

definition chunk_source :: "string list \<Rightarrow> (string \<Rightarrow> string \<Rightarrow> node option) \<Rightarrow> string \<Rightarrow> string \<Rightarrow> chunk list option option" where
  "chunk_source feats parse text ext =
     (case language_for feats ext of
        None \<Rightarrow> None
      | Some l \<Rightarrow>
          (case parse ext text of
             None \<Rightarrow> None
           | Some tree \<Rightarrow>
               (let positions = collect_boundaries tree l in
                if positions = [] then None
                else Some (chunk_from_break_points text
                  (map (\<lambda>pos. \<lparr>bp_pos = pos, bp_score = 100\<rparr>) (dedup_adjacent id (sort positions)))))))"

subsection \<open>Dispatch\<close>

definition ast_chunking_compiled :: "string list \<Rightarrow> bool" where
  "ast_chunking_compiled feats \<longleftrightarrow> ''ast-registry'' \<in> set feats"

definition chunk_document_for_path ::
  "unicode \<Rightarrow> string list \<Rightarrow> (string \<Rightarrow> string \<Rightarrow> node option) \<Rightarrow> string \<Rightarrow> string \<Rightarrow> chunk list option" where
  "chunk_document_for_path uc feats parse path text =
     (case (if ast_chunking_compiled feats then Option.bind (path_extension path) (chunk_source feats parse text) else None) of
        Some chunks \<Rightarrow> chunks
      | None \<Rightarrow> chunk_document uc text)"

definition ast_chunking_extensions :: "string list \<Rightarrow> string list" where
  "ast_chunking_extensions feats = (if ast_chunking_compiled feats then ast_extensions feats else [])"

definition ast_fingerprint_marker :: "string list \<Rightarrow> string \<Rightarrow> string option" where
  "ast_fingerprint_marker feats ext = (if ast_chunking_compiled feats then fingerprint_marker feats ext else None)"

definition ast_fingerprint_groups :: "string list \<Rightarrow> (string \<times> string list) list" where
  "ast_fingerprint_groups feats = (if ast_chunking_compiled feats then extensions_by_marker feats else [])"

subsection \<open>The stack finds every declaration\<close>

text \<open>Reference: the boundaries below a node, by recursion on the tree.\<close>

function below :: "language \<Rightarrow> node \<Rightarrow> nat set" where
  "below l node =
     (\<Union>k\<in>{..<length (n_children node)}.
        (if n_kind (n_children node ! k) \<in> set (lang_kinds l) then {boundary_start (n_children node) k (lang_leading l)} else {})
        \<union> (if n_kind (n_children node ! k) \<in> set (lang_kinds l) \<and> lang_outermost_only l then {} else below l (n_children node ! k)))"
  by pat_completeness auto
termination
proof (relation "measure (\<lambda>(l, node). size node)")
  fix l :: language and node k
  assume "k \<in> {..<length (n_children node)}"
  then have "n_children node ! k \<in> set (n_children node)" by simp
  then show "((l, n_children node ! k), l, node) \<in> measure (\<lambda>(l, node). size node)"
    by (cases node) (auto dest: size_list_estimation [of _ _ _ size] size_list_estimation' [of _ _ _ size])
qed simp

declare below.simps [simp del]

lemma below_visit:
  "below l node = set (fst (visit_children l (n_children node))) \<union> \<Union> (below l ` set (snd (visit_children l (n_children node))))"
proof -
  let ?cs = "n_children node"
  have "(\<Union>k\<in>{..<length ?cs}. if n_kind (?cs ! k) \<in> set (lang_kinds l) \<and> lang_outermost_only l then {} else below l (?cs ! k))
      = \<Union> (below l ` set (snd (visit_children l ?cs)))"
    by (auto simp: visit_children_def in_set_conv_nth split: if_splits)
  moreover have "(\<Union>k\<in>{..<length ?cs}. if n_kind (?cs ! k) \<in> set (lang_kinds l) then {boundary_start ?cs k (lang_leading l)} else {})
      = set (fst (visit_children l ?cs))"
    by (auto simp: visit_children_def)
  ultimately show ?thesis by (subst below.simps) (simp only: UN_Un_distrib)
qed

lemma walk_finds: "set (walk l stack out) = set out \<union> \<Union> (below l ` set stack)"
proof (induction l stack out rule: walk.induct)
  case (1 l out)
  then show ?case by (simp add: walk.simps)
next
  case (2 l node stack out)
  obtain found push where v: "visit_children l (n_children node) = (found, push)" by (cases "visit_children l (n_children node)")
  then show ?case using 2 below_visit [of l node] by (auto simp: v walk.simps)
qed

lemma collect_boundaries_reference:
  "set (collect_boundaries tree l) =
     (if n_kind tree \<in> set (lang_kinds l) then {n_start tree} else {})
     \<union> (if n_kind tree \<in> set (lang_kinds l) \<and> lang_outermost_only l then {} else below l tree)"
  by (auto simp: collect_boundaries_def walk_finds)

lemma chunk_source_tiles:
  assumes "valid_utf8 text" and "chunk_source feats parse text ext = Some r"
  shows "\<exists>cs bps. r = Some cs \<and> tiles text (max_chunk text bps) 0 cs"
proof -
  obtain bps where r: "r = chunk_from_break_points text bps"
    using assms(2) by (auto simp: chunk_source_def Let_def split: option.splits if_splits)
  obtain cs where "chunk_from_break_points text bps = Some cs" "tiles text (max_chunk text bps) 0 cs"
    using chunk_from_break_points_tiles [OF assms(1)] by blast
  then show ?thesis using r by blast
qed

lemma chunk_for_path_returns:
  assumes "valid_utf8 text"
  shows "\<exists>cs. chunk_document_for_path uc feats parse path text = Some cs"
proof (cases "if ast_chunking_compiled feats then Option.bind (path_extension path) (chunk_source feats parse text) else None")
  case None
  then show ?thesis using chunk_document_tiles [OF assms, of uc] by (auto simp add: chunk_document_for_path_def)
next
  case (Some r)
  then obtain ext where "chunk_source feats parse text ext = Some r" by (auto simp: bind_eq_Some_conv split: if_splits)
  then obtain cs where "r = Some cs" using chunk_source_tiles [OF assms] by blast
  then show ?thesis using Some by (simp add: chunk_document_for_path_def)
qed

text \<open>The markers group the compiled extensions: every extension is in the group of its marker.\<close>

lemma add_to_group_look: "map_of (add_to_group m exts gs) k = (if k = m then Some ((case map_of gs m of None \<Rightarrow> [] | Some es \<Rightarrow> es) @ exts) else map_of gs k)"
  by (induction gs) auto

end
