(* ===== verification/Fingerprint.thy ===== *)
theory Fingerprint
  imports AstChunk
begin

text \<open>
  The identity of embeddings and the time stamps of \<open>crates/rqmd-core/src/store.rs\<close>:
  fingerprints, chunk hashes, reuse keys and RFC 3339 times. \<open>sha\<close> gives the 64 hexadecimal digits
  of the SHA-256 of a text.
\<close>

definition QUERY_PREFIX :: string where "QUERY_PREFIX = ''task: search result | query: ''"
definition PASSAGE_PREFIX :: string where "PASSAGE_PREFIX = ''title: none | text: ''"

definition chunk_text_hash :: "(string \<Rightarrow> string) \<Rightarrow> string \<Rightarrow> string" where
  "chunk_text_hash sha text = take 32 (sha text)"

definition vector_key :: "(string \<Rightarrow> string) \<Rightarrow> string \<Rightarrow> string \<Rightarrow> nat \<Rightarrow> string \<Rightarrow> string" where
  "vector_key sha backend_kind model context_size chunk_hash =
     take 32 (sha (''backend:'' @ backend_kind @ [NL] @ ''model:'' @ model @ [NL] @ ''context_size:'' @ dec context_size
       @ [NL] @ ''passage_prefix:'' @ PASSAGE_PREFIX @ [NL] @ ''chunk:'' @ chunk_hash))"

definition fingerprint_sig :: "string \<Rightarrow> string \<Rightarrow> string \<Rightarrow> string option \<Rightarrow> string" where
  "fingerprint_sig model query_prefix passage_prefix ast_marker =
     ''model:'' @ model @ [NL] @ ''chunk_size_chars:'' @ dec CHUNK_SIZE_CHARS @ [NL]
       @ ''chunk_overlap_chars:'' @ dec CHUNK_OVERLAP_CHARS @ [NL] @ ''chunk_strategy_version:'' @ dec CHUNK_STRATEGY_VERSION
       @ [NL] @ ''query_prefix:'' @ query_prefix @ [NL] @ ''passage_prefix:'' @ passage_prefix
       @ (case ast_marker of Some marker \<Rightarrow> [NL] @ marker | None \<Rightarrow> [NL] @ ''table_header_chunking:1'')"

definition marked_fingerprint :: "(string \<Rightarrow> string) \<Rightarrow> string \<Rightarrow> string \<Rightarrow> string \<Rightarrow> string option \<Rightarrow> string" where
  "marked_fingerprint sha model query_prefix passage_prefix ast_marker =
     take 6 (sha (fingerprint_sig model query_prefix passage_prefix ast_marker))"

definition ast_marker_for_path :: "string list \<Rightarrow> string \<Rightarrow> string option" where
  "ast_marker_for_path feats rel_path = Option.bind (path_extension rel_path) (ast_fingerprint_marker feats)"

definition embed_fingerprint_applies_ast :: "string list \<Rightarrow> string \<Rightarrow> bool" where
  "embed_fingerprint_applies_ast feats rel_path \<longleftrightarrow> ast_marker_for_path feats rel_path \<noteq> None"

definition embed_fingerprint_with_prefixes ::
  "(string \<Rightarrow> string) \<Rightarrow> string list \<Rightarrow> string \<Rightarrow> string \<Rightarrow> string \<Rightarrow> string \<Rightarrow> string" where
  "embed_fingerprint_with_prefixes sha feats model rel_path query_prefix passage_prefix =
     marked_fingerprint sha model query_prefix passage_prefix (ast_marker_for_path feats rel_path)"

definition embed_fingerprint :: "(string \<Rightarrow> string) \<Rightarrow> string list \<Rightarrow> string \<Rightarrow> string \<Rightarrow> string" where
  "embed_fingerprint sha feats model rel_path =
     embed_fingerprint_with_prefixes sha feats model rel_path QUERY_PREFIX PASSAGE_PREFIX"

definition expected_embed_fingerprint :: "(string \<Rightarrow> string) \<Rightarrow> string list \<Rightarrow> string \<Rightarrow> string" where
  "expected_embed_fingerprint sha feats model = embed_fingerprint sha feats model []"

definition expected_embed_fingerprint_for_path :: "(string \<Rightarrow> string) \<Rightarrow> string list \<Rightarrow> string \<Rightarrow> string \<Rightarrow> string" where
  "expected_embed_fingerprint_for_path sha feats model rel_path = embed_fingerprint sha feats model rel_path"

definition expected_embed_ast_fingerprints :: "(string \<Rightarrow> string) \<Rightarrow> string list \<Rightarrow> string \<Rightarrow> ast_fingerprint list" where
  "expected_embed_ast_fingerprints sha feats model =
     map (\<lambda>(marker, exts). \<lparr>af_extensions = exts, af_fingerprint = marked_fingerprint sha model QUERY_PREFIX PASSAGE_PREFIX (Some marker)\<rparr>)
       (ast_fingerprint_groups feats)"

text \<open>\<open>name\<close> is the embed model of the configured backend.\<close>

definition expected_fingerprint_set :: "(string \<Rightarrow> string) \<Rightarrow> string list \<Rightarrow> string \<Rightarrow> string list" where
  "expected_fingerprint_set sha feats name =
     expected_embed_fingerprint sha feats name # map af_fingerprint (expected_embed_ast_fingerprints sha feats name)"

subsection \<open>Times\<close>

definition pad :: "nat \<Rightarrow> nat \<Rightarrow> string" where
  "pad w n = replicate (w - length (dec n)) (CHR ''0'') @ dec n"

definition civil :: "nat \<Rightarrow> nat \<times> nat \<times> nat" where
  "civil days =
     (let z = days + 719468;
          era = z div 146097;
          doe = z mod 146097;
          yoe = (doe - doe div 1460 + doe div 36524 - doe div 146096) div 365;
          y = yoe + era * 400;
          doy = doe - (365 * yoe + yoe div 4 - yoe div 100);
          mp = (5 * doy + 2) div 153;
          d = doy - (153 * mp + 2) div 5 + 1;
          mo = (if mp < 10 then mp + 3 else mp - 9);
          y = (if mo \<le> 2 then y + 1 else y)
      in (y, mo, d))"

definition format_rfc3339 :: "nat \<Rightarrow> string" where
  "format_rfc3339 secs =
     (let time_of_day = secs mod 86400;
          days = secs div 86400;
          h = time_of_day div 3600;
          m = (time_of_day mod 3600) div 60;
          s = time_of_day mod 60
      in case civil days of (y, mo, d) \<Rightarrow>
           pad 4 y @ ''-'' @ pad 2 mo @ ''-'' @ pad 2 d @ ''T'' @ pad 2 h @ '':'' @ pad 2 m @ '':'' @ pad 2 s @ ''Z'')"

end
