(* ===== verification/Indexing.thy ===== *)
theory Indexing
  imports Fingerprint Fts Hnsw DbColls Frontmatter
begin

text \<open>
  The writing half of \<open>Store\<close>, \<open>crates/rqmd-core/src/store.rs\<close>: opening, indexing, embedding with
  reuse of stored vectors, flushing, reclaiming, renaming and rebuilding, over the database, the
  full-text index, the vector index and the directory that holds its file. What the store is
  opened with and the outside world's answers are a record \<open>env\<close>; an operation returns the
  changed store and an error or a value.
\<close>

record ('ix, 'v, 'f) env =
  e_us :: "('ix, 'v, 'f) usearch"
  e_sha :: "string \<Rightarrow> string"
  e_uc :: unicode
  e_feats :: "string list"
  e_parse :: "string \<Rightarrow> string \<Rightarrow> node option"
  e_toks :: "string \<Rightarrow> phrase"
  e_nfc :: "string \<Rightarrow> string"
  e_embed :: "string list \<Rightarrow> string + 'v list"   \<comment> \<open>\<open>embed_batch_passage\<close>\<close>
  e_kind :: string                              \<comment> \<open>\<open>embed_backend_kind\<close>\<close>
  e_model :: string                             \<comment> \<open>\<open>embed_model_name\<close>\<close>
  e_context :: nat                              \<comment> \<open>\<open>embed_context_size\<close>\<close>
  e_writer :: "fts_error + unit"                \<comment> \<open>waiting for Tantivy's writer\<close>
  e_io :: save_io
  e_pid :: nat
  e_secs :: nat                                 \<comment> \<open>the clock\<close>

record ('ix, 'f) store =
  st_db :: db
  st_fts :: fts_index
  st_hnsw :: "'ix vector_index"
  st_file :: string
  st_fs :: "'f fs"
  st_staged :: "(string \<times> nat) list"
  st_dirty :: bool
  st_seen :: "nat option \<times> nat option"

datatype store_error =
  DbErr db_error | HnswErr hnsw_error | FtsErr fts_error | SaveErr save_error
| EmbedErr string | CountMismatch nat nat | Vanished | Panicked

text \<open>The \<open>?\<close> operator over a store that has been changed on the way.\<close>

definition sbind :: "'s \<times> ('e + 'a) \<Rightarrow> ('s \<Rightarrow> 'a \<Rightarrow> 's \<times> ('e + 'b)) \<Rightarrow> 's \<times> ('e + 'b)" where
  "sbind r f = (case r of (s, Inl e) \<Rightarrow> (s, Inl e) | (s, Inr a) \<Rightarrow> f s a)"

lemma sbind_simps [simp]:
  "sbind (s, Inl e) f = (s, Inl e)"
  "sbind (s, Inr a) f = f s a"
  by (simp_all add: sbind_def)

definition smap_err :: "('e \<Rightarrow> 'e') \<Rightarrow> 'e + 'a \<Rightarrow> 'e' + 'a" where
  "smap_err g r = (case r of Inl e \<Rightarrow> Inl (g e) | Inr a \<Rightarrow> Inr a)"

lemma smap_err_simps [simp]: "smap_err g (Inl e) = Inl (g e)" "smap_err g (Inr a) = Inr a"
  by (simp_all add: smap_err_def)

lemma smap_err_eq_Inr [simp]: "smap_err g r = Inr a \<longleftrightarrow> r = Inr a"
  by (cases r) auto

text \<open>Operations of the parts, run on the store.\<close>

definition on_fts :: "(fts_index \<Rightarrow> fts_index \<times> (fts_error + 'a)) \<Rightarrow> ('ix, 'f) store \<Rightarrow> ('ix, 'f) store \<times> (store_error + 'a)" where
  "on_fts f st = (case f (st_fts st) of (fts, r) \<Rightarrow> (st\<lparr>st_fts := fts\<rparr>, smap_err FtsErr r))"

definition on_hnsw ::
  "('ix vector_index \<Rightarrow> 'ix vector_index \<times> (hnsw_error + 'a)) \<Rightarrow> ('ix, 'f) store \<Rightarrow> ('ix, 'f) store \<times> (store_error + 'a)" where
  "on_hnsw f st = (case f (st_hnsw st) of (vi, r) \<Rightarrow> (st\<lparr>st_hnsw := vi\<rparr>, smap_err HnswErr r))"

definition on_db :: "(db \<Rightarrow> db) \<Rightarrow> ('ix, 'f) store \<Rightarrow> ('ix, 'f) store" where
  "on_db f st = st\<lparr>st_db := f (st_db st)\<rparr>"

definition rfc3339_now :: "('ix, 'v, 'f) env \<Rightarrow> string" where
  "rfc3339_now env = format_rfc3339 (e_secs env)"

definition FTS_TOKENIZER_CONFIG_KEY :: string where "FTS_TOKENIZER_CONFIG_KEY = ''fts_tokenizer_version''"
definition FTS_TOKENIZER_VERSION :: string where "FTS_TOKENIZER_VERSION = ''3''"

text \<open>\<open>None\<close> is a panic of the frontmatter split.\<close>

definition frontmatter_terms :: "string \<Rightarrow> string option" where
  "frontmatter_terms raw =
     map_option (\<lambda>(fm, _). case fm of None \<Rightarrow> [] | Some m \<Rightarrow> join '' '' (fm_terms m)) (fm_split raw)"

subsection \<open>Opening\<close>

text \<open>The vector index of the file, or an empty one when there is none or it cannot be read.\<close>

definition open_hnsw :: "('ix, 'v, 'f) usearch \<Rightarrow> bool \<Rightarrow> string \<Rightarrow> 'f fs \<Rightarrow> hnsw_error + 'ix vector_index" where
  "open_hnsw us read_only file fs =
     (case fs_dir fs file of
        None \<Rightarrow> vi_new us
      | Some i \<Rightarrow>
          (case (if read_only then vi_view us (Some (fs_data fs i)) else vi_load us (Some (fs_data fs i))) of
             Inr vi \<Rightarrow> Inr vi
           | Inl _ \<Rightarrow> vi_new us))"

definition reconcile_next_vid :: "db \<Rightarrow> 'ix vector_index \<Rightarrow> 'ix vector_index" where
  "reconcile_next_vid db vi =
     (let vi1 = (case max_vector_vid db of None \<Rightarrow> vi | Some m \<Rightarrow> ensure_next_vid_at_least (succ64 m) vi)
      in case Option.bind (get_config NEXT_VID_CONFIG_KEY db) (parse_uint 64) of
           None \<Rightarrow> vi1 | Some n \<Rightarrow> ensure_next_vid_at_least n vi1)"

text \<open>\<open>db\<close> and \<open>fts\<close> are the opened database and full-text index; \<open>seen\<close> the two mtimes.\<close>

definition store_open ::
  "('ix, 'v, 'f) env \<Rightarrow> bool \<Rightarrow> db \<Rightarrow> fts_index \<Rightarrow> string \<Rightarrow> 'f fs \<Rightarrow> nat option \<times> nat option \<Rightarrow> store_error + ('ix, 'f) store" where
  "store_open env read_only db fts file fs seen =
     rbind (smap_err HnswErr (open_hnsw (e_us env) read_only file fs)) (\<lambda>vi.
       Inr \<lparr>st_db = db, st_fts = fts, st_hnsw = reconcile_next_vid db vi, st_file = file, st_fs = fs,
            st_staged = [], st_dirty = False, st_seen = seen\<rparr>)"

text \<open>\<open>on_disk\<close> is what another process has committed to the full-text index by now.\<close>

definition reload_if_stale ::
  "('ix, 'v, 'f) env \<Rightarrow> nat option \<times> nat option \<Rightarrow> fts_entry list \<Rightarrow> ('ix, 'f) store \<Rightarrow> ('ix, 'f) store \<times> (store_error + bool)" where
  "reload_if_stale env mtimes on_disk st =
     (if mtimes = st_seen st then (st, Inr False)
      else
        (let st = st\<lparr>st_fts := (st_fts st)\<lparr>fi_committed := on_disk\<rparr>\<rparr> in
         case open_hnsw (e_us env) True (st_file st) (st_fs st) of
           Inl e \<Rightarrow> (st, Inl (HnswErr e))
         | Inr vi \<Rightarrow> (st\<lparr>st_hnsw := vi, st_seen := mtimes, st_dirty := False\<rparr>, Inr True)))"

subsection \<open>Embedding with reuse\<close>

definition store_vector_key :: "('ix, 'v, 'f) env \<Rightarrow> string \<Rightarrow> string" where
  "store_vector_key env chunk_hash = vector_key (e_sha env) (e_kind env) (e_model env) (e_context env) chunk_hash"

text \<open>The vector a chunk's key already has: a staged one first, then a stored one.\<close>

definition reuse_slot :: "('ix, 'v, 'f) env \<Rightarrow> (string \<Rightarrow> nat option) \<Rightarrow> ('ix, 'f) store \<Rightarrow> string \<Rightarrow> 'v option" where
  "reuse_slot env stored st k =
     (case List.map_filter
        (\<lambda>vid. case vi_get_vector (e_us env) vid (st_hnsw st) of Inr x \<Rightarrow> Some x | Inl _ \<Rightarrow> None)
        (List.map_filter (\<lambda>v. v) [map_of (st_staged st) k, stored k]) of
        [] \<Rightarrow> None | x # _ \<Rightarrow> Some x)"

definition embed_passages_reusing ::
  "('ix, 'v, 'f) env \<Rightarrow> chunk list \<Rightarrow> string list \<Rightarrow> string \<Rightarrow> ('ix, 'f) store \<Rightarrow> store_error + 'v list" where
  "embed_passages_reusing env chunks vector_keys model st =
     (let stored = reusable_vector_vids vector_keys model (st_db st);
          slots = map (reuse_slot env stored st) vector_keys;
          missing = filter (\<lambda>i. slots ! i = None) [0..<length slots]
      in if missing = [] then Inr (List.map_filter (\<lambda>v. v) slots)
         else
           rbind (smap_err EmbedErr (e_embed env (map (\<lambda>i. chunk_text (chunks ! i)) missing))) (\<lambda>fresh.
             if length fresh \<noteq> length missing then Inl (CountMismatch (length fresh) (length missing))
             else Inr (List.map_filter (\<lambda>v. v) (fold (\<lambda>(i, x) slots. slots[i := Some x]) (zip missing fresh) slots))))"

fun remove_all :: "(nat \<Rightarrow> 't \<Rightarrow> 't) \<Rightarrow> nat list \<Rightarrow> 't \<Rightarrow> 't" where
  "remove_all remove [] t = t"
| "remove_all remove (vid # ids) t = remove_all remove ids (remove vid t)"

fun add_all_loop ::
  "('v \<Rightarrow> 't \<Rightarrow> 't \<times> ('e + nat)) \<Rightarrow> (nat \<Rightarrow> 't \<Rightarrow> 't) \<Rightarrow> nat list \<Rightarrow> 'v list \<Rightarrow> 't \<Rightarrow> 't \<times> ('e + nat list)" where
  "add_all_loop add remove ids [] t = (t, Inr ids)"
| "add_all_loop add remove ids (x # xs) t =
     (case add x t of
        (t, Inr vid) \<Rightarrow> add_all_loop add remove (ids @ [vid]) xs t
      | (t, Inl e) \<Rightarrow> (remove_all remove ids t, Inl e))"

definition add_all_or_rollback ::
  "('v \<Rightarrow> 't \<Rightarrow> 't \<times> ('e + nat)) \<Rightarrow> (nat \<Rightarrow> 't \<Rightarrow> 't) \<Rightarrow> 'v list \<Rightarrow> 't \<Rightarrow> 't \<times> ('e + nat list)" where
  "add_all_or_rollback add remove embeddings index = add_all_loop add remove [] embeddings index"

record pending_vector =
  pv_hash :: string
  pv_seq :: int
  pv_pos :: int
  pv_model :: string
  pv_fingerprint :: string
  pv_total_chunks :: int
  pv_vid :: nat
  pv_now :: string
  pv_chunk_hash :: string
  pv_key :: string

text \<open>\<open>entry(key).or_insert(vid)\<close>\<close>

definition stage_vid :: "string \<times> nat \<Rightarrow> (string \<times> nat) list \<Rightarrow> (string \<times> nat) list" where
  "stage_vid kv staged = (if fst kv \<in> fst ` set staged then staged else staged @ [kv])"

definition embed_document_chunks ::
  "('ix, 'v, 'f) env \<Rightarrow> string \<Rightarrow> string \<Rightarrow> string \<Rightarrow> ('ix, 'f) store \<Rightarrow> ('ix, 'f) store \<times> (store_error + pending_vector list)" where
  "embed_document_chunks env hash rel_path body st =
     (let embed_model = e_model env;
          fingerprint = embed_fingerprint (e_sha env) (e_feats env) embed_model rel_path
      in case chunk_document_for_path (e_uc env) (e_feats env) (e_parse env) rel_path body of
           None \<Rightarrow> (st, Inl Panicked)
         | Some chunks \<Rightarrow>
             (let chunk_hashes = map (\<lambda>c. chunk_text_hash (e_sha env) (chunk_text c)) chunks;
                  vector_keys = map (store_vector_key env) chunk_hashes
              in sbind (st, embed_passages_reusing env chunks vector_keys embed_model st) (\<lambda>st embeddings.
                 sbind (on_hnsw (add_all_or_rollback (vi_add (e_us env)) (\<lambda>vid vi. fst (vi_remove (e_us env) vid vi)) embeddings) st)
                   (\<lambda>st vids.
                     (st\<lparr>st_dirty := True, st_staged := fold stage_vid (zip vector_keys vids) (st_staged st)\<rparr>,
                      Inr (map (\<lambda>(seq, (c, vid)).
                          \<lparr>pv_hash = hash, pv_seq = int seq, pv_pos = int (chunk_pos c), pv_model = embed_model,
                           pv_fingerprint = fingerprint, pv_total_chunks = int (length chunks), pv_vid = vid,
                           pv_now = rfc3339_now env, pv_chunk_hash = chunk_hashes ! seq, pv_key = vector_keys ! seq\<rparr>)
                        (enumerate 0 (zip chunks vids))))))))"

definition store_backfill_vector_keys :: "('ix, 'v, 'f) env \<Rightarrow> ('ix, 'f) store \<Rightarrow> ('ix, 'f) store \<times> nat" where
  "store_backfill_vector_keys env st =
     (let fingerprints = embed_fingerprint (e_sha env) (e_feats env) (e_model env) []
            # map af_fingerprint (expected_embed_ast_fingerprints (e_sha env) (e_feats env) (e_model env))
      in case backfill_vector_keys (e_model env) fingerprints (store_vector_key env) (st_db st) of
           (db, n) \<Rightarrow> (st\<lparr>st_db := db\<rparr>, n))"

definition vectors_committed :: "('ix, 'f) store \<Rightarrow> ('ix, 'f) store" where
  "vectors_committed st = st\<lparr>st_staged := []\<rparr>"

definition hnsw_size :: "('ix, 'v, 'f) env \<Rightarrow> ('ix, 'f) store \<Rightarrow> nat" where
  "hnsw_size env st = us_size (e_us env) (vi_inner (st_hnsw st))"

definition next_vid :: "('ix, 'f) store \<Rightarrow> nat" where
  "next_vid st = vi_next (st_hnsw st)"

text \<open>\<open>index_document\<close>'s loop over the chunks; a failure keeps what is already written.\<close>

fun index_chunks ::
  "('ix, 'v, 'f) env \<Rightarrow> string \<Rightarrow> string \<Rightarrow> string \<Rightarrow> int \<Rightarrow> string list \<Rightarrow> string list \<Rightarrow> (nat \<times> chunk \<times> 'v) list
    \<Rightarrow> ('ix, 'f) store \<Rightarrow> ('ix, 'f) store \<times> (store_error + unit)" where
  "index_chunks env hash now fingerprint n chunk_hashes vector_keys [] st = (st, Inr ())"
| "index_chunks env hash now fingerprint n chunk_hashes vector_keys ((seq, c, x) # rest) st =
     sbind (on_hnsw (vi_add (e_us env) x) st) (\<lambda>st vid.
       let st = st\<lparr>st_dirty := True\<rparr> in
       case upsert_vector_meta hash (int seq) (int (chunk_pos c)) (e_model env) fingerprint n vid now (st_db st) of
         Inl e \<Rightarrow> (st, Inl (DbErr e))
       | Inr db \<Rightarrow>
           index_chunks env hash now fingerprint n chunk_hashes vector_keys rest
             (st\<lparr>st_db := set_vector_identity hash (int seq) (chunk_hashes ! seq) (vector_keys ! seq) db\<rparr>))"

definition index_document ::
  "('ix, 'v, 'f) env \<Rightarrow> string \<Rightarrow> string \<Rightarrow> string \<Rightarrow> string \<Rightarrow> ('ix, 'f) store \<Rightarrow> ('ix, 'f) store \<times> (store_error + unit)" where
  "index_document env coll rel_path title body st =
     (let now = rfc3339_now env;
          hash = content_hash (e_sha env) body;
          st = on_db (upsert_content hash body now) st
      in case upsert_document coll rel_path title hash now (st_db st) of
           Inl e \<Rightarrow> (st, Inl (DbErr e))
         | Inr (db, rid) \<Rightarrow>
             (let st = on_db (set_document_raw rid body) (st\<lparr>st_db := db\<rparr>)
              in sbind (on_fts (add_document (e_toks env) (e_nfc env) (e_writer env) (full_path coll rel_path) title body rid) st) (\<lambda>st _.
                 case chunk_document_for_path (e_uc env) (e_feats env) (e_parse env) rel_path body of
                   None \<Rightarrow> (st, Inl Panicked)
                 | Some chunks \<Rightarrow>
                     (let fingerprint = embed_fingerprint (e_sha env) (e_feats env) (e_model env) rel_path;
                          chunk_hashes = map (\<lambda>c. chunk_text_hash (e_sha env) (chunk_text c)) chunks;
                          vector_keys = map (store_vector_key env) chunk_hashes
                      in sbind (st, embed_passages_reusing env chunks vector_keys (e_model env) st) (\<lambda>st embeddings.
                           index_chunks env hash now fingerprint (int (length chunks)) chunk_hashes vector_keys
                             (enumerate 0 (zip chunks embeddings)) st)))))"

subsection \<open>Keyword-only indexing\<close>

datatype index_outcome = New | Updated | Unchanged

definition classify :: "document option \<Rightarrow> string \<Rightarrow> index_outcome" where
  "classify existing hash =
     (case existing of None \<Rightarrow> New | Some d \<Rightarrow> if doc_hash d = hash then Unchanged else Updated)"

definition index_document_fts_only_with_raw ::
  "('ix, 'v, 'f) env \<Rightarrow> string \<Rightarrow> string \<Rightarrow> string \<Rightarrow> string \<Rightarrow> string \<Rightarrow> ('ix, 'f) store
    \<Rightarrow> ('ix, 'f) store \<times> (store_error + index_outcome)" where
  "index_document_fts_only_with_raw env coll rel_path title indexed_text raw st =
     (let now = rfc3339_now env;
          hash = content_hash (e_sha env) indexed_text;
          outcome = classify (get_document_by_filepath coll rel_path (st_db st)) hash;
          st = on_db (upsert_content hash indexed_text now) st
      in if outcome = Unchanged then
           (case get_document_by_filepath coll rel_path (st_db st) of
              None \<Rightarrow> (st, Inl Vanished)
            | Some existing \<Rightarrow> (on_db (set_document_raw (doc_id existing) raw) st, Inr Unchanged))
         else
           (case upsert_document coll rel_path title hash now (st_db st) of
              Inl e \<Rightarrow> (st, Inl (DbErr e))
            | Inr (db, rid) \<Rightarrow>
                (let st = on_db (set_document_raw rid raw) (st\<lparr>st_db := db\<rparr>) in
                 case frontmatter_terms raw of
                   None \<Rightarrow> (st, Inl Panicked)
                 | Some terms \<Rightarrow>
                     sbind (on_fts (add_document_with_frontmatter (e_toks env) (e_nfc env) (e_writer env)
                         (full_path coll rel_path) title indexed_text terms rid) st) (\<lambda>st _. (st, Inr outcome)))))"

definition index_document_fts_only ::
  "('ix, 'v, 'f) env \<Rightarrow> string \<Rightarrow> string \<Rightarrow> string \<Rightarrow> string \<Rightarrow> ('ix, 'f) store \<Rightarrow> ('ix, 'f) store \<times> (store_error + index_outcome)" where
  "index_document_fts_only env coll rel_path title body = index_document_fts_only_with_raw env coll rel_path title body body"

subsection \<open>Flushing and reclaiming\<close>

definition flush :: "('ix, 'v, 'f) env \<Rightarrow> ('ix, 'f) store \<Rightarrow> ('ix, 'f) store \<times> (store_error + unit)" where
  "flush env st =
     (let st = st\<lparr>st_fts := fts_commit (e_toks env) (st_fts st)\<rparr> in
      if st_dirty st then
        (case save_atomic (e_us env) (e_io env) (e_pid env) (st_hnsw st) (st_file st) (st_fs st) of
           (states, Inl e) \<Rightarrow> (st\<lparr>st_fs := hd states\<rparr>, Inl (SaveErr e))
         | (states, Inr _) \<Rightarrow> (st\<lparr>st_fs := hd states, st_dirty := False\<rparr>, Inr ()))
      else (st, Inr ()))"

fun evict_loop :: "('ix, 'v, 'f) env \<Rightarrow> nat list \<Rightarrow> ('ix, 'f) store \<Rightarrow> ('ix, 'f) store \<times> (store_error + unit)" where
  "evict_loop env [] st = (st\<lparr>st_dirty := True\<rparr>, Inr ())"
| "evict_loop env (vid # ids) st = sbind (on_hnsw (vi_remove (e_us env) vid) st) (\<lambda>st _. evict_loop env ids st)"

definition evict_hnsw_vectors :: "('ix, 'v, 'f) env \<Rightarrow> nat list \<Rightarrow> ('ix, 'f) store \<Rightarrow> ('ix, 'f) store \<times> (store_error + unit)" where
  "evict_hnsw_vectors env ids st = (if ids = [] then (st, Inr ()) else evict_loop env ids st)"

fun evict_hashes :: "('ix, 'v, 'f) env \<Rightarrow> string list \<Rightarrow> ('ix, 'f) store \<Rightarrow> ('ix, 'f) store \<times> (store_error + unit)" where
  "evict_hashes env [] st = (st, Inr ())"
| "evict_hashes env (hash # hashes) st =
     sbind (st, smap_err DbErr (vids_for_hash hash (st_db st))) (\<lambda>st ids.
       sbind (evict_hnsw_vectors env ids st) (\<lambda>st _. evict_hashes env hashes st))"

definition sweep_rows :: "string list \<Rightarrow> db \<Rightarrow> db \<times> nat" where
  "sweep_rows hashes db =
     fold (\<lambda>hash (db, swept). case delete_vectors_for_hash hash db of (db, n) \<Rightarrow> (db, swept + n)) hashes (db, 0)"

definition reclaim_vectors_of :: "('ix, 'v, 'f) env \<Rightarrow> string list \<Rightarrow> ('ix, 'f) store \<Rightarrow> ('ix, 'f) store \<times> (store_error + nat)" where
  "reclaim_vectors_of env hashes st =
     (if hashes = [] then (st, Inr 0)
      else sbind (evict_hashes env hashes st) (\<lambda>st _. sbind (flush env st) (\<lambda>st _.
        case sweep_rows hashes (st_db st) of (db, swept) \<Rightarrow> (st\<lparr>st_db := db\<rparr>, Inr swept))))"

definition reclaim_orphaned_vectors :: "('ix, 'v, 'f) env \<Rightarrow> ('ix, 'f) store \<Rightarrow> ('ix, 'f) store \<times> (store_error + nat)" where
  "reclaim_orphaned_vectors env st = reclaim_vectors_of env (orphaned_vector_hashes (st_db st)) st"

definition reclaim_excluded_vectors :: "('ix, 'v, 'f) env \<Rightarrow> int list \<Rightarrow> ('ix, 'f) store \<Rightarrow> ('ix, 'f) store \<times> (store_error + nat)" where
  "reclaim_excluded_vectors env excluded st = reclaim_vectors_of env (excluded_only_vector_hashes (st_db st) excluded) st"

subsection \<open>The full-text index\<close>

definition remove_from_fts :: "('ix, 'v, 'f) env \<Rightarrow> string \<Rightarrow> ('ix, 'f) store \<Rightarrow> ('ix, 'f) store \<times> (store_error + unit)" where
  "remove_from_fts env path st = on_fts (delete_by_filepath (e_toks env) (e_writer env) path) st"

text \<open>The rows of the join of active documents with their content.\<close>

definition text_rows :: "(doc_row \<Rightarrow> bool) \<Rightarrow> db \<Rightarrow> (string \<times> string \<times> string \<times> int \<times> string) list" where
  "text_rows p db =
     List.map_filter (\<lambda>r. map_option (\<lambda>doc. (full_path (d_collection r) (d_path r), d_title r, doc, d_id r, d_raw r))
         (get_content (d_hash r) db))
       (filter (\<lambda>r. d_active r \<and> p r) (documents db))"

fun delete_paths :: "('ix, 'v, 'f) env \<Rightarrow> string list \<Rightarrow> ('ix, 'f) store \<Rightarrow> ('ix, 'f) store \<times> (store_error + unit)" where
  "delete_paths env [] st = (st, Inr ())"
| "delete_paths env (path # paths) st = sbind (remove_from_fts env path st) (\<lambda>st _. delete_paths env paths st)"

fun insert_rows ::
  "('ix, 'v, 'f) env \<Rightarrow> (string \<times> string \<times> string \<times> int \<times> string) list \<Rightarrow> ('ix, 'f) store \<Rightarrow> ('ix, 'f) store \<times> (store_error + unit)" where
  "insert_rows env [] st = (st, Inr ())"
| "insert_rows env ((path, title, doc, rid, raw) # rows) st =
     (case frontmatter_terms raw of
        None \<Rightarrow> (st, Inl Panicked)
      | Some terms \<Rightarrow>
          sbind (on_fts (insert_document (e_nfc env) (e_writer env) path title doc terms rid) st) (\<lambda>st _. insert_rows env rows st))"

record rename_summary =
  rs_documents :: nat
  rs_stale_removed :: nat

text \<open>An error before the commit of the transaction leaves the database as it was.\<close>

definition store_rename_collection ::
  "('ix, 'v, 'f) env \<Rightarrow> string \<Rightarrow> string \<Rightarrow> ('ix, 'f) store \<Rightarrow> ('ix, 'f) store \<times> (store_error + rename_summary)" where
  "store_rename_collection env old new st =
     (case rename_collection old new (st_db st) of
        Inl e \<Rightarrow> (st, Inl (DbErr e))
      | Inr db \<Rightarrow>
          (let rows = text_rows (\<lambda>r. d_collection r = new) db;
               live = active_filepaths db;
               dead = filter (\<lambda>path. path \<notin> live) (indexed_filepaths (st_fts st));
               stale_removed = length (filter (\<lambda>path. \<not> starts_with (old @ ''/'') path) dead)
           in sbind (delete_paths env (map fst rows @ dead) st) (\<lambda>st _.
                sbind (insert_rows env rows st) (\<lambda>st _.
                  (st\<lparr>st_db := db, st_fts := fts_commit (e_toks env) (st_fts st)\<rparr>,
                   Inr \<lparr>rs_documents = length rows, rs_stale_removed = stale_removed\<rparr>)))))"

definition fts_rebuild_pending :: "('ix, 'f) store \<Rightarrow> bool" where
  "fts_rebuild_pending st =
     (if get_config FTS_TOKENIZER_CONFIG_KEY (st_db st) = Some FTS_TOKENIZER_VERSION then False
      else list_ex d_active (documents (st_db st)))"

text \<open>The rows are mapped as they are read; a panic of the frontmatter split ends the process.\<close>

definition rebuild_fts_if_needed :: "('ix, 'v, 'f) env \<Rightarrow> ('ix, 'f) store \<Rightarrow> ('ix, 'f) store \<times> (store_error + bool)" where
  "rebuild_fts_if_needed env st =
     (if \<not> fts_rebuild_pending st then (st, Inr False)
      else
        (let rows = text_rows (\<lambda>_. True) (st_db st) in
         if list_ex (\<lambda>(_, _, _, _, raw). frontmatter_terms raw = None) rows then (st, Inl Panicked)
         else
           sbind (on_fts (fts_rebuild (e_toks env) (e_nfc env) (e_writer env)
               (map (\<lambda>(path, title, doc, rid, raw). Inr (path, title, doc, the (frontmatter_terms raw), rid)) rows)) st)
             (\<lambda>st _. (on_db (set_config FTS_TOKENIZER_CONFIG_KEY FTS_TOKENIZER_VERSION) st, Inr True))))"

end
