(* ===== verification/IndexSpec.thy ===== *)
theory IndexSpec
  imports Indexing DbDocs
begin

text \<open>What keyword indexing does to the database and the full-text index, for every outcome.\<close>

lemma flush_db: "st_db (fst (flush env st)) = st_db st"
  by (auto simp: flush_def Let_def split: prod.splits sum.splits)

lemma add_document_free:
  "add_document_with_frontmatter toks nfc (Inr ()) path title body fm rid fts =
     (run_call toks nfc (Put path title body fm rid) fts, Inr ())"
  by (auto simp: run_call_def add_document_with_frontmatter_def delete_by_filepath_def insert_document_def
      writer_mut_def Let_def split: option.splits)

lemma raw_by_id:
  assumes "db_ok db" and "tab_find doc_key k (documents db) = Some row"
  shows "get_document_raw (d_id row) (set_document_raw (d_id row) raw db) = Some raw"
proof -
  have "tab_find d_id (d_id row) (documents db) = Some row" using assms by (rule find_by_id)
  then show ?thesis
    unfolding get_document_raw_def set_document_raw_def update_docs_def
    by (simp add: tab_find_map)
qed

lemma by_filepath_set_raw [simp]:
  "get_document_by_filepath coll path (set_document_raw rid raw db) = get_document_by_filepath coll path db"
  unfolding get_document_by_filepath_def set_document_raw_def update_docs_def
  by (cases "tab_find doc_key (coll, path) (documents db)") (simp_all add: tab_find_map to_document_def)

lemma set_raw_rest [simp]:
  "contents (set_document_raw rid raw db) = contents db"
  "vectors (set_document_raw rid raw db) = vectors db"
  by (simp_all add: set_document_raw_def update_docs_def)

lemma upsert_content_rest [simp]:
  "documents (upsert_content hash doc now db) = documents db"
  "vectors (upsert_content hash doc now db) = vectors db"
  by (simp_all add: upsert_content_def)

lemma get_content_upsert [simp]:
  "get_content hash (upsert_content hash doc now db) = Some doc"
  unfolding get_content_def upsert_content_def
  by (auto simp: tab_find_upsert_same split: option.splits)

lemma db_ok_set_raw: "db_ok db \<Longrightarrow> db_ok (set_document_raw rid raw db)"
  unfolding set_document_raw_def by (rule db_ok_update_docs) auto

lemma by_filepath_upsert_content [simp]:
  "get_document_by_filepath coll path (upsert_content hash doc now db) = get_document_by_filepath coll path db"
  by (simp add: get_document_by_filepath_def)

lemma get_content_set_raw [simp]: "get_content h (set_document_raw rid raw db) = get_content h db"
  by (simp add: get_content_def)

lemma upsert_document_rest:
  assumes "upsert_document coll path title hash now db = Inr (db', rid)"
  shows "vectors db' = vectors db" and "contents db' = contents db"
  using assms by (auto elim: upsert_document_InrE)

text \<open>What the call promises of the store it leaves.\<close>

definition fts_only_promise ::
  "('ix, 'v, 'f) env \<Rightarrow> string \<Rightarrow> string \<Rightarrow> string \<Rightarrow> string \<Rightarrow> string \<Rightarrow> string \<Rightarrow> ('ix, 'f) store \<Rightarrow> ('ix, 'f) store \<Rightarrow> bool" where
  "fts_only_promise env coll path title txt raw terms st st' \<longleftrightarrow>
     (let hash = content_hash (e_sha env) txt;
          old = get_document_by_filepath coll path (st_db st)
      in db_ok (st_db st') \<and> vectors (st_db st') = vectors (st_db st)
         \<and> get_content hash (st_db st') = Some txt
         \<and> (\<exists>d. get_document_by_filepath coll path (st_db st') = Some d \<and> doc_hash d = hash
              \<and> get_document_raw (doc_id d) (st_db st') = Some raw
              \<and> (if classify old hash = Unchanged then old = Some d \<and> st_fts st' = st_fts st
                 else doc_title d = title \<and> doc_active d
                   \<and> (\<forall>x\<in>set_option old. doc_id d = doc_id x)
                   \<and> st_fts st' = run_call (e_toks env) (e_nfc env) (Put (full_path coll path) title txt terms (doc_id d)) (st_fts st)))
         \<and> (\<forall>coll' path'. (coll', path') \<noteq> (coll, path) \<longrightarrow>
              get_document_by_filepath coll' path' (st_db st') = get_document_by_filepath coll' path' (st_db st)))"

lemma fts_only_unchanged:
  assumes ok: "db_ok (st_db st)"
    and u: "classify (get_document_by_filepath coll path (st_db st)) (content_hash (e_sha env) txt) = Unchanged"
  obtains st' where "index_document_fts_only_with_raw env coll path title txt raw st = (st', Inr Unchanged)"
    and "fts_only_promise env coll path title txt raw terms st st'"
proof -
  let ?hash = "content_hash (e_sha env) txt" and ?now = "rfc3339_now env"
  let ?db = "upsert_content ?hash txt ?now (st_db st)"
  from u obtain row where row: "tab_find doc_key (coll, path) (documents (st_db st)) = Some row" "d_hash row = ?hash"
    by (auto simp: classify_def get_document_by_filepath_def to_document_def split: option.splits if_splits)
  have old: "get_document_by_filepath coll path (st_db st) = Some (to_document row)"
    by (simp add: get_document_by_filepath_def row)
  have ok1: "db_ok ?db" using ok by (rule db_ok_upsert_content)
  have row1: "tab_find doc_key (coll, path) (documents ?db) = Some row" by (simp add: row)
  let ?st' = "on_db (set_document_raw (d_id row) raw) (on_db (upsert_content ?hash txt ?now) st)"
  have r: "index_document_fts_only_with_raw env coll path title txt raw st = (?st', Inr Unchanged)"
    using u old by (simp add: index_document_fts_only_with_raw_def Let_def on_db_def to_document_def)
  have p: "fts_only_promise env coll path title txt raw terms st ?st'"
    unfolding fts_only_promise_def Let_def
    using u old row(2) raw_by_id [OF ok1 row1] db_ok_set_raw [OF ok1] by (simp add: on_db_def to_document_def)
  show thesis using r p by (rule that)
qed

lemma fts_only_changed:
  assumes ok: "db_ok (st_db st)" and w: "e_writer env = Inr ()" and fm: "frontmatter_terms raw = Some terms"
    and u: "classify (get_document_by_filepath coll path (st_db st)) (content_hash (e_sha env) txt) = outcome" "outcome \<noteq> Unchanged"
  obtains st' where "index_document_fts_only_with_raw env coll path title txt raw st = (st', Inr outcome)"
    and "fts_only_promise env coll path title txt raw terms st st'"
proof -
  let ?hash = "content_hash (e_sha env) txt" and ?now = "rfc3339_now env"
  let ?db = "upsert_content ?hash txt ?now (st_db st)"
  have ok1: "db_ok ?db" using ok by (rule db_ok_upsert_content)
  have "get_content ?hash ?db \<noteq> None" by simp
  then obtain db2 rid where r2: "upsert_document coll path title ?hash ?now ?db = Inr (db2, rid)"
    unfolding upsert_document_def Let_def by simp
  have ok2: "db_ok db2" using ok1 r2 by (rule db_ok_upsert_document)
  obtain row where row: "tab_find doc_key (coll, path) (documents db2) = Some row" "d_id row = rid"
    "to_document row = \<lparr>doc_id = rid, doc_collection = coll, doc_path = path, doc_title = title, doc_hash = ?hash, doc_active = True\<rparr>"
    using r2 by (rule upsert_document_row)
  have d: "get_document_by_filepath coll path db2 = Some (to_document row)"
    by (simp add: get_document_by_filepath_def row(1))
  have same: "\<forall>x\<in>set_option (get_document_by_filepath coll path (st_db st)). rid = doc_id x"
    using r2 by (auto elim!: upsert_document_InrE simp: get_document_by_filepath_def to_document_def)
  have other: "\<forall>coll' path'. (coll', path') \<noteq> (coll, path) \<longrightarrow>
      get_document_by_filepath coll' path' db2 = get_document_by_filepath coll' path' (st_db st)"
    using tab_find_doc(2) [OF r2] by (simp add: get_document_by_filepath_def)
  let ?put = "Put (full_path coll path) title txt terms rid"
  let ?st' = "st\<lparr>st_db := set_document_raw rid raw db2, st_fts := run_call (e_toks env) (e_nfc env) ?put (st_fts st)\<rparr>"
  have r: "index_document_fts_only_with_raw env coll path title txt raw st = (?st', Inr outcome)"
    using u r2 fm by (simp add: index_document_fts_only_with_raw_def Let_def on_db_def on_fts_def w add_document_free)
  have p: "fts_only_promise env coll path title txt raw terms st ?st'"
    unfolding fts_only_promise_def Let_def
    using u d row(2,3) same other raw_by_id [OF ok2 row(1), of raw] db_ok_set_raw [OF ok2] upsert_document_rest [OF r2]
    by (simp add: get_content_def [of _ db2] get_content_def [symmetric])
  show thesis using r p by (rule that)
qed


definition sample_env :: "(nat \<times> (nat \<times> nat) list, nat, nat \<times> (nat \<times> nat) list) env" where
  "sample_env =
     \<lparr>e_us = list_usearch, e_sha = (\<lambda>s. s), e_uc = ascii_unicode,
      e_feats = [], e_parse = (\<lambda>_ _. None), e_toks = (\<lambda>p. [(0, p)]), e_nfc = (\<lambda>s. s),
      e_embed = (\<lambda>ts. Inr (map length ts)), e_kind = ''k'', e_model = ''m'', e_context = 2048, e_writer = Inr (),
      e_io = \<lparr>si_sync = True, si_rename = True, si_dir = True\<rparr>, e_pid = 1, e_secs = 0\<rparr>"

definition empty_store :: "(nat \<times> (nat \<times> nat) list, nat \<times> (nat \<times> nat) list) store" where
  "empty_store =
     \<lparr>st_db = empty_db, st_fts = fts_create, st_hnsw = \<lparr>vi_inner = (0, []), vi_next = 0, vi_ro = False\<rparr>,
      st_file = ''h'', st_fs = \<lparr>fs_dir = Map.empty, fs_data = (\<lambda>_. (0, [])), fs_synced = (\<lambda>_. True), fs_disk = [Map.empty], fs_fresh = 0\<rparr>,
      st_staged = [], st_dirty = False, st_seen = (None, None)\<rparr>"


text \<open>A document whose file was removed and then restored unchanged stays inactive and unsearchable.\<close>

lemma restored_file_stays_inactive:
  assumes ok: "db_ok (st_db st)" and d: "get_document_by_filepath coll path (st_db st) = Some d"
    and h: "doc_hash d = content_hash (e_sha env) txt" and i: "\<not> doc_active d"
  shows "\<exists>st'. index_document_fts_only_with_raw env coll path title txt raw st = (st', Inr Unchanged)
    \<and> get_active_document_by_filepath coll path (st_db st') = None \<and> st_fts st' = st_fts st"
proof -
  have u: "classify (get_document_by_filepath coll path (st_db st)) (content_hash (e_sha env) txt) = Unchanged"
    by (simp add: classify_def d h)
  show ?thesis
    by (rule fts_only_unchanged [OF ok u, of title raw "[]"])
      (use u d i in \<open>auto simp: fts_only_promise_def Let_def get_active_document_by_filepath_def\<close>)
qed

end
