(* ===== verification/EmbedReuse.thy ===== *)
theory EmbedReuse
  imports IndexSpec
begin

text \<open>
  Reuse is sound: whatever vectors are staged or stored, a document's chunks end up with the vectors the
  model gives their texts, and only the texts without a usable vector are encoded.
\<close>

text \<open>
  What usearch documents: \<open>used\<close> are the ids ever added and \<open>stored\<close> the vectors that can be read
  back. \<open>reserve\<close> makes room and keeps both; adding under an unused id, with room, stores the vector.
\<close>

definition ann_laws :: "('ix, 'v, 'f) usearch \<Rightarrow> ('ix \<Rightarrow> nat set) \<Rightarrow> ('ix \<Rightarrow> nat \<Rightarrow> 'v option) \<Rightarrow> bool" where
  "ann_laws us used stored \<longleftrightarrow>
     (\<forall>n ix. \<exists>ix'. us_reserve us n ix = (ix', Inr ()) \<and> used ix' = used ix \<and> stored ix' = stored ix
        \<and> us_size us ix' = us_size us ix \<and> n \<le> us_capacity us ix')
     \<and> (\<forall>k x ix. k \<notin> used ix \<and> us_size us ix < us_capacity us ix \<longrightarrow>
          (\<exists>ix'. us_add us k x ix = (ix', Inr ()) \<and> used ix' = insert k (used ix) \<and> stored ix' = (stored ix)(k \<mapsto> x)
             \<and> us_size us ix' = Suc (us_size us ix) \<and> us_capacity us ix' = us_capacity us ix))
     \<and> (\<forall>k ix. case stored ix k of Some x \<Rightarrow> us_get us k ix = Inr (1, x) | None \<Rightarrow> \<exists>y. us_get us k ix = Inr (0, y))"

text \<open>\<open>E\<close> is the model: the vector of a text. Every staged or keyed vector that can be read is the
  model's vector of every text with that key.\<close>

definition key_of :: "('ix, 'v, 'f) env \<Rightarrow> string \<Rightarrow> string" where
  "key_of env t = store_vector_key env (chunk_text_hash (e_sha env) t)"

definition keyed :: "('ix, 'v, 'f) env \<Rightarrow> ('ix, 'f) store \<Rightarrow> string \<Rightarrow> nat \<Rightarrow> bool" where
  "keyed env st k vid \<longleftrightarrow>
     (k, vid) \<in> set (st_staged st)
     \<or> (\<exists>v\<in>set (vectors (st_db st)). v_key v = Some k \<and> v_model v = e_model env \<and> map_option as_u64 (v_vid v) = Some vid)"

definition faithful :: "('ix, 'v, 'f) env \<Rightarrow> (string \<Rightarrow> 'v) \<Rightarrow> ('ix, 'f) store \<Rightarrow> bool" where
  "faithful env E st \<longleftrightarrow>
     (\<forall>t vid x. keyed env st (key_of env t) vid \<longrightarrow> vi_get_vector (e_us env) vid (st_hnsw st) = Inr x \<longrightarrow> x = E t)"

lemma in_map_filter: "y \<in> set (List.map_filter f xs) \<longleftrightarrow> (\<exists>x\<in>set xs. f x = Some y)"
  by (induction xs) (auto simp: List.map_filter_def split: option.splits)

lemma first_usable:
  assumes "(case List.map_filter g l of [] \<Rightarrow> None | x # _ \<Rightarrow> Some x) = Some x"
  shows "\<exists>v\<in>set l. g v = Some x"
proof -
  have "x \<in> set (List.map_filter g l)" using assms by (cases "List.map_filter g l") auto
  then show ?thesis by (simp only: in_map_filter)
qed

lemma if_min:
  fixes l :: "int list"
  assumes "(if l = [] then None else Some (fold min (tl l) (hd l))) = Some i"
  shows "i \<in> set l"
proof (cases l)
  case (Cons y ys)
  then have "i = Min (set (y # ys))" using assms Min.set_eq_fold [of y ys] by simp
  then show ?thesis using Cons Min_in [of "set (y # ys)"] by simp
qed (use assms in simp)

lemma usable_Some: "(case r of Inr x \<Rightarrow> Some x | Inl _ \<Rightarrow> None) = Some x \<longleftrightarrow> r = Inr x"
  by (cases r) auto

lemma vids_min_in:
  assumes "reusable_vid db model k = Some i"
  shows "\<exists>v\<in>set (vectors db). v_key v = Some k \<and> v_model v = model \<and> v_vid v = Some i"
proof -
  let ?l = "concat (map (\<lambda>v. case v_vid v of Some i \<Rightarrow> [i] | None \<Rightarrow> [])
      (filter (\<lambda>v. v_key v = Some k \<and> v_model v = model) (vectors db)))"
  have "(if ?l = [] then None else Some (fold min (tl ?l) (hd ?l))) = Some i"
    using assms unfolding reusable_vid_def Let_def .
  then have "i \<in> set ?l" by (rule if_min)
  then show ?thesis by (auto split: option.splits)
qed

lemma reuse_slot_sound:
  assumes f: "faithful env E st" and r: "reuse_slot env (reusable_vector_vids keys (e_model env) (st_db st)) st (key_of env t) = Some x"
  shows "x = E t"
proof -
  let ?slots = "[map_of (st_staged st) (key_of env t), reusable_vector_vids keys (e_model env) (st_db st) (key_of env t)]"
  obtain vid where v: "vid \<in> set (List.map_filter (\<lambda>v. v) ?slots)" and g: "vi_get_vector (e_us env) vid (st_hnsw st) = Inr x"
    using first_usable [OF r [unfolded reuse_slot_def]] unfolding usable_Some by blast
  then have v: "Some vid \<in> set ?slots" by (auto simp only: in_map_filter)
  have "keyed env st (key_of env t) vid"
  proof (cases "map_of (st_staged st) (key_of env t) = Some vid")
    case True
    then show ?thesis by (auto simp: keyed_def dest: map_of_SomeD)
  next
    case False
    then have "reusable_vector_vids keys (e_model env) (st_db st) (key_of env t) = Some vid"
      using v by auto
    then obtain i where i: "reusable_vid (st_db st) (e_model env) (key_of env t) = Some i" "vid = as_u64 i"
      by (auto simp: reusable_vector_vids_def split: if_splits)
    show ?thesis using vids_min_in [OF i(1)] i(2) by (auto simp: keyed_def)
  qed
  then show ?thesis using f g unfolding faithful_def by blast
qed

subsection \<open>Filling the slots\<close>

lemma fill_slots:
  "fold (\<lambda>(i, x) slots. slots[i := Some x]) (zip is (map f is)) slots
     = map (\<lambda>i. if i \<in> set is then Some (f i) else slots ! i) [0..<length slots]"
proof (induction "is" arbitrary: slots)
  case Nil
  then show ?case by (simp add: map_nth)
next
  case (Cons i js)
  have "fold (\<lambda>(i, x) slots. slots[i := Some x]) (zip js (map f js)) (slots[i := Some (f i)])
      = map (\<lambda>j. if j \<in> set js then Some (f j) else slots[i := Some (f i)] ! j) [0..<length slots]"
    using Cons.IH [of "slots[i := Some (f i)]"] by simp
  also have "\<dots> = map (\<lambda>j. if j \<in> set (i # js) then Some (f j) else slots ! j) [0..<length slots]"
    by (intro map_cong refl) (auto simp: nth_list_update)
  finally show ?case by simp
qed

lemma map_filter_Somes: "List.map_filter (\<lambda>v. v) (map (\<lambda>i. Some (f i)) xs) = map f xs"
  by (induction xs) (simp_all add: List.map_filter_def)

text \<open>The encoder is only asked for the texts without a usable vector.\<close>

definition encodes_missing :: "('ix, 'v, 'f) env \<Rightarrow> (string \<Rightarrow> 'v) \<Rightarrow> string list \<Rightarrow> ('ix, 'f) store \<Rightarrow> bool" where
  "encodes_missing env E texts st \<longleftrightarrow>
     (let stored = reusable_vector_vids (map (key_of env) texts) (e_model env) (st_db st);
          missing = filter (\<lambda>t. reuse_slot env stored st (key_of env t) = None) texts
      in missing \<noteq> [] \<longrightarrow> e_embed env missing = Inr (map E missing))"

lemma filter_nth: "map (\<lambda>i. xs ! i) (filter (\<lambda>i. P (xs ! i)) [0..<length xs]) = filter P xs"
proof -
  have "filter P (map (\<lambda>i. xs ! i) [0..<length xs]) = map (\<lambda>i. xs ! i) (filter (P \<circ> (\<lambda>i. xs ! i)) [0..<length xs])"
    by (rule filter_map)
  then show ?thesis by (simp only: map_nth comp_def)
qed

lemma embed_passages_sound:
  assumes f: "faithful env E st" and enc: "encodes_missing env E (map chunk_text chunks) st"
    and keys: "keys = map (\<lambda>c. key_of env (chunk_text c)) chunks"
  shows "embed_passages_reusing env chunks keys (e_model env) st = Inr (map (\<lambda>c. E (chunk_text c)) chunks)"
proof -
  define stored where "stored = reusable_vector_vids keys (e_model env) (st_db st)"
  define slots where "slots = map (reuse_slot env stored st) keys"
  define missing where "missing = filter (\<lambda>i. slots ! i = None) [0..<length slots]"
  let ?f = "\<lambda>i. E (chunk_text (chunks ! i))"
  have len: "length slots = length chunks" by (simp add: slots_def keys)
  have slot: "slots ! i = Some x \<Longrightarrow> x = ?f i" if "i < length chunks" for i x
    using that reuse_slot_sound [OF f, of keys "chunk_text (chunks ! i)" x] by (simp add: slots_def stored_def keys)
  have full: "map (\<lambda>i. if i \<in> set missing then Some (?f i) else slots ! i) [0..<length slots] = map (\<lambda>i. Some (?f i)) [0..<length chunks]"
    unfolding len using slot by (intro map_cong refl) (auto simp: missing_def len)
  have result: "List.map_filter (\<lambda>v. v) (map (\<lambda>i. Some (?f i)) [0..<length chunks]) = map (\<lambda>c. E (chunk_text c)) chunks"
    unfolding map_filter_Somes by (rule nth_equalityI) simp_all
  show ?thesis
  proof (cases "missing = []")
    case True
    have "slots = map (\<lambda>i. slots ! i) [0..<length slots]" by (simp add: map_nth)
    then have "slots = map (\<lambda>i. Some (?f i)) [0..<length chunks]" using full True by simp
    then have "List.map_filter (\<lambda>v. v) slots = map (\<lambda>c. E (chunk_text c)) chunks" using result by simp
    then show ?thesis
      using True unfolding embed_passages_reusing_def Let_def stored_def [symmetric] slots_def [symmetric] missing_def [symmetric]
      by simp
  next
    case False
    have texts: "map (\<lambda>i. chunk_text (chunks ! i)) missing = filter (\<lambda>t. reuse_slot env stored st (key_of env t) = None) (map chunk_text chunks)"
    proof -
      have "missing = filter (\<lambda>i. reuse_slot env stored st (key_of env (map chunk_text chunks ! i)) = None) [0..<length (map chunk_text chunks)]"
        unfolding missing_def len length_map by (intro filter_cong refl) (simp add: slots_def keys)
      then have "map (\<lambda>i. map chunk_text chunks ! i) missing = filter (\<lambda>t. reuse_slot env stored st (key_of env t) = None) (map chunk_text chunks)"
        using filter_nth [of "map chunk_text chunks" "\<lambda>t. reuse_slot env stored st (key_of env t) = None"] by simp
      moreover have "map (\<lambda>i. map chunk_text chunks ! i) missing = map (\<lambda>i. chunk_text (chunks ! i)) missing"
        by (intro map_cong refl) (auto simp: missing_def len)
      ultimately show ?thesis by simp
    qed
    have "map (key_of env) (map chunk_text chunks) = keys" by (simp add: keys)
    then have "e_embed env (map (\<lambda>i. chunk_text (chunks ! i)) missing) = Inr (map ?f missing)"
      using enc False unfolding encodes_missing_def Let_def texts [symmetric] stored_def [symmetric]
      by (simp add: comp_def texts [symmetric] stored_def [symmetric])
    then show ?thesis
      using False fill_slots [of missing ?f slots] result full
      unfolding embed_passages_reusing_def Let_def stored_def [symmetric] slots_def [symmetric] missing_def [symmetric]
      by simp
  qed
qed

subsection \<open>Adding the vectors\<close>

definition index_ready :: "('ix, 'v, 'f) usearch \<Rightarrow> ('ix \<Rightarrow> nat set) \<Rightarrow> 'ix vector_index \<Rightarrow> bool" where
  "index_ready us used vi \<longleftrightarrow>
     \<not> vi_ro vi \<and> us_size us (vi_inner vi) \<le> us_capacity us (vi_inner vi) \<and> (\<forall>i\<ge>vi_next vi. i \<notin> used (vi_inner vi))"

lemma vi_get_stored:
  assumes "ann_laws us used stored"
  shows "vi_get_vector us k vi = Inr x \<longleftrightarrow> stored (vi_inner vi) k = Some x"
proof -
  have law: "case stored (vi_inner vi) k of Some x \<Rightarrow> us_get us k (vi_inner vi) = Inr (1, x)
      | None \<Rightarrow> \<exists>y. us_get us k (vi_inner vi) = Inr (0, y)"
    using assms unfolding ann_laws_def by blast
  then show ?thesis
    by (cases "stored (vi_inner vi) k") (auto simp: vi_get_vector_def map_err_def)
qed

lemma grow_ready:
  assumes "ann_laws us used stored" and "us_size us ix \<le> us_capacity us ix"
  obtains ix' where "vi_grow us ix = (ix', Inr ())" and "used ix' = used ix" and "stored ix' = stored ix"
    and "us_size us ix' < us_capacity us ix'"
proof (cases "us_capacity us ix \<le> us_size us ix")
  case True
  obtain ix' where "us_reserve us (us_capacity us ix * 2 + 1) ix = (ix', Inr ())" "used ix' = used ix" "stored ix' = stored ix"
    "us_size us ix' = us_size us ix" "us_capacity us ix * 2 + 1 \<le> us_capacity us ix'"
    using assms(1) unfolding ann_laws_def by blast
  then show thesis using that True assms(2) by (simp add: vi_grow_def)
next
  case False
  then show thesis using that by (simp add: vi_grow_def)
qed

lemma add_ready:
  assumes laws: "ann_laws us used stored" and r: "index_ready us used vi" and n: "Suc (vi_next vi) < 2 ^ 64"
  obtains vi' where "vi_add us x vi = (vi', Inr (vi_next vi))" and "index_ready us used vi'"
    and "vi_next vi' = Suc (vi_next vi)" and "stored (vi_inner vi') = (stored (vi_inner vi))(vi_next vi \<mapsto> x)"
proof -
  have cap: "us_size us (vi_inner vi) \<le> us_capacity us (vi_inner vi)" using r by (simp add: index_ready_def)
  obtain ix1 where g: "vi_grow us (vi_inner vi) = (ix1, Inr ())" "used ix1 = used (vi_inner vi)" "stored ix1 = stored (vi_inner vi)"
    "us_size us ix1 < us_capacity us ix1"
    using grow_ready [OF laws cap] .
  have free: "vi_next vi \<notin> used ix1" using r g(2) by (simp add: index_ready_def)
  obtain ix2 where a: "us_add us (vi_next vi) x ix1 = (ix2, Inr ())" "used ix2 = insert (vi_next vi) (used ix1)"
    "stored ix2 = (stored ix1)(vi_next vi \<mapsto> x)" "us_size us ix2 = Suc (us_size us ix1)" "us_capacity us ix2 = us_capacity us ix1"
    using laws free g(4) unfolding ann_laws_def by blast
  let ?vi' = "vi\<lparr>vi_inner := ix2, vi_next := Suc (vi_next vi)\<rparr>"
  have t: "MAX_COLLISION_RETRIES = Suc 1023" by (simp add: MAX_COLLISION_RETRIES_def)
  have loop: "add_loop us x (Suc tries) vi = (?vi', Inr (vi_next vi))" for tries
    using g(1) a(1) succ64_small [OF n] by simp
  have "\<not> vi_ro vi" using r by (simp add: index_ready_def)
  then have "vi_add us x vi = (?vi', Inr (vi_next vi))"
    unfolding vi_add_def t loop by (simp only: if_False)
  moreover have "index_ready us used ?vi'" using r a g by (auto simp: index_ready_def)
  ultimately show thesis using that a(3) g(3) by simp
qed

lemma add_all_ready:
  assumes "ann_laws us used stored" and "index_ready us used vi" and "vi_next vi + length xs < 2 ^ 64"
  shows "\<exists>vi'. add_all_loop (vi_add us) rm ids xs vi = (vi', Inr (ids @ [vi_next vi ..< vi_next vi + length xs]))
    \<and> index_ready us used vi' \<and> vi_next vi' = vi_next vi + length xs
    \<and> (\<forall>k. stored (vi_inner vi') k =
        (if vi_next vi \<le> k \<and> k < vi_next vi + length xs then Some (xs ! (k - vi_next vi)) else stored (vi_inner vi) k))"
  using assms(2,3)
proof (induction xs arbitrary: vi ids)
  case (Cons x xs)
  have n: "Suc (vi_next vi) < 2 ^ 64" using Cons.prems(2) by simp
  obtain vi1 where v: "vi_add us x vi = (vi1, Inr (vi_next vi))" "index_ready us used vi1" "vi_next vi1 = Suc (vi_next vi)"
    "stored (vi_inner vi1) = (stored (vi_inner vi))(vi_next vi \<mapsto> x)"
    using add_ready [OF assms(1) Cons.prems(1) n] .
  have "vi_next vi1 + length xs < 2 ^ 64" using Cons.prems(2) v(3) by simp
  then obtain vi' where IH: "add_all_loop (vi_add us) rm (ids @ [vi_next vi]) xs vi1 =
        (vi', Inr ((ids @ [vi_next vi]) @ [vi_next vi1 ..< vi_next vi1 + length xs]))"
    "index_ready us used vi'" "vi_next vi' = vi_next vi1 + length xs"
    "\<forall>k. stored (vi_inner vi') k =
        (if vi_next vi1 \<le> k \<and> k < vi_next vi1 + length xs then Some (xs ! (k - vi_next vi1)) else stored (vi_inner vi1) k)"
    using Cons.IH [OF v(2)] by blast
  have u: "[vi_next vi ..< vi_next vi + length (x # xs)] = vi_next vi # [Suc (vi_next vi) ..< Suc (vi_next vi) + length xs]"
    by (subst upt_conv_Cons) simp_all
  have "add_all_loop (vi_add us) rm ids (x # xs) vi = (vi', Inr (ids @ [vi_next vi ..< vi_next vi + length (x # xs)]))"
    unfolding u using v(1,3) IH(1) by (simp del: upt_Suc)
  moreover have "stored (vi_inner vi') k =
        (if vi_next vi \<le> k \<and> k < vi_next vi + length (x # xs) then Some ((x # xs) ! (k - vi_next vi)) else stored (vi_inner vi) k)" for k
    using IH(4) v(3,4) by (auto simp: nth_Cons' Suc_le_eq)
  ultimately show ?case using IH(2,3) v(3) by simp
qed auto

subsection \<open>Embedding a document\<close>

definition embed_inv :: "('ix, 'v, 'f) env \<Rightarrow> (string \<Rightarrow> 'v) \<Rightarrow> ('ix \<Rightarrow> nat set) \<Rightarrow> ('ix, 'f) store \<Rightarrow> bool" where
  "embed_inv env E used st \<longleftrightarrow>
     faithful env E st \<and> index_ready (e_us env) used (st_hnsw st)
     \<and> (\<forall>k vid. keyed env st k vid \<longrightarrow> vid < next_vid st)"

lemma set_stage_vids: "set (fold stage_vid kvs staged) \<subseteq> set staged \<union> set kvs"
proof (induction kvs arbitrary: staged)
  case (Cons kv kvs)
  have "set (stage_vid kv staged) \<subseteq> insert kv (set staged)" by (simp add: stage_vid_def subset_insertI)
  then show ?case using Cons.IH [of "stage_vid kv staged"] by auto
qed simp

lemma embed_inv_staged:
  assumes laws: "ann_laws (e_us env) used stored" and inv: "embed_inv env E used st"
    and ready: "index_ready (e_us env) used vi'" and nxt: "vi_next vi' = next_vid st + length texts"
    and got: "\<And>k. stored (vi_inner vi') k =
        (if next_vid st \<le> k \<and> k < next_vid st + length texts then Some (E (texts ! (k - next_vid st))) else stored (vi_inner (st_hnsw st)) k)"
    and coll: "\<forall>t t'. key_of env t = key_of env t' \<longrightarrow> E t = E t'"
  defines "st' \<equiv> st\<lparr>st_hnsw := vi', st_dirty := True,
      st_staged := fold stage_vid (zip (map (key_of env) texts) [next_vid st ..< next_vid st + length texts]) (st_staged st)\<rparr>"
  shows "embed_inv env E used st'"
proof -
  have cases: "keyed env st k vid \<or> (\<exists>i<length texts. k = key_of env (texts ! i) \<and> vid = next_vid st + i)" if "keyed env st' k vid" for k vid
  proof -
    let ?new = "zip (map (key_of env) texts) [next_vid st ..< next_vid st + length texts]"
    have "keyed env st k vid \<or> (k, vid) \<in> set ?new"
      using that set_stage_vids [of ?new "st_staged st"] unfolding keyed_def st'_def by auto
    moreover have "\<exists>i<length texts. k = key_of env (texts ! i) \<and> vid = next_vid st + i" if "(k, vid) \<in> set ?new"
      using that by (auto simp: in_set_zip)
    ultimately show ?thesis by blast
  qed
  have old: "vid < next_vid st" if "keyed env st k vid" for k vid using inv that by (auto simp: embed_inv_def)
  have "x = E t" if k: "keyed env st' (key_of env t) vid" and g: "vi_get_vector (e_us env) vid (st_hnsw st') = Inr x" for t vid x
  proof -
    have x: "stored (vi_inner vi') vid = Some x" using g vi_get_stored [OF laws] by (simp add: st'_def)
    from cases [OF k] show ?thesis
    proof
      assume o: "keyed env st (key_of env t) vid"
      then have "vi_get_vector (e_us env) vid (st_hnsw st) = Inr x"
        using x old [OF o] by (simp add: got vi_get_stored [OF laws])
      then show ?thesis using inv o unfolding embed_inv_def faithful_def by blast
    next
      assume "\<exists>i<length texts. key_of env t = key_of env (texts ! i) \<and> vid = next_vid st + i"
      then obtain i where i: "i < length texts" "key_of env t = key_of env (texts ! i)" "vid = next_vid st + i" by blast
      have "E t = E (texts ! i)" using coll i(2) by blast
      moreover have "x = E (texts ! i)" using x i(1,3) by (simp add: got)
      ultimately show ?thesis by simp
    qed
  qed
  moreover have "vid < next_vid st'" if "keyed env st' k vid" for k vid
    using cases [OF that] old nxt by (fastforce simp: st'_def next_vid_def)
  ultimately show ?thesis using ready by (simp add: embed_inv_def faithful_def st'_def)
qed

text \<open>C24: Embedding a document gives its chunks, in order, new vector ids whose vectors are the model's
  vectors of the chunks' texts, whichever of them were copied from staged or stored vectors; only
  texts without such a vector are encoded. The database is not written, every older vector stays
  readable, and the state stays one from which the next document can be embedded the same way.
  This rests on usearch's documented behaviour, on keys that do not collide, and on ids above
  every id on record.\<close>
theorem embed_document_sound:
  assumes laws: "ann_laws (e_us env) used stored" and inv: "embed_inv env E used st"
    and coll: "\<forall>t t'. key_of env t = key_of env t' \<longrightarrow> E t = E t'"
    and chunks: "chunk_document_for_path (e_uc env) (e_feats env) (e_parse env) path body = Some chunks"
    and enc: "encodes_missing env E (map chunk_text chunks) st"
    and room: "next_vid st + length chunks < 2 ^ 64"
  shows "\<exists>st' pvs. embed_document_chunks env hash path body st = (st', Inr pvs)
    \<and> embed_inv env E used st' \<and> st_db st' = st_db st
    \<and> map (\<lambda>p. (pv_seq p, pv_pos p, pv_vid p, pv_key p)) pvs
        = map (\<lambda>i. (int i, int (chunk_pos (chunks ! i)), next_vid st + i, key_of env (chunk_text (chunks ! i)))) [0..<length chunks]
    \<and> (\<forall>i<length chunks. vi_get_vector (e_us env) (next_vid st + i) (st_hnsw st') = Inr (E (chunk_text (chunks ! i))))
    \<and> (\<forall>vid<next_vid st. \<forall>x. vi_get_vector (e_us env) vid (st_hnsw st') = Inr x
         \<longleftrightarrow> vi_get_vector (e_us env) vid (st_hnsw st) = Inr x)"
proof -
  let ?texts = "map chunk_text chunks" and ?xs = "map (\<lambda>c. E (chunk_text c)) chunks"
  let ?keys = "map (\<lambda>c. key_of env (chunk_text c)) chunks"
  let ?rm = "\<lambda>vid vi. fst (vi_remove (e_us env) vid vi)"
  have emb: "embed_passages_reusing env chunks ?keys (e_model env) st = Inr ?xs"
    using inv enc by (intro embed_passages_sound refl) (simp_all add: embed_inv_def)
  have ready: "index_ready (e_us env) used (st_hnsw st)" using inv by (simp add: embed_inv_def)
  have room': "vi_next (st_hnsw st) + length ?xs < 2 ^ 64" using room by (simp add: next_vid_def)
  obtain vi' where a: "add_all_loop (vi_add (e_us env)) ?rm [] ?xs (st_hnsw st) = (vi', Inr [next_vid st ..< next_vid st + length chunks])"
    "index_ready (e_us env) used vi'" "vi_next vi' = next_vid st + length ?texts"
    "\<And>k. stored (vi_inner vi') k =
        (if next_vid st \<le> k \<and> k < next_vid st + length ?texts then Some (?xs ! (k - next_vid st)) else stored (vi_inner (st_hnsw st)) k)"
    using add_all_ready [OF laws ready room', of ?rm "[]"] by (auto simp: next_vid_def)
  have got: "stored (vi_inner vi') k =
      (if next_vid st \<le> k \<and> k < next_vid st + length ?texts then Some (E (?texts ! (k - next_vid st))) else stored (vi_inner (st_hnsw st)) k)" for k
    using a(4) [of k] by (auto simp: nth_map)
  let ?ids = "[next_vid st ..< next_vid st + length chunks]"
  let ?st' = "st\<lparr>st_hnsw := vi', st_dirty := True,
      st_staged := fold stage_vid (zip (map (key_of env) ?texts) [next_vid st ..< next_vid st + length ?texts]) (st_staged st)\<rparr>"
  have inv': "embed_inv env E used ?st'" by (rule embed_inv_staged [OF laws inv a(2,3) got coll])
  obtain pvs where r: "embed_document_chunks env hash path body st = (?st', Inr pvs)"
    and pvs: "map (\<lambda>p. (pv_seq p, pv_pos p, pv_vid p, pv_key p)) pvs
        = map (\<lambda>(seq, (c, vid)). (int seq, int (chunk_pos c), vid, ?keys ! seq)) (enumerate 0 (zip chunks ?ids))"
    using emb a(1) chunks
    by (simp add: embed_document_chunks_def Let_def key_of_def [symmetric] comp_def on_hnsw_def add_all_or_rollback_def
        map_map case_prod_unfold)
  have "map (\<lambda>(seq, (c, vid)). (int seq, int (chunk_pos c), vid, ?keys ! seq)) (enumerate 0 (zip chunks ?ids))
      = map (\<lambda>i. (int i, int (chunk_pos (chunks ! i)), next_vid st + i, key_of env (chunk_text (chunks ! i)))) [0..<length chunks]"
    by (rule nth_equalityI) (simp_all add: nth_enumerate_eq)
  moreover have "vi_get_vector (e_us env) (next_vid st + i) (st_hnsw ?st') = Inr (E (chunk_text (chunks ! i)))" if "i < length chunks" for i
    using that by (simp add: vi_get_stored [OF laws] got)
  moreover have "(vi_get_vector (e_us env) vid (st_hnsw ?st') = Inr x) = (vi_get_vector (e_us env) vid (st_hnsw st) = Inr x)"
    if "vid < next_vid st" for vid x
    using that by (simp add: vi_get_stored [OF laws] got)
  ultimately show ?thesis
    using r pvs inv' by (intro exI [of _ ?st'] exI [of _ pvs] conjI) simp_all
qed

lemma list_usearch_laws: "ann_laws list_usearch (\<lambda>ix. fst ` set (snd ix)) (\<lambda>ix. map_of (snd ix))"
  by (auto simp: ann_laws_def list_usearch_def split: option.splits)

text \<open>A model whose vectors depend on a text through its key only.\<close>

definition sample_model :: "string \<Rightarrow> nat" where
  "sample_model t = byte (hd (vector_key rev ''k'' ''m'' 2048 (chunk_text_hash rev t)))"

definition rev_env :: "(nat \<times> (nat \<times> nat) list, nat, nat \<times> (nat \<times> nat) list) env" where
  "rev_env = sample_env\<lparr>e_sha := rev, e_embed := (\<lambda>ts. Inr (map sample_model ts))\<rparr>"

lemma embed_document_sound_witness:
  "\<exists>st' pvs. embed_document_chunks rev_env ''h'' ''a.md'' ''hello'' empty_store = (st', Inr pvs)
     \<and> map pv_vid pvs = [0] \<and> vi_get_vector list_usearch 0 (st_hnsw st') = Inr (sample_model ''hello'')"
proof -
  let ?chunks = "[\<lparr>chunk_text = ''hello'', chunk_pos = 0\<rparr>]"
  have env: "e_us rev_env = list_usearch" "e_uc rev_env = ascii_unicode" "e_feats rev_env = []" "e_parse rev_env = (\<lambda>_ _. None)"
    by (simp_all add: rev_env_def sample_env_def)
  have key: "key_of rev_env t = vector_key rev ''k'' ''m'' 2048 (chunk_text_hash rev t)" for t
    by (simp add: key_of_def store_vector_key_def rev_env_def sample_env_def)
  have coll: "\<forall>t t'. key_of rev_env t = key_of rev_env t' \<longrightarrow> sample_model t = sample_model t'"
    by (simp add: key sample_model_def)
  have chunks: "chunk_document_for_path (e_uc rev_env) (e_feats rev_env) (e_parse rev_env) ''a.md'' ''hello'' = Some ?chunks"
    unfolding env by code_simp
  have laws: "ann_laws (e_us rev_env) (\<lambda>ix. fst ` set (snd ix)) (\<lambda>ix. map_of (snd ix))"
    unfolding env by (rule list_usearch_laws)
  have inv: "embed_inv rev_env sample_model (\<lambda>ix. fst ` set (snd ix)) empty_store"
    by (auto simp: embed_inv_def faithful_def keyed_def index_ready_def empty_store_def empty_db_def env list_usearch_def)
  have enc: "encodes_missing rev_env sample_model (map chunk_text ?chunks) empty_store"
    by (simp add: encodes_missing_def Let_def rev_env_def)
  have room: "next_vid empty_store + length ?chunks < 2 ^ 64" by (simp add: next_vid_def empty_store_def)
  note sound = embed_document_sound [OF laws inv coll chunks enc room, of "''h''"]
  have nxt: "next_vid empty_store = 0" by (simp add: next_vid_def empty_store_def)
  have ids: "map pv_vid pvs = map (\<lambda>(a, b, v, k). v) (map (\<lambda>p. (pv_seq p, pv_pos p, pv_vid p, pv_key p)) pvs)" for pvs
    by simp
  obtain st' pvs where r: "embed_document_chunks rev_env ''h'' ''a.md'' ''hello'' empty_store = (st', Inr pvs)"
    and p: "map (\<lambda>p. (pv_seq p, pv_pos p, pv_vid p, pv_key p)) pvs = [(0, 0, 0, key_of rev_env ''hello'')]"
    and g: "vi_get_vector list_usearch 0 (st_hnsw st') = Inr (sample_model ''hello'')"
    using sound unfolding nxt env by auto
  have "map pv_vid pvs = [0]" unfolding ids [of pvs] p by simp
  with r g show ?thesis by (intro exI [of _ st'] exI [of _ pvs] conjI)
qed

subsection \<open>Opening establishes it\<close>

lemma fold_max_upper: "i \<in> set (y # ys) \<Longrightarrow> i \<le> fold max ys (y :: int)"
  unfolding Max.set_eq_fold [of y ys, symmetric] by (rule Max_ge) simp

text \<open>After the reconciliation every id on record is below the next one.\<close>

lemma reconcile_above:
  assumes v: "v \<in> set (vectors db)" "v_vid v = Some i"
    and small: "\<forall>v\<in>set (vectors db). \<forall>i. v_vid v = Some i \<longrightarrow> 0 \<le> i \<and> i < 2 ^ 63"
  shows "as_u64 i < vi_next (reconcile_next_vid db vi)"
proof -
  let ?l = "concat (map (\<lambda>v. case v_vid v of Some i \<Rightarrow> [i] | None \<Rightarrow> []) (vectors db))"
  have i: "i \<in> set ?l" using v by force
  then obtain y ys where l: "?l = y # ys" by (cases ?l) auto
  have u64: "as_u64 j = nat j" if "0 \<le> j" "j < 2 ^ 63" for j
    using that by (simp add: as_u64_def uint_word_of_int)
  let ?m = "fold max ys y"
  have m: "?m \<in> set ?l" "i \<le> ?m"
    using Max_in [of "set (y # ys)"] Max.set_eq_fold [of y ys] fold_max_upper i unfolding l by auto
  then have ms: "0 \<le> ?m" "?m < 2 ^ 63" using small by (auto split: option.splits)
  have "max_vector_vid db = Some (nat ?m)"
    using u64 [OF ms] unfolding max_vector_vid_def Let_def l by simp
  moreover have "succ64 (nat ?m) = Suc (nat ?m)" using ms by (intro succ64_small) (simp add: Suc_nat_eq_nat_zadd1 nat_less_iff)
  moreover have "as_u64 i = nat i" using v small u64 by blast
  ultimately show ?thesis using m(2) ms(1)
    by (auto simp: reconcile_next_vid_def Let_def ensure_next_vid_at_least_def split: option.splits) 
qed

end
