(* ===== verification/Sections.thy ===== *)
theory Sections
  imports AstChunk Rrf Fts
begin

text \<open>
  The helpers of the search half of \<open>crates/rqmd-core/src/store.rs\<close>: which chunks of a document a
  result shows, the order of results, the script guard of query expansion and the collections a
  query searches.
\<close>

subsection \<open>Scripts\<close>

datatype script = Latin | Cjk | Other

definition script_of :: "string \<Rightarrow> script" where
  "script_of c =
     (let n = cp c in
      if (0x3040 \<le> n \<and> n \<le> 0x30FF) \<or> (0x3400 \<le> n \<and> n \<le> 0x4DBF) \<or> (0x4E00 \<le> n \<and> n \<le> 0x9FFF) \<or> (0xAC00 \<le> n \<and> n \<le> 0xD7AF) then Cjk
      else if (65 \<le> n \<and> n \<le> 90) \<or> (97 \<le> n \<and> n \<le> 122) \<or> (0xC0 \<le> n \<and> n \<le> 0x24F) then Latin
      else Other)"

definition count_script :: "string \<Rightarrow> nat \<times> nat \<times> nat \<Rightarrow> nat \<times> nat \<times> nat" where
  "count_script c = (\<lambda>(latin, cjk, other).
     (case script_of c of
        Latin \<Rightarrow> (latin + 1, cjk, other)
      | Cjk \<Rightarrow> (latin, cjk + 2, other)
      | Other \<Rightarrow> (latin, cjk, other + 1)))"

definition dominant_script :: "unicode \<Rightarrow> string \<Rightarrow> script" where
  "dominant_script uc text =
     (case fold count_script (filter (\<lambda>c. u_alphabetic uc (cp c)) (chars text)) (0, 0, 0) of
        (latin, cjk, other) \<Rightarrow>
          if latin \<le> cjk \<and> other \<le> cjk \<and> 0 < cjk then Cjk
          else if other \<le> latin \<and> 0 < latin then Latin
          else Other)"

definition expansion_language_mismatch :: "unicode \<Rightarrow> string \<Rightarrow> string \<Rightarrow> bool" where
  "expansion_language_mismatch uc query line \<longleftrightarrow>
     (dominant_script uc query, dominant_script uc line) \<in> {(Latin, Cjk), (Cjk, Latin)}"

definition build_expansion_prompt :: "string \<Rightarrow> string option \<Rightarrow> string" where
  "build_expansion_prompt query intent =
     (let intent_block = (case intent of
          Some i \<Rightarrow> if i \<noteq> [] then ''Context: '' @ i @ [NL] else []
        | None \<Rightarrow> [])
      in ''<|im_start|>system'' @ [NL] @ ''You are a search query expansion assistant. ''
         @ ''Given a user query, emit exactly three lines:'' @ [NL]
         @ ''lex: <keyword or phrase for BM25 search>'' @ [NL]
         @ ''vec: <natural language question for vector search>'' @ [NL]
         @ ''hyde: <a 50-100 word hypothetical passage that would answer the query>'' @ [NL]
         @ ''Write all three lines in the same language as the query.'' @ [NL]
         @ ''Output only those three lines. No explanation.'' @ ''<|im_end|>'' @ [NL]
         @ ''<|im_start|>user'' @ [NL] @ intent_block @ ''Query: '' @ query @ ''<|im_end|>'' @ [NL]
         @ ''<|im_start|>assistant'' @ [NL])"

subsection \<open>Sections of a document\<close>

definition split_filepath :: "string \<Rightarrow> string \<times> string" where
  "split_filepath path = (case split_once (CHR ''/'') path of Some p \<Rightarrow> p | None \<Rightarrow> (path, []))"

text \<open>The stretch of a chunk that the chunks taken before it leave: its two ends.\<close>

definition narrow :: "chunk \<Rightarrow> chunk \<Rightarrow> nat \<times> nat \<Rightarrow> nat \<times> nat" where
  "narrow c other = (\<lambda>(lo, hi).
     (let other_end = chunk_pos other + length (chunk_text other) in
      if chunk_pos other \<le> chunk_pos c \<and> chunk_pos c < other_end
      then (max lo (min (other_end - chunk_pos c) (length (chunk_text c))), hi)
      else if chunk_pos c < chunk_pos other \<and> chunk_pos other < chunk_pos c + length (chunk_text c)
      then (lo, min hi (chunk_pos other - chunk_pos c))
      else (lo, hi)))"

definition uncovered_text :: "chunk \<Rightarrow> chunk list \<Rightarrow> string" where
  "uncovered_text c taken =
     (case fold (narrow c) taken (0, length (chunk_text c)) of
        (lo, hi) \<Rightarrow>
          (case str_slice (chunk_text c) lo (max hi lo) of Some t \<Rightarrow> t | None \<Rightarrow> chunk_text c))"

definition term_hits :: "unicode \<Rightarrow> string list \<Rightarrow> string \<Rightarrow> nat" where
  "term_hits uc terms text = length (filter (\<lambda>t. contains t (u_lower uc text)) terms)"

definition has_term :: "unicode \<Rightarrow> string list \<Rightarrow> string \<Rightarrow> bool" where
  "has_term uc terms text \<longleftrightarrow> list_ex (\<lambda>t. contains t (u_lower uc text)) terms"

fun pick_loop :: "unicode \<Rightarrow> string list \<Rightarrow> nat \<Rightarrow> (nat \<times> nat \<times> chunk) list \<Rightarrow> chunk list \<Rightarrow> chunk list" where
  "pick_loop uc terms n [] picked = picked"
| "pick_loop uc terms n ((hits, i, c) # rest) picked =
     (if length picked = n \<or> (picked \<noteq> [] \<and> hits = 0) then picked
      else pick_loop uc terms n rest
        (if picked = [] \<or> has_term uc terms (uncovered_text c picked) then picked @ [c] else picked))"

definition scored_chunks :: "unicode \<Rightarrow> string list \<Rightarrow> chunk list \<Rightarrow> (nat \<times> nat \<times> chunk) list" where
  "scored_chunks uc terms chunks =
     sort_by (\<lambda>a b. fst b < fst a \<or> (fst a = fst b \<and> fst (snd b) \<le> fst (snd a)))
       (map (\<lambda>(i, c). (term_hits uc terms (chunk_text c), i, c)) (enumerate 0 chunks))"

text \<open>\<open>None\<close> is a panic of the chunker.\<close>

definition best_chunks ::
  "unicode \<Rightarrow> string list \<Rightarrow> (string \<Rightarrow> string \<Rightarrow> node option) \<Rightarrow> string \<Rightarrow> string \<Rightarrow> string list \<Rightarrow> nat
    \<Rightarrow> (string \<times> nat) list option" where
  "best_chunks uc feats parse path body terms n =
     map_option (\<lambda>chunks.
       (case chunks of
          [] \<Rightarrow> [([], 0)]
        | c # _ \<Rightarrow>
            if terms = [] then [(chunk_text c, chunk_pos c)]
            else map (\<lambda>c. (chunk_text c, chunk_pos c)) (pick_loop uc terms n (scored_chunks uc terms chunks) [])))
       (chunk_document_for_path uc feats parse path body)"

definition keyword_terms :: "unicode \<Rightarrow> string \<Rightarrow> string list" where
  "keyword_terms uc query =
     filter (\<lambda>t. 2 < length t)
       (map (\<lambda>t. trim_end_char (CHR ''\"'') (trim_start_char (CHR ''\"'') t))
         (filter (\<lambda>t. \<not> starts_with ''-'' t) (split_ws (u_lower uc query))))"

text \<open>\<open>min_by_key\<close>: the first of the smallest.\<close>

fun min_by_key :: "('a \<Rightarrow> nat) \<Rightarrow> 'a list \<Rightarrow> 'a option" where
  "min_by_key key [] = None"
| "min_by_key key (x # xs) =
     (case min_by_key key xs of None \<Rightarrow> Some x | Some y \<Rightarrow> if key x \<le> key y then Some x else Some y)"

definition abs_diff :: "nat \<Rightarrow> nat \<Rightarrow> nat" where
  "abs_diff a b = (if a \<le> b then b - a else a - b)"

definition nearest_chunk :: "chunk list \<Rightarrow> nat \<Rightarrow> string \<times> nat" where
  "nearest_chunk chunks pos =
     (case min_by_key (\<lambda>c. abs_diff (chunk_pos c) pos) chunks of
        None \<Rightarrow> ([], 0) | Some c \<Rightarrow> (chunk_text c, chunk_pos c))"

subsection \<open>Picks\<close>

record pick =
  pk_filepath :: string
  pk_doc :: nat
  pk_rank :: nat
  pk_score :: flt
  pk_chunk :: "string \<times> nat"

record pick_doc =
  pd_title :: string
  pd_hash :: string
  pd_body :: string

definition RECENCY_POOL_FACTOR :: nat where "RECENCY_POOL_FACTOR = 4"
definition RECENCY_POOL_CAP :: nat where "RECENCY_POOL_CAP = 200"

definition recency_pool :: "nat \<Rightarrow> nat" where
  "recency_pool limit = max limit (min (saturating_mul limit RECENCY_POOL_FACTOR) RECENCY_POOL_CAP)"

definition cmp_nat :: "nat \<Rightarrow> nat \<Rightarrow> ordering" where
  "cmp_nat a b = (if a < b then OLess else if a = b then OEqual else OGreater)"

definition pick_le :: "pick \<Rightarrow> pick \<Rightarrow> bool" where
  "pick_le a b \<longleftrightarrow>
     then_with (score_desc_then_path (pk_score a) (pk_filepath a) (pk_score b) (pk_filepath b)) (cmp_nat (pk_rank a) (pk_rank b))
       \<noteq> OGreater"

definition rank_picks :: "nat \<Rightarrow> pick list \<Rightarrow> pick list" where
  "rank_picks limit picks = take limit (sort_by pick_le picks)"

subsection \<open>Scope\<close>

text \<open>\<open>None\<close>: every collection.\<close>

definition effective_collections :: "codec \<Rightarrow> db \<Rightarrow> string list option \<Rightarrow> string list option" where
  "effective_collections j db requested =
     (if requested \<noteq> None \<and> requested \<noteq> Some [] then requested
      else
        (let cols = list_collections j db in
         if list_all col_include_by_default cols then None
         else Some (map col_name (filter col_include_by_default cols))))"

definition fts_hits_to_ranked :: "(string \<times> int \<times> flt) list \<Rightarrow> ranked_result list" where
  "fts_hits_to_ranked hits = map (\<lambda>(path, _, s). \<lparr>filepath = path, rr_title = [], backend_score = s\<rparr>) hits"

subsection \<open>The order of picks\<close>

lemma pick_le_iff:
  "pk_score a \<noteq> NaN \<Longrightarrow> pk_score b \<noteq> NaN \<Longrightarrow>
   pick_le a b \<longleftrightarrow> flt_lt (pk_score b) (pk_score a)
     \<or> (\<not> flt_lt (pk_score a) (pk_score b) \<and> (pk_filepath a, pk_rank a) \<le> (pk_filepath b, pk_rank b))"
  by (auto simp: pick_le_def score_desc_then_path_def partial_cmp_def then_with_def cmp_str_def cmp_nat_def
      is_nan_def flt_lt_order)

interpretation picks: comparator "\<lambda>p. pk_score p \<noteq> NaN" pick_le
proof
  fix x y z :: pick
  assume x: "pk_score x \<noteq> NaN" and y: "pk_score y \<noteq> NaN"
  then show "pick_le x y \<or> pick_le y x"
    by (auto simp: pick_le_iff flt_lt_order)
  assume z: "pk_score z \<noteq> NaN" and "pick_le x y" and "pick_le y z"
  with x y show "pick_le x z"
    by (auto simp: pick_le_iff flt_lt_order)
qed

text \<open>With a score that is not a number the comparison is no order: three picks, each before the next.\<close>

lemma nan_score_cycle:
  assumes "flt_lt s t" and "a < b" and "b < c"
    and "pk_score x = s" and "pk_filepath x = a" and "pk_score y = NaN" and "pk_filepath y = b"
    and "pk_score z = t" and "pk_filepath z = c"
  shows "\<not> pick_le y x \<and> \<not> pick_le z y \<and> \<not> pick_le x z"
proof -
  have "s \<noteq> NaN" "t \<noteq> NaN" using assms(1) by (auto simp: flt_lt_def dest: fle_not_nan)
  moreover have "\<not> flt_lt t s" using assms(1) by (simp add: flt_lt_def)
  ultimately show ?thesis
    using assms by (auto simp: pick_le_def score_desc_then_path_def partial_cmp_def then_with_def cmp_str_def is_nan_def)
qed

subsection \<open>What the chosen sections are\<close>

definition sections_ok :: "unicode \<Rightarrow> string list \<Rightarrow> chunk list \<Rightarrow> bool" where
  "sections_ok uc terms picked \<longleftrightarrow>
     (\<forall>k. 0 < k \<and> k < length picked \<longrightarrow> has_term uc terms (uncovered_text (picked ! k) (take k picked)))"

lemma sections_ok_snoc:
  assumes "sections_ok uc terms picked" and "picked = [] \<or> has_term uc terms (uncovered_text c picked)"
  shows "sections_ok uc terms (picked @ [c])"
  using assms by (auto simp: sections_ok_def nth_append less_Suc_eq)

lemma pick_loop_inv:
  assumes "sections_ok uc terms picked" and "length picked \<le> n"
  shows "sections_ok uc terms (pick_loop uc terms n rows picked) \<and> length (pick_loop uc terms n rows picked) \<le> n
    \<and> set (pick_loop uc terms n rows picked) \<subseteq> set picked \<union> (snd \<circ> snd) ` set rows
    \<and> (\<exists>more. pick_loop uc terms n rows picked = picked @ more)"
  using assms
proof (induction uc terms n rows picked rule: pick_loop.induct)
  case (2 uc terms n hits i c rest picked)
  show ?case
  proof (cases "length picked = n \<or> (picked \<noteq> [] \<and> hits = 0)")
    case True
    then show ?thesis using "2.prems" by auto
  next
    case False
    let ?next = "if picked = [] \<or> has_term uc terms (uncovered_text c picked) then picked @ [c] else picked"
    have "sections_ok uc terms ?next" using "2.prems"(1) sections_ok_snoc by auto
    moreover have "length ?next \<le> n" using False "2.prems"(2) by auto
    ultimately have "sections_ok uc terms (pick_loop uc terms n rest ?next) \<and> length (pick_loop uc terms n rest ?next) \<le> n
        \<and> set (pick_loop uc terms n rest ?next) \<subseteq> set ?next \<union> (snd \<circ> snd) ` set rest
        \<and> (\<exists>more. pick_loop uc terms n rest ?next = ?next @ more)"
      using "2.IH" [OF False] by blast
    then show ?thesis using False by (auto split: if_splits)
  qed
qed auto

definition hits_le :: "nat \<times> nat \<times> chunk \<Rightarrow> nat \<times> nat \<times> chunk \<Rightarrow> bool" where
  "hits_le a b \<longleftrightarrow> fst b < fst a \<or> (fst a = fst b \<and> fst (snd b) \<le> fst (snd a))"

interpretation hits: comparator "\<lambda>_. True" hits_le
  by unfold_locales (auto simp: hits_le_def)

text \<open>At most \<open>n\<close> sections, the first with the most terms, every further one with a term that the ones
  before it do not show.\<close>

lemma best_chunks_sections:
  assumes c: "chunk_document_for_path uc feats parse path body = Some chunks" "chunks \<noteq> []"
    and t: "terms \<noteq> []" and n: "1 \<le> n"
  obtains picked where "best_chunks uc feats parse path body terms n = Some (map (\<lambda>c. (chunk_text c, chunk_pos c)) picked)"
    and "picked \<noteq> []" and "length picked \<le> n" and "set picked \<subseteq> set chunks" and "sections_ok uc terms picked"
    and "\<forall>c\<in>set chunks. term_hits uc terms (chunk_text c) \<le> term_hits uc terms (chunk_text (hd picked))"
proof -
  define l where "l = map (\<lambda>(i, c). (term_hits uc terms (chunk_text c), i, c)) (enumerate 0 chunks)"
  have sc: "scored_chunks uc terms chunks = sort_by hits_le l"
    by (simp add: scored_chunks_def hits_le_def [abs_def] l_def)
  have all: "(snd \<circ> snd) ` set l = set chunks"
  proof -
    have "snd ` set (enumerate 0 chunks) = set chunks" by (metis image_set map_snd_enumerate)
    then show ?thesis by (simp add: l_def image_image case_prod_unfold)
  qed
  have el: "fst x = term_hits uc terms (chunk_text (snd (snd x)))" if "x \<in> set l" for x using that by (auto simp: l_def)
  have "l \<noteq> []" using c(2) by (simp add: l_def enumerate_eq_zip)
  then have "sort_by hits_le l \<noteq> []" by (metis length_0_conv length_sort_by)
  then obtain h i k rest where s: "sort_by hits_le l = (h, i, k) # rest" by (cases "sort_by hits_le l") auto
  have in_l: "(h, i, k) \<in> set l" using s set_sort_by [of hits_le l] by auto
  have first: "h = term_hits uc terms (chunk_text k)" using el [OF in_l] by simp
  have most: "term_hits uc terms (chunk_text c) \<le> h" if "c \<in> set chunks" for c
  proof -
    have "c \<in> (snd \<circ> snd) ` set l" unfolding all by (rule that)
    then obtain x where x: "x \<in> set l" "snd (snd x) = c" by auto
    have "hits_le (h, i, k) x" using hits.sort_by_head_least [OF _ s x(1)] by simp
    then show ?thesis using el [OF x(1)] x(2) by (auto simp: hits_le_def)
  qed
  let ?p = "pick_loop uc terms n (scored_chunks uc terms chunks) []"
  have step: "?p = pick_loop uc terms n rest [k]" using n unfolding sc s by simp
  have "sections_ok uc terms [k]" by (simp add: sections_ok_def)
  then have inv: "sections_ok uc terms ?p \<and> length ?p \<le> n \<and> set ?p \<subseteq> set [k] \<union> (snd \<circ> snd) ` set rest \<and> (\<exists>more. ?p = [k] @ more)"
    unfolding step using n by (intro pick_loop_inv) auto
  have rest: "set rest \<subseteq> set l" using s set_sort_by [of hits_le l] by auto
  have "k \<in> set chunks" using in_l all by force
  then have "set [k] \<union> (snd \<circ> snd) ` set rest \<subseteq> set chunks"
    using image_mono [OF rest, of "snd \<circ> snd"] unfolding all by simp
  then have "set ?p \<subseteq> set chunks" using inv by (meson order_trans)
  moreover have "hd ?p = k" "?p \<noteq> []" using inv by auto
  moreover have "best_chunks uc feats parse path body terms n = Some (map (\<lambda>c. (chunk_text c, chunk_pos c)) ?p)"
    using c t by (auto simp: best_chunks_def split: list.splits)
  ultimately show thesis using inv most first by (intro that [of ?p] ballI) simp_all
qed

end
