(* ===== verification/ModelCache.thy ===== *)
theory ModelCache
  imports Sql F32
begin

text \<open>
  The opt-in query cache, \<open>crates/rqmd-core/src/model_cache.rs\<close>: two tables of rows with a row id, a
  key and the tick of their last use. \<open>sha\<close> is SHA-256, \<open>pkg\<close> the package version.
\<close>

definition MAX_ROWS :: nat where "MAX_ROWS = 10000"
definition SCHEMA_VERSION :: int where "SCHEMA_VERSION = 1"
definition EXPANSION_PROMPT_VERSION :: string where "EXPANSION_PROMPT_VERSION = ''expansion-1''"
definition RERANK_PROMPT_VERSION :: string where "RERANK_PROMPT_VERSION = ''rerank-1''"

definition expansion_prompt_version :: "string \<Rightarrow> string" where
  "expansion_prompt_version pkg = EXPANSION_PROMPT_VERSION @ ''+'' @ pkg"

definition rerank_prompt_version :: "string \<Rightarrow> string" where
  "rerank_prompt_version pkg = RERANK_PROMPT_VERSION @ ''+'' @ pkg"

text \<open>\<open>meta\<close> gives the size and the modification time of a file that can be read.\<close>

definition model_identity :: "(string \<Rightarrow> (nat \<times> nat) option) \<Rightarrow> string \<Rightarrow> string option \<Rightarrow> string option" where
  "model_identity meta name file =
     (case file of
        None \<Rightarrow> Some name
      | Some path \<Rightarrow> map_option (\<lambda>(len, mtime_ns). name @ ''|'' @ dec len @ ''|'' @ dec mtime_ns) (meta path))"

definition le64 :: "nat \<Rightarrow> string" where
  "le64 n = map (\<lambda>i. char_of (n div 256 ^ i mod 256)) [0..<8]"

definition digest_input :: "string list \<Rightarrow> string" where
  "digest_input parts = concat (map (\<lambda>p. le64 (length p) @ p) parts)"

definition digest :: "(string \<Rightarrow> string) \<Rightarrow> string \<Rightarrow> string list \<Rightarrow> string" where
  "digest sha kind parts = sha (digest_input (kind # parts))"

definition expansion_key :: "(string \<Rightarrow> string) \<Rightarrow> string \<Rightarrow> string" where
  "expansion_key sha prompt = digest sha ''expansion'' [prompt]"

text \<open>\<open>sha\<close> gives raw bytes, \<open>hex\<close> writes them out.\<close>

definition rerank_key :: "(string \<Rightarrow> string) \<Rightarrow> (string \<Rightarrow> string) \<Rightarrow> string \<Rightarrow> string \<Rightarrow> string" where
  "rerank_key sha hex query chunk = digest sha ''rerank'' [query, hex (sha chunk)]"

record 'a cache_row =
  cw_id :: nat
  cw_key :: string
  cw_model :: string
  cw_version :: string
  cw_value :: 'a
  cw_last_used :: int

record model_cache =
  mc_expansion :: "string cache_row list"
  mc_rerank :: "flt cache_row list"
  mc_max_rows :: nat

text \<open>Opening a file of another schema version drops what it holds.\<close>

definition cache_open_with_limit :: "(int \<times> string cache_row list \<times> flt cache_row list) option \<Rightarrow> nat \<Rightarrow> model_cache" where
  "cache_open_with_limit file max_rows =
     (case file of
        Some (version, es, rs) \<Rightarrow>
          if version = SCHEMA_VERSION then \<lparr>mc_expansion = es, mc_rerank = rs, mc_max_rows = max_rows\<rparr>
          else \<lparr>mc_expansion = [], mc_rerank = [], mc_max_rows = max_rows\<rparr>
      | None \<Rightarrow> \<lparr>mc_expansion = [], mc_rerank = [], mc_max_rows = max_rows\<rparr>)"

definition cache_open :: "(int \<times> string cache_row list \<times> flt cache_row list) option \<Rightarrow> model_cache" where
  "cache_open file = cache_open_with_limit file MAX_ROWS"

definition count_rows :: "model_cache \<Rightarrow> nat" where
  "count_rows mc = length (mc_expansion mc) + length (mc_rerank mc)"

definition max_last :: "'a cache_row list \<Rightarrow> int" where
  "max_last rows = foldr max (map cw_last_used rows) 0"

definition next_tick :: "model_cache \<Rightarrow> int" where
  "next_tick mc = max (max_last (mc_expansion mc)) (max_last (mc_rerank mc)) + 1"

text \<open>\<open>INSERT OR REPLACE\<close>: the row with the key goes, the new one gets the next row id.\<close>

definition put_row :: "string \<Rightarrow> string \<Rightarrow> string \<Rightarrow> 'a \<Rightarrow> int \<Rightarrow> 'a cache_row list \<Rightarrow> 'a cache_row list" where
  "put_row key model version val tick rows =
     (let rest = filter (\<lambda>r. cw_key r \<noteq> key) rows
      in rest @ [\<lparr>cw_id = Suc (foldr max (map cw_id rest) 0), cw_key = key, cw_model = model, cw_version = version,
                  cw_value = val, cw_last_used = tick\<rparr>])"

definition find_row :: "string \<Rightarrow> string \<Rightarrow> string \<Rightarrow> 'a cache_row list \<Rightarrow> 'a option" where
  "find_row key model version rows =
     map_option cw_value (find (\<lambda>r. cw_key r = key \<and> cw_model r = model \<and> cw_version r = version) rows)"

text \<open>The rows of both tables, the least recently used first: their last use, table and row id.\<close>

definition row_order :: "(int \<times> nat \<times> nat) \<Rightarrow> (int \<times> nat \<times> nat) \<Rightarrow> bool" where
  "row_order a b \<longleftrightarrow> a \<le> b"

definition tagged :: "nat \<Rightarrow> 'a cache_row list \<Rightarrow> (int \<times> nat \<times> nat) list" where
  "tagged t rows = map (\<lambda>r. (cw_last_used r, t, cw_id r)) rows"

definition victims :: "model_cache \<Rightarrow> (int \<times> nat \<times> nat) list" where
  "victims mc =
     take (count_rows mc - mc_max_rows mc) (sort_by row_order (tagged 0 (mc_expansion mc) @ tagged 1 (mc_rerank mc)))"

definition evict :: "model_cache \<Rightarrow> model_cache" where
  "evict mc =
     (if count_rows mc \<le> mc_max_rows mc then mc
      else mc\<lparr>mc_expansion := filter (\<lambda>r. (0, cw_id r) \<notin> snd ` set (victims mc)) (mc_expansion mc),
              mc_rerank := filter (\<lambda>r. (1, cw_id r) \<notin> snd ` set (victims mc)) (mc_rerank mc)\<rparr>)"

definition get_expansion :: "(string \<Rightarrow> string) \<Rightarrow> string \<Rightarrow> string \<Rightarrow> string \<Rightarrow> model_cache \<Rightarrow> string option" where
  "get_expansion sha pkg prompt model mc =
     find_row (expansion_key sha prompt) model (expansion_prompt_version pkg) (mc_expansion mc)"

definition put_expansion :: "(string \<Rightarrow> string) \<Rightarrow> string \<Rightarrow> string \<Rightarrow> string \<Rightarrow> string \<Rightarrow> model_cache \<Rightarrow> model_cache" where
  "put_expansion sha pkg prompt model out mc =
     evict (mc\<lparr>mc_expansion := put_row (expansion_key sha prompt) model (expansion_prompt_version pkg) out (next_tick mc)
         (mc_expansion mc)\<rparr>)"

text \<open>A stored score is read back as an \<open>f32\<close>.\<close>

definition get_rerank_scores ::
  "(string \<Rightarrow> string) \<Rightarrow> (string \<Rightarrow> string) \<Rightarrow> string \<Rightarrow> string \<Rightarrow> string \<Rightarrow> string list \<Rightarrow> model_cache \<Rightarrow> flt option list" where
  "get_rerank_scores sha hex pkg query model chunks mc =
     map (\<lambda>c. map_option (flt_round binary32)
         (find_row (rerank_key sha hex query c) model (rerank_prompt_version pkg) (mc_rerank mc))) chunks"

definition put_rerank_scores ::
  "(string \<Rightarrow> string) \<Rightarrow> (string \<Rightarrow> string) \<Rightarrow> string \<Rightarrow> string \<Rightarrow> string \<Rightarrow> (string \<times> flt) list \<Rightarrow> model_cache \<Rightarrow> model_cache" where
  "put_rerank_scores sha hex pkg query model scores mc =
     (let tick = next_tick mc
      in evict (mc\<lparr>mc_rerank := fold (\<lambda>(c, s). put_row (rerank_key sha hex query c) model (rerank_prompt_version pkg) s tick)
           (filter (\<lambda>(_, s). is_finite s) scores) (mc_rerank mc)\<rparr>))"

datatype cleared = Nothing | Removed "nat option"

text \<open>The cache file, if there is one, and what can be read of it.\<close>

definition row_count_at :: "model_cache option option \<Rightarrow> string + nat option" where
  "row_count_at file =
     (case file of None \<Rightarrow> Inr None | Some None \<Rightarrow> Inl ''unreadable'' | Some (Some mc) \<Rightarrow> Inr (Some (count_rows mc)))"

definition clear_at :: "model_cache option option \<Rightarrow> model_cache option option \<times> cleared" where
  "clear_at file =
     (case file of
        None \<Rightarrow> (None, Nothing)
      | Some _ \<Rightarrow> (None, Removed (case row_count_at file of Inr n \<Rightarrow> n | Inl _ \<Rightarrow> None)))"

subsection \<open>Keys\<close>

lemma le64_inj:
  assumes "le64 m = le64 n" and "m < 2 ^ 64" and "n < 2 ^ 64"
  shows "m = n"
proof -
  have digits: "(\<Sum>i<8. (k div 256 ^ i mod 256) * 256 ^ i) = k" if "k < 2 ^ 64" for k :: nat
  proof -
    have "(\<Sum>i<j. (k div 256 ^ i mod 256) * 256 ^ i) = k mod 256 ^ j" for j
    proof (induction j)
      case (Suc j)
      have "k mod 256 ^ Suc j = 256 ^ j * (k div 256 ^ j mod 256) + k mod 256 ^ j"
        by (simp only: power_Suc2 mod_mult2_eq)
      then show ?case using Suc by simp
    qed simp
    then show ?thesis using that by simp
  qed
  have digit: "map (\<lambda>i. k div 256 ^ i mod 256) [0..<8] = map of_char (le64 k)" for k :: nat
    by (simp add: le64_def comp_def)
  have "map (\<lambda>i. m div 256 ^ i mod 256) [0..<8] = map (\<lambda>i. n div 256 ^ i mod 256) [0..<8]"
    unfolding digit assms(1) ..
  then have "\<forall>i<8. m div 256 ^ i mod 256 = n div 256 ^ i mod 256"
    unfolding map_eq_conv by simp
  then have "(\<Sum>i<8. (m div 256 ^ i mod 256) * 256 ^ i) = (\<Sum>i<8. (n div 256 ^ i mod 256) * 256 ^ i)"
    by (intro sum.cong refl) auto
  then show ?thesis using digits assms(2,3) by simp
qed

text \<open>Different lists of fields are hashed as different texts.\<close>

lemma digest_input_inj:
  assumes "digest_input xs = digest_input ys" and "length xs = length ys"
    and "\<forall>x\<in>set xs \<union> set ys. length x < 2 ^ 64"
  shows "xs = ys"
  using assms(2,1,3)
proof (induction xs ys rule: list_induct2)
  case (Cons x xs y ys)
  have len: "length (le64 n) = 8" for n by (simp add: le64_def)
  have eq: "le64 (length x) @ x @ digest_input xs = le64 (length y) @ y @ digest_input ys"
    using Cons.prems(1) by (simp add: digest_input_def)
  then have "le64 (length x) = le64 (length y)" "x @ digest_input xs = y @ digest_input ys"
    using len by (metis append_eq_append_conv)+
  moreover from this have "length x = length y" using Cons.prems(2) by (intro le64_inj) auto
  ultimately have "x = y" "digest_input xs = digest_input ys" by simp_all
  then show ?case using Cons.IH Cons.prems(2) by simp
qed simp

subsection \<open>The least recently used rows go\<close>

definition all_tags :: "model_cache \<Rightarrow> (int \<times> nat \<times> nat) list" where
  "all_tags mc = tagged 0 (mc_expansion mc) @ tagged 1 (mc_rerank mc)"

definition rows_ok :: "'a cache_row list \<Rightarrow> bool" where
  "rows_ok rows \<longleftrightarrow> distinct (map cw_id rows) \<and> distinct (map cw_key rows)"

definition cache_ok :: "model_cache \<Rightarrow> bool" where
  "cache_ok mc \<longleftrightarrow> rows_ok (mc_expansion mc) \<and> rows_ok (mc_rerank mc)"

interpretation cache_rows: comparator "\<lambda>_. True" row_order
  by unfold_locales (auto simp: row_order_def)

lemma foldr_max_ge: "x \<in> set xs \<Longrightarrow> x \<le> foldr max xs (b :: 'a :: linorder)"
  by (induction xs) (auto simp: le_max_iff_disj)

lemma rows_ok_put: "rows_ok rows \<Longrightarrow> rows_ok (put_row key model version val tick rows)"
proof -
  assume ok: "rows_ok rows"
  let ?rest = "filter (\<lambda>r. cw_key r \<noteq> key) rows"
  have "Suc (foldr max (map cw_id ?rest) 0) \<notin> set (map cw_id ?rest)"
  proof
    assume "Suc (foldr max (map cw_id ?rest) 0) \<in> set (map cw_id ?rest)"
    then have "Suc (foldr max (map cw_id ?rest) 0) \<le> foldr max (map cw_id ?rest) 0" by (rule foldr_max_ge)
    then show False by simp
  qed
  moreover have "key \<notin> set (map cw_key ?rest)" by auto
  ultimately show ?thesis using ok by (simp add: rows_ok_def put_row_def Let_def distinct_map_filter)
qed

lemma distinct_tagged: "rows_ok rows \<Longrightarrow> distinct (map snd (tagged t rows))"
  by (auto simp: tagged_def rows_ok_def comp_def distinct_map inj_on_def)

lemma filter_cut: "distinct (xs @ ys) \<Longrightarrow> filter (\<lambda>t. t \<notin> set xs) (xs @ ys) = ys"
  by (auto simp: filter_empty_conv filter_id_conv)

lemma distinct_tags:
  assumes "cache_ok mc"
  shows "distinct (all_tags mc)" and "inj_on snd (set (all_tags mc))"
proof -
  have "distinct (map snd (tagged 0 (mc_expansion mc)))" "distinct (map snd (tagged 1 (mc_rerank mc)))"
    using assms unfolding cache_ok_def by (auto intro!: distinct_tagged)
  moreover have "set (map snd (tagged 0 (mc_expansion mc))) \<inter> set (map snd (tagged 1 (mc_rerank mc))) = {}"
    by (auto simp: tagged_def)
  ultimately have "distinct (map snd (all_tags mc))"
    unfolding all_tags_def map_append distinct_append by blast
  then show "distinct (all_tags mc)" and "inj_on snd (set (all_tags mc))" by (auto simp: distinct_map)
qed

lemma victims_subset: "set (victims mc) \<subseteq> set (all_tags mc)"
  using set_take_subset by (fastforce simp: victims_def all_tags_def)

lemma tags_evict:
  assumes ok: "cache_ok mc" and over: "mc_max_rows mc < count_rows mc"
  shows "all_tags (evict mc) = filter (\<lambda>t. t \<notin> set (victims mc)) (all_tags mc)"
proof -
  have gone: "(snd t \<in> snd ` set (victims mc)) = (t \<in> set (victims mc))" if "t \<in> set (all_tags mc)" for t
    using inj_on_image_mem_iff [OF distinct_tags(2) [OF ok] that victims_subset] .
  have f: "tagged k (filter (\<lambda>r. (k, cw_id r) \<notin> snd ` set (victims mc)) rows) = filter (\<lambda>t. snd t \<notin> snd ` set (victims mc)) (tagged k rows)"
    for k and rows :: "'b cache_row list"
    by (simp add: tagged_def filter_map comp_def)
  have "all_tags (evict mc) = filter (\<lambda>t. snd t \<notin> snd ` set (victims mc)) (all_tags mc)"
    using over f [of 0 "mc_expansion mc"] f [of 1 "mc_rerank mc"] by (simp add: evict_def all_tags_def)
  also have "\<dots> = filter (\<lambda>t. t \<notin> set (victims mc)) (all_tags mc)"
    using gone by (intro filter_cong refl) blast
  finally show ?thesis .
qed

lemma length_all_tags: "length (all_tags mc) = count_rows mc"
  by (simp add: all_tags_def tagged_def count_rows_def)

lemma evict_keeps_recent:
  assumes ok: "cache_ok mc"
  shows "count_rows (evict mc) = min (count_rows mc) (mc_max_rows mc)"
    and "t \<in> set (all_tags (evict mc)) \<Longrightarrow> u \<in> set (all_tags mc) \<Longrightarrow> u \<notin> set (all_tags (evict mc)) \<Longrightarrow> u \<le> t"
proof -
  let ?s = "sort_by row_order (all_tags mc)" and ?n = "count_rows mc - mc_max_rows mc"
  have v: "victims mc = take ?n ?s" by (simp add: victims_def all_tags_def)
  have d: "distinct ?s" using distinct_tags(1) [OF ok] by (metis distinct_map_sort_by list.map_id)
  show "count_rows (evict mc) = min (count_rows mc) (mc_max_rows mc)"
  proof (cases "count_rows mc \<le> mc_max_rows mc")
    case True
    then show ?thesis by (simp add: evict_def)
  next
    case False
    then have e: "all_tags (evict mc) = filter (\<lambda>t. t \<notin> set (victims mc)) (all_tags mc)" using tags_evict [OF ok] by simp
    have "mset (filter (\<lambda>t. t \<notin> set (victims mc)) (all_tags mc)) = mset (filter (\<lambda>t. t \<notin> set (victims mc)) ?s)" by simp
    then have "count_rows (evict mc) = length (filter (\<lambda>t. t \<notin> set (victims mc)) ?s)"
      unfolding length_all_tags [symmetric] e by (metis size_mset)
    also have "filter (\<lambda>t. t \<notin> set (victims mc)) ?s = drop ?n ?s"
      using filter_cut [of "take ?n ?s" "drop ?n ?s"] d unfolding v by simp
    finally show ?thesis using False by (simp add: length_all_tags)
  qed
  assume t: "t \<in> set (all_tags (evict mc))" and u: "u \<in> set (all_tags mc)" "u \<notin> set (all_tags (evict mc))"
  have over: "mc_max_rows mc < count_rows mc"
  proof (rule ccontr)
    assume "\<not> mc_max_rows mc < count_rows mc"
    then have "evict mc = mc" by (simp add: evict_def)
    then show False using u by simp
  qed
  have "u \<in> set (take ?n ?s)" "t \<in> set ?s" "t \<notin> set (take ?n ?s)"
    using t u unfolding tags_evict [OF ok over] v by auto
  then have "t \<in> set (drop ?n ?s)" by (metis UnE append_take_drop_id set_append)
  moreover have "sorted_wrt row_order (take ?n ?s @ drop ?n ?s)"
    using cache_rows.sorted_sort_by [of "all_tags mc"] by simp
  ultimately have "row_order u t" using \<open>u \<in> set (take ?n ?s)\<close> unfolding sorted_wrt_append by blast
  then show "u \<le> t" by (simp add: row_order_def)
qed

subsection \<open>What was put is found\<close>

lemma last_le_max: "r \<in> set rows \<Longrightarrow> cw_last_used r \<le> max_last rows"
  unfolding max_last_def by (rule foldr_max_ge) simp

lemma before_tick: "r \<in> set (mc_expansion mc) \<Longrightarrow> cw_last_used r < next_tick mc" "q \<in> set (mc_rerank mc) \<Longrightarrow> cw_last_used q < next_tick mc"
  using last_le_max [of r "mc_expansion mc"] last_le_max [of q "mc_rerank mc"] by (auto simp: next_tick_def)

lemma evict_rows:
  "r \<in> set (mc_expansion (evict mc)) \<Longrightarrow> r \<in> set (mc_expansion mc)"
  "q \<in> set (mc_rerank (evict mc)) \<Longrightarrow> q \<in> set (mc_rerank mc)"
  by (auto simp: evict_def split: if_splits)

lemma cache_ok_evict: "cache_ok mc \<Longrightarrow> cache_ok (evict mc)"
  by (auto simp: cache_ok_def rows_ok_def evict_def distinct_map_filter)

lemma find_row_sole:
  assumes "r \<in> set rows" and "distinct (map cw_key rows)"
  shows "find_row (cw_key r) (cw_model r) (cw_version r) rows = Some (cw_value r)"
  using assms by (induction rows) (auto simp: find_row_def)

text \<open>A stored output is found again at once, whatever had to make room for it.\<close>

lemma get_put_expansion:
  assumes ok: "cache_ok mc" and room: "1 \<le> mc_max_rows mc"
  shows "get_expansion sha pkg prompt model (put_expansion sha pkg prompt model out mc) = Some out"
    and "count_rows (put_expansion sha pkg prompt model out mc) \<le> mc_max_rows mc"
proof -
  let ?key = "expansion_key sha prompt" and ?version = "expansion_prompt_version pkg"
  let ?rows = "put_row ?key model ?version out (next_tick mc) (mc_expansion mc)"
  define mc1 where "mc1 = mc\<lparr>mc_expansion := ?rows\<rparr>"
  have ok1: "cache_ok mc1" using ok by (simp add: cache_ok_def mc1_def rows_ok_put)
  obtain new where new: "new \<in> set ?rows" "cw_key new = ?key" "cw_model new = model" "cw_version new = ?version" "cw_value new = out"
      "cw_last_used new = next_tick mc"
    and old: "set ?rows \<subseteq> insert new (set (mc_expansion mc))"
    by (rule that [of "last ?rows"]) (auto simp: put_row_def Let_def)
  let ?t = "(next_tick mc, 0, cw_id new)"
  have in1: "?t \<in> set (all_tags mc1)" using new by (force simp: all_tags_def tagged_def mc1_def)
  have most: "t < ?t" if "t \<in> set (all_tags mc1)" "t \<noteq> ?t" for t
    using that old before_tick [where mc = mc] new(6) by (auto simp: all_tags_def tagged_def mc1_def less_prod_def')
  have count1: "1 \<le> count_rows mc1" using new(1) by (cases ?rows) (auto simp: count_rows_def mc1_def)
  have kept: "?t \<in> set (all_tags (evict mc1))"
  proof (rule ccontr)
    assume gone: "?t \<notin> set (all_tags (evict mc1))"
    have "1 \<le> count_rows (evict mc1)" using evict_keeps_recent(1) [OF ok1] count1 room by (simp add: mc1_def)
    then have "all_tags (evict mc1) \<noteq> []" using length_all_tags [of "evict mc1"] by auto
    then obtain t where t: "t \<in> set (all_tags (evict mc1))" by (meson last_in_set)
    then have "?t \<le> t" using evict_keeps_recent(2) [OF ok1 t in1 gone] by simp
    moreover have "t \<in> set (all_tags mc1)" using t evict_rows [where mc = mc1] by (auto simp: all_tags_def tagged_def)
    ultimately show False using most [of t] t gone by (metis leD)
  qed
  then obtain r where r: "r \<in> set (mc_expansion (evict mc1))" "cw_id r = cw_id new"
    by (auto simp: all_tags_def tagged_def)
  then have "r \<in> set ?rows" using evict_rows(1) [of r mc1] by (simp add: mc1_def)
  moreover have "inj_on cw_id (set ?rows)" using ok1 by (simp add: cache_ok_def rows_ok_def mc1_def distinct_map)
  ultimately have "r = new" using r(2) new(1) by (meson inj_onD)
  moreover have "distinct (map cw_key (mc_expansion (evict mc1)))"
    using cache_ok_evict [OF ok1] by (simp add: cache_ok_def rows_ok_def)
  ultimately have "find_row ?key model ?version (mc_expansion (evict mc1)) = Some out"
    using find_row_sole [OF r(1)] new by simp
  then show "get_expansion sha pkg prompt model (put_expansion sha pkg prompt model out mc) = Some out"
    by (simp add: get_expansion_def put_expansion_def mc1_def)
  show "count_rows (put_expansion sha pkg prompt model out mc) \<le> mc_max_rows mc"
    using evict_keeps_recent(1) [OF ok1] by (simp add: put_expansion_def mc1_def)
qed

subsection \<open>A sound cache stays sound\<close>

text \<open>
  The contract of a memo table: what it returns for a key is the function's value, and storing the
  value keeps it so. A call through it is then the function.
\<close>

locale memo =
  fixes get :: "'k \<Rightarrow> 'c \<Rightarrow> 'v option" and put :: "'k \<Rightarrow> 'v \<Rightarrow> 'c \<Rightarrow> 'c" and sound :: "('k \<Rightarrow> 'v) \<Rightarrow> 'c \<Rightarrow> bool"
  assumes get_sound: "sound f c \<Longrightarrow> get k c = Some v \<Longrightarrow> v = f k"
    and put_sound: "sound f c \<Longrightarrow> sound f (put k (f k) c)"
begin

lemma call_value: "sound f c \<Longrightarrow> (case get k c of Some v \<Rightarrow> v | None \<Rightarrow> f k) = f k"
  using get_sound by (cases "get k c") auto

lemma put_hit: "sound f c \<Longrightarrow> get k c = Some v \<Longrightarrow> sound f (put k v c)"
  using get_sound put_sound by metis

lemma puts_sound: "sound f c \<Longrightarrow> sound f (fold (\<lambda>k. put k (f k)) ks c)"
  by (induction ks arbitrary: c) (auto intro: put_sound)

end

text \<open>Every row of \<open>rows\<close> has the value \<open>f\<close> gives each input with the row's key.\<close>

definition row_sound :: "('i \<Rightarrow> string) \<Rightarrow> (string \<Rightarrow> 'i \<Rightarrow> 'a) \<Rightarrow> string \<Rightarrow> 'a cache_row \<Rightarrow> bool" where
  "row_sound key f version r \<longleftrightarrow> (\<forall>i. cw_key r = key i \<and> cw_version r = version \<longrightarrow> cw_value r = f (cw_model r) i)"

definition collision_free :: "('i \<Rightarrow> string) \<Rightarrow> (string \<Rightarrow> 'i \<Rightarrow> 'a) \<Rightarrow> bool" where
  "collision_free key f \<longleftrightarrow> (\<forall>i j m. key i = key j \<longrightarrow> f m i = f m j)"

definition rows_sound :: "('i \<Rightarrow> string) \<Rightarrow> (string \<Rightarrow> 'i \<Rightarrow> 'a) \<Rightarrow> string \<Rightarrow> 'a cache_row list \<Rightarrow> bool" where
  "rows_sound key f version rows \<longleftrightarrow> (\<forall>r\<in>set rows. row_sound key f version r) \<and> collision_free key f"

lemma rows_sound_put:
  assumes "rows_sound key f version rows"
  shows "rows_sound key f version (put_row (key i) model version (f model i) tick rows)"
proof -
  have coll: "\<forall>j. key i = key j \<longrightarrow> f model i = f model j"
    using assms unfolding rows_sound_def collision_free_def by blast
  have "row_sound key f version r" if "r \<in> set (put_row (key i) model version (f model i) tick rows)" for r
  proof (cases "r \<in> set rows")
    case True
    then show ?thesis using assms by (simp add: rows_sound_def)
  next
    case False
    then have "cw_key r = key i" "cw_model r = model" "cw_value r = f model i"
      using that by (auto simp: put_row_def Let_def)
    then show ?thesis using coll unfolding row_sound_def by metis
  qed
  then show ?thesis using assms by (simp add: rows_sound_def)
qed

lemma rows_sound_subset: "rows_sound key f version rows \<Longrightarrow> set rows' \<subseteq> set rows \<Longrightarrow> rows_sound key f version rows'"
  unfolding rows_sound_def by blast

lemma find_row_sound:
  assumes "rows_sound key f version rows" and "find_row (key i) model version rows = Some v"
  shows "v = f model i"
proof -
  obtain r where "find (\<lambda>r. cw_key r = key i \<and> cw_model r = model \<and> cw_version r = version) rows = Some r" "v = cw_value r"
    using assms(2) by (auto simp: find_row_def)
  then have r: "r \<in> set rows" "cw_key r = key i" "cw_model r = model" "cw_version r = version" "v = cw_value r"
    by (auto simp: find_Some_iff)
  then have "row_sound key f version r" using assms(1) by (simp add: rows_sound_def)
  then show ?thesis using r by (simp add: row_sound_def)
qed

definition expansion_sound :: "(string \<Rightarrow> string) \<Rightarrow> string \<Rightarrow> (string \<times> string \<Rightarrow> string) \<Rightarrow> model_cache \<Rightarrow> bool" where
  "expansion_sound sha pkg f mc \<longleftrightarrow>
     rows_sound (expansion_key sha) (\<lambda>model prompt. f (prompt, model)) (expansion_prompt_version pkg) (mc_expansion mc)"

interpretation expansions: memo "\<lambda>(prompt, model). get_expansion sha pkg prompt model"
  "\<lambda>(prompt, model) out. put_expansion sha pkg prompt model out" "expansion_sound sha pkg"
  for sha pkg
proof
  fix f mc and k :: "string \<times> string" and v
  assume s: "expansion_sound sha pkg f mc"
  obtain prompt model where k: "k = (prompt, model)" by (cases k)
  show "v = f k" if "(case k of (prompt, model) \<Rightarrow> get_expansion sha pkg prompt model) mc = Some v"
    using find_row_sound [OF s [unfolded expansion_sound_def], of prompt model v] that by (simp add: k get_expansion_def)
  show "expansion_sound sha pkg f ((case k of (prompt, model) \<Rightarrow> \<lambda>out. put_expansion sha pkg prompt model out) (f k) mc)"
    unfolding k expansion_sound_def put_expansion_def prod.case
    by (rule rows_sound_subset [OF rows_sound_put [OF s [unfolded expansion_sound_def], of prompt model "next_tick mc"]])
      (auto dest: evict_rows(1))
qed

definition rerank_sound ::
  "(string \<Rightarrow> string) \<Rightarrow> (string \<Rightarrow> string) \<Rightarrow> string \<Rightarrow> (string \<Rightarrow> string \<Rightarrow> string \<Rightarrow> flt) \<Rightarrow> model_cache \<Rightarrow> bool" where
  "rerank_sound sha hex pkg f mc \<longleftrightarrow>
     rows_sound (\<lambda>(q, c). rerank_key sha hex q c) (\<lambda>model (q, c). f model q c) (rerank_prompt_version pkg) (mc_rerank mc)
     \<and> (\<forall>m q c. flt_round binary32 (f m q c) = f m q c)"

lemma get_rerank_scores_sound:
  assumes "rerank_sound sha hex pkg f mc" and "i < length chunks"
    and "get_rerank_scores sha hex pkg query model chunks mc ! i = Some v"
  shows "v = f model query (chunks ! i)"
proof -
  obtain w where "find_row (rerank_key sha hex query (chunks ! i)) model (rerank_prompt_version pkg) (mc_rerank mc) = Some w"
    "v = flt_round binary32 w"
    using assms(2,3) by (auto simp: get_rerank_scores_def)
  moreover from this have "w = f model query (chunks ! i)"
    using find_row_sound [of "\<lambda>(q, c). rerank_key sha hex q c" _ _ _ "(query, chunks ! i)"] assms(1)
    unfolding rerank_sound_def by fastforce
  ultimately show ?thesis using assms(1) by (simp add: rerank_sound_def)
qed

lemma rows_sound_puts:
  assumes "rows_sound key f version rows" and "\<forall>(i, v)\<in>set ivs. v = f model i"
  shows "rows_sound key f version (fold (\<lambda>(i, v). put_row (key i) model version v tick) ivs rows)"
  using assms
proof (induction ivs arbitrary: rows)
  case (Cons iv ivs)
  obtain i v where iv: "iv = (i, v)" by (cases iv)
  then have "v = f model i" using Cons.prems(2) by simp
  then have "rows_sound key f version (put_row (key i) model version v tick rows)"
    using rows_sound_put [OF Cons.prems(1)] by simp
  then show ?case using Cons.IH Cons.prems(2) iv by simp
qed simp

lemma put_rerank_scores_sound:
  assumes s: "rerank_sound sha hex pkg f mc" and v: "\<forall>(c, x)\<in>set scores. x = f model query c"
  shows "rerank_sound sha hex pkg f (put_rerank_scores sha hex pkg query model scores mc)"
proof -
  let ?key = "\<lambda>(q, c). rerank_key sha hex q c" and ?f = "\<lambda>model (q, c). f model q c" and ?version = "rerank_prompt_version pkg"
  let ?good = "filter (\<lambda>(_, s). is_finite s) scores"
  have fold_eq: "fold (\<lambda>(c, x). put_row (rerank_key sha hex query c) model ?version x tick) xs rows
      = fold (\<lambda>(i, v). put_row (?key i) model ?version v tick) (map (\<lambda>(c, x). ((query, c), x)) xs) rows" for tick xs rows
    by (induction xs arbitrary: rows) auto
  have "rows_sound ?key ?f ?version (fold (\<lambda>(c, x). put_row (rerank_key sha hex query c) model ?version x (next_tick mc)) ?good (mc_rerank mc))"
    unfolding fold_eq using s v by (intro rows_sound_puts) (auto simp: rerank_sound_def)
  then have "rows_sound ?key ?f ?version (mc_rerank (put_rerank_scores sha hex pkg query model scores mc))"
    unfolding put_rerank_scores_def Let_def by (rule rows_sound_subset) (auto dest: evict_rows(2))
  then show ?thesis using s by (simp add: rerank_sound_def)
qed

lemma put_rerank_keeps_expansions:
  "expansion_sound sha pkg f mc \<Longrightarrow> expansion_sound sha pkg f (put_rerank_scores sha' hex pkg' query model scores mc)"
  unfolding expansion_sound_def put_rerank_scores_def Let_def
  by (erule rows_sound_subset) (auto dest: evict_rows(1))

lemma put_expansion_keeps_scores:
  "rerank_sound sha hex pkg f mc \<Longrightarrow> rerank_sound sha hex pkg f (put_expansion sha' pkg' prompt model out mc)"
  unfolding rerank_sound_def put_expansion_def
  by (auto elim!: rows_sound_subset dest: evict_rows(2))

end
