(* ===== verification/Search.thy ===== *)
theory Search
  imports Indexing Sections ModelCache Exclusion Deadline Query
begin

text \<open>
  The reading half of \<open>Store\<close>, \<open>crates/rqmd-core/src/store.rs\<close> and \<open>store/query_cache.rs\<close>: keyword,
  vector and hybrid search. The models, the ranking of the full-text index, the clock and the
  errors of the cache file are fields of \<open>qenv\<close>. The stages' observer and the timings are left out:
  they only report.
\<close>

datatype cache_err = CacheBusy | CacheBroken

record ('ix, 'v, 'f, 'g) qenv =
  q_env :: "('ix, 'v, 'f) env"
  q_codec :: codec
  q_gs :: "'g globset"
  q_ranked :: "string \<Rightarrow> fts_entry list \<Rightarrow> (flt \<times> fts_entry) list"
  q_query :: "string \<Rightarrow> string + 'v"                      \<comment> \<open>\<open>embed_query\<close>\<close>
  q_passage :: "string \<Rightarrow> string + 'v"                    \<comment> \<open>\<open>embed_passage\<close>\<close>
  q_can_generate :: bool
  q_generate :: "string \<Rightarrow> string + string"
  q_can_rerank :: bool
  q_rerank :: "string \<Rightarrow> string list \<Rightarrow> string + flt list"
  q_rerank_until :: "string \<Rightarrow> string list \<Rightarrow> deadline \<Rightarrow> string + flt list option"
  q_generate_id :: "string option"                      \<comment> \<open>\<open>model_identity\<close> of the two models\<close>
  q_rerank_id :: "string option"
  q_raw_sha :: "string \<Rightarrow> string"
  q_hex :: "string \<Rightarrow> string"
  q_pkg :: string
  q_cache_err :: "string \<Rightarrow> cache_err option"           \<comment> \<open>what SQLite answers an operation of the cache\<close>
  q_exp2 :: "flt \<Rightarrow> flt"
  q_now :: "string \<Rightarrow> nat \<Rightarrow> nat"                        \<comment> \<open>the clock at the \<open>n\<close>-th check of a stage\<close>
  q_wall :: int                                         \<comment> \<open>nanoseconds since the epoch\<close>
  q_observed :: bool

datatype search_error =
  SHnsw hnsw_error | SDb db_error | SEmbed string | STimedOut timed_out | SPanicked | SNoVectors | SLoops
| SRerank string

subsection \<open>Cached model calls\<close>

definition cache_failed :: "cache_err \<Rightarrow> model_cache option \<Rightarrow> model_cache option" where
  "cache_failed e cache = (case e of CacheBusy \<Rightarrow> cache | CacheBroken \<Rightarrow> None)"

text \<open>A store into the cache that SQLite may refuse.\<close>

definition cache_put :: "cache_err option \<Rightarrow> (model_cache \<Rightarrow> model_cache) \<Rightarrow> model_cache option \<Rightarrow> model_cache option" where
  "cache_put err put cache =
     (case cache of None \<Rightarrow> None
      | Some mc \<Rightarrow> (case err of None \<Rightarrow> Some (put mc) | Some e \<Rightarrow> cache_failed e cache))"

definition generate_expansion ::
  "('ix, 'v, 'f, 'g) qenv \<Rightarrow> string \<Rightarrow> model_cache option \<Rightarrow> model_cache option \<times> (string + string)" where
  "generate_expansion qe prompt cache =
     (case (cache, q_generate_id qe) of
        (Some mc, Some model) \<Rightarrow>
          (let put = (\<lambda>out. cache_put (q_cache_err qe ''put expansion'') (put_expansion (q_raw_sha qe) (q_pkg qe) prompt model out));
               miss = (\<lambda>cache. case q_generate qe prompt of
                   Inl e \<Rightarrow> (cache, Inl e) | Inr out \<Rightarrow> (put out cache, Inr out))
           in case q_cache_err qe ''get expansion'' of
                Some e \<Rightarrow> miss (cache_failed e cache)
              | None \<Rightarrow>
                  (case get_expansion (q_raw_sha qe) (q_pkg qe) prompt model mc of
                     Some out \<Rightarrow> (put out cache, Inr out)
                   | None \<Rightarrow> miss cache))
      | _ \<Rightarrow> (cache, q_generate qe prompt))"

definition RERANK_PROGRESS_SLICE :: nat where "RERANK_PROGRESS_SLICE = 4"

text \<open>One call per slice; \<open>None\<close> when the soft deadline passes first.\<close>

fun rerank_slices ::
  "('ix, 'v, 'f, 'g) qenv \<Rightarrow> string \<Rightarrow> deadline option \<Rightarrow> string list list \<Rightarrow> flt list \<Rightarrow> string + flt list option" where
  "rerank_slices qe query soft [] scores = Inr (Some scores)"
| "rerank_slices qe query soft (part # parts) scores =
     rbind (case soft of Some d \<Rightarrow> q_rerank_until qe query part d | None \<Rightarrow> rbind (q_rerank qe query part) (\<lambda>s. Inr (Some s)))
       (\<lambda>part_scores. case part_scores of
          None \<Rightarrow> Inr None
        | Some s \<Rightarrow> rerank_slices qe query soft parts (scores @ s))"

definition rerank_candidates ::
  "('ix, 'v, 'f, 'g) qenv \<Rightarrow> string \<Rightarrow> string list \<Rightarrow> deadline option \<Rightarrow> string + flt list option" where
  "rerank_candidates qe query chunks soft =
     (let slice = (if q_observed qe then RERANK_PROGRESS_SLICE else max (length chunks) 1)
      in rerank_slices qe query soft (batches slice chunks) [])"

fun merge_scores :: "flt option list \<Rightarrow> flt list \<Rightarrow> flt list" where
  "merge_scores [] fresh = []"
| "merge_scores (Some s # cached) fresh = s # merge_scores cached fresh"
| "merge_scores (None # cached) fresh =
     (case fresh of [] \<Rightarrow> NaN # merge_scores cached [] | x # xs \<Rightarrow> x # merge_scores cached xs)"

definition rerank_candidates_cached ::
  "('ix, 'v, 'f, 'g) qenv \<Rightarrow> string \<Rightarrow> string list \<Rightarrow> deadline option \<Rightarrow> model_cache option
    \<Rightarrow> model_cache option \<times> (string + flt list option)" where
  "rerank_candidates_cached qe query chunks soft cache =
     (case (cache, q_rerank_id qe) of
        (Some mc, Some model) \<Rightarrow>
          (let (cache, cached) =
             (case q_cache_err qe ''get rerank'' of
                None \<Rightarrow> (cache, get_rerank_scores (q_raw_sha qe) (q_hex qe) (q_pkg qe) query model chunks mc)
              | Some e \<Rightarrow> (cache_failed e cache, replicate (length chunks) None));
               misses = map fst (filter (\<lambda>(_, s). s = None) (zip chunks cached))
           in if length misses = length chunks then (cache, rerank_candidates qe query chunks soft)
              else
                (cache, rbind (if misses = [] then Inr (Some []) else rerank_candidates qe query misses soft)
                   (\<lambda>r. case r of
                      None \<Rightarrow> Inr None
                    | Some fresh \<Rightarrow>
                        if length fresh \<noteq> length misses then Inl ''wrong number of scores''
                        else Inr (Some (merge_scores cached fresh)))))
      | _ \<Rightarrow> (cache, rerank_candidates qe query chunks soft))"

definition remember_rerank_scores ::
  "('ix, 'v, 'f, 'g) qenv \<Rightarrow> string \<Rightarrow> string list \<Rightarrow> flt list \<Rightarrow> model_cache option \<Rightarrow> model_cache option" where
  "remember_rerank_scores qe query chunks scores cache =
     (case q_rerank_id qe of
        None \<Rightarrow> cache
      | Some model \<Rightarrow>
          cache_put (q_cache_err qe ''put rerank'')
            (put_rerank_scores (q_raw_sha qe) (q_hex qe) (q_pkg qe) query model (zip chunks scores)) cache)"

subsection \<open>Results\<close>

definition section_result :: "('ix, 'f) store \<Rightarrow> pick_doc list \<Rightarrow> pick \<Rightarrow> search_result" where
  "section_result st docs p =
     (let d = docs ! pk_doc p; (collection, path) = split_filepath (pk_filepath p) in
      \<lparr>sr_file = ''rqmd://'' @ pk_filepath p, sr_title = pd_title d, sr_body = pd_body d,
       sr_best_chunk = fst (pk_chunk p), sr_best_chunk_pos = snd (pk_chunk p), sr_score = pk_score p,
       sr_docid = (case docid_from_hash (pd_hash d) of Some i \<Rightarrow> i | None \<Rightarrow> []),
       sr_collection = collection, sr_path = path, sr_context = get_context_for_path collection path (st_db st)\<rparr>)"

definition picks_to_results :: "('ix, 'f) store \<Rightarrow> pick_doc list \<Rightarrow> pick list \<Rightarrow> search_result list" where
  "picks_to_results st docs picks = map (section_result st docs) picks"

definition chunks_of :: "('ix, 'v, 'f, 'g) qenv \<Rightarrow> string \<Rightarrow> string \<Rightarrow> chunk list option" where
  "chunks_of qe path body = chunk_document_for_path (e_uc (q_env qe)) (e_feats (q_env qe)) (e_parse (q_env qe)) path body"

definition best_of :: "('ix, 'v, 'f, 'g) qenv \<Rightarrow> string \<Rightarrow> string \<Rightarrow> string list \<Rightarrow> nat \<Rightarrow> search_error + (string \<times> nat) list" where
  "best_of qe path body terms n =
     (case best_chunks (e_uc (q_env qe)) (e_feats (q_env qe)) (e_parse (q_env qe)) path body terms n of
        None \<Rightarrow> Inl SPanicked | Some s \<Rightarrow> Inr s)"

definition raw_body :: "('ix, 'f) store \<Rightarrow> int \<Rightarrow> string" where
  "raw_body st rid = (case get_document_raw rid (st_db st) of Some b \<Rightarrow> b | None \<Rightarrow> [])"

definition result_from_doc :: "('ix, 'v, 'f, 'g) qenv \<Rightarrow> ('ix, 'f) store \<Rightarrow> document \<Rightarrow> string \<Rightarrow> flt \<Rightarrow> search_error + search_result" where
  "result_from_doc qe st d body score =
     (case first_chunk (e_uc (q_env qe)) body of
        None \<Rightarrow> Inl SPanicked
      | Some best \<Rightarrow>
          Inr \<lparr>sr_file = ''rqmd://'' @ full_path (doc_collection d) (doc_path d), sr_title = doc_title d, sr_body = body,
               sr_best_chunk = best, sr_best_chunk_pos = 0, sr_score = score,
               sr_docid = (case docid_from_hash (doc_hash d) of Some i \<Rightarrow> i | None \<Rightarrow> []),
               sr_collection = doc_collection d, sr_path = doc_path d,
               sr_context = get_context_for_path (doc_collection d) (doc_path d) (st_db st)\<rparr>)"

subsection \<open>Keyword search\<close>

definition fts_scoped ::
  "('ix, 'v, 'f, 'g) qenv \<Rightarrow> ('ix, 'f) store \<Rightarrow> string \<Rightarrow> nat \<Rightarrow> string list option \<Rightarrow> (string \<times> int \<times> flt) list" where
  "fts_scoped qe st query limit cols =
     (let ids = (if cols = None \<or> cols = Some [] then None
                 else map_option (\<lambda>cs. active_document_ids_in_collections cs (st_db st)) cols)
      in search_fts_scoped (e_toks (q_env qe)) (e_nfc (q_env qe)) (q_ranked qe) (st_fts st) query limit cols ids)"

definition file_recency :: "('ix, 'v, 'f, 'g) qenv \<Rightarrow> ('ix, 'f) store \<Rightarrow> recency \<Rightarrow> string \<Rightarrow> flt" where
  "file_recency qe st r path =
     (let (collection, rel) = split_filepath path;
          mtime = Option.bind (document_mtime_ns collection rel (st_db st)) (\<lambda>ns. if 0 \<le> ns then Some ns else None);
          age = (case mtime of Some at_time \<Rightarrow> nat (q_wall qe - at_time) | None \<Rightarrow> 0)
      in recency_factor (q_exp2 qe) r age)"

definition hit_le :: "string \<times> int \<times> flt \<Rightarrow> string \<times> int \<times> flt \<Rightarrow> bool" where
  "hit_le a b \<longleftrightarrow> score_desc_then_path (snd (snd a)) (fst a) (snd (snd b)) (fst b) \<noteq> OGreater"

definition weight_hits ::
  "('ix, 'v, 'f, 'g) qenv \<Rightarrow> ('ix, 'f) store \<Rightarrow> recency \<Rightarrow> (string \<times> int \<times> flt) list \<Rightarrow> (string \<times> int \<times> flt) list" where
  "weight_hits qe st r hits =
     sort_by hit_le (map (\<lambda>(path, i, s). (path, i, fmul32 s (file_recency qe st r path))) hits)"

definition hits_to_results ::
  "('ix, 'v, 'f, 'g) qenv \<Rightarrow> ('ix, 'f) store \<Rightarrow> (string \<times> int \<times> flt) list \<Rightarrow> nat \<Rightarrow> search_error + search_result list" where
  "hits_to_results qe st hits limit =
     rmap (\<lambda>(d, s). result_from_doc qe st d (raw_body st (doc_id d)) s)
       (List.map_filter (\<lambda>(_, i, s). map_option (\<lambda>d. (d, s)) (get_document_by_id i (st_db st))) (take limit hits))"

definition document_picks :: "string \<Rightarrow> nat \<Rightarrow> flt \<Rightarrow> (string \<times> nat) list \<Rightarrow> pick list" where
  "document_picks path i s chunks =
     map (\<lambda>(rank, c). \<lparr>pk_filepath = path, pk_doc = i, pk_rank = rank, pk_score = s, pk_chunk = c\<rparr>) (enumerate 0 chunks)"

definition hits_to_sections ::
  "('ix, 'v, 'f, 'g) qenv \<Rightarrow> ('ix, 'f) store \<Rightarrow> (string \<times> int \<times> flt) list \<Rightarrow> string \<Rightarrow> nat \<Rightarrow> nat \<Rightarrow> search_error + search_result list" where
  "hits_to_sections qe st hits query limit n =
     (let terms = keyword_terms (e_uc (q_env qe)) query;
          found = List.map_filter (\<lambda>(_, i, s). map_option (\<lambda>d. (d, s)) (get_document_by_id i (st_db st))) (take limit hits)
      in rbind (rmap (\<lambda>(i, (d, s)).
             rbind (best_of qe (full_path (doc_collection d) (doc_path d)) (raw_body st (doc_id d)) terms n) (\<lambda>chunks.
               Inr (document_picks (full_path (doc_collection d) (doc_path d)) i s chunks))) (enumerate 0 found))
           (\<lambda>picks. Inr (picks_to_results st
              (map (\<lambda>(d, _). \<lparr>pd_title = doc_title d, pd_hash = doc_hash d, pd_body = raw_body st (doc_id d)\<rparr>) found)
              (rank_picks limit (concat picks)))))"

definition store_search_fts_multi_with ::
  "('ix, 'v, 'f, 'g) qenv \<Rightarrow> ('ix, 'f) store \<Rightarrow> string \<Rightarrow> nat \<Rightarrow> string list option \<Rightarrow> search_options \<Rightarrow> search_error + search_result list" where
  "store_search_fts_multi_with qe st query limit cols options =
     (let effective = effective_collections (q_codec qe) (st_db st) cols in
      if effective = Some [] then Inr []
      else
        (let hits = (case opt_recency options of
                None \<Rightarrow> fts_scoped qe st query limit effective
              | Some r \<Rightarrow> weight_hits qe st r (fts_scoped qe st query (recency_pool limit) effective))
         in if clamp_per_file (per_file options) = 1 then hits_to_results qe st hits limit
            else hits_to_sections qe st hits query limit (clamp_per_file (per_file options))))"

definition store_search_fts_multi ::
  "('ix, 'v, 'f, 'g) qenv \<Rightarrow> ('ix, 'f) store \<Rightarrow> string \<Rightarrow> nat \<Rightarrow> string list option \<Rightarrow> search_error + search_result list" where
  "store_search_fts_multi qe st query limit cols = store_search_fts_multi_with qe st query limit cols search_options_default"

definition store_search_fts ::
  "('ix, 'v, 'f, 'g) qenv \<Rightarrow> ('ix, 'f) store \<Rightarrow> string \<Rightarrow> nat \<Rightarrow> string option \<Rightarrow> search_error + search_result list" where
  "store_search_fts qe st query limit col = store_search_fts_multi qe st query limit (map_option (\<lambda>c. [c]) col)"

subsection \<open>Vector search\<close>

abbreviation q_us :: "('ix, 'v, 'f, 'g) qenv \<Rightarrow> ('ix, 'v, 'f) usearch" where
  "q_us qe \<equiv> e_us (q_env qe)"

definition exclusions_of :: "('ix, 'v, 'f, 'g) qenv \<Rightarrow> ('ix, 'f) store \<Rightarrow> embed_exclusions" where
  "exclusions_of qe st = load_exclusions (q_gs qe) (q_codec qe) (st_db st)"

text \<open>The document and offset a vector leads to, never an excluded one.\<close>

definition vec_doc ::
  "('ix, 'v, 'f, 'g) qenv \<Rightarrow> ('ix, 'f) store \<Rightarrow> string list option \<Rightarrow> nat \<Rightarrow> (document \<times> nat) option" where
  "vec_doc qe st cols vid =
     (let ex = exclusions_of qe st
      in doc_chunk_for_vid_in_excluding (st_db st) vid cols (no_exclusions ex) (\<lambda>c p n. exclusion_reason ex c p n \<noteq> None))"

definition doc_filepath :: "document \<Rightarrow> string" where
  "doc_filepath d = full_path (doc_collection d) (doc_path d)"

definition vec_hits_to_ranked ::
  "('ix, 'v, 'f, 'g) qenv \<Rightarrow> ('ix, 'f) store \<Rightarrow> (nat \<times> flt) list \<Rightarrow> string list option \<Rightarrow> ranked_result list" where
  "vec_hits_to_ranked qe st hits cols =
     List.map_filter (\<lambda>(vid, sim). map_option (\<lambda>(d, _). \<lparr>filepath = doc_filepath d, rr_title = doc_title d, backend_score = sim\<rparr>)
         (vec_doc qe st cols vid)) hits"

text \<open>
  The widening of the pool: \<open>enough\<close> tells when the hits of a pass suffice. A pool that does not
  grow would loop for ever: then the value is \<open>None\<close>.
\<close>

partial_function (option) widen ::
  "(nat \<Rightarrow> hnsw_error + 'h) \<Rightarrow> ('h \<Rightarrow> bool) \<Rightarrow> nat \<Rightarrow> nat \<Rightarrow> (hnsw_error + 'h) option" where
  "widen search enough all k =
     (case search k of
        Inl e \<Rightarrow> Some (Inl e)
      | Inr h \<Rightarrow> if enough h \<or> all \<le> k then Some (Inr h) else widen search enough all (min (k * 2) all))"

definition run_widen :: "(nat \<Rightarrow> hnsw_error + 'h) \<Rightarrow> ('h \<Rightarrow> bool) \<Rightarrow> nat \<Rightarrow> nat \<Rightarrow> search_error + 'h" where
  "run_widen search enough all k =
     (case widen search enough all k of
        None \<Rightarrow> Inl SLoops | Some (Inl e) \<Rightarrow> Inl (SHnsw e) | Some (Inr h) \<Rightarrow> Inr h)"

definition search_vec_scoped ::
  "('ix, 'v, 'f, 'g) qenv \<Rightarrow> ('ix, 'f) store \<Rightarrow> 'v \<Rightarrow> nat \<Rightarrow> string list option \<Rightarrow> search_error + ranked_result list" where
  "search_vec_scoped qe st x fetch_size cols =
     run_widen (\<lambda>k. rbind (vi_search (q_us qe) x k (st_hnsw st)) (\<lambda>hits. Inr (vec_hits_to_ranked qe st hits cols)))
       (\<lambda>results. fetch_size \<le> length results) (hnsw_size (q_env qe) st) fetch_size"

text \<open>The hits by document, in the order of their first hit.\<close>

record doc_hits =
  dh_path :: string
  dh_doc :: document
  dh_hits :: "(flt \<times> nat) list"

definition add_hit :: "document \<times> nat \<Rightarrow> flt \<Rightarrow> doc_hits list \<Rightarrow> doc_hits list" where
  "add_hit dp sim by_doc =
     tab_upsert dh_path (doc_filepath (fst dp))
       \<lparr>dh_path = doc_filepath (fst dp), dh_doc = fst dp, dh_hits = [(sim, snd dp)]\<rparr>
       (\<lambda>e. e\<lparr>dh_hits := dh_hits e @ [(sim, snd dp)]\<rparr>) by_doc"

definition group_hits ::
  "('ix, 'v, 'f, 'g) qenv \<Rightarrow> ('ix, 'f) store \<Rightarrow> string list option \<Rightarrow> (nat \<times> flt) list \<Rightarrow> doc_hits list" where
  "group_hits qe st cols raw =
     fold (\<lambda>(vid, sim) by_doc. case vec_doc qe st cols vid of None \<Rightarrow> by_doc | Some dp \<Rightarrow> add_hit dp sim by_doc) raw []"

definition sim_le :: "flt \<times> nat \<Rightarrow> flt \<times> nat \<Rightarrow> bool" where
  "sim_le a b \<longleftrightarrow>
     then_with (case partial_cmp (fst b) (fst a) of None \<Rightarrow> OEqual | Some c \<Rightarrow> c) (cmp_nat (snd a) (snd b)) \<noteq> OGreater"

text \<open>A document's best-matching chunks, each offset once; the offset is kept as the chunk.\<close>

definition doc_picks :: "('ix, 'v, 'f, 'g) qenv \<Rightarrow> ('ix, 'f) store \<Rightarrow> recency option \<Rightarrow> nat \<Rightarrow> nat \<Rightarrow> doc_hits \<Rightarrow> pick list" where
  "doc_picks qe st recency n i e =
     map (\<lambda>(rank, (sim, pos)).
         \<lparr>pk_filepath = dh_path e, pk_doc = i, pk_rank = rank,
          pk_score = (case recency of None \<Rightarrow> sim | Some r \<Rightarrow> fmul32 sim (file_recency qe st r (dh_path e))),
          pk_chunk = ([], pos)\<rparr>)
       (enumerate 0 (take n (dedup_on snd (sort_by sim_le (dh_hits e)))))"

definition store_search_vec_multi_with ::
  "('ix, 'v, 'f, 'g) qenv \<Rightarrow> ('ix, 'f) store \<Rightarrow> string \<Rightarrow> nat \<Rightarrow> string list option \<Rightarrow> search_options \<Rightarrow> search_error + search_result list" where
  "store_search_vec_multi_with qe st query limit cols options =
     (let n = clamp_per_file (per_file options);
          effective = effective_collections (q_codec qe) (st_db st) cols
      in if effective = Some [] then Inr []
      else
        (let wanted = (case opt_recency options of Some _ \<Rightarrow> recency_pool limit | None \<Rightarrow> limit) in
         rbind (smap_err SEmbed (q_query qe query)) (\<lambda>x.
         rbind (run_widen
             (\<lambda>k. rbind (vi_search (q_us qe) x k (st_hnsw st)) (\<lambda>raw. Inr (group_hits qe st effective raw)))
             (\<lambda>by_doc. wanted \<le> length by_doc) (hnsw_size (q_env qe) st) (max (saturating_mul limit 4) 1)) (\<lambda>by_doc.
         let picks = rank_picks limit (concat (map (\<lambda>(i, e). doc_picks qe st (opt_recency options) n i e) (enumerate 0 by_doc)));
             body = (\<lambda>p. raw_body st (doc_id (dh_doc (by_doc ! pk_doc p))));
             docs = map (\<lambda>e. \<lparr>pd_title = doc_title (dh_doc e), pd_hash = doc_hash (dh_doc e), pd_body = raw_body st (doc_id (dh_doc e))\<rparr>) by_doc
         in rbind (rmap (\<lambda>p. case chunks_of qe (pk_filepath p) (body p) of
                None \<Rightarrow> Inl SPanicked
              | Some chunks \<Rightarrow> Inr (p\<lparr>pk_chunk := nearest_chunk chunks (snd (pk_chunk p))\<rparr>)) picks)
              (\<lambda>picks. Inr (picks_to_results st docs picks))))))"

definition store_search_vec_multi ::
  "('ix, 'v, 'f, 'g) qenv \<Rightarrow> ('ix, 'f) store \<Rightarrow> string \<Rightarrow> nat \<Rightarrow> string list option \<Rightarrow> search_error + search_result list" where
  "store_search_vec_multi qe st query limit cols = store_search_vec_multi_with qe st query limit cols search_options_default"

definition store_search_vec ::
  "('ix, 'v, 'f, 'g) qenv \<Rightarrow> ('ix, 'f) store \<Rightarrow> string \<Rightarrow> nat \<Rightarrow> string option \<Rightarrow> search_error + search_result list" where
  "store_search_vec qe st query limit col = store_search_vec_multi qe st query limit (map_option (\<lambda>c. [c]) col)"

subsection \<open>Similar documents\<close>

definition SIMILAR_MAX_CHUNKS :: nat where "SIMILAR_MAX_CHUNKS = 8"

record neighbour =
  nb_path :: string
  nb_sim :: flt
  nb_doc :: document

text \<open>Keep the best similarity of each document but the source.\<close>

definition add_neighbour :: "string \<Rightarrow> (document \<times> flt) \<Rightarrow> neighbour list \<Rightarrow> neighbour list" where
  "add_neighbour source ds by_doc =
     (let d = fst ds; sim = snd ds; path = doc_filepath d in
      if path = source then by_doc
      else tab_upsert nb_path path \<lparr>nb_path = path, nb_sim = sim, nb_doc = d\<rparr>
        (\<lambda>e. if flt_lt (nb_sim e) sim then e\<lparr>nb_sim := sim, nb_doc := d\<rparr> else e) by_doc)"

fun similar_loop ::
  "('ix, 'v, 'f, 'g) qenv \<Rightarrow> ('ix, 'f) store \<Rightarrow> string \<Rightarrow> nat \<Rightarrow> nat list \<Rightarrow> neighbour list \<Rightarrow> search_error + neighbour list" where
  "similar_loop qe st source k [] by_doc = Inr by_doc"
| "similar_loop qe st source k (vid # ids) by_doc =
     rbind (smap_err SHnsw (vi_get_vector (q_us qe) vid (st_hnsw st))) (\<lambda>x.
     rbind (smap_err SHnsw (vi_search (q_us qe) x k (st_hnsw st))) (\<lambda>hits.
       similar_loop qe st source k ids
         (fold (\<lambda>(hit, sim) by_doc. case vec_doc qe st None hit of
             None \<Rightarrow> by_doc | Some (d, _) \<Rightarrow> add_neighbour source (d, sim) by_doc) hits by_doc)))"

definition neighbour_le :: "neighbour \<Rightarrow> neighbour \<Rightarrow> bool" where
  "neighbour_le a b \<longleftrightarrow> score_desc_then_path (nb_sim a) (nb_path a) (nb_sim b) (nb_path b) \<noteq> OGreater"

definition similar_k :: "nat \<Rightarrow> nat \<Rightarrow> nat \<Rightarrow> nat" where
  "similar_k limit n all = min (max (min (saturating_mul limit 4 + n) (2 ^ 64 - 1)) (succ64 limit)) (max all 1)"

definition similar_to_hash ::
  "('ix, 'v, 'f, 'g) qenv \<Rightarrow> ('ix, 'f) store \<Rightarrow> string \<Rightarrow> string \<Rightarrow> string \<Rightarrow> nat \<Rightarrow> search_error + search_result list" where
  "similar_to_hash qe st hash source_collection source_path limit =
     rbind (smap_err SDb (vids_for_hash hash (st_db st))) (\<lambda>ids.
       if ids = [] then Inl SNoVectors
       else
         (let ids = take SIMILAR_MAX_CHUNKS ids;
              k = similar_k limit (length ids) (hnsw_size (q_env qe) st)
          in rbind (similar_loop qe st (full_path source_collection source_path) k ids []) (\<lambda>by_doc.
               rmap (\<lambda>e. result_from_doc qe st (nb_doc e) (raw_body st (doc_id (nb_doc e))) (nb_sim e))
                 (take limit (sort_by neighbour_le by_doc)))))"

subsection \<open>The widening loop\<close>

text \<open>A pool of at least one vector grows until it holds the whole index: the loop always ends.\<close>

lemma widen_ends: "0 < k \<Longrightarrow> widen search enough all k \<noteq> None"
proof (induction "all - k" arbitrary: k rule: less_induct)
  case less
  show ?case
  proof (cases "search k")
    case (Inr h)
    show ?thesis
    proof (cases "enough h \<or> all \<le> k")
      case False
      then have "all - min (k * 2) all < all - k" "0 < min (k * 2) all" using less.prems by auto
      then have "widen search enough all (min (k * 2) all) \<noteq> None" by (rule less.hyps)
      then show ?thesis using False Inr by (subst widen.simps) simp
    qed (subst widen.simps, simp add: Inr)
  qed (subst widen.simps, simp)
qed

lemma run_widen_ends: "0 < k \<Longrightarrow> run_widen search enough all k \<noteq> Inl SLoops"
  using widen_ends [of k search enough all] by (auto simp: run_widen_def split: option.splits sum.splits)

text \<open>What it answers is the answer of one search, and either enough or that of the whole index.\<close>

lemma widen_answer:
  "0 < k \<Longrightarrow> widen search enough all k = Some (Inr h) \<Longrightarrow> \<exists>k' \<ge> k. search k' = Inr h \<and> (enough h \<or> all \<le> k')"
proof (induction "all - k" arbitrary: k rule: less_induct)
  case less
  obtain h' where h': "search k = Inr h'"
    using less.prems(2) by (subst (asm) widen.simps) (auto split: sum.splits)
  show ?case
  proof (cases "enough h' \<or> all \<le> k")
    case True
    then show ?thesis using less.prems(2) h' by (subst (asm) widen.simps) auto
  next
    case False
    then have step: "widen search enough all (min (k * 2) all) = Some (Inr h)"
      using less.prems(2) h' by (subst (asm) widen.simps) simp
    have "all - min (k * 2) all < all - k" "0 < min (k * 2) all" "k \<le> min (k * 2) all" using False less.prems(1) by auto
    then show ?thesis using less.hyps [OF _ _ step] by (meson order_trans)
  qed
qed

lemma run_widen_answer:
  "0 < k \<Longrightarrow> run_widen search enough all k = Inr h \<Longrightarrow> \<exists>k' \<ge> k. search k' = Inr h \<and> (enough h \<or> all \<le> k')"
  using widen_answer [of k search enough all h] by (auto simp: run_widen_def split: option.splits sum.splits)

end
