(* ===== verification/Hybrid.thy ===== *)
theory Hybrid
  imports Search
begin

text \<open>
  The hybrid query of \<open>Store\<close>, \<open>crates/rqmd-core/src/store.rs\<close>: one ranked list per query signal
  (sub-queries, or keywords, vectors and the generated expansion), their fusion, the chunks of the
  candidates, reranking, and the final blend. The state is the model cache.
\<close>

definition RERANK_CANDIDATE_LIMIT :: nat where "RERANK_CANDIDATE_LIMIT = 20"
definition RERANK_POOL_CEILING :: nat where "RERANK_POOL_CEILING = 100"
definition STRONG_SIGNAL_MIN_SCORE :: flt where "STRONG_SIGNAL_MIN_SCORE = f32_of (85 / 100)"
definition STRONG_SIGNAL_MIN_GAP :: flt where "STRONG_SIGNAL_MIN_GAP = f32_of (15 / 100)"
definition BLEND_HI :: flt where "BLEND_HI = Fin (3 / 4)"
definition BLEND_LO :: flt where "BLEND_LO = Fin (1 / 4)"

type_synonym legs = "ranked_result list list \<times> ranked_list_meta list"

definition push_leg :: "string \<Rightarrow> query_type \<Rightarrow> ranked_result list \<Rightarrow> legs \<Rightarrow> legs" where
  "push_leg source qt results acc =
     (if results = [] then acc
      else (fst acc @ [results], snd acc @ [\<lparr>meta_source = source, meta_query_type = qt\<rparr>]))"

definition check_at :: "('ix, 'v, 'f, 'g) qenv \<Rightarrow> string \<Rightarrow> nat \<Rightarrow> deadline \<Rightarrow> search_error + unit" where
  "check_at qe stage n d = smap_err STimedOut (deadline_check (q_now qe stage n) stage d)"

subsection \<open>One leg\<close>

text \<open>A hypothetical document is embedded as a passage, a query as a query.\<close>

definition run_leg ::
  "('ix, 'v, 'f, 'g) qenv \<Rightarrow> ('ix, 'f) store \<Rightarrow> string list option \<Rightarrow> nat \<Rightarrow> query_type \<Rightarrow> string
    \<Rightarrow> search_error + ranked_result list" where
  "run_leg qe st cols fetch_size qt txt =
     (case qt of
        Lex \<Rightarrow> Inr (fts_hits_to_ranked (fts_scoped qe st txt fetch_size cols))
      | VecQ \<Rightarrow> rbind (smap_err SEmbed (q_query qe txt)) (\<lambda>x. search_vec_scoped qe st x fetch_size cols)
      | Hyde \<Rightarrow> rbind (smap_err SEmbed (q_passage qe txt)) (\<lambda>x. search_vec_scoped qe st x fetch_size cols)
      | Original \<Rightarrow> Inr [])"

subsection \<open>The expansion\<close>

definition expansion_line :: "string \<Rightarrow> (query_type \<times> string) option" where
  "expansion_line raw =
     (let line = trim raw in
      case strip_prefix ''lex:'' line of
        Some txt \<Rightarrow> Some (Lex, trim txt)
      | None \<Rightarrow>
      (case strip_prefix ''vec:'' line of
        Some txt \<Rightarrow> Some (VecQ, trim txt)
      | None \<Rightarrow> map_option (\<lambda>txt. (Hyde, trim txt)) (strip_prefix ''hyde:'' line)))"

definition expansion_source :: "query_type \<Rightarrow> string" where
  "expansion_source qt = (case qt of Lex \<Rightarrow> ''expand-lex'' | VecQ \<Rightarrow> ''expand-vec'' | _ \<Rightarrow> ''expand-hyde'')"

definition skip_expansion :: "unicode \<Rightarrow> string \<Rightarrow> (query_type \<times> string) set \<Rightarrow> query_type \<times> string \<Rightarrow> bool" where
  "skip_expansion uc original seen q \<longleftrightarrow>
     snd q = [] \<or> snd q = trim original \<or> expansion_language_mismatch uc original (snd q) \<or> q \<in> seen"

text \<open>\<open>n\<close> counts the lines, each of which looks at the clock.\<close>

fun run_expansion ::
  "('ix, 'v, 'f, 'g) qenv \<Rightarrow> ('ix, 'f) store \<Rightarrow> string list option \<Rightarrow> nat \<Rightarrow> deadline \<Rightarrow> string \<Rightarrow> nat
    \<Rightarrow> (query_type \<times> string) set \<Rightarrow> string list \<Rightarrow> legs \<Rightarrow> search_error + legs" where
  "run_expansion qe st cols fetch_size d original n seen [] acc = Inr acc"
| "run_expansion qe st cols fetch_size d original n seen (line # ls) acc =
     rbind (check_at qe ''an expansion query'' n d) (\<lambda>_.
       case expansion_line line of
         None \<Rightarrow> run_expansion qe st cols fetch_size d original (Suc n) seen ls acc
       | Some q \<Rightarrow>
           if skip_expansion (e_uc (q_env qe)) original seen q
           then run_expansion qe st cols fetch_size d original (Suc n) seen ls acc
           else rbind (run_leg qe st cols fetch_size (fst q) (snd q)) (\<lambda>results.
             run_expansion qe st cols fetch_size d original (Suc n) (insert q seen) ls
               (push_leg (expansion_source (fst q)) (fst q) results acc)))"

definition parse_and_run_expansion ::
  "('ix, 'v, 'f, 'g) qenv \<Rightarrow> ('ix, 'f) store \<Rightarrow> string list option \<Rightarrow> nat \<Rightarrow> deadline \<Rightarrow> string \<Rightarrow> string
    \<Rightarrow> legs \<Rightarrow> search_error + legs" where
  "parse_and_run_expansion qe st cols fetch_size d expansion original acc =
     run_expansion qe st cols fetch_size d original 0 {} (lines expansion) acc"

subsection \<open>Retrieval\<close>

definition leg_source :: "query_type \<Rightarrow> string" where
  "leg_source qt = (case qt of Lex \<Rightarrow> ''fts'' | VecQ \<Rightarrow> ''vec'' | _ \<Rightarrow> ''hyde'')"

text \<open>The first sub-query weighs as the original one.\<close>

fun run_subqueries ::
  "('ix, 'v, 'f, 'g) qenv \<Rightarrow> ('ix, 'f) store \<Rightarrow> string list option \<Rightarrow> nat \<Rightarrow> deadline \<Rightarrow> nat \<Rightarrow> sub_query list
    \<Rightarrow> legs \<Rightarrow> search_error + legs" where
  "run_subqueries qe st cols fetch_size d n [] acc = Inr acc"
| "run_subqueries qe st cols fetch_size d n (sub # subs) acc =
     rbind (check_at qe ''a sub-query'' n d) (\<lambda>_.
     rbind (run_leg qe st cols fetch_size (sq_type sub) (sq_text sub)) (\<lambda>results.
       run_subqueries qe st cols fetch_size d (Suc n) subs
         (push_leg (leg_source (sq_type sub)) (if n = 0 then Original else sq_type sub) results acc)))"

definition strong_signal :: "(string \<times> int \<times> flt) list \<Rightarrow> bool" where
  "strong_signal hits \<longleftrightarrow>
     (let top_score = (case hits of h # _ \<Rightarrow> snd (snd h) | [] \<Rightarrow> Fin 0);
          second_score = (case hits of _ # h # _ \<Rightarrow> snd (snd h) | _ \<Rightarrow> Fin 0)
      in hits \<noteq> [] \<and> fle STRONG_SIGNAL_MIN_SCORE top_score
         \<and> fle STRONG_SIGNAL_MIN_GAP (fsub32 top_score second_score))"

definition expand_mode ::
  "('ix, 'v, 'f, 'g) qenv \<Rightarrow> ('ix, 'f) store \<Rightarrow> string list option \<Rightarrow> nat \<Rightarrow> deadline \<Rightarrow> string \<Rightarrow> string option
    \<Rightarrow> bool \<Rightarrow> model_cache option \<Rightarrow> model_cache option \<times> (search_error + legs)" where
  "expand_mode qe st cols fetch_size d txt intent no_expand cache =
     (let hits = fts_scoped qe st txt fetch_size cols;
          legs = push_leg ''fts'' Original (fts_hits_to_ranked hits) ([], [])
      in case rbind (check_at qe ''embedding the query'' 0 d) (\<lambda>_. run_leg qe st cols fetch_size VecQ txt) of
           Inl e \<Rightarrow> (cache, Inl e)
         | Inr near \<Rightarrow>
             (let legs = push_leg ''vec'' Original near legs in
              if no_expand \<or> strong_signal hits \<or> \<not> q_can_generate qe then (cache, Inr legs)
              else case check_at qe ''query expansion'' 0 d of
                Inl e \<Rightarrow> (cache, Inl e)
              | Inr _ \<Rightarrow>
                  (case generate_expansion qe (build_expansion_prompt txt intent) cache of
                     (cache, Inl _) \<Rightarrow> (cache, Inr legs)
                   | (cache, Inr expansion) \<Rightarrow>
                       (cache, parse_and_run_expansion qe st cols fetch_size d expansion txt legs))))"

definition retrieve_ranked_lists ::
  "('ix, 'v, 'f, 'g) qenv \<Rightarrow> ('ix, 'f) store \<Rightarrow> parsed_query \<Rightarrow> string option \<Rightarrow> string \<Rightarrow> string list option \<Rightarrow> nat
    \<Rightarrow> bool \<Rightarrow> deadline \<Rightarrow> model_cache option \<Rightarrow> model_cache option \<times> (search_error + legs)" where
  "retrieve_ranked_lists qe st parsed intent query cols fetch_size no_expand d cache =
     (if pq_subqueries parsed \<noteq> []
      then (cache, run_subqueries qe st cols fetch_size d 0 (pq_subqueries parsed) ([], []))
      else expand_mode qe st cols fetch_size d
             (case pq_expand_text parsed of Some txt \<Rightarrow> txt | None \<Rightarrow> query) intent no_expand cache)"

subsection \<open>Fusion and candidates\<close>

record candidate =
  cd_ranked :: ranked_result
  cd_hash :: string
  cd_body :: string

definition filepath_to_doc_body :: "('ix, 'f) store \<Rightarrow> string \<Rightarrow> (document \<times> string) option" where
  "filepath_to_doc_body st path =
     (let (collection, rel) = split_filepath path in
      map_option (\<lambda>d. (d, raw_body st (doc_id d))) (get_document_by_filepath collection rel (st_db st)))"

definition fuse_and_resolve_candidates :: "('ix, 'f) store \<Rightarrow> legs \<Rightarrow> nat \<Rightarrow> candidate list" where
  "fuse_and_resolve_candidates st legs fetch_size =
     (if fst legs = [] then []
      else List.map_filter (\<lambda>r. map_option (\<lambda>(d, body). \<lparr>cd_ranked = r, cd_hash = doc_hash d, cd_body = body\<rparr>)
             (filepath_to_doc_body st (filepath r)))
           (take fetch_size (reciprocal_rank_fusion (fst legs) (rrf_weights (snd legs)))))"

subsection \<open>Chunks and reranking\<close>

definition query_terms :: "unicode \<Rightarrow> string option \<Rightarrow> string \<Rightarrow> string list" where
  "query_terms uc intent query =
     filter (\<lambda>t. 2 < length t)
       (split_ws (u_lower uc (case intent of Some i \<Rightarrow> i @ '' '' @ query | None \<Rightarrow> query)))"

text \<open>Sections past a file's best one come out of a budget, in candidate order.\<close>

fun candidate_sections ::
  "('ix, 'v, 'f, 'g) qenv \<Rightarrow> string list \<Rightarrow> nat \<Rightarrow> nat \<Rightarrow> candidate list \<Rightarrow> search_error + (string \<times> nat) list list" where
  "candidate_sections qe terms n budget [] = Inr []"
| "candidate_sections qe terms n budget (c # cs) =
     rbind (best_of qe (filepath (cd_ranked c)) (cd_body c) terms (1 + min (n - 1) budget)) (\<lambda>picked.
     rbind (candidate_sections qe terms n (budget - (length picked - 1)) cs) (\<lambda>rest. Inr (picked # rest)))"

definition select_chunks ::
  "('ix, 'v, 'f, 'g) qenv \<Rightarrow> string \<Rightarrow> string option \<Rightarrow> candidate list \<Rightarrow> nat \<Rightarrow> search_error + (string \<times> nat) list list" where
  "select_chunks qe query intent cands n =
     candidate_sections qe (query_terms (e_uc (q_env qe)) intent query) n (RERANK_POOL_CEILING - length cands) cands"

definition chunk_refs :: "(string \<times> nat) list list \<Rightarrow> string list" where
  "chunk_refs sections = map fst (concat sections)"

text \<open>Scores count only when there is one per chunk and some are finite.\<close>

definition rerank_chunks ::
  "('ix, 'v, 'f, 'g) qenv \<Rightarrow> string \<Rightarrow> string list \<Rightarrow> bool \<Rightarrow> deadline option \<Rightarrow> model_cache option
    \<Rightarrow> model_cache option \<times> flt list option \<times> rerank_status" where
  "rerank_chunks qe rerank_query chunks skip_rerank soft cache =
     (if skip_rerank then (cache, None, NotRun)
      else if \<not> q_can_rerank qe then (cache, None, Unsupported)
      else (case rerank_candidates_cached qe rerank_query chunks soft cache of
          (cache, Inr (Some scores)) \<Rightarrow>
            if length scores = length chunks \<and> list_ex is_finite scores
            then (remember_rerank_scores qe rerank_query chunks scores cache, Some scores, Reranked)
            else (cache, None, Failed)
        | (cache, Inr None) \<Rightarrow> (cache, None, DeadlineExpired)
        | (cache, Inl _) \<Rightarrow> (cache, None, Failed)))"

subsection \<open>The final order\<close>

definition recency_factors :: "('ix, 'v, 'f, 'g) qenv \<Rightarrow> ('ix, 'f) store \<Rightarrow> recency \<Rightarrow> candidate list \<Rightarrow> flt list" where
  "recency_factors qe st r cands = map (\<lambda>c. file_recency qe st r (filepath (cd_ranked c))) cands"

text \<open>A section's score: \<open>k\<close> is its place among all sections.\<close>

definition section_score :: "flt \<Rightarrow> flt list option \<Rightarrow> nat \<Rightarrow> flt \<Rightarrow> flt" where
  "section_score rrf_score rerank_scores k factor =
     fmul32 (case rerank_scores of
         None \<Rightarrow> rrf_score
       | Some scores \<Rightarrow>
           fadd32 (fmul32 BLEND_HI (if k < length scores then scores ! k else rrf_score)) (fmul32 BLEND_LO rrf_score))
       factor"

fun candidate_picks ::
  "flt list option \<Rightarrow> flt list option \<Rightarrow> nat \<Rightarrow> nat \<Rightarrow> (candidate \<times> (string \<times> nat) list) list \<Rightarrow> pick list" where
  "candidate_picks rerank_scores recency i k [] = []"
| "candidate_picks rerank_scores recency i k ((c, chunks) # rest) =
     map (\<lambda>(rank, chunk).
         \<lparr>pk_filepath = filepath (cd_ranked c), pk_doc = i, pk_rank = rank,
          pk_score = section_score (backend_score (cd_ranked c)) rerank_scores (k + rank)
            (case recency of None \<Rightarrow> Fin 1 | Some factors \<Rightarrow> factors ! i),
          pk_chunk = chunk\<rparr>)
       (enumerate 0 chunks)
     @ candidate_picks rerank_scores recency (Suc i) (k + length chunks) rest"

definition assemble_results ::
  "('ix, 'f) store \<Rightarrow> candidate list \<Rightarrow> (string \<times> nat) list list \<Rightarrow> flt list option \<Rightarrow> flt list option \<Rightarrow> nat
    \<Rightarrow> search_result list" where
  "assemble_results st cands sections rerank_scores recency limit =
     picks_to_results st
       (map (\<lambda>c. \<lparr>pd_title = rr_title (cd_ranked c), pd_hash = cd_hash c, pd_body = cd_body c\<rparr>) cands)
       (rank_picks limit (candidate_picks rerank_scores recency 0 0 (zip cands sections)))"

subsection \<open>The query\<close>

definition pool_size :: "nat \<Rightarrow> nat" where
  "pool_size limit = min (max (saturating_mul limit 2) RERANK_CANDIDATE_LIMIT) RERANK_POOL_CEILING"

definition hybrid_query_outcome_with ::
  "('ix, 'v, 'f, 'g) qenv \<Rightarrow> ('ix, 'f) store \<Rightarrow> string \<Rightarrow> string option \<Rightarrow> nat \<Rightarrow> string list option \<Rightarrow> bool \<Rightarrow> bool
    \<Rightarrow> deadline \<Rightarrow> bool \<Rightarrow> search_options \<Rightarrow> model_cache option \<Rightarrow> model_cache option \<times> (search_error + query_outcome)" where
  "hybrid_query_outcome_with qe st query intent limit cols skip_rerank no_expand d strict options cache =
     (let effective = effective_collections (q_codec qe) (st_db st) cols in
      if effective = Some [] then (cache, Inr \<lparr>out_results = [], out_rerank = NotRun\<rparr>)
      else
        (let parsed = parse_query query;
             intent = (case pq_intent parsed of Some i \<Rightarrow> Some i | None \<Rightarrow> intent);
             rerank_query = (case intent of Some i \<Rightarrow> i @ [NL] @ query | None \<Rightarrow> query)
         in case retrieve_ranked_lists qe st parsed intent query effective (pool_size limit) no_expand d cache of
              (cache, Inl e) \<Rightarrow> (cache, Inl e)
            | (cache, Inr legs) \<Rightarrow>
                (let cands = fuse_and_resolve_candidates st legs (pool_size limit) in
                 if cands = [] then (cache, Inr \<lparr>out_results = [], out_rerank = NotRun\<rparr>)
                 else case rbind (if strict then check_at qe ''rerank'' 0 d else Inr ()) (\<lambda>_.
                     select_chunks qe query intent cands (clamp_per_file (per_file options))) of
                   Inl e \<Rightarrow> (cache, Inl e)
                 | Inr sections \<Rightarrow>
                     (case rerank_chunks qe rerank_query (chunk_refs sections) skip_rerank
                         (if strict then None else Some d) cache of
                        (cache, scores, status) \<Rightarrow>
                          (cache, Inr \<lparr>out_results = assemble_results st cands sections scores
                                         (map_option (\<lambda>r. recency_factors qe st r cands) (opt_recency options)) limit,
                                       out_rerank = status\<rparr>)))))"

definition hybrid_query_outcome ::
  "('ix, 'v, 'f, 'g) qenv \<Rightarrow> ('ix, 'f) store \<Rightarrow> string \<Rightarrow> string option \<Rightarrow> nat \<Rightarrow> string list option \<Rightarrow> bool \<Rightarrow> bool
    \<Rightarrow> deadline \<Rightarrow> bool \<Rightarrow> model_cache option \<Rightarrow> model_cache option \<times> (search_error + query_outcome)" where
  "hybrid_query_outcome qe st query intent limit cols skip_rerank no_expand d strict cache =
     hybrid_query_outcome_with qe st query intent limit cols skip_rerank no_expand d strict search_options_default cache"

definition hybrid_query_multi_with_deadline ::
  "('ix, 'v, 'f, 'g) qenv \<Rightarrow> ('ix, 'f) store \<Rightarrow> string \<Rightarrow> string option \<Rightarrow> nat \<Rightarrow> string list option \<Rightarrow> bool \<Rightarrow> bool
    \<Rightarrow> deadline \<Rightarrow> model_cache option \<Rightarrow> model_cache option \<times> (search_error + search_result list)" where
  "hybrid_query_multi_with_deadline qe st query intent limit cols skip_rerank no_expand d cache =
     (case hybrid_query_outcome qe st query intent limit cols skip_rerank no_expand d True cache of
        (cache, r) \<Rightarrow> (cache, rbind r (\<lambda>out. Inr (out_results out))))"

definition hybrid_query_multi ::
  "('ix, 'v, 'f, 'g) qenv \<Rightarrow> ('ix, 'f) store \<Rightarrow> string \<Rightarrow> string option \<Rightarrow> nat \<Rightarrow> string list option \<Rightarrow> bool \<Rightarrow> bool
    \<Rightarrow> model_cache option \<Rightarrow> model_cache option \<times> (search_error + search_result list)" where
  "hybrid_query_multi qe st query intent limit cols skip_rerank no_expand cache =
     hybrid_query_multi_with_deadline qe st query intent limit cols skip_rerank no_expand deadline_none cache"

definition hybrid_query ::
  "('ix, 'v, 'f, 'g) qenv \<Rightarrow> ('ix, 'f) store \<Rightarrow> string \<Rightarrow> string option \<Rightarrow> nat \<Rightarrow> string option \<Rightarrow> bool \<Rightarrow> bool
    \<Rightarrow> model_cache option \<Rightarrow> model_cache option \<times> (search_error + search_result list)" where
  "hybrid_query qe st query intent limit col skip_rerank no_expand cache =
     hybrid_query_multi qe st query intent limit (map_option (\<lambda>c. [c]) col) skip_rerank no_expand cache"

end
