(* ===== verification/HybridSpec.thy ===== *)
theory HybridSpec
  imports Hybrid EmbedReuse DbColls
begin

text \<open>
  What the searches promise: they always end, a query never fails for its reranker, the rerank pass
  stays within its ceiling, and the cache never changes a score.
\<close>

subsection \<open>Searches end\<close>

lemma pool_size_bounds: "RERANK_CANDIDATE_LIMIT \<le> pool_size limit" "pool_size limit \<le> RERANK_POOL_CEILING" "0 < pool_size limit"
  by (auto simp: pool_size_def RERANK_CANDIDATE_LIMIT_def RERANK_POOL_CEILING_def)

lemma rbind_fails: "rbind r f = Inl e \<longleftrightarrow> r = Inl e \<or> (\<exists>x. r = Inr x \<and> f x = Inl e)"
  by (cases r) auto

lemma smap_err_ends: "(\<And>x. g x \<noteq> e) \<Longrightarrow> smap_err g r \<noteq> Inl e"
  by (cases r) auto

lemma check_at_ends: "check_at qe stage n d \<noteq> Inl SLoops"
  by (simp add: check_at_def smap_err_ends)

lemma search_vec_scoped_ends: "0 < fetch_size \<Longrightarrow> search_vec_scoped qe st x fetch_size cols \<noteq> Inl SLoops"
  by (simp add: search_vec_scoped_def run_widen_ends)

lemma run_leg_ends: "0 < fetch_size \<Longrightarrow> run_leg qe st cols fetch_size qt txt \<noteq> Inl SLoops"
  by (cases qt) (auto simp: run_leg_def rbind_fails smap_err_ends search_vec_scoped_ends)

lemmas legs_end = rbind_fails check_at_ends run_leg_ends

lemma run_expansion_ends: "0 < fetch_size \<Longrightarrow> run_expansion qe st cols fetch_size d original n seen ls acc \<noteq> Inl SLoops"
proof (induction ls arbitrary: n seen acc)
  case (Cons line ls)
  then show ?case by (cases "expansion_line line") (auto simp: legs_end)
qed simp

lemma run_subqueries_ends: "0 < fetch_size \<Longrightarrow> run_subqueries qe st cols fetch_size d n subs acc \<noteq> Inl SLoops"
  by (induction subs arbitrary: n acc) (auto simp: legs_end)

lemma expand_mode_ends:
  assumes "0 < fetch_size"
  shows "snd (expand_mode qe st cols fetch_size d txt intent no_expand cache) \<noteq> Inl SLoops"
proof -
  have "rbind (check_at qe ''embedding the query'' 0 d) (\<lambda>_. run_leg qe st cols fetch_size VecQ txt) \<noteq> Inl SLoops"
    using assms by (simp add: legs_end)
  moreover have "check_at qe ''query expansion'' 0 d \<noteq> Inl SLoops" by (rule check_at_ends)
  moreover have "parse_and_run_expansion qe st cols fetch_size d e txt legs \<noteq> Inl SLoops" for e legs
    using assms by (simp add: parse_and_run_expansion_def run_expansion_ends)
  ultimately show ?thesis
    by (auto simp: expand_mode_def Let_def split: sum.splits prod.splits)
qed

lemma retrieve_ends: "0 < fetch_size \<Longrightarrow>
    snd (retrieve_ranked_lists qe st parsed intent query cols fetch_size no_expand d cache) \<noteq> Inl SLoops"
  by (auto simp: retrieve_ranked_lists_def run_subqueries_ends expand_mode_ends)

lemma rmap_ends: "(\<And>x. x \<in> set xs \<Longrightarrow> f x \<noteq> Inl e) \<Longrightarrow> rmap f xs \<noteq> Inl e"
  by (induction xs) (auto simp: rbind_fails)

lemma best_of_ends: "best_of qe path body terms n \<noteq> Inl SLoops"
  by (auto simp: best_of_def split: option.splits)

lemma candidate_sections_ends: "candidate_sections qe terms n budget cands \<noteq> Inl SLoops"
  by (induction cands arbitrary: budget) (auto simp: rbind_fails best_of_ends)

lemma select_chunks_ends: "select_chunks qe query intent cands n \<noteq> Inl SLoops"
  by (simp add: select_chunks_def candidate_sections_ends)

lemma retrieve_never_loops:
  "0 < fetch_size \<Longrightarrow> retrieve_ranked_lists qe st parsed intent query cols fetch_size no_expand d cache \<noteq> (cache', Inl SLoops)"
  using retrieve_ends [of fetch_size qe st parsed intent query cols no_expand d cache] by auto

text \<open>C25: A hybrid query always ends: whatever the models answer, whatever the index holds and the
  limit asked for, the widening search never runs for ever.\<close>

theorem hybrid_query_ends:
  "snd (hybrid_query_outcome_with qe st query intent limit cols skip_rerank no_expand d strict options cache) \<noteq> Inl SLoops"
  unfolding hybrid_query_outcome_with_def
  by (auto simp: Let_def legs_end select_chunks_ends retrieve_never_loops [OF pool_size_bounds(3)]
      split: sum.splits prod.splits if_splits)

subsection \<open>Reranking is an enhancement\<close>

lemma rerank_status_cases:
  assumes "rerank_chunks qe q chunks skip soft cache = (cache', scores, status)"
  shows "scores = None \<and> status \<noteq> Reranked
    \<or> (\<exists>s. scores = Some s \<and> status = Reranked \<and> length s = length chunks \<and> list_ex is_finite s)"
  using assms by (auto simp: rerank_chunks_def split: if_splits prod.splits sum.splits option.splits)

lemma rerank_skipped: "rerank_chunks qe q chunks True soft cache = (cache, None, NotRun)"
  by (simp add: rerank_chunks_def)


subsection \<open>The rerank pass stays within its ceiling\<close>

lemma best_of_length: "best_of qe path body terms n = Inr s \<Longrightarrow> 1 \<le> n \<Longrightarrow> 1 \<le> length s \<and> length s \<le> n"
proof -
  assume b: "best_of qe path body terms n = Inr s" and n: "1 \<le> n"
  let ?e = "q_env qe"
  have b': "best_chunks (e_uc ?e) (e_feats ?e) (e_parse ?e) path body terms n = Some s"
    using b by (auto simp: best_of_def split: option.splits)
  then obtain chunks where c: "chunk_document_for_path (e_uc ?e) (e_feats ?e) (e_parse ?e) path body = Some chunks"
    by (auto simp: best_chunks_def)
  show ?thesis
  proof (cases "chunks = [] \<or> terms = []")
    case True
    have "s = (case chunks of [] \<Rightarrow> [([], 0)]
        | c # _ \<Rightarrow> if terms = [] then [(chunk_text c, chunk_pos c)]
            else map (\<lambda>c. (chunk_text c, chunk_pos c)) (pick_loop (e_uc ?e) terms n (scored_chunks (e_uc ?e) terms chunks) []))"
      using b' unfolding best_chunks_def c option.map(2) option.inject by (rule sym)
    with True have "length s = 1" by (cases chunks) simp_all
    then show ?thesis using n by simp
  next
    case False
    then have ne: "chunks \<noteq> []" and tm: "terms \<noteq> []" by simp_all
    show ?thesis
    proof (rule best_chunks_sections [OF c ne tm n])
      fix picked
      assume "best_chunks (e_uc ?e) (e_feats ?e) (e_parse ?e) path body terms n = Some (map (\<lambda>c. (chunk_text c, chunk_pos c)) picked)"
        and p: "picked \<noteq> []" "length picked \<le> n"
      then have "s = map (\<lambda>c. (chunk_text c, chunk_pos c)) picked" using b' by simp
      then show ?thesis using p by (cases picked) auto
    qed
  qed
qed

lemma candidate_sections_budget:
  assumes "1 \<le> n" and "candidate_sections qe terms n budget cands = Inr sections"
  shows "length sections = length cands \<and> list_all (\<lambda>s. 1 \<le> length s \<and> length s \<le> n) sections
    \<and> length (concat sections) \<le> length cands + budget"
  using assms(2)
proof (induction cands arbitrary: budget sections)
  case (Cons c cands)
  let ?wanted = "1 + min (n - 1) budget"
  obtain picked rest where p: "best_of qe (filepath (cd_ranked c)) (cd_body c) terms ?wanted = Inr picked"
      "candidate_sections qe terms n (budget - (length picked - 1)) cands = Inr rest" "sections = picked # rest"
    using Cons.prems by (auto elim!: rbind_InrE)
  have "1 \<le> length picked" "length picked \<le> ?wanted" using best_of_length [OF p(1)] by auto
  with Cons.IH [OF p(2)] p(3) assms(1) show ?case by auto
qed simp

lemma length_map_filter: "length (List.map_filter f xs) \<le> length xs"
  by (simp add: List.map_filter_def)

lemma fuse_and_resolve_length: "length (fuse_and_resolve_candidates st legs n) \<le> n"
proof -
  have "length (List.map_filter f (take n xs)) \<le> n" for f :: "ranked_result \<Rightarrow> candidate option" and xs
    by (rule order_trans [OF length_map_filter]) simp
  then show ?thesis by (simp add: fuse_and_resolve_candidates_def)
qed

text \<open>C26: However many sections per file are asked for, chunk selection gives every candidate at least
  one and at most \<open>per_file\<close> sections, and one rerank pass never holds more chunks than its ceiling; only
  the chunker can make it fail.\<close>

theorem rerank_pool_ceiling:
  "case select_chunks qe query intent (fuse_and_resolve_candidates st legs (pool_size limit)) (clamp_per_file k) of
     Inl e \<Rightarrow> e = SPanicked
   | Inr sections \<Rightarrow>
       length sections = length (fuse_and_resolve_candidates st legs (pool_size limit))
       \<and> list_all (\<lambda>s. 1 \<le> length s \<and> length s \<le> clamp_per_file k) sections
       \<and> length (chunk_refs sections) \<le> RERANK_POOL_CEILING"
proof -
  let ?cands = "fuse_and_resolve_candidates st legs (pool_size limit)"
  have c: "length ?cands \<le> RERANK_POOL_CEILING"
    using order_trans [OF fuse_and_resolve_length pool_size_bounds(2)] .
  have n: "1 \<le> clamp_per_file k" by (simp add: clamp_per_file_def MAX_PER_FILE_def)
  have e: "candidate_sections qe terms n budget cands = Inl e \<Longrightarrow> e = SPanicked" for terms n budget cands e
    by (induction cands arbitrary: budget) (auto simp: rbind_fails best_of_def split: option.splits)
  show ?thesis
  proof (cases "select_chunks qe query intent ?cands (clamp_per_file k)")
    case (Inr sections)
    then have "candidate_sections qe (query_terms (e_uc (q_env qe)) intent query) (clamp_per_file k)
        (RERANK_POOL_CEILING - length ?cands) ?cands = Inr sections"
      by (simp add: select_chunks_def)
    from candidate_sections_budget [OF n this] show ?thesis using Inr c by (auto simp: chunk_refs_def)
  qed (auto simp: select_chunks_def dest: e)
qed

subsection \<open>The cache never changes an answer\<close>

definition models_match ::
  "('ix, 'v, 'f, 'g) qenv \<Rightarrow> (string \<Rightarrow> string \<Rightarrow> string \<Rightarrow> flt) \<Rightarrow> (string \<times> string \<Rightarrow> string) \<Rightarrow> bool" where
  "models_match qe f g \<longleftrightarrow>
     (\<forall>model prompt. q_generate_id qe = Some model \<longrightarrow> q_generate qe prompt = Inr (g (prompt, model)))
     \<and> (\<forall>model query docs. q_rerank_id qe = Some model \<longrightarrow> q_rerank qe query docs = Inr (map (f model query) docs))"

definition cache_true ::
  "('ix, 'v, 'f, 'g) qenv \<Rightarrow> (string \<Rightarrow> string \<Rightarrow> string \<Rightarrow> flt) \<Rightarrow> (string \<times> string \<Rightarrow> string) \<Rightarrow> model_cache option \<Rightarrow> bool" where
  "cache_true qe f g cache \<longleftrightarrow>
     (\<forall>mc. cache = Some mc \<longrightarrow> rerank_sound (q_raw_sha qe) (q_hex qe) (q_pkg qe) f mc
       \<and> expansion_sound (q_raw_sha qe) (q_pkg qe) g mc)"

lemma cache_true_None [simp]: "cache_true qe f g None"
  by (simp add: cache_true_def)

lemma cache_true_put:
  assumes "cache_true qe f g cache" and "\<And>mc. cache_true qe f g (Some mc) \<Longrightarrow> cache_true qe f g (Some (put mc))"
  shows "cache_true qe f g (cache_put err put cache)"
  using assms by (auto simp: cache_put_def cache_failed_def split: option.splits cache_err.splits)

lemma cache_true_failed: "cache_true qe f g cache \<Longrightarrow> cache_true qe f g (cache_failed e cache)"
  by (auto simp: cache_failed_def split: cache_err.splits)

lemma put_expansion_sound:
  "expansion_sound sha pkg g mc \<Longrightarrow> expansion_sound sha pkg g (put_expansion sha pkg prompt model (g (prompt, model)) mc)"
  using expansions.put_sound [of sha pkg g mc "(prompt, model)"] by simp

lemma get_expansion_sound:
  "expansion_sound sha pkg g mc \<Longrightarrow> get_expansion sha pkg prompt model mc = Some out \<Longrightarrow> out = g (prompt, model)"
  using expansions.get_sound [of sha pkg g mc "(prompt, model)" out] by simp


lemma generate_expansion_true:
  assumes m: "models_match qe f g" and c: "cache_true qe f g cache"
  shows "snd (generate_expansion qe prompt cache) = q_generate qe prompt
    \<and> cache_true qe f g (fst (generate_expansion qe prompt cache))"
proof (cases "cache = None \<or> q_generate_id qe = None")
  case True
  then show ?thesis using c by (auto simp: generate_expansion_def split: option.splits)
next
  case False
  then obtain mc model where mc: "cache = Some mc" and model: "q_generate_id qe = Some model" by auto
  have gen: "q_generate qe prompt = Inr (g (prompt, model))" using m model by (simp add: models_match_def)
  have hit: "get_expansion (q_raw_sha qe) (q_pkg qe) prompt model mc = Some out \<Longrightarrow> out = g (prompt, model)" for out
    using c mc get_expansion_sound unfolding cache_true_def by blast
  have put: "cache_true qe f g (cache_put err (put_expansion (q_raw_sha qe) (q_pkg qe) prompt model (g (prompt, model))) cache')"
    if "cache_true qe f g cache'" for err cache'
    using that by (rule cache_true_put) (simp add: cache_true_def put_expansion_sound put_expansion_keeps_scores)
  show ?thesis
    unfolding generate_expansion_def mc model prod.case option.case Let_def gen
    using put [OF c] put [OF cache_true_failed [OF c]] hit
    by (auto simp: mc split: option.splits)
qed

lemma rerank_slices_pure:
  assumes "\<And>docs. q_rerank qe query docs = Inr (map h docs)"
  shows "rerank_slices qe query None parts scores = Inr (Some (scores @ map h (concat parts)))"
  by (induction parts arbitrary: scores) (simp_all add: assms)

lemma rerank_candidates_pure:
  assumes "\<And>docs. q_rerank qe query docs = Inr (map h docs)"
  shows "rerank_candidates qe query chunks None = Inr (Some (map h chunks))"
proof -
  have "0 < (if q_observed qe then RERANK_PROGRESS_SLICE else max (length chunks) 1)"
    by (auto simp: RERANK_PROGRESS_SLICE_def)
  then show ?thesis
    by (simp add: rerank_candidates_def rerank_slices_pure [OF assms] concat_batches del: max_less_iff_conj)
qed

lemma merge_scores_pure:
  "length cached = length chunks \<Longrightarrow> (\<And>i v. i < length chunks \<Longrightarrow> cached ! i = Some v \<Longrightarrow> v = h (chunks ! i)) \<Longrightarrow>
   merge_scores cached (map h (map fst (filter (\<lambda>(_, s). s = None) (zip chunks cached)))) = map h chunks"
proof (induction cached chunks rule: list_induct2)
  case (Cons x xs y ys)
  have "\<And>i v. i < length ys \<Longrightarrow> xs ! i = Some v \<Longrightarrow> v = h (ys ! i)" using Cons.prems [of "Suc _"] by auto
  with Cons.IH have ih: "merge_scores xs (map h (map fst (filter (\<lambda>(_, s). s = None) (zip ys xs)))) = map h ys" by blast
  show ?case using ih Cons.prems [of 0] by (cases x) simp_all
qed simp

lemma length_get_rerank_scores [simp]: "length (get_rerank_scores sha hex pkg query model chunks mc) = length chunks"
  by (simp add: get_rerank_scores_def)

lemma rerank_cached_true:
  assumes m: "models_match qe f g" and c: "cache_true qe f g cache"
  shows "snd (rerank_candidates_cached qe query chunks None cache) = rerank_candidates qe query chunks None
    \<and> cache_true qe f g (fst (rerank_candidates_cached qe query chunks None cache))"
proof (cases "cache = None \<or> q_rerank_id qe = None")
  case True
  then show ?thesis using c by (auto simp: rerank_candidates_cached_def split: option.splits)
next
  case False
  then obtain mc model where mc: "cache = Some mc" and model: "q_rerank_id qe = Some model" by auto
  define h where "h = f model query"
  have h: "q_rerank qe query docs = Inr (map h docs)" for docs using m model by (simp add: models_match_def h_def)
  note plain = rerank_candidates_pure [OF h]
  define got where "got = (case q_cache_err qe ''get rerank'' of
      None \<Rightarrow> (cache, get_rerank_scores (q_raw_sha qe) (q_hex qe) (q_pkg qe) query model chunks mc)
    | Some e \<Rightarrow> (cache_failed e cache, replicate (length chunks) None))"
  have t: "cache_true qe f g (fst got)" using c cache_true_failed [OF c] by (auto simp: got_def split: option.splits)
  have l: "length (snd got) = length chunks" by (auto simp: got_def split: option.splits)
  have s: "\<And>i v. i < length chunks \<Longrightarrow> snd got ! i = Some v \<Longrightarrow> v = h (chunks ! i)"
    using c mc by (auto simp: got_def h_def cache_true_def get_rerank_scores_sound split: option.splits)
  have merge: "merge_scores (snd got) (map h (map fst (filter (\<lambda>(_, s). s = None) (zip chunks (snd got))))) = map h chunks"
    using l s by (rule merge_scores_pure)
  have r: "rerank_candidates_cached qe query chunks None cache =
      (fst got, Inr (Some (map h chunks)))"
    unfolding rerank_candidates_cached_def mc model prod.case option.case got_def [unfolded mc, symmetric]
    using merge by (auto simp: plain Let_def case_prod_beta comp_def)
  then show ?thesis using t by (simp add: plain)
qed

lemma rerank_cached_None: "rerank_candidates_cached qe query chunks soft None = (None, rerank_candidates qe query chunks soft)"
  by (simp add: rerank_candidates_cached_def)

lemma generate_None: "generate_expansion qe prompt None = (None, q_generate qe prompt)"
  by (simp add: generate_expansion_def)

lemma remember_true:
  assumes m: "models_match qe f g" and c: "cache_true qe f g cache" and s: "q_rerank_id qe \<noteq> None \<Longrightarrow> scores = map (f (the (q_rerank_id qe)) query) chunks"
  shows "cache_true qe f g (remember_rerank_scores qe query chunks scores cache)"
proof (cases "q_rerank_id qe")
  case (Some model)
  then have "\<forall>(c, x)\<in>set (zip chunks scores). x = f model query c" using s by (auto simp: in_set_zip)
  then show ?thesis
    unfolding remember_rerank_scores_def Some option.case using c
    by (intro cache_true_put) (simp_all add: cache_true_def put_rerank_scores_sound put_rerank_keeps_expansions)
qed (simp add: remember_rerank_scores_def c)

lemma rerank_chunks_true:
  assumes m: "models_match qe f g" and c: "cache_true qe f g cache"
  shows "snd (rerank_chunks qe query chunks skip None cache) = snd (rerank_chunks qe query chunks skip None None)
    \<and> cache_true qe f g (fst (rerank_chunks qe query chunks skip None cache))"
proof -
  obtain cache' r where r: "rerank_candidates_cached qe query chunks None cache = (cache', r)" by fastforce
  have eq: "r = rerank_candidates qe query chunks None" and t: "cache_true qe f g cache'"
    using rerank_cached_true [OF m c, of query chunks] by (simp_all add: r)
  have pure: "scores = map (f model query) chunks" if "r = Inr (Some scores)" "q_rerank_id qe = Some model" for scores model
    using that m rerank_candidates_pure [of qe query "f model query"] by (simp add: eq models_match_def)
  have "cache_true qe f g (remember_rerank_scores qe query chunks scores cache')" if "r = Inr (Some scores)" for scores
    using pure [OF that] by (intro remember_true [OF m t]) auto
  then show ?thesis
    using t c unfolding rerank_chunks_def r rerank_cached_None eq [symmetric]
    by (auto split: sum.splits option.splits)
qed

lemma retrieve_true:
  assumes m: "models_match qe f g" and c: "cache_true qe f g cache"
  shows "snd (retrieve_ranked_lists qe st parsed intent query cols n no_expand d cache)
      = snd (retrieve_ranked_lists qe st parsed intent query cols n no_expand d None)
    \<and> cache_true qe f g (fst (retrieve_ranked_lists qe st parsed intent query cols n no_expand d cache))"
proof -
  have e: "snd (expand_mode qe st cols n d tx intent no_expand cache) = snd (expand_mode qe st cols n d tx intent no_expand None)
      \<and> cache_true qe f g (fst (expand_mode qe st cols n d tx intent no_expand cache))" for tx
  proof -
    obtain cache' r where r: "generate_expansion qe (build_expansion_prompt tx intent) cache = (cache', r)" by fastforce
    have eq: "r = q_generate qe (build_expansion_prompt tx intent)" and t: "cache_true qe f g cache'"
      using generate_expansion_true [OF m c, of "build_expansion_prompt tx intent"] by (simp_all add: r)
    show ?thesis
      unfolding expand_mode_def r generate_None eq [symmetric]
      using c t by (auto simp: Let_def split: sum.splits)
  qed
  show ?thesis using e c by (simp add: retrieve_ranked_lists_def)
qed


text \<open>A query environment to run the searches in: a store with one indexed note.\<close>

definition sample_score :: "string \<Rightarrow> string \<Rightarrow> string \<Rightarrow> flt" where
  "sample_score model query chunk = f32_of (if length query mod 256 = 4 then 1 else 1 / 2)"

definition sample_qenv :: "(nat \<times> (nat \<times> nat) list, nat, nat \<times> (nat \<times> nat) list, unit) qenv" where
  "sample_qenv =
     \<lparr>q_env = sample_env, q_codec = line_codec, q_gs = \<lparr>gs_glob = (\<lambda>_. None), gs_build = (\<lambda>_. Some (\<lambda>_. False))\<rparr>,
      q_ranked = (\<lambda>query es. map (\<lambda>e. (Fin 1, e)) es), q_query = (\<lambda>s. Inr (length s)), q_passage = (\<lambda>s. Inr (length s)),
      q_can_generate = True, q_generate = (\<lambda>prompt. Inr (''lex:'' @ prompt)), q_can_rerank = True,
      q_rerank = (\<lambda>query docs. Inr (map (sample_score [] query) docs)),
      q_rerank_until = (\<lambda>query docs d. Inr (Some (map (sample_score [] query) docs))),
      q_generate_id = Some ''g'', q_rerank_id = Some ''r'', q_raw_sha = (\<lambda>s. s), q_hex = (\<lambda>s. s), q_pkg = ''1'',
      q_cache_err = (\<lambda>_. None), q_exp2 = (\<lambda>x. x), q_now = (\<lambda>_ _. 0), q_wall = 0, q_observed = True\<rparr>"

definition sample_store :: "(nat \<times> (nat \<times> nat) list, nat \<times> (nat \<times> nat) list) store" where
  "sample_store = fst (index_document_fts_only_with_raw sample_env ''c'' ''a.md'' ''A'' ''body'' ''body'' empty_store)"

lemma sample_models_match: "models_match sample_qenv sample_score (\<lambda>(prompt, model). ''lex:'' @ prompt)"
  by (simp add: models_match_def sample_qenv_def sample_score_def)

lemma sample_cache_true: "cache_true sample_qenv sample_score (\<lambda>(prompt, model). ''lex:'' @ prompt) (Some (cache_open None))"
proof -
  have c: "length (le64 n) = 8" for n by (simp add: le64_def)
  have "drop 25 (expansion_key (\<lambda>s. s) prompt) = prompt" for prompt
    by (simp add: expansion_key_def digest_def digest_input_def c)
  then have e: "collision_free (expansion_key (\<lambda>s. s)) (\<lambda>model prompt. ''lex:'' @ prompt)"
    unfolding collision_free_def by metis
  have "le64 n ! 0 = char_of (n mod 256)" for n by (simp add: le64_def)
  then have key: "rerank_key (\<lambda>s. s) (\<lambda>s. s) q k ! 14 = char_of (length q mod 256)" for q k
    by (simp add: rerank_key_def digest_def digest_input_def nth_append c)
  have "length q mod 256 = length q' mod 256"
    if "rerank_key (\<lambda>s. s) (\<lambda>s. s) q k = rerank_key (\<lambda>s. s) (\<lambda>s. s) q' k'" for q k q' k'
  proof -
    have "(char_of (length q mod 256) :: char) = char_of (length q' mod 256)"
      using arg_cong [OF that, of "\<lambda>s. s ! 14"] unfolding key .
    from arg_cong [OF this, of "of_char :: char \<Rightarrow> nat"] show ?thesis by simp
  qed
  then have same: "sample_score m q k = sample_score m q' k'"
    if "rerank_key (\<lambda>s. s) (\<lambda>s. s) q k = rerank_key (\<lambda>s. s) (\<lambda>s. s) q' k'" for m q k q' k'
    unfolding sample_score_def using that by metis
  have r: "collision_free (\<lambda>(q, c). rerank_key (\<lambda>s. s) (\<lambda>s. s) q c) (\<lambda>model (q, c). sample_score model q c)"
    unfolding collision_free_def split_paired_All prod.case by (intro allI impI) (rule same)
  show ?thesis
    using e r by (simp add: cache_true_def sample_qenv_def cache_open_def cache_open_with_limit_def rerank_sound_def
        expansion_sound_def rows_sound_def sample_score_def f32_of_def)
qed


end
