(* ===== verification/SearchScope.thy ===== *)
theory SearchScope
  imports HybridSpec
begin

text \<open>
  What a search shows: documents stored in the collections it was asked to search, with their bodies,
  and no document kept out of the vector index through a vector.
\<close>

subsection \<open>Paths\<close>

text \<open>A collection's name holds no slash: \<open>validate_collection_name\<close> of the CLI.\<close>

abbreviation plain_names :: "string list \<Rightarrow> bool" where
  "plain_names cols \<equiv> list_all (\<lambda>c. CHR ''/'' \<notin> set c) cols"

lemma split_once_append: "c \<notin> set a \<Longrightarrow> split_once c (a @ c # b) = Some (a, b)"
  by (induction a) auto

lemma split_full_path [simp]: "CHR ''/'' \<notin> set c \<Longrightarrow> split_filepath (full_path c path) = (c, path)"
  by (simp add: split_filepath_def full_path_def split_once_append)

definition path_in :: "string list \<Rightarrow> string \<Rightarrow> bool" where
  "path_in cols path \<longleftrightarrow> fst (split_filepath path) \<in> set cols"

lemma scope_path:
  assumes "plain_names cols" and "cols \<noteq> []" and "in_scope_path (Some cols) path"
  shows "path_in cols path"
proof -
  obtain c where c: "c \<in> set cols" "starts_with (c @ ''/'') path \<or> path = c"
    using assms(2,3) by (auto simp: in_scope_path_def list_ex_iff)
  have n: "CHR ''/'' \<notin> set c" using assms(1) c(1) by (simp add: list_all_iff)
  have "fst (split_filepath path) = c"
  proof (cases "path = c")
    case True
    then show ?thesis using n by (simp add: split_filepath_def split_once_None [THEN iffD2])
  next
    case False
    then have "take (length (c @ ''/'')) path = c @ ''/''" using c(2) by (simp add: starts_with_def)
    then have "path = full_path c (drop (length (c @ ''/'')) path)"
      using append_take_drop_id [of "length (c @ ''/'')" path] by (simp add: full_path_def)
    then show ?thesis using split_full_path [OF n] by (metis fst_conv)
  qed
  then show ?thesis using c(1) by (simp add: path_in_def)
qed

subsection \<open>What a result shows\<close>

definition shows_doc :: "('ix, 'f) store \<Rightarrow> string list \<Rightarrow> search_result \<Rightarrow> bool" where
  "shows_doc st cols r \<longleftrightarrow>
     sr_collection r \<in> set cols
     \<and> (case get_document_by_filepath (sr_collection r) (sr_path r) (st_db st) of
          None \<Rightarrow> False
        | Some d \<Rightarrow> sr_body r = raw_body st (doc_id d)
            \<and> sr_docid r = (case docid_from_hash (doc_hash d) of Some i \<Rightarrow> i | None \<Rightarrow> []))"

definition pick_shows :: "('ix, 'f) store \<Rightarrow> string list \<Rightarrow> pick_doc list \<Rightarrow> pick \<Rightarrow> bool" where
  "pick_shows st cols docs p \<longleftrightarrow>
     path_in cols (pk_filepath p)
     \<and> (\<exists>d. get_document_by_filepath (fst (split_filepath (pk_filepath p))) (snd (split_filepath (pk_filepath p))) (st_db st) = Some d
          \<and> pd_body (docs ! pk_doc p) = raw_body st (doc_id d) \<and> pd_hash (docs ! pk_doc p) = doc_hash d)"

lemma picks_show: "(\<And>p. p \<in> set picks \<Longrightarrow> pick_shows st cols docs p) \<Longrightarrow> list_all (shows_doc st cols) (picks_to_results st docs picks)"
  by (fastforce simp: list_all_iff picks_to_results_def section_result_def shows_doc_def pick_shows_def path_in_def case_prod_beta Let_def)

lemma set_rank_picks: "set (rank_picks limit picks) \<subseteq> set picks"
  by (auto simp: rank_picks_def dest: in_set_takeD)

lemma length_rank_picks: "length (rank_picks limit picks) \<le> limit"
  by (simp add: rank_picks_def)

lemma picks_to_results_length [simp]: "length (picks_to_results st docs picks) = length picks"
  by (simp add: picks_to_results_def)

subsection \<open>A vector leads to a document that may be found through it\<close>

definition reachable_by_vector :: "('ix, 'v, 'f, 'g) qenv \<Rightarrow> ('ix, 'f) store \<Rightarrow> string list option \<Rightarrow> document \<Rightarrow> bool" where
  "reachable_by_vector qe st cols d \<longleftrightarrow>
     (\<exists>r\<in>set (documents (st_db st)). d = to_document r \<and> d_active r \<and> in_collections cols (d_collection r)
        \<and> exclusion_reason (exclusions_of qe st) (d_collection r) (d_path r)
            (case get_content (d_hash r) (st_db st) of Some doc \<Rightarrow> length doc | None \<Rightarrow> 0) = None)"

lemma vid_candidates_rows:
  "(r, v) \<in> set (vid_candidates db vid cols) \<Longrightarrow>
    r \<in> set (documents db) \<and> d_active r \<and> in_collections cols (d_collection r) \<and> d_hash r = v_hash v"
  by (auto simp: vid_candidates_def)

lemma vec_doc_reachable: "vec_doc qe st cols vid = Some (d, pos) \<Longrightarrow> reachable_by_vector qe st cols d"
proof -
  assume v: "vec_doc qe st cols vid = Some (d, pos)"
  let ?ex = "exclusions_of qe st"
  show ?thesis
  proof (cases "no_exclusions ?ex")
    case True
    then obtain r w where "(r, w) \<in> set (vid_candidates (st_db st) vid cols)" "d = to_document r"
      using v by (auto simp: vec_doc_def doc_chunk_for_vid_in_excluding_def doc_chunk_for_vid_in_def Let_def split: list.splits)
    moreover have "exclusion_reason ?ex c p n = None" for c p n
      using True by (simp add: no_exclusions_def exclusion_reason_def)
    ultimately show ?thesis using vid_candidates_rows by (fastforce simp: reachable_by_vector_def)
  next
    case False
    then obtain r w where f: "find (\<lambda>(r, v). \<not> exclusion_reason ?ex (d_collection r) (d_path r)
          (case get_content (v_hash v) (st_db st) of Some doc \<Rightarrow> length doc | None \<Rightarrow> 0) \<noteq> None) (vid_candidates (st_db st) vid cols) = Some (r, w)"
        and d: "d = to_document r"
      using v by (auto simp: vec_doc_def doc_chunk_for_vid_in_excluding_def Let_def split: option.splits)
    then have "(r, w) \<in> set (vid_candidates (st_db st) vid cols)"
        "exclusion_reason ?ex (d_collection r) (d_path r) (case get_content (v_hash w) (st_db st) of Some doc \<Rightarrow> length doc | None \<Rightarrow> 0) = None"
      by (auto simp: find_Some_iff dest: nth_mem)
    then show ?thesis using vid_candidates_rows d by (fastforce simp: reachable_by_vector_def)
  qed
qed

lemma reachable_stored:
  assumes ok: "db_ok (st_db st)" and d: "reachable_by_vector qe st (Some cols) d" and ne: "cols \<noteq> []"
  shows "doc_collection d \<in> set cols \<and> get_document_by_filepath (doc_collection d) (doc_path d) (st_db st) = Some d"
proof -
  obtain r where r: "r \<in> set (documents (st_db st))" "d = to_document r" "in_collections (Some cols) (d_collection r)"
    using d by (auto simp: reachable_by_vector_def)
  then have "tab_find doc_key (doc_key r) (documents (st_db st)) = Some r"
    using tab_find_unique [OF db_okD(2) [OF ok]] by blast
  then show ?thesis using r(2,3) ne by (auto simp: to_document_def get_document_by_filepath_def in_collections_def)
qed

subsection \<open>Keyword search\<close>

lemma rmap_set: "rmap f xs = Inr ys \<Longrightarrow> y \<in> set ys \<Longrightarrow> \<exists>x\<in>set xs. f x = Inr y"
  by (induction xs arbitrary: ys) (auto elim!: rbind_InrE)

lemma rmap_Inl: "rmap f xs = Inl e \<Longrightarrow> \<exists>x\<in>set xs. f x = Inl e"
  by (induction xs) (auto simp: rbind_fails)

lemma fts_scoped_hits:
  assumes "(path, i, s) \<in> set (fts_scoped qe st query limit (Some cols))" and "cols \<noteq> []"
  shows "in_scope_path (Some cols) path \<and> i \<in> set (active_document_ids_in_collections cols (st_db st))"
  using assms by (auto simp: fts_scoped_def search_fts_scoped_def Let_def split: if_splits dest!: in_set_takeD)

lemma active_id_stored:
  assumes ok: "db_ok (st_db st)" and i: "i \<in> set (active_document_ids_in_collections cols (st_db st))"
    and d: "get_document_by_id i (st_db st) = Some d"
  shows "doc_collection d \<in> set cols \<and> get_document_by_filepath (doc_collection d) (doc_path d) (st_db st) = Some d"
proof -
  obtain r where r: "r \<in> set (documents (st_db st))" "d_collection r \<in> set cols" "d_id r = i"
    using i by (auto simp: active_document_ids_in_collections_def split: if_splits)
  then have "tab_find d_id i (documents (st_db st)) = Some r" using tab_find_unique [OF db_okD(3) [OF ok]] by blast
  then have "d = to_document r" using d by (simp add: get_document_by_id_def)
  moreover have "tab_find doc_key (doc_key r) (documents (st_db st)) = Some r"
    using tab_find_unique [OF db_okD(2) [OF ok]] r(1) by blast
  ultimately show ?thesis using r(2) by (simp add: to_document_def get_document_by_filepath_def)
qed

text \<open>A hit list whose ids are documents of \<open>cols\<close>.\<close>

definition hits_in :: "('ix, 'f) store \<Rightarrow> string list \<Rightarrow> (string \<times> int \<times> flt) list \<Rightarrow> bool" where
  "hits_in st cols hits \<longleftrightarrow> (\<forall>h\<in>set hits. fst (snd h) \<in> set (active_document_ids_in_collections cols (st_db st)))"

definition found_docs :: "('ix, 'f) store \<Rightarrow> (string \<times> int \<times> flt) list \<Rightarrow> nat \<Rightarrow> (document \<times> flt) list" where
  "found_docs st hits limit =
     List.map_filter (\<lambda>(_, i, s). map_option (\<lambda>d. (d, s)) (get_document_by_id i (st_db st))) (take limit hits)"

lemma found_docs_stored:
  assumes "db_ok (st_db st)" and "hits_in st cols hits" and "(d, s) \<in> set (found_docs st hits limit)"
  shows "doc_collection d \<in> set cols \<and> get_document_by_filepath (doc_collection d) (doc_path d) (st_db st) = Some d"
proof -
  obtain path i where "(path, i, s) \<in> set hits" "get_document_by_id i (st_db st) = Some d"
    using assms(3) unfolding found_docs_def in_map_filter by (auto dest: in_set_takeD)
  then show ?thesis using active_id_stored [OF assms(1), of i] assms(2) by (fastforce simp: hits_in_def)
qed

lemma length_found_docs: "length (found_docs st hits limit) \<le> limit"
  unfolding found_docs_def by (rule order_trans [OF length_map_filter]) simp

lemma result_from_doc_shows:
  assumes "result_from_doc qe st d (raw_body st (doc_id d)) s = Inr r"
    and "doc_collection d \<in> set cols" and "get_document_by_filepath (doc_collection d) (doc_path d) (st_db st) = Some d"
  shows "shows_doc st cols r"
  using assms by (auto simp: result_from_doc_def shows_doc_def split: option.splits)

lemma result_from_doc_fails: "result_from_doc qe st d body s = Inl e \<Longrightarrow> e = SPanicked"
  by (auto simp: result_from_doc_def split: option.splits)

lemma best_of_fails: "best_of qe path body terms n = Inl e \<Longrightarrow> e = SPanicked"
  by (auto simp: best_of_def split: option.splits)

lemma hits_to_results_show:
  assumes "db_ok (st_db st)" and "hits_in st cols hits"
  shows "case hits_to_results qe st hits limit of
      Inl e \<Rightarrow> e = SPanicked | Inr rs \<Rightarrow> length rs \<le> limit \<and> list_all (shows_doc st cols) rs"
proof (cases "hits_to_results qe st hits limit")
  case (Inl e)
  then show ?thesis by (auto simp: hits_to_results_def dest!: rmap_Inl result_from_doc_fails)
next
  case (Inr rs)
  then have r: "rmap (\<lambda>(d, s). result_from_doc qe st d (raw_body st (doc_id d)) s) (found_docs st hits limit) = Inr rs"
    by (simp add: hits_to_results_def found_docs_def)
  have "shows_doc st cols x" if "x \<in> set rs" for x
    using rmap_set [OF r that] found_docs_stored [OF assms] result_from_doc_shows by fastforce
  then show ?thesis using rmap_Inr_length [OF r] length_found_docs [of st hits limit] Inr by (simp add: list_all_iff)
qed

lemma hits_to_sections_show:
  assumes ok: "db_ok (st_db st)" "hits_in st cols hits" and plain: "plain_names cols"
  shows "case hits_to_sections qe st hits query limit n of
      Inl e \<Rightarrow> e = SPanicked | Inr rs \<Rightarrow> length rs \<le> limit \<and> list_all (shows_doc st cols) rs"
proof -
  define found where "found = found_docs st hits limit"
  define docs where "docs = map (\<lambda>(d, _). \<lparr>pd_title = doc_title d, pd_hash = doc_hash d, pd_body = raw_body st (doc_id d)\<rparr>) found"
  let ?sec = "\<lambda>(i, (d, s)). rbind (best_of qe (full_path (doc_collection d) (doc_path d)) (raw_body st (doc_id d))
      (keyword_terms (e_uc (q_env qe)) query) n) (\<lambda>chunks. Inr (document_picks (full_path (doc_collection d) (doc_path d)) i s chunks))"
  have eq: "hits_to_sections qe st hits query limit n = rbind (rmap ?sec (enumerate 0 found))
      (\<lambda>picks. Inr (picks_to_results st docs (rank_picks limit (concat picks))))"
    by (simp add: hits_to_sections_def Let_def found_def docs_def found_docs_def)
  show ?thesis
  proof (cases "rmap ?sec (enumerate 0 found)")
    case (Inl e)
    then show ?thesis unfolding eq by (auto simp: rbind_fails dest!: rmap_Inl best_of_fails)
  next
    case (Inr picks)
    have "pick_shows st cols docs p" if p: "p \<in> set (concat picks)" for p
    proof -
      obtain ps where ps: "ps \<in> set picks" "p \<in> set ps" using p by auto
      obtain i d s where x: "(i, (d, s)) \<in> set (enumerate 0 found)" "?sec (i, (d, s)) = Inr ps"
        using rmap_set [OF Inr ps(1)] by auto
      then obtain chunks where c: "ps = document_picks (full_path (doc_collection d) (doc_path d)) i s chunks"
        by (auto elim!: rbind_InrE)
      have i: "i < length found" "found ! i = (d, s)" using x(1) by (auto simp: in_set_enumerate_eq)
      then have st: "doc_collection d \<in> set cols" "get_document_by_filepath (doc_collection d) (doc_path d) (st_db st) = Some d"
        using found_docs_stored [OF ok, of d s limit] nth_mem [OF i(1)] by (simp_all add: found_def)
      have "CHR ''/'' \<notin> set (doc_collection d)" using plain st(1) by (simp add: list_all_iff)
      moreover have "pk_filepath p = full_path (doc_collection d) (doc_path d)" "pk_doc p = i"
        using ps(2) by (auto simp: c document_picks_def)
      ultimately show ?thesis using st i by (simp add: pick_shows_def path_in_def docs_def)
    qed
    then have "list_all (shows_doc st cols) (picks_to_results st docs (rank_picks limit (concat picks)))"
      using set_rank_picks by (intro picks_show) blast
    then show ?thesis unfolding eq Inr using length_rank_picks by simp
  qed
qed

lemma keyword_search_shows:
  assumes ok: "db_ok (st_db st)" and e: "effective_collections (q_codec qe) (st_db st) cols = Some cs" and plain: "plain_names cs"
  shows "case store_search_fts_multi_with qe st query limit cols options of
      Inl e \<Rightarrow> e = SPanicked | Inr rs \<Rightarrow> length rs \<le> limit \<and> list_all (shows_doc st cs) rs"
proof (cases "cs = []")
  case False
  define hits where "hits = (case opt_recency options of
      None \<Rightarrow> fts_scoped qe st query limit (Some cs)
    | Some r \<Rightarrow> weight_hits qe st r (fts_scoped qe st query (recency_pool limit) (Some cs)))"
  have in_scope: "hits_in st cs (fts_scoped qe st query n (Some cs))" for n
    using fts_scoped_hits [OF _ False] by (fastforce simp: hits_in_def)
  have "hits_in st cs hits"
    using in_scope [of limit] in_scope [of "recency_pool limit"]
    by (fastforce simp: hits_def hits_in_def weight_hits_def split: option.splits)
  from hits_to_results_show [OF ok this, where qe = qe and limit = limit]
    hits_to_sections_show [OF ok this plain, where qe = qe and query = query and limit = limit and n = "clamp_per_file (per_file options)"]
    False
  show ?thesis by (simp add: store_search_fts_multi_with_def e hits_def [symmetric] Let_def)
qed (simp add: store_search_fts_multi_with_def e)

text \<open>A keyword search in given collections answers with at most \<open>limit\<close> results, each of them a
  document stored in one of the collections with its body and docid; it fails only when the chunker does.
  It holds whatever the full-text index holds: stale or foreign entries are never shown.\<close>

theorem keyword_results_in_scope:
  assumes ok: "db_ok (st_db st)" and e: "effective_collections (q_codec qe) (st_db st) cols = Some cs" and plain: "plain_names cs"
  shows "case store_search_fts_multi_with qe st query limit cols options of
      Inl e \<Rightarrow> e = SPanicked | Inr rs \<Rightarrow> length rs \<le> limit \<and> list_all (shows_doc st cs) rs"
  using assms by (rule keyword_search_shows)

lemma keyword_results_in_scope_witness:
  "case store_search_fts_multi_with sample_qenv empty_store ''body'' 5 (Some [''c'']) search_options_default of
      Inl e \<Rightarrow> e = SPanicked | Inr rs \<Rightarrow> length rs \<le> 5 \<and> list_all (shows_doc empty_store [''c'']) rs"
proof (rule keyword_results_in_scope)
  show "db_ok (st_db empty_store)" by (simp add: empty_store_def db_ok_empty)
  show "effective_collections (q_codec sample_qenv) (st_db empty_store) (Some [''c'']) = Some [''c'']"
    by (simp add: effective_collections_def)
qed simp

subsection \<open>Vector search\<close>

definition groups_ok :: "('ix, 'v, 'f, 'g) qenv \<Rightarrow> ('ix, 'f) store \<Rightarrow> string list option \<Rightarrow> doc_hits list \<Rightarrow> bool" where
  "groups_ok qe st cols by_doc \<longleftrightarrow>
     (\<forall>e\<in>set by_doc. dh_path e = doc_filepath (dh_doc e) \<and> reachable_by_vector qe st cols (dh_doc e))"

lemma set_tab_upsert:
  "r \<in> set (tab_upsert key k new upd rows) \<Longrightarrow> r = new \<or> r \<in> set rows \<or> (\<exists>r'\<in>set rows. r = upd r')"
  by (induction rows) (auto split: if_splits)

lemma groups_ok_add:
  "groups_ok qe st cols by_doc \<Longrightarrow> reachable_by_vector qe st cols (fst dp) \<Longrightarrow> groups_ok qe st cols (add_hit dp sim by_doc)"
  by (auto simp: groups_ok_def add_hit_def dest!: set_tab_upsert)

lemma group_hits_ok: "groups_ok qe st cols (group_hits qe st cols raw)"
proof -
  have "groups_ok qe st cols by_doc \<Longrightarrow>
      groups_ok qe st cols (fold (\<lambda>(vid, sim) by_doc. case vec_doc qe st cols vid of None \<Rightarrow> by_doc | Some dp \<Rightarrow> add_hit dp sim by_doc) raw by_doc)" for by_doc
  proof (induction raw arbitrary: by_doc)
    case (Cons h raw)
    obtain vid sim where h: "h = (vid, sim)" by (cases h)
    show ?case
    proof (cases "vec_doc qe st cols vid")
      case (Some dp)
      then have "reachable_by_vector qe st cols (fst dp)" using vec_doc_reachable by (cases dp) auto
      then show ?thesis using Cons.IH [OF groups_ok_add] Cons.prems by (simp add: h Some)
    qed (use Cons in \<open>simp add: h\<close>)
  qed simp
  from this [of "[]"] show ?thesis by (simp add: group_hits_def) (simp add: groups_ok_def)
qed

lemma vector_answer:
  assumes "run_widen (\<lambda>k. rbind (vi_search us x k h) (\<lambda>raw. Inr (group_hits qe st cols raw))) enough all k = Inr by_doc" and "0 < k"
  shows "groups_ok qe st cols by_doc"
  using run_widen_answer [OF assms(2,1)] group_hits_ok by (auto elim!: rbind_InrE)

lemma doc_picks_from: "p \<in> set (doc_picks qe st recency n i e) \<Longrightarrow> pk_doc p = i \<and> pk_filepath p = dh_path e"
  by (auto simp: doc_picks_def)

definition shows_reachable :: "('ix, 'v, 'f, 'g) qenv \<Rightarrow> ('ix, 'f) store \<Rightarrow> string list \<Rightarrow> search_result \<Rightarrow> bool" where
  "shows_reachable qe st cols r \<longleftrightarrow> shows_doc st cols r
     \<and> (\<exists>d. reachable_by_vector qe st (Some cols) d \<and> sr_file r = ''rqmd://'' @ doc_filepath d)"

text \<open>C11: A vector search in given collections answers with at most \<open>limit\<close> results, each of them a
  document stored in one of the collections, active, with its body and docid, and none that the embedding
  rules of its collection exclude, even one that shares its vector with a document they do not exclude; and
  it always ends.\<close>

theorem vector_results_in_scope:
  assumes ok: "db_ok (st_db st)" and e: "effective_collections (q_codec qe) (st_db st) cols = Some cs" and plain: "plain_names cs"
  shows "case store_search_vec_multi_with qe st query limit cols options of
      Inl e \<Rightarrow> e \<noteq> SLoops | Inr rs \<Rightarrow> length rs \<le> limit \<and> list_all (shows_reachable qe st cs) rs"
proof (cases "cs = []")
  case ne: False
  define wanted where "wanted = (case opt_recency options of Some _ \<Rightarrow> recency_pool limit | None \<Rightarrow> limit)"
  define groups where "groups = (\<lambda>x. run_widen
      (\<lambda>k. rbind (vi_search (q_us qe) x k (st_hnsw st)) (\<lambda>raw. Inr (group_hits qe st (Some cs) raw)))
      (\<lambda>by_doc. wanted \<le> length by_doc) (hnsw_size (q_env qe) st) (max (saturating_mul limit 4) 1))"
  define picks where "picks = (\<lambda>by_doc :: doc_hits list. rank_picks limit (concat (map (\<lambda>(i, e).
      doc_picks qe st (opt_recency options) (clamp_per_file (per_file options)) i e) (enumerate 0 by_doc))))"
  define docs where "docs = (\<lambda>by_doc :: doc_hits list. map (\<lambda>e. \<lparr>pd_title = doc_title (dh_doc e), pd_hash = doc_hash (dh_doc e),
      pd_body = raw_body st (doc_id (dh_doc e))\<rparr>) by_doc)"
  define chunked where "chunked = (\<lambda>(by_doc :: doc_hits list) p. case chunks_of qe (pk_filepath p) (raw_body st (doc_id (dh_doc (by_doc ! pk_doc p)))) of
      None \<Rightarrow> (Inl SPanicked :: search_error + pick)
    | Some chunks \<Rightarrow> Inr (p\<lparr>pk_chunk := nearest_chunk chunks (snd (pk_chunk p))\<rparr>))"
  have eq: "store_search_vec_multi_with qe st query limit cols options =
      rbind (smap_err SEmbed (q_query qe query)) (\<lambda>x. rbind (groups x) (\<lambda>by_doc.
        rbind (rmap (chunked by_doc) (picks by_doc)) (\<lambda>ps. Inr (picks_to_results st (docs by_doc) ps))))"
    using ne unfolding store_search_vec_multi_with_def e Let_def groups_def wanted_def picks_def docs_def chunked_def by simp
  show ?thesis
  proof (cases "store_search_vec_multi_with qe st query limit cols options")
    case (Inl e)
    moreover have "chunked by_doc p \<noteq> Inl SLoops" for by_doc p by (auto simp: chunked_def split: option.splits)
    ultimately have "e \<noteq> SLoops"
      unfolding eq groups_def
      by (auto simp: rbind_fails run_widen_ends smap_err_ends dest!: rmap_Inl)
    then show ?thesis using Inl by simp
  next
    case (Inr rs)
    then obtain x by_doc ps where g: "groups x = Inr by_doc" and ps: "rmap (chunked by_doc) (picks by_doc) = Inr ps"
      and rs: "rs = picks_to_results st (docs by_doc) ps"
      unfolding eq by (auto elim!: rbind_InrE)
    have ok_groups: "groups_ok qe st (Some cs) by_doc" using g unfolding groups_def by (rule vector_answer) simp
    have pick: "pick_shows st cs (docs by_doc) p \<and> (\<exists>d. reachable_by_vector qe st (Some cs) d \<and> pk_filepath p = doc_filepath d)"
      if p: "p \<in> set ps" for p
    proof -
      obtain p' where p': "p' \<in> set (picks by_doc)" "pk_doc p = pk_doc p'" "pk_filepath p = pk_filepath p'"
        using rmap_set [OF ps p] by (auto simp: chunked_def split: option.splits)
      from subsetD [OF set_rank_picks p'(1) [unfolded picks_def]] obtain i g where
        "(i, g) \<in> set (enumerate 0 by_doc)"
        "p' \<in> set (doc_picks qe st (opt_recency options) (clamp_per_file (per_file options)) i g)"
        by auto
      with doc_picks_from [OF this(2)] have i: "(i, g) \<in> set (enumerate 0 by_doc)" "pk_doc p' = i" "pk_filepath p' = dh_path g"
        by simp_all
      then have n: "i < length by_doc" "by_doc ! i = g" by (auto simp: in_set_enumerate_eq)
      then have d: "reachable_by_vector qe st (Some cs) (dh_doc g)" "dh_path g = doc_filepath (dh_doc g)"
        using ok_groups nth_mem [OF n(1)] by (auto simp: groups_ok_def)
      note s = reachable_stored [OF ok d(1) ne]
      have "CHR ''/'' \<notin> set (doc_collection (dh_doc g))" using plain s by (simp add: list_all_iff)
      then show ?thesis using d s i n p' by (auto simp: pick_shows_def path_in_def docs_def doc_filepath_def)
    qed
    then have "list_all (shows_doc st cs) rs" unfolding rs by (intro picks_show) blast
    moreover have "sr_file r \<in> (\<lambda>p. ''rqmd://'' @ pk_filepath p) ` set ps" if "r \<in> set rs" for r
      using that by (auto simp: rs picks_to_results_def section_result_def case_prod_beta Let_def)
    moreover have "length rs \<le> limit"
      using rmap_Inr_length [OF ps] length_rank_picks by (simp add: rs picks_def)
    ultimately show ?thesis using pick Inr by (fastforce simp: list_all_iff shows_reachable_def)
  qed
qed (simp add: store_search_vec_multi_with_def e)

lemma vector_results_in_scope_witness:
  "case store_search_vec_multi_with sample_qenv empty_store ''body'' 5 (Some [''c'']) search_options_default of
      Inl e \<Rightarrow> e \<noteq> SLoops | Inr rs \<Rightarrow> length rs \<le> 5 \<and> list_all (shows_reachable sample_qenv empty_store [''c'']) rs"
proof (rule vector_results_in_scope)
  show "db_ok (st_db empty_store)" by (simp add: empty_store_def db_ok_empty)
  show "effective_collections (q_codec sample_qenv) (st_db empty_store) (Some [''c'']) = Some [''c'']"
    by (simp add: effective_collections_def)
qed simp

subsection \<open>Hybrid query\<close>

definition ranked_in :: "string list \<Rightarrow> ranked_result list \<Rightarrow> bool" where
  "ranked_in cols rs \<longleftrightarrow> (\<forall>r\<in>set rs. path_in cols (filepath r))"

definition legs_in :: "string list \<Rightarrow> legs \<Rightarrow> bool" where
  "legs_in cols legs \<longleftrightarrow> (\<forall>rs\<in>set (fst legs). ranked_in cols rs)"

lemma legs_in_push: "legs_in cols legs \<Longrightarrow> ranked_in cols rs \<Longrightarrow> legs_in cols (push_leg source qt rs legs)"
  by (simp add: legs_in_def push_leg_def)

lemma legs_in_Nil [simp]: "legs_in cols ([], ms)"
  by (simp add: legs_in_def)

definition scope_ok :: "('ix, 'f) store \<Rightarrow> string list \<Rightarrow> bool" where
  "scope_ok st cs \<longleftrightarrow> plain_names cs \<and> cs \<noteq> [] \<and> db_ok (st_db st)"

lemma fts_leg_in: "scope_ok st cs \<Longrightarrow> ranked_in cs (fts_hits_to_ranked (fts_scoped qe st query n (Some cs)))"
  using fts_scoped_hits [of _ _ _ qe st query n cs] scope_path [of cs]
  by (fastforce simp: scope_ok_def ranked_in_def fts_hits_to_ranked_def)

lemma vec_hits_in:
  assumes "scope_ok st cs"
  shows "ranked_in cs (vec_hits_to_ranked qe st hits (Some cs))"
proof -
  have "path_in cs (doc_filepath d)" if v: "vec_doc qe st (Some cs) vid = Some (d, pos)" for vid d pos
  proof -
    have "doc_collection d \<in> set cs"
      using reachable_stored [OF _ vec_doc_reachable [OF v]] assms by (simp add: scope_ok_def)
    then show ?thesis using assms by (auto simp: scope_ok_def list_all_iff path_in_def doc_filepath_def)
  qed
  then show ?thesis by (auto simp: ranked_in_def vec_hits_to_ranked_def in_map_filter simp del: List.map_filter_def)
qed

lemma vec_leg_in:
  assumes "scope_ok st cs" and "0 < n" and "search_vec_scoped qe st x n (Some cs) = Inr rs"
  shows "ranked_in cs rs"
  using run_widen_answer [OF assms(2) assms(3) [unfolded search_vec_scoped_def]] vec_hits_in [OF assms(1)]
  by (auto elim!: rbind_InrE)

lemma leg_in: "scope_ok st cs \<Longrightarrow> 0 < n \<Longrightarrow> run_leg qe st (Some cs) n qt query = Inr rs \<Longrightarrow> ranked_in cs rs"
  by (cases qt) (auto simp: run_leg_def fts_leg_in ranked_in_def [of _ "[]"] elim!: rbind_InrE dest: vec_leg_in)

lemma expansion_in:
  assumes ok: "scope_ok st cs" "0 < k"
  shows "run_expansion qe st (Some cs) k d original n seen ls acc = Inr legs \<Longrightarrow> legs_in cs acc \<Longrightarrow> legs_in cs legs"
proof (induction ls arbitrary: n seen acc)
  case (Cons line ls)
  show ?case
  proof (cases "expansion_line line")
    case (Some q)
    then show ?thesis
      using Cons.prems by (auto elim!: rbind_InrE intro: Cons.IH legs_in_push leg_in [OF ok] split: if_splits)
  qed (use Cons.prems in \<open>auto elim!: rbind_InrE intro: Cons.IH\<close>)
qed simp

lemma subqueries_in:
  assumes ok: "scope_ok st cs" "0 < k"
  shows "run_subqueries qe st (Some cs) k d n subs acc = Inr legs \<Longrightarrow> legs_in cs acc \<Longrightarrow> legs_in cs legs"
proof (induction subs arbitrary: n acc)
  case (Cons sub subs)
  then obtain rs where "run_leg qe st (Some cs) k (sq_type sub) (sq_text sub) = Inr rs"
    and next_leg: "run_subqueries qe st (Some cs) k d (Suc n) subs
      (push_leg (leg_source (sq_type sub)) (if n = 0 then Original else sq_type sub) rs acc) = Inr legs"
    by (auto elim!: rbind_InrE)
  then show ?case using Cons.IH [OF next_leg] legs_in_push leg_in [OF ok] Cons.prems(2) by blast
qed simp

lemma expand_mode_in:
  assumes ok: "scope_ok st cs" "0 < k"
    and r: "expand_mode qe st (Some cs) k d query intent no_expand cache = (cache', Inr legs)"
  shows "legs_in cs legs"
proof -
  define legs0 where "legs0 = push_leg ''fts'' Original (fts_hits_to_ranked (fts_scoped qe st query k (Some cs))) ([], [])"
  have l0: "legs_in cs legs0" unfolding legs0_def by (intro legs_in_push fts_leg_in [OF ok(1)]) simp
  obtain near where n: "rbind (check_at qe ''embedding the query'' 0 d) (\<lambda>_. run_leg qe st (Some cs) k VecQ query) = Inr near"
    using r by (auto simp: expand_mode_def Let_def split: sum.splits)
  then have "ranked_in cs near" using leg_in [OF ok] by (auto elim!: rbind_InrE)
  then have l1: "legs_in cs (push_leg ''vec'' Original near legs0)" using l0 by (intro legs_in_push)
  have e: "legs_in cs legs'" if "parse_and_run_expansion qe st (Some cs) k d e query (push_leg ''vec'' Original near legs0) = Inr legs'" for e legs'
    using that expansion_in [OF ok _ l1] by (simp add: parse_and_run_expansion_def)
  show ?thesis
    using r l1 e unfolding expand_mode_def n Let_def legs0_def [symmetric]
    by (auto split: if_splits sum.splits prod.splits)
qed

lemma retrieve_in:
  assumes "scope_ok st cs" "0 < k"
    and "retrieve_ranked_lists qe st parsed intent query (Some cs) k no_expand d cache = (cache', Inr legs)"
  shows "legs_in cs legs"
  using assms(3)
  by (auto simp: retrieve_ranked_lists_def split: if_splits intro: subqueries_in [OF assms(1,2)] expand_mode_in [OF assms(1,2)])

definition candidate_ok :: "('ix, 'f) store \<Rightarrow> string list \<Rightarrow> candidate \<Rightarrow> bool" where
  "candidate_ok st cs c \<longleftrightarrow> path_in cs (filepath (cd_ranked c))
     \<and> (\<exists>d. filepath_to_doc_body st (filepath (cd_ranked c)) = Some (d, cd_body c) \<and> cd_hash c = doc_hash d)"

lemma candidates_in:
  assumes "legs_in cs legs" and "c \<in> set (fuse_and_resolve_candidates st legs n)"
  shows "candidate_ok st cs c"
proof -
  obtain r d body where r: "r \<in> set (reciprocal_rank_fusion (fst legs) (rrf_weights (snd legs)))"
      "filepath_to_doc_body st (filepath r) = Some (d, body)" "c = \<lparr>cd_ranked = r, cd_hash = doc_hash d, cd_body = body\<rparr>"
    using assms(2) unfolding fuse_and_resolve_candidates_def
    by (auto simp: in_map_filter dest: in_set_takeD split: if_splits simp del: List.map_filter_def)
  have "filepath r \<in> (\<Union>l\<in>set (fst legs). filepath ` set l)"
    using r(1) rrf_paths [of "fst legs" "rrf_weights (snd legs)"] by blast
  then have "path_in cs (filepath r)" using assms(1) by (auto simp: legs_in_def ranked_in_def)
  then show ?thesis using r(2,3) by (simp add: candidate_ok_def)
qed

lemma candidate_picks_from:
  "p \<in> set (candidate_picks scores recency i k cands) \<Longrightarrow>
   \<exists>j < length cands. pk_doc p = i + j \<and> pk_filepath p = filepath (cd_ranked (fst (cands ! j)))"
proof (induction scores recency i k cands rule: candidate_picks.induct)
  case (2 scores recency i k c chunks rest)
  show ?case
  proof (cases "p \<in> set (candidate_picks scores recency (Suc i) (k + length chunks) rest)")
    case True
    then obtain j where "j < length rest" "pk_doc p = Suc i + j" "pk_filepath p = filepath (cd_ranked (fst (rest ! j)))"
      using "2.IH" by blast
    then show ?thesis by (intro exI [of _ "Suc j"]) simp
  next
    case False
    then show ?thesis using "2.prems" by (intro exI [of _ 0]) auto
  qed
qed simp

lemma assembled_show:
  assumes "\<And>c. c \<in> set cands \<Longrightarrow> candidate_ok st cs c"
  shows "length (assemble_results st cands sections scores recency limit) \<le> limit
    \<and> list_all (shows_doc st cs) (assemble_results st cands sections scores recency limit)"
proof -
  let ?docs = "map (\<lambda>c. \<lparr>pd_title = rr_title (cd_ranked c), pd_hash = cd_hash c, pd_body = cd_body c\<rparr>) cands"
  have "pick_shows st cs ?docs p"
    if p: "p \<in> set (rank_picks limit (candidate_picks scores recency 0 0 (zip cands sections)))" for p
  proof -
    obtain j where j: "j < length cands" "pk_doc p = j" "pk_filepath p = filepath (cd_ranked (cands ! j))"
      using candidate_picks_from [OF subsetD [OF set_rank_picks p]] by auto
    then have "candidate_ok st cs (cands ! j)" using assms by simp
    then show ?thesis using j by (auto simp: candidate_ok_def pick_shows_def filepath_to_doc_body_def case_prod_beta Let_def)
  qed
  then show ?thesis unfolding assemble_results_def using length_rank_picks by (auto intro: picks_show)
qed

text \<open>C5: A hybrid query in given collections answers with at most \<open>limit\<close> results, each of them a
  document stored in one of the collections with its body and docid: neither the expansion the model
  generates nor a stale entry of either index ever shows anything else.\<close>

theorem hybrid_results_in_scope:
  assumes ok: "db_ok (st_db st)" and e: "effective_collections (q_codec qe) (st_db st) cols = Some cs" and plain: "plain_names cs"
  shows "case snd (hybrid_query_outcome_with qe st query intent limit cols skip no_expand d strict options cache) of
      Inl e \<Rightarrow> e \<noteq> SLoops
    | Inr out \<Rightarrow> length (out_results out) \<le> limit \<and> list_all (shows_doc st cs) (out_results out)"
proof (cases "cs = []")
  case False
  then have scope: "scope_ok st cs" using ok plain by (simp add: scope_ok_def)
  have shown: "length (assemble_results st (fuse_and_resolve_candidates st legs (pool_size limit)) sections scores recency limit) \<le> limit
      \<and> list_all (shows_doc st cs) (assemble_results st (fuse_and_resolve_candidates st legs (pool_size limit)) sections scores recency limit)"
    if "retrieve_ranked_lists qe st parsed i query (Some cs) (pool_size limit) no_expand d cache = (cache', Inr legs)"
    for parsed i legs cache' sections scores recency
    by (intro assembled_show candidates_in) (rule retrieve_in [OF scope pool_size_bounds(3) that])
  show ?thesis
    unfolding hybrid_query_outcome_with_def e
    using False shown
    by (auto simp: Let_def legs_end select_chunks_ends retrieve_never_loops [OF pool_size_bounds(3)]
        split: sum.splits prod.splits if_splits)
qed (simp add: hybrid_query_outcome_with_def e)

lemma hybrid_results_in_scope_witness:
  "case snd (hybrid_query_outcome_with sample_qenv empty_store ''body'' None 5 (Some [''c'']) False False None True search_options_default None) of
      Inl e \<Rightarrow> e \<noteq> SLoops
    | Inr out \<Rightarrow> length (out_results out) \<le> 5 \<and> list_all (shows_doc empty_store [''c'']) (out_results out)"
proof (rule hybrid_results_in_scope)
  show "db_ok (st_db empty_store)" by (simp add: empty_store_def db_ok_empty)
  show "effective_collections (q_codec sample_qenv) (st_db empty_store) (Some [''c'']) = Some [''c'']"
    by (simp add: effective_collections_def)
qed simp

end
