(* ===== verification/Documents.thy ===== *)
theory Documents
  imports Frontmatter Exclusion
begin

text \<open>
  From a collection's directory to documents: \<open>crates/rqmd-cli/src/exclusions.rs\<close> and
  \<open>document.rs\<close>. The walkers (walkdir, and ignore for \<open>.gitignore\<close> files) are not under src/: a
  walker is a function \<open>walk\<close> from the filter given to \<open>filter_entry\<close> to the entries it asks the filter
  about, in order. An entry carries what the file system answers about it.
\<close>

subsection \<open>Excluded components and masks\<close>

definition BUILTIN_EXCLUDED_DIRS :: "string list" where
  "BUILTIN_EXCLUDED_DIRS = [''node_modules'', ''vendor'', ''dist'', ''build'', ''target'', ''.cache'']"

definition is_builtin_excluded_dir :: "string \<Rightarrow> bool" where
  "is_builtin_excluded_dir name \<longleftrightarrow> name \<in> set BUILTIN_EXCLUDED_DIRS"

definition component_excluded :: "bool \<Rightarrow> string \<Rightarrow> bool" where
  "component_excluded allow_hidden name \<longleftrightarrow>
     (\<not> allow_hidden \<and> starts_with ''.'' name) \<or> is_builtin_excluded_dir name"

text \<open>A name that is not UTF-8 is \<open>None\<close>.\<close>

definition prunes_dir :: "bool \<Rightarrow> string option \<Rightarrow> bool" where
  "prunes_dir allow_hidden name = (case name of None \<Rightarrow> True | Some s \<Rightarrow> component_excluded allow_hidden s)"

fun split_commas :: "int \<Rightarrow> string \<Rightarrow> string \<Rightarrow> string list" where
  "split_commas depth cur [] = [cur]"
| "split_commas depth cur (c # cs) =
     (if c = CHR ''{'' then split_commas (depth + 1) (cur @ [c]) cs
      else if c = CHR ''}'' then split_commas (depth - 1) (cur @ [c]) cs
      else if c = CHR '','' \<and> depth = 0 then cur # split_commas depth [] cs
      else split_commas depth (cur @ [c]) cs)"

definition split_top_level_commas :: "string \<Rightarrow> string list" where
  "split_top_level_commas pattern = split_commas 0 [] pattern"

datatype mask_error = InvalidGlob string | InvalidMask

definition build_include_set :: "'g globset \<Rightarrow> string \<Rightarrow> mask_error + (string \<Rightarrow> bool)" where
  "build_include_set gs pattern =
     rbind (rmap (\<lambda>part. case gs_glob gs part of None \<Rightarrow> Inl (InvalidGlob part) | Some g \<Rightarrow> Inr g)
             (filter (\<lambda>part. part \<noteq> []) (map trim (split_top_level_commas pattern))))
       (\<lambda>globs. case gs_build gs globs of None \<Rightarrow> Inl InvalidMask | Some m \<Rightarrow> Inr m)"

definition invalid_ignore_patterns :: "'g globset \<Rightarrow> string list \<Rightarrow> string list" where
  "invalid_ignore_patterns gs patterns = filter (\<lambda>p. gs_glob gs p = None) patterns"

definition validate_ignore_patterns :: "'g globset \<Rightarrow> string list \<Rightarrow> string + unit" where
  "validate_ignore_patterns gs patterns =
     (case invalid_ignore_patterns gs patterns of
        [] \<Rightarrow> Inr () | p # _ \<Rightarrow> Inl (''invalid ignore pattern '' @ [CHR 0x27] @ p @ [CHR 0x27]))"

text \<open>The path is its components below the root.\<close>

definition rel_string :: "string option list \<Rightarrow> string" where
  "rel_string path = join ''/'' (map (\<lambda>c. case c of Some s \<Rightarrow> s | None \<Rightarrow> []) path)"

definition is_excluded :: "(string \<Rightarrow> bool) \<Rightarrow> bool \<Rightarrow> string option list \<Rightarrow> bool" where
  "is_excluded ignore allow_hidden path \<longleftrightarrow>
     list_ex (prunes_dir allow_hidden) path \<or> ignore (rel_string path)"

subsection \<open>Skipped files\<close>

datatype io_kind = IoInvalidData | IoPermissionDenied | IoNotFound | IoOther string

datatype skip_reason = NotUtf8 | PermissionDenied | NotFound | SkipIo string

fun from_io_error :: "io_kind \<Rightarrow> skip_reason" where
  "from_io_error IoInvalidData = NotUtf8"
| "from_io_error IoPermissionDenied = PermissionDenied"
| "from_io_error IoNotFound = NotFound"
| "from_io_error (IoOther k) = SkipIo k"

record skip_counts =
  sk_not_utf8 :: nat
  sk_permission_denied :: nat
  sk_not_found :: nat
  sk_other_io :: nat
  sk_too_large :: nat

definition no_skips :: skip_counts where
  "no_skips = \<lparr>sk_not_utf8 = 0, sk_permission_denied = 0, sk_not_found = 0, sk_other_io = 0, sk_too_large = 0\<rparr>"

fun skip_record :: "skip_reason \<Rightarrow> skip_counts \<Rightarrow> skip_counts" where
  "skip_record NotUtf8 c = c\<lparr>sk_not_utf8 := sk_not_utf8 c + 1\<rparr>"
| "skip_record PermissionDenied c = c\<lparr>sk_permission_denied := sk_permission_denied c + 1\<rparr>"
| "skip_record NotFound c = c\<lparr>sk_not_found := sk_not_found c + 1\<rparr>"
| "skip_record (SkipIo k) c = c\<lparr>sk_other_io := sk_other_io c + 1\<rparr>"

definition skip_total :: "skip_counts \<Rightarrow> nat" where
  "skip_total c = sk_not_utf8 c + sk_permission_denied c + sk_not_found c + sk_other_io c + sk_too_large c"

definition skip_describe :: "skip_counts \<Rightarrow> string" where
  "skip_describe c =
     (let unreadable = sk_permission_denied c + sk_not_found c + sk_other_io c in
      join '', ''
        ((if 0 < unreadable then [dec unreadable @ '' unreadable''] else [])
         @ (if 0 < sk_not_utf8 c then [dec (sk_not_utf8 c) @ '' not UTF-8''] else [])
         @ (if 0 < sk_too_large c then [dec (sk_too_large c) @ '' over the size limit''] else [])))"

subsection \<open>Walking\<close>

definition DEFAULT_MAX_FILE_BYTES :: nat where "DEFAULT_MAX_FILE_BYTES = 10 * 1024 * 1024"

record walk_options =
  wo_allow_hidden :: bool
  wo_respect_gitignore :: bool
  wo_max_file_bytes :: nat

definition for_collection :: "collection \<Rightarrow> walk_options" where
  "for_collection col =
     \<lparr>wo_allow_hidden = col_allow_hidden col, wo_respect_gitignore = col_respect_gitignore col,
      wo_max_file_bytes = (case col_max_file_bytes col of Some n \<Rightarrow> n | None \<Rightarrow> DEFAULT_MAX_FILE_BYTES)\<rparr>"

text \<open>
  \<open>en_meta\<close>: what \<open>std::fs::metadata\<close> answers, the size and the modification time in nanoseconds
  around the epoch; \<open>en_read\<close>: what \<open>read_to_string\<close> does.
\<close>

record entry =
  en_path :: "string option list"
  en_is_dir :: bool
  en_is_file :: bool
  en_contained :: bool
  en_meta :: "(nat \<times> int option) option"
  en_read :: "io_kind + string"

type_synonym walker = "bool \<Rightarrow> (entry \<Rightarrow> bool) \<Rightarrow> entry list"

definition keep :: "bool \<Rightarrow> entry \<Rightarrow> bool" where
  "keep allow_hidden e \<longleftrightarrow> en_path e = [] \<or> \<not> en_is_dir e \<or> \<not> prunes_dir allow_hidden (last (en_path e))"

definition pruned_builtin :: "bool \<Rightarrow> entry \<Rightarrow> bool" where
  "pruned_builtin allow_hidden e \<longleftrightarrow> \<not> keep allow_hidden e
     \<and> (case last (en_path e) of Some s \<Rightarrow> is_builtin_excluded_dir s | None \<Rightarrow> False)"

definition walk_paths :: "walker \<Rightarrow> walk_options \<Rightarrow> entry list" where
  "walk_paths walk opts =
     filter (keep (wo_allow_hidden opts)) (walk (wo_respect_gitignore opts) (keep (wo_allow_hidden opts)))"

definition is_candidate :: "(string \<Rightarrow> bool) \<Rightarrow> (string \<Rightarrow> bool) \<Rightarrow> walk_options \<Rightarrow> entry \<Rightarrow> bool" where
  "is_candidate include ignore opts e \<longleftrightarrow>
     en_is_file e \<and> en_contained e \<and> \<not> is_excluded ignore (wo_allow_hidden opts) (en_path e)
     \<and> include (rel_string (en_path e))"

definition too_large :: "walk_options \<Rightarrow> entry \<Rightarrow> bool" where
  "too_large opts e = (case en_meta e of Some (len, _) \<Rightarrow> wo_max_file_bytes opts < len | None \<Rightarrow> False)"

record candidates =
  ca_files :: "entry list"
  ca_too_large :: nat
  ca_excluded_dirs :: "string list"

definition collect_candidates :: "walker \<Rightarrow> (string \<Rightarrow> bool) \<Rightarrow> (string \<Rightarrow> bool) \<Rightarrow> walk_options \<Rightarrow> candidates" where
  "collect_candidates walk include ignore opts =
     (let found = filter (is_candidate include ignore opts) (walk_paths walk opts) in
      \<lparr>ca_files = filter (\<lambda>e. \<not> too_large opts e) found,
       ca_too_large = length (filter (too_large opts) found),
       ca_excluded_dirs = dedup_adjacent (\<lambda>p. p) (sort_by (\<le>)
         (map (\<lambda>e. rel_string (en_path e))
           (filter (pruned_builtin (wo_allow_hidden opts))
             (walk (wo_respect_gitignore opts) (keep (wo_allow_hidden opts))))))\<rparr>)"

definition REPORTED_DIRS :: nat where "REPORTED_DIRS = 5"

text \<open>\<open>char::is_control\<close>: the general category Cc.\<close>

definition is_control :: "string \<Rightarrow> bool" where
  "is_control c \<longleftrightarrow> cp c \<le> 31 \<or> (127 \<le> cp c \<and> cp c \<le> 159)"

definition clean_name :: "string \<Rightarrow> string" where
  "clean_name d = concat (map (\<lambda>c. if is_control c then ''?'' else c) (chars d))"

definition excluded_dirs_clause :: "string list \<Rightarrow> string option" where
  "excluded_dirs_clause dirs =
     (if dirs = [] then None
      else
        (let names = join '', '' (map (\<lambda>d. clean_name d @ ''/'') (take REPORTED_DIRS dirs));
             more = (if REPORTED_DIRS < length dirs then '' +'' @ dec (length dirs - REPORTED_DIRS) @ '' more'' else [])
         in Some (''left out '' @ dec (length dirs) @ '' folder(s) by the built-in rule ('' @ names @ more @ '')'')))"

subsection \<open>Stats\<close>

type_synonym file_stat = "int \<times> int"

definition MTIME_TRUST_WINDOW :: int where "MTIME_TRUST_WINDOW = 2 * 1000000000"

definition stat_file :: "entry \<Rightarrow> file_stat option" where
  "stat_file e =
     (case en_meta e of
        Some (len, Some ns) \<Rightarrow>
          if 0 \<le> ns \<and> len < 2 ^ 63 \<and> ns < 2 ^ 63 then Some (int len, ns) else None
      | _ \<Rightarrow> None)"

definition trusted_stat :: "int \<Rightarrow> file_stat \<Rightarrow> file_stat option" where
  "trusted_stat now stat =
     (if 0 \<le> snd stat \<and> snd stat \<le> now \<and> MTIME_TRUST_WINDOW < now - snd stat then Some stat else None)"

subsection \<open>Preparing a document\<close>

record prepared_doc =
  pr_rel_path :: string
  pr_title :: string
  pr_indexed_text :: string
  pr_raw :: string

definition heading_of :: "string \<Rightarrow> string option" where
  "heading_of line =
     (let trimmed = trim_start line in
      if \<not> starts_with ''#'' trimmed then None
      else (let heading = trim (trim_start_char (CHR ''#'') trimmed) in if heading \<noteq> [] then Some heading else None))"

definition first_heading :: "string \<Rightarrow> string option" where
  "first_heading body = (case List.map_filter heading_of (lines body) of [] \<Rightarrow> None | h # _ \<Rightarrow> Some h)"

text \<open>\<open>Path::file_stem\<close> of a file name: what precedes its last dot, if that is not its first character.\<close>

definition file_stem :: "string \<Rightarrow> string" where
  "file_stem name =
     (let stem = rev (tl (dropWhile (\<lambda>c. c \<noteq> CHR ''.'') (rev name))) in if stem = [] then name else stem)"

definition filename_stem :: "string option list \<Rightarrow> string" where
  "filename_stem path =
     (case (if path = [] then None else last path) of Some name \<Rightarrow> file_stem name | None \<Rightarrow> rel_string path)"

text \<open>The outer option is a panic, which \<open>Frontmatter.fm_split_reference\<close> rules out.\<close>

definition prepare :: "entry \<Rightarrow> (skip_reason + prepared_doc) option" where
  "prepare e =
     (case en_read e of
        Inl k \<Rightarrow> Some (Inl (from_io_error k))
      | Inr raw \<Rightarrow>
          map_option (\<lambda>(frontmatter, body).
            Inr \<lparr>pr_rel_path = rel_string (en_path e),
                 pr_title = (case Option.bind frontmatter fm_title of
                     Some t \<Rightarrow> t
                   | None \<Rightarrow> (case first_heading body of Some h \<Rightarrow> h | None \<Rightarrow> filename_stem (en_path e))),
                 pr_indexed_text = (case frontmatter of
                     Some fm \<Rightarrow> if fm_terms fm \<noteq> [] then body @ [NL] @ join '' '' (fm_terms fm) else body
                   | None \<Rightarrow> body),
                 pr_raw = raw\<rparr>) (fm_split raw))"

subsection \<open>Masks lose nothing\<close>

lemma split_commas_ne: "split_commas d cur s \<noteq> []"
  by (induction d cur s rule: split_commas.induct) auto

lemma join_cons: "xs \<noteq> [] \<Longrightarrow> join sep (x # xs) = x @ sep @ join sep xs"
  by (cases xs) auto

lemma join_split_commas: "join '','' (split_commas d cur s) = cur @ s"
  by (induction d cur s rule: split_commas.induct) (auto simp: join_cons split_commas_ne)

lemma split_top_level_commas_join: "join '','' (split_top_level_commas pattern) = pattern"
  by (simp add: split_top_level_commas_def join_split_commas)

subsection \<open>Pruning changes no candidate\<close>

text \<open>
  What walkdir and ignore document of \<open>filter_entry\<close>: an entry the filter rejects is left out and not
  descended into. So the filter is asked exactly about the entries none of whose directories was rejected.
\<close>

definition filters_entries :: "walker \<Rightarrow> bool" where
  "filters_entries walk \<longleftrightarrow>
     (\<forall>g f. walk g f = filter (\<lambda>e. \<forall>d\<in>set (walk g (\<lambda>_. True)). (\<exists>rest. rest \<noteq> [] \<and> en_path e = en_path d @ rest) \<longrightarrow> f d)
        (walk g (\<lambda>_. True)))"

lemma pruned_excluded:
  "\<not> keep allow_hidden d \<Longrightarrow> en_path e = en_path d @ rest \<Longrightarrow> is_excluded ignore allow_hidden (en_path e)"
  by (auto simp: keep_def is_excluded_def list_ex_iff intro!: bexI [of _ "last (en_path d)"])

text \<open>C27: Leaving excluded folders out of the walk changes nothing but its length: the files found, and the
  count of files over the size limit, are the ones of a walk of the whole tree.\<close>

theorem pruned_walk_same_candidates:
  assumes "filters_entries walk"
  shows "ca_files (collect_candidates walk include ignore opts) =
      filter (\<lambda>e. is_candidate include ignore opts e \<and> \<not> too_large opts e) (walk (wo_respect_gitignore opts) (\<lambda>_. True))
    \<and> ca_too_large (collect_candidates walk include ignore opts) =
      length (filter (\<lambda>e. is_candidate include ignore opts e \<and> too_large opts e) (walk (wo_respect_gitignore opts) (\<lambda>_. True)))"
proof -
  let ?k = "keep (wo_allow_hidden opts)" and ?all = "walk (wo_respect_gitignore opts) (\<lambda>_. True)"
  have w: "walk_paths walk opts = filter ?k (filter (\<lambda>e. \<forall>d\<in>set ?all.
      (\<exists>rest. rest \<noteq> [] \<and> en_path e = en_path d @ rest) \<longrightarrow> ?k d) ?all)"
    unfolding walk_paths_def using assms [unfolded filters_entries_def, rule_format, of "wo_respect_gitignore opts" ?k] by simp
  have k: "?k e \<and> (\<forall>d\<in>set ?all. (\<exists>rest. rest \<noteq> [] \<and> en_path e = en_path d @ rest) \<longrightarrow> ?k d)"
    if "is_candidate include ignore opts e" for e
  proof -
    have x: "\<not> is_excluded ignore (wo_allow_hidden opts) (en_path e)" using that by (simp add: is_candidate_def)
    have "?k e" using pruned_excluded [of _ e e "[]"] x by auto
    moreover have "?k d" if "en_path e = en_path d @ rest" for d rest using pruned_excluded [OF _ that] x by blast
    ultimately show ?thesis by blast
  qed
  have "filter (is_candidate include ignore opts) (walk_paths walk opts) = filter (is_candidate include ignore opts) ?all"
    unfolding w filter_filter by (rule filter_cong [OF refl]) (use k in blast)
  then show ?thesis by (simp add: collect_candidates_def Let_def filter_filter conj_commute)
qed

text \<open>A walker over a given tree, and a tree with a built-in folder.\<close>

definition walk_of :: "entry list \<Rightarrow> walker" where
  "walk_of tree g f = filter (\<lambda>e. \<not> list_ex (\<lambda>d. length (en_path d) < length (en_path e)
     \<and> take (length (en_path d)) (en_path e) = en_path d \<and> \<not> f d) tree) tree"

lemma walk_of_filters: "filters_entries (walk_of tree)"
proof -
  have "(length (en_path d) < length (en_path e) \<and> take (length (en_path d)) (en_path e) = en_path d)
      \<longleftrightarrow> (\<exists>rest. rest \<noteq> [] \<and> en_path e = en_path d @ rest)" for d e
  proof
    assume a: "length (en_path d) < length (en_path e) \<and> take (length (en_path d)) (en_path e) = en_path d"
    then have "en_path e = en_path d @ drop (length (en_path d)) (en_path e)"
      using append_take_drop_id [of "length (en_path d)" "en_path e"] by simp
    then show "\<exists>rest. rest \<noteq> [] \<and> en_path e = en_path d @ rest" using a by (intro exI conjI) auto
  qed auto
  moreover have "walk_of tree g (\<lambda>_. True) = tree" for g by (simp add: walk_of_def list_ex_iff)
  ultimately show ?thesis
    unfolding filters_entries_def walk_of_def [of tree] by (intro allI filter_cong) (auto simp: list_ex_iff)
qed

definition sample_file :: "string option list \<Rightarrow> string \<Rightarrow> entry" where
  "sample_file path txt = \<lparr>en_path = path, en_is_dir = False, en_is_file = True, en_contained = True,
     en_meta = Some (length txt, Some 5), en_read = Inr txt\<rparr>"

definition sample_dir :: "string option list \<Rightarrow> entry" where
  "sample_dir path = \<lparr>en_path = path, en_is_dir = True, en_is_file = False, en_contained = True,
     en_meta = None, en_read = Inl (IoOther ''is a directory'')\<rparr>"

definition sample_tree :: "entry list" where
  "sample_tree = [sample_dir [], sample_file [Some ''a.md''] ''# A'', sample_dir [Some ''build''],
     sample_file [Some ''build'', Some ''b.md''] ''# B'']"

lemma pruned_walk_same_candidates_witness:
  "map en_path (ca_files (collect_candidates (walk_of sample_tree) (\<lambda>_. True) (\<lambda>_. False)
      \<lparr>wo_allow_hidden = False, wo_respect_gitignore = False, wo_max_file_bytes = 100\<rparr>)) = [[Some ''a.md'']]"
  unfolding pruned_walk_same_candidates [OF walk_of_filters, THEN conjunct1] by code_simp

end
