(* ===== verification/Update.thy ===== *)
theory Update
  imports Documents Indexing
begin

text \<open>
  \<open>rqmd update\<close>, \<open>crates/rqmd-cli/src/commands/index.rs\<close>: re-walking the collections, indexing changed
  files and pruning deleted ones, over an opened store, with the helpers of \<open>crates/rqmd-cli/src/store.rs\<close>.
  The file system, the update hooks, the signals and the clock are fields of \<open>uenv\<close>. Progress lines and
  warnings are left out; the lock is \<open>Lock\<close>.
\<close>

datatype index_source = Explicit | ProjectLocal | Global

definition hooks_allowed :: "index_source \<Rightarrow> bool \<Rightarrow> bool" where
  "hooks_allowed source run_hooks_flag = (case source of ProjectLocal \<Rightarrow> run_hooks_flag | _ \<Rightarrow> True)"

definition refresh_allowed :: "index_source \<Rightarrow> bool \<Rightarrow> bool" where
  "refresh_allowed source allow_refresh_flag = hooks_allowed source allow_refresh_flag"

definition RAW_SPLIT_SCHEMA_KEY :: string where "RAW_SPLIT_SCHEMA_KEY = ''schema_raw_split''"

definition mark_raw_split_backfilled :: "('ix, 'f) store \<Rightarrow> ('ix, 'f) store" where
  "mark_raw_split_backfilled st = on_db (set_config RAW_SPLIT_SCHEMA_KEY ''1'') st"

definition raw_split_backfilled :: "('ix, 'f) store \<Rightarrow> bool" where
  "raw_split_backfilled st \<longleftrightarrow> get_config RAW_SPLIT_SCHEMA_KEY (st_db st) \<noteq> None"

datatype hook_outcome = Succeeded | HookFailed string | HookTimedOut nat | HookInterrupted int

record ('ix, 'v, 'f, 'g) uenv =
  u_env :: "('ix, 'v, 'f) env"
  u_codec :: codec
  u_gs :: "'g globset"
  u_exists :: "string \<Rightarrow> bool"
  u_walk :: "string \<Rightarrow> walker"
  u_hook :: "string \<Rightarrow> string \<Rightarrow> hook_outcome"        \<comment> \<open>command and directory\<close>
  u_signal :: "nat \<Rightarrow> nat \<Rightarrow> int option"            \<comment> \<open>before the collection (0) and before each of its files\<close>
  u_now :: "string \<Rightarrow> int"                         \<comment> \<open>the clock when a file's stat is recorded\<close>

datatype update_error =
  UStore store_error | UPanicked | UNoCollection string | UInterrupted int | UHooks "(string \<times> string) list"

record tally =
  tl_new :: nat
  tl_updated :: nat
  tl_unchanged :: nat
  tl_processed :: nat
  tl_skips :: skip_counts
  tl_clean :: bool

record collection_outcome =
  oc_clean :: bool
  oc_hook_failure :: "string option"
  oc_interrupted :: "int option"
  oc_report :: "string option"

subsection \<open>One file\<close>

definition count_outcome :: "index_outcome \<Rightarrow> tally \<Rightarrow> tally" where
  "count_outcome oc t =
     (case oc of
        New \<Rightarrow> t\<lparr>tl_new := tl_new t + 1\<rparr>
      | Updated \<Rightarrow> t\<lparr>tl_updated := tl_updated t + 1\<rparr>
      | Unchanged \<Rightarrow> t\<lparr>tl_unchanged := tl_unchanged t + 1\<rparr>)"

definition stat_hit :: "(string \<Rightarrow> file_stat option) \<Rightarrow> entry \<Rightarrow> bool" where
  "stat_hit cache e \<longleftrightarrow> stat_file e \<noteq> None \<and> cache (rel_string (en_path e)) = stat_file e"

definition update_file ::
  "('ix, 'v, 'f, 'g) uenv \<Rightarrow> string \<Rightarrow> (string \<Rightarrow> file_stat option) \<Rightarrow> entry \<Rightarrow> tally \<Rightarrow> ('ix, 'f) store
    \<Rightarrow> ('ix, 'f) store \<times> (update_error + tally)" where
  "update_file ue coll cache e t st =
     (let t = t\<lparr>tl_processed := tl_processed t + 1\<rparr> in
      if stat_hit cache e then (st, Inr (t\<lparr>tl_unchanged := tl_unchanged t + 1\<rparr>))
      else case prepare e of
        None \<Rightarrow> (st, Inl UPanicked)
      | Some (Inl reason) \<Rightarrow> (st, Inr (t\<lparr>tl_skips := skip_record reason (tl_skips t), tl_clean := False\<rparr>))
      | Some (Inr doc) \<Rightarrow>
          (case index_document_fts_only_with_raw (u_env ue) coll (pr_rel_path doc) (pr_title doc) (pr_indexed_text doc) (pr_raw doc) st of
             (st, Inl Panicked) \<Rightarrow> (st, Inl UPanicked)
           | (st, Inl _) \<Rightarrow> (st, Inr (t\<lparr>tl_clean := False\<rparr>))
           | (st, Inr oc) \<Rightarrow>
               (on_db (set_document_stat coll (pr_rel_path doc)
                  (Option.bind (stat_file e) (trusted_stat (u_now ue (pr_rel_path doc))))) st,
                Inr (count_outcome oc t))))"

text \<open>\<open>n\<close> counts the looks at the pending signal.\<close>

fun update_files ::
  "('ix, 'v, 'f, 'g) uenv \<Rightarrow> string \<Rightarrow> (string \<Rightarrow> file_stat option) \<Rightarrow> nat \<Rightarrow> nat \<Rightarrow> entry list \<Rightarrow> tally \<Rightarrow> ('ix, 'f) store
    \<Rightarrow> ('ix, 'f) store \<times> (update_error + tally \<times> int option)" where
  "update_files ue coll cache ci n [] t st = (st, Inr (t, None))"
| "update_files ue coll cache ci n (e # es) t st =
     (case u_signal ue ci n of
        Some signal \<Rightarrow> (st, Inr (t, Some signal))
      | None \<Rightarrow> sbind (update_file ue coll cache e t st) (\<lambda>st t. update_files ue coll cache ci (Suc n) es t st))"

subsection \<open>One collection\<close>

definition blank_tally :: "nat \<Rightarrow> tally" where
  "blank_tally n = \<lparr>tl_new = 0, tl_updated = 0, tl_unchanged = 0, tl_processed = 0,
     tl_skips = no_skips\<lparr>sk_too_large := n\<rparr>, tl_clean = True\<rparr>"

text \<open>A failure to remove an entry is only warned about.\<close>

fun remove_stale :: "('ix, 'v, 'f) env \<Rightarrow> string \<Rightarrow> string list \<Rightarrow> ('ix, 'f) store \<Rightarrow> ('ix, 'f) store" where
  "remove_stale env coll [] st = st"
| "remove_stale env coll (p # ps) st = remove_stale env coll ps (fst (remove_from_fts env (full_path coll p) st))"

definition prune :: "('ix, 'v, 'f) env \<Rightarrow> string \<Rightarrow> entry list \<Rightarrow> ('ix, 'f) store \<Rightarrow> ('ix, 'f) store \<times> nat" where
  "prune env coll files st =
     (case deactivate_missing_documents coll (set (map (\<lambda>e. rel_string (en_path e)) files)) (st_db st) of
        (db', removed) \<Rightarrow> (remove_stale env coll removed (st\<lparr>st_db := db'\<rparr>), length removed))"

definition stopped_report :: "tally \<Rightarrow> nat \<Rightarrow> string" where
  "stopped_report t all =
     [NL] @ ''Stopped after '' @ dec (tl_processed t) @ '' of '' @ dec all @ '' file(s): '' @ dec (tl_new t) @ '' new, '' @
     dec (tl_updated t) @ '' updated, '' @ dec (tl_unchanged t) @ '' unchanged''"

definition indexed_report :: "tally \<Rightarrow> nat \<Rightarrow> string list \<Rightarrow> string" where
  "indexed_report t removed excluded_dirs =
     [NL] @ ''Indexed: '' @ dec (tl_new t) @ '' new, '' @ dec (tl_updated t) @ '' updated, '' @ dec (tl_unchanged t) @
     '' unchanged, '' @ dec removed @ '' removed'' @
     (if 0 < skip_total (tl_skips t)
      then '', skipped '' @ dec (skip_total (tl_skips t)) @ '' ('' @ skip_describe (tl_skips t) @ '')'' else []) @
     (case excluded_dirs_clause excluded_dirs of
        Some clause \<Rightarrow> '' '' @ [CHR 0xC2, CHR 0xB7] @ '' '' @ clause | None \<Rightarrow> [])"

text \<open>The hook's failure, or the signal that stopped it.\<close>

definition run_update_hook :: "('ix, 'v, 'f, 'g) uenv \<Rightarrow> bool \<Rightarrow> collection \<Rightarrow> int + string option" where
  "run_update_hook ue allowed col =
     (case col_update_command col of
        None \<Rightarrow> Inr None
      | Some cmd \<Rightarrow>
          if trim cmd = [] \<or> \<not> allowed then Inr None
          else (case u_hook ue cmd (col_path col) of
              Succeeded \<Rightarrow> Inr None
            | HookFailed reason \<Rightarrow> Inr (Some reason)
            | HookTimedOut limit \<Rightarrow> Inr (Some (''timed out after '' @ dec (limit div NANOS) @ ''s and was killed''))
            | HookInterrupted signal \<Rightarrow> Inl signal))"

text \<open>Indexing what the walk found, pruning unless stopped, flushing and reporting.\<close>

definition update_walked ::
  "('ix, 'v, 'f, 'g) uenv \<Rightarrow> string \<Rightarrow> (string \<Rightarrow> file_stat option) \<Rightarrow> nat \<Rightarrow> candidates \<Rightarrow> string option \<Rightarrow> ('ix, 'f) store
    \<Rightarrow> ('ix, 'f) store \<times> (update_error + collection_outcome)" where
  "update_walked ue coll cache ci ca hook_failure st =
     sbind (update_files ue coll cache ci 1 (ca_files ca) (blank_tally (ca_too_large ca)) st) (\<lambda>st (t, stopped).
       case (if ca_files ca \<noteq> [] \<and> stopped = None then prune (u_env ue) coll (ca_files ca) st else (st, 0)) of
         (st, removed) \<Rightarrow>
           (case flush (u_env ue) st of
              (st, Inl e) \<Rightarrow> (st, Inl (UStore e))
            | (st, Inr _) \<Rightarrow>
                (st, Inr (case stopped of
                   Some signal \<Rightarrow> \<lparr>oc_clean = False, oc_hook_failure = hook_failure, oc_interrupted = Some signal,
                                  oc_report = Some (stopped_report t (length (ca_files ca)))\<rparr>
                 | None \<Rightarrow> \<lparr>oc_clean = tl_clean t, oc_hook_failure = hook_failure, oc_interrupted = None,
                            oc_report = Some (indexed_report t removed (ca_excluded_dirs ca))\<rparr>))))"

definition update_one_collection ::
  "('ix, 'v, 'f, 'g) uenv \<Rightarrow> bool \<Rightarrow> bool \<Rightarrow> nat \<Rightarrow> collection \<Rightarrow> ('ix, 'f) store
    \<Rightarrow> ('ix, 'f) store \<times> (update_error + collection_outcome)" where
  "update_one_collection ue allowed full ci col st =
     (if \<not> u_exists ue (col_path col)
      then (st, Inr \<lparr>oc_clean = False, oc_hook_failure = None, oc_interrupted = None, oc_report = None\<rparr>)
      else case run_update_hook ue allowed col of
        Inl signal \<Rightarrow> (st, Inr \<lparr>oc_clean = False, oc_hook_failure = None, oc_interrupted = Some signal, oc_report = None\<rparr>)
      | Inr hook_failure \<Rightarrow>
          (case build_include_set (u_gs ue) (col_pattern col) of
             Inl _ \<Rightarrow> (st, Inr \<lparr>oc_clean = False, oc_hook_failure = hook_failure, oc_interrupted = None, oc_report = None\<rparr>)
           | Inr include \<Rightarrow>
               update_walked ue (col_name col) (if full then Map.empty else load_doc_stat_cache (col_name col) (st_db st)) ci
                 (collect_candidates (u_walk ue (col_path col)) include (build_ignore_set (u_gs ue) (col_ignore col)) (for_collection col))
                 hook_failure st))"

subsection \<open>The command\<close>

fun update_collections ::
  "('ix, 'v, 'f, 'g) uenv \<Rightarrow> bool \<Rightarrow> bool \<Rightarrow> nat \<Rightarrow> collection list \<Rightarrow> bool \<times> (string \<times> string) list \<Rightarrow> ('ix, 'f) store
    \<Rightarrow> ('ix, 'f) store \<times> (update_error + bool \<times> (string \<times> string) list)" where
  "update_collections ue allowed full ci [] acc st = (st, Inr acc)"
| "update_collections ue allowed full ci (col # cols) acc st =
     (case u_signal ue ci 0 of
        Some signal \<Rightarrow> (st, Inl (UInterrupted signal))
      | None \<Rightarrow> sbind (update_one_collection ue allowed full ci col st) (\<lambda>st oc.
          case oc_interrupted oc of
            Some signal \<Rightarrow> (st, Inl (UInterrupted signal))
          | None \<Rightarrow> update_collections ue allowed full (Suc ci) cols
              (fst acc \<and> oc_clean oc,
               snd acc @ (case oc_hook_failure oc of Some reason \<Rightarrow> [(col_name col, reason)] | None \<Rightarrow> [])) st))"

definition update_targets :: "codec \<Rightarrow> db \<Rightarrow> string option \<Rightarrow> update_error + collection list" where
  "update_targets j db only =
     (case only of
        None \<Rightarrow> Inr (list_collections j db)
      | Some c \<Rightarrow> (case find (\<lambda>col. col_name col = c) (list_collections j db) of
          Some col \<Rightarrow> Inr [col] | None \<Rightarrow> Inl (UNoCollection c)))"

definition lift_store :: "('ix, 'f) store \<times> (store_error + 'a) \<Rightarrow> ('ix, 'f) store \<times> (update_error + 'a)" where
  "lift_store r = (fst r, smap_err UStore (snd r))"

definition finish_update ::
  "('ix, 'v, 'f, 'g) uenv \<Rightarrow> bool \<Rightarrow> bool \<times> (string \<times> string) list \<Rightarrow> ('ix, 'f) store \<Rightarrow> ('ix, 'f) store \<times> (update_error + unit)" where
  "finish_update ue unscoped acc st =
     sbind (lift_store (reclaim_orphaned_vectors (u_env ue) st)) (\<lambda>st _.
       (let st = (if unscoped \<and> fst acc then mark_raw_split_backfilled st else st) in
        sbind (if unscoped \<and> raw_split_backfilled st then lift_store (rebuild_fts_if_needed (u_env ue) st) else (st, Inr False)) (\<lambda>st _.
          (st, if snd acc = [] then Inr () else Inl (UHooks (snd acc))))))"

definition run_update_with ::
  "('ix, 'v, 'f, 'g) uenv \<Rightarrow> string option \<Rightarrow> bool \<Rightarrow> bool \<Rightarrow> ('ix, 'f) store \<Rightarrow> ('ix, 'f) store \<times> (update_error + unit)" where
  "run_update_with ue only allowed full st =
     (case update_targets (u_codec ue) (st_db st) only of
        Inl e \<Rightarrow> (st, Inl e)
      | Inr cols \<Rightarrow>
          if cols = [] then (st, Inr ())
          else sbind (update_collections ue allowed full 0 cols (True, []) st) (\<lambda>st acc. finish_update ue (only = None) acc st))"

end
