(* ===== verification/UpdateSpec.thy ===== *)
theory UpdateSpec
  imports Update IndexSpec DbColls
begin

text \<open>
  What \<open>rqmd update\<close> does to the documents of a collection: it touches no other collection, deactivates
  exactly what is gone after a full walk, and nothing when it was stopped or found nothing.
\<close>

subsection \<open>Steps on the documents of one collection\<close>

abbreviation doc_at :: "string \<Rightarrow> string \<Rightarrow> db \<Rightarrow> doc_row option" where
  "doc_at coll path db \<equiv> tab_find doc_key (coll, path) (documents db)"

definition is_active :: "string \<Rightarrow> db \<Rightarrow> string \<Rightarrow> bool" where
  "is_active coll db path \<longleftrightarrow> (case doc_at coll path db of Some r \<Rightarrow> d_active r | None \<Rightarrow> False)"

definition others_same :: "string \<Rightarrow> db \<Rightarrow> db \<Rightarrow> bool" where
  "others_same coll db db' \<longleftrightarrow> (\<forall>c p. c \<noteq> coll \<longrightarrow> doc_at c p db' = doc_at c p db)"

text \<open>A row that is kept for a document once removed.\<close>

definition is_inactive :: "string \<Rightarrow> db \<Rightarrow> string \<Rightarrow> bool" where
  "is_inactive coll db path \<longleftrightarrow> (case doc_at coll path db of Some r \<Rightarrow> \<not> d_active r | None \<Rightarrow> False)"

definition index_step :: "string \<Rightarrow> string set \<Rightarrow> db \<Rightarrow> db \<Rightarrow> bool" where
  "index_step coll paths db db' \<longleftrightarrow> db_ok db' \<and> others_same coll db db'
     \<and> (\<forall>p. is_active coll db p \<longrightarrow> is_active coll db' p)
     \<and> (\<forall>p. is_active coll db' p \<longrightarrow> is_active coll db p \<or> p \<in> paths)
     \<and> (\<forall>p. is_inactive coll db' p \<longrightarrow> is_inactive coll db p)"

lemma index_step_refl [simp]: "db_ok db \<Longrightarrow> index_step coll paths db db"
  by (simp add: index_step_def others_same_def)

lemma index_step_trans: "index_step coll P a b \<Longrightarrow> index_step coll Q b c \<Longrightarrow> index_step coll (P \<union> Q) a c"
  unfolding index_step_def others_same_def by auto

lemma index_step_mono: "index_step coll P a b \<Longrightarrow> P \<subseteq> Q \<Longrightarrow> index_step coll Q a b"
  unfolding index_step_def by blast

lemma update_docs_find:
  assumes "\<And>r. p r \<Longrightarrow> doc_key (f r) = doc_key r"
  shows "tab_find doc_key k (documents (update_docs p f db)) =
    map_option (\<lambda>r. if p r then f r else r) (tab_find doc_key k (documents db))"
proof -
  have "tab_find doc_key k (map (\<lambda>r. if p r then f r else r) (documents db)) =
      map_option (\<lambda>r. if p r then f r else r) (tab_find doc_key k (documents db))"
    by (rule tab_find_map) (use assms in auto)
  then show ?thesis by (simp add: update_docs_def)
qed

lemma index_step_rows:
  assumes ok: "db_ok db"
    and f: "\<And>r. p r \<Longrightarrow> doc_key (f r) = doc_key r \<and> d_id (f r) = d_id r \<and> d_hash (f r) = d_hash r \<and> d_active (f r) = d_active r"
    and c: "\<And>r. r \<in> set (documents db) \<Longrightarrow> p r \<Longrightarrow> d_collection r = coll"
  shows "index_step coll paths db (update_docs p f db)"
proof -
  have k: "tab_find doc_key k (documents (update_docs p f db)) = map_option (\<lambda>r. if p r then f r else r) (tab_find doc_key k (documents db))" for k
    using f by (intro update_docs_find) blast
  have o: "others_same coll db (update_docs p f db)"
    unfolding others_same_def k
  proof (intro allI impI)
    fix c q assume ne: "c \<noteq> coll"
    show "map_option (\<lambda>r. if p r then f r else r) (doc_at c q db) = doc_at c q db"
    proof (cases "doc_at c q db")
      case (Some r)
      note r = tab_find_Some [OF Some]
      have "\<not> p r"
      proof
        assume "p r"
        then have "d_collection r = coll" using r c by blast
        then show False using r ne by auto
      qed
      then show ?thesis using Some by simp
    qed simp
  qed
  have a: "is_active coll (update_docs p f db) q = is_active coll db q" for q
    unfolding is_active_def k using f by (auto split: option.splits)
  have b: "is_inactive coll (update_docs p f db) q = is_inactive coll db q" for q
    unfolding is_inactive_def k using f by (auto split: option.splits)
  show ?thesis
    unfolding index_step_def a b using o f by (auto intro: db_ok_update_docs [OF ok])
qed

lemma index_step_raw:
  assumes "db_ok db" and "doc_at coll path db = Some r"
  shows "index_step coll paths db (set_document_raw (d_id r) raw db)"
  unfolding set_document_raw_def
proof (rule index_step_rows [OF assms(1)])
  fix r' assume r': "r' \<in> set (documents db)" "d_id r' = d_id r"
  have "tab_find d_id (d_id r) (documents db) = Some r" using assms by (rule find_by_id)
  moreover have "tab_find d_id (d_id r') (documents db) = Some r'"
    using tab_find_unique [OF db_okD(3) [OF assms(1)] r'(1)] .
  ultimately have "r' = r" using r'(2) by simp
  then show "d_collection r' = coll" using tab_find_Some [OF assms(2)] by auto
qed auto

lemma index_step_stat: "db_ok db \<Longrightarrow> index_step coll paths db (set_document_stat coll path stat db)"
  unfolding set_document_stat_def by (rule index_step_rows) auto

lemma index_step_content: "db_ok db \<Longrightarrow> index_step coll paths db (upsert_content hash doc now db)"
  by (simp add: index_step_def others_same_def is_active_def is_inactive_def db_ok_upsert_content)

lemma index_step_upsert:
  assumes ok: "db_ok db" and u: "upsert_document coll path title hash now db = Inr (db', rid)"
  shows "index_step coll {path} db db'"
proof -
  have a: "is_active coll db' path"
    using tab_find_doc(1) [OF u] by (auto simp: is_active_def new_doc_row_def updated_doc_row_def split: option.splits)
  have b: "is_active coll db' p = is_active coll db p" if "p \<noteq> path" for p
    using tab_find_doc(2) [OF u, of "(coll, p)"] that by (simp add: is_active_def)
  have c: "others_same coll db db'" using tab_find_doc(2) [OF u] by (simp add: others_same_def)
  show ?thesis
    unfolding index_step_def
  proof (intro conjI allI impI)
    show "db_ok db'" by (rule db_ok_upsert_document [OF ok u])
    show "others_same coll db db'" by (rule c)
    fix p
    show "is_active coll db' p" if "is_active coll db p" using that a b [of p] by (cases "p = path") auto
    show "is_active coll db p \<or> p \<in> {path}" if "is_active coll db' p" using that b [of p] by auto
    show "is_inactive coll db p" if "is_inactive coll db' p"
      using that a tab_find_doc(2) [OF u, of "(coll, p)"]
      by (cases "p = path") (auto simp: is_active_def is_inactive_def split: option.splits)
  qed
qed

lemma on_fts_db [simp]: "st_db (fst (on_fts f st)) = st_db st"
  by (simp add: on_fts_def case_prod_beta)

lemma on_db_db [simp]: "st_db (on_db f st) = f (st_db st)"
  by (simp add: on_db_def)

subsection \<open>Indexing the files\<close>

lemma index_document_step:
  assumes ok: "db_ok (st_db st)"
  shows "index_step coll {path} (st_db st) (st_db (fst (index_document_fts_only_with_raw env coll path title txt raw st)))"
proof -
  define hash where "hash = content_hash (e_sha env) txt"
  define db1 where "db1 = upsert_content hash txt (rfc3339_now env) (st_db st)"
  have s1: "index_step coll {path} (st_db st) db1" unfolding db1_def by (rule index_step_content [OF ok])
  have ok1: "db_ok db1" using s1 by (simp add: index_step_def)
  show ?thesis
  proof (cases "classify (get_document_by_filepath coll path (st_db st)) hash = Unchanged")
    case True
    show ?thesis
    proof (cases "doc_at coll path db1")
      case None
      then have "get_document_by_filepath coll path db1 = None" by (simp add: get_document_by_filepath_def)
      then show ?thesis using True s1 by (simp add: index_document_fts_only_with_raw_def hash_def db1_def)
    next
      case (Some r)
      then have d: "get_document_by_filepath coll path db1 = Some (to_document r)" by (simp add: get_document_by_filepath_def)
      have "index_step coll {path} db1 (set_document_raw (d_id r) raw db1)" using ok1 Some by (rule index_step_raw)
      from index_step_trans [OF s1 this] show ?thesis
        using True d by (simp add: index_document_fts_only_with_raw_def hash_def db1_def to_document_def)
    qed
  next
    case False
    show ?thesis
    proof (cases "upsert_document coll path title hash (rfc3339_now env) db1")
      case (Inl e)
      then show ?thesis using False s1 by (simp add: index_document_fts_only_with_raw_def hash_def db1_def)
    next
      case (Inr p)
      obtain db2 rid where u: "upsert_document coll path title hash (rfc3339_now env) db1 = Inr (db2, rid)"
        using Inr by (cases p) auto
      have s2: "index_step coll {path} db1 db2" using ok1 u by (rule index_step_upsert)
      then have ok2: "db_ok db2" by (simp add: index_step_def)
      obtain row where row: "doc_at coll path db2 = Some row" "d_id row = rid" using upsert_document_row [OF u] by blast
      have s3: "index_step coll {path} db2 (set_document_raw rid raw db2)"
        using index_step_raw [OF ok2 row(1)] row(2) by simp
      have "index_step coll {path} (st_db st) (set_document_raw rid raw db2)"
        using index_step_trans [OF index_step_trans [OF s1 s2] s3] by simp
      moreover have "st_db (fst (index_document_fts_only_with_raw env coll path title txt raw st)) = set_document_raw rid raw db2"
        unfolding index_document_fts_only_with_raw_def Let_def hash_def [symmetric] using False u
        by (auto simp: db1_def on_fts_def sbind_def split: option.splits sum.splits prod.splits)
      ultimately show ?thesis by simp
    qed
  qed
qed

abbreviation entry_path :: "entry \<Rightarrow> string" where
  "entry_path e \<equiv> rel_string (en_path e)"

lemma update_file_step:
  assumes ok: "db_ok (st_db st)"
  shows "index_step coll {entry_path e} (st_db st) (st_db (fst (update_file ue coll cache e t st)))"
proof (cases "stat_hit cache e \<or> prepare e = None \<or> (\<exists>reason. prepare e = Some (Inl reason))")
  case True
  then show ?thesis using ok by (auto simp: update_file_def Let_def)
next
  case False
  then obtain doc where doc: "prepare e = Some (Inr doc)" by (cases "prepare e") (auto, metis sum.exhaust)
  then have path: "pr_rel_path doc = entry_path e"
    by (auto simp: prepare_def split: sum.splits)
  let ?r = "index_document_fts_only_with_raw (u_env ue) coll (pr_rel_path doc) (pr_title doc) (pr_indexed_text doc) (pr_raw doc) st"
  have s: "index_step coll {entry_path e} (st_db st) (st_db (fst ?r))" using index_document_step [OF ok] path by metis
  then have ok1: "db_ok (st_db (fst ?r))" by (simp add: index_step_def)
  have s': "index_step coll {entry_path e} (st_db st) (set_document_stat coll (entry_path e) x (st_db (fst ?r)))" for x
    using index_step_trans [OF s index_step_stat [OF ok1]] by simp
  obtain st1 r where r: "?r = (st1, r)" by fastforce
  show ?thesis
    using False s s' unfolding update_file_def Let_def doc option.case sum.case r path [symmetric]
    by (auto split: sum.splits store_error.splits)
qed

lemma update_files_step:
  assumes "db_ok (st_db st)"
  shows "index_step coll (entry_path ` set files) (st_db st) (st_db (fst (update_files ue coll cache ci n files t st)))"
  using assms
proof (induction files arbitrary: n t st)
  case (Cons e files)
  show ?case
  proof (cases "u_signal ue ci n")
    case (Some signal)
    then show ?thesis using Cons.prems by simp
  next
    case None
    obtain st1 r where r: "update_file ue coll cache e t st = (st1, r)" by fastforce
    have s: "index_step coll {entry_path e} (st_db st) (st_db st1)" using update_file_step [OF Cons.prems, of coll e ue cache t] by (simp add: r)
    then have ok1: "db_ok (st_db st1)" by (simp add: index_step_def)
    show ?thesis
    proof (cases r)
      case (Inl err)
      then show ?thesis using index_step_mono [OF s, of "insert (entry_path e) (entry_path ` set files)"] None r by simp
    next
      case (Inr t')
      then show ?thesis using index_step_trans [OF s Cons.IH [OF ok1, of "Suc n" t']] None r by simp
    qed
  qed
qed simp

subsection \<open>What an indexed file leaves\<close>

definition present :: "string \<Rightarrow> db \<Rightarrow> db \<Rightarrow> string \<Rightarrow> bool" where
  "present coll db db' path \<longleftrightarrow> is_active coll db' path \<or> is_inactive coll db path"

lemma index_document_present:
  assumes ok: "db_ok (st_db st)"
    and r: "index_document_fts_only_with_raw env coll path title txt raw st = (st', Inr oc)"
  shows "present coll (st_db st) (st_db st') path"
proof (cases "doc_at coll path (st_db st)")
  case (Some row)
  then have "is_active coll (st_db st) path \<or> is_inactive coll (st_db st) path"
    by (auto simp: is_active_def is_inactive_def)
  then show ?thesis
    using index_document_step [OF ok, of coll path env title "txt" raw] unfolding r present_def index_step_def by auto
next
  case None
  define hash where "hash = content_hash (e_sha env) txt"
  define db1 where "db1 = upsert_content hash txt (rfc3339_now env) (st_db st)"
  have d: "get_document_by_filepath coll path (st_db st) = None" using None by (simp add: get_document_by_filepath_def)
  then have "classify (get_document_by_filepath coll path (st_db st)) hash \<noteq> Unchanged" by (simp add: classify_def)
  then obtain db2 rid where u: "upsert_document coll path title hash (rfc3339_now env) db1 = Inr (db2, rid)"
      and db': "st_db st' = set_document_raw rid raw db2"
    using r unfolding index_document_fts_only_with_raw_def Let_def hash_def [symmetric]
    by (auto simp: db1_def on_fts_def sbind_def split: option.splits sum.splits prod.splits)
  have "get_document_by_filepath coll path db2 = Some \<lparr>doc_id = rid, doc_collection = coll, doc_path = path, doc_title = title,
      doc_hash = hash, doc_active = True\<rparr>"
    using upsert_document_row [OF u] by (metis get_document_by_filepath_def option.map(2))
  then have "get_document_by_filepath coll path (st_db st') = Some \<lparr>doc_id = rid, doc_collection = coll, doc_path = path,
      doc_title = title, doc_hash = hash, doc_active = True\<rparr>"
    by (simp add: db')
  then show ?thesis
    by (auto simp: present_def is_active_def get_document_by_filepath_def to_document_def split: option.splits)
qed

lemma present_mono: "index_step coll P db db1 \<Longrightarrow> present coll db1 db2 p \<Longrightarrow> present coll db db2 p"
  unfolding index_step_def present_def by blast

lemma present_later: "present coll db db1 p \<Longrightarrow> index_step coll P db1 db2 \<Longrightarrow> present coll db db2 p"
  unfolding index_step_def present_def by blast

definition cache_active :: "string \<Rightarrow> (string \<Rightarrow> file_stat option) \<Rightarrow> db \<Rightarrow> bool" where
  "cache_active coll cache db \<longleftrightarrow> (\<forall>p. cache p \<noteq> None \<longrightarrow> is_active coll db p)"

lemma stat_cache_active: "db_ok db \<Longrightarrow> cache_active coll (load_doc_stat_cache coll db) db"
proof -
  assume ok: "db_ok db"
  have "is_active coll db p" if "load_doc_stat_cache coll db p \<noteq> None" for p
  proof -
    have "filter (\<lambda>r. d_collection r = coll \<and> d_active r \<and> d_path r = p \<and> d_size r \<noteq> None \<and> d_mtime_ns r \<noteq> None) (documents db) \<noteq> []"
      using that unfolding load_doc_stat_cache_def by (auto split: list.splits)
    then obtain r where r: "r \<in> set (documents db)" "d_collection r = coll" "d_active r" "d_path r = p"
      by (auto simp: filter_empty_conv)
    then show ?thesis using tab_find_unique [OF db_okD(2) [OF ok] r(1)] by (simp add: is_active_def)
  qed
  then show ?thesis by (simp add: cache_active_def)
qed

lemma cache_active_later: "cache_active coll cache db \<Longrightarrow> index_step coll P db db' \<Longrightarrow> cache_active coll cache db'"
  by (simp add: cache_active_def index_step_def)

lemma update_file_present:
  assumes ok: "db_ok (st_db st)" and c: "cache_active coll cache (st_db st)"
    and r: "update_file ue coll cache e t st = (st', Inr t')" and cl: "tl_clean t'"
  shows "tl_clean t \<and> present coll (st_db st) (st_db st') (entry_path e)"
proof (cases "stat_hit cache e")
  case True
  then have "cache (entry_path e) \<noteq> None" by (auto simp: stat_hit_def)
  then show ?thesis using True r cl c by (auto simp: update_file_def present_def cache_active_def)
next
  case False
  then obtain doc where doc: "prepare e = Some (Inr doc)"
    using r cl by (auto simp: update_file_def Let_def split: option.splits sum.splits)
  then have path: "pr_rel_path doc = entry_path e" by (auto simp: prepare_def split: sum.splits)
  obtain st1 oc where i: "index_document_fts_only_with_raw (u_env ue) coll (pr_rel_path doc) (pr_title doc) (pr_indexed_text doc) (pr_raw doc) st = (st1, Inr oc)"
      and s: "st_db st' = set_document_stat coll (pr_rel_path doc) (Option.bind (stat_file e) (trusted_stat (u_now ue (pr_rel_path doc)))) (st_db st1)"
      and t: "t' = count_outcome oc (t\<lparr>tl_processed := tl_processed t + 1\<rparr>)"
    using r cl False doc by (auto simp: update_file_def Let_def split: prod.splits sum.splits store_error.splits)
  have ok1: "db_ok (st_db st1)"
    using index_document_step [OF ok, of coll "pr_rel_path doc" "u_env ue" "pr_title doc" "pr_indexed_text doc" "pr_raw doc"]
    by (simp add: i index_step_def)
  have "tl_clean t" using cl by (cases oc) (simp_all add: t count_outcome_def)
  moreover have "present coll (st_db st) (st_db st') (entry_path e)"
    using present_later [OF index_document_present [OF ok i] index_step_stat [OF ok1]] by (simp add: s path)
  ultimately show ?thesis by blast
qed

lemma update_files_present:
  assumes "db_ok (st_db st)" and "cache_active coll cache (st_db st)"
    and "update_files ue coll cache ci n files t st = (st', Inr (t', None))" and "tl_clean t'"
  shows "tl_clean t \<and> (\<forall>e\<in>set files. present coll (st_db st) (st_db st') (entry_path e))"
  using assms
proof (induction files arbitrary: n t st)
  case (Cons e files)
  obtain st1 t1 where r: "update_file ue coll cache e t st = (st1, Inr t1)"
      and rest: "update_files ue coll cache ci (Suc n) files t1 st1 = (st', Inr (t', None))"
    using Cons.prems(3) by (auto simp: sbind_def split: option.splits prod.splits sum.splits)
  have s: "index_step coll {entry_path e} (st_db st) (st_db st1)"
    using update_file_step [OF Cons.prems(1), of coll e ue cache t] by (simp add: r)
  then have ok1: "db_ok (st_db st1)" by (simp add: index_step_def)
  have s2: "index_step coll (entry_path ` set files) (st_db st1) (st_db st')"
    using update_files_step [OF ok1, of coll files ue cache ci "Suc n" t1] by (simp add: rest)
  have ih: "tl_clean t1" "\<forall>e\<in>set files. present coll (st_db st1) (st_db st') (entry_path e)"
    using Cons.IH [OF ok1 cache_active_later [OF Cons.prems(2) s] rest Cons.prems(4)] by simp_all
  then show ?case
    using update_file_present [OF Cons.prems(1,2) r ih(1)] present_later [OF _ s2] present_mono [OF s] by auto
qed simp

subsection \<open>Pruning\<close>

definition deactivated :: "string \<Rightarrow> string set \<Rightarrow> doc_row \<Rightarrow> doc_row" where
  "deactivated coll gone r = (if d_collection r = coll \<and> d_path r \<in> gone then r\<lparr>d_active := False\<rparr> else r)"

lemma deactivate_batches:
  "tab_find doc_key k (documents (fold (\<lambda>chunk. update_docs (\<lambda>r. d_collection r = coll \<and> d_path r \<in> set chunk)
      (\<lambda>r. r\<lparr>d_active := False\<rparr>)) bs db)) =
   map_option (deactivated coll (set (concat bs))) (tab_find doc_key k (documents db))"
proof (induction bs arbitrary: db)
  case Nil
  have "deactivated coll {} = (\<lambda>r. r)" by (rule ext) (simp add: deactivated_def)
  then show ?case by (simp add: option.map_ident)
next
  case (Cons b bs)
  have "tab_find doc_key k (documents (update_docs (\<lambda>r. d_collection r = coll \<and> d_path r \<in> set b) (\<lambda>r. r\<lparr>d_active := False\<rparr>) db)) =
      map_option (deactivated coll (set b)) (tab_find doc_key k (documents db))"
    by (subst update_docs_find) (simp_all add: deactivated_def [abs_def])
  then show ?case
    unfolding fold_simps comp_apply Cons.IH
    by (cases "tab_find doc_key k (documents db)") (auto simp: deactivated_def)
qed

lemma deactivate_find:
  assumes "deactivate_missing_documents coll current db = (db', missing)"
  shows "tab_find doc_key k (documents db') = map_option (deactivated coll (set missing)) (tab_find doc_key k (documents db))"
    and "set missing = {p. p \<notin> current \<and> (\<exists>r\<in>set (documents db). d_collection r = coll \<and> d_active r \<and> d_path r = p)}"
proof -
  have "0 < PATH_BATCH" by (simp add: PATH_BATCH_def)
  then have "concat (batches PATH_BATCH missing) = missing" by (rule concat_batches)
  then show "tab_find doc_key k (documents db') = map_option (deactivated coll (set missing)) (tab_find doc_key k (documents db))"
    using assms deactivate_batches [of k coll "batches PATH_BATCH missing" db]
    by (auto simp: deactivate_missing_documents_def Let_def)
  show "set missing = {p. p \<notin> current \<and> (\<exists>r\<in>set (documents db). d_collection r = coll \<and> d_active r \<and> d_path r = p)}"
    using assms by (auto simp: deactivate_missing_documents_def Let_def)
qed

lemma remove_stale_db [simp]: "st_db (remove_stale env coll ps st) = st_db st"
  by (induction ps arbitrary: st) (simp_all add: remove_from_fts_def)

lemma prune_spec:
  assumes ok: "db_ok (st_db st)"
  shows "db_ok (st_db (fst (prune env coll files st))) \<and> others_same coll (st_db st) (st_db (fst (prune env coll files st)))
    \<and> (\<forall>p. is_active coll (st_db (fst (prune env coll files st))) p \<longleftrightarrow> is_active coll (st_db st) p \<and> p \<in> entry_path ` set files)"
proof -
  let ?current = "entry_path ` set files"
  obtain db' missing where d: "deactivate_missing_documents coll ?current (st_db st) = (db', missing)" by fastforce
  note f = deactivate_find [OF d]
  have eq: "st_db (fst (prune env coll files st)) = db'" by (simp add: prune_def d)
  have "others_same coll (st_db st) db'"
    unfolding others_same_def f(1)
  proof (intro allI impI)
    fix c p assume "c \<noteq> coll"
    then show "map_option (deactivated coll (set missing)) (doc_at c p (st_db st)) = doc_at c p (st_db st)"
      using tab_find_Some [of doc_key "(c, p)" "documents (st_db st)"]
      by (cases "doc_at c p (st_db st)") (auto simp: deactivated_def)
  qed
  moreover have "is_active coll db' p \<longleftrightarrow> is_active coll (st_db st) p \<and> p \<in> ?current" for p
  proof (cases "doc_at coll p (st_db st)")
    case (Some r)
    then have r: "r \<in> set (documents (st_db st))" "d_collection r = coll" "d_path r = p"
      using tab_find_Some [OF Some] by auto
    have "p \<in> set missing \<longleftrightarrow> p \<notin> ?current \<and> d_active r"
    proof -
      have "r' = r" if "r' \<in> set (documents (st_db st))" "d_collection r' = coll" "d_path r' = p" for r'
        using tab_find_unique [OF db_okD(2) [OF ok] that(1)] that Some by simp
      then show ?thesis unfolding f(2) using r by blast
    qed
    then show ?thesis using r by (auto simp: is_active_def f(1) Some deactivated_def)
  qed (simp add: is_active_def f(1))
  moreover have "db_ok db'" using db_ok_deactivate [OF ok, of coll ?current] by (simp add: d)
  ultimately show ?thesis unfolding eq by blast
qed

subsection \<open>The collection\<close>

text \<open>The paths of the files the walk found: none when the mask is invalid.\<close>

definition candidate_paths :: "('ix, 'v, 'f, 'g) uenv \<Rightarrow> collection \<Rightarrow> string set" where
  "candidate_paths ue col =
     (case build_include_set (u_gs ue) (col_pattern col) of
        Inl _ \<Rightarrow> {}
      | Inr include \<Rightarrow> entry_path ` set (ca_files (collect_candidates (u_walk ue (col_path col)) include
          (build_ignore_set (u_gs ue) (col_ignore col)) (for_collection col))))"

definition update_promise :: "string \<Rightarrow> string set \<Rightarrow> collection_outcome \<Rightarrow> db \<Rightarrow> db \<Rightarrow> bool" where
  "update_promise coll found oc db db' \<longleftrightarrow>
     (if oc_report oc = None then db' = db
      else (\<forall>p. is_active coll db' p \<longrightarrow> is_active coll db p \<or> p \<in> found)
         \<and> (oc_clean oc \<longrightarrow> (\<forall>p\<in>found. present coll db db' p))
         \<and> (if oc_interrupted oc \<noteq> None \<or> found = {} then \<forall>p. is_active coll db p \<longrightarrow> is_active coll db' p
            else (\<forall>p. is_active coll db' p \<longrightarrow> p \<in> found) \<and> (\<forall>p\<in>found. is_active coll db p \<longrightarrow> is_active coll db' p)))"

lemma promise_unchanged: "oc_report oc = None \<Longrightarrow> update_promise coll found oc db db"
  by (simp add: update_promise_def)

lemma update_walked_spec:
  assumes ok: "db_ok (st_db st)" and c: "cache_active coll cache (st_db st)"
    and r: "update_walked ue coll cache ci ca hook_failure st = (st', r)"
  shows "db_ok (st_db st') \<and> others_same coll (st_db st) (st_db st')
    \<and> (case r of Inl e \<Rightarrow> True | Inr oc \<Rightarrow> update_promise coll (entry_path ` set (ca_files ca)) oc (st_db st) (st_db st'))"
proof -
  define files where "files = ca_files ca"
  obtain st1 r1 where r1: "update_files ue coll cache ci 1 files (blank_tally (ca_too_large ca)) st = (st1, r1)" by fastforce
  have s1: "index_step coll (entry_path ` set files) (st_db st) (st_db st1)"
    using update_files_step [OF ok, of coll files ue cache ci 1] by (metis fst_conv r1)
  then have ok1: "db_ok (st_db st1)" and o1: "others_same coll (st_db st) (st_db st1)" by (simp_all add: index_step_def)
  note u = r [unfolded update_walked_def files_def [symmetric] r1]
  show ?thesis
  proof (cases r1)
    case (Inl err)
    then show ?thesis using u ok1 o1 by auto
  next
    case (Inr ts)
    obtain t stopped where ts: "ts = (t, stopped)" by (cases ts)
    obtain st2 removed where p: "(if files \<noteq> [] \<and> stopped = None then prune (u_env ue) coll files st1 else (st1, 0)) = (st2, removed)"
      by fastforce
    obtain st3 r3 where f: "flush (u_env ue) st2 = (st3, r3)" by fastforce
    have st2: "st2 = (if files \<noteq> [] \<and> stopped = None then fst (prune (u_env ue) coll files st1) else st1)"
      using p by (auto split: if_splits)
    have ok2: "db_ok (st_db st2)" "others_same coll (st_db st) (st_db st2)"
      using prune_spec [OF ok1, of "u_env ue" coll files] ok1 o1 by (auto simp: st2 others_same_def)
    have act: "if stopped \<noteq> None \<or> files = [] then \<forall>p. is_active coll (st_db st) p \<longrightarrow> is_active coll (st_db st2) p
        else (\<forall>p. is_active coll (st_db st2) p \<longrightarrow> p \<in> entry_path ` set files)
          \<and> (\<forall>p\<in>entry_path ` set files. is_active coll (st_db st) p \<longrightarrow> is_active coll (st_db st2) p)"
      and new: "\<forall>p. is_active coll (st_db st2) p \<longrightarrow> is_active coll (st_db st) p \<or> p \<in> entry_path ` set files"
      using s1 prune_spec [OF ok1, of "u_env ue" coll files] unfolding st2 index_step_def by auto
    have db': "st_db st' = st_db st2" and oc: "case r of Inl e \<Rightarrow> True
        | Inr oc \<Rightarrow> oc_report oc \<noteq> None \<and> oc_interrupted oc = stopped \<and> (oc_clean oc \<longrightarrow> tl_clean t \<and> stopped = None)"
      using u flush_db [of "u_env ue" st2] unfolding Inr ts sbind_simps prod.case p f
      by (auto split: sum.splits option.splits)
    have found: "\<forall>p\<in>entry_path ` set files. present coll (st_db st) (st_db st2) p" if "tl_clean t" "stopped = None"
    proof -
      have "update_files ue coll cache ci 1 files (blank_tally (ca_too_large ca)) st = (st1, Inr (t, None))"
        using r1 Inr ts that(2) by simp
      from update_files_present [OF ok c this that(1)]
      have "\<forall>p\<in>entry_path ` set files. present coll (st_db st) (st_db st1) p" by auto
      then show ?thesis using prune_spec [OF ok1, of "u_env ue" coll files] by (auto simp: st2 present_def)
    qed
    show ?thesis
    proof (cases r)
      case (Inr oc')
      then have "oc_report oc' \<noteq> None" "oc_interrupted oc' = stopped" "oc_clean oc' \<Longrightarrow> tl_clean t \<and> stopped = None"
        using oc by auto
      then have "update_promise coll (entry_path ` set files) oc' (st_db st) (st_db st2)"
        using act new found unfolding update_promise_def by auto
      then show ?thesis using ok2 unfolding files_def [symmetric] Inr db' by simp
    qed (use ok2 db' in simp)
  qed
qed

lemma update_one_collection_step:
  assumes ok: "db_ok (st_db st)"
  shows "case update_one_collection ue allowed full ci col st of
      (st', r) \<Rightarrow> db_ok (st_db st') \<and> others_same (col_name col) (st_db st) (st_db st')
        \<and> (case r of Inl e \<Rightarrow> True | Inr oc \<Rightarrow> update_promise (col_name col) (candidate_paths ue col) oc (st_db st) (st_db st'))"
proof (cases "\<not> u_exists ue (col_path col) \<or> (\<exists>s. run_update_hook ue allowed col = Inl s)
    \<or> (\<exists>e. build_include_set (u_gs ue) (col_pattern col) = Inl e)")
  case True
  then show ?thesis
    using ok by (auto simp: update_one_collection_def others_same_def promise_unchanged split: sum.splits)
next
  case False
  then obtain hook_failure incl where h: "run_update_hook ue allowed col = Inr hook_failure"
    and i: "build_include_set (u_gs ue) (col_pattern col) = Inr incl" and e: "u_exists ue (col_path col)"
    by (meson sum.exhaust)
  define ca where "ca = collect_candidates (u_walk ue (col_path col)) incl (build_ignore_set (u_gs ue) (col_ignore col)) (for_collection col)"
  define cache where "cache = (if full then Map.empty else load_doc_stat_cache (col_name col) (st_db st))"
  obtain st' r where r: "update_walked ue (col_name col) cache ci ca hook_failure st = (st', r)" by fastforce
  have "update_one_collection ue allowed full ci col st = (st', r)"
    unfolding update_one_collection_def h i sum.case cache_def [symmetric] ca_def [symmetric] r using e by simp
  moreover have "candidate_paths ue col = entry_path ` set (ca_files ca)" by (simp add: candidate_paths_def i ca_def)
  moreover have "cache_active (col_name col) cache (st_db st)"
    using stat_cache_active [OF ok] by (simp add: cache_def cache_active_def)
  ultimately show ?thesis using update_walked_spec [OF ok _ r] by (cases r) simp_all
qed


definition sample_uenv :: "(nat \<times> (nat \<times> nat) list, nat, nat \<times> (nat \<times> nat) list, string) uenv" where
  "sample_uenv =
     \<lparr>u_env = sample_env, u_codec = line_codec,
      u_gs = \<lparr>gs_glob = Some, gs_build = (\<lambda>gs. Some (\<lambda>path. list_ex (\<lambda>g. ends_with g path) gs))\<rparr>,
      u_exists = (\<lambda>_. True), u_walk = (\<lambda>_. walk_of sample_tree), u_hook = (\<lambda>_ _. Succeeded),
      u_signal = (\<lambda>_ _. None), u_now = (\<lambda>_. 10 ^ 10)\<rparr>"

definition notes_collection :: collection where
  "notes_collection = \<lparr>col_name = ''notes'', col_path = ''/notes'', col_pattern = ''.md'', col_ignore = [],
     col_include_by_default = True, col_update_command = None, col_allow_hidden = False, col_respect_gitignore = False,
     col_max_file_bytes = None, col_embed_ignore = [], col_embed_max_bytes = None\<rparr>"


end
