(* ===== verification/Embed.thy ===== *)
theory Embed
  imports Update Exclusion Deadline
begin

text \<open>
  \<open>rqmd embed\<close>, \<open>crates/rqmd-cli/src/commands/index.rs\<close>: choosing the documents to embed, the loop with
  its skipped failures, the checkpoints that write the vector file before the rows that refer to it, the
  rebuild and the cleanup. Progress lines and advisories are left out; a failure keeps its error instead of
  the error's text. The hash set of the rows to delete is a list without duplicates.
\<close>

record ('ix, 'v, 'f, 'g) eenv =
  x_env :: "('ix, 'v, 'f) env"
  x_codec :: codec
  x_gs :: "'g globset"
  x_signal :: "nat \<Rightarrow> nat \<Rightarrow> int option"     \<comment> \<open>before the \<open>n\<close>-th document of a collection\<close>
  x_now :: "nat \<Rightarrow> nat \<Rightarrow> nat"               \<comment> \<open>the clock, likewise\<close>

definition CHECKPOINT_INTERVAL :: nat where "CHECKPOINT_INTERVAL = 50"
definition MAX_CONSECUTIVE_EMBED_FAILURES :: nat where "MAX_CONSECUTIVE_EMBED_FAILURES = 5"

record embed_failure =
  ef_collection :: string
  ef_path :: string
  ef_error :: store_error

record embed_run =
  er_pending :: "pending_vector list"
  er_deletes :: "string list"
  er_failures :: "embed_failure list"
  er_consecutive :: nat
  er_new_docs :: nat
  er_new_chunks :: nat
  er_interval :: nat

definition embed_run_new :: "nat \<Rightarrow> embed_run" where
  "embed_run_new interval =
     \<lparr>er_pending = [], er_deletes = [], er_failures = [], er_consecutive = 0, er_new_docs = 0, er_new_chunks = 0,
      er_interval = interval\<rparr>"

datatype embed_flow = FlowContinue | FlowAbort | FlowTimedOut timed_out | FlowInterrupted int

datatype embed_error =
  XStore store_error | XPanicked | XNoCollection string | XConsecutive | XTimedOut timed_out | XInterrupted int | XPartial nat

subsection \<open>Checkpoints\<close>

text \<open>The rows of the transaction; \<open>seen\<close> are the hashes whose superseded marker is already cleared.\<close>

fun commit_rows :: "string set \<Rightarrow> pending_vector list \<Rightarrow> db \<Rightarrow> db_error + db" where
  "commit_rows seen [] db = Inr db"
| "commit_rows seen (m # ms) db =
     (let db = (if pv_hash m \<in> seen then db else fst (clear_prev_hash (pv_hash m) db)) in
      rbind (upsert_vector_meta (pv_hash m) (pv_seq m) (pv_pos m) (pv_model m) (pv_fingerprint m) (pv_total_chunks m)
          (pv_vid m) (pv_now m) db) (\<lambda>db.
        commit_rows (insert (pv_hash m) seen) ms (set_vector_identity (pv_hash m) (pv_seq m) (pv_chunk_hash m) (pv_key m) db)))"

definition commit_pending :: "string list \<Rightarrow> pending_vector list \<Rightarrow> nat \<Rightarrow> db \<Rightarrow> db_error + db" where
  "commit_pending deletes pending vid db =
     rbind (commit_rows {} pending (fold (\<lambda>hash db. fst (delete_vectors_for_hash hash db)) deletes db)) (\<lambda>db.
       Inr (persist_next_vid_floor vid db))"

text \<open>An error in the transaction rolls it back.\<close>

definition checkpoint ::
  "('ix, 'v, 'f) env \<Rightarrow> pending_vector list \<Rightarrow> string list \<Rightarrow> ('ix, 'f) store \<Rightarrow> ('ix, 'f) store \<times> (store_error + unit)" where
  "checkpoint env pending deletes st =
     (if pending = [] \<and> deletes = [] then (st, Inr ())
      else sbind (flush env st) (\<lambda>st _.
        case commit_pending deletes pending (next_vid st) (st_db st) of
          Inl e \<Rightarrow> (st, Inl (DbErr e))
        | Inr db \<Rightarrow> (vectors_committed (st\<lparr>st_db := db\<rparr>), Inr ())))"

definition run_checkpoint ::
  "('ix, 'v, 'f) env \<Rightarrow> embed_run \<Rightarrow> ('ix, 'f) store \<Rightarrow> ('ix, 'f) store \<times> (store_error + embed_run)" where
  "run_checkpoint env run st =
     sbind (checkpoint env (er_pending run) (er_deletes run) st) (\<lambda>st _. (st, Inr (run\<lparr>er_pending := [], er_deletes := []\<rparr>)))"

subsection \<open>The embed loop\<close>

text \<open>A document embedded again: its superseded vectors leave the index, their rows at the next checkpoint.\<close>

definition supersede ::
  "('ix, 'v, 'f) env \<Rightarrow> string \<Rightarrow> embed_run \<Rightarrow> ('ix, 'f) store \<Rightarrow> ('ix, 'f) store \<times> (store_error + embed_run)" where
  "supersede env hash run st =
     (if hash_has_any_vector (st_db st) hash then
        sbind (st, smap_err DbErr (vids_for_hash hash (st_db st))) (\<lambda>st stale.
        sbind (evict_hnsw_vectors env stale st) (\<lambda>st _.
          (st, Inr (run\<lparr>er_deletes := (if hash \<in> set (er_deletes run) then er_deletes run else er_deletes run @ [hash])\<rparr>))))
      else (st, Inr run))"

text \<open>\<open>n\<close> counts the documents looked at, \<open>finished\<close> those embedded.\<close>

fun embed_docs ::
  "('ix, 'v, 'f, 'g) eenv \<Rightarrow> deadline \<Rightarrow> nat \<Rightarrow> nat \<Rightarrow> nat \<Rightarrow> document list \<Rightarrow> embed_run \<Rightarrow> ('ix, 'f) store
    \<Rightarrow> ('ix, 'f) store \<times> (store_error + embed_flow \<times> embed_run)" where
  "embed_docs xe d ci n finished [] run st = (st, Inr (FlowContinue, run))"
| "embed_docs xe d ci n finished (doc # docs) run st =
     (case x_signal xe ci n of
        Some signal \<Rightarrow> (st, Inr (FlowInterrupted signal, run))
      | None \<Rightarrow>
     (case deadline_check (x_now xe ci n) ''the next document'' d of
        Inl t \<Rightarrow> (st, Inr (FlowTimedOut t, run))
      | Inr _ \<Rightarrow>
          (let body = (case get_content (doc_hash doc) (st_db st) of Some b \<Rightarrow> b | None \<Rightarrow> []) in
           if body = [] then
             embed_docs xe d ci (Suc n) finished docs run (on_db (\<lambda>db. fst (clear_prev_hash (doc_hash doc) db)) st)
           else
             (case embed_document_chunks (x_env xe) (doc_hash doc) (doc_path doc) body st of
                (st, Inr new_chunks) \<Rightarrow>
                  sbind (supersede (x_env xe) (doc_hash doc) run st) (\<lambda>st run.
                    (let run = run\<lparr>er_consecutive := 0, er_new_chunks := er_new_chunks run + length new_chunks,
                                   er_new_docs := er_new_docs run + 1, er_pending := er_pending run @ new_chunks\<rparr>
                     in sbind (if Suc finished mod er_interval run = 0 then run_checkpoint (x_env xe) run st else (st, Inr run))
                          (\<lambda>st run. embed_docs xe d ci (Suc n) (Suc finished) docs run st)))
              | (st, Inl Panicked) \<Rightarrow> (st, Inl Panicked)
              | (st, Inl e) \<Rightarrow>
                  (let run = run\<lparr>er_consecutive := er_consecutive run + 1,
                                 er_failures := er_failures run @ [\<lparr>ef_collection = doc_collection doc, ef_path = doc_path doc, ef_error = e\<rparr>]\<rparr>
                   in if MAX_CONSECUTIVE_EMBED_FAILURES \<le> er_consecutive run then (st, Inr (FlowAbort, run))
                      else embed_docs xe d ci (Suc n) finished docs run st)))))"

definition finish_embed :: "embed_run \<Rightarrow> embed_flow \<Rightarrow> embed_error + unit" where
  "finish_embed run flow =
     (case flow of
        FlowAbort \<Rightarrow> Inl XConsecutive
      | FlowTimedOut t \<Rightarrow> Inl (XTimedOut t)
      | FlowInterrupted signal \<Rightarrow> Inl (XInterrupted signal)
      | FlowContinue \<Rightarrow> if er_failures run = [] then Inr () else Inl (XPartial (length (er_failures run))))"

subsection \<open>The collections\<close>

text \<open>The documents whose hash needs vectors, each hash once per run.\<close>

fun embed_todo ::
  "('ix, 'v, 'f) env \<Rightarrow> db \<Rightarrow> int list \<Rightarrow> string set \<Rightarrow> document list \<Rightarrow> document list \<times> string set" where
  "embed_todo env db excluded seen [] = ([], seen)"
| "embed_todo env db excluded seen (doc # docs) =
     (if doc_id doc \<in> set excluded \<or> doc_hash doc \<in> seen
         \<or> \<not> hash_needs_embed_excluding db (doc_hash doc) (expected_embed_fingerprint (e_sha env) (e_feats env) (e_model env))
               (expected_embed_ast_fingerprints (e_sha env) (e_feats env) (e_model env)) excluded
      then embed_todo env db excluded seen docs
      else (case embed_todo env db excluded (insert (doc_hash doc) seen) docs of (todo, seen) \<Rightarrow> (doc # todo, seen)))"

fun embed_loop ::
  "('ix, 'v, 'f, 'g) eenv \<Rightarrow> deadline \<Rightarrow> int list \<Rightarrow> nat \<Rightarrow> string list \<Rightarrow> string set \<Rightarrow> embed_run \<Rightarrow> ('ix, 'f) store
    \<Rightarrow> ('ix, 'f) store \<times> (store_error + embed_flow \<times> embed_run)" where
  "embed_loop xe d excluded ci [] seen run st = (st, Inr (FlowContinue, run))"
| "embed_loop xe d excluded ci (col # cols) seen run st =
     (case embed_todo (x_env xe) (st_db st) excluded seen (list_documents (Some col) (st_db st)) of
        (todo, seen) \<Rightarrow>
          sbind (embed_docs xe d ci 0 0 todo run st) (\<lambda>st (flow, run).
            if flow \<noteq> FlowContinue then (st, Inr (flow, run)) else embed_loop xe d excluded (Suc ci) cols seen run st))"

definition lift_embed :: "('ix, 'f) store \<times> (store_error + 'a) \<Rightarrow> ('ix, 'f) store \<times> (embed_error + 'a)" where
  "lift_embed r = (fst r, smap_err (\<lambda>e. if e = Panicked then XPanicked else XStore e) (snd r))"

definition embed_collections ::
  "('ix, 'v, 'f, 'g) eenv \<Rightarrow> string list \<Rightarrow> bool \<Rightarrow> deadline \<Rightarrow> ('ix, 'f) store \<Rightarrow> ('ix, 'f) store \<times> (embed_error + unit)" where
  "embed_collections xe cols rebuild d st =
     (let st = (if rebuild then st else fst (store_backfill_vector_keys (x_env xe) st));
          excluded = ed_ids (excluded_docs (st_db st) (load_exclusions (x_gs xe) (x_codec xe) (st_db st)))
      in sbind (lift_embed (embed_loop xe d excluded 0 cols {} (embed_run_new CHECKPOINT_INTERVAL) st)) (\<lambda>st (flow, run).
         sbind (lift_embed (run_checkpoint (x_env xe) run st)) (\<lambda>st run.
         sbind (lift_embed (reclaim_orphaned_vectors (x_env xe) st)) (\<lambda>st _. (st, finish_embed run flow)))))"

subsection \<open>Rebuild and the command\<close>

definition clear_collection_vectors ::
  "('ix, 'v, 'f) env \<Rightarrow> string \<Rightarrow> ('ix, 'f) store \<Rightarrow> ('ix, 'f) store \<times> (store_error + unit)" where
  "clear_collection_vectors env coll st =
     sbind (evict_hnsw_vectors env (rebuildable_vids_for_collection coll (st_db st)) st) (\<lambda>st _.
       flush env (on_db (\<lambda>db. fst (clear_vectors_for_collection coll db)) st))"

text \<open>The whole vector file is removed, and the index opened anew.\<close>

definition clear_every_vector ::
  "('ix, 'v, 'f) env \<Rightarrow> ('ix, 'f) store \<Rightarrow> ('ix, 'f) store \<times> (store_error + unit)" where
  "clear_every_vector env st =
     (let fs = (st_fs st)\<lparr>fs_dir := (fs_dir (st_fs st))(st_file st := None)\<rparr> in
      case store_open env False (fst (clear_all_vectors (st_db st))) (st_fts st) (st_file st) fs (st_seen st) of
        Inl e \<Rightarrow> (st, Inl e) | Inr st \<Rightarrow> (st, Inr ()))"

definition embed_targets :: "codec \<Rightarrow> db \<Rightarrow> string option \<Rightarrow> embed_error + string list" where
  "embed_targets j db only =
     (case only of
        None \<Rightarrow> Inr (map col_name (list_collections j db))
      | Some c \<Rightarrow> if list_ex (\<lambda>col. col_name col = c) (list_collections j db) then Inr [c] else Inl (XNoCollection c))"

definition run_embed ::
  "('ix, 'v, 'f, 'g) eenv \<Rightarrow> string option \<Rightarrow> bool \<Rightarrow> deadline \<Rightarrow> ('ix, 'f) store \<Rightarrow> ('ix, 'f) store \<times> (embed_error + unit)" where
  "run_embed xe only rebuild d st =
     (let env = x_env xe in
      case embed_targets (x_codec xe) (st_db st) only of
        Inl e \<Rightarrow> (st, Inl e)
      | Inr cols \<Rightarrow>
          if cols = [] then (st, Inr ())
          else if rebuild then
            sbind (lift_embed (case only of Some c \<Rightarrow> clear_collection_vectors env c st | None \<Rightarrow> clear_every_vector env st)) (\<lambda>st _.
              embed_collections xe cols True d st)
          else if pending_embed_count (x_gs xe) (x_codec xe) (st_db st) (expected_embed_fingerprint (e_sha env) (e_feats env) (e_model env))
                 (expected_embed_ast_fingerprints (e_sha env) (e_feats env) (e_model env)) = 0
          then (st, Inr ())
          else embed_collections xe cols False d st)"

text \<open>\<open>rqmd embed --cleanup\<close>: the numbers of orphaned vectors, excluded vectors and content rows swept.\<close>

definition run_cleanup ::
  "('ix, 'v, 'f, 'g) eenv \<Rightarrow> ('ix, 'f) store \<Rightarrow> ('ix, 'f) store \<times> (store_error + nat \<times> nat \<times> nat)" where
  "run_cleanup xe st =
     sbind (reclaim_orphaned_vectors (x_env xe) st) (\<lambda>st swept_vectors.
     sbind (reclaim_excluded_vectors (x_env xe)
         (ed_ids (excluded_docs (st_db st) (load_exclusions (x_gs xe) (x_codec xe) (st_db st)))) st) (\<lambda>st swept_excluded.
       case delete_unreferenced_content (st_db st) of
         (db, swept_content) \<Rightarrow> (st\<lparr>st_db := db\<rparr>, Inr (swept_vectors, swept_excluded, swept_content))))"

end
