(* ===== verification/EmbedSpec.thy ===== *)
theory EmbedSpec
  imports Embed EmbedReuse "HOL-Library.Sublist"
begin

text \<open>
  What a run of \<open>rqmd embed\<close> promises of the vectors: whatever the model answers and whenever the run is
  stopped, every row of \<open>content_vectors\<close> names a vector that is in the index and in the file it is kept in.
\<close>

subsection \<open>The rows and the ids they name\<close>

definition id_rows :: "db \<Rightarrow> (string \<times> nat) set" where
  "id_rows db = {(v_hash v, as_u64 i) |v i. v \<in> set (vectors db) \<and> v_vid v = Some i}"

text \<open>An id belongs to one text.\<close>

definition ids_exclusive :: "(string \<times> nat) set \<Rightarrow> bool" where
  "ids_exclusive R \<longleftrightarrow> (\<forall>h h' n. (h, n) \<in> R \<and> (h', n) \<in> R \<longrightarrow> h = h')"

lemma ids_exclusive_subset: "ids_exclusive S \<Longrightarrow> R \<subseteq> S \<Longrightarrow> ids_exclusive R"
  unfolding ids_exclusive_def by blast

lemma ids_exclusive_insert: "ids_exclusive R \<Longrightarrow> n \<notin> snd ` R \<Longrightarrow> ids_exclusive (insert (h, n) R)"
  unfolding ids_exclusive_def by force

lemma id_rows_vectors: "vectors db' = vectors db \<Longrightarrow> id_rows db' = id_rows db"
  by (simp add: id_rows_def)

lemma id_rows_map:
  assumes "\<And>v. v_hash (f v) = v_hash v" and "\<And>v. v_vid (f v) = v_vid v"
  shows "id_rows (db\<lparr>vectors := map f (vectors db)\<rparr>) = id_rows db"
proof -
  have "id_rows (db\<lparr>vectors := map f (vectors db)\<rparr>) = {(v_hash (f v), as_u64 i) |v i. v \<in> set (vectors db) \<and> v_vid (f v) = Some i}"
    unfolding id_rows_def by fastforce
  then show ?thesis by (simp add: assms id_rows_def)
qed

lemma id_rows_clear_prev [simp]: "id_rows (fst (clear_prev_hash h db)) = id_rows db"
  by (rule id_rows_vectors) (simp add: clear_prev_hash_def update_docs_def Let_def)

lemma id_rows_delete: "id_rows (fst (delete_vectors_for_hash h db)) = {r \<in> id_rows db. fst r \<noteq> h}"
  unfolding id_rows_def delete_vectors_for_hash_def delete_vectors_def by fastforce

lemma id_rows_identity [simp]: "id_rows (set_vector_identity h s c k db) = id_rows db"
  unfolding set_vector_identity_def by (rule id_rows_map) simp_all

lemma id_rows_floor [simp]: "id_rows (persist_next_vid_floor n db) = id_rows db"
  by (rule id_rows_vectors) (simp add: persist_next_vid_floor_def set_config_def)

lemma in_tab_upsert:
  "v \<in> set (tab_upsert key k new upd rows) \<Longrightarrow> v \<in> set rows \<or> v = new \<or> (\<exists>r\<in>set rows. key r = k \<and> v = upd r)"
  by (induction rows) (auto split: if_splits)

lemma id_rows_upsert:
  assumes "upsert_vector_meta h s pos model fp tot vid now db = Inr db'" and "vid < 2 ^ 64"
  shows "id_rows db' \<subseteq> insert (h, vid) (id_rows db)"
proof
  fix r assume "r \<in> id_rows db'"
  then obtain v i where v: "v \<in> set (vectors db')" "v_vid v = Some i" "r = (v_hash v, as_u64 i)" by (auto simp: id_rows_def)
  have db': "vectors db' = tab_upsert vec_key (h, s) (new_vec_row h s pos model fp tot vid now) (updated_vec_row pos model fp tot vid now) (vectors db)"
    using assms(1) by (auto simp: upsert_vector_meta_def split: if_splits)
  have "v \<in> set (vectors db) \<or> v_hash v = h \<and> v_vid v = Some (as_i64 vid)"
    using in_tab_upsert [OF v(1) [unfolded db']] by (auto simp: new_vec_row_def updated_vec_row_def)
  then show "r \<in> insert (h, vid) (id_rows db)" using v(2,3) assms(2) by (auto simp: id_rows_def)
qed

lemma vids_for_hash_rows: "vids_for_hash h db = Inr ids \<Longrightarrow> set ids = {n. (h, n) \<in> id_rows db}"
proof -
  have *: "rmap (\<lambda>v. case v_vid v of Some i \<Rightarrow> Inr (as_u64 i) | None \<Rightarrow> Inl NullVid) vs = Inr ids
      \<Longrightarrow> set ids = {as_u64 i |v i. v \<in> set vs \<and> v_vid v = Some i}" for vs
  proof (induction vs arbitrary: ids)
    case (Cons v vs)
    obtain i where i: "v_vid v = Some i" using Cons.prems by (cases "v_vid v") auto
    obtain js where js: "rmap (\<lambda>v. case v_vid v of Some i \<Rightarrow> Inr (as_u64 i) | None \<Rightarrow> Inl NullVid) vs = Inr js" "ids = as_u64 i # js"
      using Cons.prems by (auto simp: i rbind_def split: sum.splits)
    have "{as_u64 j |u j. u \<in> set (v # vs) \<and> v_vid u = Some j} = insert (as_u64 i) {as_u64 j |u j. u \<in> set vs \<and> v_vid u = Some j}"
      using i by fastforce
    then show ?case using Cons.IH [OF js(1)] by (simp add: js(2))
  qed simp
  assume "vids_for_hash h db = Inr ids"
  from * [OF this [unfolded vids_for_hash_def]] show ?thesis by (auto simp: id_rows_def)
qed

subsection \<open>The rows of a checkpoint\<close>

abbreviation pending_rows :: "pending_vector list \<Rightarrow> (string \<times> nat) set" where
  "pending_rows ms \<equiv> (\<lambda>m. (pv_hash m, pv_vid m)) ` set ms"

lemma commit_rows_ids:
  assumes "commit_rows seen ms db = Inr db'" and "ids_exclusive (id_rows db)"
    and "distinct (map pv_vid ms)" and "\<forall>m\<in>set ms. pv_vid m < 2 ^ 64 \<and> pv_vid m \<notin> snd ` id_rows db"
  shows "id_rows db' \<subseteq> id_rows db \<union> pending_rows ms \<and> ids_exclusive (id_rows db')"
  using assms
proof (induction ms arbitrary: seen db)
  case (Cons m ms)
  let ?db1 = "if pv_hash m \<in> seen then db else fst (clear_prev_hash (pv_hash m) db)"
  have r1: "id_rows ?db1 = id_rows db" by simp
  obtain db2 where u: "upsert_vector_meta (pv_hash m) (pv_seq m) (pv_pos m) (pv_model m) (pv_fingerprint m) (pv_total_chunks m)
      (pv_vid m) (pv_now m) ?db1 = Inr db2"
    and rest: "commit_rows (insert (pv_hash m) seen) ms (set_vector_identity (pv_hash m) (pv_seq m) (pv_chunk_hash m) (pv_key m) db2) = Inr db'"
    using Cons.prems(1) by (auto simp: Let_def rbind_def split: sum.splits)
  have s: "id_rows db2 \<subseteq> insert (pv_hash m, pv_vid m) (id_rows db)"
    using id_rows_upsert [OF u] Cons.prems(4) unfolding r1 by simp
  have "pv_vid m \<notin> snd ` id_rows db" using Cons.prems(4) by simp
  from ids_exclusive_subset [OF ids_exclusive_insert [OF Cons.prems(2) this] s] have x: "ids_exclusive (id_rows db2)" .
  have fresh: "pv_vid m' < 2 ^ 64 \<and> pv_vid m' \<notin> snd ` id_rows db2" if "m' \<in> set ms" for m'
  proof -
    have "pv_vid m' \<noteq> pv_vid m" using Cons.prems(3) that by (metis distinct.simps(2) image_eqI list.set_map list.simps(9))
    then have "pv_vid m' \<notin> snd ` insert (pv_hash m, pv_vid m) (id_rows db)" using Cons.prems(4) that by simp
    then show ?thesis using s Cons.prems(4) that by (meson image_mono list.set_intros(2) subsetD)
  qed
  have "id_rows db' \<subseteq> id_rows db2 \<union> pending_rows ms \<and> ids_exclusive (id_rows db')"
    using Cons.IH [OF rest] x fresh Cons.prems(3) by simp
  then show ?case using s by (simp add: subset_iff) blast
qed simp

lemma delete_hashes_ids:
  "id_rows (fold (\<lambda>h db. fst (delete_vectors_for_hash h db)) hs db) = {r \<in> id_rows db. fst r \<notin> set hs}"
  by (induction hs arbitrary: db) (auto simp: id_rows_delete)

lemma commit_pending_ids:
  assumes "commit_pending deletes ms vid db = Inr db'" and "ids_exclusive (id_rows db)"
    and "distinct (map pv_vid ms)" and "\<forall>m\<in>set ms. pv_vid m < 2 ^ 64 \<and> pv_vid m \<notin> snd ` id_rows db"
  shows "id_rows db' \<subseteq> {r \<in> id_rows db. fst r \<notin> set deletes} \<union> pending_rows ms \<and> ids_exclusive (id_rows db')"
proof -
  let ?db = "fold (\<lambda>h db. fst (delete_vectors_for_hash h db)) deletes db"
  obtain db1 where c: "commit_rows {} ms ?db = Inr db1" and db': "db' = persist_next_vid_floor vid db1"
    using assms(1) by (auto simp: commit_pending_def rbind_def split: sum.splits)
  have sub: "id_rows ?db \<subseteq> id_rows db" by (auto simp: delete_hashes_ids)
  have "\<forall>m\<in>set ms. pv_vid m < 2 ^ 64 \<and> pv_vid m \<notin> snd ` id_rows ?db" using assms(4) sub by blast
  from commit_rows_ids [OF c ids_exclusive_subset [OF assms(2) sub] assms(3) this]
  show ?thesis by (simp add: db' delete_hashes_ids)
qed

subsection \<open>The index and its file\<close>

text \<open>
  What usearch documents beside \<open>ann_laws\<close>: a removal takes one vector away and leaves its id used, and
  a saved index loads back with the same vectors.
\<close>

definition index_laws :: "('ix, 'v, 'f) usearch \<Rightarrow> ('ix \<Rightarrow> nat set) \<Rightarrow> ('ix \<Rightarrow> nat \<Rightarrow> 'v option) \<Rightarrow> bool" where
  "index_laws us used stored \<longleftrightarrow> ann_laws us used stored
     \<and> (\<forall>k ix. \<exists>ix' n. us_remove us k ix = (ix', Inr n) \<and> used ix' = used ix \<and> stored ix' = (stored ix)(k := None)
          \<and> us_size us ix' \<le> us_size us ix \<and> us_capacity us ix' = us_capacity us ix)
     \<and> (\<forall>ix c. us_save us ix = Inr c \<longrightarrow> (\<exists>ix'. us_load us (Some c) = Inr ix' \<and> stored ix' = stored ix))"

abbreviation index_vec :: "('ix \<Rightarrow> nat \<Rightarrow> 'v option) \<Rightarrow> ('ix, 'f) store \<Rightarrow> nat \<Rightarrow> 'v option" where
  "index_vec stored st \<equiv> stored (vi_inner (st_hnsw st))"

definition file_vec :: "('ix, 'v, 'f) env \<Rightarrow> ('ix \<Rightarrow> nat \<Rightarrow> 'v option) \<Rightarrow> ('ix, 'f) store \<Rightarrow> nat \<Rightarrow> 'v option" where
  "file_vec env stored st =
     (case fs_dir (st_fs st) (st_file st) of
        None \<Rightarrow> Map.empty
      | Some i \<Rightarrow> (case us_load (e_us env) (Some (fs_data (st_fs st) i)) of Inl _ \<Rightarrow> Map.empty | Inr ix \<Rightarrow> stored ix))"

lemma file_vec_same: "st_fs st' = st_fs st \<Longrightarrow> st_file st' = st_file st \<Longrightarrow> file_vec env stored st' = file_vec env stored st"
  unfolding file_vec_def by (cases "fs_dir (st_fs st) (st_file st)") simp_all

lemma save_atomic_contents:
  assumes "save_atomic us io pid vi name fs = (states, Inr ())"
  shows "\<exists>c i. us_save us (vi_inner vi) = Inr c \<and> fs_dir (hd states) name = Some i \<and> fs_data (hd states) i = c"
proof -
  have ne: "tmp_name (Some name) pid \<noteq> name" by (rule tmp_name_ne)
  obtain c where c: "us_save us (vi_inner vi) = Inr c"
    and s: "states \<noteq> []" "hd states = fs_sync_dir (fs_rename (tmp_name (Some name) pid) name (fs_sync (tmp_name (Some name) pid)
      (fs_write (tmp_name (Some name) pid) c fs)))"
    using assms by (auto simp: save_atomic_def vi_save_def Let_def split: if_splits sum.splits)
  show ?thesis
    using ne by (intro exI [of _ c]) (auto simp: c s(2) fs_sync_dir_def fs_rename_def set_dir_def fs_sync_def fs_write_def Let_def split: option.splits)
qed

lemma flush_spec:
  assumes laws: "index_laws (e_us env) used stored" and r: "flush env st = (st', Inr ())"
    and clean: "\<not> st_dirty st \<Longrightarrow> file_vec env stored st = index_vec stored st"
  shows "st_db st' = st_db st \<and> st_hnsw st' = st_hnsw st \<and> \<not> st_dirty st' \<and> file_vec env stored st' = index_vec stored st"
proof (cases "st_dirty st")
  case True
  let ?s = "save_atomic (e_us env) (e_io env) (e_pid env) (st_hnsw st) (st_file st) (st_fs st)"
  obtain states where s: "?s = (states, Inr ())"
    and st': "st' = st\<lparr>st_fts := fts_commit (e_toks env) (st_fts st), st_fs := hd states, st_dirty := False\<rparr>"
    using r True by (auto simp: flush_def Let_def split: prod.splits sum.splits)
  obtain c i where c: "us_save (e_us env) (vi_inner (st_hnsw st)) = Inr c" "fs_dir (hd states) (st_file st) = Some i" "fs_data (hd states) i = c"
    using save_atomic_contents [OF s] by blast
  obtain ix' where "us_load (e_us env) (Some c) = Inr ix'" "stored ix' = stored (vi_inner (st_hnsw st))"
    using laws c(1) unfolding index_laws_def by blast
  then show ?thesis by (simp add: st' file_vec_def c)
next
  case False
  then have "st' = st\<lparr>st_fts := fts_commit (e_toks env) (st_fts st)\<rparr>" using r by (simp add: flush_def Let_def)
  then show ?thesis using False clean file_vec_same [of st' st env stored] by simp
qed

lemma evict_loop_spec:
  assumes laws: "index_laws (e_us env) used stored" and ready: "index_ready (e_us env) used (st_hnsw st)"
  shows "\<exists>st'. evict_loop env ids st = (st', Inr ()) \<and> st_db st' = st_db st \<and> st_fs st' = st_fs st \<and> st_file st' = st_file st
    \<and> st_dirty st' \<and> next_vid st' = next_vid st \<and> index_ready (e_us env) used (st_hnsw st')
    \<and> (\<forall>k. index_vec stored st' k = (if k \<in> set ids then None else index_vec stored st k))"
  using ready
proof (induction ids arbitrary: st)
  case (Cons k ids)
  obtain ix' n where x: "us_remove (e_us env) k (vi_inner (st_hnsw st)) = (ix', Inr n)" "used ix' = used (vi_inner (st_hnsw st))"
    "stored ix' = (index_vec stored st)(k := None)" "us_size (e_us env) ix' \<le> us_size (e_us env) (vi_inner (st_hnsw st))"
    "us_capacity (e_us env) ix' = us_capacity (e_us env) (vi_inner (st_hnsw st))"
    using laws unfolding index_laws_def by blast
  let ?st1 = "st\<lparr>st_hnsw := (st_hnsw st)\<lparr>vi_inner := ix'\<rparr>\<rparr>"
  have rm: "on_hnsw (vi_remove (e_us env) k) st = (?st1, Inr n)"
    using Cons.prems x(1) by (simp add: on_hnsw_def vi_remove_def index_ready_def map_err_def)
  have r1: "index_ready (e_us env) used (st_hnsw ?st1)" using Cons.prems x(2,4,5) by (simp add: index_ready_def)
  from Cons.IH [OF this] obtain st' where "evict_loop env ids ?st1 = (st', Inr ())" "st_db st' = st_db st" "st_fs st' = st_fs st" "st_file st' = st_file st"
    "st_dirty st'" "next_vid st' = next_vid st" "index_ready (e_us env) used (st_hnsw st')"
    "\<forall>j. index_vec stored st' j = (if j \<in> set ids then None else stored ix' j)"
    by (auto simp: next_vid_def)
  then show ?case using rm x(3) by (auto simp: fun_upd_def)
qed (simp add: next_vid_def)

lemma evict_spec:
  assumes "index_laws (e_us env) used stored" and "index_ready (e_us env) used (st_hnsw st)"
  shows "\<exists>st'. evict_hnsw_vectors env ids st = (st', Inr ()) \<and> st_db st' = st_db st \<and> st_fs st' = st_fs st \<and> st_file st' = st_file st
    \<and> (st_dirty st' \<or> st' = st) \<and> next_vid st' = next_vid st \<and> index_ready (e_us env) used (st_hnsw st')
    \<and> (\<forall>k. index_vec stored st' k = (if k \<in> set ids then None else index_vec stored st k))"
  using evict_loop_spec [OF assms, of ids] assms(2) by (auto simp: evict_hnsw_vectors_def)

subsection \<open>Embedding one document\<close>

lemma length_map_filter_le: "length (List.map_filter f ys) \<le> length ys"
  by (induction ys) (simp_all add: List.map_filter_def le_SucI)

lemma length_fill [simp]: "length (fold (\<lambda>(i, x) slots. slots[i := Some x]) zs ys) = length ys"
  by (induction zs arbitrary: ys) (auto split: prod.splits)

lemma reusing_length:
  assumes "embed_passages_reusing env chunks keys model st = Inr xs"
  shows "length xs \<le> length keys"
proof -
  define stored where "stored = reusable_vector_vids keys model (st_db st)"
  define slots where "slots = map (reuse_slot env stored st) keys"
  define missing where "missing = filter (\<lambda>i. slots ! i = None) [0..<length slots]"
  have "\<exists>ys. length ys = length slots \<and> xs = List.map_filter (\<lambda>v. v) ys"
    using assms unfolding embed_passages_reusing_def Let_def stored_def [symmetric] slots_def [symmetric] missing_def [symmetric]
    by (auto simp: rbind_def split: if_splits sum.splits simp del: List.map_filter_def) (metis length_fill)
  then show ?thesis by (metis length_map length_map_filter_le slots_def)
qed

text \<open>New ids, above every id so far; what is stored stays.\<close>

definition embedded :: "('ix, 'v, 'f) env \<Rightarrow> ('ix \<Rightarrow> nat set) \<Rightarrow> ('ix \<Rightarrow> nat \<Rightarrow> 'v option) \<Rightarrow> nat \<Rightarrow> ('ix, 'f) store \<Rightarrow> ('ix, 'f) store \<Rightarrow> bool" where
  "embedded env used stored n st st' \<longleftrightarrow>
     st_db st' = st_db st \<and> st_fs st' = st_fs st \<and> st_file st' = st_file st \<and> (st_dirty st' \<or> st' = st)
     \<and> index_ready (e_us env) used (st_hnsw st') \<and> next_vid st \<le> next_vid st' \<and> next_vid st' \<le> next_vid st + n
     \<and> (\<forall>k<next_vid st. index_vec stored st' k = index_vec stored st k)"

definition chunk_count :: "('ix, 'v, 'f) env \<Rightarrow> db \<Rightarrow> document \<Rightarrow> nat" where
  "chunk_count env db doc =
     (case chunk_document_for_path (e_uc env) (e_feats env) (e_parse env) (doc_path doc)
        (case get_content (doc_hash doc) db of Some b \<Rightarrow> b | None \<Rightarrow> []) of Some chunks \<Rightarrow> length chunks | None \<Rightarrow> 0)"

lemma embed_chunks_spec:
  assumes laws: "index_laws (e_us env) used stored" and ready: "index_ready (e_us env) used (st_hnsw st)"
    and room: "next_vid st + n < 2 ^ 64"
    and n: "\<And>chunks. chunk_document_for_path (e_uc env) (e_feats env) (e_parse env) path body = Some chunks \<Longrightarrow> length chunks \<le> n"
    and r: "embed_document_chunks env hash path body st = (st', r)"
  shows "embedded env used stored n st st'
    \<and> (\<forall>pvs. r = Inr pvs \<longrightarrow> st_dirty st' \<and> distinct (map pv_vid pvs) \<and> (\<forall>p\<in>set pvs. pv_hash p = hash \<and>
         next_vid st \<le> pv_vid p \<and> pv_vid p < next_vid st' \<and> index_vec stored st' (pv_vid p) \<noteq> None))"
proof (cases "chunk_document_for_path (e_uc env) (e_feats env) (e_parse env) path body")
  case None
  then show ?thesis using r ready by (auto simp: embed_document_chunks_def Let_def embedded_def)
next
  case (Some chunks)
  define keys where "keys = map (store_vector_key env) (map (\<lambda>c. chunk_text_hash (e_sha env) (chunk_text c)) chunks)"
  note r = r [unfolded embed_document_chunks_def Let_def Some option.case keys_def [symmetric]]
  show ?thesis
  proof (cases "embed_passages_reusing env chunks keys (e_model env) st")
    case (Inl e)
    then show ?thesis using r ready by (auto simp: embedded_def)
  next
    case (Inr xs)
    let ?rm = "\<lambda>vid vi. fst (vi_remove (e_us env) vid vi)"
    have len: "length xs \<le> n" using reusing_length [OF Inr] n [OF Some] by (simp add: keys_def)
    have ann: "ann_laws (e_us env) used stored" using laws by (simp add: index_laws_def)
    have "vi_next (st_hnsw st) + length xs < 2 ^ 64" using room len by (simp add: next_vid_def)
    from add_all_ready [OF ann ready this, of ?rm "[]"]
    obtain vi' where a: "add_all_loop (vi_add (e_us env)) ?rm [] xs (st_hnsw st) = (vi', Inr [next_vid st ..< next_vid st + length xs])"
      "index_ready (e_us env) used vi'" "vi_next vi' = next_vid st + length xs"
      "\<And>k. stored (vi_inner vi') k =
         (if next_vid st \<le> k \<and> k < next_vid st + length xs then Some (xs ! (k - next_vid st)) else index_vec stored st k)"
      by (auto simp: next_vid_def)
    let ?ids = "[next_vid st ..< next_vid st + length xs]"
    define st1 where "st1 = st\<lparr>st_hnsw := vi', st_dirty := True, st_staged := fold stage_vid (zip keys ?ids) (st_staged st)\<rparr>"
    define f :: "nat \<times> chunk \<times> nat \<Rightarrow> pending_vector" where "f = (\<lambda>p. \<lparr>pv_hash = hash, pv_seq = int (fst p), pv_pos = int (chunk_pos (fst (snd p))), pv_model = e_model env,
        pv_fingerprint = embed_fingerprint (e_sha env) (e_feats env) (e_model env) path, pv_total_chunks = int (length chunks),
        pv_vid = snd (snd p), pv_now = rfc3339_now env,
        pv_chunk_hash = map (\<lambda>c. chunk_text_hash (e_sha env) (chunk_text c)) chunks ! fst p, pv_key = keys ! fst p\<rparr>)"
    have rr: "r = Inr (map f (enumerate 0 (zip chunks ?ids)))" "st' = st1"
      using r a(1) by (simp_all add: Inr on_hnsw_def add_all_or_rollback_def case_prod_unfold st1_def f_def)
    have f: "pv_hash (f x) = hash" "pv_vid (f x) = snd (snd x)" for x by (simp_all add: f_def)
    define pvs where "pvs = map f (enumerate 0 (zip chunks ?ids))"
    have h: "\<forall>p\<in>set pvs. pv_hash p = hash" by (simp add: pvs_def f(1))
    have "map pv_vid pvs = map snd (map snd (enumerate 0 (zip chunks ?ids)))" by (simp add: pvs_def f(2) comp_def del: map_snd_enumerate)
    then have ids: "map pv_vid pvs = map snd (zip chunks ?ids)" by simp
    have sub: "set (map pv_vid pvs) \<subseteq> set ?ids" "distinct (map pv_vid pvs)"
      unfolding ids map_snd_zip_take by (auto dest: in_set_takeD)
    then have "\<forall>p\<in>set pvs. next_vid st \<le> pv_vid p \<and> pv_vid p < next_vid st + length xs" by auto
    moreover have "embedded env used stored n st st'"
      using a(2,3,4) len by (auto simp: embedded_def rr(2) st1_def next_vid_def)
    ultimately show ?thesis using sub(2) h a(3,4) unfolding rr pvs_def [symmetric] by (auto simp: st1_def next_vid_def)
  qed
qed

subsection \<open>The invariant of a run\<close>

text \<open>
  \<open>D\<close> are the texts whose rows wait to be deleted, \<open>ms\<close> the rows that wait to be written: every other row
  names a vector of the index that the file holds too, and every waiting row a vector of the index.
\<close>

definition vec_inv ::
  "('ix, 'v, 'f) env \<Rightarrow> ('ix \<Rightarrow> nat set) \<Rightarrow> ('ix \<Rightarrow> nat \<Rightarrow> 'v option) \<Rightarrow> string set \<Rightarrow> pending_vector list \<Rightarrow> ('ix, 'f) store \<Rightarrow> bool" where
  "vec_inv env used stored D ms st \<longleftrightarrow>
     index_ready (e_us env) used (st_hnsw st) \<and> next_vid st < 2 ^ 64 \<and> ids_exclusive (id_rows (st_db st))
     \<and> (\<forall>r\<in>id_rows (st_db st). snd r < next_vid st
          \<and> (fst r \<notin> D \<longrightarrow> index_vec stored st (snd r) \<noteq> None \<and> file_vec env stored st (snd r) = index_vec stored st (snd r)))
     \<and> distinct (map pv_vid ms)
     \<and> (\<forall>m\<in>set ms. pv_vid m < next_vid st \<and> pv_vid m \<notin> snd ` id_rows (st_db st) \<and> index_vec stored st (pv_vid m) \<noteq> None)
     \<and> (\<not> st_dirty st \<longrightarrow> file_vec env stored st = index_vec stored st)"

abbreviation vectors_saved :: "('ix, 'v, 'f) env \<Rightarrow> ('ix \<Rightarrow> nat set) \<Rightarrow> ('ix \<Rightarrow> nat \<Rightarrow> 'v option) \<Rightarrow> ('ix, 'f) store \<Rightarrow> bool" where
  "vectors_saved env used stored st \<equiv> vec_inv env used stored {} [] st"

lemma vec_invD:
  assumes "vec_inv env used stored D ms st"
  shows "index_ready (e_us env) used (st_hnsw st)" "next_vid st < 2 ^ 64" "ids_exclusive (id_rows (st_db st))"
    "r \<in> id_rows (st_db st) \<Longrightarrow> snd r < next_vid st"
    "r \<in> id_rows (st_db st) \<Longrightarrow> fst r \<notin> D \<Longrightarrow> index_vec stored st (snd r) \<noteq> None"
    "r \<in> id_rows (st_db st) \<Longrightarrow> fst r \<notin> D \<Longrightarrow> file_vec env stored st (snd r) = index_vec stored st (snd r)"
    "distinct (map pv_vid ms)" "m \<in> set ms \<Longrightarrow> pv_vid m < next_vid st" "m \<in> set ms \<Longrightarrow> pv_vid m \<notin> snd ` id_rows (st_db st)"
    "m \<in> set ms \<Longrightarrow> index_vec stored st (pv_vid m) \<noteq> None"
    "\<not> st_dirty st \<Longrightarrow> file_vec env stored st = index_vec stored st"
  using assms unfolding vec_inv_def by blast+

lemma vec_inv_db:
  assumes "vec_inv env used stored D ms st" and "id_rows db = id_rows (st_db st)"
  shows "vec_inv env used stored D ms (st\<lparr>st_db := db\<rparr>)"
  using assms file_vec_same [of "st\<lparr>st_db := db\<rparr>" st env stored] by (simp add: vec_inv_def next_vid_def)

lemma vec_inv_embedded:
  assumes inv: "vec_inv env used stored D ms st" and e: "embedded env used stored n st st'" and room: "next_vid st + n < 2 ^ 64"
  shows "vec_inv env used stored D ms st'"
proof -
  note e = e [unfolded embedded_def]
  have f: "file_vec env stored st' = file_vec env stored st" using e by (intro file_vec_same) blast+
  have old: "index_vec stored st' k = index_vec stored st k" if "k < next_vid st" for k using e that by blast
  show ?thesis
    unfolding vec_inv_def f
  proof (intro conjI ballI impI)
    show "index_ready (e_us env) used (st_hnsw st')" "next_vid st' < 2 ^ 64" "ids_exclusive (id_rows (st_db st'))" "distinct (map pv_vid ms)"
      using e room vec_invD(3,7) [OF inv] by auto
  next
    fix r assume "r \<in> id_rows (st_db st')"
    then have r: "r \<in> id_rows (st_db st)" using e by simp
    show "snd r < next_vid st'" using vec_invD(4) [OF inv r] e by (meson order_less_le_trans)
    assume "fst r \<notin> D"
    then show "index_vec stored st' (snd r) \<noteq> None" "file_vec env stored st (snd r) = index_vec stored st' (snd r)"
      using vec_invD(5,6) [OF inv r] old [OF vec_invD(4) [OF inv r]] by simp_all
  next
    fix m assume m: "m \<in> set ms"
    show "pv_vid m < next_vid st'" using vec_invD(8) [OF inv m] e by (meson order_less_le_trans)
    show "pv_vid m \<notin> snd ` id_rows (st_db st')" using vec_invD(9) [OF inv m] e by simp
    show "index_vec stored st' (pv_vid m) \<noteq> None" using vec_invD(10) [OF inv m] old [OF vec_invD(8) [OF inv m]] by simp
  next
    assume "\<not> st_dirty st'"
    then show "file_vec env stored st = index_vec stored st'" using vec_invD(11) [OF inv] e by auto
  qed
qed

lemma vec_inv_pending:
  assumes inv: "vec_inv env used stored D ms st" and d: "distinct (map pv_vid ps)"
    and p: "\<And>p. p \<in> set ps \<Longrightarrow> pv_vid p < next_vid st \<and> pv_vid p \<notin> snd ` id_rows (st_db st) \<and> index_vec stored st (pv_vid p) \<noteq> None
        \<and> pv_vid p \<notin> pv_vid ` set ms"
  shows "vec_inv env used stored D (ms @ ps) st"
proof -
  have "pv_vid q \<notin> pv_vid ` set ms" if "q \<in> set ps" for q using p [OF that] by (elim conjE)
  then have "pv_vid ` set ps \<inter> pv_vid ` set ms = {}" by (auto simp only: disjoint_iff image_iff)
  then have "distinct (map pv_vid (ms @ ps))" using d vec_invD(7) [OF inv] by (simp add: Int_commute)
  then show ?thesis using inv p unfolding vec_inv_def by (simp add: ball_Un)
qed

text \<open>Evicting the vectors of a text.\<close>

lemma vec_inv_evict:
  assumes laws: "index_laws (e_us env) used stored" and inv: "vec_inv env used stored D ms st"
    and ids: "set ids = {n. (h, n) \<in> id_rows (st_db st)}"
  shows "\<exists>st'. evict_hnsw_vectors env ids st = (st', Inr ()) \<and> vec_inv env used stored (insert h D) ms st' \<and> st_db st' = st_db st
    \<and> next_vid st' = next_vid st \<and> (\<forall>k. k \<notin> snd ` id_rows (st_db st) \<longrightarrow> index_vec stored st' k = index_vec stored st k)"
proof -
  obtain st' where e: "evict_hnsw_vectors env ids st = (st', Inr ())"
    and s: "st_db st' = st_db st" "st_fs st' = st_fs st" "st_file st' = st_file st" "st_dirty st' \<or> st' = st" "next_vid st' = next_vid st"
      "index_ready (e_us env) used (st_hnsw st')"
    and v: "\<And>k. index_vec stored st' k = (if k \<in> set ids then None else index_vec stored st k)"
    using evict_spec [OF laws vec_invD(1) [OF inv], of ids] by blast
  have f: "file_vec env stored st' = file_vec env stored st" using s by (intro file_vec_same)
  have out: "k \<notin> set ids" if "k \<notin> snd ` id_rows (st_db st)" for k using that ids by force
  have other: "n \<notin> set ids" if "(h', n) \<in> id_rows (st_db st)" "h' \<noteq> h" for h' n
    using that ids vec_invD(3) [OF inv] unfolding ids_exclusive_def by blast
  have "vec_inv env used stored (insert h D) ms st'"
    unfolding vec_inv_def f s(1,5)
  proof (intro conjI ballI impI)
    fix r assume r: "r \<in> id_rows (st_db st)" and nd: "fst r \<notin> insert h D"
    have "snd r \<notin> set ids" using other [of "fst r" "snd r"] r nd by simp
    then show "index_vec stored st' (snd r) \<noteq> None" "file_vec env stored st (snd r) = index_vec stored st' (snd r)"
      using vec_invD(5,6) [OF inv r] nd by (simp_all add: v)
  next
    fix m assume "m \<in> set ms"
    then show "index_vec stored st' (pv_vid m) \<noteq> None" using vec_invD(9,10) [OF inv] out by (simp add: v)
  next
    assume "\<not> st_dirty st'"
    then show "file_vec env stored st = index_vec stored st'" using s(4) vec_invD(11) [OF inv] by auto
  qed (use s vec_invD [OF inv] in \<open>simp_all\<close>)
  then show ?thesis using e s v out by auto
qed

lemma vec_inv_weaken:
  "vec_inv env used stored D ms st \<Longrightarrow> (\<And>r. r \<in> id_rows (st_db st) \<Longrightarrow> fst r \<notin> D' \<Longrightarrow> fst r \<notin> D) \<Longrightarrow> vec_inv env used stored D' ms st"
  unfolding vec_inv_def by blast

text \<open>Flushing, then replacing the rows that wait.\<close>

lemma vec_inv_flush:
  assumes laws: "index_laws (e_us env) used stored" and inv: "vec_inv env used stored D ms st" and r: "flush env st = (st', Inr ())"
  shows "vec_inv env used stored D ms st' \<and> st_db st' = st_db st \<and> st_hnsw st' = st_hnsw st \<and> file_vec env stored st' = index_vec stored st'"
proof -
  have s: "st_db st' = st_db st" "st_hnsw st' = st_hnsw st" "\<not> st_dirty st'" "file_vec env stored st' = index_vec stored st"
    using flush_spec [OF laws r vec_invD(11) [OF inv]] by blast+
  then show ?thesis using inv unfolding vec_inv_def by (simp add: next_vid_def)
qed

lemma vec_inv_commit:
  assumes inv: "vec_inv env used stored D ms st" and f: "file_vec env stored st = index_vec stored st"
    and rows: "id_rows db \<subseteq> {r \<in> id_rows (st_db st). fst r \<notin> D} \<union> pending_rows ms" and x: "ids_exclusive (id_rows db)"
  shows "vectors_saved env used stored (st\<lparr>st_db := db\<rparr>)"
proof -
  have f': "file_vec env stored (st\<lparr>st_db := db\<rparr>) = index_vec stored st" using file_vec_same [of "st\<lparr>st_db := db\<rparr>" st env stored] f by simp
  have "snd r < next_vid st \<and> index_vec stored st (snd r) \<noteq> None" if "r \<in> id_rows db" for r
  proof -
    consider "r \<in> id_rows (st_db st)" "fst r \<notin> D" | m where "m \<in> set ms" "snd r = pv_vid m"
      using rows \<open>r \<in> id_rows db\<close> by (fastforce simp: subset_iff)
    then show ?thesis using vec_invD(4,5,8,10) [OF inv] by cases metis+
  qed
  then show ?thesis using x vec_invD(1,2) [OF inv] unfolding vec_inv_def f' by (simp add: next_vid_def)
qed

subsection \<open>What the run leaves of the documents\<close>

definition same_docs :: "db \<Rightarrow> db \<Rightarrow> bool" where
  "same_docs db db' \<longleftrightarrow> contents db' = contents db \<and> (\<forall>c. list_documents c db' = list_documents c db)"

lemma same_docs_refl [simp]: "same_docs db db" by (simp add: same_docs_def)

lemma same_docs_trans: "same_docs a b \<Longrightarrow> same_docs b c \<Longrightarrow> same_docs a c" by (simp add: same_docs_def)

lemma same_docs_rows: "contents db' = contents db \<Longrightarrow> documents db' = documents db \<Longrightarrow> same_docs db db'"
  by (simp add: same_docs_def list_documents_def list_documents_multi_def)

lemma insert_by_map: "(\<And>a b. le (f a) (f b) = le a b) \<Longrightarrow> insert_by le (f x) (map f xs) = map f (insert_by le x xs)"
  by (induction xs) simp_all

lemma sort_by_map: "(\<And>a b. le (f a) (f b) = le a b) \<Longrightarrow> sort_by le (map f xs) = map f (sort_by le xs)"
  by (induction xs) (simp_all add: insert_by_map)

lemma same_docs_clear_prev: "same_docs db (fst (clear_prev_hash h db))"
proof -
  define f :: "doc_row \<Rightarrow> doc_row" where "f r = (if d_hash r = h \<and> d_prev_hash r \<noteq> None then r\<lparr>d_prev_hash := None\<rparr> else r)" for r
  have f: "d_collection (f r) = d_collection r" "d_path (f r) = d_path r" "d_active (f r) = d_active r" "to_document (f r) = to_document r" for r
    by (simp_all add: f_def to_document_def)
  have docs: "documents (fst (clear_prev_hash h db)) = map f (documents db)"
    by (simp add: clear_prev_hash_def update_docs_def Let_def f_def)
  have "list_documents_multi cols (fst (clear_prev_hash h db)) = list_documents_multi cols db" for cols
  proof -
    let ?p = "\<lambda>r. in_collections cols (d_collection r) \<and> d_active r"
    have "filter ?p (map f (documents db)) = map f (filter ?p (documents db))" by (simp add: filter_map comp_def f)
    moreover have "sort_by doc_le (map f rs) = map f (sort_by doc_le rs)" for rs by (rule sort_by_map) (simp add: doc_le_def f)
    ultimately show ?thesis unfolding list_documents_multi_def docs by (simp add: f)
  qed
  then show ?thesis by (simp add: same_docs_def list_documents_def clear_prev_hash_def update_docs_def Let_def)
qed

lemma same_docs_delete: "same_docs db (fst (delete_vectors_for_hash h db))"
  by (rule same_docs_rows) (simp_all add: delete_vectors_for_hash_def delete_vectors_def)

lemma same_docs_commit_rows: "commit_rows seen ms db = Inr db' \<Longrightarrow> same_docs db db'"
proof (induction ms arbitrary: seen db)
  case (Cons m ms)
  let ?db1 = "if pv_hash m \<in> seen then db else fst (clear_prev_hash (pv_hash m) db)"
  obtain db2 where u: "upsert_vector_meta (pv_hash m) (pv_seq m) (pv_pos m) (pv_model m) (pv_fingerprint m) (pv_total_chunks m)
      (pv_vid m) (pv_now m) ?db1 = Inr db2"
    and rest: "commit_rows (insert (pv_hash m) seen) ms (set_vector_identity (pv_hash m) (pv_seq m) (pv_chunk_hash m) (pv_key m) db2) = Inr db'"
    using Cons.prems by (auto simp: Let_def rbind_def split: sum.splits)
  have "same_docs db ?db1" by (simp add: same_docs_clear_prev)
  moreover have "same_docs ?db1 (set_vector_identity (pv_hash m) (pv_seq m) (pv_chunk_hash m) (pv_key m) db2)"
    using u by (intro same_docs_rows) (auto simp: set_vector_identity_def upsert_vector_meta_def split: if_splits)
  ultimately show ?case using same_docs_trans Cons.IH [OF rest] by blast
qed simp

lemma same_docs_deletes: "same_docs db (fold (\<lambda>h db. fst (delete_vectors_for_hash h db)) hs db)"
  by (induction hs arbitrary: db) (auto intro: same_docs_trans [OF same_docs_delete])

lemma same_docs_commit: "commit_pending deletes ms vid db = Inr db' \<Longrightarrow> same_docs db db'"
  using same_docs_trans [OF same_docs_trans [OF same_docs_deletes same_docs_commit_rows] same_docs_rows]
  by (fastforce simp: commit_pending_def rbind_def persist_next_vid_floor_def set_config_def split: sum.splits)

subsection \<open>The steps of a run\<close>

abbreviation run_inv :: "('ix, 'v, 'f) env \<Rightarrow> ('ix \<Rightarrow> nat set) \<Rightarrow> ('ix \<Rightarrow> nat \<Rightarrow> 'v option) \<Rightarrow> embed_run \<Rightarrow> ('ix, 'f) store \<Rightarrow> bool" where
  "run_inv env used stored run st \<equiv> vec_inv env used stored (set (er_deletes run)) (er_pending run) st"

text \<open>What every step keeps: the invariant, the documents and their texts, and at most \<open>n\<close> new ids.\<close>

definition keeps ::
  "('ix, 'v, 'f) env \<Rightarrow> ('ix \<Rightarrow> nat set) \<Rightarrow> ('ix \<Rightarrow> nat \<Rightarrow> 'v option) \<Rightarrow> nat \<Rightarrow> ('ix, 'f) store \<Rightarrow> embed_run \<Rightarrow> ('ix, 'f) store \<Rightarrow> bool" where
  "keeps env used stored n st run st' \<longleftrightarrow>
     run_inv env used stored run st' \<and> same_docs (st_db st) (st_db st') \<and> next_vid st' \<le> next_vid st + n"

lemma checkpoint_keeps:
  assumes laws: "index_laws (e_us env) used stored" and inv: "run_inv env used stored run st"
    and r: "run_checkpoint env run st = (st', Inr run')"
  shows "keeps env used stored 0 st run' st' \<and> er_pending run' = [] \<and> er_deletes run' = []"
proof (cases "er_pending run = [] \<and> er_deletes run = []")
  case True
  then show ?thesis using r inv by (auto simp: run_checkpoint_def checkpoint_def keeps_def)
next
  case False
  obtain st1 db where f: "flush env st = (st1, Inr ())"
    and c: "commit_pending (er_deletes run) (er_pending run) (next_vid st1) (st_db st1) = Inr db"
    and st': "st' = vectors_committed (st1\<lparr>st_db := db\<rparr>)" and run': "run' = run\<lparr>er_pending := [], er_deletes := []\<rparr>"
    using r False by (auto simp: run_checkpoint_def checkpoint_def sbind_def split: prod.splits sum.splits if_splits)
  have inv1: "run_inv env used stored run st1" and s: "st_db st1 = st_db st" "st_hnsw st1 = st_hnsw st"
      and fl: "file_vec env stored st1 = index_vec stored st1"
    using vec_inv_flush [OF laws inv f] by blast+
  have "\<forall>m\<in>set (er_pending run). pv_vid m < 2 ^ 64 \<and> pv_vid m \<notin> snd ` id_rows (st_db st1)"
    using vec_invD(2,8,9) [OF inv1] by (meson order_less_trans)
  from commit_pending_ids [OF c vec_invD(3,7) [OF inv1] this]
  have "vectors_saved env used stored (st1\<lparr>st_db := db\<rparr>)" using vec_inv_commit [OF inv1 fl] by blast
  then have "vectors_saved env used stored st'"
    using file_vec_same [of st' "st1\<lparr>st_db := db\<rparr>" env stored] by (simp add: st' vectors_committed_def vec_inv_def next_vid_def)
  moreover have "same_docs (st_db st) (st_db st')" using same_docs_commit [OF c] by (simp add: st' vectors_committed_def s)
  moreover have "next_vid st' = next_vid st" by (simp add: st' vectors_committed_def next_vid_def s)
  ultimately show ?thesis by (simp add: run' keeps_def)
qed

lemma supersede_keeps:
  assumes laws: "index_laws (e_us env) used stored" and inv: "run_inv env used stored run st"
    and r: "supersede env hash run st = (st', Inr run')"
  shows "run_inv env used stored run' st' \<and> st_db st' = st_db st \<and> next_vid st' = next_vid st \<and> er_pending run' = er_pending run
    \<and> er_interval run' = er_interval run
    \<and> (\<forall>k. k \<notin> snd ` id_rows (st_db st) \<longrightarrow> index_vec stored st' k = index_vec stored st k)"
proof (cases "hash_has_any_vector (st_db st) hash")
  case True
  obtain ids where ids: "vids_for_hash hash (st_db st) = Inr ids"
    using r True by (auto simp: supersede_def sbind_def split: prod.splits sum.splits)
  obtain st1 where e: "evict_hnsw_vectors env ids st = (st1, Inr ())"
    "vec_inv env used stored (insert hash (set (er_deletes run))) (er_pending run) st1" "st_db st1 = st_db st" "next_vid st1 = next_vid st"
    "\<forall>k. k \<notin> snd ` id_rows (st_db st) \<longrightarrow> index_vec stored st1 k = index_vec stored st k"
    using vec_inv_evict [OF laws inv vids_for_hash_rows [OF ids]] by blast
  have "st' = st1" and run': "set (er_deletes run') = insert hash (set (er_deletes run))" "er_pending run' = er_pending run" "er_interval run' = er_interval run"
    using r True by (auto simp: supersede_def ids e(1) split: if_splits)
  then show ?thesis using e(2-) by (simp add: run')
next
  case False
  then show ?thesis using r inv by (auto simp: supersede_def)
qed

text \<open>A document that embeds: its new rows join those that wait.\<close>

lemma embed_one_keeps:
  assumes laws: "index_laws (e_us env) used stored" and inv: "run_inv env used stored run st" and room: "next_vid st + n < 2 ^ 64"
    and n: "\<And>chunks. chunk_document_for_path (e_uc env) (e_feats env) (e_parse env) path body = Some chunks \<Longrightarrow> length chunks \<le> n"
    and e: "embed_document_chunks env hash path body st = (st1, Inr pvs)" and s: "supersede env hash run st1 = (st2, Inr run2)"
  shows "keeps env used stored n st (run2\<lparr>er_consecutive := a, er_new_chunks := b, er_new_docs := c, er_pending := er_pending run2 @ pvs\<rparr>) st2"
proof -
  have em: "embedded env used stored n st st1" and pvs: "distinct (map pv_vid pvs)"
      "\<And>p. p \<in> set pvs \<Longrightarrow> next_vid st \<le> pv_vid p \<and> pv_vid p < next_vid st1 \<and> index_vec stored st1 (pv_vid p) \<noteq> None"
    using embed_chunks_spec [OF laws vec_invD(1) [OF inv] room n e] by auto
  have inv1: "run_inv env used stored run st1" by (rule vec_inv_embedded [OF inv em room])
  have db1: "st_db st1 = st_db st" and nx: "next_vid st1 \<le> next_vid st + n" using em by (simp_all add: embedded_def)
  have s2: "run_inv env used stored run2 st2" "st_db st2 = st_db st1" "next_vid st2 = next_vid st1" "er_pending run2 = er_pending run"
      "\<And>k. k \<notin> snd ` id_rows (st_db st1) \<Longrightarrow> index_vec stored st2 k = index_vec stored st1 k"
    using supersede_keeps [OF laws inv1 s] by blast+
  have "vec_inv env used stored (set (er_deletes run2)) (er_pending run2 @ pvs) st2"
  proof (rule vec_inv_pending [OF s2(1) pvs(1)])
    fix p assume p: "p \<in> set pvs"
    have row: "pv_vid p \<notin> snd ` id_rows (st_db st1)"
      using vec_invD(4) [OF inv] pvs(2) [OF p] unfolding db1 by (metis image_iff leD)
    have "pv_vid p \<notin> pv_vid ` set (er_pending run2)"
      using vec_invD(8) [OF inv] pvs(2) [OF p] unfolding s2(4) by (metis image_iff leD)
    then show "pv_vid p < next_vid st2 \<and> pv_vid p \<notin> snd ` id_rows (st_db st2) \<and> index_vec stored st2 (pv_vid p) \<noteq> None
        \<and> pv_vid p \<notin> pv_vid ` set (er_pending run2)"
      using row s2(5) [OF row] pvs(2) [OF p] by (simp add: s2(2,3))
  qed
  then show ?thesis using nx by (simp add: keeps_def s2(2,3) db1)
qed

lemma keeps_trans:
  assumes "keeps env used stored m st run1 st1" and "keeps env used stored n st1 run2 st2"
  shows "keeps env used stored (m + n) st run2 st2"
  using assms same_docs_trans unfolding keeps_def by auto

lemma chunk_count_same: "same_docs db db' \<Longrightarrow> chunk_count env db' doc = chunk_count env db doc"
  by (simp add: chunk_count_def same_docs_def get_content_def)

lemma embed_docs_keeps:
  assumes laws: "index_laws (e_us (x_env xe)) used stored" and "run_inv (x_env xe) used stored run st"
    and "next_vid st + sum_list (map (chunk_count (x_env xe) (st_db st)) docs) < 2 ^ 64"
    and "embed_docs xe d ci n fin docs run st = (st', Inr (flow, run'))"
  shows "keeps (x_env xe) used stored (sum_list (map (chunk_count (x_env xe) (st_db st)) docs)) st run' st'"
  using assms(2-)
proof (induction docs arbitrary: n fin run st)
  case Nil
  then show ?case by (simp add: keeps_def)
next
  case (Cons doc docs)
  let ?env = "x_env xe"
  let ?c = "chunk_count ?env (st_db st) doc" and ?cs = "\<lambda>db. sum_list (map (chunk_count ?env db) docs)"
  define body where "body = (case get_content (doc_hash doc) (st_db st) of Some b \<Rightarrow> b | None \<Rightarrow> [])"
  have room: "next_vid st + ?c < 2 ^ 64" "next_vid st + ?c + ?cs (st_db st) < 2 ^ 64" using Cons.prems(2) by simp_all
  have step: "keeps ?env used stored (?c + ?cs (st_db st)) st run' st'"
    if k: "keeps ?env used stored ?c st run1 st1" and e: "embed_docs xe d ci n1 fin1 docs run1 st1 = (st', Inr (flow, run'))" for n1 fin1 run1 st1
  proof -
    have same: "same_docs (st_db st) (st_db st1)" and nx: "next_vid st1 \<le> next_vid st + ?c" and inv1: "run_inv ?env used stored run1 st1"
      using k by (simp_all add: keeps_def)
    have "chunk_count ?env (st_db st1) = chunk_count ?env (st_db st)" by (rule ext) (rule chunk_count_same [OF same])
    then have cs: "?cs (st_db st1) = ?cs (st_db st)" by simp
    have "next_vid st1 + ?cs (st_db st1) < 2 ^ 64" using nx room(2) by (simp add: cs)
    from keeps_trans [OF k Cons.IH [OF inv1 this e]] show ?thesis by (simp add: cs)
  qed
  have stay: "keeps ?env used stored (?c + ?cs (st_db st)) st run' st'" if "keeps ?env used stored ?c st run' st'"
    using that by (simp add: keeps_def)
  have here: "keeps ?env used stored ?c st run1 st" if "er_pending run1 = er_pending run" "er_deletes run1 = er_deletes run" for run1
    using Cons.prems(1) that by (simp add: keeps_def)
  have n: "length chunks \<le> ?c" if "chunk_document_for_path (e_uc ?env) (e_feats ?env) (e_parse ?env) (doc_path doc) body = Some chunks" for chunks
    using that by (simp add: chunk_count_def body_def)
  have result: "keeps ?env used stored (?c + ?cs (st_db st)) st run' st'"
  proof (cases "x_signal xe ci n")
    case (Some s)
    then show ?thesis using Cons.prems(3) stay here by auto
  next
    case ns: None
    show ?thesis
    proof (cases "deadline_check (x_now xe ci n) ''the next document'' d")
      case (Inl t)
      then show ?thesis using Cons.prems(3) ns stay here by auto
    next
      case (Inr u)
      note go = Cons.prems(3) [unfolded embed_docs.simps ns Inr option.case sum.case body_def [symmetric] Let_def]
      show ?thesis
      proof (cases "body = []")
        case True
        let ?st1 = "on_db (\<lambda>db. fst (clear_prev_hash (doc_hash doc) db)) st"
        have "keeps ?env used stored ?c st run ?st1"
          using vec_inv_db [OF Cons.prems(1), of "fst (clear_prev_hash (doc_hash doc) (st_db st))"] same_docs_clear_prev
          by (simp add: keeps_def on_db_def next_vid_def)
        then show ?thesis using go True by (simp add: step)
      next
        case False
        obtain st1 r where e: "embed_document_chunks ?env (doc_hash doc) (doc_path doc) body st = (st1, r)" by fastforce
        show ?thesis
        proof (cases r)
          case (Inr pvs)
          note e = e [unfolded Inr]
          obtain st2 run2 where s: "supersede ?env (doc_hash doc) run st1 = (st2, Inr run2)"
            using go False e by (cases "supersede ?env (doc_hash doc) run st1") (auto simp: sbind_def split: sum.splits)
          let ?run3 = "run2\<lparr>er_consecutive := 0, er_new_chunks := er_new_chunks run2 + length pvs, er_new_docs := er_new_docs run2 + 1,
            er_pending := er_pending run2 @ pvs\<rparr>"
          have k3: "keeps ?env used stored ?c st ?run3 st2" by (rule embed_one_keeps [OF laws Cons.prems(1) room(1) n e s])
          obtain st4 run4 where c: "(if Suc fin mod er_interval ?run3 = 0 then run_checkpoint ?env ?run3 st2 else (st2, Inr ?run3)) = (st4, Inr run4)"
            and rest: "embed_docs xe d ci (Suc n) (Suc fin) docs run4 st4 = (st', Inr (flow, run'))"
            using go False e s by (auto simp: sbind_def split: prod.splits sum.splits if_splits)
          have "keeps ?env used stored ?c st run4 st4"
          proof (cases "Suc fin mod er_interval ?run3 = 0")
            case True
            then have "run_checkpoint ?env ?run3 st2 = (st4, Inr run4)" using c by simp
            from checkpoint_keeps [OF laws _ this] k3 keeps_trans [OF k3, of 0] show ?thesis by (auto simp: keeps_def)
          next
            case False
            then show ?thesis using c k3 by simp
          qed
          then show ?thesis using rest by (rule step)
        next
          case (Inl err)
          let ?run1 = "run\<lparr>er_consecutive := er_consecutive run + 1,
            er_failures := er_failures run @ [\<lparr>ef_collection = doc_collection doc, ef_path = doc_path doc, ef_error = err\<rparr>]\<rparr>"
          have em: "embedded ?env used stored ?c st st1"
            using embed_chunks_spec [OF laws vec_invD(1) [OF Cons.prems(1)] room(1) n e] by blast
          have k1: "keeps ?env used stored ?c st ?run1 st1"
            using vec_inv_embedded [OF Cons.prems(1) em room(1)] em by (simp add: keeps_def embedded_def)
          show ?thesis
            using go False e k1 step [OF k1, of "Suc n" fin] stay unfolding Inl by (cases err) (auto split: if_splits)
        qed
      qed
    qed
  qed
  then show ?case by simp
qed

subsection \<open>The whole run\<close>

lemma embed_todo_sum:
  "sum_list (map f (fst (embed_todo env db excluded seen docs))) \<le> (sum_list (map f docs) :: nat)"
  by (induction docs arbitrary: seen) (auto simp: case_prod_unfold le_SucI intro: trans_le_add2)

text \<open>The new ids a run over the collections may need.\<close>

definition run_chunks :: "('ix, 'v, 'f) env \<Rightarrow> db \<Rightarrow> string list \<Rightarrow> nat" where
  "run_chunks env db cols = sum_list (map (\<lambda>col. sum_list (map (chunk_count env db) (list_documents (Some col) db))) cols)"

lemma run_chunks_same: "same_docs db db' \<Longrightarrow> run_chunks env db' cols = run_chunks env db cols"
proof -
  assume s: "same_docs db db'"
  have "chunk_count env db' = chunk_count env db" by (rule ext) (rule chunk_count_same [OF s])
  then show ?thesis using s by (simp add: run_chunks_def same_docs_def)
qed

lemma embed_loop_keeps:
  assumes laws: "index_laws (e_us (x_env xe)) used stored" and "run_inv (x_env xe) used stored run st"
    and "next_vid st + run_chunks (x_env xe) (st_db st) cols < 2 ^ 64"
    and "embed_loop xe d excluded ci cols seen run st = (st', Inr (flow, run'))"
  shows "keeps (x_env xe) used stored (run_chunks (x_env xe) (st_db st) cols) st run' st'"
  using assms(2-)
proof (induction cols arbitrary: ci seen run st)
  case Nil
  then show ?case by (simp add: keeps_def run_chunks_def)
next
  case (Cons col cols)
  let ?env = "x_env xe"
  let ?docs = "list_documents (Some col) (st_db st)"
  obtain todo seen1 where t: "embed_todo ?env (st_db st) excluded seen ?docs = (todo, seen1)" by fastforce
  let ?n = "sum_list (map (chunk_count ?env (st_db st)) todo)" and ?m = "run_chunks ?env (st_db st) cols"
  have le: "?n + ?m \<le> run_chunks ?env (st_db st) (col # cols)"
    using embed_todo_sum [of "chunk_count ?env (st_db st)" ?env "st_db st" excluded seen ?docs] by (simp add: t run_chunks_def)
  obtain st1 flow1 run1 where e: "embed_docs xe d ci 0 0 todo run st = (st1, Inr (flow1, run1))"
    and rest: "(if flow1 \<noteq> FlowContinue then (st1, Inr (flow1, run1)) else embed_loop xe d excluded (Suc ci) cols seen1 run1 st1)
      = (st', Inr (flow, run'))"
    using Cons.prems(3) by (auto simp: t sbind_def split: prod.splits sum.splits)
  have k: "keeps ?env used stored ?n st run1 st1"
    using Cons.prems(2) le by (intro embed_docs_keeps [OF laws Cons.prems(1) _ e]) simp
  have weak: "keeps ?env used stored a st r s \<Longrightarrow> a \<le> b \<Longrightarrow> keeps ?env used stored b st r s" for a b r s
    by (auto simp: keeps_def)
  show ?case
  proof (cases "flow1 = FlowContinue")
    case False
    then show ?thesis using rest weak [OF k] le by simp
  next
    case True
    then have rest: "embed_loop xe d excluded (Suc ci) cols seen1 run1 st1 = (st', Inr (flow, run'))" using rest by simp
    have m: "run_chunks ?env (st_db st1) cols = ?m" using k by (intro run_chunks_same) (simp add: keeps_def)
    have "next_vid st1 + run_chunks ?env (st_db st1) cols < 2 ^ 64" using k le Cons.prems(2) unfolding m by (simp add: keeps_def)
    from Cons.IH [OF _ this rest] k have "keeps ?env used stored ?m st1 run' st'" by (simp add: keeps_def m)
    from weak [OF keeps_trans [OF k this] le] show ?thesis .
  qed
qed

lemma evict_hashes_inv:
  assumes laws: "index_laws (e_us env) used stored" and "vec_inv env used stored D ms st" and "evict_hashes env hs st = (st', Inr u)"
  shows "vec_inv env used stored (D \<union> set hs) ms st' \<and> st_db st' = st_db st \<and> next_vid st' = next_vid st"
  using assms(2-)
proof (induction hs arbitrary: D st)
  case (Cons h hs)
  obtain ids where ids: "vids_for_hash h (st_db st) = Inr ids"
    using Cons.prems(2) by (cases "vids_for_hash h (st_db st)") simp_all
  obtain st1 where e: "evict_hnsw_vectors env ids st = (st1, Inr ())" "vec_inv env used stored (insert h D) ms st1"
    "st_db st1 = st_db st" "next_vid st1 = next_vid st"
    using vec_inv_evict [OF laws Cons.prems(1) vids_for_hash_rows [OF ids]] by blast
  have "evict_hashes env hs st1 = (st', Inr u)" using Cons.prems(2) by (simp add: ids e(1))
  from Cons.IH [OF e(2) this] show ?case using e(3,4) by simp
qed simp

lemma sweep_rows_fst: "fst (sweep_rows hs db) = fold (\<lambda>h db. fst (delete_vectors_for_hash h db)) hs db"
proof -
  have "fst (fold (\<lambda>hash (db, swept). case delete_vectors_for_hash hash db of (db, n) \<Rightarrow> (db, swept + n)) hs (db, n))
      = fold (\<lambda>h db. fst (delete_vectors_for_hash h db)) hs db" for n
    by (induction hs arbitrary: db n) (simp_all add: case_prod_unfold)
  then show ?thesis by (simp add: sweep_rows_def)
qed

lemma reclaim_keeps:
  assumes laws: "index_laws (e_us env) used stored" and inv: "vectors_saved env used stored st"
    and r: "reclaim_vectors_of env hs st = (st', Inr n)"
  shows "vectors_saved env used stored st' \<and> same_docs (st_db st) (st_db st') \<and> next_vid st' = next_vid st"
proof (cases "hs = []")
  case True
  then show ?thesis using r inv by (auto simp: reclaim_vectors_of_def)
next
  case False
  obtain st1 u st2 where e: "evict_hashes env hs st = (st1, Inr u)" and f: "flush env st1 = (st2, Inr ())"
    and st': "st' = st2\<lparr>st_db := fst (sweep_rows hs (st_db st2))\<rparr>"
    using r False by (auto simp: reclaim_vectors_of_def sbind_def split: prod.splits sum.splits)
  have i1: "vec_inv env used stored (set hs) [] st1" "st_db st1 = st_db st" "next_vid st1 = next_vid st"
    using evict_hashes_inv [OF laws inv e] by simp_all
  have i2: "vec_inv env used stored (set hs) [] st2" "st_db st2 = st_db st" "st_hnsw st2 = st_hnsw st1"
      "file_vec env stored st2 = index_vec stored st2"
    using vec_inv_flush [OF laws i1(1) f] i1(2) by auto
  have rows: "id_rows (fst (sweep_rows hs (st_db st2))) = {r \<in> id_rows (st_db st2). fst r \<notin> set hs}"
    by (simp add: sweep_rows_fst delete_hashes_ids)
  have "ids_exclusive {r \<in> id_rows (st_db st2). fst r \<notin> set hs}"
    by (rule ids_exclusive_subset [OF vec_invD(3) [OF i2(1)]]) blast
  then have "vectors_saved env used stored st'"
    unfolding st' by (intro vec_inv_commit [OF i2(1,4)]) (simp_all add: rows)
  then show ?thesis using i1(3) i2(2,3) by (simp add: st' sweep_rows_fst same_docs_deletes next_vid_def)
qed

lemma fold_rows_keep:
  assumes "\<And>r acc. id_rows (fst (f r acc)) = id_rows (fst acc) \<and> same_docs (fst acc) (fst (f r acc))"
  shows "id_rows (fst (fold f rs acc)) = id_rows (fst acc) \<and> same_docs (fst acc) (fst (fold f rs acc))"
proof (induction rs arbitrary: acc)
  case (Cons r rs)
  show ?case using Cons.IH [of "f r acc"] assms [of r acc] same_docs_trans [of "fst acc"] by auto
qed simp

lemma backfill_rows: "id_rows (fst (backfill_vector_keys m fps k db)) = id_rows db \<and> same_docs db (fst (backfill_vector_keys m fps k db))"
proof -
  let ?f = "\<lambda>r (db, filled). (db\<lparr>vectors := map (\<lambda>v. if vec_key v = vec_key r then v\<lparr>v_key := Some (k (the (v_chunk_hash r)))\<rparr> else v) (vectors db)\<rparr>,
      filled + length (filter (\<lambda>v. vec_key v = vec_key r) (vectors db)))"
  have "id_rows (fst (?f r acc)) = id_rows (fst acc) \<and> same_docs (fst acc) (fst (?f r acc))" for r acc
  proof -
    obtain db n where acc: "acc = (db, n)" by (cases acc)
    let ?db = "db\<lparr>vectors := map (\<lambda>v. if vec_key v = vec_key r then v\<lparr>v_key := Some (k (the (v_chunk_hash r)))\<rparr> else v) (vectors db)\<rparr>"
    have "id_rows ?db = id_rows db" by (rule id_rows_map) simp_all
    moreover have "same_docs db ?db" by (rule same_docs_rows) simp_all
    ultimately show ?thesis by (simp add: acc)
  qed
  from fold_rows_keep [OF this, where acc = "(db, 0)"] show ?thesis by (simp add: backfill_vector_keys_def)
qed

lemma backfill_keeps:
  assumes inv: "vectors_saved env used stored st"
  shows "vectors_saved env used stored (fst (store_backfill_vector_keys env st))
    \<and> same_docs (st_db st) (st_db (fst (store_backfill_vector_keys env st))) \<and> next_vid (fst (store_backfill_vector_keys env st)) = next_vid st"
  using backfill_rows vec_inv_db [OF inv]
  by (simp add: store_backfill_vector_keys_def Let_def case_prod_unfold next_vid_def)


text \<open>An index that forgets what is removed: its ids, and its vectors.\<close>

type_synonym removing_index = "nat \<times> nat list \<times> (nat \<times> nat) list"

definition removing_usearch :: "(removing_index, nat, removing_index) usearch" where
  "removing_usearch =
     \<lparr>us_new = Inr (0, [], []), us_load = (\<lambda>f. case f of None \<Rightarrow> Inl ''no file'' | Some ix \<Rightarrow> Inr ix),
      us_view = (\<lambda>f. case f of None \<Rightarrow> Inl ''no file'' | Some ix \<Rightarrow> Inr ix), us_save = Inr,
      us_capacity = fst, us_size = (\<lambda>(_, _, xs). length xs), us_reserve = (\<lambda>n (_, ids, xs). ((n, ids, xs), Inr ())),
      us_add = (\<lambda>k x (n, ids, xs). if k \<in> set ids then ((n, ids, xs), Inl ''Duplicate keys'') else ((n, k # ids, (k, x) # xs), Inr ())),
      us_remove = (\<lambda>k (n, ids, xs). ((n, ids, filter (\<lambda>(j, _). k \<noteq> j) xs), Inr 1)),
      us_get = (\<lambda>k (_, _, xs). case map_of xs k of None \<Rightarrow> Inr (0, 0) | Some x \<Rightarrow> Inr (1, x)),
      us_search = (\<lambda>x k ix. Inr ([], []))\<rparr>"

lemma removing_usearch_laws: "index_laws removing_usearch (\<lambda>(_, ids, _). set ids) (\<lambda>(_, _, xs). map_of xs)"
proof -
  have "map_of (filter (\<lambda>(j, _). k \<noteq> j) xs) = (map_of xs)(k := None)" for k and xs :: "(nat \<times> nat) list"
    by (induction xs) (auto simp: fun_eq_iff)
  then show ?thesis by (auto simp: index_laws_def ann_laws_def removing_usearch_def split: option.splits)
qed

definition removing_env :: "(removing_index, nat, removing_index) env" where
  "removing_env =
     \<lparr>e_us = removing_usearch, e_sha = (\<lambda>s. s), e_uc = ascii_unicode,
      e_feats = [], e_parse = (\<lambda>_ _. None), e_toks = (\<lambda>p. [(0, p)]), e_nfc = (\<lambda>s. s),
      e_embed = (\<lambda>ts. Inr (map length ts)), e_kind = ''k'', e_model = ''m'', e_context = 2048, e_writer = Inr (),
      e_io = \<lparr>si_sync = True, si_rename = True, si_dir = True\<rparr>, e_pid = 1, e_secs = 0\<rparr>"

definition sample_eenv :: "(removing_index, nat, removing_index, string) eenv" where
  "sample_eenv = \<lparr>x_env = removing_env, x_codec = line_codec, x_gs = \<lparr>gs_glob = Some, gs_build = (\<lambda>gs. None)\<rparr>,
     x_signal = (\<lambda>_ _. None), x_now = (\<lambda>_ _. 0)\<rparr>"

text \<open>A store with one document, not embedded yet.\<close>

definition note_db :: db where
  "note_db = (case upsert_document ''notes'' ''a.md'' ''a'' ''h'' ''t'' (upsert_content ''h'' ''hello'' ''t'' empty_db) of
     Inl _ \<Rightarrow> empty_db | Inr (db, _) \<Rightarrow> db)"

definition note_store :: "(removing_index, removing_index) store" where
  "note_store =
     \<lparr>st_db = note_db, st_fts = fts_create, st_hnsw = \<lparr>vi_inner = (0, [], []), vi_next = 0, vi_ro = False\<rparr>,
      st_file = ''h'', st_fs = \<lparr>fs_dir = Map.empty, fs_data = (\<lambda>_. (0, [], [])), fs_synced = (\<lambda>_. True), fs_disk = [Map.empty], fs_fresh = 0\<rparr>,
      st_staged = [], st_dirty = False, st_seen = (None, None)\<rparr>"


subsection \<open>Failures are counted\<close>

text \<open>None of the steps of a document changes the texts.\<close>

lemma embed_chunks_db: "st_db (fst (embed_document_chunks env hash path body st)) = st_db st"
  by (auto simp: embed_document_chunks_def Let_def sbind_def on_hnsw_def split: option.splits prod.splits sum.splits)

lemma evict_loop_db: "st_db (fst (evict_loop env ids st)) = st_db st"
proof (induction ids arbitrary: st)
  case (Cons k ids)
  obtain st1 r where r: "on_hnsw (vi_remove (e_us env) k) st = (st1, r)" by fastforce
  then have "st_db st1 = st_db st" by (auto simp: on_hnsw_def split: prod.splits)
  then show ?case using Cons.IH [of st1] by (cases r) (simp_all add: r)
qed simp

lemma supersede_db: "st_db (fst (supersede env hash run st)) = st_db st"
proof (cases "vids_for_hash hash (st_db st)")
  case (Inr ids)
  obtain st1 r where r: "evict_hnsw_vectors env ids st = (st1, r)" by fastforce
  have "st_db st1 = st_db st" using evict_loop_db [of env ids st] r by (auto simp: evict_hnsw_vectors_def split: if_splits)
  then show ?thesis by (cases r) (simp_all add: supersede_def Inr r)
qed (simp add: supersede_def)

lemma supersede_counts: "snd (supersede env hash run st) = Inr run' \<Longrightarrow>
  er_failures run' = er_failures run \<and> er_new_docs run' = er_new_docs run \<and> er_consecutive run' = er_consecutive run"
  by (auto simp: supersede_def sbind_def split: prod.splits sum.splits if_splits)

lemma checkpoint_docs: "run_checkpoint env run st = (st', Inr run') \<Longrightarrow> same_docs (st_db st) (st_db st')
    \<and> er_failures run' = er_failures run \<and> er_new_docs run' = er_new_docs run \<and> er_consecutive run' = er_consecutive run"
proof (cases "er_pending run = [] \<and> er_deletes run = []")
  case False
  assume r: "run_checkpoint env run st = (st', Inr run')"
  obtain st1 db where f: "flush env st = (st1, Inr ())"
    and c: "commit_pending (er_deletes run) (er_pending run) (next_vid st1) (st_db st1) = Inr db"
    and st': "st' = vectors_committed (st1\<lparr>st_db := db\<rparr>)" and run': "run' = run\<lparr>er_pending := [], er_deletes := []\<rparr>"
    using r False by (auto simp: run_checkpoint_def checkpoint_def sbind_def split: prod.splits sum.splits if_splits)
  show ?thesis using same_docs_commit [OF c] flush_db [of env st] f by (simp add: st' run' vectors_committed_def)
qed (auto simp: run_checkpoint_def checkpoint_def)

definition text_of :: "db \<Rightarrow> document \<Rightarrow> string" where
  "text_of db doc = (case get_content (doc_hash doc) db of Some b \<Rightarrow> b | None \<Rightarrow> [])"

lemma text_of_same: "same_docs db db' \<Longrightarrow> text_of db' = text_of db"
  by (simp add: text_of_def same_docs_def get_content_def fun_eq_iff)

text \<open>
  What a run over \<open>docs\<close> has counted on its way from \<open>run\<close> to \<open>run'\<close>. \<open>tried\<close> are the documents it came to; those with
  a text are either embedded or among the failures, in their order, and the last documents tried are the last
  failures, as many as the counter of failures in a row says.
\<close>

abbreviation failure_name :: "embed_failure \<Rightarrow> string \<times> string" where
  "failure_name f \<equiv> (ef_collection f, ef_path f)"

abbreviation document_name :: "document \<Rightarrow> string \<times> string" where
  "document_name doc \<equiv> (doc_collection doc, doc_path doc)"

definition tally_ok :: "nat \<Rightarrow> nat \<Rightarrow> nat \<Rightarrow> (string \<times> string) list \<Rightarrow> (string \<times> string) list \<Rightarrow> bool" where
  "tally_ok c0 c new failed tried \<longleftrightarrow>
     subseq failed tried \<and> new + length failed = length tried \<and> c \<le> c0 + length tried
     \<and> take (min c (length tried)) (rev failed) = take (min c (length tried)) (rev tried)"

lemma tally_embedded: "tally_ok 0 c n failed tried \<Longrightarrow> tally_ok c0 c (Suc n) failed (x # tried)"
  by (auto simp: tally_ok_def min_def)

lemma tally_failed:
  assumes "tally_ok (Suc c0) c n failed tried"
  shows "tally_ok c0 c n (x # failed) (x # tried)"
proof (cases "c \<le> length tried")
  case True
  then have "length (take c (rev failed)) = length (take c (rev tried))" using assms by (simp add: tally_ok_def min_def)
  then have "c \<le> length failed" using True by (auto simp: min_def split: if_splits)
  then show ?thesis using True assms by (simp add: tally_ok_def min_def)
next
  case False
  then have "take (length tried) (rev failed) = rev tried" using assms by (simp add: tally_ok_def min_def)
  moreover have "length failed \<le> length tried" using assms by (simp add: tally_ok_def)
  ultimately have "failed = tried" by (metis length_rev rev_is_rev_conv take_all)
  then show ?thesis using False assms by (simp add: tally_ok_def)
qed

lemma tally_none: "tally_ok c0 c0 0 [] []"
  by (simp add: tally_ok_def)

definition accounts :: "db \<Rightarrow> document list \<Rightarrow> embed_flow \<Rightarrow> embed_run \<Rightarrow> embed_run \<Rightarrow> bool" where
  "accounts db docs flow run run' \<longleftrightarrow>
     er_consecutive run' \<le> MAX_CONSECUTIVE_EMBED_FAILURES
     \<and> (flow = FlowAbort \<longleftrightarrow> er_consecutive run' = MAX_CONSECUTIVE_EMBED_FAILURES)
     \<and> er_new_docs run \<le> er_new_docs run'
     \<and> (\<exists>failed tried rest. docs = tried @ rest \<and> (flow = FlowContinue \<longrightarrow> rest = []) \<and> er_failures run' = er_failures run @ failed
          \<and> tally_ok (er_consecutive run) (er_consecutive run') (er_new_docs run' - er_new_docs run)
              (map failure_name failed) (map document_name (filter (\<lambda>doc. text_of db doc \<noteq> []) tried)))"

text \<open>C28: A document that fails to embed is recorded and skipped: every document with a text that a run comes to is
  embedded or recorded, once and in order, and a run that goes through comes to all of them. It gives up exactly
  when five documents in a row have failed.\<close>

theorem embed_docs_accounts:
  assumes "er_consecutive run < MAX_CONSECUTIVE_EMBED_FAILURES"
    and "embed_docs xe d ci n fin docs run st = (st', Inr (flow, run'))"
  shows "accounts (st_db st) docs flow run run'"
  using assms
proof (induction docs arbitrary: n fin run st)
  case Nil
  then show ?case using tally_none by (auto simp: accounts_def)
next
  case (Cons doc docs)
  let ?env = "x_env xe" and ?max = "MAX_CONSECUTIVE_EMBED_FAILURES" and ?t = "\<lambda>doc. text_of (st_db st) doc \<noteq> []"
  have stop: "accounts (st_db st) (doc # docs) flow run run" if "flow \<noteq> FlowContinue" "flow \<noteq> FlowAbort" for flow
    using Cons.prems(1) that tally_none unfolding accounts_def
    by (intro conjI exI [of _ "[]"] exI [of _ "doc # docs"]) simp_all
  have step: "accounts (st_db st) (doc # docs) flow run run'"
    if e: "embed_docs xe d ci n1 fin1 docs run1 st1 = (st', Inr (flow, run'))" and same: "same_docs (st_db st) (st_db st1)"
      and c: "er_consecutive run1 < ?max" and f: "er_failures run1 = er_failures run @ fs" "er_new_docs run \<le> er_new_docs run1"
      and one: "\<And>c k failed tried. tally_ok (er_consecutive run1) c k failed tried
          \<Longrightarrow> tally_ok (er_consecutive run) c (k + (er_new_docs run1 - er_new_docs run)) (map failure_name fs @ failed)
                (map document_name (filter ?t [doc]) @ tried)"
    for n1 fin1 run1 st1 fs
  proof -
    have "accounts (st_db st) docs flow run1 run'"
      using Cons.IH [OF c e] by (simp add: accounts_def text_of_same [OF same])
    then obtain failed tried rest where a: "docs = tried @ rest" "flow = FlowContinue \<Longrightarrow> rest = []" "er_failures run' = er_failures run1 @ failed"
        "tally_ok (er_consecutive run1) (er_consecutive run') (er_new_docs run' - er_new_docs run1)
           (map failure_name failed) (map document_name (filter ?t tried))"
      and b: "er_consecutive run' \<le> ?max" "flow = FlowAbort \<longleftrightarrow> er_consecutive run' = ?max" "er_new_docs run1 \<le> er_new_docs run'"
      unfolding accounts_def by blast
    have "er_new_docs run' - er_new_docs run1 + (er_new_docs run1 - er_new_docs run) = er_new_docs run' - er_new_docs run"
      using b(3) f(2) by simp
    then have "tally_ok (er_consecutive run) (er_consecutive run') (er_new_docs run' - er_new_docs run)
        (map failure_name (fs @ failed)) (map document_name (filter ?t (doc # tried)))"
      using one [OF a(4)] by (cases "?t doc") simp_all
    then show ?thesis
      unfolding accounts_def using a b f
      by (intro conjI exI [of _ "fs @ failed"] exI [of _ "doc # tried"] exI [of _ rest]) auto
  qed
  show ?case
  proof (cases "x_signal xe ci n")
    case (Some s)
    then show ?thesis using Cons.prems(2) stop by auto
  next
    case ns: None
    show ?thesis
    proof (cases "deadline_check (x_now xe ci n) ''the next document'' d")
      case (Inl t)
      then show ?thesis using Cons.prems(2) ns stop by auto
    next
      case (Inr u)
      define body where "body = text_of (st_db st) doc"
      note go = Cons.prems(2) [unfolded embed_docs.simps ns Inr option.case sum.case text_of_def [symmetric] body_def [symmetric] Let_def]
      show ?thesis
      proof (cases "body = []")
        case True
        then show ?thesis
          using go Cons.prems(1) same_docs_clear_prev by (intro step [where fs = "[]"]) (auto simp: on_db_def body_def)
      next
        case False
        obtain st1 r where e: "embed_document_chunks ?env (doc_hash doc) (doc_path doc) body st = (st1, r)" by fastforce
        have db1: "st_db st1 = st_db st" using embed_chunks_db [of ?env "doc_hash doc" "doc_path doc" body st] by (simp add: e)
        show ?thesis
        proof (cases r)
          case (Inr pvs)
          note e = e [unfolded Inr]
          obtain st2 run2 where s: "supersede ?env (doc_hash doc) run st1 = (st2, Inr run2)"
            using go False e by (cases "supersede ?env (doc_hash doc) run st1") (auto simp: sbind_def split: sum.splits)
          let ?run3 = "run2\<lparr>er_consecutive := 0, er_new_chunks := er_new_chunks run2 + length pvs, er_new_docs := er_new_docs run2 + 1,
            er_pending := er_pending run2 @ pvs\<rparr>"
          have db2: "st_db st2 = st_db st" using supersede_db [of ?env "doc_hash doc" run st1] by (simp add: s db1)
          have n2: "er_failures run2 = er_failures run" "er_new_docs run2 = er_new_docs run"
            using supersede_counts [of ?env "doc_hash doc" run st1 run2] by (simp_all add: s)
          obtain st4 run4 where c: "(if Suc fin mod er_interval ?run3 = 0 then run_checkpoint ?env ?run3 st2 else (st2, Inr ?run3)) = (st4, Inr run4)"
            and rest: "embed_docs xe d ci (Suc n) (Suc fin) docs run4 st4 = (st', Inr (flow, run'))"
            using go False e s by (auto simp: sbind_def split: prod.splits sum.splits if_splits)
          have "same_docs (st_db st2) (st_db st4) \<and> er_failures run4 = er_failures ?run3 \<and> er_new_docs run4 = er_new_docs ?run3
              \<and> er_consecutive run4 = er_consecutive ?run3"
            using c checkpoint_docs [of ?env ?run3 st2 st4 run4] by (cases "Suc fin mod er_interval ?run3 = 0") auto
          then show ?thesis
            using False by (intro step [OF rest, where fs = "[]"]) (auto simp: db2 n2 body_def MAX_CONSECUTIVE_EMBED_FAILURES_def intro: tally_embedded)
        next
          case (Inl err)
          let ?f = "\<lparr>ef_collection = doc_collection doc, ef_path = doc_path doc, ef_error = err\<rparr>"
          let ?run1 = "run\<lparr>er_consecutive := er_consecutive run + 1, er_failures := er_failures run @ [?f]\<rparr>"
          have nx: "(if ?max \<le> er_consecutive ?run1 then (st1, Inr (FlowAbort, ?run1))
              else embed_docs xe d ci (Suc n) fin docs ?run1 st1) = (st', Inr (flow, run'))"
            using go False e unfolding Inl by (cases err) auto
          show ?thesis
          proof (cases "?max \<le> er_consecutive ?run1")
            case True
            then have "flow = FlowAbort" "run' = ?run1" "er_consecutive ?run1 = ?max" using nx Cons.prems(1) by auto
            moreover have "tally_ok (er_consecutive run) (Suc (er_consecutive run)) 0 (map failure_name [?f]) (map document_name (filter ?t [doc]))"
              using False by (simp add: body_def tally_ok_def)
            ultimately show ?thesis
              unfolding accounts_def by (intro conjI exI [of _ "[?f]"] exI [of _ "[doc]"] exI [of _ docs]) simp_all
          next
            case f: False
            then have "embed_docs xe d ci (Suc n) fin docs ?run1 st1 = (st', Inr (flow, run'))" using nx by simp
            from step [OF this, where fs = "[?f]"] show ?thesis using f False db1 by (auto simp: body_def intro: tally_failed)
          qed
        qed
      qed
    qed
  qed
qed

text \<open>A model that never answers.\<close>

definition failing_eenv :: "(removing_index, nat, removing_index, string) eenv" where
  "failing_eenv = sample_eenv\<lparr>x_env := removing_env\<lparr>e_embed := (\<lambda>_. Inl ''gpu'')\<rparr>\<rparr>"

definition note_doc :: document where
  "note_doc = \<lparr>doc_id = 1, doc_collection = ''notes'', doc_path = ''a.md'', doc_title = ''a'', doc_hash = ''h'', doc_active = True\<rparr>"

lemma embed_docs_accounts_witness:
  "\<exists>run. embed_docs failing_eenv None 0 0 0 (replicate 6 note_doc) (embed_run_new 50) note_store = (note_store, Inr (FlowAbort, run))
     \<and> accounts note_db (replicate 6 note_doc) FlowAbort (embed_run_new 50) run"
proof -
  have text_h: "get_content ''h'' note_db = Some ''hello''" by code_simp
  have chunks: "chunk_document_for_path ascii_unicode [] (\<lambda>_ _. None) ''a.md'' ''hello'' = Some [\<lparr>chunk_text = ''hello'', chunk_pos = 0\<rparr>]"
    by code_simp
  have no: "vectors note_db = []" by code_simp
  have db: "st_db note_store = note_db" "st_staged note_store = []" by (simp_all add: note_store_def)
  have fails: "embed_document_chunks (x_env failing_eenv) ''h'' ''a.md'' ''hello'' note_store = (note_store, Inl (EmbedErr ''gpu''))"
    by (simp add: embed_document_chunks_def failing_eenv_def removing_env_def chunks embed_passages_reusing_def db reuse_slot_def
        reusable_vector_vids_def reusable_vid_def no Let_def List.map_filter_def)
  have quiet: "x_signal failing_eenv ci n = None" for ci n by (simp add: failing_eenv_def sample_eenv_def)
  obtain run where r: "embed_docs failing_eenv None 0 0 0 (replicate 6 note_doc) (embed_run_new 50) note_store = (note_store, Inr (FlowAbort, run))"
    by (simp add: numeral_eq_Suc quiet deadline_check_def note_doc_def db text_h fails embed_run_new_def MAX_CONSECUTIVE_EMBED_FAILURES_def)
  have "er_consecutive (embed_run_new 50) < MAX_CONSECUTIVE_EMBED_FAILURES" by (simp add: embed_run_new_def MAX_CONSECUTIVE_EMBED_FAILURES_def)
  from embed_docs_accounts [OF this r] r show ?thesis unfolding db by blast
qed

end
