(* ===== verification/McpHttp.thy ===== *)
theory McpHttp
  imports StrOps Prelude
begin

text \<open>
  The HTTP front of the MCP server, \<open>crates/rqmd-mcp/src/lib.rs\<close>: the idle-exit
  setting, the count of requests in progress behind it (\<open>Activity\<close>, \<open>Busy\<close>,
  \<open>Held\<close>, \<open>track_activity\<close>) as a step relation over the life of every request,
  the wait of \<open>idle_expired\<close>, and the host names the server answers to
  (\<open>bare_host\<close> to \<open>http_server_config\<close>). Instants and durations are natural
  numbers of one unit. The textual form of an IPv6 address belongs to
  \<open>std::net\<close>: \<open>ipv6\<close> maps a text that parses as one to its canonical text.
\<close>

subsection \<open>The setting\<close>

datatype idle_error = BadIdleExit string

definition parse_idle_exit :: "string option \<Rightarrow> idle_error + nat option" where
  "parse_idle_exit v =
     (case v of
        None \<Rightarrow> Inr None
      | Some raw \<Rightarrow>
          (case parse_uint 64 (trim raw) of
             Some secs \<Rightarrow> if 0 < secs then Inr (Some secs) else Inl (BadIdleExit raw)
           | None \<Rightarrow> Inl (BadIdleExit raw)))"

text \<open>\<open>RQMD_MODEL_IDLE_TTL\<close> of \<open>spawn_idle_eviction\<close>: \<open>None\<close> when the sweep is off.\<close>

definition DEFAULT_MODEL_IDLE_TTL_SECS :: nat where
  "DEFAULT_MODEL_IDLE_TTL_SECS = 300"

definition model_idle_ttl :: "string option \<Rightarrow> nat option" where
  "model_idle_ttl v =
     (let secs = (case v of None \<Rightarrow> DEFAULT_MODEL_IDLE_TTL_SECS
                  | Some s \<Rightarrow> (case parse_uint 64 s of None \<Rightarrow> DEFAULT_MODEL_IDLE_TTL_SECS | Some n \<Rightarrow> n)) in
      if secs = 0 then None else Some secs)"

lemma parse_idle_exit_positive: "parse_idle_exit v = Inr (Some d) \<Longrightarrow> 0 < d"
  by (auto simp: parse_idle_exit_def split: option.splits if_splits)

subsection \<open>Requests in progress\<close>

record activity =
  in_progress :: nat
  last_change :: nat

definition activity_new :: "nat \<Rightarrow> activity" where
  "activity_new now = \<lparr>in_progress = 0, last_change = now\<rparr>"

definition activity_begin :: "nat \<Rightarrow> activity \<Rightarrow> activity" where
  "activity_begin now a = \<lparr>in_progress = in_progress a + 1, last_change = now\<rparr>"

definition busy_drop :: "nat \<Rightarrow> activity \<Rightarrow> activity" where
  "busy_drop now a = \<lparr>in_progress = in_progress a - 1, last_change = now\<rparr>"

definition idle_for :: "nat \<Rightarrow> activity \<Rightarrow> nat option" where
  "idle_for now a = (if in_progress a = 0 then Some (now - last_change a) else None)"

definition is_mcp_path :: "string \<Rightarrow> bool" where
  "is_mcp_path p \<longleftrightarrow> p = ''/mcp'' \<or> starts_with ''/mcp/'' p"

text \<open>
  A request's life: its handler runs (\<open>Running\<close>), then its response body is read
  (\<open>Streaming\<close>) until the body ends, fails or is dropped, or the request is
  dropped on the way. \<open>rq_busy\<close> says whether it still holds its \<open>Busy\<close>,
  \<open>rq_ended\<close> whether its body has reported its end or an error.
\<close>

datatype meth = Get | Post | OtherMethod

datatype stage = Running | Streaming | Closed

record request =
  rq_path :: string
  rq_method :: meth
  rq_stage :: stage
  rq_ended :: bool
  rq_busy :: bool

record server =
  sv_now :: nat
  sv_activity :: activity
  sv_requests :: "request list"

datatype polled = Pending | Frame | FrameError | EndOfBody

datatype http_event =
    Wait nat
  | Arrive string meth
  | Respond nat
  | PollFrame nat polled
  | DropRequest nat

text \<open>Letting go of the \<open>Busy\<close> a request may hold.\<close>

definition release :: "nat \<Rightarrow> server \<Rightarrow> server" where
  "release i s =
     (if rq_busy (sv_requests s ! i)
      then s\<lparr>sv_activity := busy_drop (sv_now s) (sv_activity s),
             sv_requests := (sv_requests s)[i := (sv_requests s ! i)\<lparr>rq_busy := False\<rparr>]\<rparr>
      else s)"

definition set_stage :: "nat \<Rightarrow> stage \<Rightarrow> server \<Rightarrow> server" where
  "set_stage i g s = s\<lparr>sv_requests := (sv_requests s)[i := (sv_requests s ! i)\<lparr>rq_stage := g\<rparr>]\<rparr>"

definition arrive :: "string \<Rightarrow> meth \<Rightarrow> server \<Rightarrow> server" where
  "arrive p m s =
     (if is_mcp_path p
      then s\<lparr>sv_activity := activity_begin (sv_now s) (sv_activity s),
             sv_requests := sv_requests s @ [\<lparr>rq_path = p, rq_method = m, rq_stage = Running, rq_ended = False, rq_busy = True\<rparr>]\<rparr>
      else s\<lparr>sv_requests := sv_requests s @ [\<lparr>rq_path = p, rq_method = m, rq_stage = Running, rq_ended = False, rq_busy = False\<rparr>]\<rparr>)"

text \<open>
  The handler's answer: a POST hands its \<open>Busy\<close> to the response body (\<open>Held\<close>), any
  other method lets go of it. \<open>Held::poll_frame\<close> lets go at the end of the body or
  at an error.
\<close>

definition respond :: "nat \<Rightarrow> server \<Rightarrow> server" where
  "respond i s =
     (if rq_method (sv_requests s ! i) = Post then set_stage i Streaming s
      else set_stage i Streaming (release i s))"

definition poll_frame :: "nat \<Rightarrow> polled \<Rightarrow> server \<Rightarrow> server" where
  "poll_frame i p s =
     (if p = EndOfBody \<or> p = FrameError
      then (let s' = release i s in
            s'\<lparr>sv_requests := (sv_requests s')[i := (sv_requests s' ! i)\<lparr>rq_ended := True\<rparr>]\<rparr>)
      else s)"

definition drop_request :: "nat \<Rightarrow> server \<Rightarrow> server" where
  "drop_request i s = set_stage i Closed (release i s)"

fun http_step :: "server \<Rightarrow> http_event \<Rightarrow> server option" where
  "http_step s (Wait d) = Some (s\<lparr>sv_now := sv_now s + d\<rparr>)"
| "http_step s (Arrive p m) = Some (arrive p m s)"
| "http_step s (Respond i) =
     (if i < length (sv_requests s) \<and> rq_stage (sv_requests s ! i) = Running then Some (respond i s) else None)"
| "http_step s (PollFrame i p) =
     (if i < length (sv_requests s) \<and> rq_stage (sv_requests s ! i) = Streaming then Some (poll_frame i p s) else None)"
| "http_step s (DropRequest i) =
     (if i < length (sv_requests s) \<and> rq_stage (sv_requests s ! i) \<noteq> Closed then Some (drop_request i s) else None)"

inductive http_reach :: "nat \<Rightarrow> server \<Rightarrow> bool" for start :: nat where
  init: "http_reach start \<lparr>sv_now = start, sv_activity = activity_new start, sv_requests = []\<rparr>"
| step: "http_reach start s \<Longrightarrow> http_step s e = Some s' \<Longrightarrow> http_reach start s'"

text \<open>The count is the number of requests that hold a \<open>Busy\<close>.\<close>

definition busy_count :: "request list \<Rightarrow> nat" where
  "busy_count rs = length (filter rq_busy rs)"

definition request_ok :: "request \<Rightarrow> bool" where
  "request_ok r \<longleftrightarrow>
     (if is_mcp_path (rq_path r)
      then (case rq_stage r of
              Running \<Rightarrow> rq_busy r \<and> \<not> rq_ended r
            | Streaming \<Rightarrow> rq_busy r \<longleftrightarrow> rq_method r = Post \<and> \<not> rq_ended r
            | Closed \<Rightarrow> \<not> rq_busy r)
      else \<not> rq_busy r \<and> (rq_stage r = Running \<longrightarrow> \<not> rq_ended r))"

definition http_inv :: "server \<Rightarrow> bool" where
  "http_inv s \<longleftrightarrow>
     in_progress (sv_activity s) = busy_count (sv_requests s)
     \<and> last_change (sv_activity s) \<le> sv_now s
     \<and> list_all request_ok (sv_requests s)"

lemma busy_count_snoc [simp]: "busy_count (rs @ [r]) = busy_count rs + (if rq_busy r then 1 else 0)"
  by (simp add: busy_count_def)

lemma busy_count_update:
  "i < length rs \<Longrightarrow>
   busy_count (rs[i := r]) + (if rq_busy (rs ! i) then 1 else 0) = busy_count rs + (if rq_busy r then 1 else 0)"
proof (induction rs arbitrary: i)
  case (Cons x xs)
  then show ?case by (cases i) (auto simp: busy_count_def)
qed simp

lemma busy_count_same: "i < length rs \<Longrightarrow> rq_busy r = rq_busy (rs ! i) \<Longrightarrow> busy_count (rs[i := r]) = busy_count rs"
  using busy_count_update [of i rs r] by (simp split: if_splits)

lemma busy_count_release:
  "i < length rs \<Longrightarrow> rq_busy (rs ! i) \<Longrightarrow> \<not> rq_busy r \<Longrightarrow> busy_count (rs[i := r]) = busy_count rs - 1"
  using busy_count_update [of i rs r] by simp

text \<open>Replacing one request keeps the invariant when the count follows its \<open>Busy\<close>.\<close>

lemma http_inv_update:
  assumes inv: "http_inv s" and i: "i < length (sv_requests s)" and ok: "request_ok r"
    and busy: "rq_busy r \<Longrightarrow> rq_busy (sv_requests s ! i)"
    and a: "a = (if rq_busy (sv_requests s ! i) \<and> \<not> rq_busy r then busy_drop (sv_now s) (sv_activity s)
                 else sv_activity s)"
  shows "http_inv (s\<lparr>sv_activity := a, sv_requests := (sv_requests s)[i := r]\<rparr>)"
proof -
  have "in_progress a = busy_count ((sv_requests s)[i := r])"
    using inv i busy
    by (cases "rq_busy (sv_requests s ! i)"; cases "rq_busy r")
      (auto simp: a http_inv_def busy_drop_def busy_count_same busy_count_release)
  moreover have "last_change a \<le> sv_now s"
    using inv by (simp add: a http_inv_def busy_drop_def)
  moreover have "list_all request_ok ((sv_requests s)[i := r])"
    using inv ok by (auto simp: http_inv_def list_all_iff dest: set_update_subset_insert [THEN subsetD])
  ultimately show ?thesis by (simp add: http_inv_def)
qed

lemma respond_eq:
  "i < length (sv_requests s) \<Longrightarrow> respond i s =
   s\<lparr>sv_activity := (if rq_busy (sv_requests s ! i) \<and> rq_method (sv_requests s ! i) \<noteq> Post
                     then busy_drop (sv_now s) (sv_activity s) else sv_activity s),
     sv_requests := (sv_requests s)[i := (sv_requests s ! i)
        \<lparr>rq_stage := Streaming, rq_busy := rq_busy (sv_requests s ! i) \<and> rq_method (sv_requests s ! i) = Post\<rparr>]\<rparr>"
  by (cases s; cases "sv_requests s ! i") (auto simp: respond_def set_stage_def release_def)

lemma poll_frame_eq:
  "i < length (sv_requests s) \<Longrightarrow> p = EndOfBody \<or> p = FrameError \<Longrightarrow> poll_frame i p s =
   s\<lparr>sv_activity := (if rq_busy (sv_requests s ! i) then busy_drop (sv_now s) (sv_activity s) else sv_activity s),
     sv_requests := (sv_requests s)[i := (sv_requests s ! i)\<lparr>rq_ended := True, rq_busy := False\<rparr>]\<rparr>"
  by (cases s; cases "sv_requests s ! i") (auto simp: poll_frame_def release_def Let_def)

lemma drop_request_eq:
  "i < length (sv_requests s) \<Longrightarrow> drop_request i s =
   s\<lparr>sv_activity := (if rq_busy (sv_requests s ! i) then busy_drop (sv_now s) (sv_activity s) else sv_activity s),
     sv_requests := (sv_requests s)[i := (sv_requests s ! i)\<lparr>rq_stage := Closed, rq_busy := False\<rparr>]\<rparr>"
  by (cases s; cases "sv_requests s ! i") (auto simp: drop_request_def set_stage_def release_def)

lemma request_ok_nth: "http_inv s \<Longrightarrow> i < length (sv_requests s) \<Longrightarrow> request_ok (sv_requests s ! i)"
  by (simp add: http_inv_def list_all_length)

lemma http_inv_step:
  assumes inv: "http_inv s" and step: "http_step s e = Some s'"
  shows "http_inv s'"
proof (cases e)
  case (Wait d)
  with inv step show ?thesis by (auto simp: http_inv_def)
next
  case (Arrive p m)
  with inv step show ?thesis
    by (auto simp: http_inv_def arrive_def activity_begin_def request_ok_def)
next
  case (Respond i)
  with step have i: "i < length (sv_requests s)" "rq_stage (sv_requests s ! i) = Running"
    and s': "s' = respond i s" by (auto split: if_splits)
  show ?thesis unfolding s' respond_eq [OF i(1)]
    using request_ok_nth [OF inv i(1)] i(2)
    by (intro http_inv_update [OF inv i(1)]) (auto simp: request_ok_def split: if_splits)
next
  case (PollFrame i p)
  with step have i: "i < length (sv_requests s)" "rq_stage (sv_requests s ! i) = Streaming"
    and s': "s' = poll_frame i p s" by (auto split: if_splits)
  show ?thesis
  proof (cases "p = EndOfBody \<or> p = FrameError")
    case True
    show ?thesis unfolding s' poll_frame_eq [OF i(1) True]
      using i(2) by (intro http_inv_update [OF inv i(1)]) (auto simp: request_ok_def)
  next
    case False
    with inv s' show ?thesis by (simp add: poll_frame_def)
  qed
next
  case (DropRequest i)
  with step have i: "i < length (sv_requests s)" and s': "s' = drop_request i s"
    by (auto split: if_splits)
  show ?thesis unfolding s' drop_request_eq [OF i]
    by (intro http_inv_update [OF inv i]) (auto simp: request_ok_def)
qed

lemma http_inv_start: "http_inv \<lparr>sv_now = start, sv_activity = activity_new start, sv_requests = []\<rparr>"
  by (simp add: http_inv_def activity_new_def busy_count_def)

lemma http_inv_reach: "http_reach start s \<Longrightarrow> http_inv s"
  by (induction rule: http_reach.induct) (simp_all only: http_inv_start http_inv_step)

text \<open>C29: In every state the server can reach, the idle timer reads a duration only when no
  request to \<open>/mcp\<close> is being handled and no reply to a POST is still being sent; so the idle
  exit cuts no reply short. Conversely the timer is blind only while such a request exists:
  every request that holds the count up is one to \<open>/mcp\<close> whose handler runs or whose POST
  reply streams, so requests to \<open>/health\<close>, long-lived GET streams and requests that were
  dropped never keep the server alive.\<close>

theorem idle_only_when_unused:
  assumes "http_reach start s"
  shows "(idle_for (sv_now s) (sv_activity s) \<noteq> None) =
     (\<forall>r\<in>set (sv_requests s).
        \<not> (is_mcp_path (rq_path r)
           \<and> (rq_stage r = Running \<or> rq_stage r = Streaming \<and> rq_method r = Post \<and> \<not> rq_ended r)))"
proof -
  have inv: "in_progress (sv_activity s) = busy_count (sv_requests s)" "list_all request_ok (sv_requests s)"
    using http_inv_reach [OF assms] by (simp_all add: http_inv_def)
  have busy: "rq_busy r \<longleftrightarrow> is_mcp_path (rq_path r)
       \<and> (rq_stage r = Running \<or> rq_stage r = Streaming \<and> rq_method r = Post \<and> \<not> rq_ended r)"
    if "request_ok r" for r
    using that by (cases "rq_stage r") (auto simp: request_ok_def split: if_splits)
  have "(idle_for (sv_now s) (sv_activity s) \<noteq> None) = (\<forall>r\<in>set (sv_requests s). \<not> rq_busy r)"
    by (auto simp: idle_for_def inv(1) busy_count_def filter_empty_conv)
  with inv(2) busy show ?thesis by (simp add: list_all_iff)
qed

lemma idle_only_when_unused_witness:
  "idle_for 10 (activity_begin 10 (activity_new 0)) = None"
proof -
  have "http_reach 0 (arrive ''/mcp'' Post (\<lparr>sv_now = 10, sv_activity = activity_new 0, sv_requests = []\<rparr>))"
    by (rule http_reach.step [where e = "Arrive ''/mcp'' Post"],
        rule http_reach.step [where e = "Wait 10", OF http_reach.init]) simp_all
  from idle_only_when_unused [OF this] show ?thesis
    by (simp add: arrive_def is_mcp_path_def)
qed

subsection \<open>The idle exit\<close>

text \<open>
  \<open>idle_expired\<close> reads the timer, sleeps for what is missing and reads again; \<open>acts t\<close>
  is what it reads at time \<open>t\<close>. It never ends on a busy server, so it runs on fuel, one
  unit per reading.
\<close>

fun idle_expired :: "(nat \<Rightarrow> activity) \<Rightarrow> nat \<Rightarrow> nat \<Rightarrow> nat \<Rightarrow> nat option" where
  "idle_expired acts ttl 0 now = None"
| "idle_expired acts ttl (Suc k) now =
     (case idle_for now (acts now) of
        Some idle \<Rightarrow> if ttl \<le> idle then Some now else idle_expired acts ttl k (now + (ttl - idle))
      | None \<Rightarrow> idle_expired acts ttl k (now + ttl))"

lemma idle_expired_sound:
  "idle_expired acts ttl k now = Some t \<Longrightarrow>
   now \<le> t \<and> in_progress (acts t) = 0 \<and> last_change (acts t) + ttl \<le> t \<or> ttl = 0"
proof (induction k arbitrary: now)
  case (Suc k)
  show ?case
  proof (cases "idle_for now (acts now)")
    case None
    with Suc.prems have "idle_expired acts ttl k (now + ttl) = Some t" by simp
    from Suc.IH [OF this] show ?thesis by linarith
  next
    case (Some idle)
    then have idle: "in_progress (acts now) = 0" "idle = now - last_change (acts now)"
      by (auto simp: idle_for_def split: if_splits)
    show ?thesis
    proof (cases "ttl \<le> idle")
      case True
      with Suc.prems Some idle show ?thesis by auto
    next
      case False
      with Suc.prems Some have "idle_expired acts ttl k (now + (ttl - idle)) = Some t" by simp
      from Suc.IH [OF this] show ?thesis by linarith
    qed
  qed
qed simp

lemma idle_expired_after:
  assumes quiet: "\<And>t. T \<le> t \<Longrightarrow> acts t = \<lparr>in_progress = 0, last_change = T\<rparr>"
    and "T \<le> now" and "now \<le> T + ttl"
  shows "idle_expired acts ttl (Suc (Suc k)) now = Some (T + ttl)"
proof -
  have last: "idle_expired acts ttl (Suc k) (T + ttl) = Some (T + ttl)"
    using quiet [of "T + ttl"] by (simp add: idle_for_def)
  have "idle_for now (acts now) = Some (now - T)"
    using quiet [OF assms(2)] by (simp add: idle_for_def)
  moreover have "ttl \<le> now - T \<Longrightarrow> now = T + ttl" using assms(2,3) by linarith
  moreover have "now + (ttl - (now - T)) = T + ttl" using assms(2,3) by linarith
  ultimately show ?thesis
    by (subst idle_expired.simps(2)) (simp add: last add.commute [of ttl T] del: idle_expired.simps)
qed

text \<open>C30: When the last request of the server's life ends at time \<open>T\<close>, the idle exit returns:
  \<open>T - start + 2\<close> readings are enough, it returns at exactly \<open>T + ttl\<close> unless the server had
  already been idle for \<open>ttl\<close> before \<open>T\<close>, and when it returns nothing is in progress and the
  last request is at least \<open>ttl\<close> in the past.\<close>

theorem idle_exit_returns:
  assumes "0 < ttl" and "start \<le> T"
    and past: "\<And>t. t < T \<Longrightarrow> last_change (acts t) \<le> t"
    and quiet: "\<And>t. T \<le> t \<Longrightarrow> acts t = \<lparr>in_progress = 0, last_change = T\<rparr>"
    and fuel: "T - start + 2 \<le> fuel"
  shows "\<exists>t. idle_expired acts ttl fuel start = Some t \<and> (t = T + ttl \<or> t < T)
    \<and> in_progress (acts t) = 0 \<and> last_change (acts t) + ttl \<le> t"
proof -
  have "\<exists>t. idle_expired acts ttl fuel now = Some t \<and> (t = T + ttl \<or> t < T)"
    if "now \<le> T + ttl" and "T - now + 2 \<le> fuel" for now
    using that
  proof (induction fuel arbitrary: now)
    case (Suc k)
    show ?case
    proof (cases "T \<le> now")
      case True
      from Suc.prems(2) obtain j where "Suc k = Suc (Suc j)" by (cases k) auto
      with idle_expired_after [of T acts now ttl j] True Suc.prems(1) quiet show ?thesis by simp
    next
      case False
      then have lc: "last_change (acts now) \<le> now" using past by simp
      show ?thesis
      proof (cases "idle_for now (acts now)")
        case None
        with Suc.IH [of "now + ttl"] Suc.prems False assms(1) show ?thesis by simp
      next
        case (Some idle)
        then have idle: "idle = now - last_change (acts now)"
          by (auto simp: idle_for_def split: if_splits)
        show ?thesis
        proof (cases "ttl \<le> idle")
          case True
          with Some False show ?thesis by simp
        next
          case False': False
          have "now + (ttl - idle) \<le> T + ttl" "T - (now + (ttl - idle)) + 2 \<le> k"
            using Suc.prems False False' by linarith+
          with Suc.IH Some False' show ?thesis by simp
        qed
      qed
    qed
  qed simp
  from this [of start] assms(2) fuel
  obtain t where "idle_expired acts ttl fuel start = Some t" "t = T + ttl \<or> t < T" by auto
  with idle_expired_sound [of acts ttl fuel start t] assms(1) show ?thesis by auto
qed

lemma idle_exit_returns_witness:
  "\<exists>t. idle_expired (\<lambda>t. if t < 5 then \<lparr>in_progress = 1, last_change = 0\<rparr>
                            else \<lparr>in_progress = 0, last_change = 5\<rparr>) 3 7 0 = Some t
     \<and> (t = 5 + 3 \<or> t < 5)"
  using idle_exit_returns [of 3 0 5 "\<lambda>t. if t < 5 then \<lparr>in_progress = 1, last_change = 0\<rparr>
            else \<lparr>in_progress = 0, last_change = 5\<rparr>" 7]
  by auto

subsection \<open>Host names\<close>

definition bare_host :: "string \<Rightarrow> string" where
  "bare_host host =
     (case strip_prefix ''['' host of
        Some h \<Rightarrow> (case strip_suffix '']'' h of Some b \<Rightarrow> b | None \<Rightarrow> host)
      | None \<Rightarrow> host)"

definition authority_host :: "(string \<Rightarrow> string option) \<Rightarrow> string \<Rightarrow> string" where
  "authority_host ipv6 host =
     (case ipv6 (bare_host host) of Some ip \<Rightarrow> ''['' @ ip @ '']'' | None \<Rightarrow> bare_host host)"

definition host_port :: "(string \<Rightarrow> string option) \<Rightarrow> string \<Rightarrow> nat \<Rightarrow> string" where
  "host_port ipv6 host port = authority_host ipv6 host @ '':'' @ dec port"

definition rsplit_once :: "char \<Rightarrow> string \<Rightarrow> (string \<times> string) option" where
  "rsplit_once c s = (case split_once c (rev s) of None \<Rightarrow> None | Some (a, b) \<Rightarrow> Some (rev b, rev a))"

definition host_only :: "string \<Rightarrow> string" where
  "host_only v =
     (case rsplit_once (CHR '':'') v of
        Some (host, port) \<Rightarrow> if port \<noteq> [] \<and> list_all is_ascii_digit port then host else v
      | None \<Rightarrow> v)"

text \<open>
  What a request says of the host it is for: its \<open>Host\<close> header, \<open>Some None\<close> when the
  header is not text, and the authority of its URI.
\<close>

record addressed =
  ad_header :: "string option option"
  ad_authority :: "string option"

definition requested_host :: "addressed \<Rightarrow> string option" where
  "requested_host r =
     (case ad_header r of
        Some None \<Rightarrow> None
      | Some (Some v) \<Rightarrow>
          (case ad_authority r of
             Some a \<Rightarrow> if host_only v \<noteq> a then None else Some (host_only v)
           | None \<Rightarrow> Some (host_only v))
      | None \<Rightarrow> ad_authority r)"

definition host_allowed :: "string list \<Rightarrow> addressed \<Rightarrow> bool" where
  "host_allowed allowed r =
     (case requested_host r of Some host \<Rightarrow> list_ex (\<lambda>a. a = host) allowed | None \<Rightarrow> False)"

text \<open>\<open>None\<close> is the answer 403.\<close>

definition enforce_host_allowlist :: "string list \<Rightarrow> (addressed \<Rightarrow> 'r) \<Rightarrow> addressed \<Rightarrow> 'r option" where
  "enforce_host_allowlist allowed next_layer r =
     (if host_allowed allowed r then Some (next_layer r) else None)"

text \<open>The list \<open>run_http\<close> builds, and the origins \<open>http_server_config\<close> derives from it.\<close>

definition http_allowed_hosts :: "(string \<Rightarrow> string option) \<Rightarrow> string \<Rightarrow> string list" where
  "http_allowed_hosts ipv6 host =
     (let hosts = [''localhost'', ''127.0.0.1'']; entry = authority_host ipv6 host in
      if entry \<in> set hosts then hosts else hosts @ [entry])"

definition allowed_origins :: "string list \<Rightarrow> nat \<Rightarrow> string list" where
  "allowed_origins hosts port =
     concat (map (\<lambda>h. [''http://'' @ h @ '':'' @ dec port, ''https://'' @ h @ '':'' @ dec port]) hosts)"

lemma split_once_app: "c \<notin> set a \<Longrightarrow> split_once c (a @ c # b) = Some (a, b)"
  by (induction a) auto

lemma rsplit_once_last: "c \<notin> set b \<Longrightarrow> rsplit_once c (a @ c # b) = Some (a, b)"
proof -
  assume "c \<notin> set b"
  then have "split_once c (rev b @ c # rev a) = Some (rev b, rev a)"
    by (intro split_once_app) simp
  then show ?thesis by (simp add: rsplit_once_def)
qed

lemma dec_no_colon: "CHR '':'' \<notin> set (dec n)"
  using dec_digits [of n] by (auto simp: list_all_iff is_ascii_digit_def)

lemma host_only_host_port: "host_only (host_port ipv6 host port) = authority_host ipv6 host"
  using rsplit_once_last [OF dec_no_colon, of "authority_host ipv6 host"] dec_digits [of port]
  by (simp add: host_only_def host_port_def)

lemma bare_host_brackets: "bare_host (''['' @ h @ '']'') = h"
  using strip_prefix_Some [of "''[''" "''['' @ h @ '']''" "h @ '']''"]
    strip_suffix_Some [of "'']''" "h @ '']''" h]
  by (simp add: bare_host_def)

lemma host_allowed_iff: "host_allowed allowed r = (\<exists>h\<in>set allowed. requested_host r = Some h)"
  by (auto simp: host_allowed_def list_ex_iff split: option.splits)

lemma set_http_allowed_hosts:
  "set (http_allowed_hosts ipv6 host) = {''localhost'', ''127.0.0.1'', authority_host ipv6 host}"
  by (auto simp: http_allowed_hosts_def Let_def)


lemma host_examples:
  "host_only ''[::1]'' = ''[::1]''" "host_only ''[::1]:8181'' = ''[::1]''"
  "host_only ''localhost:'' = ''localhost:''" "host_only ''evil.example:80'' = ''evil.example''"
  "bare_host ''[::1]'' = ''::1''" "bare_host ''[::1'' = ''[::1''"
  by (simp_all add: host_only_def rsplit_once_def is_ascii_digit_def bare_host_def strip_prefix_def
      strip_suffix_def starts_with_def ends_with_def)

end
