(* ===== verification/Daemon.thy ===== *)
theory Daemon
  imports McpHttp Prelude
begin

text \<open>
  The MCP daemon's pidfile and the commands that act on it,
  \<open>crates/rqmd-cli/src/daemon.rs\<close> (on unix, start times as on Linux). What the
  operating system answers is a parameter, indexed by the number of the look: \<open>kill(pid, 0)\<close>,
  the start time of a process, a request to \<open>/health/daemon\<close>, the clocks (\<open>Instant\<close> in
  milliseconds, \<open>SystemTime\<close> in seconds). The state holds
  the pidfile, the signals sent so far with the look at which each was sent, and the
  number of looks. The pidfile's JSON (serde) is a parameter too.
\<close>

subsection \<open>Records and the operating system\<close>

record pid_record =
  dr_pid :: nat
  dr_host :: string
  dr_port :: nat
  dr_index_dir :: string
  dr_started_at :: string
  dr_started_at_unix :: nat
  dr_process_start_unix :: "nat option"

record health =
  hl_pid :: nat
  hl_index_dir :: string

datatype not_ours =
    Gone
  | NoRecordedStart
  | UnreadableStart
  | DifferentStart nat nat

datatype identity =
    Confirmed health
  | Stale
  | AliveUnresponsive
  | AliveUnverified not_ours
  | Foreign health

text \<open>The result of \<open>kill(pid, 0)\<close>: 0, the error ESRCH, another error.\<close>

datatype probe = KillOk | Esrch | OtherErrno

datatype sig = Sigterm | Sigkill

record os =
  os_self :: nat
  os_kill0 :: "nat \<Rightarrow> nat \<Rightarrow> probe"
  os_start :: "nat \<Rightarrow> nat \<Rightarrow> nat option"
  os_health :: "nat \<Rightarrow> string \<Rightarrow> nat \<Rightarrow> health option"
  os_now :: "nat \<Rightarrow> nat"
  os_unix :: "nat \<Rightarrow> nat option"
  os_send_ok :: "nat \<Rightarrow> sig \<Rightarrow> nat \<Rightarrow> bool"
  os_ipv6 :: "string \<Rightarrow> string option"
  os_of_json :: "string \<Rightarrow> pid_record option"
  os_to_json :: "pid_record \<Rightarrow> string"

record dstate =
  ds_looks :: nat
  ds_pidfile :: "string option"
  ds_signals :: "(nat \<times> sig \<times> nat) list"
  ds_printed :: "string list"

definition look :: "dstate \<Rightarrow> dstate" where
  "look s = s\<lparr>ds_looks := ds_looks s + 1\<rparr>"

definition say :: "string \<Rightarrow> dstate \<Rightarrow> dstate" where
  "say l s = s\<lparr>ds_printed := ds_printed s @ [l]\<rparr>"

subsection \<open>The pidfile\<close>

definition is_loopback :: "string \<Rightarrow> bool" where
  "is_loopback host \<longleftrightarrow> bare_host host \<in> {''127.0.0.1'', ''localhost'', ''::1''}"

definition plausible_pid :: "os \<Rightarrow> nat \<Rightarrow> bool" where
  "plausible_pid os pid \<longleftrightarrow> 1 < pid \<and> pid \<le> 2 ^ 31 - 1 \<and> pid \<noteq> os_self os"

definition read_pidfile :: "os \<Rightarrow> dstate \<Rightarrow> pid_record option" where
  "read_pidfile os s =
     (case ds_pidfile s of
        None \<Rightarrow> None
      | Some data \<Rightarrow>
          (case os_of_json os data of
             None \<Rightarrow> None
           | Some r \<Rightarrow> if plausible_pid os (dr_pid r) then Some r else None))"

definition remove_pidfile :: "dstate \<Rightarrow> dstate" where
  "remove_pidfile s = s\<lparr>ds_pidfile := None\<rparr>"

text \<open>\<open>rfc\<close> is the text of the present time; the write itself may fail.\<close>

definition write_pidfile ::
  "os \<Rightarrow> bool \<Rightarrow> string \<Rightarrow> nat \<Rightarrow> string \<Rightarrow> string \<Rightarrow> nat \<Rightarrow> dstate \<Rightarrow> dstate \<times> (unit + unit)" where
  "write_pidfile os write_ok rfc pid dir host port s =
     (let record = \<lparr>dr_pid = pid, dr_host = host, dr_port = port, dr_index_dir = dir, dr_started_at = rfc,
                    dr_started_at_unix = (case os_unix os (ds_looks s) of None \<Rightarrow> 0 | Some secs \<Rightarrow> secs),
                    dr_process_start_unix = os_start os (ds_looks s) pid\<rparr> in
      if write_ok then ((look s)\<lparr>ds_pidfile := Some (os_to_json os record)\<rparr>, Inr ()) else (look s, Inl ()))"

subsection \<open>Whose process it is\<close>

definition START_TIME_SLACK_SECS :: nat where
  "START_TIME_SLACK_SECS = 2"

definition abs_diff :: "nat \<Rightarrow> nat \<Rightarrow> nat" where
  "abs_diff a b = (if a < b then b - a else a - b)"

definition pid_alive :: "os \<Rightarrow> nat \<Rightarrow> nat \<Rightarrow> bool" where
  "pid_alive os n pid \<longleftrightarrow> os_kill0 os n pid \<noteq> Esrch"

definition check_recorded_process :: "os \<Rightarrow> nat \<Rightarrow> pid_record \<Rightarrow> not_ours option" where
  "check_recorded_process os n r =
     (if \<not> pid_alive os n (dr_pid r) then Some Gone
      else case dr_process_start_unix r of
             None \<Rightarrow> Some NoRecordedStart
           | Some recorded \<Rightarrow>
               (case os_start os n (dr_pid r) of
                  None \<Rightarrow> Some UnreadableStart
                | Some actual \<Rightarrow>
                    if START_TIME_SLACK_SECS < abs_diff actual recorded
                    then Some (DifferentStart actual recorded) else None))"

definition identity_without_health :: "os \<Rightarrow> nat \<Rightarrow> pid_record \<Rightarrow> identity" where
  "identity_without_health os n r =
     (case check_recorded_process os n r of
        None \<Rightarrow> AliveUnresponsive
      | Some NoRecordedStart \<Rightarrow> AliveUnverified NoRecordedStart
      | Some UnreadableStart \<Rightarrow> AliveUnverified UnreadableStart
      | Some Gone \<Rightarrow> Stale
      | Some (DifferentStart a b) \<Rightarrow> Stale)"

text \<open>Three looks: the health request, then the checks of the process.\<close>

definition verify_identity :: "os \<Rightarrow> nat \<Rightarrow> pid_record \<Rightarrow> identity" where
  "verify_identity os n r =
     (case os_health os n (dr_host r) (dr_port r) of
        Some health \<Rightarrow>
          if hl_pid health = dr_pid r
          then (if is_loopback (dr_host r) \<or> check_recorded_process os (n + 1) r = None
                then Confirmed health else identity_without_health os (n + 2) r)
          else Foreign health
      | None \<Rightarrow> identity_without_health os (n + 1) r)"

definition not_ours_display :: "not_ours \<Rightarrow> string" where
  "not_ours_display w =
     (case w of
        Gone \<Rightarrow> ''the process is no longer running''
      | NoRecordedStart \<Rightarrow> ''the pidfile has no process start time (an older rqmd wrote it, or this platform does not report one), so the pid cannot be told apart from a recycled one''
      | UnreadableStart \<Rightarrow> ''the operating system would not report when the process started''
      | DifferentStart actual recorded \<Rightarrow>
          ''it started at unix time '' @ dec actual @ '' but the pidfile recorded a daemon that started at ''
            @ dec recorded @ '', so the pid was reused by another process'')"

subsection \<open>Waiting\<close>

text \<open>
  \<open>wait_for_gone\<close> polls until \<open>kill(pid, 0)\<close> fails or the deadline passes, one unit of fuel
  a poll; the clock is read at the same look as the process.
\<close>

fun wait_loop :: "os \<Rightarrow> nat \<Rightarrow> nat \<Rightarrow> nat \<Rightarrow> dstate \<Rightarrow> (dstate \<times> bool) option" where
  "wait_loop os pid deadline 0 s = None"
| "wait_loop os pid deadline (Suc k) s =
     (if os_kill0 os (ds_looks s) pid \<noteq> KillOk then Some (look s, True)
      else if deadline \<le> os_now os (ds_looks s) then Some (look s, False)
      else wait_loop os pid deadline k (look s))"

definition wait_for_gone :: "os \<Rightarrow> nat \<Rightarrow> nat \<Rightarrow> nat \<Rightarrow> dstate \<Rightarrow> (dstate \<times> bool) option" where
  "wait_for_gone os fuel pid timeout s = wait_loop os pid (os_now os (ds_looks s) + timeout) fuel s"

datatype health_error = OtherPid nat nat | NoResponse

fun health_loop :: "os \<Rightarrow> string \<Rightarrow> nat \<Rightarrow> nat \<Rightarrow> nat \<Rightarrow> nat \<Rightarrow> nat \<Rightarrow> (health_error + unit) option" where
  "health_loop os host port expected deadline 0 n = None"
| "health_loop os host port expected deadline (Suc k) n =
     (case os_health os n host port of
        Some h \<Rightarrow> Some (if hl_pid h = expected then Inr () else Inl (OtherPid (hl_pid h) expected))
      | None \<Rightarrow> if deadline \<le> os_now os n then Some (Inl NoResponse)
                else health_loop os host port expected deadline k (n + 1))"

definition wait_for_health :: "os \<Rightarrow> nat \<Rightarrow> string \<Rightarrow> nat \<Rightarrow> nat \<Rightarrow> nat \<Rightarrow> nat \<Rightarrow> (health_error + unit) option" where
  "wait_for_health os fuel host port expected timeout n =
     health_loop os host port expected (os_now os n + timeout) fuel n"

subsection \<open>Stop\<close>

datatype stop_error =
    NoPidfile
  | StaleOther not_ours
  | StaleGone
  | RefusedUnverified not_ours
  | RefusedForeign nat
  | SignalFailed sig
  | StillRunning
  | ForceRefused not_ours
  | SurvivedKill

datatype stopped = Stopped | KilledAfterGrace

definition send :: "os \<Rightarrow> sig \<Rightarrow> nat \<Rightarrow> dstate \<Rightarrow> dstate \<times> bool" where
  "send os sg pid s =
     ((look s)\<lparr>ds_signals := ds_signals s @ [(ds_looks s, sg, pid)]\<rparr>, os_send_ok os (ds_looks s) sg pid)"

text \<open>From the second wait on: the SIGKILL of \<open>--force\<close>.\<close>

definition force_kill :: "os \<Rightarrow> nat \<Rightarrow> nat \<Rightarrow> pid_record \<Rightarrow> dstate \<Rightarrow> (dstate \<times> (stop_error + stopped)) option" where
  "force_kill os fuel grace r s =
     (case check_recorded_process os (ds_looks s) r of
        Some Gone \<Rightarrow> Some (remove_pidfile (look s), Inr Stopped)
      | Some why \<Rightarrow> Some (look s, Inl (ForceRefused why))
      | None \<Rightarrow>
          (case send os Sigkill (dr_pid r) (look s) of
             (s1, ok) \<Rightarrow>
               if \<not> ok then Some (s1, Inl (SignalFailed Sigkill))
               else (case wait_for_gone os fuel (dr_pid r) grace s1 of
                       None \<Rightarrow> None
                     | Some (s2, gone) \<Rightarrow>
                         if gone then Some (remove_pidfile s2, Inr KilledAfterGrace)
                         else Some (s2, Inl SurvivedKill))))"

definition terminate_daemon ::
  "os \<Rightarrow> nat \<Rightarrow> bool \<Rightarrow> nat \<Rightarrow> pid_record \<Rightarrow> dstate \<Rightarrow> (dstate \<times> (stop_error + stopped)) option" where
  "terminate_daemon os fuel force grace r s =
     (case send os Sigterm (dr_pid r) s of
        (s1, ok) \<Rightarrow>
          if \<not> ok then Some (s1, Inl (SignalFailed Sigterm))
          else (case wait_for_gone os fuel (dr_pid r) grace s1 of
                  None \<Rightarrow> None
                | Some (s2, gone) \<Rightarrow>
                    if gone then Some (remove_pidfile s2, Inr Stopped)
                    else if \<not> force then Some (s2, Inl StillRunning)
                    else force_kill os fuel grace r s2))"

definition stop_daemon_with ::
  "os \<Rightarrow> nat \<Rightarrow> bool \<Rightarrow> nat \<Rightarrow> dstate \<Rightarrow> (dstate \<times> (stop_error + stopped)) option" where
  "stop_daemon_with os fuel force grace s =
     (case read_pidfile os s of
        None \<Rightarrow> Some (s, Inl NoPidfile)
      | Some r \<Rightarrow>
          (let s1 = look (look (look s)) in
           case verify_identity os (ds_looks s) r of
             Stale \<Rightarrow>
               (let s2 = look (remove_pidfile s1) in
                case check_recorded_process os (ds_looks s1) r of
                  Some (DifferentStart a b) \<Rightarrow> Some (s2, Inl (StaleOther (DifferentStart a b)))
                | _ \<Rightarrow> Some (s2, Inl StaleGone))
           | AliveUnverified why \<Rightarrow> Some (s1, Inl (RefusedUnverified why))
           | Foreign h \<Rightarrow> Some (s1, Inl (RefusedForeign (hl_pid h)))
           | _ \<Rightarrow> terminate_daemon os fuel force grace r s1))"

definition STOP_GRACE :: nat where
  "STOP_GRACE = 5000"

definition stop_daemon :: "os \<Rightarrow> nat \<Rightarrow> bool \<Rightarrow> dstate \<Rightarrow> (dstate \<times> (stop_error + stopped)) option" where
  "stop_daemon os fuel force s = stop_daemon_with os fuel force STOP_GRACE s"

subsection \<open>Status\<close>

definition format_duration :: "nat \<Rightarrow> string" where
  "format_duration secs =
     (let h = secs div 3600; m = (secs mod 3600) div 60; s = secs mod 60 in
      if 0 < h then dec h @ ''h'' @ dec m @ ''m'' @ dec s @ ''s''
      else if 0 < m then dec m @ ''m'' @ dec s @ ''s''
      else dec s @ ''s'')"

abbreviation dash :: string where
  "dash \<equiv> '' '' @ [CHR 0xE2, CHR 0x80, CHR 0x94] @ '' ''"

definition status_lines :: "os \<Rightarrow> nat \<Rightarrow> string \<Rightarrow> pid_record \<Rightarrow> identity \<Rightarrow> string list" where
  "status_lines os n pidfile r ident =
     (let address = host_port (os_ipv6 os) (dr_host r) (dr_port r); pid = dec (dr_pid r) in
      case ident of
        Confirmed health \<Rightarrow>
          (let now = (case os_unix os n of None \<Rightarrow> dr_started_at_unix r | Some secs \<Rightarrow> secs) in
           [''rqmd MCP daemon: running'',
            ''  pid:        '' @ pid,
            ''  address:    http://'' @ address,
            ''  index_dir:  '' @ hl_index_dir health,
            ''  started_at: '' @ dr_started_at r,
            ''  uptime:     '' @ format_duration (now - dr_started_at_unix r)])
      | AliveUnresponsive \<Rightarrow>
          [''rqmd MCP daemon: pid '' @ pid @ '' is running but not answering on http://'' @ address @ dash
             @ ''pidfile kept; `rqmd mcp stop` stops it, `rqmd mcp stop --force` kills it if it will not exit'']
      | AliveUnverified why \<Rightarrow>
          [''rqmd MCP daemon: pid '' @ pid @ '' is running but not answering on http://'' @ address @ '', and ''
             @ not_ours_display why @ dash
             @ ''pidfile kept, nothing signalled; if it is the daemon, stop it yourself, and if not, delete '' @ pidfile]
      | Stale \<Rightarrow> [''rqmd MCP daemon: not running (stale pidfile removed)'']
      | Foreign health \<Rightarrow>
          [''rqmd MCP daemon: pidfile present but port '' @ dec (dr_port r) @ '' is now held by a different process (pid ''
             @ dec (hl_pid health) @ '')'' @ dash @ ''recorded pid '' @ pid @ '' is gone''])"

definition status_daemon :: "os \<Rightarrow> string \<Rightarrow> dstate \<Rightarrow> dstate" where
  "status_daemon os pidfile s =
     (case read_pidfile os s of
        None \<Rightarrow> say ''rqmd MCP daemon: not running (no pidfile)'' s
      | Some r \<Rightarrow>
          (let ident = verify_identity os (ds_looks s) r;
               s1 = look (look (look s));
               s2 = (if ident = Stale then remove_pidfile s1 else s1) in
           (look s2)\<lparr>ds_printed := ds_printed s2 @ status_lines os (ds_looks s2) pidfile r ident\<rparr>))"

definition tail_log :: "string option \<Rightarrow> nat \<Rightarrow> string" where
  "tail_log log n =
     (case log of
        None \<Rightarrow> ''(no log file)''
      | Some content \<Rightarrow>
          (let ls = lines content in join [NL] (drop (length ls - n) ls)))"

subsection \<open>Start times on Linux\<close>

fun rfind_char :: "char \<Rightarrow> string \<Rightarrow> nat option" where
  "rfind_char c [] = None"
| "rfind_char c (x # xs) =
     (case rfind_char c xs of Some i \<Rightarrow> Some (i + 1) | None \<Rightarrow> if x = c then Some 0 else None)"

definition nth_opt :: "'a list \<Rightarrow> nat \<Rightarrow> 'a option" where
  "nth_opt xs i = (if i < length xs then Some (xs ! i) else None)"

definition parse_stat_start_ticks :: "string \<Rightarrow> nat option" where
  "parse_stat_start_ticks stat =
     (case rfind_char (CHR '')'') stat of
        None \<Rightarrow> None
      | Some i \<Rightarrow>
          (case nth_opt (split_ws (drop (i + 1) stat)) 19 of
             None \<Rightarrow> None
           | Some field \<Rightarrow> parse_uint 64 field))"

fun find_map :: "('a \<Rightarrow> 'b option) \<Rightarrow> 'a list \<Rightarrow> 'b option" where
  "find_map f [] = None"
| "find_map f (x # xs) = (case f x of Some y \<Rightarrow> Some y | None \<Rightarrow> find_map f xs)"

definition btime_of :: "string \<Rightarrow> nat option" where
  "btime_of proc_stat =
     find_map (\<lambda>l. case strip_prefix ''btime '' l of None \<Rightarrow> None | Some r \<Rightarrow> parse_uint 64 (trim r)) (lines proc_stat)"

text \<open>\<open>None\<close> for a file that cannot be read; the sum is at u64.\<close>

definition process_start_time :: "string option \<Rightarrow> string option \<Rightarrow> int \<Rightarrow> nat option" where
  "process_start_time pid_stat proc_stat hz =
     (case pid_stat of
        None \<Rightarrow> None
      | Some stat \<Rightarrow>
          (case parse_stat_start_ticks stat of
             None \<Rightarrow> None
           | Some ticks \<Rightarrow>
               (case proc_stat of
                  None \<Rightarrow> None
                | Some ps \<Rightarrow>
                    (case btime_of ps of
                       None \<Rightarrow> None
                     | Some btime \<Rightarrow> if 0 < hz then Some ((btime + ticks div nat hz) mod 2 ^ 64) else None))))"

subsection \<open>The stop command signals nothing but the daemon\<close>

text \<open>What shows that the recorded pid is the daemon: its own answer on loopback, or the
  recorded start time.\<close>

definition shown_at :: "os \<Rightarrow> pid_record \<Rightarrow> nat \<Rightarrow> bool" where
  "shown_at os r n \<longleftrightarrow>
     (is_loopback (dr_host r) \<and> (\<exists>h. os_health os n (dr_host r) (dr_port r) = Some h \<and> hl_pid h = dr_pid r))
     \<or> check_recorded_process os n r = None"

lemma identity_without_health_cases:
  "identity_without_health os n r = AliveUnresponsive \<longleftrightarrow> check_recorded_process os n r = None"
  "identity_without_health os n r \<noteq> Confirmed h" "identity_without_health os n r \<noteq> Foreign h"
  by (auto simp: identity_without_health_def split: option.splits not_ours.splits)

lemma verify_identity_shown:
  assumes "verify_identity os n r = Confirmed h \<or> verify_identity os n r = AliveUnresponsive"
  shows "\<exists>m\<in>{n, n + 1, n + 2}. shown_at os r m"
  using assms
  by (auto simp: verify_identity_def shown_at_def identity_without_health_cases
      split: option.splits if_splits)

lemma look_simps [simp]:
  "ds_signals (look s) = ds_signals s" "ds_pidfile (look s) = ds_pidfile s"
  "ds_looks (look s) = ds_looks s + 1" "ds_printed (look s) = ds_printed s"
  "ds_signals (remove_pidfile s) = ds_signals s" "ds_pidfile (remove_pidfile s) = None"
  "ds_looks (remove_pidfile s) = ds_looks s" "ds_printed (remove_pidfile s) = ds_printed s"
  by (simp_all add: look_def remove_pidfile_def)

lemma wait_loop_keeps:
  "wait_loop os pid deadline k s = Some (s', gone) \<Longrightarrow>
   ds_signals s' = ds_signals s \<and> ds_pidfile s' = ds_pidfile s \<and> ds_printed s' = ds_printed s
   \<and> ds_looks s < ds_looks s'
   \<and> (gone \<longrightarrow> os_kill0 os (ds_looks s' - 1) pid \<noteq> KillOk)
   \<and> (\<not> gone \<longrightarrow> os_kill0 os (ds_looks s' - 1) pid = KillOk \<and> deadline \<le> os_now os (ds_looks s' - 1))"
proof (induction k arbitrary: s)
  case (Suc k)
  then show ?case by (fastforce split: if_splits)
qed simp

lemma wait_for_gone_keeps:
  "wait_for_gone os fuel pid grace s = Some (s', gone) \<Longrightarrow>
   ds_signals s' = ds_signals s \<and> ds_pidfile s' = ds_pidfile s \<and> ds_looks s < ds_looks s'
   \<and> (gone \<longleftrightarrow> os_kill0 os (ds_looks s' - 1) pid \<noteq> KillOk)"
  unfolding wait_for_gone_def using wait_loop_keeps by blast

text \<open>What one run of the command does to the outside: the signals it adds, the pidfile.\<close>

definition sends :: "dstate \<Rightarrow> dstate \<Rightarrow> (nat \<times> sig \<times> nat) list \<Rightarrow> bool" where
  "sends s s' new \<longleftrightarrow> ds_signals s' = ds_signals s @ new"

lemma force_kill_effects:
  assumes "force_kill os fuel grace r s = Some (s', res)"
  shows "(\<exists>new. sends s s' new \<and>
            (new = [] \<or> check_recorded_process os (ds_looks s) r = None \<and> new = [(ds_looks s + 1, Sigkill, dr_pid r)]))
    \<and> (if isl res then ds_pidfile s' = ds_pidfile s else ds_pidfile s' = None)
    \<and> (\<not> isl res \<longrightarrow> (\<exists>n. os_kill0 os n (dr_pid r) \<noteq> KillOk))"
proof (cases "check_recorded_process os (ds_looks s) r")
  case None
  show ?thesis
  proof (cases "os_send_ok os (ds_looks s + 1) Sigkill (dr_pid r)")
    case True
    define s1 where "s1 = (look (look s))\<lparr>ds_signals := ds_signals s @ [(ds_looks s + 1, Sigkill, dr_pid r)]\<rparr>"
    have run: "force_kill os fuel grace r s =
        (case wait_for_gone os fuel (dr_pid r) grace s1 of
           None \<Rightarrow> None
         | Some (s2, gone) \<Rightarrow> if gone then Some (remove_pidfile s2, Inr KilledAfterGrace) else Some (s2, Inl SurvivedKill))"
      using True by (simp add: force_kill_def None send_def s1_def)
    with assms obtain s2 gone where w: "wait_for_gone os fuel (dr_pid r) grace s1 = Some (s2, gone)"
      by (auto split: option.splits)
    from wait_for_gone_keeps [OF w] have k: "ds_signals s2 = ds_signals s1" "ds_pidfile s2 = ds_pidfile s1"
        "gone \<longrightarrow> (\<exists>n. os_kill0 os n (dr_pid r) \<noteq> KillOk)" by auto
    have "ds_signals s1 = ds_signals s @ [(ds_looks s + 1, Sigkill, dr_pid r)]" "ds_pidfile s1 = ds_pidfile s"
      by (simp_all add: s1_def)
    with k run w assms None show ?thesis by (auto simp: sends_def split: if_splits)
  next
    case False
    with assms None show ?thesis
      by (auto simp: force_kill_def send_def sends_def)
  qed
next
  case (Some why)
  have gone: "why = Gone \<Longrightarrow> os_kill0 os (ds_looks s) (dr_pid r) \<noteq> KillOk"
    using Some by (auto simp: check_recorded_process_def pid_alive_def split: if_splits option.splits)
  from assms Some gone show ?thesis
    by (cases why) (auto simp: force_kill_def sends_def)
qed

lemma terminate_daemon_effects:
  assumes "terminate_daemon os fuel force grace r s = Some (s', res)"
  shows "(\<exists>new. sends s s' new \<and>
            (new = [(ds_looks s, Sigterm, dr_pid r)]
             \<or> force \<and> (\<exists>n. ds_looks s < n \<and> check_recorded_process os n r = None
                          \<and> new = [(ds_looks s, Sigterm, dr_pid r), (n + 1, Sigkill, dr_pid r)])))
    \<and> (if isl res then ds_pidfile s' = ds_pidfile s else ds_pidfile s' = None)
    \<and> (\<not> isl res \<longrightarrow> (\<exists>n. os_kill0 os n (dr_pid r) \<noteq> KillOk))"
proof (cases "os_send_ok os (ds_looks s) Sigterm (dr_pid r)")
  case True
  define s1 where "s1 = (look s)\<lparr>ds_signals := ds_signals s @ [(ds_looks s, Sigterm, dr_pid r)]\<rparr>"
  have run: "terminate_daemon os fuel force grace r s =
      (case wait_for_gone os fuel (dr_pid r) grace s1 of
         None \<Rightarrow> None
       | Some (s2, gone) \<Rightarrow>
           if gone then Some (remove_pidfile s2, Inr Stopped)
           else if \<not> force then Some (s2, Inl StillRunning)
           else force_kill os fuel grace r s2)"
    using True by (simp add: terminate_daemon_def send_def s1_def)
  with assms obtain s2 gone where w: "wait_for_gone os fuel (dr_pid r) grace s1 = Some (s2, gone)"
    by (auto split: option.splits)
  from wait_for_gone_keeps [OF w] have k: "ds_signals s2 = ds_signals s1" "ds_pidfile s2 = ds_pidfile s1"
      "ds_looks s1 < ds_looks s2" "gone \<longrightarrow> (\<exists>n. os_kill0 os n (dr_pid r) \<noteq> KillOk)" by auto
  have s1: "ds_signals s1 = ds_signals s @ [(ds_looks s, Sigterm, dr_pid r)]" "ds_pidfile s1 = ds_pidfile s"
      "ds_looks s1 = ds_looks s + 1"
    by (simp_all add: s1_def)
  show ?thesis
  proof (cases "gone \<or> \<not> force")
    case True
    with k s1 run w assms show ?thesis by (auto simp: sends_def split: if_splits)
  next
    case False
    with run w assms have f: "force_kill os fuel grace r s2 = Some (s', res)" by simp
    from force_kill_effects [OF f] k s1 False show ?thesis
      by (auto simp: sends_def split: if_splits)
  qed
next
  case False
  with assms show ?thesis
    by (auto simp: terminate_daemon_def send_def sends_def)
qed

text \<open>C32: \<open>rqmd mcp stop\<close> never signals anything but the recorded daemon. Whatever the
  operating system answers and in whatever order things change, each signal of a run goes
  to the pid of the readable pidfile, which is neither 0, 1, a process group nor the
  command itself, after a look that showed it to be the daemon (its own answer on a loopback
  address, or its recorded start time); it sends SIGTERM at most once, and SIGKILL only with
  \<open>--force\<close>, only after SIGTERM, and only when the start time was checked again right before.\<close>

theorem stop_signals_only_the_daemon:
  assumes "stop_daemon_with os fuel force grace s = Some (s', res)"
  shows "ds_signals s' = ds_signals s
    \<or> (\<exists>r t. read_pidfile os s = Some r \<and> 1 < dr_pid r \<and> dr_pid r < 2 ^ 31 \<and> dr_pid r \<noteq> os_self os
         \<and> t = ds_looks s + 3 \<and> (\<exists>m\<in>{ds_looks s..<t}. shown_at os r m)
         \<and> (ds_signals s' = ds_signals s @ [(t, Sigterm, dr_pid r)]
            \<or> force \<and> (\<exists>n>t. check_recorded_process os n r = None
                 \<and> ds_signals s' = ds_signals s @ [(t, Sigterm, dr_pid r), (n + 1, Sigkill, dr_pid r)])))"
proof (cases "read_pidfile os s")
  case None
  with assms show ?thesis by (simp add: stop_daemon_with_def)
next
  case (Some r)
  then have pid: "1 < dr_pid r" "dr_pid r < 2 ^ 31" "dr_pid r \<noteq> os_self os"
    by (auto simp: read_pidfile_def plausible_pid_def split: option.splits if_splits)
  show ?thesis
  proof (cases "(\<exists>h. verify_identity os (ds_looks s) r = Confirmed h) \<or> verify_identity os (ds_looks s) r = AliveUnresponsive")
    case True
    with assms Some have "terminate_daemon os fuel force grace r (look (look (look s))) = Some (s', res)"
      by (auto simp: stop_daemon_with_def Let_def)
    note eff = terminate_daemon_effects [OF this]
    from True verify_identity_shown [of os "ds_looks s" r]
    have "\<exists>m\<in>{ds_looks s..<ds_looks s + 3}. shown_at os r m" by fastforce
    with eff Some pid show ?thesis by (auto simp: sends_def)
  next
    case False
    with assms Some have "ds_signals s' = ds_signals s"
      by (auto simp: stop_daemon_with_def Let_def split: identity.splits option.splits not_ours.splits)
    then show ?thesis by simp
  qed
qed

text \<open>The pidfile goes exactly when the daemon is known to be gone: a run that reports
  success has removed it and has seen the process refuse \<open>kill(pid, 0)\<close>; a run that
  reports an error has left it as it was, except when the recorded process no longer
  runs or its pid belongs to a process that started at another time.\<close>

theorem stop_keeps_pidfile:
  assumes "stop_daemon_with os fuel force grace s = Some (s', res)"
  shows "case res of
           Inr how \<Rightarrow> ds_pidfile s' = None
             \<and> (\<exists>r n. read_pidfile os s = Some r \<and> os_kill0 os n (dr_pid r) \<noteq> KillOk)
         | Inl e \<Rightarrow>
             if \<exists>r. read_pidfile os s = Some r \<and> verify_identity os (ds_looks s) r = Stale
             then ds_pidfile s' = None \<and> ds_signals s' = ds_signals s \<and> (e = StaleGone \<or> (\<exists>a b. e = StaleOther (DifferentStart a b)))
             else ds_pidfile s' = ds_pidfile s"
proof (cases "read_pidfile os s")
  case None
  with assms show ?thesis by (auto simp: stop_daemon_with_def)
next
  case (Some r)
  show ?thesis
  proof (cases "(\<exists>h. verify_identity os (ds_looks s) r = Confirmed h) \<or> verify_identity os (ds_looks s) r = AliveUnresponsive")
    case True
    with assms Some have "terminate_daemon os fuel force grace r (look (look (look s))) = Some (s', res)"
      by (auto simp: stop_daemon_with_def Let_def)
    from terminate_daemon_effects [OF this] Some True show ?thesis
      by (cases res) (auto simp: Some)
  next
    case False
    with assms Some show ?thesis
      by (auto simp: stop_daemon_with_def Let_def split: identity.splits option.splits not_ours.splits)
  qed
qed

subsection \<open>The waits end\<close>

lemma wait_loop_ends:
  assumes "mono (os_now os)" and "deadline \<le> os_now os m"
  shows "m - ds_looks s < k \<Longrightarrow>
    \<exists>s' gone. wait_loop os pid deadline k s = Some (s', gone) \<and> ds_looks s' \<le> max m (ds_looks s) + 1"
proof (induction k arbitrary: s)
  case (Suc k)
  show ?case
  proof (cases "os_kill0 os (ds_looks s) pid \<noteq> KillOk \<or> deadline \<le> os_now os (ds_looks s)")
    case False
    then have "\<not> m \<le> ds_looks s" using assms(2) monoD [OF assms(1), of m "ds_looks s"] by auto
    then have "m - ds_looks (look s) < k" "max m (ds_looks (look s)) = max m (ds_looks s)"
      using Suc.prems by simp_all
    with Suc.IH [of "look s"] False show ?thesis by simp
  qed auto
qed simp

lemma wait_for_gone_ends:
  assumes "mono (os_now os)" and "os_now os (ds_looks s) + grace \<le> os_now os m"
  shows "\<exists>s' gone. wait_for_gone os (Suc m + d) pid grace s = Some (s', gone) \<and> ds_looks s' \<le> max m (ds_looks s) + 1"
  unfolding wait_for_gone_def by (rule wait_loop_ends [OF assms]) simp

text \<open>The stop command ends: with a clock that never goes back and passes every bound there
  is an amount of fuel (polls of the two waits) from which on it returns a result, whatever
  the processes do. A daemon that ignores every signal is reported, not waited for.\<close>

theorem stop_returns:
  assumes "mono (os_now os)" and "\<And>b. \<exists>n. b \<le> os_now os n"
  shows "\<exists>fuel. \<forall>d. stop_daemon_with os (fuel + d) force grace s \<noteq> None"
proof -
  define n where "n = ds_looks s + 4"
  obtain m where m: "os_now os n + grace \<le> os_now os m" using assms(2) by blast
  obtain m' where m': "os_now os (max m n + 3) + grace \<le> os_now os m'" using assms(2) by blast
  have kill: "force_kill os (Suc (max m m') + d) grace r s2 \<noteq> None"
    if le: "ds_looks s2 \<le> max m n + 1" for r s2 d
  proof -
    have e: "\<exists>s' gone. wait_for_gone os (Suc (max m m') + d) pid grace s3 = Some (s', gone)"
      if "ds_looks s3 = ds_looks s2 + 2" for s3 pid
    proof -
      have "os_now os (ds_looks s3) \<le> os_now os (max m n + 3)"
        using le that by (intro monoD [OF assms(1)]) simp
      moreover have "os_now os m' \<le> os_now os (max m m')" by (intro monoD [OF assms(1)]) simp
      ultimately show ?thesis
        using wait_for_gone_ends [OF assms(1), of s3 grace "max m m'" d pid] m' by fastforce
    qed
    have "\<exists>s' gone. wait_for_gone os (Suc (max m m') + d) (dr_pid r) grace (fst (send os Sigkill (dr_pid r) (look s2))) = Some (s', gone)"
      by (rule e) (simp add: send_def)
    then show ?thesis
      by (auto simp: force_kill_def send_def split: option.splits not_ours.splits)
  qed
  have ends: "terminate_daemon os (Suc (max m m') + d) force grace r s1 \<noteq> None" if "ds_looks s1 + 1 = n" for r s1 d
  proof -
    define s2 where "s2 = fst (send os Sigterm (dr_pid r) s1)"
    have looks: "ds_looks s2 = n" using that by (simp add: s2_def send_def)
    have "os_now os m \<le> os_now os (max m m')" by (intro monoD [OF assms(1)]) simp
    then have "os_now os (ds_looks s2) + grace \<le> os_now os m" using m looks by simp
    moreover have "Suc (max m m') + d = Suc m + (max m m' - m + d)" by simp
    ultimately obtain s3 gone where w: "wait_for_gone os (Suc (max m m') + d) (dr_pid r) grace s2 = Some (s3, gone)"
        and "ds_looks s3 \<le> max m n + 1"
      using wait_for_gone_ends [OF assms(1), of s2 grace m "max m m' - m + d" "dr_pid r"] looks by auto
    with kill [of s3 d r] show ?thesis
      unfolding terminate_daemon_def
      by (cases "send os Sigterm (dr_pid r) s1") (auto simp: s2_def)
  qed
  have "stop_daemon_with os (Suc (max m m') + d) force grace s \<noteq> None" for d
  proof (cases "read_pidfile os s")
    case (Some r)
    have "terminate_daemon os (Suc (max m m') + d) force grace r (look (look (look s))) \<noteq> None"
      by (rule ends) (simp add: n_def)
    with Some show ?thesis
      by (cases "verify_identity os (ds_looks s) r")
        (simp_all add: stop_daemon_with_def Let_def split: option.splits not_ours.splits)
  qed (simp add: stop_daemon_with_def)
  then show ?thesis by blast
qed

subsection \<open>The start time is field 22, whatever the command is called\<close>

definition stat_word :: "string \<Rightarrow> bool" where
  "stat_word w \<longleftrightarrow> w \<noteq> [] \<and> list_all (\<lambda>c. 33 \<le> byte c \<and> byte c < 127 \<and> c \<noteq> CHR '')'') w"

lemma rfind_char_append: "c \<notin> set b \<Longrightarrow> rfind_char c (a @ c # b) = Some (length a)"
proof -
  assume c: "c \<notin> set b"
  have "rfind_char c b = None" using c by (induction b) auto
  then have "rfind_char c (c # b) = Some 0" by simp
  then show ?thesis by (induction a) auto
qed

lemma ws_groups_word:
  "list_all (\<lambda>c. \<not> is_ws_cp (byte c)) w \<Longrightarrow>
   ws_groups (map (\<lambda>c. [c]) w @ cs) acc = ws_groups cs (acc @ w)"
  by (induction w arbitrary: acc) auto

lemma stat_words_chars:
  "list_all stat_word ws \<Longrightarrow> c \<in> set (concat (map (\<lambda>w. '' '' @ w) ws)) \<Longrightarrow>
   c = CHR '' '' \<or> byte c < 127 \<and> c \<noteq> CHR '')''"
  by (induction ws) (auto simp: stat_word_def list_all_iff)

lemma split_ws_words:
  assumes "list_all stat_word ws"
  shows "split_ws (concat (map (\<lambda>w. '' '' @ w) ws) @ [NL]) = ws"
proof -
  let ?s = "concat (map (\<lambda>w. '' '' @ w) ws) @ [NL]"
  have "byte c < 128" if "c \<in> set ?s" for c
  proof (cases "c = NL")
    case False
    with that have "c \<in> set (concat (map (\<lambda>w. '' '' @ w) ws))" by simp
    from stat_words_chars [OF assms this] show ?thesis by (elim disjE conjE) simp_all
  qed simp
  then have "\<forall>c\<in>set ?s. byte c < 128" by blast
  then have "chars ?s = map (\<lambda>c. [c]) ?s" by (rule chars_ascii)
  moreover have "ws_groups (map (\<lambda>c. [c]) ?s) acc = (if acc = [] then ws else acc # ws)" for acc
    using assms
  proof (induction ws arbitrary: acc)
    case Nil
    then show ?case by (simp add: is_ws_cp_def)
  next
    case (Cons w ws)
    have "\<not> is_ws_cp n" if "33 \<le> n" "n < 127" for n
      using that by (simp add: is_ws_cp_def)
    then have w: "list_all (\<lambda>c. \<not> is_ws_cp (byte c)) w" "w \<noteq> []"
      using Cons.prems by (simp_all add: stat_word_def list_all_iff)
    let ?t = "concat (map (\<lambda>w. '' '' @ w) ws) @ [NL]"
    have "ws_groups (map (\<lambda>c. [c]) w @ map (\<lambda>c. [c]) ?t) [] = w # ws"
      using ws_groups_word [OF w(1), of "map (\<lambda>c. [c]) ?t" "[]"] Cons w(2) by simp
    then show ?case by (simp add: is_ws_cp_def)
  qed
  ultimately show ?thesis by (simp add: split_ws_def)
qed

text \<open>Whatever text stands before it, spaces and closing parentheses of the command's name
  included, the start time is the field numbered 22 of the line: the 20th of the words that
  follow the last closing parenthesis. With fewer words, or a word that is no number, there
  is no start time.\<close>

theorem start_ticks_any_command:
  assumes "list_all stat_word ws"
  shows "parse_stat_start_ticks (pid_and_command @ '')'' @ concat (map (\<lambda>w. '' '' @ w) ws) @ [NL])
    = (if length ws < 20 then None else parse_uint 64 (ws ! 19))"
proof -
  let ?r = "concat (map (\<lambda>w. '' '' @ w) ws) @ [NL]"
  have "CHR '')'' \<notin> set ?r"
    using stat_words_chars [OF assms, of "CHR '')''"] unfolding set_append by fastforce
  from rfind_char_append [OF this, of pid_and_command]
  have "rfind_char (CHR '')'') (pid_and_command @ '')'' @ ?r) = Some (length pid_and_command)" by simp
  then show ?thesis
    using split_ws_words [OF assms] by (simp add: parse_stat_start_ticks_def nth_opt_def)
qed

lemma start_ticks_any_command_witness:
  "parse_stat_start_ticks (''77 (a) b (c'' @ '')'' @ concat (map (\<lambda>w. '' '' @ w) (replicate 19 ''0'' @ [''1234''])) @ [NL])
    = Some 1234"
  using start_ticks_any_command [of "replicate 19 ''0'' @ [''1234'']" "''77 (a) b (c''"]
  by (simp add: stat_word_def nth_append parse_uint_def is_ascii_digit_def dec_value_def list_all_iff)

subsection \<open>A run that must use force\<close>

definition sample_record :: pid_record where
  "sample_record = \<lparr>dr_pid = 42, dr_host = ''127.0.0.1'', dr_port = 8181, dr_index_dir = ''/i'',
     dr_started_at = ''now'', dr_started_at_unix = 100, dr_process_start_unix = Some 100\<rparr>"

definition stubborn_os :: os where
  "stubborn_os = \<lparr>os_self = 7, os_kill0 = (\<lambda>n p. if n < 9 then KillOk else Esrch), os_start = (\<lambda>n p. Some 101),
     os_health = (\<lambda>n h p. None), os_now = (\<lambda>n. n), os_unix = (\<lambda>n. Some n), os_send_ok = (\<lambda>n g p. True),
     os_ipv6 = (\<lambda>h. None), os_of_json = (\<lambda>t. Some sample_record), os_to_json = (\<lambda>r. [])\<rparr>"

definition sample_state :: dstate where
  "sample_state = \<lparr>ds_looks = 0, ds_pidfile = Some ''{}'', ds_signals = [], ds_printed = []\<rparr>"

lemma wait_loop_numeral:
  "wait_loop os pid deadline (numeral k) s =
     (if os_kill0 os (ds_looks s) pid \<noteq> KillOk then Some (look s, True)
      else if deadline \<le> os_now os (ds_looks s) then Some (look s, False)
      else wait_loop os pid deadline (pred_numeral k) (look s))"
  by (simp add: numeral_eq_Suc)

lemma stubborn_run:
  "stop_daemon_with stubborn_os 9 True 2 sample_state =
     Some (\<lparr>ds_looks = 10, ds_pidfile = None, ds_signals = [(3, Sigterm, 42), (8, Sigkill, 42)], ds_printed = []\<rparr>,
           Inr KilledAfterGrace)"
proof -
  note defs = stubborn_os_def sample_state_def sample_record_def look_def wait_loop_numeral
    check_recorded_process_def pid_alive_def abs_diff_def START_TIME_SLACK_SECS_def wait_for_gone_def send_def remove_pidfile_def
  show ?thesis
    by (simp add: defs read_pidfile_def plausible_pid_def verify_identity_def identity_without_health_def
        stop_daemon_with_def terminate_daemon_def force_kill_def)
qed

lemma stop_signals_only_the_daemon_witness:
  "\<exists>r. read_pidfile stubborn_os sample_state = Some r
     \<and> (\<exists>n>3. check_recorded_process stubborn_os n r = None)"
proof -
  have "ds_signals sample_state = []" "ds_looks sample_state = 0" by (simp_all add: sample_state_def)
  with stop_signals_only_the_daemon [OF stubborn_run]
  have "\<exists>r. read_pidfile stubborn_os sample_state = Some r \<and> check_recorded_process stubborn_os 7 r = None"
    by (simp del: One_nat_def) blast
  moreover have "(3::nat) < 7" by simp
  ultimately show ?thesis by blast
qed

lemma stop_keeps_pidfile_witness:
  "\<exists>r n. read_pidfile stubborn_os sample_state = Some r \<and> os_kill0 stubborn_os n (dr_pid r) \<noteq> KillOk"
  using stop_keeps_pidfile [OF stubborn_run] by simp

lemma stop_returns_witness:
  "\<exists>fuel. \<forall>d. stop_daemon_with stubborn_os (fuel + d) True 2 sample_state \<noteq> None"
  by (rule stop_returns) (auto simp: stubborn_os_def mono_def)

end
