(* ===== verification/Mcp.thy ===== *)
theory Mcp
  imports McpHttp Types Chunking
begin

text \<open>
  What the tools of the MCP server compute on the way, \<open>crates/rqmd-mcp/src/server.rs\<close> and
  \<open>refresh.rs\<close>: the bounds put on a client's numbers, the pages of a ranking, the pool of
  read-only stores, the line-range suffix of a file argument, and the window of a document
  that fits a response. A document body is its UTF-8 bytes; \<open>None\<close> of \<open>cap_body\<close> is a panic.
\<close>

subsection \<open>Bounds on what a client asks for\<close>

definition MULTI_GET_MAX_DOCS :: nat where "MULTI_GET_MAX_DOCS = 200"
definition MAX_SEARCH_LIMIT :: nat where "MAX_SEARCH_LIMIT = 1000"
definition DEFAULT_MAX_LINES :: nat where "DEFAULT_MAX_LINES = 2000"
definition MAX_DOC_BYTES :: nat where "MAX_DOC_BYTES = 256 * 1024"
definition MULTI_GET_MAX_TOTAL_BYTES :: nat where "MULTI_GET_MAX_TOTAL_BYTES = 4 * 1024 * 1024"

definition clamp_limit :: "nat option \<Rightarrow> nat \<Rightarrow> nat" where
  "clamp_limit limit preset = max 1 (min MAX_SEARCH_LIMIT (case limit of None \<Rightarrow> preset | Some n \<Rightarrow> n))"

definition clamp_offset :: "nat option \<Rightarrow> nat" where
  "clamp_offset offset = min (case offset of None \<Rightarrow> 0 | Some n \<Rightarrow> n) MAX_SEARCH_LIMIT"

definition mcp_search_options :: "nat option \<Rightarrow> search_options" where
  "mcp_search_options n = search_options_default\<lparr>per_file := clamp_per_file (case n of None \<Rightarrow> 1 | Some k \<Rightarrow> k)\<rparr>"

definition recency_of :: "string option \<Rightarrow> half_life_error + recency option" where
  "recency_of spec =
     (case spec of
        None \<Rightarrow> Inr None
      | Some s \<Rightarrow> (case parse_half_life s of Inl e \<Rightarrow> Inl e | Inr hl \<Rightarrow> Inr (Some (recency_new hl))))"

definition fetch_len :: "nat \<Rightarrow> nat \<Rightarrow> nat" where
  "fetch_len offset limit = min (offset + limit + 1) MAX_SEARCH_LIMIT"

definition page_of :: "'a list \<Rightarrow> nat \<Rightarrow> nat \<Rightarrow> 'a list \<times> bool" where
  "page_of ranked offset limit =
     ((if length ranked \<le> offset then [] else take limit (drop offset ranked)), offset + limit < length ranked)"

definition DEFAULT_FTS_READERS :: nat where "DEFAULT_FTS_READERS = 4"
definition MAX_FTS_READERS :: nat where "MAX_FTS_READERS = 16"

text \<open>\<open>parallelism\<close> is what the operating system reports, if it does.\<close>

definition fts_readers_from_env :: "string option \<Rightarrow> nat option \<Rightarrow> nat" where
  "fts_readers_from_env v parallelism =
     (let n = (case Option.bind v (\<lambda>s. parse_uint 64 (trim s)) of
           Some n \<Rightarrow> n
         | None \<Rightarrow> (case parallelism of None \<Rightarrow> DEFAULT_FTS_READERS | Some p \<Rightarrow> min p DEFAULT_FTS_READERS))
      in max 1 (min MAX_FTS_READERS n))"

text \<open>Nanoseconds, as every duration the searches see.\<close>

definition DEFAULT_TOOL_TIMEOUT :: nat where "DEFAULT_TOOL_TIMEOUT = 120 * NANOS"

definition parse_tool_timeout :: "string option \<Rightarrow> nat" where
  "parse_tool_timeout v =
     (case Option.bind v (\<lambda>s. parse_uint 64 (trim s)) of
        Some secs \<Rightarrow> if 0 < secs then secs * NANOS else DEFAULT_TOOL_TIMEOUT
      | None \<Rightarrow> DEFAULT_TOOL_TIMEOUT)"

subsection \<open>The pool of readers\<close>

text \<open>What \<open>try_lock\<close> says of a handle; \<open>checkout\<close> returns the handle to use, whether the
  caller waits for it, and the round-robin counter, which wraps at 64 bits.\<close>

datatype handle_lock = FreeHandle | PoisonedHandle | BusyHandle

definition pool_open_size :: "nat \<Rightarrow> nat" where
  "pool_open_size n = max n 1"

fun first_idle :: "nat \<Rightarrow> handle_lock list \<Rightarrow> nat option" where
  "first_idle i [] = None"
| "first_idle i (h # hs) = (if h = BusyHandle then first_idle (i + 1) hs else Some i)"

definition checkout :: "handle_lock list \<Rightarrow> nat \<Rightarrow> nat \<times> bool \<times> nat" where
  "checkout handles counter =
     (case first_idle 0 handles of
        Some i \<Rightarrow> (i, False, counter)
      | None \<Rightarrow> (counter mod length handles, True, (counter + 1) mod 2 ^ 64))"

lemma first_idle_Some:
  "first_idle i hs = Some j \<Longrightarrow> i \<le> j \<and> j < i + length hs \<and> hs ! (j - i) \<noteq> BusyHandle"
proof (induction i hs rule: first_idle.induct)
  case (2 i h hs)
  show ?case
  proof (cases "h = BusyHandle")
    case True
    with 2 have "i + 1 \<le> j \<and> j < i + 1 + length hs \<and> hs ! (j - (i + 1)) \<noteq> BusyHandle" by simp
    moreover from this have "j - i = Suc (j - (i + 1))" by linarith
    ultimately show ?thesis by simp
  qed (use 2 in auto)
qed simp

lemma first_idle_None: "first_idle i hs = None \<longleftrightarrow> set hs \<subseteq> {BusyHandle}"
  by (induction i hs rule: first_idle.induct) auto

text \<open>A caller waits only when every handle is busy, and never for one out of range.\<close>

lemma checkout_in_range:
  assumes "length handles = pool_open_size n" and "checkout handles counter = (i, waits, counter')"
  shows "i < length handles \<and> (waits \<longleftrightarrow> set handles \<subseteq> {BusyHandle})"
  using assms first_idle_Some [of 0 handles] first_idle_None [of 0 handles]
  by (auto simp: checkout_def pool_open_size_def split: option.splits)

subsection \<open>Refresh notices\<close>

datatype refresh_outcome = Refreshed | LockedOut | RebuildPending | TimedOut

fun refresh_notice :: "refresh_outcome \<Rightarrow> string option" where
  "refresh_notice Refreshed = None"
| "refresh_notice LockedOut = Some ''refresh skipped because another process is updating the index; results may not include recent edits.''"
| "refresh_notice RebuildPending = Some ''refresh skipped because the full-text index needs a rebuild (run `rqmd update`); results may not include recent edits.''"
| "refresh_notice TimedOut = Some ''refresh stopped at the tool timeout; results may not include all recent edits.''"

definition FAILED_NOTICE :: string where
  "FAILED_NOTICE = ''refresh failed; results may not include recent edits.''"

definition UNAVAILABLE_NOTICE :: string where
  "UNAVAILABLE_NOTICE = ''refresh is not enabled for this index; results may not include recent edits.''"

subsection \<open>The file argument\<close>

definition parse_file_spec :: "string \<Rightarrow> nat option \<Rightarrow> nat option \<Rightarrow> string \<times> nat option \<times> nat option" where
  "parse_file_spec s from_line max_lines =
     (case Option.bind (rsplit_once (CHR '':'') s) (\<lambda>(rest, l). map_option (Pair rest) (parse_uint 64 l)) of
        None \<Rightarrow> (s, from_line, max_lines)
      | Some (rest, n2) \<Rightarrow>
          (case rsplit_once (CHR '':'') rest of
             None \<Rightarrow> (rest, (if from_line = None then Some n2 else from_line), max_lines)
           | Some (pre, n1_str) \<Rightarrow>
               (case parse_uint 64 n1_str of
                  Some n1 \<Rightarrow> (pre, (if from_line = None then Some n1 else from_line),
                              (if max_lines = None then Some n2 else max_lines))
                | None \<Rightarrow> (rest, (if from_line = None then Some n2 else from_line), max_lines))))"

subsection \<open>The window of a body\<close>

record body_window =
  bw_lines :: "string list"
  bw_start :: nat
  bw_total_lines :: nat
  bw_capped :: bool

definition bw_bytes :: "body_window \<Rightarrow> nat" where
  "bw_bytes w = sum_list (map (\<lambda>l. length l + 1) (bw_lines w))"

definition truncation_note :: "body_window \<Rightarrow> string" where
  "truncation_note w =
     (if \<not> bw_capped w then []
      else ''[truncated: lines '' @ dec (bw_start w + 1) @ [CHR 0xE2, CHR 0x80, CHR 0x93]
        @ dec (bw_start w + length (bw_lines w)) @ '' of '' @ dec (bw_total_lines w)
        @ ''; pass from_line/max_lines to read more]'' @ [NL])"

text \<open>The loop of \<open>cap_body\<close>: the lines pushed so far are \<open>n\<close>, with \<open>used\<close> bytes; the result
  holds the lines pushed from here on and \<open>capped\<close>.\<close>

fun cap_lines :: "nat \<Rightarrow> bool \<Rightarrow> nat \<Rightarrow> nat \<Rightarrow> nat \<Rightarrow> string list \<Rightarrow> (string list \<times> bool) option" where
  "cap_lines line_limit default_limit byte_cap n used [] = Some ([], False)"
| "cap_lines line_limit default_limit byte_cap n used (line # ls) =
     (if line_limit \<le> n then Some ([], default_limit)
      else if length line < byte_cap - used then
        map_option (\<lambda>(ts, c). (line # ts, c))
          (cap_lines line_limit default_limit byte_cap (n + 1) (used + (length line + 1)) ls)
      else
        (let cut = snap_char_boundary_backward line ((byte_cap - used) - 1) in
         if 0 < cut then map_option (\<lambda>t. ([t], True)) (str_slice line 0 cut) else Some ([], True)))"

definition cap_body :: "string \<Rightarrow> nat option \<Rightarrow> nat option \<Rightarrow> nat \<Rightarrow> body_window option" where
  "cap_body body from_line max_lines byte_cap =
     (let start = (case from_line of None \<Rightarrow> 0 | Some n \<Rightarrow> n - 1);
          line_limit = (case max_lines of None \<Rightarrow> DEFAULT_MAX_LINES | Some n \<Rightarrow> n)
      in map_option (\<lambda>(ls, capped). \<lparr>bw_lines = ls, bw_start = start, bw_total_lines = length (lines body), bw_capped = capped\<rparr>)
           (cap_lines line_limit (max_lines = None) byte_cap 0 0 (drop start (lines body))))"

subsection \<open>Paging\<close>

text \<open>A client that follows the note \<open>pass offset=...\<close> until it is no longer given.\<close>

fun client_pages :: "(nat \<Rightarrow> 'a list) \<Rightarrow> nat \<Rightarrow> nat \<Rightarrow> nat \<Rightarrow> 'a list list" where
  "client_pages search limit 0 offset = []"
| "client_pages search limit (Suc k) offset =
     (case page_of (search (fetch_len offset limit)) offset limit of
        (page, has_more) \<Rightarrow> page # (if has_more then client_pages search limit k (offset + length page) else []))"

lemma page_of_take:
  "page_of (take (fetch_len offset limit) ranking) offset limit =
     (take limit (drop offset (take MAX_SEARCH_LIMIT ranking)),
      offset + limit < MAX_SEARCH_LIMIT \<and> offset + limit < length ranking)"
  by (auto simp: page_of_def fetch_len_def take_drop min_def intro!: arg_cong [where f = "drop offset"])

lemma client_pages_from:
  assumes "0 < limit"
  shows "offset \<le> MAX_SEARCH_LIMIT \<Longrightarrow> MAX_SEARCH_LIMIT < offset + k \<Longrightarrow>
    concat (client_pages (\<lambda>n. take n ranking) limit k offset) = drop offset (take MAX_SEARCH_LIMIT ranking)"
proof (induction k arbitrary: offset)
  case (Suc k)
  let ?top = "take MAX_SEARCH_LIMIT ranking"
  show ?case
  proof (cases "offset + limit < MAX_SEARCH_LIMIT \<and> offset + limit < length ranking")
    case True
    then have len: "length (take limit (drop offset ?top)) = limit" by auto
    have "concat (client_pages (\<lambda>n. take n ranking) limit k (offset + limit)) = drop (offset + limit) ?top"
      using Suc.prems True assms by (intro Suc.IH) auto
    also have "\<dots> = drop limit (drop offset ?top)" by (simp add: add.commute)
    finally have "concat (client_pages (\<lambda>n. take n ranking) limit (Suc k) offset)
        = take limit (drop offset ?top) @ drop limit (drop offset ?top)"
      using True len by (simp only: client_pages.simps page_of_take prod.case if_True simp_thms concat.simps)
    then show ?thesis by (simp only: append_take_drop_id)
  next
    case False
    then have "length ?top - offset \<le> limit" by auto
    with False show ?thesis by (auto simp: page_of_take)
  qed
qed simp

text \<open>A client that starts at offset 0 and asks for the offset each answer names sees every
  result once, in ranking order and without a gap: the pages of a keyword ranking, laid end to
  end, are its first 1000 results, whatever limit the client gave (clamped as the server does).
  The pages end after at most 1001 calls; a result past the 1000th is on no page, and the last
  page does not say that more exist.\<close>

theorem pages_cover_ranking:
  "concat (client_pages (\<lambda>n. take n ranking) (clamp_limit limit preset) (MAX_SEARCH_LIMIT + 1) 0)
     = take MAX_SEARCH_LIMIT ranking
   \<and> clamp_limit limit preset \<in> {1..MAX_SEARCH_LIMIT} \<and> clamp_offset off \<le> MAX_SEARCH_LIMIT
   \<and> fetch_len (clamp_offset off) (clamp_limit limit preset) \<in> {1..MAX_SEARCH_LIMIT}
   \<and> (snd (page_of (take (fetch_len 0 MAX_SEARCH_LIMIT) ranking) 0 MAX_SEARCH_LIMIT) = False)"
proof -
  have "concat (client_pages (\<lambda>n. take n ranking) (clamp_limit limit preset) (MAX_SEARCH_LIMIT + 1) 0)
     = drop 0 (take MAX_SEARCH_LIMIT ranking)"
    by (rule client_pages_from) (auto simp: clamp_limit_def)
  moreover have "snd (page_of (take (fetch_len 0 MAX_SEARCH_LIMIT) ranking) 0 MAX_SEARCH_LIMIT) = False"
    by (simp add: page_of_take)
  moreover have "clamp_limit limit preset \<in> {1..MAX_SEARCH_LIMIT}" "clamp_offset off \<le> MAX_SEARCH_LIMIT"
    "fetch_len (clamp_offset off) (clamp_limit limit preset) \<in> {1..MAX_SEARCH_LIMIT}"
    by (auto simp: clamp_limit_def clamp_offset_def fetch_len_def MAX_SEARCH_LIMIT_def)
  ultimately show ?thesis by simp
qed

subsection \<open>Line ranges\<close>

text \<open>Whether a text ends in a colon and a number.\<close>

definition numbered :: "string \<Rightarrow> bool" where
  "numbered s \<longleftrightarrow> (case rsplit_once (CHR '':'') s of None \<Rightarrow> False | Some (_, l) \<Rightarrow> parse_uint 64 l \<noteq> None)"

definition or_else :: "'a option \<Rightarrow> 'a \<Rightarrow> 'a option" where
  "or_else v d = (if v = None then Some d else v)"

lemma rsplit_dec: "rsplit_once (CHR '':'') (s @ '':'' @ dec n) = Some (s, dec n)"
  using rsplit_once_last [OF dec_no_colon, of s n] by simp

lemma parse_file_range:
  assumes "a < 2 ^ 64" and "b < 2 ^ 64" and "\<not> numbered path"
  shows "parse_file_spec (path @ '':'' @ dec a @ '':'' @ dec b) fl ml = (path, or_else fl a, or_else ml b)"
proof -
  have ab: "parse_uint 64 (dec a) = Some a" "parse_uint 64 (dec b) = Some b"
    by (rule parse_uint_dec [OF assms(1)], rule parse_uint_dec [OF assms(2)])
  have 2: "rsplit_once (CHR '':'') (path @ '':'' @ dec a @ '':'' @ dec b) = Some (path @ '':'' @ dec a, dec b)"
    using rsplit_dec [of "path @ '':'' @ dec a" b] by simp
  show ?thesis
    unfolding parse_file_spec_def 2 by (simp add: rsplit_dec [simplified] ab or_else_def)
qed

text \<open>The line-range suffix of a file argument reads back: \<open>path:from:count\<close> gives the path and
  both numbers, \<open>path:from\<close> the path and the first line, and a text that does not end in a
  colon and a number is the path itself. A number the caller passes on its own wins over
  the suffix, and the path may contain any further colons.\<close>

theorem file_spec_roundtrip:
  assumes "a < 2 ^ 64" and "b < 2 ^ 64" and "\<not> numbered path"
  shows "parse_file_spec (path @ '':'' @ dec a @ '':'' @ dec b) fl ml = (path, or_else fl a, or_else ml b)
    \<and> parse_file_spec (path @ '':'' @ dec a) fl ml = (path, or_else fl a, ml)
    \<and> parse_file_spec path fl ml = (path, fl, ml)"
proof (intro conjI)
  have ab: "parse_uint 64 (dec a) = Some a" by (rule parse_uint_dec [OF assms(1)])
  show "parse_file_spec (path @ '':'' @ dec a @ '':'' @ dec b) fl ml = (path, or_else fl a, or_else ml b)"
    using assms by (rule parse_file_range)
  show "parse_file_spec (path @ '':'' @ dec a) fl ml = (path, or_else fl a, ml)"
    unfolding parse_file_spec_def rsplit_dec using assms(3)
    by (auto simp: ab or_else_def numbered_def split: option.splits)
  show "parse_file_spec path fl ml = (path, fl, ml)"
    using assms(3) by (auto simp: parse_file_spec_def numbered_def split: option.splits)
qed

lemma file_spec_roundtrip_witness:
  "parse_file_spec (''a:b.md'' @ '':'' @ dec 100 @ '':'' @ dec 40) None (Some 7) = (''a:b.md'', Some 100, Some 7)"
proof -
  have "\<not> numbered ''a:b.md''"
    by (simp add: numbered_def rsplit_once_def parse_uint_def is_ascii_digit_def)
  with file_spec_roundtrip [of 100 40 "''a:b.md''" None "Some 7"] show ?thesis by (simp add: or_else_def)
qed

subsection \<open>What the window holds\<close>

text \<open>The lines shown: whole lines, then possibly the beginning of one more.\<close>

definition shows_part :: "string list \<Rightarrow> string list \<Rightarrow> bool" where
  "shows_part ls shown \<longleftrightarrow>
     (\<exists>k. shown = take k ls
        \<or> k < length ls \<and> (\<exists>t. shown = take k ls @ [t] \<and> strict_prefix t (ls ! k) \<and> t \<noteq> []))"

lemma shows_part_Nil: "shows_part ls []"
  by (auto simp: shows_part_def intro: exI [of _ 0])

lemma shows_part_Cons: "shows_part ls ts \<Longrightarrow> shows_part (l # ls) (l # ts)"
  unfolding shows_part_def by (elim exE, rename_tac k, rule_tac x = "Suc k" in exI) auto

lemma snap_cut:
  assumes "e = snap_char_boundary_backward line p" and "p < length line"
  shows "is_char_boundary line e" "e \<le> p" "strict_prefix (take e line) line" "str_slice line 0 e = Some (take e line)"
proof -
  show b: "is_char_boundary line e" and le: "e \<le> p"
    using assms snap_down_boundary snap_down_le by (simp_all add: snap_char_boundary_backward_def)
  show "strict_prefix (take e line) line"
    using le assms(2) by (metis leD order_less_le_trans strict_prefix_def take_all_iff take_is_prefix)
  show "str_slice line 0 e = Some (take e line)"
    using b by (simp add: str_slice_def is_char_boundary_def)
qed

lemma cap_lines_spec:
  "n \<le> line_limit \<Longrightarrow> used \<le> byte_cap \<Longrightarrow>
   \<exists>ts c. cap_lines line_limit dl byte_cap n used ls = Some (ts, c)
     \<and> used + sum_list (map (\<lambda>l. length l + 1) ts) \<le> byte_cap
     \<and> n + length ts \<le> line_limit
     \<and> shows_part ls ts
     \<and> (\<not> c \<longrightarrow> ts = take (line_limit - n) ls \<and> (dl \<longrightarrow> ts = ls))
     \<and> (c \<longrightarrow> ts \<noteq> ls)"
proof (induction ls arbitrary: n used)
  case Nil
  then show ?case by (auto simp: shows_part_Nil)
next
  case (Cons line ls)
  consider (full) "n = line_limit" | (fits) "n < line_limit" "length line < byte_cap - used"
    | (long) "n < line_limit" "byte_cap - used \<le> length line"
    using Cons.prems by linarith
  then show ?case
  proof cases
    case full
    with Cons.prems show ?thesis by (auto simp: shows_part_Nil)
  next
    case fits
    then have "n + 1 \<le> line_limit" "used + (length line + 1) \<le> byte_cap" by linarith+
    from Cons.IH [OF this] obtain ts c where
      r: "cap_lines line_limit dl byte_cap (n + 1) (used + (length line + 1)) ls = Some (ts, c)"
      "used + (length line + 1) + sum_list (map (\<lambda>l. length l + 1) ts) \<le> byte_cap"
      "n + 1 + length ts \<le> line_limit" "shows_part ls ts"
      "\<not> c \<longrightarrow> ts = take (line_limit - (n + 1)) ls \<and> (dl \<longrightarrow> ts = ls)" "c \<longrightarrow> ts \<noteq> ls"
      by auto
    have "line_limit - n = Suc (line_limit - (n + 1))" using fits by simp
    with r fits shows_part_Cons [OF r(4)] show ?thesis by auto
  next
    case long
    show ?thesis
    proof (cases "snap_char_boundary_backward line (byte_cap - used - 1)")
      case 0
      with long Cons.prems show ?thesis by (auto simp: shows_part_Nil)
    next
      case (Suc m)
      have "0 < byte_cap - used"
        using Suc by (cases "byte_cap - used") (simp_all add: snap_char_boundary_backward_def)
      then have p: "byte_cap - used - 1 < length line" using long(2) by simp
      note snap = snap_cut [OF Suc [symmetric] p]
      have "length (take (Suc m) line) = Suc m" using snap(2) p by simp
      moreover have "shows_part (line # ls) [take (Suc m) line]"
        using snap(3) p by (auto simp: shows_part_def intro!: exI [of _ 0])
      moreover have "[take (Suc m) line] \<noteq> line # ls" using snap(3) by auto
      moreover have "cap_lines line_limit dl byte_cap n used (line # ls) = Some ([take (Suc m) line], True)"
        using long Suc snap(4) by simp
      moreover have "used + (Suc m + 1) \<le> byte_cap" "n + 1 \<le> line_limit"
        using snap(2) \<open>0 < byte_cap - used\<close> long(1) by linarith+
      ultimately show ?thesis
        by (intro exI [of _ "[take (Suc m) line]"] exI [of _ True]) (simp del: cap_lines.simps)
    qed
  qed
qed

lemma cap_body_window:
  "\<exists>w. cap_body body from_line max_lines byte_cap = Some w
     \<and> bw_bytes w \<le> byte_cap
     \<and> length (bw_lines w) \<le> (case max_lines of None \<Rightarrow> DEFAULT_MAX_LINES | Some n \<Rightarrow> n)
     \<and> bw_start w = (case from_line of None \<Rightarrow> 0 | Some n \<Rightarrow> n - 1)
     \<and> bw_total_lines w = length (lines body)
     \<and> shows_part (drop (bw_start w) (lines body)) (bw_lines w)
     \<and> (if bw_capped w then bw_lines w \<noteq> drop (bw_start w) (lines body)
        else bw_lines w = (case max_lines of None \<Rightarrow> drop (bw_start w) (lines body)
                           | Some n \<Rightarrow> take n (drop (bw_start w) (lines body))))"
proof -
  define start where "start = (case from_line of None \<Rightarrow> 0 | Some n \<Rightarrow> n - 1)"
  define limit where "limit = (case max_lines of None \<Rightarrow> DEFAULT_MAX_LINES | Some n \<Rightarrow> n)"
  obtain ts c where r: "cap_lines limit (max_lines = None) byte_cap 0 0 (drop start (lines body)) = Some (ts, c)"
    "sum_list (map (\<lambda>l. length l + 1) ts) \<le> byte_cap" "length ts \<le> limit"
    "shows_part (drop start (lines body)) ts"
    "\<not> c \<longrightarrow> ts = take limit (drop start (lines body)) \<and> (max_lines = None \<longrightarrow> ts = drop start (lines body))"
    "c \<longrightarrow> ts \<noteq> drop start (lines body)"
    using cap_lines_spec [of 0 limit 0 byte_cap "max_lines = None" "drop start (lines body)"] by auto
  have "cap_body body from_line max_lines byte_cap =
     Some \<lparr>bw_lines = ts, bw_start = start, bw_total_lines = length (lines body), bw_capped = c\<rparr>"
    using r(1) by (simp add: cap_body_def Let_def start_def limit_def)
  with r show ?thesis
    by (cases max_lines) (auto simp: bw_bytes_def start_def limit_def)
qed


end
