(* ===== verification/Refresh.thy ===== *)
theory Refresh
  imports Mcp UpdateSpec Lock Deadline
begin

text \<open>
  The pass behind \<open>refresh: true\<close>, \<open>crates/rqmd-cli/src/commands/refresh.rs\<close>: it composes
  the index lock, the list of collections and the update of one collection. \<open>before\<close> is
  the store as it is opened to look, \<open>held\<close> the store opened again once the lock is held
  (another process may have written in between). The deadline is looked at wherever the
  update looks for a signal; \<open>clock\<close> gives the time of each look.
\<close>

datatype refresh_error = RLock lock_error | RUpdate update_error

definition refresh_targets :: "codec \<Rightarrow> db \<Rightarrow> string list option \<Rightarrow> collection list" where
  "refresh_targets j db requested =
     (case requested of
        Some names \<Rightarrow> filter (\<lambda>c. col_name c \<in> set names) (list_collections j db)
      | None \<Rightarrow> list_collections j db)"

definition deadline_signal :: "(nat \<Rightarrow> nat \<Rightarrow> nat) \<Rightarrow> deadline \<Rightarrow> nat \<Rightarrow> nat \<Rightarrow> int option" where
  "deadline_signal clock d ci k = (if deadline_expired (clock ci k) d then Some 0 else None)"

fun refresh_collections ::
  "('ix, 'v, 'f, 'g) uenv \<Rightarrow> nat \<Rightarrow> collection list \<Rightarrow> ('ix, 'f) store \<Rightarrow> ('ix, 'f) store \<times> (update_error + refresh_outcome)" where
  "refresh_collections ue ci [] st = (st, Inr Refreshed)"
| "refresh_collections ue ci (col # cols) st =
     sbind (update_one_collection ue False False ci (col\<lparr>col_update_command := None\<rparr>) st) (\<lambda>st oc.
       if oc_interrupted oc \<noteq> None then (st, Inr TimedOut) else refresh_collections ue (ci + 1) cols st)"

definition refresh_index ::
  "('ix, 'v, 'f, 'g) uenv \<Rightarrow> (nat \<Rightarrow> nat \<Rightarrow> nat) \<Rightarrow> world \<Rightarrow> lock_io \<Rightarrow> nat \<Rightarrow> string list option \<Rightarrow> deadline
    \<Rightarrow> ('ix, 'f) store \<Rightarrow> ('ix, 'f) store \<Rightarrow> lock_dir option
    \<Rightarrow> lock_dir option \<times> ('ix, 'f) store \<times> (refresh_error + refresh_outcome)" where
  "refresh_index ue clock w io pid requested d before held dir =
     (if fts_rebuild_pending before then (dir, held, Inr RebuildPending)
      else
        (let cols = refresh_targets (u_codec ue) (st_db before) requested in
         if cols = [] then (dir, held, Inr Refreshed)
         else case try_acquire w io pid dir of
           (dir', Inl e) \<Rightarrow> (dir', held, Inl (RLock e))
         | (dir', Inr (Inl holder)) \<Rightarrow> (dir', held, Inr LockedOut)
         | (dir', Inr (Inr beat)) \<Rightarrow>
             (case refresh_collections (ue\<lparr>u_signal := deadline_signal clock d\<rparr>) 0 cols held of
                (st, r) \<Rightarrow> (drop_lock io dir', st, smap_err RUpdate r))))"

subsection \<open>No hook runs\<close>

lemma hook_other_fields:
  "u_env (ue\<lparr>u_hook := h\<rparr>) = u_env ue" "u_now (ue\<lparr>u_hook := h\<rparr>) = u_now ue" "u_signal (ue\<lparr>u_hook := h\<rparr>) = u_signal ue"
  "u_gs (ue\<lparr>u_hook := h\<rparr>) = u_gs ue" "u_walk (ue\<lparr>u_hook := h\<rparr>) = u_walk ue" "u_exists (ue\<lparr>u_hook := h\<rparr>) = u_exists ue"
  "u_codec (ue\<lparr>u_hook := h\<rparr>) = u_codec ue"
  by simp_all

lemma update_files_hook [simp]: "update_files (ue\<lparr>u_hook := h\<rparr>) coll cache ci n es t st = update_files ue coll cache ci n es t st"
proof (induction es arbitrary: n t st)
  case (Cons e es)
  have "update_file (ue\<lparr>u_hook := h\<rparr>) coll cache e t st = update_file ue coll cache e t st"
    unfolding update_file_def hook_other_fields ..
  with Cons show ?case by (simp split: option.split)
qed simp

lemma update_without_command:
  "col_update_command col = None \<Longrightarrow>
   update_one_collection (ue\<lparr>u_hook := h\<rparr>) allowed full ci col st = update_one_collection ue allowed full ci col st"
  unfolding update_one_collection_def run_update_hook_def update_walked_def update_files_hook hook_other_fields by simp

lemma refresh_collections_hook:
  "refresh_collections (ue\<lparr>u_hook := h\<rparr>) ci cols st = refresh_collections ue ci cols st"
  by (induction cols arbitrary: ci st) (simp_all add: update_without_command cong: if_cong)

text \<open>A refresh never runs a collection's update command: whatever the hooks would do, the
  lock, the store and the answer are the same.\<close>

theorem refresh_runs_no_hook:
  "refresh_index (ue\<lparr>u_hook := h\<rparr>) clock w io pid requested d before held dir
     = refresh_index ue clock w io pid requested d before held dir"
proof -
  have "(ue\<lparr>u_hook := h\<rparr>)\<lparr>u_signal := deadline_signal clock d\<rparr> = (ue\<lparr>u_signal := deadline_signal clock d\<rparr>)\<lparr>u_hook := h\<rparr>"
    by simp
  then show ?thesis unfolding refresh_index_def hook_other_fields by (simp only: refresh_collections_hook)
qed

lemma refresh_targets_distinct: "db_ok db \<Longrightarrow> distinct (map col_name (refresh_targets j db requested))"
  using db_okD(6) [of db]
  by (auto simp: refresh_targets_def list_collections_def to_collection_def tab_unique_def o_def
      intro!: distinct_map_filter split: option.splits)

subsection \<open>What a pass changes\<close>

definition outside_same :: "string set \<Rightarrow> db \<Rightarrow> db \<Rightarrow> bool" where
  "outside_same names db db' \<longleftrightarrow> (\<forall>c p. c \<notin> names \<longrightarrow> doc_at c p db' = doc_at c p db)"

lemma outside_same_mono: "A \<subseteq> B \<Longrightarrow> outside_same A db db' \<Longrightarrow> outside_same B db db'"
  by (auto simp: outside_same_def)

lemma refresh_collections_step:
  assumes "db_ok (st_db st)"
  shows "case refresh_collections ue ci cols st of
     (st', r) \<Rightarrow> db_ok (st_db st') \<and> outside_same (col_name ` set cols) (st_db st) (st_db st')"
  using assms
proof (induction cols arbitrary: ci st)
  case (Cons col cols)
  obtain st1 r1 where u: "update_one_collection ue False False ci (col\<lparr>col_update_command := None\<rparr>) st = (st1, r1)"
    by fastforce
  have s1: "db_ok (st_db st1)" "others_same (col_name col) (st_db st) (st_db st1)"
    using update_one_collection_step [OF Cons.prems, where ue = ue and allowed = False and full = False and ci = ci and col = "col\<lparr>col_update_command := None\<rparr>"] u by auto
  obtain st2 r2 where r: "refresh_collections ue (ci + 1) cols st1 = (st2, r2)" by fastforce
  have "db_ok (st_db st2) \<and> outside_same (col_name ` set cols) (st_db st1) (st_db st2)"
    using Cons.IH [OF s1(1), of "ci + 1"] r by simp
  with s1 r u show ?case
    by (cases r1) (auto simp: outside_same_def others_same_def)
qed (simp add: outside_same_def)

lemma refresh_targets_names:
  "col_name ` set (refresh_targets j db requested) \<subseteq> (case requested of None \<Rightarrow> UNIV | Some names \<Rightarrow> set names)"
  by (auto simp: refresh_targets_def split: option.splits)

text \<open>A collection is in step with the files its walk found, or was left alone (no such folder, an
  invalid mask, no file at all).\<close>

definition in_step :: "string \<Rightarrow> string set \<Rightarrow> db \<Rightarrow> db \<Rightarrow> bool" where
  "in_step coll found db db' \<longleftrightarrow>
     (\<forall>p. doc_at coll p db' = doc_at coll p db) \<or> found = {}
     \<or> (\<forall>p. is_active coll db' p \<longrightarrow> p \<in> found) \<and> (\<forall>p\<in>found. is_active coll db p \<longrightarrow> is_active coll db' p)"

lemma in_step_cong:
  "(\<And>p. doc_at c p db1 = doc_at c p db) \<Longrightarrow> (\<And>p. doc_at c p db1' = doc_at c p db') \<Longrightarrow>
   in_step c found db1 db1' = in_step c found db db'"
  by (simp add: in_step_def is_active_def)

lemma candidate_paths_refresh [simp]:
  "candidate_paths ue (col\<lparr>col_update_command := x\<rparr>) = candidate_paths ue col"
  "candidate_paths (ue\<lparr>u_signal := sg\<rparr>) col = candidate_paths ue col"
  by (cases "build_include_set (u_gs ue) (col_pattern col)"; simp add: candidate_paths_def for_collection_def)+

lemma promise_in_step:
  "update_promise c found oc db db' \<Longrightarrow> oc_interrupted oc = None \<Longrightarrow> in_step c found db db'"
  by (auto simp: update_promise_def in_step_def split: if_splits)

lemma refresh_collections_done:
  assumes "db_ok (st_db st)" and "distinct (map col_name cols)"
    and "refresh_collections ue ci cols st = (st', Inr Refreshed)" and "c \<in> set cols"
  shows "in_step (col_name c) (candidate_paths ue c) (st_db st) (st_db st')"
  using assms
proof (induction cols arbitrary: ci st)
  case (Cons col cols)
  obtain st1 r1 where u: "update_one_collection ue False False ci (col\<lparr>col_update_command := None\<rparr>) st = (st1, r1)"
    by fastforce
  with Cons.prems(3) obtain oc where oc: "r1 = Inr oc" "oc_interrupted oc = None"
    and r: "refresh_collections ue (ci + 1) cols st1 = (st', Inr Refreshed)"
    by (cases r1) (auto split: if_splits)
  have s1: "db_ok (st_db st1)" "others_same (col_name col) (st_db st) (st_db st1)"
    and p: "update_promise (col_name col) (candidate_paths ue col) oc (st_db st) (st_db st1)"
    using update_one_collection_step [OF Cons.prems(1), where ue = ue and allowed = False and full = False and ci = ci and col = "col\<lparr>col_update_command := None\<rparr>"] u oc by auto
  show ?case
  proof (cases "c = col")
    case True
    have "outside_same (col_name ` set cols) (st_db st1) (st_db st')"
      using refresh_collections_step [OF s1(1), where ue = ue and ci = "ci + 1" and cols = cols] r by simp
    then have "doc_at (col_name col) q (st_db st') = doc_at (col_name col) q (st_db st1)" for q
      using Cons.prems(2) by (auto simp: outside_same_def)
    then have "in_step (col_name col) (candidate_paths ue col) (st_db st) (st_db st')
        = in_step (col_name col) (candidate_paths ue col) (st_db st) (st_db st1)"
      by (intro in_step_cong) simp_all
    with promise_in_step [OF p oc(2)] True show ?thesis by simp
  next
    case False
    then have "c \<in> set cols" using Cons.prems(4) by simp
    moreover from this have "col_name c \<in> col_name ` set cols" by (rule imageI)
    then have "col_name c \<noteq> col_name col" using Cons.prems(2) by auto
    ultimately have c: "c \<in> set cols" "col_name c \<noteq> col_name col" by blast+
    have "in_step (col_name c) (candidate_paths ue c) (st_db st1) (st_db st')"
      using Cons.IH [OF s1(1) _ r c(1)] Cons.prems(2) by simp
    moreover
    have "doc_at (col_name c) q (st_db st1) = doc_at (col_name c) q (st_db st)" for q
      using s1(2) c(2) by (simp add: others_same_def)
    then have "in_step (col_name c) (candidate_paths ue c) (st_db st1) (st_db st')
        = in_step (col_name c) (candidate_paths ue c) (st_db st) (st_db st')"
      by (intro in_step_cong) simp_all
    ultimately show ?thesis by simp
  qed
qed simp

lemma refresh_collections_outcome:
  "refresh_collections ue ci cols st = (st', r) \<Longrightarrow> r \<noteq> Inr LockedOut \<and> r \<noteq> Inr RebuildPending"
proof (induction cols arbitrary: ci st)
  case (Cons col cols)
  obtain st1 r1 where "update_one_collection ue False False ci (col\<lparr>col_update_command := None\<rparr>) st = (st1, r1)"
    by fastforce
  with Cons show ?case by (cases r1) (auto split: if_splits)
qed auto

lemma try_acquire_held: "try_acquire w io pid dir = (dir', Inr (Inl holder)) \<Longrightarrow> dir' = dir"
  by (auto simp: try_acquire_def claim_dir_def split: if_splits option.splits lock_state.splits prod.splits bool.splits)



end
