(* ===== verification/McpTools.thy ===== *)
theory McpTools
  imports Mcp Hybrid Resolve SearchScope HybridSpec
begin

text \<open>
  The tools of the MCP server over an opened store, \<open>crates/rqmd-mcp/src/server.rs\<close>: \<open>get\<close>,
  \<open>multi_get\<close>, \<open>search\<close>, \<open>query\<close> and \<open>status\<close>, with the texts they answer. The index on disk
  is \<open>Some\<close> store or none; opening or checking out a handle, the refresher and the clock are
  parameters (\<open>mcp\<close>). A panic inside a tool becomes the error of its task.
\<close>

subsection \<open>Texts\<close>

definition pad_left :: "nat \<Rightarrow> string \<Rightarrow> string" where
  "pad_left n s = replicate (n - length (chars s)) (CHR '' '') @ s"

definition pad_right :: "nat \<Rightarrow> string \<Rightarrow> string" where
  "pad_right n s = s @ replicate (n - length (chars s)) (CHR '' '')"

definition hline :: "nat \<Rightarrow> string" where
  "hline n = concat (replicate n [CHR 0xE2, CHR 0x94, CHR 0x80])"

definition dec_int :: "int \<Rightarrow> string" where
  "dec_int i = (if i < 0 then ''-'' @ dec (nat (- i)) else dec (nat i))"

text \<open>\<open>{:.3}\<close>: the exact value to three places, ties to even.\<close>

definition fixed3 :: "flt \<Rightarrow> string" where
  "fixed3 x =
     (case x of
        NaN \<Rightarrow> ''NaN'' | PInf \<Rightarrow> ''inf'' | NInf \<Rightarrow> ''-inf''
      | Fin q \<Rightarrow>
          (let n = nat (round_half_even (abs q * 1000)) in
           (if q < 0 then ''-'' else []) @ dec (n div 1000) @ ''.'' @ pad 3 (n mod 1000)))"

definition section_suffix :: "(nat \<times> nat) option \<Rightarrow> string" where
  "section_suffix s =
     (case s of None \<Rightarrow> []
      | Some (n, tot) \<Rightarrow> '' '' @ [CHR 0xC2, CHR 0xB7] @ '' section '' @ dec n @ '' of '' @ dec tot)"

definition format_row :: "nat \<Rightarrow> search_result \<Rightarrow> (nat \<times> nat) option \<Rightarrow> string" where
  "format_row n r sec =
     ''['' @ dec n @ ''] '' @ sr_title r @ '' #'' @ sr_docid r @ [NL] @ ''  rqmd://'' @ sr_collection r @ ''/'' @ sr_path r
       @ '' '' @ [CHR 0xC2, CHR 0xB7] @ '' score '' @ fixed3 (sr_score r) @ section_suffix sec @ [NL]
       @ concat (map (\<lambda>l. ''  '' @ l @ [NL]) (take 4 (lines (trim (sr_best_chunk r))))) @ [NL]"

definition format_results :: "search_result list \<Rightarrow> string \<Rightarrow> nat \<Rightarrow> bool \<Rightarrow> string" where
  "format_results results query offset has_more =
     (if results = [] then
        (if offset = 0 then ''No results found for: '' @ query
         else ''No results found for: '' @ query @ '' (offset '' @ dec offset @ '' is past the last result)'')
      else
        ''Found '' @ dec (length results) @ '' result(s) for '' @ [CHR 0x22] @ query @ [CHR 0x22]
        @ (if offset = 0 then [] else '' (offset '' @ dec offset @ '')'') @ '':'' @ [NL, NL]
        @ concat (map (\<lambda>(i, r, s). format_row (offset + i + 1) r s) (enumerate 0 (zip results (section_numbers results))))
        @ (if has_more then ''More results are available: pass offset='' @ dec (offset + length results) @ ''.'' @ [NL] else []))"

definition with_note :: "string \<Rightarrow> string option \<Rightarrow> string" where
  "with_note t note = (case note of Some n \<Rightarrow> trim_end t @ [NL] @ ''Note: '' @ n @ [NL] | None \<Rightarrow> t)"

definition with_rerank_note :: "string \<Rightarrow> rerank_status \<Rightarrow> string" where
  "with_rerank_note t status = with_note t (rerank_notice status)"

definition with_refresh_note :: "string \<Rightarrow> string option \<Rightarrow> string" where
  "with_refresh_note t note = with_note t note"

subsection \<open>Errors\<close>

datatype tool_error =
    BadRecency half_life_error
  | NoIndex
  | BackendFailed string
  | QueryFailed search_error
  | StoreFailed string
  | SearchFailed search_error
  | CannotParsePath string
  | DocumentNotFound string
  | ResolveFailed resolve_error
  | TaskFailed

definition no_index_message :: string where
  "no_index_message = ''no index; run `rqmd collection add <path>` to create one''"

subsection \<open>get\<close>

definition numbered_lines :: "nat \<Rightarrow> string list \<Rightarrow> string" where
  "numbered_lines start ls =
     concat (map (\<lambda>(i, l). pad_left 4 (dec (start + i + 1)) @ '': '' @ l @ [NL]) (enumerate 0 ls))"

definition document_header :: "document \<Rightarrow> string" where
  "document_header d =
     ''# '' @ doc_title d @ [NL] @ hline 2 @ '' rqmd://'' @ doc_collection d @ ''/'' @ doc_path d @ '' '' @ hline 2 @ [NL, NL]"

definition lookup_document :: "db \<Rightarrow> string \<Rightarrow> tool_error + document" where
  "lookup_document db lookup =
     (if starts_with ''#'' lookup
      then (case get_document_by_docid_prefix (trim_start_char (CHR ''#'') lookup) db of
              Some d \<Rightarrow> Inr d | None \<Rightarrow> Inl (DocumentNotFound lookup))
      else (case split_once (CHR ''/'') lookup of
              None \<Rightarrow> Inl (CannotParsePath lookup)
            | Some (col, path) \<Rightarrow>
                (case get_active_document_by_filepath col path db of
                   Some d \<Rightarrow> Inr d | None \<Rightarrow> Inl (DocumentNotFound lookup))))"

definition get_document :: "('ix, 'f) store \<Rightarrow> string \<Rightarrow> nat option \<Rightarrow> nat option \<Rightarrow> tool_error + string" where
  "get_document st lookup from_line max_lines =
     rbind (lookup_document (st_db st) lookup) (\<lambda>d.
       case cap_body (raw_body st (doc_id d)) from_line max_lines MAX_DOC_BYTES of
         None \<Rightarrow> Inl TaskFailed
       | Some w \<Rightarrow> Inr (document_header d @ numbered_lines (bw_start w) (bw_lines w) @ truncation_note w))"

subsection \<open>multi_get\<close>

definition cap_multi_get_docs :: "document list \<Rightarrow> nat \<Rightarrow> document list \<times> nat \<times> bool" where
  "cap_multi_get_docs docs most = (take most docs, length docs, most < length docs)"

text \<open>The loop over the documents: the window of each, while there is budget left.\<close>

fun multi_get_windows :: "('ix, 'f) store \<Rightarrow> nat option \<Rightarrow> nat \<Rightarrow> document list \<Rightarrow> (document \<times> body_window) list option" where
  "multi_get_windows st max_lines budget [] = Some []"
| "multi_get_windows st max_lines budget (d # ds) =
     (if budget = 0 then Some []
      else case cap_body (raw_body st (doc_id d)) None max_lines (min MAX_DOC_BYTES budget) of
             None \<Rightarrow> None
           | Some w \<Rightarrow> map_option ((#) (d, w)) (multi_get_windows st max_lines (budget - bw_bytes w) ds))"

definition window_text :: "document \<times> body_window \<Rightarrow> string" where
  "window_text dw =
     document_header (fst dw) @ join [NL] (bw_lines (snd dw))
       @ (if bw_capped (snd dw) then [NL] @ trim_end (truncation_note (snd dw)) else []) @ [NL]"

definition MULTI_GET_MAX_NOTED_ENTRIES :: nat where "MULTI_GET_MAX_NOTED_ENTRIES = 20"

text \<open>\<open>dbg\<close> is \<open>{:?}\<close> of a string.\<close>

definition multi_get_report_notes :: "(string \<Rightarrow> string) \<Rightarrow> multi_get_report \<Rightarrow> string" where
  "multi_get_report_notes dbg report =
     (let ls = map (\<lambda>e. ''Note: no document matched '' @ dbg e @ ''.'') (mr_unmatched report)
             @ map (\<lambda>(e, n). ''Note: '' @ dbg e @ '' matched '' @ dec n @ '' documents; all are returned.'') (mr_ambiguous report);
          out = concat (map (\<lambda>l. [NL] @ l) (take MULTI_GET_MAX_NOTED_ENTRIES ls))
             @ (if MULTI_GET_MAX_NOTED_ENTRIES < length ls
                then [NL] @ ''Note: '' @ dec (length ls - MULTI_GET_MAX_NOTED_ENTRIES)
                  @ '' more entries matched no document or more than one.''
                else [])
      in if out \<noteq> [] then out @ [NL] else out)"

definition multi_get_documents ::
  "(string \<Rightarrow> (string \<Rightarrow> bool) option) \<Rightarrow> (string \<Rightarrow> string) \<Rightarrow> ('ix, 'f) store \<Rightarrow> string \<Rightarrow> string list option \<Rightarrow> nat option
    \<Rightarrow> tool_error + string" where
  "multi_get_documents glob dbg st pattern cols max_lines =
     (case resolve_multi_get_report glob (st_db st) cols pattern of
        Inl e \<Rightarrow> Inl (ResolveFailed e)
      | Inr report \<Rightarrow>
          (let notes = multi_get_report_notes dbg report in
           case cap_multi_get_docs (mr_documents report) MULTI_GET_MAX_DOCS of
             (docs, matched, truncated) \<Rightarrow>
               (case multi_get_windows st max_lines MULTI_GET_MAX_TOTAL_BYTES docs of
                  None \<Rightarrow> Inl TaskFailed
                | Some [] \<Rightarrow> Inr (''No documents matched: '' @ pattern @ notes)
                | Some ws \<Rightarrow>
                    Inr (join ([NL] @ hline 24 @ [NL, NL]) (map window_text ws)
                      @ (if truncated
                         then [NL] @ ''[Showing '' @ dec (length ws) @ '' of '' @ dec matched @ '' matched documents; ''
                           @ dec (matched - length ws) @ '' dropped '' @ [CHR 0xE2, CHR 0x80, CHR 0x94]
                           @ '' multi_get is capped at '' @ dec MULTI_GET_MAX_DOCS @ '' per call.]'' @ [NL]
                         else [])
                      @ (if length ws < length docs
                         then [NL] @ ''[Output budget of '' @ dec MULTI_GET_MAX_TOTAL_BYTES @ '' bytes reached after ''
                           @ dec (length ws) @ '' documents; '' @ dec (length docs - length ws)
                           @ '' more matched and were omitted '' @ [CHR 0xE2, CHR 0x80, CHR 0x94]
                           @ '' narrow the pattern or use get.]'' @ [NL]
                         else [])
                      @ notes))))"

subsection \<open>The server\<close>

record ('ix, 'v, 'f, 'g) mcp =
  mc_qe :: "('ix, 'v, 'f, 'g) qenv"
  mc_glob :: "string \<Rightarrow> (string \<Rightarrow> bool) option"
  mc_dbg :: "string \<Rightarrow> string"
  mc_fts :: "('ix, 'f) store \<Rightarrow> string + ('ix, 'f) store"   \<comment> \<open>a checked-out reader of this index\<close>
  mc_ml :: "('ix, 'f) store \<Rightarrow> string + ('ix, 'f) store"    \<comment> \<open>the model store, reloaded\<close>
  mc_refresh :: "(string list option \<Rightarrow> deadline \<Rightarrow> ('ix, 'f) store \<Rightarrow> ('ix, 'f) store \<times> (string + refresh_outcome)) option"
  mc_now :: nat
  mc_timeout :: nat
  mc_model :: string                                        \<comment> \<open>the embed model of the configured backend\<close>
  mc_backend :: string

record search_input =
  si_query :: string
  si_collections :: "string list option"
  si_limit :: "nat option"
  si_offset :: "nat option"
  si_per_file :: "nat option"
  si_recency :: "string option"
  si_refresh :: "bool option"

record query_input = search_input +
  qi_intent :: "string option"
  qi_rerank :: "bool option"
  qi_expand :: "bool option"
  qi_strict_timeout :: "bool option"

definition is_set :: "bool option \<Rightarrow> bool \<Rightarrow> bool" where
  "is_set b preset = (case b of None \<Rightarrow> preset | Some x \<Rightarrow> x)"

definition refresh_note ::
  "('ix, 'v, 'f, 'g) mcp \<Rightarrow> bool option \<Rightarrow> string list option \<Rightarrow> ('ix, 'f) store \<Rightarrow> ('ix, 'f) store \<times> string option" where
  "refresh_note mc refresh cols disk =
     (if \<not> is_set refresh False then (disk, None)
      else case mc_refresh mc of
             None \<Rightarrow> (disk, Some UNAVAILABLE_NOTICE)
           | Some run \<Rightarrow>
               (case run cols (deadline_after (mc_now mc) (mc_timeout mc)) disk of
                  (disk', Inr outcome) \<Rightarrow> (disk', refresh_notice outcome)
                | (disk', Inl _) \<Rightarrow> (disk', Some FAILED_NOTICE)))"

text \<open>What a search answers before it is put into words.\<close>

record page =
  pg_results :: "search_result list"
  pg_has_more :: bool
  pg_offset :: nat
  pg_rerank :: rerank_status
  pg_recency :: "recency option"
  pg_refresh :: "string option"

definition search_page ::
  "('ix, 'v, 'f, 'g) mcp \<Rightarrow> 'a search_input_scheme \<Rightarrow> ('ix, 'f) store option \<Rightarrow> ('ix, 'f) store option \<times> (tool_error + page)" where
  "search_page mc p disk =
     (let limit = clamp_limit (si_limit p) 10; offset = clamp_offset (si_offset p); cols = si_collections p in
      case recency_of (si_recency p) of
        Inl e \<Rightarrow> (disk, Inl (BadRecency e))
      | Inr recency \<Rightarrow>
          (case disk of
             None \<Rightarrow> (disk, Inl NoIndex)
           | Some st0 \<Rightarrow>
               (case refresh_note mc (si_refresh p) cols st0 of
                  (st1, note) \<Rightarrow>
                    (Some st1,
                     (case mc_fts mc st1 of
                        Inl e \<Rightarrow> Inl (StoreFailed e)
                      | Inr st \<Rightarrow>
                          (case store_search_fts_multi_with (mc_qe mc) st (si_query p) (fetch_len offset limit) cols
                              ((mcp_search_options (si_per_file p))\<lparr>opt_recency := recency\<rparr>) of
                             Inl e \<Rightarrow> Inl (SearchFailed e)
                           | Inr results \<Rightarrow>
                               (case page_of results offset limit of
                                  (page, has_more) \<Rightarrow>
                                    Inr \<lparr>pg_results = page, pg_has_more = has_more, pg_offset = offset,
                                         pg_rerank = NotRun, pg_recency = recency, pg_refresh = note\<rparr>)))))))"

definition query_page ::
  "('ix, 'v, 'f, 'g) mcp \<Rightarrow> query_input \<Rightarrow> ('ix, 'f) store option \<Rightarrow> model_cache option
    \<Rightarrow> ('ix, 'f) store option \<times> model_cache option \<times> (tool_error + page)" where
  "query_page mc p disk cache =
     (let no_rerank = (\<not> is_set (qi_rerank p) True); no_expand = (\<not> is_set (qi_expand p) True);
          limit = clamp_limit (si_limit p) 10; offset = clamp_offset (si_offset p); cols = si_collections p in
      case recency_of (si_recency p) of
        Inl e \<Rightarrow> (disk, cache, Inl (BadRecency e))
      | Inr recency \<Rightarrow>
          (case disk of
             None \<Rightarrow> (disk, cache, Inl NoIndex)
           | Some st0 \<Rightarrow>
               (case refresh_note mc (si_refresh p) cols st0 of
                  (st1, note) \<Rightarrow>
                    (Some st1,
                     (case mc_ml mc st1 of
                        Inl e \<Rightarrow> (cache, Inl (BackendFailed e))
                      | Inr st \<Rightarrow>
                          (case hybrid_query_outcome_with (mc_qe mc) st (si_query p) (qi_intent p) (fetch_len offset limit) cols
                              no_rerank no_expand (deadline_after (mc_now mc) (mc_timeout mc)) (is_set (qi_strict_timeout p) False)
                              ((mcp_search_options (si_per_file p))\<lparr>opt_recency := recency\<rparr>) cache of
                             (cache, Inl e) \<Rightarrow> (cache, Inl (QueryFailed e))
                           | (cache, Inr outcome) \<Rightarrow>
                               (case page_of (out_results outcome) offset limit of
                                  (page, has_more) \<Rightarrow>
                                    (cache, Inr \<lparr>pg_results = page, pg_has_more = has_more, pg_offset = offset,
                                         pg_rerank = out_rerank outcome, pg_recency = recency, pg_refresh = note\<rparr>))))))))"

definition page_text :: "string \<Rightarrow> page \<Rightarrow> string" where
  "page_text query pg =
     with_refresh_note
       (with_note (with_rerank_note (format_results (pg_results pg) query (pg_offset pg) (pg_has_more pg)) (pg_rerank pg))
         (map_option recency_notice (pg_recency pg)))
       (pg_refresh pg)"

definition search_blocking ::
  "('ix, 'v, 'f, 'g) mcp \<Rightarrow> search_input \<Rightarrow> ('ix, 'f) store option \<Rightarrow> ('ix, 'f) store option \<times> (tool_error + string)" where
  "search_blocking mc p disk =
     (case search_page mc p disk of (disk', r) \<Rightarrow> (disk', rbind r (\<lambda>pg. Inr (page_text (si_query p) pg))))"

definition query_blocking ::
  "('ix, 'v, 'f, 'g) mcp \<Rightarrow> query_input \<Rightarrow> ('ix, 'f) store option \<Rightarrow> model_cache option
    \<Rightarrow> ('ix, 'f) store option \<times> model_cache option \<times> (tool_error + string)" where
  "query_blocking mc p disk cache =
     (case query_page mc p disk cache of
        (disk', cache', r) \<Rightarrow> (disk', cache', rbind r (\<lambda>pg. Inr (page_text (si_query p) pg))))"

definition get_blocking ::
  "('ix, 'v, 'f, 'g) mcp \<Rightarrow> string \<Rightarrow> nat option \<Rightarrow> nat option \<Rightarrow> ('ix, 'f) store option \<Rightarrow> tool_error + string" where
  "get_blocking mc name from_line max_lines disk =
     (case parse_file_spec name from_line max_lines of
        (lookup, fl, ml) \<Rightarrow>
          (case disk of
             None \<Rightarrow> Inl NoIndex
           | Some st0 \<Rightarrow> (case mc_fts mc st0 of Inl e \<Rightarrow> Inl (StoreFailed e) | Inr st \<Rightarrow> get_document st lookup fl ml)))"

definition multi_get_blocking ::
  "('ix, 'v, 'f, 'g) mcp \<Rightarrow> string \<Rightarrow> string list option \<Rightarrow> nat option \<Rightarrow> ('ix, 'f) store option \<Rightarrow> tool_error + string" where
  "multi_get_blocking mc pattern cols max_lines disk =
     (case disk of
        None \<Rightarrow> Inl NoIndex
      | Some st0 \<Rightarrow>
          (case mc_fts mc st0 of
             Inl e \<Rightarrow> Inl (StoreFailed e)
           | Inr st \<Rightarrow> multi_get_documents (mc_glob mc) (mc_dbg mc) st pattern cols max_lines))"

subsection \<open>status\<close>

definition build_status :: "('ix, 'v, 'f, 'g) mcp \<Rightarrow> ('ix, 'f) store \<Rightarrow> string" where
  "build_status mc st =
     (let db = st_db st; env = q_env (mc_qe mc);
          pending = pending_embed_count (q_gs (mc_qe mc)) (q_codec (mc_qe mc)) db
            (expected_embed_fingerprint (e_sha env) (e_feats env) (mc_model mc))
            (expected_embed_ast_fingerprints (e_sha env) (e_feats env) (mc_model mc));
          cols = list_collections (q_codec (mc_qe mc)) db
      in ''RQMD Index Status'' @ [NL] @ ''  Docs:     '' @ dec (length (filter d_active (documents db))) @ [NL]
         @ ''  Vectors:  '' @ dec (length (vectors db)) @ [NL]
         @ ''  Pending embed: '' @ dec_int pending @ '' (backend: '' @ ascii_lower (mc_backend mc) @ '')'' @ [NL, NL]
         @ (if cols = [] then ''  No collections.'' @ [NL]
            else ''  '' @ pad_right 28 ''COLLECTION'' @ ''  '' @ pad_left 6 ''DOCS'' @ [NL] @ ''  '' @ hline 36 @ [NL]
              @ concat (map (\<lambda>c. ''  '' @ pad_right 28 (col_name c) @ ''  ''
                   @ pad_left 6 (dec_int (fst (collection_doc_stats (col_name c) db))) @ [NL]) cols)))"

definition status_blocking :: "('ix, 'v, 'f, 'g) mcp \<Rightarrow> ('ix, 'f) store option \<Rightarrow> tool_error + string" where
  "status_blocking mc disk =
     (case disk of
        None \<Rightarrow> Inr no_index_message
      | Some st0 \<Rightarrow> (case mc_fts mc st0 of Inl e \<Rightarrow> Inl (StoreFailed e) | Inr st \<Rightarrow> Inr (build_status mc st)))"

subsection \<open>Within the budget\<close>

lemma cap_body_fits: "\<exists>w. cap_body body fl ml cap = Some w \<and> bw_bytes w \<le> cap"
  using cap_body_window [of body fl ml cap] by blast

text \<open>C34: One \<open>multi_get\<close> answers within its bounds: at most 200 documents and 4 MiB of their
  text, at most 256 KiB of each; cutting never panics; the documents shown are the first of
  those that matched, each once and in order, and one is left out only when the budget is
  used up to the last byte.\<close>

theorem multi_get_within_budget:
  "\<exists>ws. multi_get_windows st max_lines budget docs = Some ws
     \<and> map fst ws = take (length ws) docs
     \<and> sum_list (map (\<lambda>(_, w). bw_bytes w) ws) \<le> budget
     \<and> list_all (\<lambda>(_, w). bw_bytes w \<le> MAX_DOC_BYTES) ws
     \<and> (length ws = length docs \<or> sum_list (map (\<lambda>(_, w). bw_bytes w) ws) = budget)
     \<and> length (fst (cap_multi_get_docs docs MULTI_GET_MAX_DOCS)) \<le> 200"
proof -
  have "\<exists>ws. multi_get_windows st max_lines budget docs = Some ws
     \<and> map fst ws = take (length ws) docs
     \<and> sum_list (map (\<lambda>(_, w). bw_bytes w) ws) \<le> budget
     \<and> list_all (\<lambda>(_, w). bw_bytes w \<le> MAX_DOC_BYTES) ws
     \<and> (length ws = length docs \<or> sum_list (map (\<lambda>(_, w). bw_bytes w) ws) = budget)"
  proof (induction docs arbitrary: budget)
    case (Cons d ds)
    show ?case
    proof (cases "budget = 0")
      case False
      obtain w where w: "cap_body (raw_body st (doc_id d)) None max_lines (min MAX_DOC_BYTES budget) = Some w"
        "bw_bytes w \<le> min MAX_DOC_BYTES budget"
        using cap_body_fits by blast
      obtain ws where ws: "multi_get_windows st max_lines (budget - bw_bytes w) ds = Some ws"
        "map fst ws = take (length ws) ds"
        "sum_list (map (\<lambda>(_, w). bw_bytes w) ws) \<le> budget - bw_bytes w"
        "list_all (\<lambda>(_, w). bw_bytes w \<le> MAX_DOC_BYTES) ws"
        "length ws = length ds \<or> sum_list (map (\<lambda>(_, w). bw_bytes w) ws) = budget - bw_bytes w"
        using Cons.IH [of "budget - bw_bytes w"] by blast
      with w False show ?thesis by (intro exI [of _ "(d, w) # ws"]) auto
    qed simp
  qed simp
  then show ?thesis by (simp add: cap_multi_get_docs_def MULTI_GET_MAX_DOCS_def)
qed

text \<open>With one byte of budget left, a document that starts with text shows nothing and uses
  nothing, so the loop goes on through all the rest.\<close>

lemma one_byte_is_stuck:
  assumes "lines (raw_body st (doc_id d)) = l # ls" and "l \<noteq> []" and "max_lines = None"
  shows "multi_get_windows st max_lines 1 (d # ds) =
    map_option ((#) (d, \<lparr>bw_lines = [], bw_start = 0, bw_total_lines = length (l # ls), bw_capped = True\<rparr>))
      (multi_get_windows st max_lines 1 ds)"
  using assms
  by (simp add: cap_body_def DEFAULT_MAX_LINES_def MAX_DOC_BYTES_def snap_char_boundary_backward_def bw_bytes_def)

subsection \<open>Reading a range of lines\<close>

lemma cap_lines_fit:
  "n \<le> line_limit \<Longrightarrow> used + sum_list (map (\<lambda>l. length l + 1) (take (line_limit - n) ls)) \<le> byte_cap \<Longrightarrow>
   cap_lines line_limit False byte_cap n used ls = Some (take (line_limit - n) ls, False)"
proof (induction ls arbitrary: n used)
  case (Cons l ls)
  show ?case
  proof (cases "n = line_limit")
    case False
    then have m: "line_limit - n = Suc (line_limit - (n + 1))" using Cons.prems(1) by simp
    then have "cap_lines line_limit False byte_cap (n + 1) (used + (length l + 1)) ls = Some (take (line_limit - (n + 1)) ls, False)"
      using Cons.prems False by (intro Cons.IH) simp_all
    moreover have "length l < byte_cap - used" using Cons.prems(2) m by simp
    ultimately show ?thesis using Cons.prems(1) False m by simp
  qed simp
qed simp

lemma lookup_full_path:
  assumes "CHR ''/'' \<notin> set coll" and "\<not> starts_with ''#'' coll" and "coll \<noteq> []"
    and "get_active_document_by_filepath coll path db = Some d"
  shows "lookup_document db (full_path coll path) = Inr d"
proof -
  have "\<not> starts_with ''#'' (coll @ ''/'' @ path)"
    using assms(2,3) by (cases coll) (simp_all add: starts_with_def)
  then show ?thesis
    using split_once_append [OF assms(1), of path] assms(4) by (simp add: lookup_document_def full_path_def)
qed

text \<open>C35: \<open>get\<close> with a line range answers those lines: for an active document named by collection
  and path with the suffix \<open>:from:count\<close>, the reply is its header and the lines \<open>from\<close> to
  \<open>from + count - 1\<close> of its text as stored, as far as they exist, each with its own number,
  with nothing cut as long as they fit the size of one response.\<close>

theorem get_reads_lines:
  assumes open_: "mc_fts mc disk = Inr st"
    and name: "CHR ''/'' \<notin> set coll" "\<not> starts_with ''#'' coll" "coll \<noteq> []" "\<not> numbered (full_path coll path)"
    and doc: "get_active_document_by_filepath coll path (st_db st) = Some d"
    and range: "from_no < 2 ^ 64" "n < 2 ^ 64"
    and fits: "sum_list (map (\<lambda>l. length l + 1) (take n (drop (from_no - 1) (lines (raw_body st (doc_id d)))))) \<le> MAX_DOC_BYTES"
  shows "get_blocking mc (full_path coll path @ '':'' @ dec from_no @ '':'' @ dec n) None None (Some disk)
    = Inr (document_header d @ numbered_lines (from_no - 1) (take n (drop (from_no - 1) (lines (raw_body st (doc_id d))))))"
proof -
  have spec: "parse_file_spec (full_path coll path @ '':'' @ dec from_no @ '':'' @ dec n) None None
      = (full_path coll path, Some from_no, Some n)"
    using parse_file_range [OF range name(4), of None None] by (simp add: or_else_def)
  have "cap_body (raw_body st (doc_id d)) (Some from_no) (Some n) MAX_DOC_BYTES =
      Some \<lparr>bw_lines = take n (drop (from_no - 1) (lines (raw_body st (doc_id d)))), bw_start = from_no - 1,
        bw_total_lines = length (lines (raw_body st (doc_id d))), bw_capped = False\<rparr>"
    using cap_lines_fit [of 0 n 0 "drop (from_no - 1) (lines (raw_body st (doc_id d)))" MAX_DOC_BYTES] fits
    by (simp add: cap_body_def Let_def)
  then have "get_document st (full_path coll path) (Some from_no) (Some n)
      = Inr (document_header d @ numbered_lines (from_no - 1) (take n (drop (from_no - 1) (lines (raw_body st (doc_id d))))))"
    by (simp add: get_document_def lookup_full_path [OF name(1-3) doc] truncation_note_def)
  then show ?thesis
    unfolding get_blocking_def spec by (simp add: open_)
qed

subsection \<open>The search tool\<close>

text \<open>Whatever a client passes, the page of the \<open>search\<close> tool holds at most the clamped limit
  of results, each a stored document of the collections asked for, read from the index as
  it is after the refresh; it says that more results exist only when the page is full;
  without \<open>refresh\<close> the index is untouched, and a refresh that could not bring the index up to
  date leaves a note.\<close>

theorem search_tool_in_scope:
  assumes run: "search_page mc p (Some disk) = (Some disk', Inr pg)"
    and open_: "mc_fts mc disk' = Inr st" and ok: "db_ok (st_db st)"
    and scope: "effective_collections (q_codec (mc_qe mc)) (st_db st) (si_collections p) = Some cs" "plain_names cs"
  shows "length (pg_results pg) \<le> clamp_limit (si_limit p) 10
    \<and> list_all (shows_doc st cs) (pg_results pg)
    \<and> (pg_has_more pg \<longrightarrow> length (pg_results pg) = clamp_limit (si_limit p) 10)
    \<and> (disk', pg_refresh pg) = refresh_note mc (si_refresh p) (si_collections p) disk
    \<and> (\<not> is_set (si_refresh p) False \<longrightarrow> disk' = disk \<and> pg_refresh pg = None)"
proof -
  define limit where "limit = clamp_limit (si_limit p) 10"
  define offset where "offset = clamp_offset (si_offset p)"
  obtain recency where rec: "recency_of (si_recency p) = Inr recency"
    using run by (cases "recency_of (si_recency p)") (simp_all add: search_page_def Let_def)
  obtain disk1 notice where notice: "refresh_note mc (si_refresh p) (si_collections p) disk = (disk1, notice)" by fastforce
  have "disk1 = disk'" using run by (auto simp: search_page_def rec notice Let_def split: sum.splits prod.splits)
  define options where "options = (mcp_search_options (si_per_file p))\<lparr>opt_recency := recency\<rparr>"
  obtain results where res: "store_search_fts_multi_with (mc_qe mc) st (si_query p) (fetch_len offset limit) (si_collections p) options = Inr results"
    using run by (auto simp: search_page_def rec notice \<open>disk1 = disk'\<close> open_ Let_def limit_def offset_def options_def split: sum.splits prod.splits)
  have pg: "pg_results pg = fst (page_of results offset limit)" "pg_has_more pg = snd (page_of results offset limit)"
    "pg_refresh pg = notice"
    using run res by (auto simp: search_page_def rec notice \<open>disk1 = disk'\<close> open_ Let_def limit_def offset_def options_def split: prod.splits)
  have shown: "list_all (shows_doc st cs) results"
    using keyword_search_shows [OF ok scope, where query = "si_query p" and limit = "fetch_len offset limit" and options = options] res by simp
  have "set (fst (page_of results offset limit)) \<subseteq> set results"
    by (auto simp: page_of_def dest!: in_set_takeD in_set_dropD split: if_splits)
  with shown have "list_all (shows_doc st cs) (pg_results pg)" by (auto simp: list_all_iff pg)
  moreover have "length (pg_results pg) \<le> limit" "pg_has_more pg \<longrightarrow> length (pg_results pg) = limit"
    by (auto simp: pg page_of_def)
  moreover have "\<not> is_set (si_refresh p) False \<longrightarrow> disk' = disk \<and> notice = None"
    using notice \<open>disk1 = disk'\<close> by (auto simp: refresh_note_def)
  ultimately show ?thesis using notice \<open>disk1 = disk'\<close> by (simp add: limit_def pg)
qed

text \<open>Without an index no tool does anything: the searches do not even refresh.\<close>

lemma no_index_answers:
  "recency_of (si_recency p) = Inr r \<Longrightarrow> search_blocking mc p None = (None, Inl NoIndex)"
  "recency_of (si_recency q) = Inr r \<Longrightarrow> query_blocking mc q None cache = (None, cache, Inl NoIndex)"
  "get_blocking mc name fl ml None = Inl NoIndex"
  "multi_get_blocking mc pattern cols ml None = Inl NoIndex"
  "status_blocking mc None = Inr no_index_message"
  by (simp_all add: search_blocking_def search_page_def query_blocking_def query_page_def get_blocking_def
      multi_get_blocking_def status_blocking_def Let_def split: prod.split)

subsection \<open>A sample server\<close>

definition sample_mcp :: "(nat \<times> (nat \<times> nat) list, nat, nat \<times> (nat \<times> nat) list, unit) mcp" where
  "sample_mcp = \<lparr>mc_qe = sample_qenv, mc_glob = (\<lambda>_. None), mc_dbg = (\<lambda>s. s), mc_fts = Inr, mc_ml = Inr, mc_refresh = None,
     mc_now = 0, mc_timeout = 120 * NANOS, mc_model = ''m'', mc_backend = ''K''\<rparr>"

definition one_document :: "(nat \<times> (nat \<times> nat) list, nat \<times> (nat \<times> nat) list) store" where
  "one_document = empty_store\<lparr>st_db := empty_db\<lparr>documents :=
     [\<lparr>d_id = 1, d_collection = ''c'', d_path = ''a.md'', d_title = ''A'', d_hash = ''h'', d_created = [], d_modified = [],
       d_active = True, d_raw = ''one'' @ [NL] @ ''two'' @ [NL] @ ''three'', d_size = None, d_mtime_ns = None, d_prev_hash = None\<rparr>]\<rparr>\<rparr>"

lemma get_reads_lines_witness:
  "\<exists>d. doc_title d = ''A'' \<and>
     get_blocking sample_mcp (full_path ''c'' ''a.md'' @ '':'' @ dec 2 @ '':'' @ dec 1) None None (Some one_document)
       = Inr (document_header d @ numbered_lines 1 [''two''])"
proof -
  define d where "d = \<lparr>doc_id = 1, doc_collection = ''c'', doc_path = ''a.md'', doc_title = ''A'', doc_hash = ''h'', doc_active = True\<rparr>"
  have doc: "get_active_document_by_filepath ''c'' ''a.md'' (st_db one_document) = Some d"
    by (simp add: get_active_document_by_filepath_def get_document_by_filepath_def one_document_def empty_store_def
        empty_db_def tab_find_def to_document_def d_def)
  have body: "lines (raw_body one_document (doc_id d)) = [''one'', ''two'', ''three'']"
    by (simp add: raw_body_def get_document_raw_def one_document_def empty_store_def empty_db_def tab_find_def d_def
        lines_def strip_eol_def)
  have plain: "CHR ''/'' \<notin> set ''c''" "\<not> starts_with ''#'' ''c''" "''c'' \<noteq> []" "\<not> numbered (full_path ''c'' ''a.md'')"
    by (simp_all add: starts_with_def numbered_def full_path_def rsplit_once_def)
  have "mc_fts sample_mcp one_document = Inr one_document" by (simp add: sample_mcp_def)
  from get_reads_lines [OF this plain doc, of 2 1]
  have "get_blocking sample_mcp (full_path ''c'' ''a.md'' @ '':'' @ dec 2 @ '':'' @ dec 1) None None (Some one_document)
       = Inr (document_header d @ numbered_lines 1 [''two''])"
    unfolding body by (simp add: MAX_DOC_BYTES_def)
  then show ?thesis by (intro exI [of _ d]) (simp add: d_def)
qed

lemma search_tool_in_scope_witness:
  "\<exists>pg. search_page sample_mcp \<lparr>si_query = ''body'', si_collections = Some [''c''], si_limit = None, si_offset = None,
      si_per_file = None, si_recency = None, si_refresh = None\<rparr> (Some empty_store) = (Some empty_store, Inr pg)
    \<and> length (pg_results pg) \<le> clamp_limit None 10 \<and> list_all (shows_doc empty_store [''c'']) (pg_results pg)"
proof -
  let ?p = "\<lparr>si_query = ''body'', si_collections = Some [''c''], si_limit = None, si_offset = None,
      si_per_file = None, si_recency = None, si_refresh = None\<rparr>"
  have hits: "fts_scoped sample_qenv empty_store ''body'' n (Some [''c'']) = []" for n
    by (simp add: fts_scoped_def search_fts_scoped_def sample_qenv_def empty_store_def fts_create_def Let_def)
  have "store_search_fts_multi_with sample_qenv empty_store ''body'' n (Some [''c''])
      ((mcp_search_options None)\<lparr>opt_recency := None\<rparr>) = Inr []" for n
    by (simp add: store_search_fts_multi_with_def effective_collections_def hits mcp_search_options_def
        search_options_default_def hits_to_results_def clamp_per_file_def MAX_PER_FILE_def)
  then have run: "search_page sample_mcp ?p (Some empty_store) =
      (Some empty_store, Inr \<lparr>pg_results = [], pg_has_more = False, pg_offset = 0, pg_rerank = NotRun, pg_recency = None, pg_refresh = None\<rparr>)"
    by (simp add: search_page_def recency_of_def refresh_note_def is_set_def sample_mcp_def page_of_def clamp_offset_def)
  have "mc_fts sample_mcp empty_store = Inr empty_store" by (simp add: sample_mcp_def)
  from search_tool_in_scope [OF run this, of "[''c'']"] run
  show ?thesis by (simp add: effective_collections_def db_ok_empty empty_store_def)
qed

end
