(* ===== verification/CollectionCmd.thy ===== *)
theory CollectionCmd
  imports UpdateSpec Lock
begin

text \<open>
  \<open>rqmd collection\<close>, \<open>crates/rqmd-cli/src/commands/collection.rs\<close>: adding, listing, removing, renaming,
  showing and changing collections, as functions from the opened store to the changed store and the lines
  printed on stdout. The directory that a path resolves to is a record \<open>abs_dir\<close>, the answer of the file system.
\<close>

datatype coll_error =
  BlankName string | SlashInName string | Unresolved string | NotADirectory string
| BadPattern string | BadMask mask_error | NoCollection string | NameExists string | NothingToSet
| CLock "lock_error + string" | CStore store_error

definition quoted :: "string \<Rightarrow> string" where
  "quoted s = [CHR 0x27] @ s @ [CHR 0x27]"

definition validate_collection_name :: "string \<Rightarrow> coll_error + unit" where
  "validate_collection_name name =
     (if trim name = [] then Inl (BlankName name)
      else if CHR ''/'' \<in> set name then Inl (SlashInName name)
      else Inr ())"

subsection \<open>Adding\<close>

record add_request =
  ar_path :: string
  ar_name :: "string option"
  ar_mask :: "string option"
  ar_ignore :: "string list"
  ar_hidden :: bool
  ar_respect_gitignore :: bool
  ar_max_file_bytes :: "nat option"

text \<open>What the file system says of a canonical path: its text, its last component when that is UTF-8,
  whether it is a directory, and the walk below it.\<close>

record abs_dir =
  ad_text :: string
  ad_name :: "string option"
  ad_is_dir :: bool
  ad_walk :: walker

definition chosen_name :: "add_request \<Rightarrow> abs_dir \<Rightarrow> string" where
  "chosen_name req dir =
     (case ar_name req of Some n \<Rightarrow> n
      | None \<Rightarrow> (case ad_name dir of Some n \<Rightarrow> n | None \<Rightarrow> ''default''))"

definition chosen_pattern :: "add_request \<Rightarrow> string" where
  "chosen_pattern req = (case ar_mask req of Some m \<Rightarrow> m | None \<Rightarrow> ''**/*.md'')"

definition ensure_is_dir :: "abs_dir \<Rightarrow> coll_error + unit" where
  "ensure_is_dir dir = (if ad_is_dir dir then Inr () else Inl (NotADirectory (ad_text dir)))"

text \<open>The checks before anything is written.\<close>

definition check_add ::
  "'g globset \<Rightarrow> (string \<Rightarrow> abs_dir option) \<Rightarrow> add_request \<Rightarrow> coll_error + abs_dir \<times> (string \<Rightarrow> bool)" where
  "check_add gs canonicalize req =
     (case canonicalize (ar_path req) of
        None \<Rightarrow> Inl (Unresolved (ar_path req))
      | Some dir \<Rightarrow>
          rbind (ensure_is_dir dir) (\<lambda>_.
          rbind (validate_collection_name (chosen_name req dir)) (\<lambda>_.
          case validate_ignore_patterns gs (ar_ignore req) of
            Inl e \<Rightarrow> Inl (BadPattern e)
          | Inr _ \<Rightarrow>
              (case build_include_set gs (chosen_pattern req) of
                 Inl e \<Rightarrow> Inl (BadMask e)
               | Inr include \<Rightarrow> Inr (dir, include)))))"

text \<open>Adding a name again keeps what the command has no flag for.\<close>

definition added_collection :: "add_request \<Rightarrow> abs_dir \<Rightarrow> collection option \<Rightarrow> collection" where
  "added_collection req dir existing =
     \<lparr>col_name = chosen_name req dir, col_path = ad_text dir, col_pattern = chosen_pattern req,
      col_ignore = ar_ignore req,
      col_include_by_default = (case existing of None \<Rightarrow> True | Some c \<Rightarrow> col_include_by_default c),
      col_update_command = Option.bind existing col_update_command,
      col_allow_hidden = ar_hidden req, col_respect_gitignore = ar_respect_gitignore req,
      col_max_file_bytes = ar_max_file_bytes req,
      col_embed_ignore = (case existing of None \<Rightarrow> [] | Some c \<Rightarrow> col_embed_ignore c),
      col_embed_max_bytes = Option.bind existing col_embed_max_bytes\<rparr>"

record add_tally =
  at_count :: nat
  at_errors :: nat
  at_skips :: skip_counts

definition add_file ::
  "('ix, 'v, 'f, 'g) uenv \<Rightarrow> string \<Rightarrow> entry \<Rightarrow> add_tally \<Rightarrow> ('ix, 'f) store \<Rightarrow> ('ix, 'f) store \<times> (coll_error + add_tally)" where
  "add_file ue coll e t st =
     (case prepare e of
        None \<Rightarrow> (st, Inl (CStore Panicked))
      | Some (Inl reason) \<Rightarrow> (st, Inr (t\<lparr>at_skips := skip_record reason (at_skips t)\<rparr>))
      | Some (Inr doc) \<Rightarrow>
          (case index_document_fts_only_with_raw (u_env ue) coll (pr_rel_path doc) (pr_title doc) (pr_indexed_text doc) (pr_raw doc) st of
             (st, Inl Panicked) \<Rightarrow> (st, Inl (CStore Panicked))
           | (st, Inl _) \<Rightarrow> (st, Inr (t\<lparr>at_errors := at_errors t + 1\<rparr>))
           | (st, Inr _) \<Rightarrow>
               (on_db (set_document_stat coll (pr_rel_path doc)
                  (Option.bind (stat_file e) (trusted_stat (u_now ue (pr_rel_path doc))))) st,
                Inr (t\<lparr>at_count := at_count t + 1\<rparr>))))"

fun add_files ::
  "('ix, 'v, 'f, 'g) uenv \<Rightarrow> string \<Rightarrow> entry list \<Rightarrow> add_tally \<Rightarrow> ('ix, 'f) store \<Rightarrow> ('ix, 'f) store \<times> (coll_error + add_tally)" where
  "add_files ue coll [] t st = (st, Inr t)"
| "add_files ue coll (e # es) t st = sbind (add_file ue coll e t st) (\<lambda>st t. add_files ue coll es t st)"

definition MIDDLE_DOT :: string where "MIDDLE_DOT = '' '' @ [CHR 0xC2, CHR 0xB7] @ '' ''"

definition add_summary :: "add_tally \<Rightarrow> string list \<Rightarrow> string" where
  "add_summary t excluded_dirs =
     ''  Indexed '' @ dec (at_count t) @ '' document(s)'' @
     (if 0 < skip_total (at_skips t)
      then MIDDLE_DOT @ ''skipped '' @ dec (skip_total (at_skips t)) @ '' ('' @ skip_describe (at_skips t) @ '')'' else []) @
     (if 0 < at_errors t then MIDDLE_DOT @ dec (at_errors t) @ '' error(s)'' else []) @
     (case excluded_dirs_clause excluded_dirs of Some clause \<Rightarrow> MIDDLE_DOT @ clause | None \<Rightarrow> []) @ ''.''"

definition collection_add ::
  "('ix, 'v, 'f, 'g) uenv \<Rightarrow> (string \<Rightarrow> abs_dir option) \<Rightarrow> add_request \<Rightarrow> ('ix, 'f) store
    \<Rightarrow> ('ix, 'f) store \<times> (coll_error + string list)" where
  "collection_add ue canonicalize req st =
     (case check_add (u_gs ue) canonicalize req of
        Inl e \<Rightarrow> (st, Inl e)
      | Inr (dir, include) \<Rightarrow>
          (let name = chosen_name req dir;
               existing = find (\<lambda>c. col_name c = name) (list_collections (u_codec ue) (st_db st));
               col = added_collection req dir existing;
               ca = collect_candidates (ad_walk dir) include (build_ignore_set (u_gs ue) (ar_ignore req)) (for_collection col)
           in sbind (add_files ue name (ca_files ca)
                  \<lparr>at_count = 0, at_errors = 0, at_skips = no_skips\<lparr>sk_too_large := ca_too_large ca\<rparr>\<rparr>
                  (on_db (upsert_collection (u_codec ue) col) st)) (\<lambda>st t.
                case flush (u_env ue) st of
                  (st, Inl e) \<Rightarrow> (st, Inl (CStore e))
                | (st, Inr _) \<Rightarrow> (st, Inr [add_summary t (ca_excluded_dirs ca)]))))"

subsection \<open>Removing and renaming\<close>

text \<open>A failure to remove an entry is only warned about.\<close>

fun remove_entries :: "('ix, 'v, 'f) env \<Rightarrow> string list \<Rightarrow> ('ix, 'f) store \<Rightarrow> ('ix, 'f) store" where
  "remove_entries env [] st = st"
| "remove_entries env (p # ps) st = remove_entries env ps (fst (remove_from_fts env p st))"

definition has_collection :: "codec \<Rightarrow> string \<Rightarrow> db \<Rightarrow> bool" where
  "has_collection j name db \<longleftrightarrow> list_ex (\<lambda>c. col_name c = name) (list_collections j db)"

definition lift_coll :: "('ix, 'f) store \<times> (store_error + 'a) \<Rightarrow> ('ix, 'f) store \<times> (coll_error + 'a)" where
  "lift_coll r = (fst r, smap_err CStore (snd r))"

definition collection_remove ::
  "('ix, 'v, 'f, 'g) uenv \<Rightarrow> string \<Rightarrow> ('ix, 'f) store \<Rightarrow> ('ix, 'f) store \<times> (coll_error + string list)" where
  "collection_remove ue name st =
     (if \<not> has_collection (u_codec ue) name (st_db st) then (st, Inl (NoCollection name))
      else case purge_collection name (st_db st) of (db, filepaths) \<Rightarrow>
        lift_coll
          (sbind (reclaim_orphaned_vectors (u_env ue) (remove_entries (u_env ue) filepaths (st\<lparr>st_db := db\<rparr>))) (\<lambda>st _.
           sbind (flush (u_env ue) st) (\<lambda>st _.
             (st, Inr [''Collection '' @ quoted name @ '' removed ('' @ dec (length filepaths) @ '' document(s) purged).'']))))) "

definition rename_lines :: "string \<Rightarrow> string \<Rightarrow> rename_summary \<Rightarrow> string list" where
  "rename_lines old new s =
     [''Renamed '' @ quoted old @ '' '' @ [CHR 0xE2, CHR 0x86, CHR 0x92] @ '' '' @ quoted new @ '' ('' @
        dec (rs_documents s) @ '' document(s) re-indexed).''] @
     (if 0 < rs_stale_removed s
      then [''Removed '' @ dec (rs_stale_removed s) @ '' stale full-text entr'' @
            (if rs_stale_removed s = 1 then ''y'' else ''ies'') @ '' left by an earlier rename.'']
      else [])"

definition collection_rename ::
  "('ix, 'v, 'f, 'g) uenv \<Rightarrow> string \<Rightarrow> string \<Rightarrow> ('ix, 'f) store \<Rightarrow> ('ix, 'f) store \<times> (coll_error + string list)" where
  "collection_rename ue old new st =
     (if \<not> has_collection (u_codec ue) old (st_db st) then (st, Inl (NoCollection old))
      else if has_collection (u_codec ue) new (st_db st) then (st, Inl (NameExists new))
      else sbind (lift_coll (store_rename_collection (u_env ue) old new st)) (\<lambda>st s. (st, Inr (rename_lines old new s))))"

text \<open>The lock is taken before the store is opened, so \<open>st\<close> is the store as the lock's holder finds it; it is
  released when the command ends, whatever its result.\<close>

definition locked ::
  "world \<Rightarrow> lock_io \<Rightarrow> nat \<Rightarrow> ('s \<Rightarrow> 's \<times> (coll_error + 'a)) \<Rightarrow> lock_dir option \<Rightarrow> 's \<Rightarrow> lock_dir option \<times> 's \<times> (coll_error + 'a)" where
  "locked w io pid f dir st =
     (case acquire w io pid dir of
        (dir', Inl e) \<Rightarrow> (dir', st, Inl (CLock e))
      | (dir', Inr _) \<Rightarrow> (case f st of (st', r) \<Rightarrow> (drop_lock io dir', st', r)))"

subsection \<open>Settings\<close>

record embed_rule_change =
  ch_ignore :: "string list option"
  ch_max_bytes :: "nat option option"

definition embed_rule_change_of :: "string list \<Rightarrow> bool \<Rightarrow> nat option \<Rightarrow> bool \<Rightarrow> embed_rule_change" where
  "embed_rule_change_of embed_ignore clear_ignore embed_max clear_max =
     \<lparr>ch_ignore = (if clear_ignore then Some [] else if embed_ignore = [] then None else Some embed_ignore),
      ch_max_bytes = (if clear_max then Some None else map_option Some embed_max)\<rparr>"

definition or_stored :: "'a option \<Rightarrow> 'a \<Rightarrow> 'a" where
  "or_stored change stored = (case change of Some x \<Rightarrow> x | None \<Rightarrow> stored)"

definition set_lines :: "string \<Rightarrow> string list \<Rightarrow> nat option \<Rightarrow> string list" where
  "set_lines name ign max_bytes =
     [''Collection '' @ quoted name @ '': embed ignore '' @ (if ign = [] then ''(none)'' else join '', '' ign) @
        ''; embed max '' @ (case max_bytes of None \<Rightarrow> ''(none)'' | Some n \<Rightarrow> dec n @ '' bytes'') @ ''.'',
      ''Applies from the next `rqmd embed`. Vectors already stored for newly excluded documents are kept until `rqmd embed --cleanup`.'']"

definition collection_set ::
  "'g globset \<Rightarrow> codec \<Rightarrow> bool \<Rightarrow> string \<Rightarrow> embed_rule_change \<Rightarrow> db \<Rightarrow> db \<times> (coll_error + string list)" where
  "collection_set gs j index_exists name ch db =
     (if ch_ignore ch = None \<and> ch_max_bytes ch = None then (db, Inl NothingToSet)
      else case (case ch_ignore ch of None \<Rightarrow> Inr () | Some ps \<Rightarrow> validate_ignore_patterns gs ps) of
        Inl e \<Rightarrow> (db, Inl (BadPattern e))
      | Inr _ \<Rightarrow>
          if \<not> index_exists then (db, Inl (NoCollection name))
          else (case find (\<lambda>c. col_name c = name) (list_collections j db) of
              None \<Rightarrow> (db, Inl (NoCollection name))
            | Some col \<Rightarrow>
                (let ign = or_stored (ch_ignore ch) (col_embed_ignore col);
                     max_bytes = or_stored (ch_max_bytes ch) (col_embed_max_bytes col)
                 in (fst (set_collection_embed_rules j name ign max_bytes db), Inr (set_lines name ign max_bytes)))))"

definition collection_update_cmd :: "string \<Rightarrow> string option \<Rightarrow> db \<Rightarrow> db \<times> (coll_error + string list)" where
  "collection_update_cmd name cmd db =
     (set_collection_update_cmd name cmd db,
      Inr [case cmd of
             Some c \<Rightarrow> ''Set update command for '' @ quoted name @ '': '' @ c
           | None \<Rightarrow> ''Cleared update command for '' @ quoted name @ ''.''])"

definition collection_set_include :: "string \<Rightarrow> bool \<Rightarrow> db \<Rightarrow> db \<times> (coll_error + string list)" where
  "collection_set_include name inc db =
     (set_collection_include name inc db,
      Inr [''Collection '' @ quoted name @ '' '' @ (if inc then ''included in'' else ''excluded from'') @ '' default queries.''])"

subsection \<open>Listing\<close>

definition pad_right :: "nat \<Rightarrow> string \<Rightarrow> string" where
  "pad_right n s = s @ replicate (n - length (chars s)) (CHR '' '')"

definition no_index_line :: "string \<Rightarrow> string" where
  "no_index_line index_dir = ''no index at '' @ index_dir @ ''; run `rqmd collection add <path>` to create one''"

definition list_row :: "db \<Rightarrow> collection \<Rightarrow> string" where
  "list_row db c =
     pad_right 30 (col_name c) @ ''  '' @ pad_right 8 (dec (nat (fst (collection_doc_stats (col_name c) db)))) @ ''  '' @
     pad_right 12 (if col_include_by_default c then ''yes'' else ''no'') @ ''  '' @ col_path c"

definition collection_list :: "codec \<Rightarrow> bool \<Rightarrow> string \<Rightarrow> db \<Rightarrow> string list" where
  "collection_list j index_exists index_dir db =
     (if \<not> index_exists then [no_index_line index_dir]
      else if list_collections j db = []
      then [''No collections. Run `rqmd collection add <path> --name <name>` to add one.'']
      else [pad_right 30 ''NAME'' @ ''  '' @ pad_right 8 ''DOCS'' @ ''  '' @ pad_right 12 ''INCLUDED'' @ ''  PATH'',
            concat (replicate 80 [CHR 0xE2, CHR 0x94, CHR 0x80])]
           @ map (list_row db) (list_collections j db))"

definition show_bool :: "bool \<Rightarrow> string" where
  "show_bool b = (if b then ''true'' else ''false'')"

definition show_lines :: "db \<Rightarrow> collection \<Rightarrow> string list" where
  "show_lines db c =
     [''Collection: '' @ col_name c,
      ''  Path:     '' @ col_path c,
      ''  Pattern:  '' @ col_pattern c,
      ''  Docs:     '' @ dec (nat (fst (collection_doc_stats (col_name c) db))),
      ''  Included: '' @ show_bool (col_include_by_default c),
      ''  Hidden:   '' @ show_bool (col_allow_hidden c),
      (if col_ignore c = [] then ''  Ignore:   (none)'' else ''  Ignore:   '' @ join '', '' (col_ignore c)),
      ''  Gitignore: '' @ show_bool (col_respect_gitignore c),
      ''  Max file: '' @ dec (or_stored (col_max_file_bytes c) DEFAULT_MAX_FILE_BYTES) @ '' bytes''] @
     (if col_embed_ignore c = [] then [] else [''  Embed ignore: '' @ join '', '' (col_embed_ignore c)]) @
     (case col_embed_max_bytes c of None \<Rightarrow> [] | Some cap \<Rightarrow> [''  Embed max:    '' @ dec cap @ '' bytes (indexed text)'']) @
     (case col_update_command c of None \<Rightarrow> [] | Some cmd \<Rightarrow> [''  Hook:     '' @ cmd])"

definition collection_show :: "codec \<Rightarrow> string \<Rightarrow> db \<Rightarrow> coll_error + string list" where
  "collection_show j name db =
     (case find (\<lambda>c. col_name c = name) (list_collections j db) of
        None \<Rightarrow> Inl (NoCollection name) | Some c \<Rightarrow> Inr (show_lines db c))"

subsection \<open>The command\<close>

datatype collection_command =
  CAdd add_request | CList | CRemove string | CRename string string | CShow string
| CUpdateCmd string "string option" | CInclude string | CExclude string
| CSet string "string list" bool "nat option" bool

definition with_db :: "(db \<Rightarrow> db \<times> 'a) \<Rightarrow> ('ix, 'f) store \<Rightarrow> ('ix, 'f) store \<times> 'a" where
  "with_db f st = (case f (st_db st) of (db, r) \<Rightarrow> (st\<lparr>st_db := db\<rparr>, r))"

fun run_collection ::
  "('ix, 'v, 'f, 'g) uenv \<Rightarrow> (string \<Rightarrow> abs_dir option) \<Rightarrow> world \<Rightarrow> lock_io \<Rightarrow> nat \<Rightarrow> bool \<Rightarrow> string
    \<Rightarrow> collection_command \<Rightarrow> lock_dir option \<Rightarrow> ('ix, 'f) store
    \<Rightarrow> lock_dir option \<times> ('ix, 'f) store \<times> (coll_error + string list)" where
  "run_collection ue canon w io pid ex idir (CAdd req) dir st = (dir, collection_add ue canon req st)"
| "run_collection ue canon w io pid ex idir CList dir st = (dir, st, Inr (collection_list (u_codec ue) ex idir (st_db st)))"
| "run_collection ue canon w io pid ex idir (CRemove name) dir st = locked w io pid (collection_remove ue name) dir st"
| "run_collection ue canon w io pid ex idir (CRename old new) dir st =
     (case validate_collection_name new of
        Inl e \<Rightarrow> (dir, st, Inl e)
      | Inr _ \<Rightarrow> locked w io pid (collection_rename ue old new) dir st)"
| "run_collection ue canon w io pid ex idir (CShow name) dir st = (dir, st, collection_show (u_codec ue) name (st_db st))"
| "run_collection ue canon w io pid ex idir (CUpdateCmd name cmd) dir st = (dir, with_db (collection_update_cmd name cmd) st)"
| "run_collection ue canon w io pid ex idir (CInclude name) dir st = (dir, with_db (collection_set_include name True) st)"
| "run_collection ue canon w io pid ex idir (CExclude name) dir st = (dir, with_db (collection_set_include name False) st)"
| "run_collection ue canon w io pid ex idir (CSet name ign clear_ign mx clear_mx) dir st =
     (dir, with_db (collection_set (u_gs ue) (u_codec ue) ex name (embed_rule_change_of ign clear_ign mx clear_mx)) st)"

subsection \<open>Names of collections\<close>

definition valid_name :: "string \<Rightarrow> bool" where
  "valid_name name \<longleftrightarrow> trim name \<noteq> [] \<and> CHR ''/'' \<notin> set name"

lemma validate_Inr: "validate_collection_name name = Inr u \<longleftrightarrow> valid_name name"
  by (simp add: validate_collection_name_def valid_name_def)

definition well_named :: "db \<Rightarrow> bool" where
  "well_named db \<longleftrightarrow> db_ok db \<and> list_all (\<lambda>k. valid_name (k_name k)) (collections db)"

lemma well_named_iff: "well_named db \<longleftrightarrow> db_ok db \<and> (\<forall>n\<in>k_name ` set (collections db). valid_name n)"
  by (auto simp: well_named_def list_all_iff)

text \<open>A step on the rest of the database.\<close>

lemma well_named_rest: "well_named db \<Longrightarrow> db_ok db' \<Longrightarrow> collections db' = collections db \<Longrightarrow> well_named db'"
  by (simp add: well_named_def)

lemma well_named_subset:
  "well_named db \<Longrightarrow> db_ok db' \<Longrightarrow> k_name ` set (collections db') \<subseteq> insert n (k_name ` set (collections db)) \<Longrightarrow> valid_name n
    \<Longrightarrow> well_named db'"
  by (auto simp: well_named_iff)

lemma well_named_update_colls:
  "well_named db \<Longrightarrow> (\<And>r. k_name (f r) = k_name r) \<Longrightarrow> well_named (update_colls name f db)"
  by (auto simp: well_named_def list_all_iff update_colls_def intro!: db_ok_update_colls [unfolded update_colls_def])

lemma well_named_upsert:
  assumes "well_named db" and "valid_name (col_name c)"
  shows "well_named (upsert_collection j c db)"
proof (rule well_named_subset [OF assms(1) _ _ assms(2)])
  show "db_ok (upsert_collection j c db)" using assms(1) by (simp add: well_named_def db_ok_upsert_collection)
  have "map k_name (collections (upsert_collection j c db))
      = (if col_name c \<in> k_name ` set (collections db) then map k_name (collections db) else map k_name (collections db) @ [col_name c])"
    unfolding upsert_collection_def by (simp add: map_tab_upsert coll_update_name blank_coll_def)
  then have "k_name ` set (collections (upsert_collection j c db)) \<subseteq> set (map k_name (collections db) @ [col_name c])"
    by (metis Un_upper1 dual_order.refl list.set_map set_append)
  then show "k_name ` set (collections (upsert_collection j c db)) \<subseteq> insert (col_name c) (k_name ` set (collections db))"
    by auto
qed

lemma well_named_purge: "well_named db \<Longrightarrow> well_named (fst (purge_collection name db))"
  using db_ok_purge [of db name] by (auto simp: well_named_iff purge_fields)

lemma well_named_rename:
  assumes "well_named db" and "rename_collection old new db = Inr db'" and "valid_name new"
  shows "well_named db'"
proof (rule well_named_subset [OF assms(1) _ _ assms(3)])
  show "db_ok db'" using assms(1,2) db_ok_rename_collection by (auto simp: well_named_def)
  show "k_name ` set (collections db') \<subseteq> insert new (k_name ` set (collections db))"
    using assms(2) by (auto simp: rename_collection_def Let_def update_colls_def update_docs_def split: if_splits)
qed

subsection \<open>Steps of the store\<close>

lemma index_document_collections:
  "collections (st_db (fst (index_document_fts_only_with_raw env coll path title body raw st))) = collections (st_db st)"
proof -
  have [simp]: "collections (upsert_content h d n db) = collections db" "collections (set_document_raw i r db) = collections db"
    for h d n db i r by (simp_all add: upsert_content_def set_document_raw_def update_docs_def)
  have u: "collections db2 = collections db1" if "upsert_document coll path title hash now db1 = Inr (db2, rid)" for db1 db2 hash now rid
    using that by (auto elim: upsert_document_InrE)
  show ?thesis
    unfolding index_document_fts_only_with_raw_def Let_def
    by (auto simp: on_fts_def on_db_def sbind_def dest!: u split: option.splits sum.splits prod.splits)
qed

lemma add_file_well_named:
  assumes "well_named (st_db st)"
  shows "well_named (st_db (fst (add_file ue coll e t st)))"
proof -
  have ix: "well_named (st_db st1)"
    if "index_document_fts_only_with_raw (u_env ue) coll path title body raw st = (st1, r)" for path title body raw st1 r
  proof (rule well_named_rest [OF assms])
    show "db_ok (st_db st1)"
      using index_document_step [of st coll path "u_env ue" title body raw] assms that by (simp add: index_step_def well_named_def)
    show "collections (st_db st1) = collections (st_db st)"
      using index_document_collections [of "u_env ue" coll path title body raw st] that by simp
  qed
  have stat: "well_named (set_document_stat coll path stat db)" if "well_named db" for path stat db
    using that index_step_stat [of db coll "{}" path stat]
    by (auto intro!: well_named_rest [OF that] simp: well_named_def index_step_def set_document_stat_def update_docs_def)
  show ?thesis
    unfolding add_file_def using assms
    by (auto split: option.split sum.split prod.split store_error.split dest: ix intro!: stat)
qed

lemma add_files_well_named: "well_named (st_db st) \<Longrightarrow> well_named (st_db (fst (add_files ue coll es t st)))"
proof (induction es arbitrary: t st)
  case (Cons e es)
  then show ?case
    using add_file_well_named [OF Cons.prems, of ue coll e t]
    by (cases "add_file ue coll e t st"; cases "snd (add_file ue coll e t st)") auto
qed simp

lemma remove_entries_db [simp]: "st_db (remove_entries env ps st) = st_db st"
  by (induction ps arbitrary: st) (simp_all add: remove_from_fts_def)

lemma on_hnsw_db [simp]: "st_db (fst (on_hnsw f st)) = st_db st"
  by (simp add: on_hnsw_def case_prod_beta)

text \<open>What holds of the store after the first call, and then of the store it ends with.\<close>

lemma sbind_into:
  "P (fst r) \<Longrightarrow> (\<And>st. P st \<Longrightarrow> Q st) \<Longrightarrow> (\<And>st a. P st \<Longrightarrow> Q (fst (f st a))) \<Longrightarrow> Q (fst (sbind r f))"
  by (cases r; cases "snd r") auto

lemmas sbind_db = sbind_into [where P = "\<lambda>st. st_db st = db" and Q = "\<lambda>st. st_db st = db" for db]

lemma evict_loop_keeps_db [simp]: "st_db (fst (evict_loop env ids st)) = st_db st"
  by (induction ids arbitrary: st) (auto intro!: sbind_db)

lemma evict_hnsw_vectors_db [simp]: "st_db (fst (evict_hnsw_vectors env ids st)) = st_db st"
  by (simp add: evict_hnsw_vectors_def)

lemma evict_hashes_db [simp]: "st_db (fst (evict_hashes env hs st)) = st_db st"
  by (induction hs arbitrary: st) (auto intro!: sbind_db)

lemma sweep_rows_db: "fst (sweep_rows hs db) = db\<lparr>vectors := filter (\<lambda>v. v_hash v \<notin> set hs) (vectors db)\<rparr>"
proof -
  have "fst (fold (\<lambda>hash (db, swept). case delete_vectors_for_hash hash db of (db, n) \<Rightarrow> (db, swept + n)) hs (db, n))
      = db\<lparr>vectors := filter (\<lambda>v. v_hash v \<notin> set hs) (vectors db)\<rparr>" for n
  proof (induction hs arbitrary: db n)
    case (Cons h hs)
    then show ?case
      by (auto simp: delete_vectors_for_hash_def delete_vectors_def tab_delete_def intro!: arg_cong [where f = "\<lambda>vs. db\<lparr>vectors := vs\<rparr>"] filter_cong)
  qed simp
  then show ?thesis by (simp add: sweep_rows_def)
qed

text \<open>Reclaiming deletes rows only once the vectors are out of the saved index.\<close>

lemma reclaim_db:
  "st_db (fst (reclaim_vectors_of env hs st)) \<in>
     {st_db st, (st_db st)\<lparr>vectors := filter (\<lambda>v. v_hash v \<notin> set hs) (vectors (st_db st))\<rparr>}"
proof (cases "hs = []")
  case False
  obtain st1 r1 where e: "evict_hashes env hs st = (st1, r1)" by fastforce
  obtain st2 r2 where f: "flush env st1 = (st2, r2)" by fastforce
  have "st_db st1 = st_db st" "st_db st2 = st_db st1"
    using evict_hashes_db [of env hs st] flush_db [of env st1] e f by simp_all
  then show ?thesis
    using False sweep_rows_db [of hs "st_db st"] e f
    by (cases r1; cases r2) (auto simp: reclaim_vectors_of_def split: prod.split)
qed (simp add: reclaim_vectors_of_def)

lemma reclaim_well_named:
  assumes "well_named (st_db st)"
  shows "well_named (st_db (fst (reclaim_vectors_of env hs st)))"
proof -
  have "db_ok ((st_db st)\<lparr>vectors := filter (\<lambda>v. v_hash v \<notin> set hs) (vectors (st_db st))\<rparr>)"
    using db_ok_delete_vectors [of "st_db st" "\<lambda>v. v_hash v \<in> set hs"] assms
    by (simp add: delete_vectors_def tab_delete_def well_named_def)
  then show ?thesis using reclaim_db [of env hs st] assms by (auto intro: well_named_rest)
qed

lemma delete_paths_db [simp]: "st_db (fst (delete_paths env ps st)) = st_db st"
  by (induction ps arbitrary: st) (auto intro!: sbind_db simp: remove_from_fts_def)

lemma insert_rows_db [simp]: "st_db (fst (insert_rows env rows st)) = st_db st"
  by (induction env rows st rule: insert_rows.induct) (auto intro!: sbind_db split: option.split)

lemma store_rename_db:
  "st_db (fst (store_rename_collection env old new st)) = st_db st
    \<or> rename_collection old new (st_db st) = Inr (st_db (fst (store_rename_collection env old new st)))"
proof (cases "rename_collection old new (st_db st)")
  case (Inr db)
  have "st_db (fst (store_rename_collection env old new st)) \<in> {st_db st, db}"
    unfolding store_rename_collection_def Let_def Inr sum.case
    by (intro sbind_into [where P = "\<lambda>s. st_db s = st_db st" and Q = "\<lambda>s. st_db s \<in> {st_db st, db}"]) auto
  with Inr show ?thesis by auto
qed (simp add: store_rename_collection_def)

subsection \<open>The commands\<close>

lemma collection_add_well_named:
  assumes "well_named (st_db st)"
  shows "well_named (st_db (fst (collection_add ue canon req st)))"
proof (cases "check_add (u_gs ue) canon req")
  case (Inr p)
  obtain ad inc where c: "check_add (u_gs ue) canon req = Inr (ad, inc)" using Inr by (cases p) auto
  then have "valid_name (chosen_name req ad)"
    by (auto simp: check_add_def validate_Inr rbind_def split: option.splits sum.splits)
  then have "well_named (st_db (on_db (upsert_collection (u_codec ue) (added_collection req ad ex)) st))" for ex
    using assms by (simp add: well_named_upsert added_collection_def)
  then have a: "well_named (st_db (fst (add_files ue coll es t (on_db (upsert_collection (u_codec ue) (added_collection req ad ex)) st))))" for coll es t ex
    by (rule add_files_well_named)
  have f: "well_named (st_db (fst (case flush (u_env ue) st of (st, Inl e) \<Rightarrow> (st, Inl (CStore e)) | (st, Inr _) \<Rightarrow> (st, Inr v))))"
    if "well_named (st_db st)" for st v
    using that flush_db [of "u_env ue" st] by (auto split: prod.split sum.split)
  show ?thesis
    unfolding collection_add_def c sum.case prod.case Let_def
    by (rule sbind_into [where P = "\<lambda>s. well_named (st_db s)", OF a]) (auto intro: f)
qed (use assms in \<open>simp add: collection_add_def\<close>)

lemma lift_coll_fst [simp]: "fst (lift_coll r) = fst r"
  by (simp add: lift_coll_def)

lemma fst_sbind_pure: "fst (sbind r (\<lambda>st a. (st, Inr (f a)))) = fst r"
  by (cases r; cases "snd r") auto

lemma collection_remove_db:
  "has_collection (u_codec ue) name (st_db st) \<Longrightarrow>
   st_db (fst (collection_remove ue name st)) \<in>
     {fst (purge_collection name (st_db st)),
      (fst (purge_collection name (st_db st)))\<lparr>vectors := filter (\<lambda>v. v_hash v \<notin> set (orphaned_vector_hashes (fst (purge_collection name (st_db st)))))
         (vectors (fst (purge_collection name (st_db st))))\<rparr>}"
  using reclaim_db [of "u_env ue" "orphaned_vector_hashes (fst (purge_collection name (st_db st)))"
      "remove_entries (u_env ue) (snd (purge_collection name (st_db st))) (st\<lparr>st_db := fst (purge_collection name (st_db st))\<rparr>)"]
  by (auto simp: collection_remove_def reclaim_orphaned_vectors_def case_prod_beta sbind_def flush_db split: sum.split)


lemma locked_cases:
  "locked w io pid f dir st = (dir', st', r) \<Longrightarrow>
   (\<And>e. r = Inl (CLock e) \<Longrightarrow> st' = st \<Longrightarrow> P) \<Longrightarrow> (f st = (st', r) \<Longrightarrow> P) \<Longrightarrow> P"
  by (auto simp: locked_def split: prod.splits sum.splits)

lemma collection_remove_well_named:
  assumes "well_named (st_db st)"
  shows "well_named (st_db (fst (collection_remove ue name st)))"
proof (cases "has_collection (u_codec ue) name (st_db st)")
  case True
  let ?db = "fst (purge_collection name (st_db st))"
  have p: "well_named ?db" using assms by (rule well_named_purge)
  moreover have "db_ok (?db\<lparr>vectors := filter (\<lambda>v. v_hash v \<notin> H) (vectors ?db)\<rparr>)" for H
    using db_ok_delete_vectors [of ?db "\<lambda>v. v_hash v \<in> H"] p by (simp add: delete_vectors_def tab_delete_def well_named_def)
  ultimately show ?thesis using collection_remove_db [OF True] by (auto intro: well_named_rest [OF p])
qed (use assms in \<open>simp add: collection_remove_def\<close>)

lemma collection_rename_well_named:
  assumes "well_named (st_db st)" and "valid_name new"
  shows "well_named (st_db (fst (collection_rename ue old new st)))"
  using assms store_rename_db [of "u_env ue" old new st] well_named_rename [OF assms(1)]
  by (auto simp: collection_rename_def fst_sbind_pure)

lemma with_db_fst [simp]: "st_db (fst (with_db f st)) = fst (f (st_db st))"
  by (simp add: with_db_def case_prod_beta)

lemma collection_settings_well_named:
  assumes "well_named db"
  shows "well_named (fst (collection_set gs j ex name ch db))" "well_named (fst (collection_update_cmd name cmd db))"
    "well_named (fst (collection_set_include name inc db))"
  using assms
  by (auto simp: collection_set_def collection_update_cmd_def collection_set_include_def set_collection_embed_rules_def
      set_collection_update_cmd_def set_collection_include_def Let_def intro!: well_named_update_colls split: option.split sum.split)

text \<open>C12: Whatever \<open>rqmd collection\<close> command is given, and however it ends, every collection of the
  index afterwards has a name that is not blank and has no slash, and the tables stay well formed.\<close>

theorem collection_names_stay_valid:
  assumes ok: "well_named (st_db st)"
    and run: "run_collection ue canon w io pid ex idir cmd dir st = (dir', st', r)"
  shows "well_named (st_db st')"
proof (cases cmd)
  case (CRemove name)
  then have "locked w io pid (collection_remove ue name) dir st = (dir', st', r)" using run by simp
  then show ?thesis using ok collection_remove_well_named [OF ok, of ue name] by (auto elim: locked_cases)
next
  case (CRename old new)
  then show ?thesis
    using run ok collection_rename_well_named [OF ok, of new ue old]
    by (auto simp: validate_Inr split: sum.splits elim: locked_cases)
qed (use run ok collection_add_well_named [OF ok] collection_settings_well_named [OF ok] in \<open>auto dest!: arg_cong [where f = fst]\<close>)

definition sample_abs_dir :: abs_dir where
  "sample_abs_dir = \<lparr>ad_text = ''/notes'', ad_name = Some ''notes'', ad_is_dir = True, ad_walk = walk_of sample_tree\<rparr>"

definition sample_add :: collection_command where
  "sample_add = CAdd \<lparr>ar_path = ''notes'', ar_name = None, ar_mask = Some ''.md'', ar_ignore = [], ar_hidden = False,
     ar_respect_gitignore = False, ar_max_file_bytes = None\<rparr>"

definition sample_world :: world where
  "sample_world = \<lparr>w_now = 0, w_alive = (\<lambda>_. True), w_host = None\<rparr>"

lemma collection_names_stay_valid_witness:
  "well_named (st_db (fst (snd (run_collection sample_uenv (\<lambda>_. Some sample_abs_dir) sample_world all_ok 1 True ''.rqmd'' sample_add None empty_store))))"
proof -
  have e: "well_named (st_db empty_store)" by (simp add: well_named_def empty_store_def db_ok_empty) (simp add: empty_db_def)
  obtain dir' st' r where run: "run_collection sample_uenv (\<lambda>_. Some sample_abs_dir) sample_world all_ok 1 True ''.rqmd'' sample_add None empty_store = (dir', st', r)"
    using prod_cases3 by blast
  show ?thesis using collection_names_stay_valid [OF e run] unfolding run by simp
qed

lemma not_orphaned: "r \<in> set (documents db) \<Longrightarrow> d_active r \<Longrightarrow> d_hash r \<notin> set (orphaned_vector_hashes db)"
  by (auto simp: orphaned_vector_hashes_def orphaned_hash_def hash_referenced_by_active_document_def list_ex_iff)

text \<open>C36: Removing a collection forgets it: unless the lock is held by someone else, its row, its
  documents and its contexts are gone afterwards, the documents of the other collections stay with their
  text, the active ones with their vectors, and the lock is free again. This holds even when saving the
  indexes fails half way.\<close>

theorem collection_remove_spec:
  assumes ok: "db_ok (st_db st)" and known: "has_collection (u_codec ue) name (st_db st)"
    and run: "run_collection ue canon w io pid ex idir (CRemove name) dir st = (dir', st', r)"
    and free: "try_acquire w io pid dir = (dir1, Inr (Inr beat))"
  shows "set (documents (st_db st')) = {x \<in> set (documents (st_db st)). d_collection x \<noteq> name}
    \<and> set (collections (st_db st')) = {k \<in> set (collections (st_db st)). k_name k \<noteq> name}
    \<and> (\<forall>k. get_config k (st_db st') = (if starts_with (collection_context_key name) k then None else get_config k (st_db st)))
    \<and> (\<forall>x\<in>set (documents (st_db st')). get_content (d_hash x) (st_db st') = get_content (d_hash x) (st_db st)
         \<and> (d_active x \<longrightarrow> {v \<in> set (vectors (st_db st')). v_hash v = d_hash x} = {v \<in> set (vectors (st_db st)). v_hash v = d_hash x}))
    \<and> dir' = drop_lock io dir1"
proof -
  let ?db = "fst (purge_collection name (st_db st))"
  have st': "collection_remove ue name st = (st', r)" "dir' = drop_lock io dir1"
    using run free by (auto simp: locked_def acquire_def split: prod.splits)
  note p = purge_collection_spec [OF ok prod.collapse [symmetric], where name = name]
  have db': "st_db st' \<in> {?db, ?db\<lparr>vectors := filter (\<lambda>v. v_hash v \<notin> set (orphaned_vector_hashes ?db)) (vectors ?db)\<rparr>}"
    using collection_remove_db [OF known] st' by simp
  then have same: "documents (st_db st') = documents ?db" "collections (st_db st') = collections ?db"
    "get_config k (st_db st') = get_config k ?db" "get_content h (st_db st') = get_content h ?db" for k h
    by (auto simp: get_config_def get_content_def)
  have v: "{v \<in> set (vectors (st_db st')). v_hash v = d_hash x} = {v \<in> set (vectors ?db). v_hash v = d_hash x}"
    if "x \<in> set (documents ?db)" "d_active x" for x
    using db' not_orphaned [OF that] by auto
  show ?thesis using p v st'(2) by (auto simp: same)
qed

definition one_collection :: "(nat \<times> (nat \<times> nat) list, nat \<times> (nat \<times> nat) list) store" where
  "one_collection = empty_store\<lparr>st_db := upsert_collection line_codec sample_collection empty_db\<rparr>"

lemma collection_remove_spec_witness:
  "set (collections (st_db (fst (snd (run_collection sample_uenv (\<lambda>_. None) sample_world all_ok 1 True ''.rqmd'' (CRemove ''c'') None one_collection))))) = {}"
proof -
  obtain dir' st' r where run: "run_collection sample_uenv (\<lambda>_. None) sample_world all_ok 1 True ''.rqmd'' (CRemove ''c'') None one_collection = (dir', st', r)"
    using prod_cases3 by blast
  have free: "try_acquire sample_world all_ok 1 None = (Some (dir_of 1), Inr (Inr 0))"
    using claim_all_ok [of sample_world 1] by (simp add: try_acquire_def sample_world_def) (simp add: all_ok_def)
  have ok: "db_ok (st_db one_collection)"
    by (simp add: one_collection_def db_ok_upsert_collection db_ok_empty)
  have known: "has_collection (u_codec sample_uenv) ''c'' (st_db one_collection)"
    by (simp add: has_collection_def one_collection_def upsert_collection_def empty_db_def sample_collection_def
        list_collections_def to_collection_def coll_update_def blank_coll_def)
  have "collections (st_db one_collection) = [coll_update line_codec sample_collection (blank_coll ''c'')]"
    by (simp add: one_collection_def upsert_collection_def empty_db_def sample_collection_def)
  then show ?thesis
    using collection_remove_spec [OF ok known run free] unfolding run by (simp add: coll_update_name) (simp add: blank_coll_def)
qed

end
