(* ===== verification/ContextCmd.thy ===== *)
theory ContextCmd
  imports CollectionCmd
begin

text \<open>
  \<open>rqmd context\<close>, \<open>crates/rqmd-cli/src/commands/context.rs\<close>: where a context is stored for the path a
  user names, and the commands that add, list, remove and check contexts. A command gives the changed
  database and the lines it prints on stdout.
\<close>

definition CTX_PREFIX :: string where "CTX_PREFIX = ''context:''"

datatype context_error = UnknownTarget string

definition split_add_args :: "string list \<Rightarrow> string option \<times> string" where
  "split_add_args args = (if length args = 2 then (Some (args ! 0), args ! 1) else (None, args ! 0))"

definition context_key :: "string \<Rightarrow> string" where
  "context_key path = CTX_PREFIX @ path"

definition resolve_context_target :: "codec \<Rightarrow> db \<Rightarrow> string \<Rightarrow> context_error + string \<times> string" where
  "resolve_context_target j db path =
     (if path = ''/'' \<or> starts_with ''rqmd://'' path then Inr (path, context_key path)
      else if has_collection j path db then Inr (''rqmd://'' @ path @ ''/'', collection_context_key path)
      else Inl (UnknownTarget path))"

definition context_add :: "codec \<Rightarrow> string option \<Rightarrow> string \<Rightarrow> db \<Rightarrow> db \<times> (context_error + string list)" where
  "context_add j path body db =
     (case resolve_context_target j db (case path of Some p \<Rightarrow> p | None \<Rightarrow> ''/'') of
        Inl e \<Rightarrow> (db, Inl e)
      | Inr (shown, key) \<Rightarrow> (set_config key body db, Inr [''Context set for '' @ quoted shown @ ''.'']))"

definition context_rm :: "codec \<Rightarrow> string \<Rightarrow> db \<Rightarrow> db \<times> (context_error + string list)" where
  "context_rm j path db =
     (case resolve_context_target j db path of
        Inl e \<Rightarrow> (db, Inl e)
      | Inr (shown, key) \<Rightarrow> (delete_config key db, Inr [''Removed context for '' @ quoted shown @ ''.'']))"

text \<open>\<open>trim_start_matches(p)\<close> takes the prefix off as often as it is there.\<close>

function trim_start_matches :: "string \<Rightarrow> string \<Rightarrow> string" where
  "trim_start_matches p s = (if p \<noteq> [] \<and> starts_with p s then trim_start_matches p (drop (length p) s) else s)"
  by pat_completeness auto
termination
  by (relation "measure (\<lambda>(p, s). length s)") (auto simp: starts_with_append)

declare trim_start_matches.simps [simp del]

definition context_lines :: "string \<times> string \<Rightarrow> string list" where
  "context_lines row =
     trim_start_matches CTX_PREFIX (fst row) # map (\<lambda>l. ''  '' @ l) (take 3 (lines (snd row))) @ [[]]"

definition context_list :: "bool \<Rightarrow> string \<Rightarrow> db \<Rightarrow> string list" where
  "context_list index_exists index_dir db =
     (if \<not> index_exists then [no_index_line index_dir]
      else if list_config_by_prefix CTX_PREFIX db = []
      then [''No contexts set. Run `rqmd context add [path] '' @ [CHR 0x22] @ ''description'' @ [CHR 0x22] @ ''` to add one.'']
      else concat (map context_lines (list_config_by_prefix CTX_PREFIX db)))"

definition missing_contexts :: "codec \<Rightarrow> db \<Rightarrow> string list" where
  "missing_contexts j db =
     filter (\<lambda>name. get_config (collection_context_key name) db = None) (map col_name (list_collections j db))"

definition context_check :: "codec \<Rightarrow> db \<Rightarrow> string list" where
  "context_check j db =
     (if missing_contexts j db = [] then [''All collections have context set.'']
      else concat (map (\<lambda>name.
          [''MISSING context for collection '' @ quoted name,
           ''  Run: rqmd context add rqmd://'' @ name @ ''/ '' @ [CHR 0x22] @ ''<description>'' @ [CHR 0x22]])
        (missing_contexts j db)))"

datatype context_command = XAdd "string list" | XList | XRm string | XCheck

fun run_context :: "codec \<Rightarrow> bool \<Rightarrow> string \<Rightarrow> context_command \<Rightarrow> db \<Rightarrow> db \<times> (context_error + string list)" where
  "run_context j ex idir (XAdd args) db = (case split_add_args args of (path, body) \<Rightarrow> context_add j path body db)"
| "run_context j ex idir XList db = (db, Inr (context_list ex idir db))"
| "run_context j ex idir (XRm path) db = context_rm j path db"
| "run_context j ex idir XCheck db = (db, Inr (context_check j db))"

subsection \<open>What is added is what is read\<close>

lemma context_keys [simp]:
  "context_key (''rqmd://'' @ name @ ''/'') = collection_context_key name" "context_key ''/'' = ''context:/''"
  "collection_context_key name \<noteq> ''context:/''" "collection_context_key a = collection_context_key b \<longleftrightarrow> a = b"
  by (simp_all add: context_key_def CTX_PREFIX_def collection_context_key_def)

lemma list_collections_config [simp]:
  "list_collections j (set_config k v db) = list_collections j db" "list_collections j (delete_config k db) = list_collections j db"
  by (simp_all add: list_collections_def set_config_def delete_config_def)



end
