(* ===== verification/Watch.thy ===== *)
theory Watch
  imports Refresh CollectionCmd
begin

text \<open>
  \<open>rqmd watch\<close>, \<open>crates/rqmd-cli/src/commands/watch.rs\<close>: a loop of ticks. A tick walks the collections,
  compares a fingerprint of their files with the one the last finished pass was based on and updates what
  differs. What the outside world answers during one tick is a record \<open>tick_world\<close>: the
  collections read through the read-only connection, the files as they are fingerprinted, the store as
  it is opened to look and as it is opened under the lock. \<open>hash\<close> is the standard library's hasher.
\<close>

datatype deferral = Locked | WaitsForRebuild

datatype watch_error = WInterrupted int | WLock lock_error | WUpdate update_error | WStore store_error | WNoCollection string

record watcher =
  wa_seen :: "string \<rightharpoonup> nat"
  wa_deferred :: "deferral option"
  wa_deferrals :: nat

record ('ix, 'v, 'f, 'g) tick_world =
  tk_signal :: "int option"
  tk_conn :: db
  tk_look :: "('ix, 'v, 'f, 'g) uenv"
  tk_pass :: "('ix, 'v, 'f, 'g) uenv"
  tk_before :: "('ix, 'f) store"
  tk_held :: "('ix, 'f) store"
  tk_world :: world
  tk_io :: lock_io
  tk_dir :: "lock_dir option"

definition watcher_start :: watcher where
  "watcher_start = \<lparr>wa_seen = Map.empty, wa_deferred = None, wa_deferrals = 0\<rparr>"

definition select :: "collection list \<Rightarrow> string option \<Rightarrow> watch_error + collection list" where
  "select cols only =
     (case only of
        None \<Rightarrow> Inr cols
      | Some name \<Rightarrow> (case find (\<lambda>c. col_name c = name) cols of
          Some c \<Rightarrow> Inr [c] | None \<Rightarrow> Inl (WNoCollection name)))"

subsection \<open>Fingerprints\<close>

definition stat_le :: "file_stat option \<Rightarrow> file_stat option \<Rightarrow> bool" where
  "stat_le a b =
     (case (a, b) of (None, _) \<Rightarrow> True | (Some _, None) \<Rightarrow> False
      | (Some (s, m), Some (s', m')) \<Rightarrow> s < s' \<or> (s = s' \<and> m \<le> m'))"

definition file_le :: "string \<times> file_stat option \<Rightarrow> string \<times> file_stat option \<Rightarrow> bool" where
  "file_le a b \<longleftrightarrow> fst a < fst b \<or> (fst a = fst b \<and> stat_le (snd a) (snd b))"

definition looked_files :: "('ix, 'v, 'f, 'g) uenv \<Rightarrow> (string \<Rightarrow> bool) \<Rightarrow> collection \<Rightarrow> (string \<times> file_stat option) list" where
  "looked_files ue include col =
     sort_by file_le (map (\<lambda>e. (rel_string (en_path e), stat_file e))
       (ca_files (collect_candidates (u_walk ue (col_path col)) include (build_ignore_set (u_gs ue) (col_ignore col)) (for_collection col))))"

text \<open>The second part says that every stamp is old enough for the stat-skip to trust it.\<close>

definition fingerprint :: "((string \<times> file_stat option) list \<Rightarrow> nat) \<Rightarrow> ('ix, 'v, 'f, 'g) uenv \<Rightarrow> collection \<Rightarrow> nat \<times> bool" where
  "fingerprint hash ue col =
     (case build_include_set (u_gs ue) (col_pattern col) of
        Inl _ \<Rightarrow> (0, True)
      | Inr include \<Rightarrow>
          (let files = looked_files ue include col in
           (hash files,
            list_all (\<lambda>(p, stat). case stat of None \<Rightarrow> True | Some s \<Rightarrow> trusted_stat (u_now ue p) s \<noteq> None) files)))"

definition current_collections :: "codec \<Rightarrow> string option \<Rightarrow> db \<Rightarrow> collection list" where
  "current_collections j only db =
     (case only of None \<Rightarrow> list_collections j db
      | Some name \<Rightarrow> filter (\<lambda>c. col_name c = name) (list_collections j db))"

definition due_collections ::
  "((string \<times> file_stat option) list \<Rightarrow> nat) \<Rightarrow> ('ix, 'v, 'f, 'g) uenv \<Rightarrow> collection list \<Rightarrow> (string \<rightharpoonup> nat) \<Rightarrow> (collection \<times> nat \<times> bool) list" where
  "due_collections hash ue cols seen =
     filter (\<lambda>(col, fp, settled). seen (col_name col) \<noteq> Some fp) (map (\<lambda>col. (col, fingerprint hash ue col)) cols)"

subsection \<open>A pass\<close>

fun watch_pass ::
  "('ix, 'v, 'f, 'g) uenv \<Rightarrow> nat \<Rightarrow> (collection \<times> nat \<times> bool) list \<Rightarrow> (string \<rightharpoonup> nat) \<Rightarrow> ('ix, 'f) store
    \<Rightarrow> ('ix, 'f) store \<times> (string \<rightharpoonup> nat) \<times> (watch_error + unit)" where
  "watch_pass ue ci [] seen st = (st, seen, Inr ())"
| "watch_pass ue ci ((col, fp, settled) # due) seen st =
     (case update_one_collection ue False False ci (col\<lparr>col_update_command := None\<rparr>) st of
        (st, Inl e) \<Rightarrow> (st, seen, Inl (WUpdate e))
      | (st, Inr oc) \<Rightarrow>
          (case oc_interrupted oc of
             Some signal \<Rightarrow> (st, seen, Inl (WInterrupted signal))
           | None \<Rightarrow> watch_pass ue (ci + 1) due (if settled then seen(col_name col \<mapsto> fp) else seen) st))"

text \<open>A streak of deferrals is announced once.\<close>

definition defer_pass :: "deferral \<Rightarrow> string \<Rightarrow> watcher \<Rightarrow> watcher \<times> string list" where
  "defer_pass why message w =
     (w\<lparr>wa_deferred := Some why, wa_deferrals := min (wa_deferrals w + 1) (2 ^ 32 - 1)\<rparr>,
      if wa_deferred w \<noteq> Some why then [''rqmd watch: '' @ message] else [])"

definition rebuild_message :: string where
  "rebuild_message = ''the full-text index needs a rebuild; run `rqmd update` to rebuild it (watch is paused until then)''"

definition lock_message :: "holder \<Rightarrow> string" where
  "lock_message holder =
     ''waiting for the index lock'' @ (case h_pid holder of Some pid \<Rightarrow> '' (held by pid '' @ dec pid @ '')'' | None \<Rightarrow> [])"

record ('ix, 'f) tick_out =
  to_watcher :: watcher
  to_dir :: "lock_dir option"
  to_store :: "('ix, 'f) store"
  to_lines :: "string list"
  to_result :: "watch_error + bool"

definition run_pass ::
  "('ix, 'v, 'f, 'g) tick_world \<Rightarrow> (collection \<times> nat \<times> bool) list \<Rightarrow> watcher \<Rightarrow> lock_dir option \<Rightarrow> ('ix, 'f) tick_out" where
  "run_pass tk due w dir =
     (case watch_pass (tk_pass tk) 0 due (wa_seen w) (tk_held tk) of
        (st, seen, Inl e) \<Rightarrow>
          \<lparr>to_watcher = w\<lparr>wa_seen := seen\<rparr>, to_dir = drop_lock (tk_io tk) dir, to_store = st, to_lines = [], to_result = Inl e\<rparr>
      | (st, seen, Inr _) \<Rightarrow>
          (case reclaim_orphaned_vectors (u_env (tk_pass tk)) st of
             (st, Inl e) \<Rightarrow>
               \<lparr>to_watcher = w\<lparr>wa_seen := seen\<rparr>, to_dir = drop_lock (tk_io tk) dir, to_store = st, to_lines = [], to_result = Inl (WStore e)\<rparr>
           | (st, Inr _) \<Rightarrow>
               \<lparr>to_watcher = \<lparr>wa_seen = seen, wa_deferred = None, wa_deferrals = 0\<rparr>, to_dir = drop_lock (tk_io tk) dir, to_store = st,
                to_lines = [], to_result = Inr True\<rparr>))"

definition tick ::
  "((string \<times> file_stat option) list \<Rightarrow> nat) \<Rightarrow> nat \<Rightarrow> string option \<Rightarrow> ('ix, 'v, 'f, 'g) tick_world \<Rightarrow> watcher \<Rightarrow> ('ix, 'f) tick_out" where
  "tick hash pid only tk w =
     (let stay = \<lparr>to_watcher = w, to_dir = tk_dir tk, to_store = tk_held tk, to_lines = [], to_result = Inr True\<rparr> in
      case tk_signal tk of
        Some signal \<Rightarrow> stay\<lparr>to_result := Inl (WInterrupted signal)\<rparr>
      | None \<Rightarrow>
          (let cols = current_collections (u_codec (tk_look tk)) only (tk_conn tk);
               w = w\<lparr>wa_seen := wa_seen w |` (col_name ` set cols)\<rparr>;
               due = due_collections hash (tk_look tk) cols (wa_seen w);
               stay = stay\<lparr>to_watcher := w\<rparr>
           in if due = [] then stay
              else if fts_rebuild_pending (tk_before tk) then
                (case defer_pass WaitsForRebuild rebuild_message w of
                   (w, ls) \<Rightarrow> stay\<lparr>to_watcher := w, to_lines := ls, to_result := Inr False\<rparr>)
              else case try_acquire (tk_world tk) (tk_io tk) pid (tk_dir tk) of
                (dir, Inl e) \<Rightarrow> stay\<lparr>to_dir := dir, to_result := Inl (WLock e)\<rparr>
              | (dir, Inr (Inl holder)) \<Rightarrow>
                  (case defer_pass Locked (lock_message holder) w of
                     (w, ls) \<Rightarrow> stay\<lparr>to_dir := dir, to_watcher := w, to_lines := ls, to_result := Inr False\<rparr>)
              | (dir, Inr (Inr beat)) \<Rightarrow> run_pass tk due w dir))"

subsection \<open>Waiting\<close>

definition MAX_BACKOFF :: nat where "MAX_BACKOFF = 30 * SECOND"
definition SLICE :: nat where "SLICE = SECOND div 10"

definition backoff :: "nat \<Rightarrow> nat \<Rightarrow> nat" where
  "backoff interval deferrals =
     min (min (interval * 2 ^ min (deferrals - 1) 5) DURATION_MAX) (max MAX_BACKOFF interval)"

definition next_wait :: "nat \<Rightarrow> ('ix, 'f) tick_out \<Rightarrow> nat" where
  "next_wait interval out =
     (if to_result out = Inr True then interval else backoff interval (wa_deferrals (to_watcher out)))"

text \<open>\<open>pending k\<close> is the signal seen at the \<open>k\<close>-th look; a slice sleeps for exactly its length.\<close>

function sleep_until_signal :: "(nat \<Rightarrow> int option) \<Rightarrow> nat \<Rightarrow> nat \<Rightarrow> watch_error + nat" where
  "sleep_until_signal pending k remaining =
     (case pending k of
        Some signal \<Rightarrow> Inl (WInterrupted signal)
      | None \<Rightarrow> if remaining = 0 then Inr k else sleep_until_signal pending (k + 1) (remaining - min remaining SLICE))"
  by pat_completeness auto
termination
  by (relation "measure (\<lambda>(p, k, r). r)") (auto simp: SLICE_def SECOND_def)

text \<open>The loop over the ticks the world has prepared; only an error ends it early.\<close>

fun watch_loop ::
  "((string \<times> file_stat option) list \<Rightarrow> nat) \<Rightarrow> nat \<Rightarrow> string option \<Rightarrow> nat \<Rightarrow> (('ix, 'v, 'f, 'g) tick_world \<times> (nat \<Rightarrow> int option)) list
    \<Rightarrow> watcher \<Rightarrow> watch_error option \<times> watcher" where
  "watch_loop hash pid only interval [] w = (None, w)"
| "watch_loop hash pid only interval ((tk, pending) # tks) w =
     (let out = tick hash pid only tk w in
      case to_result out of
        Inl e \<Rightarrow> (Some e, to_watcher out)
      | Inr _ \<Rightarrow>
          (case sleep_until_signal pending 0 (next_wait interval out) of
             Inl e \<Rightarrow> (Some e, to_watcher out)
           | Inr _ \<Rightarrow> watch_loop hash pid only interval tks (to_watcher out)))"

definition run_watch ::
  "((string \<times> file_stat option) list \<Rightarrow> nat) \<Rightarrow> nat \<Rightarrow> string option \<Rightarrow> nat \<Rightarrow> codec \<Rightarrow> db
    \<Rightarrow> (('ix, 'v, 'f, 'g) tick_world \<times> (nat \<Rightarrow> int option)) list \<Rightarrow> watch_error option" where
  "run_watch hash pid only interval j db tks =
     (case select (list_collections j db) only of
        Inl e \<Rightarrow> Some e
      | Inr cols \<Rightarrow> if cols = [] then None else fst (watch_loop hash pid only interval tks watcher_start))"

subsection \<open>What a tick does\<close>

text \<open>A pass does what a refresh of the same collections does.\<close>

lemma watch_pass_refresh:
  "watch_pass ue ci due seen st = (st', seen', r) \<Longrightarrow>
   refresh_collections ue ci (map fst due) st =
     (st', case r of Inl (WUpdate e) \<Rightarrow> Inl e | Inl _ \<Rightarrow> Inr TimedOut | Inr _ \<Rightarrow> Inr Refreshed)"
proof (induction due arbitrary: ci seen st)
  case (Cons d due)
  obtain col fp settled where d: "d = (col, fp, settled)" by (cases d) auto
  obtain st1 r1 where u: "update_one_collection ue False False ci (col\<lparr>col_update_command := None\<rparr>) st = (st1, r1)" by fastforce
  show ?case
  proof (cases r1)
    case (Inl e)
    with Cons.prems u d show ?thesis by auto
  next
    case (Inr oc)
    with Cons u d show ?thesis by (cases "oc_interrupted oc") auto
  qed
qed auto

lemma watch_pass_seen:
  "watch_pass ue ci due seen st = (st', seen', Inr ()) \<Longrightarrow> distinct (map (\<lambda>d. col_name (fst d)) due) \<Longrightarrow>
   (\<forall>n. n \<notin> (\<lambda>d. col_name (fst d)) ` set due \<longrightarrow> seen' n = seen n)
   \<and> (\<forall>(c, fp, settled)\<in>set due. seen' (col_name c) = (if settled then Some fp else seen (col_name c)))"
proof (induction due arbitrary: ci seen st)
  case (Cons d due)
  obtain col fp settled where d: "d = (col, fp, settled)" by (cases d) auto
  obtain st1 r1 where u: "update_one_collection ue False False ci (col\<lparr>col_update_command := None\<rparr>) st = (st1, r1)" by fastforce
  define seen1 where "seen1 = (if settled then seen(col_name col \<mapsto> fp) else seen)"
  have w: "watch_pass ue (ci + 1) due seen1 st1 = (st', seen', Inr ())"
    using Cons.prems(1) u d by (auto simp: seen1_def split: sum.splits option.splits)
  have other: "col_name (fst x) \<noteq> col_name col" if "x \<in> set due" for x
    using Cons.prems(2) d that by force
  show ?case
    using Cons.IH [OF w] Cons.prems(2) other by (fastforce simp: d seen1_def)
qed simp

lemma fst_due: "map fst (due_collections hash ue cols seen) = filter (\<lambda>c. seen (col_name c) \<noteq> Some (fst (fingerprint hash ue c))) cols"
  by (induction cols) (auto simp: due_collections_def case_prod_beta)

lemma set_due:
  "set (due_collections hash ue cols seen) =
     {(c, fingerprint hash ue c) |c. c \<in> set cols \<and> seen (col_name c) \<noteq> Some (fst (fingerprint hash ue c))}"
  by (auto simp: due_collections_def case_prod_beta image_iff)

lemma current_distinct: "db_ok db \<Longrightarrow> distinct (map col_name (current_collections j only db))"
  using db_okD(6) [of db]
  by (auto simp: current_collections_def list_collections_def to_collection_def tab_unique_def o_def
      intro!: distinct_map_filter split: option.splits)

lemma reclaim_docs:
  "db_ok (st_db st) \<Longrightarrow> reclaim_orphaned_vectors env st = (st', r) \<Longrightarrow> db_ok (st_db st') \<and> documents (st_db st') = documents (st_db st)"
  using reclaim_db [of env "orphaned_vector_hashes (st_db st)" st] db_ok_delete_vectors [of "st_db st" "\<lambda>v. v_hash v \<in> set (orphaned_vector_hashes (st_db st))"]
  by (auto simp: reclaim_orphaned_vectors_def delete_vectors_def tab_delete_def)

lemma defer_pass_fields:
  "wa_seen (fst (defer_pass why message w)) = wa_seen w"
  "wa_deferrals (fst (defer_pass why message w)) = min (wa_deferrals w + 1) (2 ^ 32 - 1)"
  by (simp_all add: defer_pass_def)

text \<open>What a pass promises for each collection that is due.\<close>

definition pass_promise ::
  "('ix, 'v, 'f, 'g) tick_world \<Rightarrow> (collection \<times> nat \<times> bool) list \<Rightarrow> watcher \<Rightarrow> ('ix, 'f) tick_out \<Rightarrow> bool" where
  "pass_promise tk due w out \<longleftrightarrow>
     (\<forall>(c, fp, settled)\<in>set due.
        in_step (col_name c) (candidate_paths (tk_pass tk) c) (st_db (tk_held tk)) (st_db (to_store out))
        \<and> wa_seen (to_watcher out) (col_name c) = (if settled then Some fp else wa_seen w (col_name c)))
     \<and> (\<forall>n. n \<notin> (\<lambda>d. col_name (fst d)) ` set due \<longrightarrow> wa_seen (to_watcher out) n = wa_seen w n)
     \<and> wa_deferrals (to_watcher out) = 0 \<and> wa_deferred (to_watcher out) = None"

lemma run_pass_spec:
  assumes ok: "db_ok (st_db (tk_held tk))" and d: "distinct (map (\<lambda>d. col_name (fst d)) due)"
    and out: "out = run_pass tk due w dir"
  shows "db_ok (st_db (to_store out))
    \<and> outside_same ((\<lambda>d. col_name (fst d)) ` set due) (st_db (tk_held tk)) (st_db (to_store out))
    \<and> to_dir out = drop_lock (tk_io tk) dir
    \<and> to_result out \<noteq> Inr False
    \<and> (to_result out = Inr True \<longrightarrow> pass_promise tk due w out)"
proof -
  obtain st1 seen r1 where p: "watch_pass (tk_pass tk) 0 due (wa_seen w) (tk_held tk) = (st1, seen, r1)"
    by (metis prod_cases3)
  obtain st2 r2 where rc: "reclaim_orphaned_vectors (u_env (tk_pass tk)) st1 = (st2, r2)" by fastforce
  note rf = watch_pass_refresh [OF p]
  have s1: "db_ok (st_db st1)" "outside_same ((\<lambda>d. col_name (fst d)) ` set due) (st_db (tk_held tk)) (st_db st1)"
    using refresh_collections_step [OF ok, where ue = "tk_pass tk" and ci = 0 and cols = "map fst due"] rf
    by (simp_all add: image_image)
  have s2: "db_ok (st_db st2)" "documents (st_db st2) = documents (st_db st1)" using reclaim_docs [OF s1(1) rc] by simp_all
  have o2: "outside_same ((\<lambda>d. col_name (fst d)) ` set due) (st_db (tk_held tk)) (st_db st2)"
    using s1(2) s2(2) by (simp add: outside_same_def)
  show ?thesis
  proof (cases r1)
    case (Inl e)
    then show ?thesis using out p s1 by (simp add: run_pass_def)
  next
    case (Inr u)
    have "in_step (col_name c) (candidate_paths (tk_pass tk) c) (st_db (tk_held tk)) (st_db st1)" if "c \<in> fst ` set due" for c
      using refresh_collections_done [OF ok _ _, of "map fst due" "tk_pass tk" 0 st1 c] rf Inr d that by (simp add: o_def)
    then have "in_step (col_name c) (candidate_paths (tk_pass tk) c) (st_db (tk_held tk)) (st_db st2)" if "(c, x) \<in> set due" for c x
      using imageI [OF that, of fst] s2(2) in_step_cong [of "col_name c" "st_db (tk_held tk)" "st_db (tk_held tk)" "st_db st2" "st_db st1" "candidate_paths (tk_pass tk) c"] by simp
    moreover have "r1 = Inr ()" using Inr by simp
    ultimately show ?thesis
      using out p rc s2 o2 watch_pass_seen [OF _ d, of "tk_pass tk" 0 "wa_seen w" "tk_held tk" st1 seen] Inr s1 s2
      by (cases r2) (auto simp: run_pass_def pass_promise_def)
  qed
qed


definition quiet_world :: "((nat \<times> (nat \<times> nat) list), nat, nat \<times> (nat \<times> nat) list, string) tick_world" where
  "quiet_world = \<lparr>tk_signal = None, tk_conn = upsert_collection line_codec notes_collection empty_db, tk_look = sample_uenv,
     tk_pass = sample_uenv, tk_before = empty_store, tk_held = empty_store, tk_world = \<lparr>w_now = 0, w_alive = (\<lambda>_. True), w_host = None\<rparr>,
     tk_io = all_ok, tk_dir = None\<rparr>"


subsection \<open>Waits\<close>

lemma backoff_mono: "d \<le> e \<Longrightarrow> backoff interval d \<le> backoff interval e"
  unfolding backoff_def
  by (intro min.mono mult_le_mono power_increasing diff_le_mono order_refl) auto

text \<open>The wait after deferred passes is the interval after the first, never shrinks as the streak
  grows, doubles with each of them until it reaches 32 intervals or the cap of 30 seconds, and is never
  more than 30 seconds unless the interval itself is; no product leaves the range of a duration, however long the
  streak and the interval.\<close>

theorem watch_backoff_bounds:
  assumes "interval \<le> DURATION_MAX"
  shows "backoff interval 1 = interval
    \<and> (d \<le> e \<longrightarrow> backoff interval d \<le> backoff interval e)
    \<and> interval \<le> backoff interval d \<and> backoff interval d \<le> max MAX_BACKOFF interval \<and> backoff interval d \<le> DURATION_MAX
    \<and> (d < 6 \<and> interval * 2 ^ d \<le> MAX_BACKOFF \<longrightarrow> backoff interval (d + 1) = interval * 2 ^ d)
    \<and> (6 \<le> d \<longrightarrow> backoff interval d = backoff interval 6)"
proof -
  have 1: "backoff interval 1 = interval" "interval \<le> backoff interval d"
    using assms by (simp_all add: backoff_def)
  have "MAX_BACKOFF \<le> DURATION_MAX" by (simp add: MAX_BACKOFF_def DURATION_MAX_def SECOND_def)
  then have 2: "backoff interval (d + 1) = interval * 2 ^ d" if "d < 6" "interval * 2 ^ d \<le> MAX_BACKOFF"
    using that by (simp add: backoff_def)
  have 3: "backoff interval d = backoff interval 6" if "6 \<le> d"
    using that by (simp add: backoff_def)
  have 4: "backoff interval d \<le> max MAX_BACKOFF interval" "backoff interval d \<le> DURATION_MAX"
    unfolding backoff_def by linarith+
  show ?thesis using 1 2 3 4 backoff_mono by blast
qed

lemma watch_backoff_bounds_witness:
  "backoff (2 * SECOND) (3 + 1) = 2 * SECOND * 2 ^ 3"
proof -
  have "2 * SECOND \<le> DURATION_MAX" by (simp add: DURATION_MAX_def SECOND_def)
  from watch_backoff_bounds [OF this, of 3 3] show ?thesis
    by (simp add: SECOND_def MAX_BACKOFF_def)
qed

end
