(* ===== verification/Output.thy ===== *)
theory Output
  imports Snippet Types
begin

text \<open>
  What the commands print, \<open>crates/rqmd-cli/src/format.rs\<close>: the formats of search results and of
  documents, escaping for CSV and XML, colours, highlighted terms, ages. Whether stdout takes escapes,
  the Unicode tables, the clock, serde's JSON writer and the writer of a float with four decimals are
  parameters. A result is the printed text, or \<open>None\<close> where slicing would panic.
\<close>

datatype format = FCli | FJson | FCsv | FMd | FXml | FFiles

fun format_name :: "format \<Rightarrow> string" where
  "format_name FCli = ''cli''"
| "format_name FJson = ''json''"
| "format_name FCsv = ''csv''"
| "format_name FMd = ''md''"
| "format_name FXml = ''xml''"
| "format_name FFiles = ''files''"

text \<open>\<open>Path::join\<close>\<close>

definition resolve_absolute_path :: "string \<Rightarrow> string \<Rightarrow> string" where
  "resolve_absolute_path base rel =
     (if starts_with ''/'' rel then rel
      else if base = [] \<or> ends_with ''/'' base then base @ rel
      else base @ ''/'' @ rel)"

subsection \<open>Escapes for the terminal\<close>

definition ESC :: char where "ESC = CHR 0x1B"
definition BOLD :: string where "BOLD = ESC # ''[1m''"
definition DIM :: string where "DIM = ESC # ''[2m''"
definition CYAN :: string where "CYAN = ESC # ''[36m''"
definition GREEN :: string where "GREEN = ESC # ''[32m''"
definition YELLOW :: string where "YELLOW = ESC # ''[33m''"
definition RESET :: string where "RESET = ESC # ''[0m''"

definition colors_permitted :: "bool \<Rightarrow> string option \<Rightarrow> bool" where
  "colors_permitted no_color term_var \<longleftrightarrow> \<not> no_color \<and> term_var \<noteq> Some ''dumb''"

definition paint :: "bool \<Rightarrow> string \<Rightarrow> string \<Rightarrow> string" where
  "paint on code s = (if on then code @ s @ RESET else s)"

record fit_state =
  fs_out :: string
  fs_visible :: nat
  fs_in_escape :: bool
  fs_styled :: bool

fun fit_chars :: "nat \<Rightarrow> string list \<Rightarrow> fit_state \<Rightarrow> fit_state" where
  "fit_chars width [] s = s"
| "fit_chars width (c # cs) s =
     (if fs_in_escape s
      then fit_chars width cs (s\<lparr>fs_out := fs_out s @ c, fs_in_escape := (c \<noteq> ''m'')\<rparr>)
      else if c = [ESC]
      then fit_chars width cs (s\<lparr>fs_out := fs_out s @ c, fs_in_escape := True, fs_styled := True\<rparr>)
      else if width \<le> fs_visible s then s
      else fit_chars width cs (s\<lparr>fs_out := fs_out s @ c, fs_visible := fs_visible s + 1\<rparr>))"

definition fit_to_width :: "string \<Rightarrow> nat \<Rightarrow> string" where
  "fit_to_width s width =
     (let r = fit_chars width (chars s) \<lparr>fs_out = [], fs_visible = 0, fs_in_escape = False, fs_styled = False\<rparr>
      in fs_out r @ (if fs_styled r then RESET else []) @
         (if fs_visible r < width then replicate (width - fs_visible r) (CHR '' '') else []))"

subsection \<open>Progress\<close>

datatype progress_mode = POff | PRedraw | PLines

fun from_terminal :: "bool \<Rightarrow> string option \<Rightarrow> progress_mode" where
  "from_terminal False t = POff"
| "from_terminal True t = (if t = Some ''dumb'' then PLines else PRedraw)"

record progress =
  pg_mode :: progress_mode
  pg_last_step :: "nat option"
  pg_out :: string

definition progress_redraw :: "nat option \<Rightarrow> string \<Rightarrow> progress \<Rightarrow> progress" where
  "progress_redraw width line p =
     p\<lparr>pg_out := pg_out p @ [CR] @ fit_to_width line ((case width of Some w \<Rightarrow> w | None \<Rightarrow> 80) - 1)\<rparr>"

definition progress_show :: "nat option \<Rightarrow> string \<Rightarrow> nat \<Rightarrow> nat \<Rightarrow> progress \<Rightarrow> progress" where
  "progress_show width line finished whole p =
     (case pg_mode p of
        POff \<Rightarrow> p
      | PRedraw \<Rightarrow> progress_redraw width line p
      | PLines \<Rightarrow>
          (let step = (if whole = 0 then 0 else finished * 10 div whole) in
           if pg_last_step p \<noteq> Some step then p\<lparr>pg_last_step := Some step, pg_out := pg_out p @ line @ [NL]\<rparr> else p))"

definition progress_stage :: "nat option \<Rightarrow> string \<Rightarrow> progress \<Rightarrow> progress" where
  "progress_stage width line p =
     (case pg_mode p of
        POff \<Rightarrow> p
      | PRedraw \<Rightarrow> progress_redraw width line p
      | PLines \<Rightarrow> p\<lparr>pg_out := pg_out p @ line @ [NL]\<rparr>)"

definition progress_clear :: "nat option \<Rightarrow> progress \<Rightarrow> progress" where
  "progress_clear width p =
     (if pg_mode p = PRedraw
      then p\<lparr>pg_out := pg_out p @ [CR] @ replicate (case width of Some w \<Rightarrow> w | None \<Rightarrow> 80) (CHR '' '') @ [CR]\<rparr> else p)"

subsection \<open>Scores and times\<close>

text \<open>\<open>round() as i64\<close>: half away from zero, saturating, 0 for NaN.\<close>

definition round_as_i64 :: "flt \<Rightarrow> int" where
  "round_as_i64 x =
     (case x of NaN \<Rightarrow> 0 | PInf \<Rightarrow> 2 ^ 63 - 1 | NInf \<Rightarrow> - (2 ^ 63)
      | Fin r \<Rightarrow> max (- (2 ^ 63)) (min (2 ^ 63 - 1) (if 0 \<le> r then \<lfloor>r + 1 / 2\<rfloor> else - \<lfloor>- r + 1 / 2\<rfloor>)))"

definition fround :: "flt \<Rightarrow> flt" where
  "fround x = (case x of Fin r \<Rightarrow> Fin (of_int (if 0 \<le> r then \<lfloor>r + 1 / 2\<rfloor> else - \<lfloor>- r + 1 / 2\<rfloor>)) | _ \<Rightarrow> x)"

definition int_string :: "int \<Rightarrow> string" where
  "int_string i = (if i < 0 then ''-'' @ dec (nat (- i)) else dec (nat i))"

definition pad_to :: "nat \<Rightarrow> string \<Rightarrow> string" where
  "pad_to n s = replicate (n - length (chars s)) (CHR '' '') @ s"

definition format_score :: "bool \<Rightarrow> flt \<Rightarrow> string" where
  "format_score ansi score =
     (let pct = pad_to 3 (int_string (round_as_i64 (fmul binary32 score (Fin 100)))) @ ''%'' in
      if \<not> ansi then pct
      else if fle (f32_of (7 / 10)) score then GREEN @ pct @ RESET
      else if fle (f32_of (4 / 10)) score then YELLOW @ pct @ RESET
      else DIM @ pct @ RESET)"

text \<open>A panic of checked arithmetic on \<open>u64\<close> is \<open>None\<close>; the inner option is the function's own.\<close>

definition u64 :: "nat \<Rightarrow> nat option" where
  "u64 n = (if n < 2 ^ 64 then Some n else None)"

definition u64_sub :: "nat \<Rightarrow> nat \<Rightarrow> nat option" where
  "u64_sub a b = (if b \<le> a then Some (a - b) else None)"

definition civil_seconds :: "nat \<Rightarrow> nat \<Rightarrow> nat \<Rightarrow> nat \<Rightarrow> nat \<Rightarrow> nat \<Rightarrow> nat option option" where
  "civil_seconds y mo d h m s =
     Option.bind (if mo \<le> 2 then map_option (\<lambda>y. (y, mo + 9)) (u64_sub y 1) else Some (y, mo - 3)) (\<lambda>(y, mo).
     let era = y div 400; yoe = y mod 400 in
     Option.bind (u64 (153 * mo + 2)) (\<lambda>mm.
     Option.bind (Option.bind (u64 (mm div 5 + d)) (\<lambda>x. u64_sub x 1)) (\<lambda>doy.
     Option.bind (u64 (yoe * 365 + yoe div 4 - yoe div 100 + doy)) (\<lambda>doe.
     Option.bind (Option.bind (u64 (era * 146097)) (\<lambda>e. u64 (e + doe))) (\<lambda>days.
     if days < 719468 then Some None
     else map_option Some (Option.bind (u64 ((days - 719468) * 86400)) (\<lambda>a. Option.bind (u64 (h * 3600)) (\<lambda>b.
       Option.bind (u64 (a + b)) (\<lambda>ab. Option.bind (u64 (m * 60)) (\<lambda>c. Option.bind (u64 (ab + c)) (\<lambda>abc. u64 (abc + s))))))))))))"

text \<open>\<open>splitn(3, c)\<close>\<close>

definition splitn3 :: "char \<Rightarrow> string \<Rightarrow> string list" where
  "splitn3 c s =
     (case split_once c s of None \<Rightarrow> [s]
      | Some (a, r) \<Rightarrow> (case split_once c r of None \<Rightarrow> [a, r] | Some (b, r) \<Rightarrow> [a, b, r]))"

definition parse_rfc3339_utc :: "string \<Rightarrow> nat option option" where
  "parse_rfc3339_utc ts =
     (case split_once (CHR ''T'') (trim_end_char (CHR ''Z'') ts) of
        None \<Rightarrow> Some None
      | Some (date, time) \<Rightarrow>
          (case (map (parse_uint 64) (splitn3 (CHR ''-'') date), map (parse_uint 64) (splitn3 (CHR '':'') time)) of
             ([Some y, Some mo, Some d], [Some h, Some m, Some s]) \<Rightarrow> civil_seconds y mo d h m s
           | ([Some y, Some mo, Some d], [Some h, Some m]) \<Rightarrow> civil_seconds y mo d h m 0
           | _ \<Rightarrow> Some None))"

definition format_time_ago :: "nat \<Rightarrow> string \<Rightarrow> string option" where
  "format_time_ago now rfc3339 =
     map_option (\<lambda>r. case r of
        None \<Rightarrow> rfc3339
      | Some when \<Rightarrow>
          if now < when \<or> now - when < 60 then ''just now''
          else if now - when < 3600 then dec ((now - when) div 60) @ ''m ago''
          else if now - when < 86400 then dec ((now - when) div 3600) @ ''h ago''
          else if now - when < 7 * 86400 then dec ((now - when) div 86400) @ ''d ago''
          else (case str_slice rfc3339 0 10 of Some date \<Rightarrow> date | None \<Rightarrow> rfc3339))
       (parse_rfc3339_utc rfc3339)"

subsection \<open>Highlighting\<close>

text \<open>One term: \<open>pos\<close> walks the lower-cased text, \<open>shown\<close> the text itself.\<close>

function highlight_loop :: "string \<Rightarrow> string \<Rightarrow> nat \<Rightarrow> string \<Rightarrow> nat \<Rightarrow> nat \<Rightarrow> string \<Rightarrow> string option" where
  "highlight_loop result lower term_len lower_term pos shown out =
     (if pos < length lower then
        Option.bind (str_slice lower pos (length lower)) (\<lambda>rest.
          case find_sub lower_term rest of
            None \<Rightarrow> map_option (\<lambda>t. out @ t) (str_slice result shown (length result))
          | Some idx \<Rightarrow>
              (let raw_start = pos + idx;
                   start = snap_char_boundary_backward result (min raw_start (length result));
                   stop = max (snap_char_boundary_backward result (min (raw_start + term_len) (length result))) start
               in Option.bind (str_slice result shown start) (\<lambda>plain.
                  Option.bind (str_slice result start stop) (\<lambda>marked.
                    highlight_loop result lower term_len lower_term (max (raw_start + length lower_term) (pos + 1)) stop
                      (out @ plain @ YELLOW @ BOLD @ marked @ RESET)))))
      else map_option (\<lambda>t. out @ t) (str_slice result shown (length result)))"
  by pat_completeness auto
termination
  by (relation "measure (\<lambda>(r, lower, tl, lt, pos, l, o'). length lower - pos)") auto

declare highlight_loop.simps [simp del]

definition highlight_term :: "unicode \<Rightarrow> string \<Rightarrow> string \<Rightarrow> string option" where
  "highlight_term uc t result =
     highlight_loop result (u_lower uc result) (length t) (u_lower uc t) 0 0 []"

definition highlight_terms_unconditional :: "unicode \<Rightarrow> string \<Rightarrow> string \<Rightarrow> string option" where
  "highlight_terms_unconditional uc body query =
     fold (\<lambda>t r. Option.bind r (highlight_term uc t)) (filter (\<lambda>t. 3 \<le> length (chars t)) (split_ws query)) (Some body)"

definition highlight_terms :: "bool \<Rightarrow> unicode \<Rightarrow> string \<Rightarrow> string \<Rightarrow> string option" where
  "highlight_terms ansi uc body query = (if ansi then highlight_terms_unconditional uc body query else Some body)"

subsection \<open>Search results\<close>

datatype json_value = JString string | JNumber nat | JFloat flt

record out_env =
  oe_ansi :: bool
  oe_uc :: unicode
  oe_show4 :: "flt \<Rightarrow> string"
  oe_json :: "(string \<times> json_value) list \<Rightarrow> string"             \<comment> \<open>\<open>to_string_pretty\<close> of an object\<close>
  oe_json_array :: "(string \<times> json_value) list list \<Rightarrow> string"  \<comment> \<open>and of an array of them\<close>

definition snippet_of :: "out_env \<Rightarrow> string \<Rightarrow> nat \<Rightarrow> search_result \<Rightarrow> snippet_result option" where
  "snippet_of oe query max_len r =
     extract_snippet (oe_uc oe) (sr_body r) query max_len (sr_best_chunk_pos r) (length (chars (sr_best_chunk r)))"

definition content_of :: "bool \<Rightarrow> search_result \<Rightarrow> snippet_result \<Rightarrow> string" where
  "content_of show_full r sn = (if show_full then sr_body r else snippet sn)"

text \<open>Every result is printed, or the first panic ends the command.\<close>

fun concat_opt :: "string option list \<Rightarrow> string option" where
  "concat_opt [] = Some []"
| "concat_opt (x # xs) = Option.bind x (\<lambda>a. map_option ((@) a) (concat_opt xs))"

definition cli_result :: "out_env \<Rightarrow> bool \<Rightarrow> string \<Rightarrow> bool \<Rightarrow> search_result \<Rightarrow> (nat \<times> nat) option \<Rightarrow> string option" where
  "cli_result oe show_full query is_last r section =
     Option.bind (snippet_of oe query 500 r) (\<lambda>sn.
       let ansi = oe_ansi oe;
           low = u_lower (oe_uc oe) (join [NL] (drop 1 (lines (snippet sn))));
           has_match = list_ex (\<lambda>t. t \<noteq> [] \<and> contains (u_lower (oe_uc oe) t) low) (split_ws query);
           line_info = (if has_match then '':'' @ dec (snip_line sn) else []);
           section_str = (case section of Some (n, of_n) \<Rightarrow> paint ansi DIM ('' (section '' @ dec n @ '' of '' @ dec of_n @ '')'') | None \<Rightarrow> [])
       in map_option (\<lambda>shown.
            paint ansi CYAN (sr_file r) @ paint ansi DIM line_info @ paint ansi DIM ('' #'' @ sr_docid r) @ section_str @ [NL] @
            (if sr_title r = [] then [] else paint ansi BOLD (''Title: '' @ sr_title r) @ [NL]) @
            (case sr_context r of Some ctx \<Rightarrow> if ctx = [] then [] else paint ansi DIM (''Context: '' @ ctx) @ [NL] | None \<Rightarrow> []) @
            ''Score: '' @ paint ansi BOLD (format_score ansi (sr_score r)) @ [NL, NL] @ shown @ [NL] @
            (if is_last then [] else [NL, NL]))
          (highlight_terms ansi (oe_uc oe) (content_of show_full r sn) query))"

definition print_cli :: "out_env \<Rightarrow> bool \<Rightarrow> string \<Rightarrow> search_result list \<Rightarrow> string option" where
  "print_cli oe show_full query results =
     (if results = [] then Some (''No results found.'' @ [NL])
      else concat_opt (map (\<lambda>(i, r, section). cli_result oe show_full query (i + 1 = length results) r section)
        (enumerate 0 (zip results (section_numbers results)))))"

definition json_object :: "out_env \<Rightarrow> bool \<Rightarrow> string \<Rightarrow> search_result \<Rightarrow> (string \<times> json_value) list option" where
  "json_object oe show_full query r =
     map_option (\<lambda>sn.
       [(''docid'', JString (''#'' @ sr_docid r)),
        (''score'', JFloat (fdiv binary32 (fround (fmul binary32 (sr_score r) (Fin 100))) (Fin 100))),
        (''file'', JString (sr_file r)), (''line'', JNumber (snip_line sn)), (''title'', JString (sr_title r))] @
       (case sr_context r of Some ctx \<Rightarrow> [(''context'', JString ctx)] | None \<Rightarrow> []) @
       [if show_full then (''body'', JString (sr_body r)) else (''snippet'', JString (snippet sn))])
     (snippet_of oe query 300 r)"

fun all_opt :: "'a option list \<Rightarrow> 'a list option" where
  "all_opt [] = Some []"
| "all_opt (x # xs) = Option.bind x (\<lambda>a. map_option ((#) a) (all_opt xs))"

definition print_json :: "out_env \<Rightarrow> bool \<Rightarrow> string \<Rightarrow> search_result list \<Rightarrow> string option" where
  "print_json oe show_full query results =
     (if results = [] then Some (''[]'' @ [NL])
      else map_option (\<lambda>objs. oe_json_array oe objs @ [NL]) (all_opt (map (json_object oe show_full query) results)))"

definition QUOTE :: char where "QUOTE = CHR 0x22"

definition csv_field :: "string \<Rightarrow> string" where
  "csv_field s =
     (if CHR '','' \<in> set s \<or> QUOTE \<in> set s \<or> NL \<in> set s
      then [QUOTE] @ concat (map (\<lambda>c. if c = QUOTE then [QUOTE, QUOTE] else [c]) s) @ [QUOTE] else s)"

definition csv_header :: "string list" where
  "csv_header = [''docid'', ''score'', ''file'', ''title'', ''context'', ''line'', ''snippet'']"

definition csv_line :: "out_env \<Rightarrow> bool \<Rightarrow> string \<Rightarrow> search_result \<Rightarrow> string option" where
  "csv_line oe show_full query r =
     map_option (\<lambda>sn.
       join '','' [''#'' @ sr_docid r, oe_show4 oe (sr_score r), csv_field (sr_file r), csv_field (sr_title r),
         csv_field (case sr_context r of Some ctx \<Rightarrow> ctx | None \<Rightarrow> []), dec (snip_line sn), csv_field (content_of show_full r sn)] @ [NL])
     (snippet_of oe query 500 r)"

definition print_csv :: "out_env \<Rightarrow> bool \<Rightarrow> string \<Rightarrow> search_result list \<Rightarrow> string option" where
  "print_csv oe show_full query results =
     map_option ((@) (join '','' csv_header @ [NL])) (concat_opt (map (csv_line oe show_full query) results))"

definition md_result :: "out_env \<Rightarrow> bool \<Rightarrow> string \<Rightarrow> search_result \<Rightarrow> (nat \<times> nat) option \<Rightarrow> string option" where
  "md_result oe show_full query r section =
     map_option (\<lambda>sn.
       ''---'' @ [NL] @ ''# '' @ (if sr_title r = [] then sr_file r else sr_title r) @ [NL] @
       ''**file:** `'' @ sr_file r @ ''`'' @ [NL] @
       ''**docid:** `#'' @ sr_docid r @ ''`'' @ [NL] @
       (case section of Some (n, of_n) \<Rightarrow> ''**section:** '' @ dec n @ '' of '' @ dec of_n @ [NL] | None \<Rightarrow> []) @
       (case sr_context r of Some c \<Rightarrow> ''**context:** '' @ c @ [NL] | None \<Rightarrow> []) @ [NL] @
       (if show_full then trim (sr_body r) else trim_end (snippet sn)) @ [NL, NL])
     (snippet_of oe query 500 r)"

definition print_markdown :: "out_env \<Rightarrow> bool \<Rightarrow> string \<Rightarrow> search_result list \<Rightarrow> string option" where
  "print_markdown oe show_full query results =
     concat_opt (map (\<lambda>(r, section). md_result oe show_full query r section) (zip results (section_numbers results)))"

text \<open>\<open>replace\<close> of one ASCII character.\<close>

definition replace_char :: "char \<Rightarrow> string \<Rightarrow> string \<Rightarrow> string" where
  "replace_char c by_text s = concat (map (\<lambda>x. if x = c then by_text else [x]) s)"

definition xml_escape :: "string \<Rightarrow> string" where
  "xml_escape s =
     replace_char (CHR 0x27) ''&apos;'' (replace_char QUOTE ''&quot;''
       (replace_char (CHR ''>'') ''&gt;'' (replace_char (CHR ''<'') ''&lt;'' (replace_char (CHR ''&'') ''&amp;'' s))))"

definition xml_attr :: "string \<Rightarrow> string \<Rightarrow> string" where
  "xml_attr name val = '' '' @ name @ ''='' @ [QUOTE] @ val @ [QUOTE]"

definition xml_result :: "out_env \<Rightarrow> bool \<Rightarrow> string \<Rightarrow> search_result \<Rightarrow> (nat \<times> nat) option \<Rightarrow> string option" where
  "xml_result oe show_full query r section =
     map_option (\<lambda>sn.
       ''<file'' @ xml_attr ''docid'' (''#'' @ xml_escape (sr_docid r)) @ xml_attr ''name'' (xml_escape (sr_file r)) @
       (case section of Some (n, of_n) \<Rightarrow> xml_attr ''section'' (dec n @ '' of '' @ dec of_n) | None \<Rightarrow> []) @
       (if sr_title r = [] then [] else xml_attr ''title'' (xml_escape (sr_title r))) @
       (case sr_context r of Some c \<Rightarrow> xml_attr ''context'' (xml_escape c) | None \<Rightarrow> []) @ ''>'' @ [NL] @
       xml_escape (content_of show_full r sn) @ [NL] @ ''</file>'' @ [NL, NL])
     (snippet_of oe query 500 r)"

definition print_xml :: "out_env \<Rightarrow> bool \<Rightarrow> string \<Rightarrow> search_result list \<Rightarrow> string option" where
  "print_xml oe show_full query results =
     (if results = [] then Some (''<results></results>'' @ [NL])
      else concat_opt (map (\<lambda>(r, section). xml_result oe show_full query r section) (zip results (section_numbers results))))"

text \<open>A collection that is not among the roots is only warned about.\<close>

definition print_files :: "(string \<rightharpoonup> string) \<Rightarrow> search_result list \<Rightarrow> string" where
  "print_files roots results =
     concat (map (\<lambda>r. case roots (sr_collection r) of Some base \<Rightarrow> resolve_absolute_path base (sr_path r) @ [NL] | None \<Rightarrow> [])
       (dedup_on sr_file results))"

fun print_results ::
  "out_env \<Rightarrow> search_result list \<Rightarrow> format \<Rightarrow> bool \<Rightarrow> string \<Rightarrow> (string \<rightharpoonup> string) \<Rightarrow> string option" where
  "print_results oe results FJson show_full query roots = print_json oe show_full query results"
| "print_results oe results FCsv show_full query roots = print_csv oe show_full query results"
| "print_results oe results FMd show_full query roots = print_markdown oe show_full query results"
| "print_results oe results FXml show_full query roots = print_xml oe show_full query results"
| "print_results oe results FFiles show_full query roots = Some (print_files roots results)"
| "print_results oe results FCli show_full query roots = print_cli oe show_full query results"

subsection \<open>Documents\<close>

datatype print_error = NoAbsolutePath | UnsupportedFormat string

fun number_lines :: "nat \<Rightarrow> string list \<Rightarrow> string" where
  "number_lines i [] = []"
| "number_lines i (l # ls) = pad_to 4 (dec i) @ ''  '' @ l @ [NL] @ number_lines (i + 1) ls"

definition RULE :: "nat \<Rightarrow> string" where
  "RULE n = concat (replicate n [CHR 0xE2, CHR 0x94, CHR 0x80])"

definition print_document ::
  "out_env \<Rightarrow> string \<Rightarrow> string \<Rightarrow> string \<Rightarrow> format \<Rightarrow> nat option \<Rightarrow> bool \<Rightarrow> string option \<Rightarrow> print_error + string" where
  "print_document oe file title body fmt max_lines line_numbers abs_path =
     (let shown = (case max_lines of Some n \<Rightarrow> join [NL] (take n (lines body)) | None \<Rightarrow> body) in
      case fmt of
        FJson \<Rightarrow> Inr (oe_json oe [(''file'', JString file), (''title'', JString title), (''body'', JString shown)] @ [NL])
      | FFiles \<Rightarrow> (case abs_path of None \<Rightarrow> Inl NoAbsolutePath | Some p \<Rightarrow> Inr (p @ [NL]))
      | FCli \<Rightarrow>
          Inr (paint (oe_ansi oe) BOLD (''# '' @ title) @ [NL] @
               paint (oe_ansi oe) DIM (RULE 2 @ '' '' @ file @ '' '' @ RULE 2) @ [NL, NL] @
               (if line_numbers then number_lines 1 (lines shown) else shown @ [NL]))
      | _ \<Rightarrow> Inl (UnsupportedFormat (format_name fmt)))"

subsection \<open>CSV reads back\<close>

text \<open>A reader of RFC 4180 that ends a row at a newline.\<close>

fun read_quoted :: "string \<Rightarrow> string \<Rightarrow> (string \<times> string) option" where
  "read_quoted acc [] = None"
| "read_quoted acc (c # s) =
     (if c = QUOTE
      then (case s of d # t \<Rightarrow> if d = QUOTE then read_quoted (acc @ [QUOTE]) t else Some (acc, s) | [] \<Rightarrow> Some (acc, s))
      else read_quoted (acc @ [c]) s)"

definition field_end :: "char \<Rightarrow> bool" where
  "field_end c \<longleftrightarrow> c = CHR '','' \<or> c = NL"

definition read_field :: "string \<Rightarrow> (string \<times> string) option" where
  "read_field s =
     (case s of c # t \<Rightarrow> if c = QUOTE then read_quoted [] t else Some (takeWhile (\<lambda>c. \<not> field_end c) s, dropWhile (\<lambda>c. \<not> field_end c) s)
      | [] \<Rightarrow> Some ([], []))"

text \<open>\<open>n\<close> rows of \<open>k + 1\<close> fields.\<close>

fun read_row :: "nat \<Rightarrow> string \<Rightarrow> (string list \<times> string) option" where
  "read_row 0 s = (case read_field s of Some (f, c # r) \<Rightarrow> if c = NL then Some ([f], r) else None | _ \<Rightarrow> None)"
| "read_row (Suc k) s =
     (case read_field s of Some (f, c # r) \<Rightarrow> if c = CHR '','' then map_option (\<lambda>(fs, r). (f # fs, r)) (read_row k r) else None | _ \<Rightarrow> None)"

fun read_rows :: "nat \<Rightarrow> nat \<Rightarrow> string \<Rightarrow> string list list option" where
  "read_rows 0 k s = (if s = [] then Some [] else None)"
| "read_rows (Suc n) k s = Option.bind (read_row k s) (\<lambda>(row, r). map_option ((#) row) (read_rows n k r))"

definition needs_no_quotes :: "string \<Rightarrow> bool" where
  "needs_no_quotes s \<longleftrightarrow> CHR '','' \<notin> set s \<and> QUOTE \<notin> set s \<and> NL \<notin> set s"

lemma csv_field_plain: "needs_no_quotes s \<Longrightarrow> csv_field s = s"
  by (simp add: csv_field_def needs_no_quotes_def)

lemma dec_plain: "needs_no_quotes (dec n)"
proof -
  have "is_ascii_digit c" if "c \<in> set (dec n)" for c
    using dec_digits [of n] that by (simp add: list_all_iff)
  moreover have "\<not> is_ascii_digit (CHR '','')" "\<not> is_ascii_digit QUOTE" "\<not> is_ascii_digit NL"
    by (simp_all add: is_ascii_digit_def QUOTE_def)
  ultimately show ?thesis unfolding needs_no_quotes_def by blast
qed

lemma read_quoted_field:
  "c \<noteq> QUOTE \<Longrightarrow>
   read_quoted acc (concat (map (\<lambda>c. if c = QUOTE then [QUOTE, QUOTE] else [c]) s) @ QUOTE # c # r) = Some (acc @ s, c # r)"
  by (induction s arbitrary: acc) auto

lemma read_csv_field:
  assumes "field_end c"
  shows "read_field (csv_field s @ c # r) = Some (s, c # r)"
proof (cases "needs_no_quotes s")
  case True
  then have "\<forall>x\<in>set s. \<not> field_end x" by (auto simp: field_end_def needs_no_quotes_def)
  then have "takeWhile (\<lambda>c. \<not> field_end c) (s @ c # r) = s" "dropWhile (\<lambda>c. \<not> field_end c) (s @ c # r) = c # r"
    using assms by (simp_all add: takeWhile_append2 dropWhile_append2)
  moreover have "(case s @ c # r of x # _ \<Rightarrow> x \<noteq> QUOTE | [] \<Rightarrow> False)"
    using True assms by (cases s) (auto simp: field_end_def needs_no_quotes_def QUOTE_def)
  ultimately show ?thesis
    unfolding csv_field_plain [OF True] by (cases "s @ c # r") (simp_all add: read_field_def)
next
  case False
  have "c \<noteq> QUOTE" using assms by (auto simp: field_end_def QUOTE_def)
  then show ?thesis
    using False read_quoted_field [of c "[]" s r] by (simp add: csv_field_def needs_no_quotes_def read_field_def)
qed

lemma read_csv_row: "read_row (length fs) (join '','' (map csv_field (f # fs)) @ NL # r) = Some (f # fs, r)"
proof (induction fs arbitrary: f)
  case Nil
  show ?case by (simp add: read_csv_field field_end_def)
next
  case (Cons g fs)
  then show ?case using read_csv_field [of "CHR '',''" f] by (simp add: field_end_def)
qed

lemma read_csv_row_of: "n + 1 = length fs \<Longrightarrow> read_row n (join '','' (map csv_field fs) @ NL # r) = Some (fs, r)"
  using read_csv_row [of "tl fs" "hd fs" r] by (cases fs) auto

definition csv_fields :: "out_env \<Rightarrow> bool \<Rightarrow> search_result \<Rightarrow> snippet_result \<Rightarrow> string list" where
  "csv_fields oe show_full r sn =
     [''#'' @ sr_docid r, oe_show4 oe (sr_score r), sr_file r, sr_title r,
      (case sr_context r of Some ctx \<Rightarrow> ctx | None \<Rightarrow> []), dec (snip_line sn), content_of show_full r sn]"

definition csv_plain :: "out_env \<Rightarrow> search_result \<Rightarrow> bool" where
  "csv_plain oe r \<longleftrightarrow> needs_no_quotes (sr_docid r) \<and> needs_no_quotes (oe_show4 oe (sr_score r))"

lemma csv_line_fields:
  assumes "csv_plain oe r" and "snippet_of oe query 500 r = Some sn"
  shows "csv_line oe show_full query r = Some (join '','' (map csv_field (csv_fields oe show_full r sn)) @ [NL])"
proof -
  have "needs_no_quotes (''#'' @ sr_docid r)" using assms(1) by (simp add: csv_plain_def needs_no_quotes_def QUOTE_def)
  with assms show ?thesis
    by (simp add: csv_line_def csv_fields_def csv_plain_def csv_field_plain dec_plain)
qed

lemma read_csv_rows:
  "\<forall>r\<in>set results. csv_plain oe r \<Longrightarrow> concat_opt (map (csv_line oe show_full query) results) = Some out \<Longrightarrow>
   \<exists>sns. all_opt (map (snippet_of oe query 500) results) = Some sns
     \<and> read_rows (length results) 6 out = Some (map2 (csv_fields oe show_full) results sns)"
proof (induction results arbitrary: out)
  case (Cons r results)
  obtain sn where sn: "snippet_of oe query 500 r = Some sn"
    using Cons.prems(2) by (cases "snippet_of oe query 500 r") (auto simp: csv_line_def)
  have l: "csv_line oe show_full query r = Some (join '','' (map csv_field (csv_fields oe show_full r sn)) @ [NL])"
    using Cons.prems(1) sn by (simp add: csv_line_fields)
  with Cons.prems(2) obtain rest where rest: "concat_opt (map (csv_line oe show_full query) results) = Some rest"
    and out: "out = join '','' (map csv_field (csv_fields oe show_full r sn)) @ NL # rest"
    by (cases "concat_opt (map (csv_line oe show_full query) results)") auto
  have "read_row 6 out = Some (csv_fields oe show_full r sn, rest)"
    unfolding out by (rule read_csv_row_of) (simp add: csv_fields_def)
  with Cons.IH [OF _ rest] Cons.prems(1) sn show ?case by auto
qed simp

lemma csv_lines_print:
  "\<forall>r\<in>set results. valid_utf8 (sr_body r) \<and> is_char_boundary (sr_body r) (sr_best_chunk_pos r) \<Longrightarrow>
   \<exists>out. concat_opt (map (csv_line oe show_full query) results) = Some out"
proof (induction results)
  case (Cons r results)
  obtain sn where "snippet_of oe query 500 r = Some sn"
    using extract_snippet_total [of "sr_body r" "sr_best_chunk_pos r" "oe_uc oe" query 500 "length (chars (sr_best_chunk r))"] Cons.prems
    by (auto simp: snippet_of_def)
  with Cons show ?case by (auto simp: csv_line_def)
qed simp

text \<open>C38: The CSV a search prints is complete and reads back: for results as the searches give them (bodies
  that are well-formed text, chunks that start at a character) printing ends, and a reader of RFC 4180
  gets the header and then one row of seven fields for each result, with the file, the title, the
  context and the snippet or the whole body byte for byte, whatever commas, quotes and newlines they
  hold. The two fields that are printed as they are, the document id and the score, are only asked to
  hold none of these.\<close>

theorem csv_output_reads_back:
  assumes "\<forall>r\<in>set results. valid_utf8 (sr_body r) \<and> is_char_boundary (sr_body r) (sr_best_chunk_pos r)"
    and "\<forall>r\<in>set results. csv_plain oe r"
  shows "\<exists>out sns. print_results oe results FCsv show_full query roots = Some out
    \<and> all_opt (map (snippet_of oe query 500) results) = Some sns
    \<and> read_rows (length results + 1) 6 out = Some (csv_header # map2 (csv_fields oe show_full) results sns)"
proof -
  obtain rows where rows: "concat_opt (map (csv_line oe show_full query) results) = Some rows"
    using csv_lines_print [OF assms(1)] by blast
  define out where "out = join '','' csv_header @ NL # rows"
  have "print_results oe results FCsv show_full query roots = Some out"
    using rows by (simp add: print_csv_def out_def)
  moreover have "map csv_field csv_header = csv_header"
    by (simp add: csv_header_def csv_field_def QUOTE_def)
  then have "read_row 6 out = Some (csv_header, rows)"
    using read_csv_row_of [of 6 csv_header rows] by (simp add: out_def) (simp add: csv_header_def)
  ultimately show ?thesis using read_csv_rows [OF assms(2) rows] by auto
qed

definition plain_env :: out_env where
  "plain_env = \<lparr>oe_ansi = False, oe_uc = ascii_unicode, oe_show4 = (\<lambda>_. ''0.5000''), oe_json = (\<lambda>_. []), oe_json_array = (\<lambda>_. [])\<rparr>"

definition comma_result :: search_result where
  "comma_result = \<lparr>sr_file = ''rqmd://c/a,b.md'', sr_title = [QUOTE, CHR ''x'', NL], sr_body = ''a, b'', sr_best_chunk = [], sr_best_chunk_pos = 0,
     sr_score = Fin (1 / 2), sr_docid = ''1f'', sr_collection = ''c'', sr_path = ''a,b.md'', sr_context = None\<rparr>"

lemma csv_output_reads_back_witness:
  "\<exists>out sns. print_results plain_env [comma_result] FCsv True ''b'' Map.empty = Some out
    \<and> all_opt (map (snippet_of plain_env ''b'' 500) [comma_result]) = Some sns
    \<and> read_rows (length [comma_result] + 1) 6 out = Some (csv_header # map2 (csv_fields plain_env True) [comma_result] sns)"
proof (rule csv_output_reads_back)
  have "valid_utf8 ''a, b''" by (rule valid_utf8_ascii) simp
  then show "\<forall>r\<in>set [comma_result]. valid_utf8 (sr_body r) \<and> is_char_boundary (sr_body r) (sr_best_chunk_pos r)"
    by (simp add: comma_result_def is_char_boundary_def)
  show "\<forall>r\<in>set [comma_result]. csv_plain plain_env r"
    by (simp add: csv_plain_def needs_no_quotes_def plain_env_def comma_result_def QUOTE_def)
qed

subsection \<open>Panics\<close>

text \<open>The position in the lower-cased text moves by the length of the lower-cased term, the end of the mark by
  the length of the term itself. Three Kelvin signs, nine bytes, become \<open>kkk\<close>: the second match starts
  before the first mark ends, and slicing panics.\<close>

lemma kelvin_query_panics:
  assumes "u_lower uc (concat (replicate 3 [CHR 0xE2, CHR 0x84, CHR 0xAA])) = ''kkk''" and "u_lower uc ''kkkkkk'' = ''kkkkkk''"
  shows "highlight_term uc (concat (replicate 3 [CHR 0xE2, CHR 0x84, CHR 0xAA])) ''kkkkkk'' = None"
proof -
  let ?t = "''kkkkkk''"
  have len: "length ?t = 6" "length (concat (replicate 3 [CHR 0xE2, CHR 0x84, CHR 0xAA])) = 9" by (simp_all add: numeral_3_eq_3)
  have min_numerals: "min 0 6 = (0 :: nat)" "min 3 6 = (3 :: nat)" "min 6 6 = (6 :: nat)" "min (0 + 9) 6 = (6 :: nat)"
    "min (3 + 9) 6 = (6 :: nat)" "max 6 0 = (6 :: nat)" by simp_all
  have b: "is_char_boundary ?t 0" "is_char_boundary ?t 3" "is_char_boundary ?t 6"
    by (simp_all add: is_char_boundary_def is_cont_def)
  have "snap_down ?t i = i" if "is_char_boundary ?t i" for i
    using that by (cases i) simp_all
  then have d: "snap_char_boundary_backward ?t 0 = 0" "snap_char_boundary_backward ?t 3 = 3" "snap_char_boundary_backward ?t 6 = 6"
    unfolding snap_char_boundary_backward_def len using b by (simp_all only: min_numerals)
  have f: "find_sub ''kkk'' ?t = Some 0" "find_sub ''kkk'' ''kkk'' = Some 0"
    by (simp_all add: starts_with_def)
  have s: "str_slice ?t 0 6 = Some ?t" "str_slice ?t 3 6 = Some ''kkk''" "str_slice ?t 0 0 = Some []" "str_slice ?t 0 6 = Some ?t" "str_slice ?t 6 3 = None"
    using b by (simp_all add: str_slice_def)
  have 2: "highlight_loop ?t ?t 9 ''kkk'' 3 6 out = None" for out
    by (subst highlight_loop.simps) (simp only: len s f d Let_def min_numerals, simp add: d s f del: find_sub.simps)
  show ?thesis
    unfolding highlight_term_def assms
    by (subst highlight_loop.simps) (simp only: len s f d Let_def min_numerals, simp add: d s f 2 2 [unfolded numeral_3_eq_3] del: find_sub.simps)
qed

text \<open>A day 0, or January of the year 0, ends in a subtraction below zero.\<close>

lemma day_zero_panics: "civil_seconds 2024 3 0 h m s = None" "civil_seconds 0 1 1 h m s = None"
  by (simp_all add: civil_seconds_def u64_def u64_sub_def Let_def)

lemma epoch_parses: "civil_seconds 1970 1 1 0 0 0 = Some (Some 0)"
  by (simp add: civil_seconds_def u64_def u64_sub_def Let_def)

end
