(* ===== verification/GetCmd.thy ===== *)
theory GetCmd
  imports CollectionCmd Output Search Resolve
begin

text \<open>
  \<open>rqmd get\<close>, \<open>multi-get\<close> and \<open>ls\<close>, \<open>crates/rqmd-cli/src/commands/get.rs\<close>, and \<open>rqmd similar\<close>,
  \<open>commands/similar.rs\<close>: the argument that names a document, finding it, and what is printed on stdout.
  \<open>st\<close> is the opened store, or \<open>None\<close> when there is no index.
\<close>

datatype get_error =
  NoIndex | CannotParse string | NoSuchDocid string | NotFoundAt string | GPrint print_error | GResolve resolve_error
| GSearch search_error | GPanicked

record path_spec =
  ps_collection :: string
  ps_path :: string

definition path_spec_parse :: "string \<Rightarrow> path_spec option" where
  "path_spec_parse s =
     (case strip_prefix ''#'' (strip_scheme s) of
        Some rest \<Rightarrow> Some \<lparr>ps_collection = [], ps_path = ''#'' @ rest\<rparr>
      | None \<Rightarrow> map_option (\<lambda>(c, p). \<lparr>ps_collection = c, ps_path = p\<rparr>) (split_once (CHR ''/'') (strip_scheme s)))"

definition is_docid :: "path_spec \<Rightarrow> bool" where
  "is_docid spec \<longleftrightarrow> starts_with ''#'' (ps_path spec)"

definition docid_hex :: "path_spec \<Rightarrow> string" where
  "docid_hex spec = trim_start_char (CHR ''#'') (ps_path spec)"

definition find_document :: "db \<Rightarrow> string \<Rightarrow> get_error + document" where
  "find_document db arg =
     (case path_spec_parse arg of
        None \<Rightarrow> Inl (CannotParse arg)
      | Some spec \<Rightarrow>
          if is_docid spec
          then (case get_document_by_docid_prefix (docid_hex spec) db of
              None \<Rightarrow> Inl (NoSuchDocid (docid_hex spec)) | Some d \<Rightarrow> Inr d)
          else (case get_active_document_by_filepath (ps_collection spec) (ps_path spec) db of
              None \<Rightarrow> Inl (NotFoundAt arg) | Some d \<Rightarrow> Inr d))"

text \<open>Only \<open>--format files\<close> needs the roots.\<close>

definition collection_roots :: "codec \<Rightarrow> db \<Rightarrow> format \<Rightarrow> string \<rightharpoonup> string" where
  "collection_roots j db fmt =
     (if fmt \<noteq> FFiles then Map.empty else map_of (rev (map (\<lambda>c. (col_name c, col_path c)) (list_collections j db))))"

definition document_uri :: "document \<Rightarrow> string" where
  "document_uri d = ''rqmd://'' @ doc_collection d @ ''/'' @ doc_path d"

definition show_document ::
  "out_env \<Rightarrow> ('ix, 'f) store \<Rightarrow> (string \<rightharpoonup> string) \<Rightarrow> format \<Rightarrow> nat option \<Rightarrow> bool \<Rightarrow> document \<Rightarrow> print_error + string" where
  "show_document oe st roots fmt max_lines numbers d =
     print_document oe (document_uri d) (doc_title d) (raw_body st (doc_id d)) fmt max_lines numbers
       (map_option (\<lambda>base. resolve_absolute_path base (doc_path d)) (roots (doc_collection d)))"

definition run_get ::
  "out_env \<Rightarrow> codec \<Rightarrow> ('ix, 'f) store option \<Rightarrow> string \<Rightarrow> nat option \<Rightarrow> bool \<Rightarrow> format \<Rightarrow> get_error + string" where
  "run_get oe j opened arg max_lines no_line_numbers fmt =
     (case opened of
        None \<Rightarrow> Inl NoIndex
      | Some st \<Rightarrow>
          rbind (find_document (st_db st) arg) (\<lambda>d.
            smap_err GPrint (show_document oe st (collection_roots j (st_db st) fmt) fmt max_lines (\<not> no_line_numbers) d)))"

text \<open>The first error ends the command; the documents before it are already printed.\<close>

fun show_documents ::
  "out_env \<Rightarrow> ('ix, 'f) store \<Rightarrow> (string \<rightharpoonup> string) \<Rightarrow> format \<Rightarrow> nat option \<Rightarrow> bool \<Rightarrow> document list \<Rightarrow> string \<times> print_error option" where
  "show_documents oe st roots fmt max_lines first [] = ([], None)"
| "show_documents oe st roots fmt max_lines first (d # ds) =
     (let sep = (if \<not> first \<and> fmt = FCli then [NL] @ RULE 60 @ [NL] else []) in
      case show_document oe st roots fmt max_lines False d of
        Inl e \<Rightarrow> (sep, Some e)
      | Inr printed \<Rightarrow> (case show_documents oe st roots fmt max_lines False ds of (rest, r) \<Rightarrow> (sep @ printed @ rest, r)))"

definition clean_entry :: "string \<Rightarrow> string" where
  "clean_entry e = concat (map (\<lambda>c. if is_control c then ''?'' else c) (chars e))"

definition multi_get_report_lines :: "multi_get_report \<Rightarrow> string list" where
  "multi_get_report_lines r =
     map (\<lambda>e. ''rqmd multi-get: no document matched '' @ [QUOTE] @ clean_entry e @ [QUOTE]) (mr_unmatched r) @
     map (\<lambda>(e, n). ''rqmd multi-get: '' @ [QUOTE] @ clean_entry e @ [QUOTE] @ '' matched '' @ dec n @
        '' documents; all are returned'') (mr_ambiguous r)"

text \<open>What goes to stdout, what goes to stderr, and the error that ends the command.\<close>

definition run_multi_get ::
  "out_env \<Rightarrow> codec \<Rightarrow> (string \<Rightarrow> (string \<Rightarrow> bool) option) \<Rightarrow> ('ix, 'f) store option \<Rightarrow> string \<Rightarrow> string list option \<Rightarrow> nat option \<Rightarrow> format
    \<Rightarrow> string \<times> string list \<times> get_error option" where
  "run_multi_get oe j glob opened pattern cols max_lines fmt =
     (case opened of
        None \<Rightarrow> ([], [], Some NoIndex)
      | Some st \<Rightarrow>
          (case resolve_multi_get_report glob (st_db st) cols pattern of
             Inl e \<Rightarrow> ([], [], Some (GResolve e))
           | Inr report \<Rightarrow>
               (case show_documents oe st (collection_roots j (st_db st) fmt) fmt max_lines True (mr_documents report) of
                  (printed, Some e) \<Rightarrow> (printed, [], Some (GPrint e))
                | (printed, None) \<Rightarrow>
                    (printed, multi_get_report_lines report @
                       (if mr_documents report = [] then [''No documents matched: '' @ pattern] else []), None))))"

definition ls_filter :: "string option \<Rightarrow> string option \<times> string option" where
  "ls_filter path =
     (case path of
        None \<Rightarrow> (None, None)
      | Some p \<Rightarrow>
          (case split_once (CHR ''/'') (strip_scheme p) of
             Some (coll, pfx) \<Rightarrow> (Some coll, Some pfx)
           | None \<Rightarrow> (Some (strip_scheme p), None)))"

definition ls_documents :: "db \<Rightarrow> string \<Rightarrow> string option \<Rightarrow> document list" where
  "ls_documents db coll pfx =
     filter (\<lambda>d. case pfx of None \<Rightarrow> True | Some p \<Rightarrow> starts_with p (doc_path d)) (list_documents (Some coll) db)"

definition ls_row :: "db \<Rightarrow> collection \<Rightarrow> string" where
  "ls_row db c =
     pad_right 30 (col_name c) @ ''  '' @ dec (nat (fst (collection_doc_stats (col_name c) db))) @ '' docs  '' @ col_path c @
     (if col_include_by_default c then [] else '' (excluded)'')"

definition run_ls :: "codec \<Rightarrow> string \<Rightarrow> db option \<Rightarrow> string option \<Rightarrow> string list" where
  "run_ls j index_dir opened path =
     (case opened of
        None \<Rightarrow> [no_index_line index_dir]
      | Some db \<Rightarrow>
          (case ls_filter path of
             (Some coll, pfx) \<Rightarrow>
               if list_documents (Some coll) db = [] then [''(no documents in collection '' @ quoted coll @ '')'']
               else map document_uri (ls_documents db coll pfx)
           | (None, _) \<Rightarrow>
               if list_collections j db = [] then [''No collections. Run `rqmd collection add <path>` to add one.'']
               else map (ls_row db) (list_collections j db)))"

definition run_similar ::
  "out_env \<Rightarrow> codec \<Rightarrow> ('ix, 'v, 'f, 'g) qenv \<Rightarrow> ('ix, 'f) store \<Rightarrow> string \<Rightarrow> nat \<Rightarrow> format \<Rightarrow> get_error + string" where
  "run_similar oe j qe st ref_arg n fmt =
     rbind (find_document (st_db st) ref_arg) (\<lambda>d.
       rbind (smap_err GSearch (similar_to_hash qe st (doc_hash d) (doc_collection d) (doc_path d) n)) (\<lambda>results.
         case print_results oe results fmt False [] (collection_roots j (st_db st) fmt) of
           None \<Rightarrow> Inl GPanicked | Some out \<Rightarrow> Inr out))"

subsection \<open>Addresses\<close>

text \<open>A collection name that an address can carry: besides what \<open>collection add\<close> asks, it must not begin
  with a hash, and \<open>rqmd:\<close> is ambiguous before a path that begins with two slashes.\<close>

lemma path_spec_hash: "path_spec_parse (''#'' @ c @ ''/'' @ p) = Some \<lparr>ps_collection = [], ps_path = ''#'' @ c @ ''/'' @ p\<rparr>"
proof -
  have "strip_scheme (''#'' @ c @ ''/'' @ p) = ''#'' @ c @ ''/'' @ p"
    by (subst strip_scheme.simps) (simp add: scheme_def starts_with_def)
  then show ?thesis by (simp add: path_spec_parse_def strip_prefix_def starts_with_def)
qed

lemma strip_scheme_address:
  assumes "CHR ''/'' \<notin> set c" and "\<not> starts_with ''/'' p"
  shows "strip_scheme (''rqmd://'' @ c @ ''/'' @ p) = c @ ''/'' @ p"
proof -
  have "\<not> starts_with scheme (c @ ''/'' @ p)"
  proof
    assume "starts_with scheme (c @ ''/'' @ p)"
    then obtain r where r: "c @ ''/'' @ p = ''rqmd:'' @ ''/'' @ ''/'' @ r"
      by (auto simp: starts_with_append scheme_def)
    have "split_once (CHR ''/'') (c @ ''/'' @ p) = Some (c, p)"
      using assms(1) by (induction c) auto
    moreover have "split_once (CHR ''/'') (''rqmd:'' @ ''/'' @ ''/'' @ r) = Some (''rqmd:'', ''/'' @ r)" by simp
    ultimately have "p = ''/'' @ r" using r by (metis option.inject prod.inject)
    with assms(2) show False by (simp add: starts_with_def)
  qed
  then have "strip_scheme (c @ ''/'' @ p) = c @ ''/'' @ p" by (subst strip_scheme.simps) simp
  then show ?thesis by (subst strip_scheme.simps) (simp add: scheme_def starts_with_def)
qed

lemma split_once_at: "c \<notin> set a \<Longrightarrow> split_once c (a @ c # b) = Some (a, b)"
  by (induction a) auto

lemma parse_address:
  assumes "CHR ''/'' \<notin> set c" and "\<not> starts_with ''#'' c" and "\<not> starts_with ''/'' p"
  shows "path_spec_parse (''rqmd://'' @ c @ ''/'' @ p) = Some \<lparr>ps_collection = c, ps_path = p\<rparr>"
proof -
  have "\<not> starts_with ''#'' (c @ ''/'' @ p)" using assms(2) by (cases c) (auto simp: starts_with_def)
  then show ?thesis
    using split_once_at [OF assms(1), of p] strip_scheme_address [OF assms(1,3)] by (simp add: path_spec_parse_def strip_prefix_def)
qed

lemma find_listed:
  assumes "db_ok db" and "d \<in> set (list_documents (Some c) db)"
  shows "get_active_document_by_filepath (doc_collection d) (doc_path d) db = Some d \<and> doc_collection d = c"
proof -
  obtain r where r: "r \<in> set (documents db)" "d_active r" "d_collection r = c" "d = to_document r"
    using assms(2) by (auto simp: list_documents_def list_documents_multi_def in_collections_def)
  then have "tab_find doc_key (doc_key r) (documents db) = Some r" using db_okD(2) [OF assms(1)] by (intro tab_find_unique)
  with r show ?thesis by (simp add: get_active_document_by_filepath_def get_document_by_filepath_def to_document_def)
qed


definition hash_db :: db where
  "hash_db = empty_db\<lparr>contents := [\<lparr>ct_hash = ''aa'', ct_doc = ''x'', ct_created = []\<rparr>],
     documents := [new_doc_row ''notes'' ''a.md'' ''A'' ''aa'' [] 1, new_doc_row ''notes'' ''#b.md'' ''B'' ''aa'' [] 2], last_doc_id := 2\<rparr>"


end
