(* ===== verification/QueryCmd.thy ===== *)
theory QueryCmd
  imports GetCmd SearchScope HybridSpec
begin

text \<open>
  \<open>rqmd query\<close>, \<open>search\<close> and \<open>vsearch\<close>, \<open>crates/rqmd-cli/src/commands/query.rs\<close>: opening the store, the
  warnings, the search, its progress and the printed results, and the exit codes of
  \<open>crates/rqmd-cli/src/exit.rs\<close>. What is written to stderr is a list of lines.
\<close>

subsection \<open>Exit codes\<close>

definition EXIT_PARTIAL :: nat where "EXIT_PARTIAL = 2"
definition EXIT_TIMEOUT :: nat where "EXIT_TIMEOUT = 124"
definition EXIT_SIGNAL_BASE :: nat where "EXIT_SIGNAL_BASE = 128"

datatype run_failure = PartialFailure string | RunTimedOut timed_out | RunInterrupted int | RunNoIndex string | OtherFailure string

definition interrupted_message :: "int \<Rightarrow> string" where
  "interrupted_message n =
     (if n = 1 then ''interrupted by SIGHUP'' else if n = 2 then ''interrupted by SIGINT''
      else if n = 15 then ''interrupted by SIGTERM'' else ''interrupted by signal '' @ int_string n)"

text \<open>\<open>saturating_add\<close> of \<open>u8\<close>; a signal that is no \<open>u8\<close> counts as 0.\<close>

fun exit_code :: "run_failure option \<Rightarrow> nat" where
  "exit_code None = 0"
| "exit_code (Some (PartialFailure _)) = EXIT_PARTIAL"
| "exit_code (Some (RunTimedOut _)) = EXIT_TIMEOUT"
| "exit_code (Some (RunInterrupted n)) = min 255 (EXIT_SIGNAL_BASE + (if 0 \<le> n \<and> n \<le> 255 then nat n else 0))"
| "exit_code (Some (RunNoIndex _)) = 1"
| "exit_code (Some (OtherFailure _)) = 1"

subsection \<open>Warnings\<close>

definition fingerprint_stale :: "(string \<Rightarrow> string) \<Rightarrow> string list \<Rightarrow> string \<Rightarrow> db \<Rightarrow> bool" where
  "fingerprint_stale sha feats model db \<longleftrightarrow>
     list_ex (\<lambda>(fp, _). fp \<notin> set (expected_fingerprint_set sha feats model)) (fingerprint_breakdown_active db)"

definition raw_backfill_pending :: "('ix, 'f) store \<Rightarrow> bool" where
  "raw_backfill_pending st \<longleftrightarrow> \<not> raw_split_backfilled st \<and> documents (st_db st) \<noteq> []"

definition rerank_warning :: "rerank_status \<Rightarrow> nat option \<Rightarrow> string option" where
  "rerank_warning status timeout =
     map_option (\<lambda>notice. ''rqmd: warning: '' @ notice @
       (case (status, timeout) of
          (Failed, _) \<Rightarrow> '' (set RUST_LOG=warn for details)''
        | (DeadlineExpired, Some limit) \<Rightarrow>
            '' (--timeout of '' @ dec (limit div NANOS) @ ''s; add --timeout-strict to exit 124 instead)''
        | _ \<Rightarrow> []))
       (rerank_notice status)"

subsection \<open>Stages\<close>

datatype query_stage = Searching | Embedding | Expanding | Reranking nat nat

fun stage_label :: "query_stage \<Rightarrow> string" where
  "stage_label Searching = ''Searching keywords''"
| "stage_label Embedding = ''Loading model / embedding query''"
| "stage_label Expanding = ''Loading model / expanding query''"
| "stage_label (Reranking finished whole) =
     (if finished = 0 then ''Loading model / reranking 0/'' @ dec whole
      else ''Reranking '' @ dec finished @ ''/'' @ dec whole)"

definition report_stage :: "nat option \<Rightarrow> query_stage \<Rightarrow> query_stage option \<times> progress \<Rightarrow> query_stage option \<times> progress" where
  "report_stage width stage s =
     (if fst s = Some stage then s
      else (Some stage,
        case stage of Reranking finished whole \<Rightarrow> progress_show width (stage_label stage) finished whole (snd s)
        | _ \<Rightarrow> progress_stage width (stage_label stage) (snd s)))"

text \<open>What the observer writes during a query that passes the stages, and then the wiped line; an inactive
  display installs no observer.\<close>

definition query_progress :: "nat option \<Rightarrow> query_stage list \<Rightarrow> progress \<Rightarrow> progress" where
  "query_progress width stages p =
     progress_clear width (if pg_mode p = POff then p else snd (fold (report_stage width) stages (None, p)))"

subsection \<open>The timings report\<close>

definition plural :: "nat \<Rightarrow> string \<Rightarrow> string" where
  "plural n one = dec n @ '' '' @ one @ (if n = 1 then [] else ''s'')"

definition pass_line :: "(nat \<Rightarrow> string) \<Rightarrow> nat \<Rightarrow> ann_pass \<Rightarrow> string" where
  "pass_line ms i p =
     ''ann pass '' @ dec (i + 1) @ '' ['' @ ap_phase p @ ''] k='' @ dec (ap_k p) @ '' vectors fetched='' @ dec (ap_fetched p) @
     '' in scope='' @ dec (ap_in_scope p) @ '' ann='' @ ms (ap_ann p) @ '' per-hit lookups='' @ dec (ap_fetched p) @
     '' lookup time='' @ ms (ap_lookup p)"

definition attributed :: "query_timings \<Rightarrow> nat" where
  "attributed t =
     qt_bm25 t + qt_embed t + ann_time t + lookup_time t + qt_expansion_generate t + qt_fuse t + qt_resolve t +
     qt_chunk_select t + qt_rerank t + qt_assemble t"

definition render_timings :: "(nat \<Rightarrow> string) \<Rightarrow> query_timings \<Rightarrow> string" where
  "render_timings ms t =
     concat (map (\<lambda>line. ''rqmd: timings: '' @ line @ [NL])
       ([''total '' @ ms (qt_total t),
         ''bm25 '' @ ms (qt_bm25 t) @ '' ('' @ plural (qt_bm25_calls t) ''call'' @ '', scope ids '' @ ms (qt_bm25_scope t) @ '')'',
         ''embed '' @ ms (qt_embed t) @ '' ('' @ plural (qt_embed_calls t) ''call'' @ '', includes first model load)''] @
        map (\<lambda>(i, p). pass_line ms i p) (enumerate 0 (ann_passes t)) @
        [''ann total '' @ dec (length (ann_passes t)) @ '' pass(es) ann='' @ ms (ann_time t) @ '' per-hit lookups='' @
           dec (lookups t) @ '' lookup time='' @ ms (lookup_time t),
         ''expansion generate '' @ ms (qt_expansion_generate t) @ '' search '' @ ms (qt_expansion_search t) @
           '' (search includes its embeds, ann passes and keyword calls above)'',
         ''fusion '' @ ms (qt_fuse t) @ '' ('' @ plural (fused_from t) ''list'' @ '' fused into '' @ plural (fused t) ''candidate'' @ '')'',
         ''resolve candidates '' @ ms (qt_resolve t) @ '' ('' @ plural (resolve_lookups t) ''lookup'' @ '')'',
         ''chunk select '' @ ms (qt_chunk_select t),
         (if query_timings.rerank_chunks t = 0 then ''rerank not run''
          else ''rerank '' @ ms (qt_rerank t) @ '' ('' @ plural (query_timings.rerank_chunks t) ''section'' @ '')''),
         ''assemble '' @ ms (qt_assemble t),
         ''unattributed '' @ ms (qt_total t - attributed t)]))"

subsection \<open>The commands\<close>

datatype query_failure = QNoIndex | QSearch search_error | QPanicked

record query_options =
  qo_intent :: "string option"
  qo_collections :: "string list option"
  qo_num :: nat
  qo_options :: search_options
  qo_fmt :: format
  qo_no_rerank :: bool
  qo_full :: bool
  qo_no_expand :: bool
  qo_timeout :: "nat option"
  qo_timeout_strict :: bool

text \<open>The shape the three commands share.\<close>

definition run_search_command ::
  "out_env \<Rightarrow> codec \<Rightarrow> ('ix, 'f) store option \<Rightarrow> string \<Rightarrow> format \<Rightarrow> bool \<Rightarrow> (('ix, 'f) store \<Rightarrow> search_error + search_result list)
    \<Rightarrow> query_failure + string" where
  "run_search_command oe j opened query fmt full search =
     (case opened of
        None \<Rightarrow> Inl QNoIndex
      | Some st \<Rightarrow>
          rbind (smap_err QSearch (search st)) (\<lambda>results.
            case print_results oe results fmt full query (collection_roots j (st_db st) fmt) of
              None \<Rightarrow> Inl QPanicked | Some out \<Rightarrow> Inr out))"

definition run_search ::
  "out_env \<Rightarrow> ('ix, 'v, 'f, 'g) qenv \<Rightarrow> ('ix, 'f) store option \<Rightarrow> string \<Rightarrow> string list option \<Rightarrow> nat \<Rightarrow> search_options \<Rightarrow> format \<Rightarrow> bool
    \<Rightarrow> query_failure + string" where
  "run_search oe qe opened query cols n options fmt full =
     run_search_command oe (q_codec qe) opened query fmt full (\<lambda>st. store_search_fts_multi_with qe st query n cols options)"

definition run_vsearch ::
  "out_env \<Rightarrow> ('ix, 'v, 'f, 'g) qenv \<Rightarrow> ('ix, 'f) store option \<Rightarrow> string \<Rightarrow> string list option \<Rightarrow> nat \<Rightarrow> search_options \<Rightarrow> format \<Rightarrow> bool
    \<Rightarrow> query_failure + string" where
  "run_vsearch oe qe opened query cols n options fmt full =
     run_search_command oe (q_codec qe) opened query fmt full (\<lambda>st. store_search_vec_multi_with qe st query n cols options)"

text \<open>\<open>now\<close> is the clock when the deadline starts; \<open>cache\<close> is the query cache when it is in use.\<close>

definition run_query ::
  "out_env \<Rightarrow> ('ix, 'v, 'f, 'g) qenv \<Rightarrow> ('ix, 'f) store option \<Rightarrow> string \<Rightarrow> query_options \<Rightarrow> nat \<Rightarrow> model_cache option
    \<Rightarrow> query_failure + string" where
  "run_query oe qe opened query qo now cache =
     (let d = (case qo_timeout qo of Some limit \<Rightarrow> deadline_after now limit | None \<Rightarrow> deadline_none) in
      run_search_command oe (q_codec qe) opened query (qo_fmt qo) (qo_full qo) (\<lambda>st.
        rbind (snd (hybrid_query_outcome_with qe st query (qo_intent qo) (qo_num qo) (qo_collections qo) (qo_no_rerank qo)
          (qo_no_expand qo) d (qo_timeout_strict qo) (qo_options qo) cache)) (\<lambda>out. Inr (out_results out))))"

subsection \<open>What the commands print\<close>

lemma roots_in: "collection_roots j db fmt c = Some base \<Longrightarrow> \<exists>k\<in>set (collections db). k_name k = c \<and> k_path k = base"
  by (auto simp: collection_roots_def list_collections_def to_collection_def dest!: map_of_SomeD split: if_splits)

lemma print_files_lines:
  "\<exists>ls. print_files roots results = concat (map (\<lambda>(base, c, p). resolve_absolute_path base p @ [NL]) ls)
    \<and> length ls \<le> length results
    \<and> list_all (\<lambda>(base, c, p). roots c = Some base \<and> (\<exists>r\<in>set results. sr_collection r = c \<and> sr_path r = p)) ls"
proof -
  let ?line = "\<lambda>r. case roots (sr_collection r) of Some base \<Rightarrow> resolve_absolute_path base (sr_path r) @ [NL] | None \<Rightarrow> []"
  have "\<exists>ls. concat (map ?line rs) = concat (map (\<lambda>(base, c, p). resolve_absolute_path base p @ [NL]) ls) \<and> length ls \<le> length rs
      \<and> list_all (\<lambda>(base, c, p). roots c = Some base \<and> (\<exists>r\<in>set rs. sr_collection r = c \<and> sr_path r = p)) ls" for rs
  proof (induction rs)
    case (Cons r rs)
    then obtain ls where ls: "concat (map ?line rs) = concat (map (\<lambda>(base, c, p). resolve_absolute_path base p @ [NL]) ls)"
        "length ls \<le> length rs" "list_all (\<lambda>(base, c, p). roots c = Some base \<and> (\<exists>r\<in>set rs. sr_collection r = c \<and> sr_path r = p)) ls"
      by blast
    show ?case
    proof (cases "roots (sr_collection r)")
      case None
      with ls show ?thesis by (intro exI [of _ ls]) (auto simp: list_all_iff split: prod.splits)
    next
      case (Some base)
      with ls show ?thesis
        by (intro exI [of _ "(base, sr_collection r, sr_path r) # ls"]) (auto simp: list_all_iff split: prod.splits)
    qed
  qed simp
  from this [of "dedup_on sr_file results"] show ?thesis
    using dedup_seen_subset [of sr_file "{}" results] dedup_seen_length [of sr_file "{}" results]
    unfolding print_files_def by (fastforce simp: list_all_iff split: prod.splits)
qed

text \<open>C40: What \<open>rqmd search --format files\<close> prints can be piped: it is at most as many lines as results were
  asked for, and each line is the path of a document stored in one of the searched collections, below
  the directory that the collection is registered with. Without an index nothing is opened, and no
  stale entry of the full-text index, of a removed collection for example, becomes a line.\<close>

theorem search_files_in_scope:
  assumes ok: "db_ok (st_db st)" and e: "effective_collections (q_codec qe) (st_db st) cols = Some cs" and plain: "plain_names cs"
    and run: "run_search oe qe (Some st) query cols n options FFiles full = Inr out"
  shows "\<exists>ls. out = concat (map (\<lambda>(base, c, p). resolve_absolute_path base p @ [NL]) ls) \<and> length ls \<le> n
    \<and> list_all (\<lambda>(base, c, p). c \<in> set cs \<and> get_document_by_filepath c p (st_db st) \<noteq> None
        \<and> (\<exists>k\<in>set (collections (st_db st)). k_name k = c \<and> k_path k = base)) ls"
proof -
  obtain rs where rs: "store_search_fts_multi_with qe st query n cols options = Inr rs"
    and out: "out = print_files (collection_roots (q_codec qe) (st_db st) FFiles) rs"
    using run by (cases "store_search_fts_multi_with qe st query n cols options") (auto simp: run_search_def run_search_command_def)
  have sh: "length rs \<le> n" "list_all (shows_doc st cs) rs"
    using keyword_search_shows [OF ok e plain, where query = query and limit = n and options = options] rs by simp_all
  obtain ls where ls: "out = concat (map (\<lambda>(base, c, p). resolve_absolute_path base p @ [NL]) ls)" "length ls \<le> length rs"
    "list_all (\<lambda>(base, c, p). collection_roots (q_codec qe) (st_db st) FFiles c = Some base \<and> (\<exists>r\<in>set rs. sr_collection r = c \<and> sr_path r = p)) ls"
    using print_files_lines [of "collection_roots (q_codec qe) (st_db st) FFiles" rs] out by blast
  have "c \<in> set cs \<and> get_document_by_filepath c p (st_db st) \<noteq> None \<and> (\<exists>k\<in>set (collections (st_db st)). k_name k = c \<and> k_path k = base)"
    if x: "(base, c, p) \<in> set ls" for base c p
  proof -
    obtain r where r: "r \<in> set rs" "sr_collection r = c" "sr_path r = p" and b: "collection_roots (q_codec qe) (st_db st) FFiles c = Some base"
      using ls(3) x by (auto simp: list_all_iff)
    have "shows_doc st cs r" using sh(2) r(1) by (simp add: list_all_iff)
    then show ?thesis using r(2,3) roots_in [OF b] by (auto simp: shows_doc_def split: option.splits)
  qed
  with ls(1,2) sh(1) show ?thesis by (intro exI [of _ ls]) (auto simp: list_all_iff)
qed

definition notes_db :: db where
  "notes_db = empty_db\<lparr>contents := [\<lparr>ct_hash = ''aa'', ct_doc = ''x'', ct_created = []\<rparr>],
     documents := [new_doc_row ''c'' ''a.md'' ''A'' ''aa'' [] 1], last_doc_id := 1,
     collections := [(blank_coll ''c'')\<lparr>k_path := ''/n''\<rparr>]\<rparr>"

definition notes_store :: "(nat \<times> (nat \<times> nat) list, nat \<times> (nat \<times> nat) list) store" where
  "notes_store = empty_store\<lparr>st_db := notes_db,
     st_fts := fts_create\<lparr>fi_committed := [
       \<lparr>fe_path = ''c/a.md'', fe_title = ''A'', fe_body = ''x'', fe_frontmatter = None, fe_id = 1\<rparr>,
       \<lparr>fe_path = ''c/gone.md'', fe_title = ''G'', fe_body = ''x'', fe_frontmatter = None, fe_id = 7\<rparr>]\<rparr>\<rparr>"

lemma notes_hits:
  "fts_scoped sample_qenv notes_store ''x'' 5 (Some [''c'']) = [(''c/a.md'', 1, norm_score (Fin 1))]"
  by (simp add: fts_scoped_def search_fts_scoped_def sample_qenv_def notes_store_def notes_db_def empty_store_def fts_create_def
    Let_def active_document_ids_in_collections_def new_doc_row_def empty_db_def fetch_limit_def in_scope_path_def starts_with_def full_path_def)

lemma notes_scope: "effective_collections (q_codec sample_qenv) (st_db notes_store) (Some [''c'']) = Some [''c'']"
  by (simp add: effective_collections_def)

lemma notes_results:
  "\<exists>r. store_search_fts_multi_with sample_qenv notes_store ''x'' 5 (Some [''c'']) search_options_default = Inr [r]
    \<and> sr_collection r = ''c'' \<and> sr_path r = ''a.md''"
proof -
  have d: "get_document_by_id 1 (st_db notes_store) = Some \<lparr>doc_id = 1, doc_collection = ''c'', doc_path = ''a.md'', doc_title = ''A'', doc_hash = ''aa'', doc_active = True\<rparr>"
    by (simp add: get_document_by_id_def notes_store_def notes_db_def new_doc_row_def to_document_def)
  have b: "raw_body notes_store 1 = []"
    by (simp add: raw_body_def get_document_raw_def notes_store_def notes_db_def new_doc_row_def)
  have f: "first_chunk (e_uc (q_env sample_qenv)) [] = Some []"
    by code_simp
  show ?thesis
    unfolding store_search_fts_multi_with_def Let_def notes_scope
    using notes_hits d b f
    by (simp add: search_options_default_def clamp_per_file_def hits_to_results_def List.map_filter_simps result_from_doc_def)
qed

lemma notes_roots: "collection_roots (q_codec sample_qenv) (st_db notes_store) FFiles ''c'' = Some ''/n''"
  by code_simp

lemma notes_searched:
  "run_search plain_env sample_qenv (Some notes_store) ''x'' (Some [''c'']) 5 search_options_default FFiles False = Inr (''/n/a.md'' @ [NL])"
proof -
  have p: "resolve_absolute_path ''/n'' ''a.md'' = ''/n/a.md''" by code_simp
  obtain r where "store_search_fts_multi_with sample_qenv notes_store ''x'' 5 (Some [''c'']) search_options_default = Inr [r]"
    "sr_collection r = ''c''" "sr_path r = ''a.md''"
    using notes_results by blast
  then show ?thesis
    by (simp add: run_search_def run_search_command_def print_files_def notes_roots p)
qed

lemma search_files_in_scope_witness:
  "\<exists>ls. ''/n/a.md'' @ [NL] = concat (map (\<lambda>(base, c, p). resolve_absolute_path base p @ [NL]) ls) \<and> length ls \<le> 5
    \<and> list_all (\<lambda>(base, c, p). c \<in> set [''c''] \<and> get_document_by_filepath c p (st_db notes_store) \<noteq> None
        \<and> (\<exists>k\<in>set (collections (st_db notes_store)). k_name k = c \<and> k_path k = base)) ls"
proof (rule search_files_in_scope)
  show "db_ok (st_db notes_store)"
    by (simp add: db_ok_def tab_unique_def vids_def notes_store_def notes_db_def new_doc_row_def blank_coll_def empty_db_def)
  show "effective_collections (q_codec sample_qenv) (st_db notes_store) (Some [''c'']) = Some [''c'']"
    by (rule notes_scope)
  show "plain_names [''c'']" by simp
  show "run_search plain_env sample_qenv (Some notes_store) ''x'' (Some [''c'']) 5 search_options_default FFiles False = Inr (''/n/a.md'' @ [NL])"
    by (rule notes_searched)
qed

end
