(* ===== verification/Spec2Isabelle.thy ===== *)
theory Spec2Isabelle
  imports Rrf Query Frontmatter Snippet Resolve DbColls Exclusion Lock Hnsw Cjk EvalMetrics Deadline Fts AstChunk EmbedReuse Sections ModelCache Hybrid HybridSpec SearchScope Documents Update UpdateSpec Embed EmbedSpec McpHttp Daemon Mcp Refresh McpTools CollectionCmd ContextCmd Watch Output GetCmd QueryCmd
begin

text \<open>
  \<^bold>\<open>rqmd: a model of the search engine and of its command line\<close>

  rqmd indexes directories of documents and searches them by keyword, by vector and by both. Its crates are
  \<open>rqmd-core\<close> (the engine), \<open>rqmd-cli\<close> (the commands), \<open>rqmd-mcp\<close> (a server) and \<open>rqmd-llm\<close> (the models).
  These theories model \<open>crates/rqmd-core/src\<close>, the commands, what they print, the server's tools and its daemon.
  Files are named below without that prefix; \<open>cli/\<close> stands for \<open>crates/rqmd-cli/src/\<close> and \<open>mcp/\<close> for
  \<open>crates/rqmd-mcp/src/\<close>.

  \<^bold>\<open>How the parts interact.\<close> \<open>rqmd update\<close> walks each collection's directory, prepares every document (title,
  frontmatter, raw text), and hands it to the store, which writes the content and the document row to SQLite and
  an entry to the full-text index; what is gone from the directory is deactivated. \<open>rqmd embed\<close> chunks each
  text without current vectors, encodes the chunks or copies vectors with the same key, adds them to the vector
  index, saves its file and then writes the rows that refer to it. A query asks the full-text index, the vector
  index, or several of both from an expansion, fuses the ranked lists, picks chunks, reranks them and shows
  sections, as terminal text, JSON, CSV, Markdown, XML or paths. \<open>rqmd watch\<close> and the server's refresh run the
  update of the collections that changed. The server answers searches and document reads within limits; its
  daemon is stopped through a pidfile after checks of its identity. An index lock keeps two writers apart. Collections, contexts and the next vector id are rows of the
  same database.

  \<^bold>\<open>Values.\<close> A Rust \<open>str\<close> is the list of its UTF-8 bytes (\<open>RustStr\<close>, \<open>StrOps\<close>); slicing off a character boundary
  is a panic, which is the value \<open>None\<close> or the error \<open>Panicked\<close>. \<open>f32\<close> and \<open>f64\<close> are rationals rounded to the
  format, with infinities and NaN (\<open>F32\<close>). Vector ids are naturals below \<open>2 ^ 64\<close> with the wrap-around written
  out, and SQLite stores them as signed integers (\<open>Sql\<close>). Errors are the left of a sum. \<open>sort_by\<close> of \<open>Prelude\<close> is
  Rust's stable sort; the locale of comparators in \<open>Prelude\<close> says what it asks of its argument and is
  interpreted where the program sorts.

  \<^bold>\<open>Theories and code.\<close>
  \<^item> \<open>Prelude\<close>, \<open>RustStr\<close>, \<open>StrOps\<close>, \<open>F32\<close>, \<open>Sql\<close>: results, sorting, tables, strings, floating point, \<open>LIKE\<close>, casts.
  \<^item> \<open>Types\<close> (\<open>types.rs\<close>), \<open>Rrf\<close> (\<open>rrf.rs\<close>), \<open>Query\<close> (\<open>query.rs\<close>), \<open>Frontmatter\<close> (\<open>frontmatter.rs\<close>), \<open>Deadline\<close>
    (\<open>deadline.rs\<close>), \<open>EvalMetrics\<close> (\<open>eval_metrics.rs\<close>), \<open>Cjk\<close> (\<open>cjk_tokenizer.rs\<close>): each file's data and functions.
  \<^item> \<open>BreakPoints\<close>, \<open>Chunking\<close>, \<open>Snippet\<close> (\<open>chunking.rs\<close>) and \<open>AstChunk\<close> (\<open>ast_chunk.rs\<close>): the scans, the window over
    break points, code cut at declarations, snippets.
  \<^item> \<open>Db\<close> (\<open>db.rs\<close>): the tables as lists of rows and one definition per statement of SQL the file sends; \<open>DbInv\<close>,
    \<open>DbDocs\<close>, \<open>DbColls\<close>: what they promise. \<open>Resolve\<close> (\<open>resolve.rs\<close>), \<open>Exclusion\<close> (\<open>embed_exclusion.rs\<close>).
  \<^item> \<open>Lock\<close> (\<open>lock.rs\<close>, \<open>cli/commands/unlock.rs\<close>): a step relation over the file system, with a holder, a
    breaker of stale locks and a heartbeat. \<open>Hnsw\<close> (\<open>hnsw.rs\<close>): ids, the add loop, saving through a temporary file.
    \<open>Fts\<close> (\<open>fts.rs\<close>): a writer's staged operations over committed entries, and the retry loop.
  \<^item> \<open>Fingerprint\<close>, \<open>Indexing\<close> (\<open>store.rs\<close>, the writing half), \<open>IndexSpec\<close>, \<open>EmbedReuse\<close>: the record \<open>store\<close> holds the
    database, the full-text index, the vector index and the directory with its file.
  \<^item> \<open>ModelCache\<close> (\<open>model_cache.rs\<close>), \<open>Sections\<close>, \<open>Search\<close>, \<open>Hybrid\<close> (\<open>store.rs\<close>, the reading half, and
    \<open>store/query_cache.rs\<close>), \<open>HybridSpec\<close>, \<open>SearchScope\<close>.
  \<^item> \<open>Documents\<close> (\<open>cli/exclusions.rs\<close>, \<open>cli/document.rs\<close>), \<open>Update\<close>, \<open>UpdateSpec\<close>, \<open>Embed\<close>, \<open>EmbedSpec\<close>
    (\<open>cli/commands/index.rs\<close>): the walk and the two commands that write the index.
  \<^item> \<open>Refresh\<close> (\<open>cli/commands/refresh.rs\<close>), \<open>Watch\<close> (\<open>cli/commands/watch.rs\<close>): passes over changed collections.
  \<^item> \<open>CollectionCmd\<close>, \<open>ContextCmd\<close> (\<open>cli/commands/collection.rs\<close>, \<open>context.rs\<close>): registering, removing, renaming and
    setting collections, and their contexts.
  \<^item> \<open>Output\<close> (\<open>cli/format.rs\<close>), \<open>GetCmd\<close> (\<open>cli/commands/get.rs\<close>, \<open>similar.rs\<close>), \<open>QueryCmd\<close> (\<open>cli/commands/query.rs\<close>,
    \<open>cli/exit.rs\<close>): what the reading commands find and print, and the exit codes.
  \<^item> \<open>Mcp\<close>, \<open>McpTools\<close> (\<open>mcp/server.rs\<close>, \<open>mcp/refresh.rs\<close>): bounds, pages and windows, and the five tools. \<open>McpHttp\<close>
    (\<open>mcp/lib.rs\<close>): requests in progress and the idle exit, host checks. \<open>Daemon\<close> (\<open>cli/daemon.rs\<close>): the pidfile
    and its life.

  \<^bold>\<open>What is shown.\<close> Every database reachable by the calls of \<open>db.rs\<close> is well formed; the configuration, the
  full-text index and the collections refine maps; ids are never issued twice and a save survives a crash; one
  writer holds the lock; indexing, embedding with reuse, updating a collection and a whole embed run do exactly
  what they say, on every outcome; chunking, snippets and scans return for every text without a panic; fusion
  ranks by its score and does not depend on the order of ties; searches show only what they were asked to
  search, end, and neither a failing reranker nor the cache changes an answer; walking with pruned folders
  finds the same files. Every collection subcommand keeps names addressable and removing a collection leaves
  the others whole; a context is read where it was set; a tick of watch and a refresh touch only what is due
  and give the lock back; CSV reads back, printed paths and addresses lead to the documents they name; a tool's
  answer stays in its bounds, and a daemon is only signalled once it is known to be ours. Properties carry an id \<open>C\<close> and stand beside the lemmas they rest on.

  \<^bold>\<open>Parameters.\<close> usearch, Tantivy's tokenizer, tree-sitter, SHA-256, the Unicode tables, globset, the walkers, the
  codec of JSON strings, the models, the clock, signals and hooks are not under src/ or are the outside world:
  they are arguments, and what is relied on is a named hypothesis (\<open>usearch_contract\<close>, \<open>ann_laws\<close>,
  \<open>index_laws\<close>, the laws of a codec, \<open>filters_entries\<close>) with an instance that meets it. SQLite is modelled by what the
  statements mean: a transaction that fails is undone, and an error of the disk inside SQLite is not modelled.

  \<^bold>\<open>Bounds and fuel.\<close> Loops are total functions with a measure. Two may run forever as written and are partial
  functions whose value is \<open>None\<close> when they do not end: \<open>chunk_loop\<close>, shown to end on every text, and \<open>widen\<close>, shown
  to end on every index. The retry loop of \<open>Fts\<close> and the collision loop of \<open>Hnsw\<close> count down the retries that the
  code itself allows. Where ids could
  run out of 64 bits, a hypothesis bounds the number of chunks.

  \<^bold>\<open>Not modelled.\<close> Opening and migrating the SQLite file and log lines; the inference backends of \<open>rqmd-llm\<close>;
  sockets, router and protocol of the server, \<open>rqmd mcp\<close> and \<open>check_port_free\<close>; the size and kind of the terminal
  and the embed line's bar; \<open>rqmd eval\<close> and \<open>bench\<close>, which run searches and time them (the metrics are in
  \<open>EvalMetrics\<close>); parsing the command line; signal handlers and child processes. These are effects on the outside
  world or code that only calls libraries.
\<close>

end
